(* ===== verification/Prelude.thy ===== *)
theory Prelude
  imports Complex_Main "HOL-Library.Sublist" "HOL-Library.Char_ord"
begin

text \<open>
  Shared vocabulary of the development: Python values as they cross a JSON
  boundary, the process environment, exceptions as values, and the handful of
  \<^theory_text>\<open>str\<close> methods the program relies on, together with the generic lemmas the
  component theories share.

  Strings are lists of 8-bit characters: a Python string is modelled by its
  code points below 256, and the case and whitespace tables below are those
  Python uses on that range.
\<close>

section \<open>Fact collections\<close>

named_theorems gate_simps \<open>unfolding rules of the environment gates\<close>
named_theorems step_intros \<open>introduction rules of the step relations\<close>

section \<open>Exceptions and results\<close>

text \<open>
  Every raise of the source is a value. The constructors are the exception
  classes the modelled code raises or catches by name.
\<close>

datatype exn =
    ValueError string
  | TypeError string
  | KeyError string
  | AttributeError string
  | OSError string
  | FileNotFound string
  | RuntimeError string
  | JSONDecodeError string
  | Unprintable string

type_synonym 'a result = "exn + 'a"

fun etype :: "exn \<Rightarrow> string" where
  "etype (ValueError _) = ''ValueError''"
| "etype (TypeError _) = ''TypeError''"
| "etype (KeyError _) = ''KeyError''"
| "etype (AttributeError _) = ''AttributeError''"
| "etype (OSError _) = ''OSError''"
| "etype (FileNotFound _) = ''FileNotFoundError''"
| "etype (RuntimeError _) = ''RuntimeError''"
| "etype (JSONDecodeError _) = ''JSONDecodeError''"
| "etype (Unprintable t) = t"

text \<open>\<open>str(exc)\<close>; \<^const>\<open>Unprintable\<close> is an exception whose \<open>__str__\<close> raises.\<close>

fun emsg :: "exn \<Rightarrow> string option" where
  "emsg (ValueError m) = Some m"
| "emsg (TypeError m) = Some m"
| "emsg (KeyError m) = Some m"
| "emsg (AttributeError m) = Some m"
| "emsg (OSError m) = Some m"
| "emsg (FileNotFound m) = Some m"
| "emsg (RuntimeError m) = Some m"
| "emsg (JSONDecodeError m) = Some m"
| "emsg (Unprintable _) = None"

definition bindR :: "'e + 'a \<Rightarrow> ('a \<Rightarrow> 'e + 'b) \<Rightarrow> 'e + 'b" where
  "bindR r f = (case r of Inl e \<Rightarrow> Inl e | Inr a \<Rightarrow> f a)"

lemma bindR_simps [simp]:
  "bindR (Inl e) f = Inl e"
  "bindR (Inr a) f = f a"
  by (simp_all add: bindR_def)

lemma bindR_eq_Inr [simp]:
  "bindR r f = Inr b \<longleftrightarrow> (\<exists>a. r = Inr a \<and> f a = Inr b)"
  by (cases r) simp_all

lemma bindR_eq_Inl:
  "bindR r f = Inl e \<longleftrightarrow> r = Inl e \<or> (\<exists>a. r = Inr a \<and> f a = Inl e)"
  by (cases r) simp_all

definition check :: "bool \<Rightarrow> 'e \<Rightarrow> 'e + unit" where
  "check b e = (if b then Inr () else Inl e)"

lemma check_eq_Inr [simp]: "check b e = Inr u \<longleftrightarrow> b"
  by (simp add: check_def)

lemma check_eq_Inl [simp]: "check b e = Inl x \<longleftrightarrow> \<not> b \<and> x = e"
  by (auto simp: check_def)

lemma check_True [simp]: "check True e = Inr ()"
  by (simp add: check_def)

lemma check_False [simp]: "check False e = Inl e"
  by (simp add: check_def)

text \<open>A computable "returns a value with this property".\<close>

definition holds :: "'e + 'a \<Rightarrow> ('a \<Rightarrow> bool) \<Rightarrow> bool" where
  "holds r p = (case r of Inl _ \<Rightarrow> False | Inr a \<Rightarrow> p a)"

lemma holds_simps [simp]: "holds (Inl e) p = False" "holds (Inr a) p = p a"
  by (simp_all add: holds_def)

lemma holdsE:
  assumes "holds r p"
  obtains a where "r = Inr a" "p a"
  using assms by (cases r) auto

section \<open>Strings\<close>

definition char_code :: "char \<Rightarrow> nat" where
  "char_code c = of_char c"

text \<open>The length in UTF-8: characters below 256 take one byte or two.\<close>

definition utf8_length :: "string \<Rightarrow> nat" where
  "utf8_length s = sum_list (map (\<lambda>c. if char_code c < 128 then 1 else 2) s)"

text \<open>\<open>str.isspace\<close> on the code points below 256: what \<open>str.strip()\<close> removes.\<close>

definition py_space :: "char \<Rightarrow> bool" where
  "py_space c \<longleftrightarrow> char_code c \<in> {9, 10, 11, 12, 13, 28, 29, 30, 31, 32, 133, 160}"

text \<open>The tables on the bits of a character, for evaluation.\<close>

lemma py_space_Char [code]:
  "py_space (Char b0 b1 b2 b3 b4 b5 b6 b7) \<longleftrightarrow>
     \<not> b6 \<and>
     (if b7 then \<not> b4 \<and> \<not> b3 \<and> \<not> b1 \<and> (if b5 then \<not> b2 \<and> \<not> b0 else b2 \<and> b0)
      else if b5 then \<not> b4 \<and> \<not> b3 \<and> \<not> b2 \<and> \<not> b1 \<and> \<not> b0
      else b3 \<and> (if b4 then b2 else (b2 \<or> b1 \<or> b0) \<and> \<not> (b2 \<and> b1)))"
  by (cases b0; cases b1; cases b2; cases b3; cases b4; cases b5; cases b6; cases b7;
      simp add: py_space_def char_code_def)

definition lstrip_where :: "(char \<Rightarrow> bool) \<Rightarrow> string \<Rightarrow> string" where
  "lstrip_where p s = dropWhile p s"

definition rstrip_where :: "(char \<Rightarrow> bool) \<Rightarrow> string \<Rightarrow> string" where
  "rstrip_where p s = rev (dropWhile p (rev s))"

definition py_strip :: "string \<Rightarrow> string" where
  "py_strip s = rstrip_where py_space (lstrip_where py_space s)"

text \<open>\<open>str.lower()\<close> on the code points below 256.\<close>

definition lower_char :: "char \<Rightarrow> char" where
  "lower_char c =
     (let n = char_code c in
      if 65 \<le> n \<and> n \<le> 90 \<or> 192 \<le> n \<and> n \<le> 222 \<and> n \<noteq> 215 then char_of (n + 32) else c)"

lemma lower_char_Char [code]:
  "lower_char (Char b0 b1 b2 b3 b4 b5 b6 b7) =
     (if b6 \<and> \<not> b5 \<and>
         (if b7 then \<not> (b4 \<and> b3 \<and> b2 \<and> b1 \<and> b0) \<and> \<not> (b4 \<and> \<not> b3 \<and> b2 \<and> b1 \<and> b0)
          else (b4 \<or> b3 \<or> b2 \<or> b1 \<or> b0) \<and> \<not> (b4 \<and> b3 \<and> (b2 \<or> b1 \<and> b0)))
      then Char b0 b1 b2 b3 b4 True b6 b7 else Char b0 b1 b2 b3 b4 b5 b6 b7)"
  by (cases b0; cases b1; cases b2; cases b3; cases b4; cases b5; cases b6; cases b7;
      simp add: lower_char_def char_code_def char_of_def bit_0)

definition py_lower :: "string \<Rightarrow> string" where
  "py_lower s = map lower_char s"

text \<open>\<open>p in s\<close> for strings.\<close>

fun contains :: "string \<Rightarrow> string \<Rightarrow> bool" where
  "contains [] p \<longleftrightarrow> p = []"
| "contains (c # cs) p \<longleftrightarrow> prefix p (c # cs) \<or> contains cs p"

lemma contains_iff_sublist: "contains s p \<longleftrightarrow> sublist p s"
  by (induction s) (auto simp: sublist_Cons_right)

lemma contains_Nil [simp]: "contains s []"
  by (cases s) simp_all

lemma py_lower_Nil [simp]: "py_lower [] = []"
  by (simp add: py_lower_def)

lemma length_py_lower [simp]: "length (py_lower s) = length s"
  by (simp add: py_lower_def)

lemma rstrip_where_prefix: "prefix (rstrip_where p s) s"
proof -
  have "suffix (dropWhile p (rev s)) (rev s)" by (rule suffix_dropWhile)
  then show ?thesis by (simp add: rstrip_where_def suffix_to_prefix)
qed

lemma py_strip_Nil [simp]: "py_strip [] = []"
  by (simp add: py_strip_def lstrip_where_def rstrip_where_def)

lemma py_strip_strip: "py_strip (py_strip s) = py_strip s"
proof (cases "py_strip s")
  case Nil
  then show ?thesis by simp
next
  case (Cons c cs)
  let ?t = "dropWhile py_space s" and ?u = "py_strip s"
  have u: "?u = rev (dropWhile py_space (rev ?t))" by (simp add: py_strip_def lstrip_where_def rstrip_where_def)
  have "prefix ?u ?t" using rstrip_where_prefix [of py_space ?t] by (simp add: py_strip_def lstrip_where_def)
  then obtain zs where t: "?t = ?u @ zs" by (auto simp: prefix_def)
  then have "hd ?t = c" "?t \<noteq> []" using Cons by auto
  then have "\<not> py_space c" using hd_dropWhile [of py_space s] by simp
  then have "dropWhile py_space ?u = ?u" using Cons by simp
  moreover have "dropWhile py_space (rev ?u) = rev ?u"
    unfolding u by (simp add: dropWhile_idem)
  ultimately show ?thesis by (simp add: py_strip_def [of ?u] lstrip_where_def rstrip_where_def)
qed

section \<open>The process environment\<close>

text \<open>\<open>os.environ\<close>: a map of variables; \<open>os.getenv(k, d)\<close> reads with a default.\<close>

type_synonym env = "string \<Rightarrow> string option"

definition getenv :: "env \<Rightarrow> string \<Rightarrow> string \<Rightarrow> string" where
  "getenv e k d = (case e k of Some v \<Rightarrow> v | None \<Rightarrow> d)"

text \<open>
  The gate conventions of the program: \<open>os.getenv(k, "false").strip().lower() == "true"\<close>,
  the strict \<open>os.environ.get(k, "") in ("true", "1")\<close> and the loose
  \<open>.strip().lower() in ("1", "true", "yes", "on")\<close>.
\<close>

definition gate_lower_true :: "env \<Rightarrow> string \<Rightarrow> bool" where
  "gate_lower_true e k \<longleftrightarrow> py_lower (py_strip (getenv e k ''false'')) = ''true''"

definition gate_strict :: "env \<Rightarrow> string \<Rightarrow> bool" where
  "gate_strict e k \<longleftrightarrow> getenv e k [] = ''true'' \<or> getenv e k [] = ''1''"

definition gate_loose :: "env \<Rightarrow> string \<Rightarrow> bool" where
  "gate_loose e k \<longleftrightarrow> py_lower (py_strip (getenv e k [])) \<in> {''1'', ''true'', ''yes'', ''on''}"

definition no_env :: env where
  "no_env = Map.empty"

lemma getenv_no_env [simp]: "getenv no_env k d = d"
  by (simp add: getenv_def no_env_def)

lemma getenv_upd [simp]: "getenv (e(k \<mapsto> v)) k' d = (if k' = k then v else getenv e k' d)"
  by (simp add: getenv_def)

lemma lower_strip_false: "py_lower (py_strip ''false'') = ''false''"
  by code_simp

lemma gate_lower_true_unset: "e k = None \<Longrightarrow> \<not> gate_lower_true e k"
  by (simp add: gate_lower_true_def getenv_def lower_strip_false)

lemma gate_strict_unset: "e k = None \<Longrightarrow> \<not> gate_strict e k"
  by (simp add: gate_strict_def getenv_def)

lemma gate_loose_unset: "e k = None \<Longrightarrow> \<not> gate_loose e k"
  by (simp add: gate_loose_def getenv_def)

lemmas gate_unset = gate_lower_true_unset gate_strict_unset gate_loose_unset

section \<open>Python values\<close>

text \<open>
  The values that cross a JSON boundary. A dict is an association list in
  insertion order; the parsers of the program refuse duplicate keys, and
  \<open>dict_get\<close> reads the first entry of a key. Floats are exact rationals.
\<close>

datatype pyv =
    VNone
  | VBool bool
  | VInt int
  | VFloat rat
  | VStr string
  | VList "pyv list"
  | VDict "(string \<times> pyv) list"

type_synonym dict = "(string \<times> pyv) list"

definition dict_get :: "dict \<Rightarrow> string \<Rightarrow> pyv" where
  "dict_get d k = (case map_of d k of Some v \<Rightarrow> v | None \<Rightarrow> VNone)"

text \<open>\<open>d.get(k, v)\<close>.\<close>

definition get_or :: "dict \<Rightarrow> string \<Rightarrow> pyv \<Rightarrow> pyv" where
  "get_or d k v = (case map_of d k of Some w \<Rightarrow> w | None \<Rightarrow> v)"

definition dict_keys :: "dict \<Rightarrow> string set" where
  "dict_keys d = set (map fst d)"

definition dict_has :: "dict \<Rightarrow> string \<Rightarrow> bool" where
  "dict_has d k \<longleftrightarrow> map_of d k \<noteq> None"

text \<open>Assignment \<open>d[k] = v\<close>: in place if the key is there, at the end otherwise.\<close>

fun dict_set :: "dict \<Rightarrow> string \<Rightarrow> pyv \<Rightarrow> dict" where
  "dict_set [] k v = [(k, v)]"
| "dict_set ((k', v') # d) k v = (if k' = k then (k, v) # d else (k', v') # dict_set d k v)"

definition dict_setdefault :: "dict \<Rightarrow> string \<Rightarrow> pyv \<Rightarrow> dict" where
  "dict_setdefault d k v = (if dict_has d k then d else d @ [(k, v)])"

lemma map_of_dict_set [simp]: "map_of (dict_set d k v) = (map_of d)(k \<mapsto> v)"
  by (induction d k v rule: dict_set.induct) auto

lemma map_of_dict_setdefault [simp]:
  "map_of (dict_setdefault d k v) k' =
     (if k' = k \<and> map_of d k = None then Some v else map_of d k')"
  by (auto simp: dict_setdefault_def dict_has_def map_add_def split: option.splits)

lemma dict_get_set [simp]:
  "dict_get (dict_set d k v) k' = (if k' = k then v else dict_get d k')"
  by (simp add: dict_get_def)

lemma dict_has_set [simp]: "dict_has (dict_set d k v) k' \<longleftrightarrow> k' = k \<or> dict_has d k'"
  by (simp add: dict_has_def)

text \<open>Truthiness, as \<open>bool(x)\<close> and \<open>x or y\<close> see it.\<close>

fun truthy :: "pyv \<Rightarrow> bool" where
  "truthy VNone \<longleftrightarrow> False"
| "truthy (VBool b) \<longleftrightarrow> b"
| "truthy (VInt i) \<longleftrightarrow> i \<noteq> 0"
| "truthy (VFloat r) \<longleftrightarrow> r \<noteq> 0"
| "truthy (VStr s) \<longleftrightarrow> s \<noteq> []"
| "truthy (VList xs) \<longleftrightarrow> xs \<noteq> []"
| "truthy (VDict d) \<longleftrightarrow> d \<noteq> []"

definition py_or :: "pyv \<Rightarrow> pyv \<Rightarrow> pyv" where
  "py_or x y = (if truthy x then x else y)"

fun is_str :: "pyv \<Rightarrow> bool" where
  "is_str (VStr _) = True" | "is_str _ = False"

fun is_int :: "pyv \<Rightarrow> bool" where
  "is_int (VInt _) = True" | "is_int _ = False"

fun is_dict :: "pyv \<Rightarrow> bool" where
  "is_dict (VDict _) = True" | "is_dict _ = False"

lemma is_strD: "is_str v \<Longrightarrow> \<exists>s. v = VStr s"
  by (cases v) auto

lemma is_intD: "is_int v \<Longrightarrow> \<exists>i. v = VInt i"
  by (cases v) auto

lemma is_dictD: "is_dict v \<Longrightarrow> \<exists>d. v = VDict d"
  by (cases v) auto

section \<open>Integers from text and from values\<close>

text \<open>
  \<open>int(text)\<close>: surrounding whitespace, an optional sign, then decimal digits in
  which single underscores may separate digits; \<^const>\<open>None\<close> is the \<open>ValueError\<close>.
\<close>

definition is_digit :: "char \<Rightarrow> bool" where
  "is_digit c \<longleftrightarrow> 48 \<le> char_code c \<and> char_code c \<le> 57"

definition digit_val :: "char \<Rightarrow> int" where
  "digit_val c = int (char_code c) - 48"

fun parse_digits :: "bool \<Rightarrow> int \<Rightarrow> string \<Rightarrow> int option" where
  "parse_digits after_digit acc [] = (if after_digit then Some acc else None)"
| "parse_digits after_digit acc (c # cs) =
     (if is_digit c then parse_digits True (acc * 10 + digit_val c) cs
      else if c = CHR ''_'' \<and> after_digit then parse_digits False acc cs
      else None)"

definition parse_int :: "string \<Rightarrow> int option" where
  "parse_int text =
     (case py_strip text of
        [] \<Rightarrow> None
      | c # cs \<Rightarrow>
          if c = CHR ''-'' then map_option uminus (parse_digits False 0 cs)
          else if c = CHR ''+'' then parse_digits False 0 cs
          else parse_digits False 0 (c # cs))"

text \<open>\<open>int(x)\<close> on a value: floats truncate towards zero.\<close>

definition trunc_rat :: "rat \<Rightarrow> int" where
  "trunc_rat r = (if 0 \<le> r then \<lfloor>r\<rfloor> else \<lceil>r\<rceil>)"

fun py_int :: "pyv \<Rightarrow> int result" where
  "py_int (VInt i) = Inr i"
| "py_int (VBool b) = Inr (if b then 1 else 0)"
| "py_int (VFloat r) = Inr (trunc_rat r)"
| "py_int (VStr s) =
     (case parse_int s of Some i \<Rightarrow> Inr i
      | None \<Rightarrow> Inl (ValueError ''invalid literal for int() with base 10''))"
| "py_int _ = Inl (TypeError ''int() argument must be a string or a number'')"

text \<open>
  \<open>float(text)\<close>: an optional sign, digits with an optional fraction (a digit on at least one
  side of the point) and an optional exponent. The texts of infinities and of not-a-number
  are outside the model and count as malformed.
\<close>

definition parse_frac :: "string \<Rightarrow> rat option" where
  "parse_frac ds =
     (if ds = [] then Some 0
      else map_option (\<lambda>i. of_int i / 10 ^ length (filter is_digit ds)) (parse_digits False 0 ds))"

definition parse_mantissa :: "string \<Rightarrow> rat option" where
  "parse_mantissa t =
     (let whole = takeWhile (\<lambda>c. c \<noteq> CHR ''.'') t; rest = drop (length whole) t
      in if rest = [] then map_option of_int (parse_digits False 0 whole)
         else if whole = [] \<and> tl rest = [] then None
         else case (if whole = [] then Some 0 else parse_digits False 0 whole, parse_frac (tl rest)) of
                (Some i, Some f) \<Rightarrow> Some (of_int i + f)
              | _ \<Rightarrow> None)"

definition parse_float :: "string \<Rightarrow> rat option" where
  "parse_float text =
     (let t = py_lower (py_strip text);
          (neg, body) = (case t of
              [] \<Rightarrow> (False, [])
            | c # cs \<Rightarrow> if c = CHR ''-'' then (True, cs) else if c = CHR ''+'' then (False, cs)
                        else (False, c # cs));
          man = takeWhile (\<lambda>c. c \<noteq> CHR ''e'') body;
          ex = drop (length man) body
      in case (parse_mantissa man, if ex = [] then Some 0
                else if py_strip (tl ex) = tl ex then parse_int (tl ex) else None) of
           (Some m, Some k) \<Rightarrow>
             Some ((if neg then - m else m) * (if 0 \<le> k then 10 ^ nat k else 1 / 10 ^ nat (- k)))
         | _ \<Rightarrow> None)"

fun py_float :: "pyv \<Rightarrow> rat result" where
  "py_float (VInt i) = Inr (of_int i)"
| "py_float (VBool b) = Inr (if b then 1 else 0)"
| "py_float (VFloat r) = Inr r"
| "py_float (VStr s) =
     (case parse_float s of Some r \<Rightarrow> Inr r
      | None \<Rightarrow> Inl (ValueError ''could not convert string to float''))"
| "py_float _ = Inl (TypeError ''float() argument must be a string or a real number'')"

text \<open>\<open>x.get(k, default)\<close> where \<open>x\<close> may not be a mapping.\<close>

fun py_get :: "pyv \<Rightarrow> string \<Rightarrow> pyv \<Rightarrow> pyv result" where
  "py_get (VDict d) k v = Inr (case map_of d k of Some w \<Rightarrow> w | None \<Rightarrow> v)"
| "py_get _ k v = Inl (AttributeError ''get'')"

text \<open>Decimal text of a natural number and of an integer, as \<open>str(n)\<close> prints them.\<close>

fun nat_text :: "nat \<Rightarrow> string" where
  "nat_text n =
     (if n < 10 then [char_of (48 + n)] else nat_text (n div 10) @ [char_of (48 + n mod 10)])"

declare nat_text.simps [simp del]

definition int_text :: "int \<Rightarrow> string" where
  "int_text i = (if i < 0 then CHR ''-'' # nat_text (nat (- i)) else nat_text (nat i))"

section \<open>Text of values\<close>

definition hex_digit :: "nat \<Rightarrow> char" where
  "hex_digit n = (if n < 10 then char_of (48 + n) else char_of (87 + n))"

definition printable :: "char \<Rightarrow> bool" where
  "printable c \<longleftrightarrow>
     (let n = char_code c in 32 \<le> n \<and> n \<le> 126 \<or> 161 \<le> n \<and> n \<noteq> 173)"

text \<open>\<open>repr\<close> of a string: double quotes only when it holds a single quote and no double one.\<close>

definition repr_char :: "char \<Rightarrow> char \<Rightarrow> string" where
  "repr_char q c =
     (if c = CHR 0x5C \<or> c = q then [CHR 0x5C, c]
      else if c = CHR 0x0A then [CHR 0x5C, CHR ''n'']
      else if c = CHR 0x0D then [CHR 0x5C, CHR ''r'']
      else if c = CHR 0x09 then [CHR 0x5C, CHR ''t'']
      else if printable c then [c]
      else [CHR 0x5C, CHR ''x'', hex_digit (char_code c div 16), hex_digit (char_code c mod 16)])"

definition repr_str :: "string \<Rightarrow> string" where
  "repr_str s =
     (let q = (if CHR 0x27 \<in> set s \<and> CHR 0x22 \<notin> set s then CHR 0x22 else CHR 0x27)
      in q # concat (map (repr_char q) s) @ [q])"

fun join :: "string \<Rightarrow> string list \<Rightarrow> string" where
  "join sep [] = []"
| "join sep [x] = x"
| "join sep (x # y # ys) = x @ sep @ join sep (y # ys)"

text \<open>\<open>repr(x)\<close> and \<open>str(x)\<close>; the digits of a float are the parameter \<open>fr\<close>.\<close>

fun py_repr :: "(rat \<Rightarrow> string) \<Rightarrow> pyv \<Rightarrow> string"
and py_reprs :: "(rat \<Rightarrow> string) \<Rightarrow> pyv list \<Rightarrow> string list"
and py_repr_items :: "(rat \<Rightarrow> string) \<Rightarrow> dict \<Rightarrow> string list" where
  "py_repr fr VNone = ''None''"
| "py_repr fr (VBool b) = (if b then ''True'' else ''False'')"
| "py_repr fr (VInt i) = int_text i"
| "py_repr fr (VFloat r) = fr r"
| "py_repr fr (VStr s) = repr_str s"
| "py_repr fr (VList xs) = ''['' @ join '', '' (py_reprs fr xs) @ '']''"
| "py_repr fr (VDict d) = ''{'' @ join '', '' (py_repr_items fr d) @ ''}''"
| "py_reprs fr [] = []"
| "py_reprs fr (x # xs) = py_repr fr x # py_reprs fr xs"
| "py_repr_items fr [] = []"
| "py_repr_items fr ((k, v) # d) = (repr_str k @ '': '' @ py_repr fr v) # py_repr_items fr d"

fun py_str :: "(rat \<Rightarrow> string) \<Rightarrow> pyv \<Rightarrow> string" where
  "py_str fr (VStr s) = s"
| "py_str fr v = py_repr fr v"

section \<open>Lists\<close>

text \<open>\<open>xs[-n:]\<close> for a non-negative \<open>n\<close>: all of \<open>xs\<close> when \<open>n\<close> is zero, as in Python.\<close>

definition last_n :: "nat \<Rightarrow> 'a list \<Rightarrow> 'a list" where
  "last_n n xs = (if n = 0 then xs else drop (length xs - n) xs)"

lemma length_last_n [simp]: "0 < n \<Longrightarrow> length (last_n n xs) = min n (length xs)"
  by (simp add: last_n_def)

lemma last_n_all: "length xs \<le> n \<Longrightarrow> last_n n xs = xs"
  by (simp add: last_n_def)

lemma suffix_last_n: "suffix (last_n n xs) xs"
  by (simp add: last_n_def suffix_drop)

lemma last_n_snoc:
  assumes "0 < n" "n \<le> length xs"
  shows "last_n n (xs @ [x]) = tl (last_n n xs) @ [x]"
  using assms by (simp add: last_n_def Suc_diff_le drop_Suc tl_drop)

text \<open>\<open>xs[-m:]\<close> for any integer \<open>m\<close>: a negative \<open>m\<close> drops from the left.\<close>

definition neg_slice :: "int \<Rightarrow> 'a list \<Rightarrow> 'a list" where
  "neg_slice m xs = (if 0 < m then drop (length xs - nat m) xs else drop (nat (- m)) xs)"

lemma length_neg_slice: "0 < m \<Longrightarrow> length (neg_slice m xs) = min (nat m) (length xs)"
  by (simp add: neg_slice_def)

lemma neg_slice_all: "length xs \<le> nat m \<Longrightarrow> neg_slice m xs = xs"
  by (auto simp: neg_slice_def)

lemma neg_slice_snoc:
  "0 < m \<Longrightarrow> neg_slice m (neg_slice m xs @ [x]) = neg_slice m (xs @ [x])"
  by (cases "length xs < nat m") (auto simp: neg_slice_def Suc_diff_le)

lemma map_neg_slice: "map f (neg_slice m xs) = neg_slice m (map f xs)"
  by (simp add: neg_slice_def drop_map)

text \<open>Order-preserving removal of blanks and duplicates, the program's \<open>_dedupe\<close> idiom.\<close>

fun dedupe_from :: "string set \<Rightarrow> string list \<Rightarrow> string list" where
  "dedupe_from seen [] = []"
| "dedupe_from seen (v # vs) =
     (let c = py_strip v
      in if c \<noteq> [] \<and> c \<notin> seen then c # dedupe_from (insert c seen) vs else dedupe_from seen vs)"

lemma set_dedupe_from:
  "set (dedupe_from seen vs) = {c \<in> py_strip ` set vs. c \<noteq> [] \<and> c \<notin> seen}"
  by (induction seen vs rule: dedupe_from.induct) (auto simp: Let_def)

lemma distinct_dedupe_from: "distinct (dedupe_from seen vs)"
  by (induction seen vs rule: dedupe_from.induct) (auto simp: Let_def set_dedupe_from)

end
