(* ===== verification/FailFast.thy ===== *)
theory FailFast
  imports Prelude
begin

text \<open>
  The fail-fast choke point (\<open>policy/fail_fast.py\<close>): every absorbed failure is
  counted under its site, and under \<open>AGI_V8_STRICT_FAIL_FAST\<close> it is raised again.
  The module state (\<open>_counts\<close>, \<open>_last\<close> and the log lines) is threaded explicitly;
  the census masker (\<open>_mask_census_text\<close>) is a parameter, since the secret patterns
  are not part of this theory.
\<close>

section \<open>Gates and labels\<close>

definition strict_env :: string where
  "strict_env = ''AGI_V8_STRICT_FAIL_FAST''"

definition strict_enabled :: "env \<Rightarrow> bool" where
  "strict_enabled e \<longleftrightarrow> gate_strict e strict_env"

definition census_mask_enabled :: "env \<Rightarrow> bool" where
  "census_mask_enabled e \<longleftrightarrow> gate_strict e ''AGI_V8_FAILFAST_CENSUS_MASK_ENABLED''"

definition ident_start :: "char \<Rightarrow> bool" where
  "ident_start c \<longleftrightarrow>
     (let n = char_code c in 65 \<le> n \<and> n \<le> 90 \<or> 97 \<le> n \<and> n \<le> 122 \<or> n = 95)"

definition ident_char :: "char \<Rightarrow> bool" where
  "ident_char c \<longleftrightarrow> ident_start c \<or> (let n = char_code c in 48 \<le> n \<and> n \<le> 57)"

text \<open>The label admits ASCII identifiers of at most 128 characters only.\<close>

definition safe_exception_type_name :: "exn \<Rightarrow> string" where
  "safe_exception_type_name x =
     (case etype x of
        [] \<Rightarrow> ''Exception''
      | c # cs \<Rightarrow>
          if ident_start c \<and> list_all ident_char cs \<and> length cs \<le> 127
          then c # cs else ''Exception'')"

text \<open>\<open>_attempt_stringify\<close>: a flag and the text, never an exception.\<close>

definition attempt_stringify :: "exn \<Rightarrow> bool \<times> string" where
  "attempt_stringify x = (case emsg x of Some m \<Rightarrow> (True, m) | None \<Rightarrow> (False, []))"

section \<open>The census\<close>

record census_state =
  counts :: "(string \<times> nat) list"
  last_err :: "string \<Rightarrow> string option"
  log_lines :: "string list"

definition empty_census :: census_state where
  "empty_census = \<lparr>counts = [], last_err = Map.empty, log_lines = []\<rparr>"

text \<open>\<open>_counts[key] += 1\<close> on a \<open>Counter\<close>: insertion order is kept.\<close>

fun bump :: "(string \<times> nat) list \<Rightarrow> string \<Rightarrow> (string \<times> nat) list" where
  "bump [] k = [(k, 1)]"
| "bump ((k', n) # cs) k = (if k' = k then (k, Suc n) # cs else (k', n) # bump cs k)"

definition total_swallowed :: "census_state \<Rightarrow> nat" where
  "total_swallowed st = sum_list (map snd (counts st))"

definition reset_census :: "census_state \<Rightarrow> census_state" where
  "reset_census st = st\<lparr>counts := [], last_err := Map.empty\<rparr>"

text \<open>
  \<open>swallowed\<close>: the count lands first; strict mode then raises the original
  exception without touching its text; otherwise the (masked, then truncated)
  text becomes the site's last error. The second component is the exception
  that leaves the call.
\<close>

definition swallowed ::
  "(string \<Rightarrow> string) \<Rightarrow> env \<Rightarrow> exn \<Rightarrow> string \<Rightarrow> string \<Rightarrow> string
    \<Rightarrow> census_state \<Rightarrow> census_state \<times> exn option" where
  "swallowed masker e x site category detail st =
     (let key = category @ '':'' @ site;
          ty = safe_exception_type_name x;
          mask_on = census_mask_enabled e;
          st1 = st\<lparr>counts := bump (counts st) key\<rparr>
      in if strict_enabled e
         then (st1\<lparr>log_lines := log_lines st1 @
                 [''swallowed['' @ category @ ''] '' @ site @ '': '' @ ty @
                  '' (strict re-raise; message not stringified)'']\<rparr>, Some x)
         else
           (let (ok, msg) = attempt_stringify x;
                raw_last = (if ok then ty @ '': '' @ msg else ty @ '': <unserializable>'');
                stored = take 300 (if mask_on then masker raw_last else raw_last);
                log_detail = (if mask_on \<and> detail \<noteq> [] then masker detail else detail)
            in (st1\<lparr>last_err := (last_err st1)(key \<mapsto> stored),
                    log_lines := log_lines st1 @
                      [''swallowed['' @ category @ ''] '' @ site @ '': '' @ ty @
                       (if log_detail \<noteq> [] then '' ('' @ log_detail @ '')'' else [])]\<rparr>,
                None)))"

text \<open>\<open>census()\<close>: per site, count and last error, largest count first (a stable sort).\<close>

definition census :: "census_state \<Rightarrow> (string \<times> nat \<times> string) list" where
  "census st =
     map (\<lambda>(k, n). (k, n, case last_err st k of Some t \<Rightarrow> t | None \<Rightarrow> []))
       (sort_key (\<lambda>kv. - int (snd kv)) (counts st))"

text \<open>
  \<open>record_critical_failure\<close>: a fixed, type-only surrogate is counted and its
  strict re-raise absorbed.
\<close>

definition record_critical_failure ::
  "(string \<Rightarrow> string) \<Rightarrow> env \<Rightarrow> exn \<Rightarrow> string \<Rightarrow> string \<Rightarrow> census_state \<Rightarrow> census_state" where
  "record_critical_failure masker e x site category st =
     fst (swallowed masker e
       (RuntimeError (''critical-record secondary failure withheld ('' @
          safe_exception_type_name x @ '')''))
       site category [] st)"

text \<open>What a caller that only keeps its fallback sees of \<^const>\<open>swallowed\<close>.\<close>

definition absorb :: "env \<Rightarrow> exn \<Rightarrow> 'a \<Rightarrow> 'a result" where
  "absorb e x fallback = (if strict_enabled e then Inl x else Inr fallback)"

section \<open>\<open>strict_scope\<close>\<close>

text \<open>Entering saves the previous value and sets the gate; leaving restores it.\<close>

definition strict_enter :: "bool \<Rightarrow> env \<Rightarrow> string option \<times> env" where
  "strict_enter on e =
     (e strict_env, e(strict_env \<mapsto> (if on then ''true'' else ''false'')))"

definition strict_exit :: "string option \<Rightarrow> env \<Rightarrow> env" where
  "strict_exit prev e = e(strict_env := prev)"

section \<open>Facts about the census\<close>

lemma sum_bump: "sum_list (map snd (bump cs k)) = Suc (sum_list (map snd cs))"
  by (induction cs k rule: bump.induct) simp_all

lemma map_of_bump:
  "map_of (bump cs k) k' =
     (if k' = k then Some (Suc (case map_of cs k of Some n \<Rightarrow> n | None \<Rightarrow> 0)) else map_of cs k')"
  by (induction cs k rule: bump.induct) auto

lemma keys_bump: "set (map fst (bump cs k)) = insert k (set (map fst cs))"
  by (induction cs k rule: bump.induct) auto

lemma distinct_bump:
  "distinct (map fst cs) \<Longrightarrow> distinct (map fst (bump cs k))"
proof (induction cs k rule: bump.induct)
  case (2 k' n cs k)
  then show ?case using keys_bump [of cs k] by (auto simp del: set_map)
qed simp

lemma counts_swallowed:
  "counts (fst (swallowed masker e x site cat d st)) = bump (counts st) (cat @ '':'' @ site)"
  by (simp add: swallowed_def Let_def split: prod.split)

lemma raised_swallowed:
  "snd (swallowed masker e x site cat d st) = (if strict_enabled e then Some x else None)"
  by (simp add: swallowed_def Let_def split: prod.split)

lemma absorb_swallowed:
  "absorb e x fb = (case snd (swallowed masker e x site cat d st) of Some y \<Rightarrow> Inl y | None \<Rightarrow> Inr fb)"
  by (simp add: absorb_def raised_swallowed)

lemma absorb_eq_Inr [simp]: "absorb e x fb = Inr y \<longleftrightarrow> \<not> strict_enabled e \<and> y = fb"
  by (auto simp: absorb_def)

lemma absorb_eq_Inl [simp]: "absorb e x fb = Inl y \<longleftrightarrow> strict_enabled e \<and> y = x"
  by (auto simp: absorb_def)

lemma not_strict_no_env [simp]: "\<not> strict_enabled no_env"
  by (simp add: strict_enabled_def gate_strict_def)

section \<open>Properties\<close>

text \<open>Whatever the exception, the masker and the gates, one call of \<open>swallowed\<close> adds
  exactly one to the total and to its own site's count, changes no other site's count, and
  raises exactly the original exception when, and only when, strict mode is on.\<close>

theorem swallowed_counts_and_raises:
  "total_swallowed (fst (swallowed masker e x site cat d st)) = Suc (total_swallowed st) \<and>
   map_of (counts (fst (swallowed masker e x site cat d st))) =
     (map_of (counts st))(cat @ '':'' @ site \<mapsto>
        Suc (case map_of (counts st) (cat @ '':'' @ site) of Some n \<Rightarrow> n | None \<Rightarrow> 0)) \<and>
   snd (swallowed masker e x site cat d st) = (if strict_enabled e then Some x else None)"
  by (auto simp: total_swallowed_def counts_swallowed raised_swallowed sum_bump map_of_bump fun_eq_iff)

text \<open>A transaction-boundary failure is always counted, never raised, and leaves a census
  and log that depend on the failure's type label alone: two failures of one type are
  indistinguishable afterwards, whatever their messages.\<close>

theorem record_critical_failure_message_free:
  assumes "safe_exception_type_name x = safe_exception_type_name y"
  shows "record_critical_failure masker e x site cat st = record_critical_failure masker e y site cat st
    \<and> total_swallowed (record_critical_failure masker e x site cat st) = Suc (total_swallowed st)"
  using assms
  by (simp add: record_critical_failure_def total_swallowed_def counts_swallowed sum_bump)

theorem record_critical_failure_message_free_witness:
  "record_critical_failure id no_env (OSError ''token sk-1'') ''s'' ''persist'' empty_census =
   record_critical_failure id no_env (OSError ''disk full'') ''s'' ''persist'' empty_census"
proof -
  have "safe_exception_type_name (OSError ''token sk-1'') =
        safe_exception_type_name (OSError ''disk full'')"
    by (simp add: safe_exception_type_name_def)
  from record_critical_failure_message_free [OF this] show ?thesis by blast
qed

text \<open>Leaving a strict scope restores the environment exactly, whatever the block did to
  the gate and whether the gate was set before; inside, the scope's own setting holds.\<close>

theorem strict_scope_restores:
  "strict_exit (fst (strict_enter on e)) ((snd (strict_enter on e))(strict_env := v)) = e \<and>
   strict_enabled (snd (strict_enter on e)) = on"
  by (auto simp: strict_enter_def strict_exit_def strict_enabled_def gate_strict_def)

end
