(* ===== verification/EvidenceGate.thy ===== *)
theory EvidenceGate
  imports FailFast
begin

text \<open>
  Evidence promotion (\<open>core/evidence_gate.py\<close>, with the message cards of
  \<open>core/messages.py\<close> it moves): the ten states, the transition table, the blocker
  rule, \<open>promote\<close> and \<open>promote_with_audit\<close>. Cards carry their state as text, as
  the code does, and every promotion parses it first.
\<close>

section \<open>States and cards\<close>

datatype evidence_state =
    Draft | Hypothesis | ExecutedUnverified | VerifiedOnce | VerifiedTwice
  | Contradicted | InfeasibleRecorded | Accepted | Rejected | SkippedWithReason

fun ev_value :: "evidence_state \<Rightarrow> string" where
  "ev_value Draft = ''draft''"
| "ev_value Hypothesis = ''hypothesis''"
| "ev_value ExecutedUnverified = ''executed_unverified''"
| "ev_value VerifiedOnce = ''verified_once''"
| "ev_value VerifiedTwice = ''verified_twice''"
| "ev_value Contradicted = ''contradicted''"
| "ev_value InfeasibleRecorded = ''infeasible_recorded''"
| "ev_value Accepted = ''accepted''"
| "ev_value Rejected = ''rejected''"
| "ev_value SkippedWithReason = ''skipped_with_reason''"

definition all_states :: "evidence_state list" where
  "all_states = [Draft, Hypothesis, ExecutedUnverified, VerifiedOnce, VerifiedTwice,
     Contradicted, InfeasibleRecorded, Accepted, Rejected, SkippedWithReason]"

text \<open>\<open>EvidenceState(text)\<close>: the member with that value, or \<open>ValueError\<close>.\<close>

definition parse_state :: "string \<Rightarrow> evidence_state result" where
  "parse_state t =
     (case find (\<lambda>s. ev_value s = t) all_states of
        Some s \<Rightarrow> Inr s
      | None \<Rightarrow> Inl (ValueError (CHR 0x27 # t @ CHR 0x27 # '' is not a valid EvidenceState'')))"

record evidence_card =
  message_id :: string
  created_at_unix :: rat
  evidence_id :: string
  source_task_id :: string
  claim :: string
  state :: string
  confidence :: rat
  provenance :: "string list"

record decision_record =
  dr_message_id :: string
  dr_created_at_unix :: rat
  decision_id :: string
  dr_evidence_ids :: "string list"
  outcome :: string
  rationale :: string

section \<open>The transition table\<close>

definition promotion_blockers :: "evidence_state set" where
  "promotion_blockers =
     {Draft, Hypothesis, ExecutedUnverified, Contradicted, InfeasibleRecorded}"

fun transitions :: "evidence_state \<Rightarrow> evidence_state set" where
  "transitions Draft = {Hypothesis, SkippedWithReason}"
| "transitions Hypothesis = {ExecutedUnverified, SkippedWithReason}"
| "transitions ExecutedUnverified = {VerifiedOnce, Contradicted, InfeasibleRecorded}"
| "transitions VerifiedOnce = {VerifiedTwice, Contradicted}"
| "transitions VerifiedTwice = {Accepted, Rejected}"
| "transitions Contradicted = {Rejected}"
| "transitions InfeasibleRecorded = {Rejected, SkippedWithReason}"
| "transitions Accepted = {}"
| "transitions Rejected = {}"
| "transitions SkippedWithReason = {}"

definition can_promote :: "string \<Rightarrow> string \<Rightarrow> bool result" where
  "can_promote from_state to_state =
     bindR (parse_state to_state) (\<lambda>t.
     bindR (parse_state from_state) (\<lambda>f. Inr (t \<in> transitions f)))"

section \<open>Promotion\<close>

definition promote ::
  "evidence_card \<Rightarrow> string \<Rightarrow> decision_record option \<Rightarrow> evidence_card result" where
  "promote evidence to_state decision =
     bindR (parse_state (state evidence)) (\<lambda>current.
     bindR (parse_state to_state) (\<lambda>target.
     bindR (can_promote (ev_value current) (ev_value target)) (\<lambda>legal.
       if \<not> legal
       then Inl (ValueError (''illegal evidence transition: '' @ ev_value current @ '' -> '' @
                  ev_value target))
       else if current \<in> promotion_blockers \<and> decision = None
       then Inl (ValueError (''evidence in blocker state '' @ ev_value current @
                  '' requires a DecisionRecord to promote''))
       else Inr (evidence\<lparr>state := ev_value target\<rparr>))))"

text \<open>
  \<open>promote_with_audit\<close>. The audit itself (\<open>hallucination_audit.audit_answer\<close>) is
  not shipped with the repository: it is the parameter \<open>audit_answer\<close>. The
  record it returns is read with the conversions of the source, which raise on
  a malformed record.
\<close>

record audit_info =
  ai_enabled :: bool
  hallucination_check :: bool
  promotion_blocked :: bool
  ai_record :: "dict option"
  ai_reason :: string

definition audit_blocked :: "dict \<Rightarrow> string \<Rightarrow> audit_info" where
  "audit_blocked rec reason =
     \<lparr>ai_enabled = True, hallucination_check = False, promotion_blocked = True,
      ai_record = Some rec, ai_reason = reason\<rparr>"

definition audit_counts :: "dict \<Rightarrow> (int \<times> int \<times> bool) result" where
  "audit_counts rec =
     bindR (py_get (VDict rec) ''metrics'' (VDict [])) (\<lambda>metrics.
     bindR (py_get metrics ''counts'' (VDict [])) (\<lambda>cnts.
     bindR (bindR (py_get cnts ''contradicted'' (VInt 0)) py_int) (\<lambda>c.
     bindR (bindR (py_get cnts ''unsupported'' (VInt 0)) py_int) (\<lambda>u.
     bindR (py_get metrics ''zero_claim_factual_text'' VNone) (\<lambda>z.
       Inr (c, u, truthy z))))))"

definition promote_with_audit ::
  "(string \<Rightarrow> string list \<Rightarrow> string \<Rightarrow> dict result) \<Rightarrow> env \<Rightarrow> evidence_card \<Rightarrow> string
    \<Rightarrow> decision_record option \<Rightarrow> string list \<Rightarrow> bool option
    \<Rightarrow> (evidence_card \<times> audit_info) result" where
  "promote_with_audit audit_answer e evidence to_state decision snippets enabled =
     bindR (promote evidence to_state decision) (\<lambda>new_card.
       let on = (case enabled of Some b \<Rightarrow> b
                 | None \<Rightarrow> gate_lower_true e ''AGI_V8_HALLUCINATION_AUDIT_ENABLED'') in
       if \<not> on
       then Inr (new_card, \<lparr>ai_enabled = False, hallucination_check = True,
                  promotion_blocked = False, ai_record = None, ai_reason = ''audit_disabled''\<rparr>)
       else
         bindR (audit_answer (claim evidence) snippets (evidence_id evidence)) (\<lambda>rec.
         bindR (audit_counts rec) (\<lambda>(contradicted_n, unsupported_n, zero_claim).
           if contradicted_n > 0
           then Inr (evidence, audit_blocked rec (''contradicted_claims='' @ int_text contradicted_n))
           else if unsupported_n > 0
           then Inr (evidence, audit_blocked rec (''unsupported_claims='' @ int_text unsupported_n))
           else if zero_claim
           then Inr (evidence, audit_blocked rec ''zero_claim_factual_text'')
           else Inr (new_card, \<lparr>ai_enabled = True, hallucination_check = True,
                      promotion_blocked = False, ai_record = Some rec, ai_reason = []\<rparr>))))"

text \<open>A caller's run of promotions: the card moves through the requests in order, and the
  first refusal stops the run, as the raise does.\<close>

fun promote_all ::
  "evidence_card \<Rightarrow> (string \<times> decision_record option) list \<Rightarrow> evidence_card result" where
  "promote_all c [] = Inr c"
| "promote_all c ((t, d) # rs) = bindR (promote c t d) (\<lambda>c'. promote_all c' rs)"

section \<open>Facts about states and promotion\<close>

lemma parse_value [simp]: "parse_state (ev_value s) = Inr s"
  by (cases s) (simp_all add: parse_state_def all_states_def)

lemma parse_state_Inr [simp]: "parse_state t = Inr s \<longleftrightarrow> t = ev_value s"
proof
  assume "parse_state t = Inr s"
  then have "find (\<lambda>s. ev_value s = t) all_states = Some s"
    by (auto simp: parse_state_def split: option.splits)
  then show "t = ev_value s" by (auto simp: find_Some_iff)
qed simp

lemma ev_value_inject [simp]: "ev_value s = ev_value s' \<longleftrightarrow> s = s'"
  by (metis Inr_inject parse_value)

lemma can_promote_values [simp]:
  "can_promote (ev_value f) (ev_value t) = Inr (t \<in> transitions f)"
  by (simp add: can_promote_def)

declare ev_value.simps [simp del]

text \<open>The two ways the rules read: what a successful promotion did, and when one succeeds.\<close>

definition promotable :: "evidence_state \<Rightarrow> evidence_state \<Rightarrow> decision_record option \<Rightarrow> bool" where
  "promotable f t d \<longleftrightarrow> t \<in> transitions f \<and> (f \<in> promotion_blockers \<longrightarrow> d \<noteq> None)"

lemma promote_Inr:
  "promote c t d = Inr c' \<longleftrightarrow>
     (\<exists>f g. state c = ev_value f \<and> t = ev_value g \<and> promotable f g d \<and> c' = c\<lparr>state := ev_value g\<rparr>)"
  by (auto simp: promote_def promotable_def)

lemma promote_from_value:
  "promote (c\<lparr>state := ev_value f\<rparr>) t d = Inr c' \<longleftrightarrow>
     (\<exists>g. t = ev_value g \<and> promotable f g d \<and> c' = c\<lparr>state := ev_value g\<rparr>)"
  by (auto simp: promote_Inr)

text \<open>How far a state is from the end of the table: it shrinks along every transition.\<close>

fun ev_rank :: "evidence_state \<Rightarrow> nat" where
  "ev_rank Draft = 5"
| "ev_rank Hypothesis = 4"
| "ev_rank ExecutedUnverified = 3"
| "ev_rank VerifiedOnce = 2"
| "ev_rank VerifiedTwice = 1"
| "ev_rank Contradicted = 1"
| "ev_rank InfeasibleRecorded = 1"
| "ev_rank _ = 0"

lemma ev_rank_transition: "t \<in> transitions f \<Longrightarrow> ev_rank t < ev_rank f"
  by (cases f) auto

lemma promote_all_rank:
  "promote_all (c\<lparr>state := ev_value f\<rparr>) rs = Inr c' \<Longrightarrow>
     \<exists>g. c' = c\<lparr>state := ev_value g\<rparr> \<and> ev_rank g + length rs \<le> ev_rank f"
proof (induction rs arbitrary: f)
  case Nil
  then show ?case by auto
next
  case (Cons r rs)
  obtain t d where r: "r = (t, d)" by (cases r)
  from Cons.prems obtain g where g: "promotable f g d"
    and run: "promote_all (c\<lparr>state := ev_value g\<rparr>) rs = Inr c'"
    by (auto simp: r promote_from_value)
  from Cons.IH [OF run] g show ?case
    by (auto simp: promotable_def dest!: ev_rank_transition)
qed

section \<open>Properties\<close>

text \<open>The outcome of \<open>promote\<close>: it succeeds exactly when both states parse, the table
  lists the transition and a blocker state comes with a decision record; a success changes
  the card's state and nothing else, and every other request is a \<open>ValueError\<close>.\<close>

theorem promote_spec:
  "promote c t d =
     (case (parse_state (state c), parse_state t) of
        (Inl e, _) \<Rightarrow> Inl e
      | (Inr f, Inl e) \<Rightarrow> Inl e
      | (Inr f, Inr g) \<Rightarrow>
          if g \<notin> transitions f
          then Inl (ValueError (''illegal evidence transition: '' @ ev_value f @ '' -> '' @ ev_value g))
          else if f \<in> promotion_blockers \<and> d = None
          then Inl (ValueError (''evidence in blocker state '' @ ev_value f @
                      '' requires a DecisionRecord to promote''))
          else Inr (c\<lparr>state := ev_value g\<rparr>))"
  by (simp add: promote_def split: sum.split)

text \<open>C15: There is one road from draft to accepted. A run of promotions that takes a draft
  card to accepted asks for hypothesis, executed-unverified, verified-once, verified-twice
  and accepted, in this order and nothing else, with a decision record at each of the first
  three steps.\<close>

theorem accepted_only_by_full_chain:
  assumes start: "state c = ev_value Draft"
    and run: "promote_all c rs = Inr c'"
    and goal: "state c' = ev_value Accepted"
  shows "map fst rs = map ev_value [Hypothesis, ExecutedUnverified, VerifiedOnce, VerifiedTwice, Accepted]
    \<and> list_all (\<lambda>r. snd r \<noteq> None) (take 3 rs)"
proof -
  define P where "P f rs \<longleftrightarrow> promote_all (c\<lparr>state := ev_value f\<rparr>) rs = Inr c'" for f rs
  have at_goal: "state c' = ev_value f \<Longrightarrow> f = Accepted" for f
    using goal by (simp only: ev_value_inject)
  have step: "P f rs \<Longrightarrow> f \<noteq> Accepted \<Longrightarrow>
      \<exists>g d rs'. rs = (ev_value g, d) # rs' \<and> promotable f g d \<and> P g rs'" for f rs
    using at_goal [of f] by (cases rs) (auto simp: P_def promote_from_value)
  have stop: "P Accepted rs \<Longrightarrow> rs = []" for rs
    by (cases rs) (auto simp: P_def promote_from_value promotable_def)
  have dead: "\<not> P Rejected rs" "\<not> P SkippedWithReason rs" for rs
    using step [of Rejected rs] step [of SkippedWithReason rs] by (auto simp: promotable_def)
  then have dead': "\<not> P Contradicted rs" "\<not> P InfeasibleRecorded rs" for rs
    using step [of Contradicted rs] step [of InfeasibleRecorded rs] by (auto simp: promotable_def)
  have c: "P Draft rs" using run start by (simp add: P_def flip: start)
  from step [OF c] dead obtain d1 rs1 where
    1: "rs = (ev_value Hypothesis, Some d1) # rs1" "P Hypothesis rs1"
    by (auto simp: promotable_def promotion_blockers_def)
  from step [OF 1(2)] dead obtain d2 rs2 where
    2: "rs1 = (ev_value ExecutedUnverified, Some d2) # rs2" "P ExecutedUnverified rs2"
    by (auto simp: promotable_def promotion_blockers_def)
  from step [OF 2(2)] dead' obtain d3 rs3 where
    3: "rs2 = (ev_value VerifiedOnce, Some d3) # rs3" "P VerifiedOnce rs3"
    by (auto simp: promotable_def promotion_blockers_def)
  from step [OF 3(2)] dead' obtain d4 rs4 where
    4: "rs3 = (ev_value VerifiedTwice, d4) # rs4" "P VerifiedTwice rs4"
    by (auto simp: promotable_def)
  from step [OF 4(2)] dead stop obtain d5 where "rs4 = [(ev_value Accepted, d5)]"
    by (auto simp: promotable_def)
  with 1(1) 2(1) 3(1) 4(1) show ?thesis by simp
qed

definition sample_card :: evidence_card where
  "sample_card = \<lparr>message_id = ''ev_1'', created_at_unix = 0, evidence_id = ''e1'',
     source_task_id = ''t1'', claim = ''c'', state = ''draft'', confidence = 1, provenance = []\<rparr>"

definition sample_decision :: decision_record where
  "sample_decision = \<lparr>dr_message_id = ''dec_1'', dr_created_at_unix = 0, decision_id = ''d1'',
     dr_evidence_ids = [''e1''], outcome = ''accept'', rationale = []\<rparr>"

definition full_chain :: "(string \<times> decision_record option) list" where
  "full_chain = [(''hypothesis'', Some sample_decision), (''executed_unverified'', Some sample_decision),
     (''verified_once'', Some sample_decision), (''verified_twice'', None), (''accepted'', None)]"

lemma full_chain_run:
  "promote_all sample_card full_chain = Inr (sample_card\<lparr>state := ''accepted''\<rparr>)"
  by (simp add: full_chain_def sample_card_def promote_def can_promote_def parse_state_def
      all_states_def promotion_blockers_def ev_value.simps)

theorem accepted_only_by_full_chain_witness:
  "promote_all sample_card full_chain = Inr (sample_card\<lparr>state := ''accepted''\<rparr>) \<and>
   map fst full_chain =
     map ev_value [Hypothesis, ExecutedUnverified, VerifiedOnce, VerifiedTwice, Accepted]"
proof -
  note run = full_chain_run
  have "state sample_card = ev_value Draft" by (simp add: sample_card_def ev_value.simps)
  moreover have "state (sample_card\<lparr>state := ''accepted''\<rparr>) = ev_value Accepted"
    by (simp add: ev_value.simps)
  ultimately show ?thesis using accepted_only_by_full_chain [OF _ run] run by blast
qed

text \<open>Promotion always ends: from any card, at most five promotions can succeed in a row,
  and a card whose state is one of the three terminal ones refuses every request.\<close>

theorem promotions_bounded:
  assumes "promote_all c rs = Inr c'"
  shows "length rs \<le> 5 \<and>
    (\<forall>s. s = Accepted \<or> s = Rejected \<or> s = SkippedWithReason \<longrightarrow> state c = ev_value s \<longrightarrow> rs = [])"
proof (cases rs)
  case (Cons r rest)
  with assms obtain f where f: "state c = ev_value f"
    by (cases r) (auto simp: promote_Inr)
  then have "c\<lparr>state := ev_value f\<rparr> = c" by (simp flip: f)
  with assms have "promote_all (c\<lparr>state := ev_value f\<rparr>) rs = Inr c'" by simp
  from promote_all_rank [OF this] have "length rs \<le> ev_rank f" by auto
  moreover have "ev_rank f \<le> 5" by (cases f) auto
  ultimately show ?thesis using f by auto
qed simp

theorem promotions_bounded_witness:
  "promote_all sample_card full_chain = Inr (sample_card\<lparr>state := ''accepted''\<rparr>) \<and>
   length full_chain \<le> 5"
proof -
  note run = full_chain_run
  from promotions_bounded [OF this] run show ?thesis by blast
qed

text \<open>With the audit on, a card leaves \<open>promote_with_audit\<close> promoted only when the audit
  record counts no contradicted and no unsupported claim and does not flag claim-free factual
  text; in every blocked outcome the original card comes back and the info says so.\<close>

theorem audit_gates_promotion:
  assumes "promote_with_audit audit e c t d sn (Some True) = Inr (c', info)"
  shows "\<exists>new rec con uns z. promote c t d = Inr new \<and>
     audit (claim c) sn (evidence_id c) = Inr rec \<and> audit_counts rec = Inr (con, uns, z) \<and>
     (if con \<le> 0 \<and> uns \<le> 0 \<and> \<not> z
      then c' = new \<and> hallucination_check info \<and> \<not> promotion_blocked info
      else c' = c \<and> \<not> hallucination_check info \<and> promotion_blocked info)"
proof -
  from assms obtain new rec con uns z where
    n: "promote c t d = Inr new" and r: "audit (claim c) sn (evidence_id c) = Inr rec"
    and k: "audit_counts rec = Inr (con, uns, z)"
    by (auto simp: promote_with_audit_def)
  with assms have "if con \<le> 0 \<and> uns \<le> 0 \<and> \<not> z
      then c' = new \<and> hallucination_check info \<and> \<not> promotion_blocked info
      else c' = c \<and> \<not> hallucination_check info \<and> promotion_blocked info"
    by (auto simp: promote_with_audit_def audit_blocked_def split: if_splits)
  with n r k show ?thesis by blast
qed

definition sample_audit :: "string \<Rightarrow> string list \<Rightarrow> string \<Rightarrow> dict result" where
  "sample_audit c sn r =
     Inr [(''metrics'', VDict [(''counts'', VDict [(''contradicted'', VInt 1)])])]"

theorem audit_gates_promotion_witness:
  "\<exists>info. promote_with_audit sample_audit no_env sample_card ''hypothesis'' (Some sample_decision) []
            (Some True) = Inr (sample_card, info) \<and> promotion_blocked info"
proof -
  have run: "promote_with_audit sample_audit no_env sample_card ''hypothesis'' (Some sample_decision) []
      (Some True) =
    Inr (sample_card, audit_blocked [(''metrics'', VDict [(''counts'', VDict [(''contradicted'', VInt 1)])])]
      (''contradicted_claims='' @ int_text 1))"
    by (simp add: promote_with_audit_def promote_def can_promote_def parse_state_def all_states_def
        sample_card_def sample_decision_def sample_audit_def audit_counts_def ev_value.simps)
  from audit_gates_promotion [OF run] run show ?thesis
    by (auto simp: audit_blocked_def)
qed

end
