(* ===== verification/Recovery.thy ===== *)
theory Recovery
  imports FailFast
begin

text \<open>
  The recovery ladder retry, replan, decompose, escalate, in its two copies: the
  gated function \<open>decide_recovery\<close> with the bounded chain around it
  (\<open>core/retry_chain.py\<close>, constants of \<open>core/orchestrator_schema.py\<close>), and the
  configurable \<open>RecoveryPolicy\<close> of \<open>enforcement/acceptance_full.py\<close>. The locale
  \<open>budgeted\<close> states what a chain needs from a decision function; both copies
  provide it.
\<close>

section \<open>Actions, states and decisions\<close>

datatype recovery_action = Retry | Replan | Decompose | Escalate

record chain_state =
  failure_signature :: string
  repeat_count :: int
  retry_count :: int
  max_retry :: int
  elapsed_s :: rat
  open_task_count :: int

record recovery_decision =
  action :: recovery_action
  reason :: string
  d_repeat_count :: int
  d_retry_count :: int
  d_max_retry :: int
  d_elapsed_s :: rat

definition repeated_failure_threshold :: int where "repeated_failure_threshold = 3"

definition decompose_failure_threshold :: int where "decompose_failure_threshold = 5"

definition decompose_after_s :: rat where "decompose_after_s = 3 * 60 * 60"

definition retry_chain_enabled :: "env \<Rightarrow> bool" where
  "retry_chain_enabled e \<longleftrightarrow> gate_lower_true e ''AGI_V8_RETRY_CHAIN_ENABLED''"

text \<open>The fixed reason texts (a dash of the source outside the 8-bit range is written \<open>-\<close>).\<close>

definition rsn_disabled :: string where
  "rsn_disabled = ''retry_chain_disabled - default observe-only retry''"

definition rsn_threshold :: string where
  "rsn_threshold = ''Failure signature exceeded decompose threshold; split the task into smaller independently verifiable subtasks.''"

definition rsn_time :: string where
  "rsn_time = ''Open work has persisted beyond the decompose time budget; use phase/task decomposition rather than another flat retry.''"

definition rsn_replan :: string where
  "rsn_replan = ''Repeated failure pattern requires head-layer replanning before any further worker retry.''"

definition rsn_budget :: string where
  "rsn_budget = ''Local retry budget is exhausted.''"

definition rsn_known :: string where
  "rsn_known = ''Failure appears bounded; retry locally with the known signature.''"

definition rsn_default :: string where
  "rsn_default = ''No repeated failure evidence; retry locally if the critic agrees.''"

section \<open>\<open>decide_recovery\<close>\<close>

definition decide_recovery :: "env \<Rightarrow> chain_state \<Rightarrow> recovery_decision" where
  "decide_recovery e s =
     (let repeats = max 0 (repeat_count s);
          retries = max 0 (retry_count s);
          budget = max 0 (max_retry s);
          elapsed = max 0 (elapsed_s s);
          signature = py_strip (failure_signature s);
          open_tasks = max 0 (open_task_count s);
          mk = (\<lambda>a r. \<lparr>action = a, reason = r, d_repeat_count = repeats, d_retry_count = retries,
                        d_max_retry = budget, d_elapsed_s = elapsed\<rparr>)
      in if \<not> retry_chain_enabled e
         then mk Retry rsn_disabled
         else if repeats \<ge> decompose_failure_threshold
         then mk Decompose rsn_threshold
         else if decompose_after_s \<noteq> 0 \<and> elapsed \<ge> decompose_after_s \<and> open_tasks \<noteq> 0
         then mk Decompose rsn_time
         else if repeats \<ge> repeated_failure_threshold
         then mk Replan rsn_replan
         else if budget \<noteq> 0 \<and> retries \<ge> budget
         then mk (if open_tasks \<noteq> 0 then Replan else Escalate) rsn_budget
         else mk Retry
           (if signature \<noteq> []
            then rsn_known
            else rsn_default))"

text \<open>
  \<open>chain_to_termination\<close>: the loop of at most \<open>iterations\<close> decisions; a retry
  continues with one more attempt counted.
\<close>

definition next_attempt :: "chain_state \<Rightarrow> chain_state" where
  "next_attempt s = s\<lparr>retry_count := retry_count s + 1\<rparr>"

fun chain_loop :: "env \<Rightarrow> nat \<Rightarrow> chain_state \<Rightarrow> recovery_decision list" where
  "chain_loop e 0 s = []"
| "chain_loop e (Suc n) s =
     (let d = decide_recovery e s
      in if action d \<noteq> Retry then [d] else d # chain_loop e n (next_attempt s))"

definition chain_to_termination :: "env \<Rightarrow> int \<Rightarrow> chain_state \<Rightarrow> recovery_decision list" where
  "chain_to_termination e max_iterations s = chain_loop e (nat (max 1 max_iterations)) s"

section \<open>\<open>RecoveryPolicy\<close>\<close>

record recovery_policy =
  p_repeated :: int
  p_decompose :: int
  p_after_s :: rat

definition policy_init :: "int \<Rightarrow> int \<Rightarrow> rat \<Rightarrow> recovery_policy" where
  "policy_init repeated dec after =
     (let r = max 1 repeated
      in \<lparr>p_repeated = r, p_decompose = max r dec, p_after_s = max 0 after\<rparr>)"

text \<open>Here \<open>open_task_count\<close> is tested for truth as it comes, unlike the other counters.\<close>

definition policy_decide :: "recovery_policy \<Rightarrow> chain_state \<Rightarrow> recovery_decision" where
  "policy_decide p s =
     (let repeats = max 0 (repeat_count s);
          retries = max 0 (retry_count s);
          budget = max 0 (max_retry s);
          elapsed = max 0 (elapsed_s s);
          signature = py_strip (failure_signature s);
          mk = (\<lambda>a r. \<lparr>action = a, reason = r, d_repeat_count = repeats, d_retry_count = retries,
                        d_max_retry = budget, d_elapsed_s = elapsed\<rparr>)
      in if repeats \<ge> p_decompose p
         then mk Decompose rsn_threshold
         else if p_after_s p \<noteq> 0 \<and> elapsed \<ge> p_after_s p \<and> open_task_count s \<noteq> 0
         then mk Decompose rsn_time
         else if repeats \<ge> p_repeated p
         then mk Replan rsn_replan
         else if budget \<noteq> 0 \<and> retries \<ge> budget
         then mk (if open_task_count s \<noteq> 0 then Replan else Escalate) rsn_budget
         else mk Retry
           (if signature \<noteq> []
            then rsn_known
            else rsn_default))"

section \<open>What a bounded chain needs of its decision function\<close>

text \<open>
  A retry may be recommended only while the budget lasts. From this alone, a run
  that keeps retrying is over after as many attempts as the budget had left.
\<close>

locale budgeted =
  fixes decide :: "chain_state \<Rightarrow> recovery_decision"
  assumes retry_within: "action (decide s) = Retry \<Longrightarrow> 0 < max_retry s \<Longrightarrow> retry_count s < max_retry s"
begin

fun run :: "nat \<Rightarrow> chain_state \<Rightarrow> recovery_decision list" where
  "run 0 s = []"
| "run (Suc n) s =
     (if action (decide s) \<noteq> Retry then [decide s] else decide s # run n (next_attempt s))"

lemma run_length: "length (run n s) \<le> n"
  by (induction n arbitrary: s) auto

lemma run_retries_before_last:
  "i + 1 < length (run n s) \<Longrightarrow> action (run n s ! i) = Retry"
proof (induction n arbitrary: s i)
  case (Suc n)
  then show ?case by (cases i) (auto split: if_splits)
qed simp

lemma run_nonempty: "0 < n \<Longrightarrow> run n s \<noteq> []"
  by (cases n) auto

lemma run_settles:
  "0 < max_retry s \<Longrightarrow> max_retry s - retry_count s < int n \<Longrightarrow> 0 < n \<Longrightarrow>
     action (last (run n s)) \<noteq> Retry"
proof (induction n arbitrary: s)
  case (Suc n)
  show ?case
  proof (cases "action (decide s) = Retry")
    case True
    with Suc.prems have lt: "retry_count s < max_retry s" using retry_within by blast
    with Suc.prems have "0 < n" by (cases n) auto
    moreover have "action (last (run n (next_attempt s))) \<noteq> Retry"
      using Suc.IH [of "next_attempt s"] Suc.prems \<open>0 < n\<close> by (simp add: next_attempt_def)
    ultimately show ?thesis using True by (simp add: run_nonempty)
  qed simp
qed simp

end

text \<open>The action alone, with the clamps resolved.\<close>

lemma action_decide_recovery:
  "action (decide_recovery e s) =
     (if \<not> retry_chain_enabled e then Retry
      else if 5 \<le> repeat_count s \<or> 10800 \<le> elapsed_s s \<and> 0 < open_task_count s then Decompose
      else if 3 \<le> repeat_count s then Replan
      else if 0 < max_retry s \<and> max_retry s \<le> retry_count s
      then (if 0 < open_task_count s then Replan else Escalate)
      else Retry)"
  by (simp add: decide_recovery_def Let_def decompose_failure_threshold_def
      repeated_failure_threshold_def decompose_after_s_def max_def)

lemma decide_recovery_within:
  "retry_chain_enabled e \<Longrightarrow> action (decide_recovery e s) = Retry \<Longrightarrow> 0 < max_retry s \<Longrightarrow>
     retry_count s < max_retry s"
  by (simp add: action_decide_recovery split: if_splits)

lemma policy_decide_within:
  "action (policy_decide p s) = Retry \<Longrightarrow> 0 < max_retry s \<Longrightarrow> retry_count s < max_retry s"
  by (auto simp: policy_decide_def Let_def split: if_splits)

interpretation policy: budgeted "policy_decide p" for p
  by unfold_locales (rule policy_decide_within)

definition chain_on :: env where
  "chain_on = no_env(''AGI_V8_RETRY_CHAIN_ENABLED'' \<mapsto> ''true'')"

lemma chain_on_enabled [gate_simps]: "retry_chain_enabled chain_on"
  unfolding chain_on_def retry_chain_enabled_def gate_lower_true_def by simp code_simp

text \<open>The environment enters \<open>decide_recovery\<close> through its gate alone.\<close>

lemma decide_recovery_gate:
  "retry_chain_enabled e \<Longrightarrow> decide_recovery e = decide_recovery chain_on"
  by (simp add: fun_eq_iff decide_recovery_def chain_on_enabled)

interpretation gated: budgeted "decide_recovery chain_on"
  by unfold_locales (rule decide_recovery_within [OF chain_on_enabled])

lemma chain_loop_run: "retry_chain_enabled e \<Longrightarrow> chain_loop e n s = gated.run n s"
  by (induction n arbitrary: s) (simp_all add: Let_def decide_recovery_gate)

lemma chain_loop_off:
  "\<not> retry_chain_enabled e \<Longrightarrow>
     length (chain_loop e n s) = n \<and> (\<forall>d \<in> set (chain_loop e n s). action d = Retry)"
  by (induction n arbitrary: s) (auto simp: Let_def decide_recovery_def)

section \<open>Properties\<close>

text \<open>C20: The retry chain always ends: it makes at least one and at most
  \<open>max(1, max_iterations)\<close> decisions, every decision before the last is a retry, and with the
  gate on and a positive budget that the iterations cover, the last decision is not a retry.\<close>

theorem chain_terminates:
  "1 \<le> length (chain_to_termination e m s) \<and>
   length (chain_to_termination e m s) \<le> nat (max 1 m) \<and>
   (\<forall>i. i + 1 < length (chain_to_termination e m s) \<longrightarrow>
        action (chain_to_termination e m s ! i) = Retry) \<and>
   (retry_chain_enabled e \<longrightarrow> 0 < max_retry s \<longrightarrow> max_retry s - retry_count s < max 1 m \<longrightarrow>
        action (last (chain_to_termination e m s)) \<noteq> Retry)"
proof (cases "retry_chain_enabled e")
  case True
  let ?n = "nat (max 1 m)"
  have n: "0 < ?n" "int ?n = max 1 m" by auto
  have "1 \<le> length (gated.run ?n s)"
    using gated.run_nonempty [OF n(1), of s] by (cases "gated.run ?n s") auto
  with True n show ?thesis
    using gated.run_length gated.run_retries_before_last gated.run_settles
    by (simp add: chain_to_termination_def chain_loop_run)
next
  case False
  then show ?thesis
    using chain_loop_off [OF False, of "nat (max 1 m)" s]
    by (auto simp: chain_to_termination_def intro: nth_mem)
qed

definition busy :: chain_state where
  "busy = \<lparr>failure_signature = ''AssertionError'', repeat_count = 0, retry_count = 1, max_retry = 3,
     elapsed_s = 10, open_task_count = 0\<rparr>"

theorem chain_terminates_witness:
  "action (last (chain_to_termination chain_on 64 busy)) \<noteq> Retry \<and>
   length (chain_to_termination chain_on 64 busy) \<le> 64"
  using chain_terminates [of chain_on 64 busy] chain_on_enabled by (simp add: busy_def)

text \<open>The ladder is monotone in the evidence: with everything else equal, more repeats of
  the same failure never bring the recommendation back from decompose to something milder, nor
  from replan to a retry; and escalation needs an exhausted positive budget, no open task and
  fewer repeats than the replan threshold.\<close>

theorem ladder_monotone:
  assumes "repeat_count s \<le> r"
  shows "(action (decide_recovery e s) = Decompose \<longrightarrow>
            action (decide_recovery e (s\<lparr>repeat_count := r\<rparr>)) = Decompose) \<and>
         (action (decide_recovery e s) = Replan \<longrightarrow>
            action (decide_recovery e (s\<lparr>repeat_count := r\<rparr>)) \<in> {Replan, Decompose}) \<and>
         (action (decide_recovery e s) = Escalate \<longrightarrow>
            0 < max_retry s \<and> max_retry s \<le> retry_count s \<and> open_task_count s \<le> 0 \<and>
            repeat_count s < 3)"
  using assms
  by (simp add: action_decide_recovery split: if_splits)

theorem ladder_monotone_witness:
  "action (decide_recovery chain_on (busy\<lparr>retry_count := 3\<rparr>)) = Escalate \<and>
   retry_count (busy\<lparr>retry_count := 3\<rparr>) \<ge> max_retry busy"
proof -
  have a: "action (decide_recovery chain_on (busy\<lparr>retry_count := 3\<rparr>)) = Escalate"
    using chain_on_enabled by (simp add: action_decide_recovery busy_def)
  with ladder_monotone [of "busy\<lparr>retry_count := 3\<rparr>" 4 chain_on] show ?thesis
    by (simp add: busy_def)
qed

text \<open>C29: The two ports agree: with the gate on, \<open>decide_recovery\<close> is the default
  \<open>RecoveryPolicy\<close> on every input whose open-task count is not negative.\<close>

theorem policy_refines_decide_recovery:
  assumes "retry_chain_enabled e" and "0 \<le> open_task_count s"
  shows "policy_decide (policy_init 3 5 (3 * 60 * 60)) s = decide_recovery e s"
  using assms
  by (simp add: policy_decide_def decide_recovery_def policy_init_def Let_def
      decompose_failure_threshold_def repeated_failure_threshold_def decompose_after_s_def max_def)

theorem policy_refines_decide_recovery_witness:
  "policy_decide (policy_init 3 5 (3 * 60 * 60)) busy = decide_recovery chain_on busy"
  by (rule policy_refines_decide_recovery [OF chain_on_enabled]) (simp add: busy_def)

text \<open>The ports differ on a negative open-task count: the policy takes it for open work
  and answers replan where the gated function, which clamps it, escalates.\<close>

theorem policy_negative_open_tasks:
  "action (policy_decide (policy_init 3 5 (3 * 60 * 60))
             (busy\<lparr>retry_count := 3, open_task_count := -1\<rparr>)) = Replan \<and>
   action (decide_recovery chain_on (busy\<lparr>retry_count := 3, open_task_count := -1\<rparr>)) = Escalate"
  using chain_on_enabled
  by (simp add: policy_decide_def decide_recovery_def policy_init_def busy_def Let_def
      decompose_failure_threshold_def repeated_failure_threshold_def decompose_after_s_def)

end
