(* ===== verification/Acceptance.thy ===== *)
theory Acceptance
  imports EvidenceGate
begin

text \<open>
  The acceptance judgement in its two versions, \<open>core/acceptance_gate.py\<close> and
  \<open>enforcement/acceptance_full.py\<close>, and the gate that turns a judgement into an
  evidence promotion. The two modules repeat the evidence-gathering code line by
  line; it is modelled once (\<open>gather\<close>) and the versions differ in the marker
  table and in the verdict reduction. \<open>fr\<close> is the text of a float.
\<close>

section \<open>Verdicts and judgements\<close>

datatype acceptance_verdict = AvPass | AvFail | AvBlocked | AvUnknown | AvReviewRequired | AvUnmeasured

fun av_value :: "acceptance_verdict \<Rightarrow> string" where
  "av_value AvPass = ''pass''"
| "av_value AvFail = ''fail''"
| "av_value AvBlocked = ''blocked''"
| "av_value AvUnknown = ''unknown''"
| "av_value AvReviewRequired = ''review_required''"
| "av_value AvUnmeasured = ''unmeasured''"

record acceptance_judgement =
  verdict :: acceptance_verdict
  satisfied :: "string list"
  missing :: "string list"
  blocked :: "string list"
  jnotes :: "string list"
  review_required :: "string list"

section \<open>Reading the inputs\<close>

definition criteria_from_goal :: "(rat \<Rightarrow> string) \<Rightarrow> dict \<Rightarrow> string list" where
  "criteria_from_goal fr goal =
     (case py_or (py_or (dict_get goal ''acceptance_criteria'') (dict_get goal ''success_criteria''))
            (VList []) of
        VList items \<Rightarrow> filter (\<lambda>t. py_strip t \<noteq> []) (map (py_str fr) items)
      | VStr t \<Rightarrow> (if py_strip t \<noteq> [] then [py_strip t] else [])
      | _ \<Rightarrow> [])"

text \<open>\<open>_ABS_PATH_RE.findall\<close>: leftmost, non-overlapping, greedy matches.\<close>

definition path_char :: "char \<Rightarrow> bool" where
  "path_char c \<longleftrightarrow>
     (let n = char_code c in 65 \<le> n \<and> n \<le> 90 \<or> 97 \<le> n \<and> n \<le> 122 \<or> 48 \<le> n \<and> n \<le> 57 \<or>
        n = 95 \<or> n = 46 \<or> n = 47 \<or> n = 92 \<or> n = 45)"

definition home_prefix :: string where "home_prefix = ''/home/''"

function find_paths :: "string \<Rightarrow> string list" where
  "find_paths [] = []"
| "find_paths (c # cs) =
     (if prefix home_prefix (c # cs) \<and> takeWhile path_char (drop 6 (c # cs)) \<noteq> []
      then (home_prefix @ takeWhile path_char (drop 6 (c # cs)))
             # find_paths (dropWhile path_char (drop 6 (c # cs)))
      else find_paths cs)"
  by pat_completeness auto
termination
  by (relation "measure length") (auto intro: le_less_trans [OF length_dropWhile_le])

declare find_paths.simps(2) [simp del]

definition trailing_punct :: "char \<Rightarrow> bool" where
  "trailing_punct c \<longleftrightarrow> c \<in> set ''.,;:)'' \<or> c = CHR 0x22 \<or> c = CHR 0x27"

definition criterion_paths :: "string \<Rightarrow> string list" where
  "criterion_paths t = map (rstrip_where trailing_punct) (find_paths t)"

text \<open>The inventory dict: items that are mappings with a truthy path; a later one wins.\<close>

fun inventory_of :: "(rat \<Rightarrow> string) \<Rightarrow> pyv list \<Rightarrow> string \<Rightarrow> dict option" where
  "inventory_of fr [] = Map.empty"
| "inventory_of fr (VDict d # items) =
     (\<lambda>k. case inventory_of fr items k of
            Some d' \<Rightarrow> Some d'
          | None \<Rightarrow> if truthy (dict_get d ''path'') \<and> k = py_str fr (dict_get d ''path'')
                    then Some d else None)"
| "inventory_of fr (_ # items) = inventory_of fr items"

definition path_present :: "dict option \<Rightarrow> bool result" where
  "path_present item =
     (case item of
        None \<Rightarrow> Inr False
      | Some d \<Rightarrow>
          if d \<noteq> [] \<and> truthy (dict_get d ''exists'') \<and> truthy (dict_get d ''is_file'')
          then bindR (py_int (py_or (dict_get d ''size'') (VInt 0))) (\<lambda>n. Inr (n > 0))
          else Inr False)"

section \<open>Gathering evidence\<close>

record gathered =
  g_satisfied :: "string list"
  g_missing :: "string list"
  g_notes :: "string list"

fun check_paths :: "(string \<Rightarrow> dict option) \<Rightarrow> string list \<Rightarrow> gathered \<Rightarrow> gathered result" where
  "check_paths invt [] g = Inr g"
| "check_paths invt (p # ps) g =
     bindR (path_present (invt p)) (\<lambda>ok.
       check_paths invt ps
         (if ok then g\<lparr>g_satisfied := g_satisfied g @ [p @ '' exists and is non-empty'']\<rparr>
          else g\<lparr>g_missing := g_missing g @ [p @ '' missing or empty'']\<rparr>))"

definition review_note :: "string \<Rightarrow> string" where
  "review_note t = ''criterion requires judge review: '' @ take 160 t"

fun check_criteria :: "(string \<Rightarrow> dict option) \<Rightarrow> string list \<Rightarrow> gathered \<Rightarrow> gathered result" where
  "check_criteria invt [] g = Inr g"
| "check_criteria invt (t # ts) g =
     bindR (if criterion_paths t = [] then Inr (g\<lparr>g_notes := g_notes g @ [review_note t]\<rparr>)
            else check_paths invt (criterion_paths t) g)
       (check_criteria invt ts)"

definition tester_verdict :: "(rat \<Rightarrow> string) \<Rightarrow> dict \<Rightarrow> string" where
  "tester_verdict fr d =
     py_lower (py_str fr (case map_of d ''verdict'' of Some v \<Rightarrow> v
       | None \<Rightarrow> (case map_of d ''status'' of Some v \<Rightarrow> v | None \<Rightarrow> VStr [])))"

definition builder_status :: "(rat \<Rightarrow> string) \<Rightarrow> dict option \<Rightarrow> string" where
  "builder_status fr b =
     (let d = (case b of Some d \<Rightarrow> d | None \<Rightarrow> [])
      in py_lower (py_str fr (case map_of d ''overall_status'' of Some v \<Rightarrow> v
           | None \<Rightarrow> (case map_of d ''status'' of Some v \<Rightarrow> v | None \<Rightarrow> VStr []))))"

definition tester_fails :: "(rat \<Rightarrow> string) \<Rightarrow> dict \<Rightarrow> bool" where
  "tester_fails fr d \<longleftrightarrow> tester_verdict fr d \<in> {''fail'', ''failed'', ''error''}"

definition tester_passes :: "(rat \<Rightarrow> string) \<Rightarrow> dict \<Rightarrow> bool" where
  "tester_passes fr d \<longleftrightarrow> tester_verdict fr d \<in> {''pass'', ''passed'', ''ok'', ''success''}"

definition builder_fails :: "(rat \<Rightarrow> string) \<Rightarrow> dict option \<Rightarrow> bool" where
  "builder_fails fr b \<longleftrightarrow> builder_status fr b \<in> {''failure'', ''failed'', ''error''}"

definition msg_tester_fail :: string where
  "msg_tester_fail = ''tester_output.verdict indicates failure''"

definition msg_tester_pass :: string where
  "msg_tester_pass = ''tester_output.verdict indicates pass''"

definition msg_builder_fail :: string where
  "msg_builder_fail = ''builder_output indicates failure''"

definition gather ::
  "(rat \<Rightarrow> string) \<Rightarrow> dict \<Rightarrow> dict \<Rightarrow> dict option \<Rightarrow> pyv list \<Rightarrow> gathered result" where
  "gather fr goal tester builder ground_truth =
     check_criteria (inventory_of fr ground_truth) (criteria_from_goal fr goal)
       \<lparr>g_satisfied = (if tester_fails fr tester then []
                       else if tester_passes fr tester then [msg_tester_pass] else []),
        g_missing = (if tester_fails fr tester then [msg_tester_fail] else []) @
                    (if builder_fails fr builder then [msg_builder_fail] else []),
        g_notes = []\<rparr>"

section \<open>Environment blockers\<close>

definition core_markers :: "string list" where
  "core_markers = [''permission'', ''dependency'', ''module not found'', ''modulenotfounderror'',
     ''timeout'', ''rate limit'', ''connection refused'']"

definition full_markers :: "string list" where
  "full_markers = core_markers @ [''name or service not known'', ''no space left on device'',
     ''quota exceeded'', ''ssl'', ''no route to host'']"

definition looks_environment_blocker :: "string list \<Rightarrow> string \<Rightarrow> bool" where
  "looks_environment_blocker markers t = list_ex (contains (py_lower t)) markers"

definition blocked_items :: "string list \<Rightarrow> gathered \<Rightarrow> string list" where
  "blocked_items markers g =
     (if list_ex (looks_environment_blocker markers) (g_missing g @ g_notes g)
      then filter (looks_environment_blocker markers) (g_missing g) else [])"

section \<open>The two judgements\<close>

definition judge_acceptance ::
  "(rat \<Rightarrow> string) \<Rightarrow> bool \<Rightarrow> dict \<Rightarrow> dict \<Rightarrow> dict option \<Rightarrow> pyv list \<Rightarrow> acceptance_judgement result" where
  "judge_acceptance fr evaluator_available goal tester builder ground_truth =
     (if \<not> evaluator_available
      then Inr \<lparr>verdict = AvUnmeasured, satisfied = [], missing = [], blocked = [], jnotes = [],
                review_required = []\<rparr>
      else bindR (gather fr goal tester builder ground_truth) (\<lambda>g.
        let b = blocked_items core_markers g;
            v = (if g_missing g \<noteq> []
                 then (if b \<noteq> [] \<and> length b = length (g_missing g) then AvBlocked else AvFail)
                 else if g_notes g \<noteq> [] then AvReviewRequired
                 else if criteria_from_goal fr goal \<noteq> [] \<or> g_satisfied g \<noteq> [] then AvPass
                 else AvUnknown)
        in Inr \<lparr>verdict = v, satisfied = dedupe_from {} (g_satisfied g),
                missing = dedupe_from {} (g_missing g), blocked = dedupe_from {} b,
                jnotes = dedupe_from {} (g_notes g), review_required = dedupe_from {} (g_notes g)\<rparr>))"

definition judge_acceptance_full ::
  "(rat \<Rightarrow> string) \<Rightarrow> dict \<Rightarrow> dict \<Rightarrow> dict option \<Rightarrow> pyv list \<Rightarrow> acceptance_judgement result" where
  "judge_acceptance_full fr goal tester builder ground_truth =
     bindR (gather fr goal tester builder ground_truth) (\<lambda>g.
       let b = blocked_items full_markers g;
           v = (if g_missing g \<noteq> []
                then (if b \<noteq> [] \<and> length b = length (g_missing g) then AvBlocked else AvFail)
                else if criteria_from_goal fr goal \<noteq> [] \<or> g_satisfied g \<noteq> [] then AvPass
                else AvUnknown)
       in Inr \<lparr>verdict = v, satisfied = dedupe_from {} (g_satisfied g),
               missing = dedupe_from {} (g_missing g), blocked = dedupe_from {} b,
               jnotes = dedupe_from {} (g_notes g), review_required = []\<rparr>)"

section \<open>The promotion gate\<close>

definition acceptance_gate_enabled :: "env \<Rightarrow> bool" where
  "acceptance_gate_enabled e \<longleftrightarrow> gate_lower_true e ''AGI_V8_ACCEPTANCE_GATE_ENABLED''"

definition gated_promote ::
  "env \<Rightarrow> evidence_card \<Rightarrow> string \<Rightarrow> decision_record option \<Rightarrow> acceptance_judgement
    \<Rightarrow> evidence_card result" where
  "gated_promote e evidence to_state decision acceptance =
     (if \<not> acceptance_gate_enabled e then Inr evidence
      else if verdict acceptance = AvUnknown then Inr evidence
      else if verdict acceptance \<noteq> AvPass
      then Inl (ValueError (''acceptance gate refused promotion: verdict='' @
                  av_value (verdict acceptance) @ '' missing='' @
                  nat_text (length (missing acceptance)) @ '' blocked='' @
                  nat_text (length (blocked acceptance))))
      else bindR (parse_state to_state) (\<lambda>t. promote evidence (ev_value t) decision))"

section \<open>Facts about the path scanner\<close>

lemma find_paths_sound:
  "p \<in> set (find_paths t) \<Longrightarrow>
     \<exists>tail. p = home_prefix @ tail \<and> tail \<noteq> [] \<and> list_all path_char tail \<and> sublist p t"
proof (induction t rule: find_paths.induct)
  case (2 c cs)
  let ?m = "takeWhile path_char (drop 6 (c # cs))"
  let ?r = "dropWhile path_char (drop 6 (c # cs))"
  show ?case
  proof (cases "prefix home_prefix (c # cs) \<and> ?m \<noteq> []")
    case True
    then obtain rest where split: "c # cs = home_prefix @ rest" by (auto elim: prefixE)
    then have rest: "drop 6 (c # cs) = rest" by (simp add: home_prefix_def)
    have whole: "c # cs = (home_prefix @ ?m) @ ?r" using split rest by simp
    have sub: "sublist (home_prefix @ ?m) (c # cs)"
      using whole by (metis sublist_append_rightI)
    have subr: "sublist ?r (c # cs)"
      using whole by (metis sublist_append_leftI)
    have "p = home_prefix @ ?m \<or> p \<in> set (find_paths ?r)"
      using 2(3) True by (simp add: find_paths.simps(2))
    then show ?thesis
    proof
      assume "p = home_prefix @ ?m"
      then show ?thesis
        using True sub by (auto simp: list_all_iff dest: set_takeWhileD)
    next
      assume "p \<in> set (find_paths ?r)"
      from 2(1) [OF True this] subr show ?thesis
        by (fast intro: sublist_order.order_trans)
    qed
  next
    case False
    then have "p \<in> set (find_paths cs)" using 2(3) by (auto simp: find_paths.simps(2))
    from 2(2) [OF False this] show ?thesis
      by (auto simp: sublist_Cons_right)
  qed
qed simp

lemma criterion_paths_Nil: "criterion_paths t = [] \<longleftrightarrow> find_paths t = []"
  by (simp add: criterion_paths_def)

section \<open>Facts about the gathering\<close>

text \<open>A path counts as evidence exactly when the inventory says it is a non-empty file.\<close>

definition evidenced :: "(string \<Rightarrow> dict option) \<Rightarrow> string \<Rightarrow> bool" where
  "evidenced invt p \<longleftrightarrow> path_present (invt p) = Inr True"

lemma evidenced_iff:
  "evidenced invt p \<longleftrightarrow>
     (\<exists>d n. invt p = Some d \<and> truthy (dict_get d ''exists'') \<and> truthy (dict_get d ''is_file'') \<and>
        py_int (py_or (dict_get d ''size'') (VInt 0)) = Inr n \<and> 0 < n)"
proof -
  have "dict_get [] k = VNone" for k by (simp add: dict_get_def)
  then show ?thesis by (auto simp: evidenced_def path_present_def split: option.splits)
qed

lemma check_paths_Inr:
  "check_paths invt ps g = Inr g' \<Longrightarrow>
     g_notes g' = g_notes g \<and>
     g_missing g' = g_missing g @ map (\<lambda>p. p @ '' missing or empty'') (filter (\<lambda>p. \<not> evidenced invt p) ps) \<and>
     g_satisfied g' = g_satisfied g @ map (\<lambda>p. p @ '' exists and is non-empty'') (filter (evidenced invt) ps)"
proof (induction ps arbitrary: g)
  case (Cons p ps)
  from Cons.prems obtain ok where ok: "path_present (invt p) = Inr ok"
    and rest: "check_paths invt ps
         (if ok then g\<lparr>g_satisfied := g_satisfied g @ [p @ '' exists and is non-empty'']\<rparr>
          else g\<lparr>g_missing := g_missing g @ [p @ '' missing or empty'']\<rparr>) = Inr g'"
    by auto
  from Cons.IH [OF rest] ok show ?case by (cases ok) (simp_all add: evidenced_def)
qed simp

lemma check_criteria_Inr:
  "check_criteria invt ts g = Inr g' \<Longrightarrow>
     g_notes g' = g_notes g @ map review_note (filter (\<lambda>t. criterion_paths t = []) ts) \<and>
     g_missing g' = g_missing g @ map (\<lambda>p. p @ '' missing or empty'')
        (filter (\<lambda>p. \<not> evidenced invt p) (concat (map criterion_paths ts))) \<and>
     g_satisfied g' = g_satisfied g @ map (\<lambda>p. p @ '' exists and is non-empty'')
        (filter (evidenced invt) (concat (map criterion_paths ts)))"
proof (induction ts arbitrary: g)
  case (Cons t ts)
  show ?case
  proof (cases "criterion_paths t = []")
    case True
    then show ?thesis using Cons.IH Cons.prems by fastforce
  next
    case False
    then obtain h where h: "check_paths invt (criterion_paths t) g = Inr h"
      "check_criteria invt ts h = Inr g'"
      using Cons.prems by auto
    from check_paths_Inr [OF h(1)] Cons.IH [OF h(2)] False show ?thesis by simp
  qed
qed simp

lemma gather_Inr:
  assumes "gather fr goal tester builder gt = Inr g"
  shows "g_notes g = map review_note (filter (\<lambda>t. criterion_paths t = []) (criteria_from_goal fr goal))"
    and "g_missing g =
           (if tester_fails fr tester then [msg_tester_fail] else []) @
           (if builder_fails fr builder then [msg_builder_fail] else []) @
           map (\<lambda>p. p @ '' missing or empty'')
             (filter (\<lambda>p. \<not> evidenced (inventory_of fr gt) p)
               (concat (map criterion_paths (criteria_from_goal fr goal))))"
    and "g_satisfied g =
           (if tester_fails fr tester then [] else if tester_passes fr tester then [msg_tester_pass] else []) @
           map (\<lambda>p. p @ '' exists and is non-empty'')
             (filter (evidenced (inventory_of fr gt))
               (concat (map criterion_paths (criteria_from_goal fr goal))))"
  using check_criteria_Inr [OF assms [unfolded gather_def]] by simp_all

lemma gather_clean:
  assumes "gather fr goal tester builder gt = Inr g"
  shows "g_missing g = [] \<longleftrightarrow>
     \<not> tester_fails fr tester \<and> \<not> builder_fails fr builder \<and>
     (\<forall>t \<in> set (criteria_from_goal fr goal). \<forall>p \<in> set (criterion_paths t).
        evidenced (inventory_of fr gt) p)"
    and "g_notes g = [] \<longleftrightarrow> (\<forall>t \<in> set (criteria_from_goal fr goal). criterion_paths t \<noteq> [])"
  using gather_Inr [OF assms] by (auto simp: filter_empty_conv)

lemma gather_satisfied_only_by_tester:
  assumes "gather fr goal tester builder gt = Inr g" "criteria_from_goal fr goal = []"
    "\<not> tester_fails fr tester"
  shows "g_satisfied g \<noteq> [] \<longleftrightarrow> tester_passes fr tester"
  using gather_Inr(3) [OF assms(1)] assms(2,3) by simp

section \<open>Properties\<close>

definition judged_clean ::
  "(rat \<Rightarrow> string) \<Rightarrow> dict \<Rightarrow> dict \<Rightarrow> dict option \<Rightarrow> pyv list \<Rightarrow> bool" where
  "judged_clean fr goal tester builder gt \<longleftrightarrow>
     \<not> tester_fails fr tester \<and> \<not> builder_fails fr builder \<and>
     (\<forall>t \<in> set (criteria_from_goal fr goal). \<forall>p \<in> set (criterion_paths t).
        evidenced (inventory_of fr gt) p) \<and>
     (criteria_from_goal fr goal \<noteq> [] \<or> tester_passes fr tester)"

lemma acceptance_verdict_cases:
  assumes "judge_acceptance fr True goal tester builder gt = Inr j"
  obtains g where "gather fr goal tester builder gt = Inr g"
    and "verdict j =
      (if g_missing g \<noteq> []
       then (if blocked_items core_markers g \<noteq> [] \<and>
               length (blocked_items core_markers g) = length (g_missing g) then AvBlocked else AvFail)
       else if g_notes g \<noteq> [] then AvReviewRequired
       else if criteria_from_goal fr goal \<noteq> [] \<or> g_satisfied g \<noteq> [] then AvPass
       else AvUnknown)"
  using assms by (auto simp: judge_acceptance_def Let_def)

lemma full_verdict_cases:
  assumes "judge_acceptance_full fr goal tester builder gt = Inr j"
  obtains g where "gather fr goal tester builder gt = Inr g"
    and "verdict j =
      (if g_missing g \<noteq> []
       then (if blocked_items full_markers g \<noteq> [] \<and>
               length (blocked_items full_markers g) = length (g_missing g) then AvBlocked else AvFail)
       else if criteria_from_goal fr goal \<noteq> [] \<or> g_satisfied g \<noteq> [] then AvPass
       else AvUnknown)"
  using assms by (auto simp: judge_acceptance_full_def Let_def)

lemma judged_clean_gather:
  assumes "gather fr goal tester builder gt = Inr g"
  shows "judged_clean fr goal tester builder gt \<longleftrightarrow>
     g_missing g = [] \<and> (criteria_from_goal fr goal \<noteq> [] \<or> g_satisfied g \<noteq> [])"
  using gather_clean(1) [OF assms] gather_satisfied_only_by_tester [OF assms]
  by (auto simp: judged_clean_def)

lemma blocked_items_sub: "set (blocked_items ms g) \<subseteq> set (g_missing g)"
  by (auto simp: blocked_items_def)

lemma blocked_items_full:
  assumes "length (blocked_items ms g) = length (g_missing g)" "m \<in> set (g_missing g)"
    "blocked_items ms g \<noteq> []"
  shows "looks_environment_blocker ms m"
proof -
  have "length (filter (looks_environment_blocker ms) (g_missing g)) = length (g_missing g)"
    using assms(1,3) by (auto simp: blocked_items_def split: if_splits)
  then show ?thesis using assms(2) by (metis length_filter_less less_irrefl)
qed

lemma fixed_missing_unmarked:
  "\<not> looks_environment_blocker core_markers msg_tester_fail"
  "\<not> looks_environment_blocker core_markers msg_builder_fail"
  "\<not> looks_environment_blocker full_markers msg_tester_fail"
  "\<not> looks_environment_blocker full_markers msg_builder_fail"
  by code_simp+

text \<open>C19: the hardened acceptance judgement passes exactly when an evaluator ran, neither
  the tester nor the builder reports failure, every criterion of the goal names at
  least one absolute path, every such path is a non-empty file of the inventory, and
  there is a criterion or an explicit tester pass to judge.
\<close>

theorem acceptance_pass_iff:
  assumes "judge_acceptance fr ev goal tester builder gt = Inr j"
  shows "verdict j = AvPass \<longleftrightarrow>
     ev \<and> judged_clean fr goal tester builder gt \<and>
     (\<forall>t \<in> set (criteria_from_goal fr goal). criterion_paths t \<noteq> [])"
proof (cases ev)
  case False
  then show ?thesis using assms by (auto simp: judge_acceptance_def)
next
  case True
  with assms obtain g where g: "gather fr goal tester builder gt = Inr g"
    and v: "verdict j =
      (if g_missing g \<noteq> []
       then (if blocked_items core_markers g \<noteq> [] \<and>
               length (blocked_items core_markers g) = length (g_missing g) then AvBlocked else AvFail)
       else if g_notes g \<noteq> [] then AvReviewRequired
       else if criteria_from_goal fr goal \<noteq> [] \<or> g_satisfied g \<noteq> [] then AvPass
       else AvUnknown)"
    by (auto elim: acceptance_verdict_cases)
  show ?thesis
    unfolding v judged_clean_gather [OF g] gather_clean(2) [OF g, symmetric] using True by simp
qed

definition sample_goal :: dict where
  "sample_goal = [(''acceptance_criteria'', VList [VStr ''see /home/a/x.py.''])]"

definition sample_inventory :: "pyv list" where
  "sample_inventory = [VDict [(''path'', VStr ''/home/a/x.py''), (''exists'', VBool True),
     (''is_file'', VBool True), (''size'', VInt 7)]]"

lemma sample_judged:
  "holds (judge_acceptance (\<lambda>_. []) True sample_goal [] None sample_inventory) (\<lambda>j. verdict j = AvPass)"
  by code_simp

theorem acceptance_pass_iff_witness:
  "judged_clean (\<lambda>_. []) sample_goal [] None sample_inventory \<and>
   list_all (\<lambda>t. criterion_paths t \<noteq> []) (criteria_from_goal (\<lambda>_. []) sample_goal)"
proof -
  obtain j where j: "judge_acceptance (\<lambda>_. []) True sample_goal [] None sample_inventory = Inr j"
    and pass: "verdict j = AvPass"
    using sample_judged by (rule holdsE)
  show ?thesis using acceptance_pass_iff [OF j] pass by (simp add: list_all_iff)
qed

text \<open>the judgement calls a failure environment-blocked only when every missing item
  is a missing path whose text carries an environment marker; a failing tester or
  builder is never reported as blocked.
\<close>

theorem blocked_is_environmental:
  assumes "judge_acceptance fr ev goal tester builder gt = Inr j" "verdict j = AvBlocked"
  shows "\<not> tester_fails fr tester \<and> \<not> builder_fails fr builder \<and>
    (\<forall>m \<in> set (missing j). \<exists>m'. m = py_strip m' \<and> looks_environment_blocker core_markers m')"
proof -
  have ev using assms by (cases ev) (auto simp: judge_acceptance_def)
  with assms(1) obtain g where g: "gather fr goal tester builder gt = Inr g"
    and j: "verdict j = AvBlocked \<longleftrightarrow> g_missing g \<noteq> [] \<and> blocked_items core_markers g \<noteq> [] \<and>
              length (blocked_items core_markers g) = length (g_missing g)"
    and m: "missing j = dedupe_from {} (g_missing g)"
    by (auto simp: judge_acceptance_def Let_def)
  have all: "looks_environment_blocker core_markers x" if "x \<in> set (g_missing g)" for x
    using blocked_items_full that j assms(2) by blast
  have "msg_tester_fail \<notin> set (g_missing g)" "msg_builder_fail \<notin> set (g_missing g)"
    using all fixed_missing_unmarked by blast+
  then show ?thesis
    using gather_Inr(2) [OF g] all by (auto simp: m set_dedupe_from split: if_splits)
qed

definition blocked_goal :: dict where
  "blocked_goal = [(''success_criteria'', VStr ''needs /home/a/permission.txt'')]"

theorem blocked_is_environmental_witness:
  "\<not> tester_fails (\<lambda>_. []) [(''verdict'', VStr ''ok'')]"
proof -
  have "holds (judge_acceptance (\<lambda>_. []) True blocked_goal [(''verdict'', VStr ''ok'')] None [])
    (\<lambda>j. verdict j = AvBlocked)"
    by code_simp
  then show ?thesis using blocked_is_environmental by (auto elim!: holdsE)
qed

lemma full_verdict_clean:
  assumes "judge_acceptance_full fr goal tester builder gt = Inr j"
  shows "verdict j = AvPass \<longleftrightarrow> judged_clean fr goal tester builder gt"
proof -
  from assms obtain g where g: "gather fr goal tester builder gt = Inr g"
    and v: "verdict j =
      (if g_missing g \<noteq> []
       then (if blocked_items full_markers g \<noteq> [] \<and>
               length (blocked_items full_markers g) = length (g_missing g) then AvBlocked else AvFail)
       else if criteria_from_goal fr goal \<noteq> [] \<or> g_satisfied g \<noteq> [] then AvPass
       else AvUnknown)"
    by (rule full_verdict_cases)
  show ?thesis unfolding v judged_clean_gather [OF g] by simp
qed

text \<open>the parallel judgement of the enforcement layer passes under the same condition
  without the demand that a criterion name a path, so a criterion it only notes for
  review is accepted there.
\<close>

theorem full_judgement_pass_iff:
  assumes "judge_acceptance_full fr goal tester builder gt = Inr j"
  shows "verdict j = AvPass \<longleftrightarrow> judged_clean fr goal tester builder gt"
  using assms by (rule full_verdict_clean)

definition vague_goal :: dict where
  "vague_goal = [(''success_criteria'', VStr ''be correct'')]"

lemma vague_full:
  "holds (judge_acceptance_full (\<lambda>_. []) vague_goal [] None []) (\<lambda>j. verdict j = AvPass)"
  "holds (judge_acceptance (\<lambda>_. []) True vague_goal [] None []) (\<lambda>j. verdict j = AvReviewRequired)"
  by code_simp+

theorem full_judgement_pass_iff_witness:
  "judged_clean (\<lambda>_. []) vague_goal [] None [] \<and>
   holds (judge_acceptance (\<lambda>_. []) True vague_goal [] None []) (\<lambda>j. verdict j = AvReviewRequired)"
  using vague_full full_judgement_pass_iff by (auto elim!: holdsE)

text \<open>through the acceptance gate a card changes only when the gate is on, the
  judgement passes and the evidence contract allows the step with the decision at
  hand; a judgement other than pass or unknown is an error when the gate is on.
\<close>

theorem gated_promote_spec:
  "gated_promote e c t d j = Inr c' \<longleftrightarrow>
     (if acceptance_gate_enabled e
      then if verdict j = AvPass then promote c t d = Inr c' else verdict j = AvUnknown \<and> c' = c
      else c' = c)"
proof -
  have "bindR (parse_state t) (\<lambda>t. promote c (ev_value t) d) = Inr c' \<longleftrightarrow> promote c t d = Inr c'"
    by (auto simp: promote_def bindR_def split: sum.splits)
  then show ?thesis by (auto simp: gated_promote_def)
qed

end
