(* ===== verification/Judge.thy ===== *)
theory Judge
  imports Acceptance Recovery FailFast
begin

text \<open>
  The judge of a cycle (\<open>core/judge.py\<close>) and its full arbitration
  (\<open>enforcement/judge_full.py\<close>): acceptance verdict, optional critic, recovery
  policy. The injected critic is a parameter: \<^const>\<open>None\<close> when absent (or without
  \<open>evaluate_decision\<close>), otherwise a function that raises, returns a ticket, or returns
  something that is no ticket. Clock reading and message id are arguments.
\<close>

section \<open>Tickets and outcomes\<close>

record critic_ticket =
  ct_message_id :: string
  ct_created_at_unix :: rat
  ct_ticket_id :: string
  ct_target_id :: string
  severity :: string
  finding :: string

datatype judge_verdict =
  JvAccept | JvRetry | JvReplan | JvDecompose | JvEscalate | JvBlocked | JvInfeasible

fun jv_value :: "judge_verdict \<Rightarrow> string" where
  "jv_value JvAccept = ''accept''"
| "jv_value JvRetry = ''retry''"
| "jv_value JvReplan = ''replan''"
| "jv_value JvDecompose = ''decompose''"
| "jv_value JvEscalate = ''escalate''"
| "jv_value JvBlocked = ''blocked''"
| "jv_value JvInfeasible = ''infeasible''"

definition judge_decisions :: "judge_verdict list" where
  "judge_decisions = [JvAccept, JvRetry, JvEscalate, JvBlocked, JvInfeasible]"

definition judge_decisions_full :: "judge_verdict list" where
  "judge_decisions_full =
     [JvAccept, JvRetry, JvReplan, JvDecompose, JvEscalate, JvBlocked, JvInfeasible]"

record judge_outcome =
  jo_record :: decision_record
  jo_ticket :: "critic_ticket option"
  jo_verdict :: judge_verdict

record judge_outcome_full = judge_outcome +
  jo_recovery :: "recovery_decision option"
  jo_acceptance :: "acceptance_judgement option"

type_synonym critic = "decision_record \<Rightarrow> evidence_card list \<Rightarrow> critic_ticket option result"

section \<open>The steps of a judge pass\<close>

definition judge_enabled :: "env \<Rightarrow> bool" where
  "judge_enabled e \<longleftrightarrow> gate_lower_true e ''AGI_V8_JUDGE_ENABLED''"

definition judge_full_enabled :: "env \<Rightarrow> bool" where
  "judge_full_enabled e \<longleftrightarrow> gate_lower_true e ''AGI_V8_JUDGE_FULL_ENABLED''"

fun verdict_from_acceptance :: "acceptance_verdict \<Rightarrow> judge_verdict" where
  "verdict_from_acceptance AvPass = JvAccept"
| "verdict_from_acceptance AvBlocked = JvBlocked"
| "verdict_from_acceptance AvFail = JvRetry"
| "verdict_from_acceptance _ = JvRetry"

definition maybe_critic ::
  "env \<Rightarrow> critic option \<Rightarrow> decision_record \<Rightarrow> evidence_card list \<Rightarrow> critic_ticket option result" where
  "maybe_critic e critic d evidence =
     (case critic of
        None \<Rightarrow> Inr None
      | Some f \<Rightarrow> (case f d evidence of Inl x \<Rightarrow> absorb e x None | Inr t \<Rightarrow> Inr t))"

definition downgrade_with_critic :: "judge_verdict \<Rightarrow> critic_ticket option \<Rightarrow> judge_verdict" where
  "downgrade_with_critic v ticket =
     (case ticket of
        None \<Rightarrow> v
      | Some t \<Rightarrow>
          if py_lower (severity t) = ''reject'' then JvEscalate
          else if py_lower (severity t) = ''warn'' \<and> v = JvAccept then JvRetry
          else v)"

definition downgrade_with_critic_full :: "judge_verdict \<Rightarrow> critic_ticket option \<Rightarrow> judge_verdict" where
  "downgrade_with_critic_full v ticket =
     (case ticket of
        None \<Rightarrow> v
      | Some t \<Rightarrow>
          if py_lower (severity t) = ''reject'' then JvEscalate
          else if py_lower (severity t) = ''warn''
          then (if v = JvAccept then JvRetry else if v = JvBlocked then JvEscalate else v)
          else v)"

definition apply_recovery :: "judge_verdict \<Rightarrow> recovery_decision option \<Rightarrow> judge_verdict" where
  "apply_recovery v recovery =
     (case recovery of
        None \<Rightarrow> v
      | Some r \<Rightarrow>
          if v = JvAccept then v
          else (case action r of
                  Retry \<Rightarrow> v
                | Replan \<Rightarrow> JvReplan
                | Decompose \<Rightarrow> JvDecompose
                | Escalate \<Rightarrow> JvEscalate))"

definition rationale_text :: "acceptance_judgement \<Rightarrow> string \<Rightarrow> string" where
  "rationale_text a extra =
     py_strip (''acceptance.verdict='' @ av_value (verdict a) @ '' missing='' @
       nat_text (length (missing a)) @ '' blocked='' @ nat_text (length (blocked a)) @ '' '' @ extra)"

definition judge_record ::
  "string \<Rightarrow> string \<Rightarrow> rat \<Rightarrow> string \<Rightarrow> acceptance_judgement \<Rightarrow> evidence_card list \<Rightarrow> string
    \<Rightarrow> decision_record" where
  "judge_record label mid now cycle_id a evidence extra =
     \<lparr>dr_message_id = mid, dr_created_at_unix = now, decision_id = label @ cycle_id,
      dr_evidence_ids = map evidence_id evidence,
      outcome = jv_value (verdict_from_acceptance (verdict a)), rationale = rationale_text a extra\<rparr>"

section \<open>The two judge cycles and arbitration\<close>

definition judge_cycle ::
  "env \<Rightarrow> string \<Rightarrow> rat \<Rightarrow> string \<Rightarrow> acceptance_judgement \<Rightarrow> evidence_card list \<Rightarrow> critic option
    \<Rightarrow> string \<Rightarrow> judge_outcome result" where
  "judge_cycle e mid now cycle_id a evidence critic extra =
     (let base = verdict_from_acceptance (verdict a);
          d = judge_record ''judge_decision_'' mid now cycle_id a evidence extra
      in bindR (maybe_critic e critic d evidence) (\<lambda>ticket.
           Inr \<lparr>jo_record = d, jo_ticket = ticket, jo_verdict = downgrade_with_critic base ticket\<rparr>))"

definition judge_cycle_full ::
  "env \<Rightarrow> string \<Rightarrow> rat \<Rightarrow> string \<Rightarrow> acceptance_judgement \<Rightarrow> evidence_card list \<Rightarrow> critic option
    \<Rightarrow> recovery_policy option \<Rightarrow> chain_state \<Rightarrow> string \<Rightarrow> judge_outcome_full result" where
  "judge_cycle_full e mid now cycle_id a evidence critic policy s extra =
     (let base = verdict_from_acceptance (verdict a);
          recovery = map_option (\<lambda>p. policy_decide p s) policy;
          d = judge_record ''judge_full_decision_'' mid now cycle_id a evidence extra
      in bindR (maybe_critic e critic d evidence) (\<lambda>ticket.
           Inr \<lparr>jo_record = d, jo_ticket = ticket,
                jo_verdict = apply_recovery (downgrade_with_critic_full base ticket) recovery,
                jo_recovery = recovery, jo_acceptance = Some a\<rparr>))"

definition arbitrate ::
  "(rat \<Rightarrow> string) \<Rightarrow> env \<Rightarrow> string \<Rightarrow> rat \<Rightarrow> string \<Rightarrow> dict \<Rightarrow> dict \<Rightarrow> dict option \<Rightarrow> pyv list
    \<Rightarrow> evidence_card list \<Rightarrow> critic option \<Rightarrow> recovery_policy option \<Rightarrow> chain_state
    \<Rightarrow> judge_outcome_full result" where
  "arbitrate fr e mid now cycle_id goal tester builder gt evidence critic policy s =
     bindR (judge_acceptance_full fr goal tester builder gt) (\<lambda>a.
       judge_cycle_full e mid now cycle_id a evidence critic policy s [])"

section \<open>Facts\<close>

lemma verdict_from_acceptance_accept [simp]:
  "verdict_from_acceptance v = JvAccept \<longleftrightarrow> v = AvPass"
  by (cases v) simp_all

lemma verdict_from_acceptance_range:
  "verdict_from_acceptance v \<in> {JvAccept, JvRetry, JvBlocked}"
  by (cases v) simp_all

text \<open>The ticket does not object: there is none, or its severity is neither warn nor reject.\<close>

definition no_objection :: "critic_ticket option \<Rightarrow> bool" where
  "no_objection ticket \<longleftrightarrow>
     (case ticket of None \<Rightarrow> True | Some t \<Rightarrow> py_lower (severity t) \<notin> {''reject'', ''warn''})"

lemma downgrade_accept [simp]:
  "downgrade_with_critic v t = JvAccept \<longleftrightarrow> v = JvAccept \<and> no_objection t"
  "downgrade_with_critic_full v t = JvAccept \<longleftrightarrow> v = JvAccept \<and> no_objection t"
  by (auto simp: downgrade_with_critic_def downgrade_with_critic_full_def no_objection_def
      split: option.splits)

lemma apply_recovery_accept [simp]: "apply_recovery v r = JvAccept \<longleftrightarrow> v = JvAccept"
  by (auto simp: apply_recovery_def split: option.splits recovery_action.splits)

lemma downgrade_range:
  "v \<in> set judge_decisions \<Longrightarrow> downgrade_with_critic v t \<in> set judge_decisions"
  by (auto simp: downgrade_with_critic_def judge_decisions_def split: option.splits)

lemma base_in_decisions: "verdict_from_acceptance v \<in> set judge_decisions"
  using verdict_from_acceptance_range [of v] by (auto simp: judge_decisions_def)

lemma judge_cycle_Inr:
  "judge_cycle e mid now cid a ev critic extra = Inr o' \<longleftrightarrow>
     (\<exists>t. maybe_critic e critic (judge_record ''judge_decision_'' mid now cid a ev extra) ev = Inr t \<and>
        o' = \<lparr>jo_record = judge_record ''judge_decision_'' mid now cid a ev extra, jo_ticket = t,
              jo_verdict = downgrade_with_critic (verdict_from_acceptance (verdict a)) t\<rparr>)"
  by (auto simp: judge_cycle_def Let_def)

lemma judge_cycle_full_Inr:
  "judge_cycle_full e mid now cid a ev critic policy s extra = Inr o' \<longleftrightarrow>
     (\<exists>t. maybe_critic e critic (judge_record ''judge_full_decision_'' mid now cid a ev extra) ev = Inr t \<and>
        o' = \<lparr>jo_record = judge_record ''judge_full_decision_'' mid now cid a ev extra, jo_ticket = t,
              jo_verdict = apply_recovery (downgrade_with_critic_full (verdict_from_acceptance (verdict a)) t)
                 (map_option (\<lambda>p. policy_decide p s) policy),
              jo_recovery = map_option (\<lambda>p. policy_decide p s) policy, jo_acceptance = Some a\<rparr>)"
  by (auto simp: judge_cycle_full_def Let_def)

section \<open>Properties\<close>

text \<open>A judge pass accepts exactly when the acceptance verdict is pass and the critic, if it
  returned a ticket at all, did not object; the decision record it always carries states the
  verdict of the acceptance alone, before the critic.\<close>

theorem judge_accepts_iff:
  assumes "judge_cycle e mid now cid a ev critic extra = Inr oc"
  shows "(jo_verdict oc = JvAccept \<longleftrightarrow> verdict a = AvPass \<and> no_objection (jo_ticket oc)) \<and>
    jo_verdict oc \<in> set judge_decisions \<and>
    outcome (jo_record oc) = jv_value (verdict_from_acceptance (verdict a)) \<and>
    dr_evidence_ids (jo_record oc) = map evidence_id ev"
  using assms downgrade_range [OF base_in_decisions]
  by (auto simp: judge_cycle_Inr judge_record_def)

definition passing :: acceptance_judgement where
  "passing = \<lparr>verdict = AvPass, satisfied = [''ok''], missing = [], blocked = [], jnotes = [],
     review_required = []\<rparr>"

definition objecting :: critic where
  "objecting d evs = Inr (Some \<lparr>ct_message_id = ''ct_1'', ct_created_at_unix = 0, ct_ticket_id = ''t1'',
     ct_target_id = decision_id d, severity = ''Reject'', finding = ''unsafe''\<rparr>)"

theorem judge_accepts_iff_witness:
  "\<exists>oc. judge_cycle no_env ''m'' 0 ''c1'' passing [] (Some objecting) [] = Inr oc \<and>
     jo_verdict oc \<noteq> JvAccept"
proof -
  have "holds (judge_cycle no_env ''m'' 0 ''c1'' passing [] (Some objecting) [])
          (\<lambda>oc. \<not> no_objection (jo_ticket oc))"
    by (simp add: judge_cycle_def Let_def maybe_critic_def objecting_def no_objection_def) code_simp
  then show ?thesis using judge_accepts_iff by (auto elim!: holdsE)
qed

text \<open>A critic that raises cannot change the outcome: outside strict mode the pass ends as if
  there were no critic, and in strict mode the critic's own exception leaves the pass.\<close>

theorem raising_critic_is_contained:
  assumes "\<forall>d evs. f d evs = Inl x"
  shows "judge_cycle e mid now cid a ev (Some f) extra =
      (if strict_enabled e then Inl x else judge_cycle e mid now cid a ev None extra) \<and>
    judge_cycle_full e mid now cid a ev (Some f) policy s extra =
      (if strict_enabled e then Inl x else judge_cycle_full e mid now cid a ev None policy s extra)"
  using assms by (simp add: judge_cycle_def judge_cycle_full_def maybe_critic_def absorb_def)

theorem raising_critic_is_contained_witness:
  "judge_cycle no_env ''m'' 0 ''c1'' passing [] (Some (\<lambda>_ _. Inl (RuntimeError ''boom''))) [] =
   judge_cycle no_env ''m'' 0 ''c1'' passing [] None []"
proof -
  have "\<not> strict_enabled no_env" by (simp add: strict_enabled_def gate_strict_def)
  then show ?thesis
    using raising_critic_is_contained [of "\<lambda>_ _. Inl (RuntimeError ''boom'')"] by simp
qed

text \<open>One-shot arbitration accepts exactly when the judged inputs are clean and the critic
  does not object; no recovery policy, counter or time can turn any other verdict into accept
  or take an accept back.\<close>

theorem arbitrate_accepts_iff:
  assumes "arbitrate fr e mid now cid goal tester builder gt ev critic policy s = Inr oc"
  shows "jo_verdict oc = JvAccept \<longleftrightarrow>
    judged_clean fr goal tester builder gt \<and> no_objection (jo_ticket oc)"
proof -
  from assms obtain a where a: "judge_acceptance_full fr goal tester builder gt = Inr a"
    and oc: "judge_cycle_full e mid now cid a ev critic policy s [] = Inr oc"
    by (auto simp: arbitrate_def)
  from oc have "jo_verdict oc = JvAccept \<longleftrightarrow> verdict a = AvPass \<and> no_objection (jo_ticket oc)"
    by (auto simp: judge_cycle_full_Inr)
  then show ?thesis using full_verdict_clean [OF a] by simp
qed

theorem arbitrate_accepts_iff_witness:
  "judged_clean (\<lambda>_. []) vague_goal [] None []"
proof -
  have "holds (arbitrate (\<lambda>_. []) no_env ''m'' 0 ''c1'' vague_goal [] None [] [] None None busy)
     (\<lambda>oc. jo_verdict oc = JvAccept)"
    by code_simp
  then show ?thesis using arbitrate_accepts_iff by (auto elim!: holdsE)
qed

text \<open>The recovery policy overrides the critic: an escalation demanded by a rejecting critic
  comes out as replan, or as decompose, when the policy recommends that.\<close>

theorem recovery_overrides_escalation:
  "downgrade_with_critic_full v (Some (t\<lparr>severity := ''reject''\<rparr>)) = JvEscalate \<and>
   (action r = Replan \<longrightarrow>
      apply_recovery (downgrade_with_critic_full v (Some (t\<lparr>severity := ''reject''\<rparr>))) (Some r) = JvReplan) \<and>
   (action r = Decompose \<longrightarrow>
      apply_recovery (downgrade_with_critic_full v (Some (t\<lparr>severity := ''reject''\<rparr>))) (Some r) = JvDecompose)"
proof -
  have "py_lower ''reject'' = ''reject''" by code_simp
  then show ?thesis by (simp add: downgrade_with_critic_full_def apply_recovery_def)
qed

definition sample_ticket :: critic_ticket where
  "sample_ticket = \<lparr>ct_message_id = ''ct_1'', ct_created_at_unix = 0, ct_ticket_id = ''t1'',
     ct_target_id = ''d1'', severity = ''info'', finding = []\<rparr>"

definition repeating :: recovery_decision where
  "repeating = policy_decide (policy_init 3 5 0) (busy\<lparr>repeat_count := 3\<rparr>)"

theorem recovery_overrides_escalation_witness:
  "apply_recovery (downgrade_with_critic_full JvRetry
     (Some (sample_ticket\<lparr>severity := ''reject''\<rparr>))) (Some repeating) = JvReplan"
proof -
  have "action repeating = Replan" by (simp add: repeating_def policy_decide_def policy_init_def busy_def)
  then show ?thesis using recovery_overrides_escalation by blast
qed

end
