(* ===== verification/Store.thy ===== *)
theory Store
  imports FailFast
begin

text \<open>
  The state store (\<open>state/store.py\<close>): append-only JSONL ledgers, atomic replacement of
  whole files, tolerant reads and the permission audit. A file system maps paths to
  regular files, symbolic links and directories. A ledger's content is the list of its
  lines, each already classified by the JSON parser, and a flag for a last line that a
  failed write left cut short. Parent directories are taken to exist, as the code
  creates them first. The advisory lock makes each transaction one step.
\<close>

section \<open>Files\<close>

type_synonym path = string

datatype 'c node = Reg nat 'c | Link path | Dir

type_synonym 'c fs = "path \<Rightarrow> 'c node option"

datatype jline = Blank | Row pyv | Bad

record jsonl =
  jlines :: "jline list"
  torn :: bool

type_synonym ledger_fs = "jsonl fs"

text \<open>Following symbolic links as \<open>open\<close> does, at most 40 of them.\<close>

fun follow :: "nat \<Rightarrow> 'c fs \<Rightarrow> path \<Rightarrow> 'c node option" where
  "follow 0 fs p = None"
| "follow (Suc n) fs p = (case fs p of Some (Link q) \<Rightarrow> follow n fs q | r \<Rightarrow> r)"

definition max_links :: nat where "max_links = 40"

definition opened :: "'c fs \<Rightarrow> path \<Rightarrow> 'c node option" where
  "opened fs p = follow (Suc max_links) fs p"

lemma opened_direct [simp]:
  "fs p = None \<Longrightarrow> opened fs p = None"
  "fs p = Some (Reg m c) \<Longrightarrow> opened fs p = Some (Reg m c)"
  "fs p = Some Dir \<Longrightarrow> opened fs p = Some Dir"
  by (simp_all add: opened_def)

section \<open>Permissions\<close>

definition strict_perms_enabled :: "env \<Rightarrow> bool" where
  "strict_perms_enabled e \<longleftrightarrow>
     py_lower (py_strip (getenv e ''AGI_V8_LEDGER_STRICT_PERMS'' ''true'')) \<notin> {''false'', ''0''}"

definition ledger_mode_audit_enabled :: "env \<Rightarrow> bool" where
  "ledger_mode_audit_enabled e \<longleftrightarrow>
     py_lower (py_strip (getenv e ''AGI_V8_LEDGER_MODE_AUDIT'' ''true'')) \<notin> {''false'', ''0''}"

definition has_bit :: "nat \<Rightarrow> nat \<Rightarrow> bool" where
  "has_bit m b \<longleftrightarrow> odd (m div b)"

text \<open>The mode a new file gets: the requested bits less the process umask.\<close>

definition less_umask :: "nat \<Rightarrow> nat \<Rightarrow> nat" where
  "less_umask m umask =
     sum_list (filter (\<lambda>b. has_bit m b \<and> \<not> has_bit umask b) [256, 128, 64, 32, 16, 8, 4, 2, 1])"

definition ledger_mode_target :: nat where "ledger_mode_target = 384"

definition create_mode :: "env \<Rightarrow> nat \<Rightarrow> nat" where
  "create_mode e umask = less_umask (if strict_perms_enabled e then ledger_mode_target else 438) umask"

section \<open>Appending\<close>

text \<open>
  How the write of one line ends: complete, failed with nothing written, failed inside the
  object, which leaves its first bytes without a line end, or complete with a synchronisation
  to the disk that failed, which raises although the line is there.
\<close>

datatype wr = WrOk | WrNone | WrPartial | WrUnsynced

text \<open>A line written after a cut one continues it and parses no more.\<close>

definition add_line :: "pyv \<Rightarrow> jsonl \<Rightarrow> jsonl" where
  "add_line v c =
     (if torn c then \<lparr>jlines = butlast (jlines c) @ [Bad], torn = False\<rparr>
      else \<lparr>jlines = jlines c @ [Row v], torn = False\<rparr>)"

definition add_torn :: "jsonl \<Rightarrow> jsonl" where
  "add_torn c = (if torn c then c else \<lparr>jlines = jlines c @ [Bad], torn = True\<rparr>)"

definition append_jsonl_unlocked ::
  "env \<Rightarrow> nat \<Rightarrow> wr \<Rightarrow> path \<Rightarrow> pyv \<Rightarrow> ledger_fs \<Rightarrow> ledger_fs \<times> unit result" where
  "append_jsonl_unlocked e umask w p entry fs =
     (case fs p of
        Some (Link _) \<Rightarrow> (fs, Inl (OSError (''refusing to append through symlink: '' @ p)))
      | Some Dir \<Rightarrow> (fs, Inl (OSError ''Is a directory''))
      | node \<Rightarrow>
          (let (m, c) = (case node of Some (Reg m c) \<Rightarrow> (m, c)
                         | _ \<Rightarrow> (create_mode e umask, \<lparr>jlines = [], torn = False\<rparr>))
           in case w of
                WrOk \<Rightarrow> (fs(p \<mapsto> Reg m (add_line entry c)), Inr ())
              | WrNone \<Rightarrow> (fs(p \<mapsto> Reg m c), Inl (OSError ''short write while appending JSONL''))
              | WrPartial \<Rightarrow> (fs(p \<mapsto> Reg m (add_torn c)),
                              Inl (OSError ''short write while appending JSONL''))
              | WrUnsynced \<Rightarrow> (fs(p \<mapsto> Reg m (add_line entry c)), Inl (OSError ''fsync''))))"

text \<open>
  The transaction of \<open>atomic_append_jsonl_transaction\<close>: the yielded callback works only
  while the lock is held and only for the process and thread that took it.
\<close>

record txn =
  active :: bool
  owner_pid :: nat
  owner_thread :: nat

definition append_while_locked ::
  "env \<Rightarrow> nat \<Rightarrow> wr \<Rightarrow> txn \<Rightarrow> nat \<Rightarrow> nat \<Rightarrow> path \<Rightarrow> pyv \<Rightarrow> ledger_fs
    \<Rightarrow> ledger_fs \<times> unit result" where
  "append_while_locked e umask w t pid tid p entry fs =
     (if \<not> active t
      then (fs, Inl (RuntimeError ''JSONL transaction callback used outside its lock lease''))
      else if pid \<noteq> owner_pid t \<or> tid \<noteq> owner_thread t
      then (fs, Inl (RuntimeError ''JSONL transaction callback used by a non-owner''))
      else append_jsonl_unlocked e umask w p entry fs)"

definition open_txn :: "nat \<Rightarrow> nat \<Rightarrow> txn" where
  "open_txn pid tid = \<lparr>active = True, owner_pid = pid, owner_thread = tid\<rparr>"

definition close_txn :: "txn \<Rightarrow> txn" where
  "close_txn t = t\<lparr>active := False\<rparr>"

definition atomic_append_jsonl ::
  "env \<Rightarrow> nat \<Rightarrow> wr \<Rightarrow> nat \<Rightarrow> nat \<Rightarrow> path \<Rightarrow> pyv \<Rightarrow> ledger_fs \<Rightarrow> ledger_fs \<times> unit result" where
  "atomic_append_jsonl e umask w pid tid p entry fs =
     append_while_locked e umask w (open_txn pid tid) pid tid p entry fs"

section \<open>Reading\<close>

fun parse_lines :: "jline list \<Rightarrow> pyv list result" where
  "parse_lines [] = Inr []"
| "parse_lines (Blank # ls) = parse_lines ls"
| "parse_lines (Row v # ls) = bindR (parse_lines ls) (\<lambda>vs. Inr (v # vs))"
| "parse_lines (Bad # ls) = Inl (JSONDecodeError ''Extra data'')"

definition read_jsonl :: "ledger_fs \<Rightarrow> path \<Rightarrow> pyv list result" where
  "read_jsonl fs p =
     (case opened fs p of
        Some (Reg _ c) \<Rightarrow> parse_lines (jlines c)
      | Some _ \<Rightarrow> Inl (OSError ''Is a directory'')
      | None \<Rightarrow> Inr [])"

section \<open>Atomic replacement\<close>

definition reject_symlink_target :: "'c fs \<Rightarrow> path \<Rightarrow> string \<Rightarrow> unit result" where
  "reject_symlink_target fs p what =
     (case fs p of
        Some (Link _) \<Rightarrow> Inl (ValueError (''refusing symlink '' @ what @ '': '' @ p))
      | _ \<Rightarrow> Inr ())"

datatype fault = NoFault | FaultWrite | FaultReplace

text \<open>
  \<open>atomic_write_json\<close> and \<open>atomic_write_text\<close>: the file system after every call of the
  sequence (create the temporary file, write it, rename it over the target, or unlink
  it on failure) and the result. \<open>part\<close> is what a failed write left in the temporary file.
\<close>

definition atomic_write ::
  "fault \<Rightarrow> 'c \<Rightarrow> string \<Rightarrow> path \<Rightarrow> path \<Rightarrow> 'c \<Rightarrow> 'c \<Rightarrow> 'c fs \<Rightarrow> 'c fs list \<times> unit result" where
  "atomic_write ft nothing what p tmp part doc fs =
     (case reject_symlink_target fs p what of
        Inl x \<Rightarrow> ([fs], Inl x)
      | Inr _ \<Rightarrow>
          (let s1 = fs(tmp \<mapsto> Reg ledger_mode_target nothing);
               s2 = fs(tmp \<mapsto> Reg ledger_mode_target doc);
               s3 = (fs(p \<mapsto> Reg ledger_mode_target doc))(tmp := None)
           in if ft = FaultWrite
              then ([fs, s1, fs(tmp \<mapsto> Reg ledger_mode_target part), fs(tmp := None)],
                    Inl (OSError ''write''))
              else if ft = FaultReplace \<or> fs p = Some Dir
              then ([fs, s1, s2, fs(tmp := None)], Inl (OSError ''replace''))
              else ([fs, s1, s2, s3], Inr ())))"

section \<open>The permission audit\<close>

definition mode_risk_score :: "nat \<Rightarrow> nat" where
  "mode_risk_score m = length (filter (has_bit m) [32, 16, 8, 4, 2, 1])"

record mode_audit =
  enabled :: bool
  risky_count :: nat
  worst_mode :: "nat option"
  symlink_count :: nat
  total_scanned :: nat
  paths :: "path list"
  paths_truncated :: bool

definition audit_max_paths :: nat where "audit_max_paths = 20"

definition worse :: "nat \<Rightarrow> nat \<Rightarrow> bool" where
  "worse m w \<longleftrightarrow> mode_risk_score w < mode_risk_score m \<or>
                 mode_risk_score m = mode_risk_score w \<and> w < m"

record scan =
  sc_risky :: "path list"
  sc_links :: nat
  sc_total :: nat
  sc_worst :: "nat option"

definition scan_one :: "'c fs \<Rightarrow> path \<Rightarrow> scan \<Rightarrow> scan" where
  "scan_one fs p s =
     (case fs p of
        Some (Link _) \<Rightarrow> s\<lparr>sc_links := Suc (sc_links s)\<rparr>
      | Some (Reg m _) \<Rightarrow>
          (let s = s\<lparr>sc_total := Suc (sc_total s)\<rparr>
           in if m = ledger_mode_target then s
              else s\<lparr>sc_risky := sc_risky s @ [p],
                     sc_worst := (case sc_worst s of None \<Rightarrow> Some m
                                  | Some w \<Rightarrow> if worse m w then Some m else Some w)\<rparr>)
      | _ \<Rightarrow> s)"

text \<open>\<open>found\<close> is the sorted list of the paths the glob matched.\<close>

definition audit_ledger_modes :: "env \<Rightarrow> path list \<Rightarrow> 'c fs \<Rightarrow> mode_audit" where
  "audit_ledger_modes e found fs =
     (if \<not> ledger_mode_audit_enabled e
      then \<lparr>enabled = False, risky_count = 0, worst_mode = None, symlink_count = 0,
            total_scanned = 0, paths = [], paths_truncated = False\<rparr>
      else (let s = fold (scan_one fs) found
                  \<lparr>sc_risky = [], sc_links = 0, sc_total = 0, sc_worst = None\<rparr>
            in \<lparr>enabled = True, risky_count = length (sc_risky s), worst_mode = sc_worst s,
                symlink_count = sc_links s, total_scanned = sc_total s,
                paths = take audit_max_paths (sc_risky s),
                paths_truncated = audit_max_paths < length (sc_risky s)\<rparr>))"

section \<open>What a client needs of an append-only log\<close>

text \<open>
  A log that is in order stays in order, and reading it after an append gives what it
  gave before and the new row at the end. From these two laws, the rows of a log are
  the rows it started with followed by everything appended, in order.
\<close>

locale append_log =
  fixes ok :: "'s \<Rightarrow> bool"
    and push :: "'row \<Rightarrow> 's \<Rightarrow> 's"
    and entries :: "'s \<Rightarrow> 'row list"
  assumes ok_append: "ok s \<Longrightarrow> ok (push r s)"
    and rows_append: "ok s \<Longrightarrow> entries (push r s) = entries s @ [r]"
begin

lemma ok_fold: "ok s \<Longrightarrow> ok (fold push rs s)"
  by (induction rs arbitrary: s) (auto simp: ok_append)

lemma rows_fold: "ok s \<Longrightarrow> entries (fold push rs s) = entries s @ rs"
  by (induction rs arbitrary: s) (auto simp: ok_append rows_append)

lemma rows_kept: "ok s \<Longrightarrow> prefix (entries s) (entries (fold push rs s))"
  by (simp add: rows_fold)

lemma row_present: "ok s \<Longrightarrow> r \<in> set (entries (fold push (rs @ r # rs') s))"
  by (simp add: ok_append rows_append rows_fold ok_fold)

end

section \<open>The ledger is such a log\<close>

definition ledger_ok :: "path \<Rightarrow> ledger_fs \<Rightarrow> bool" where
  "ledger_ok p fs \<longleftrightarrow>
     (case fs p of
        None \<Rightarrow> True
      | Some (Reg _ c) \<Rightarrow> \<not> torn c \<and> Bad \<notin> set (jlines c)
      | _ \<Rightarrow> False)"

definition ledger_append :: "env \<Rightarrow> nat \<Rightarrow> path \<Rightarrow> pyv \<Rightarrow> ledger_fs \<Rightarrow> ledger_fs" where
  "ledger_append e umask p v fs = fst (atomic_append_jsonl e umask WrOk 0 0 p v fs)"

definition ledger_rows :: "path \<Rightarrow> ledger_fs \<Rightarrow> pyv list" where
  "ledger_rows p fs = (case read_jsonl fs p of Inr vs \<Rightarrow> vs | Inl _ \<Rightarrow> [])"

fun row_values :: "jline list \<Rightarrow> pyv list" where
  "row_values [] = []"
| "row_values (Row v # ls) = v # row_values ls"
| "row_values (_ # ls) = row_values ls"

lemma row_values_append [simp]: "row_values (xs @ ys) = row_values xs @ row_values ys"
  by (induction xs rule: row_values.induct) simp_all

lemma parse_lines_ok: "Bad \<notin> set ls \<Longrightarrow> parse_lines ls = Inr (row_values ls)"
  by (induction ls rule: parse_lines.induct) simp_all

lemma parse_lines_bad: "Bad \<in> set ls \<Longrightarrow> \<exists>x. parse_lines ls = Inl (JSONDecodeError x)"
  by (induction ls rule: parse_lines.induct) auto

lemma atomic_append_eq:
  "atomic_append_jsonl e umask w pid tid p v fs = append_jsonl_unlocked e umask w p v fs"
  by (simp add: atomic_append_jsonl_def append_while_locked_def open_txn_def)

lemma append_result_ok:
  "ledger_ok p fs \<Longrightarrow> snd (atomic_append_jsonl e umask WrOk pid tid p v fs) = Inr ()"
  by (auto simp: ledger_ok_def atomic_append_eq append_jsonl_unlocked_def
      split: option.splits node.splits)

lemma ledger_append_ok: "ledger_ok p fs \<Longrightarrow> ledger_ok p (ledger_append e umask p v fs)"
  by (auto simp: ledger_ok_def ledger_append_def atomic_append_eq append_jsonl_unlocked_def
      add_line_def split: option.splits node.splits)

lemma ledger_rows_none [simp]: "fs p = None \<Longrightarrow> ledger_rows p fs = []"
  by (simp add: ledger_rows_def read_jsonl_def)

lemma ledger_rows_reg:
  "fs p = Some (Reg m c) \<Longrightarrow> Bad \<notin> set (jlines c) \<Longrightarrow> ledger_rows p fs = row_values (jlines c)"
  by (simp add: ledger_rows_def read_jsonl_def parse_lines_ok)

lemma ledger_read_ok: "ledger_ok p fs \<Longrightarrow> read_jsonl fs p = Inr (ledger_rows p fs)"
  by (auto simp: ledger_ok_def ledger_rows_def read_jsonl_def parse_lines_ok
      split: option.splits node.splits)

lemma ledger_rows_append:
  "ledger_ok p fs \<Longrightarrow> ledger_rows p (ledger_append e umask p v fs) = ledger_rows p fs @ [v]"
  by (auto simp: ledger_ok_def ledger_append_def atomic_append_eq append_jsonl_unlocked_def
      add_line_def ledger_rows_reg split: option.splits node.splits)

interpretation ledger: append_log "ledger_ok p" "ledger_append e umask p" "ledger_rows p"
  for e umask p
  by unfold_locales (auto intro: ledger_append_ok simp: ledger_rows_append)

lemma ledger_append_other [simp]: "q \<noteq> p \<Longrightarrow> ledger_append e umask p v fs q = fs q"
  by (auto simp: ledger_append_def atomic_append_eq append_jsonl_unlocked_def
      split: option.splits node.splits)

section \<open>Facts about damage and about the audit\<close>

definition damaged :: "path \<Rightarrow> ledger_fs \<Rightarrow> bool" where
  "damaged p fs \<longleftrightarrow> (\<exists>m c. fs p = Some (Reg m c) \<and> Bad \<in> set (jlines c) \<and> (torn c \<longrightarrow> last (jlines c) = Bad))"

lemma damaged_unreadable: "damaged p fs \<Longrightarrow> \<exists>x. read_jsonl fs p = Inl (JSONDecodeError x)"
  by (auto simp: damaged_def read_jsonl_def intro: parse_lines_bad)

lemma damaged_append: "damaged p fs \<Longrightarrow> damaged p (ledger_append e umask p v fs)"
  by (auto simp: damaged_def ledger_append_def atomic_append_eq append_jsonl_unlocked_def add_line_def)

lemma damaged_fold: "damaged p fs \<Longrightarrow> damaged p (fold (ledger_append e umask p) vs fs)"
  by (induction vs arbitrary: fs) (auto simp: damaged_append)

lemma damaged_append_result:
  "damaged p fs \<Longrightarrow> snd (atomic_append_jsonl e umask WrOk pid tid p v fs) = Inr ()"
  by (auto simp: damaged_def atomic_append_eq append_jsonl_unlocked_def)

lemma partial_write_damages:
  "ledger_ok p fs \<Longrightarrow> damaged p (fst (atomic_append_jsonl e umask WrPartial pid tid p v fs))"
  by (auto simp: ledger_ok_def damaged_def atomic_append_eq append_jsonl_unlocked_def add_torn_def
      split: option.splits node.splits)

definition risky_at :: "'c fs \<Rightarrow> path \<Rightarrow> bool" where
  "risky_at fs p \<longleftrightarrow> (\<exists>m c. fs p = Some (Reg m c) \<and> m \<noteq> ledger_mode_target)"

lemma scan_risky:
  "sc_risky (fold (scan_one fs) ps s) = sc_risky s @ filter (risky_at fs) ps"
proof (induction ps arbitrary: s)
  case (Cons p ps)
  then show ?case by (auto simp: scan_one_def risky_at_def Let_def split: option.splits node.splits)
qed simp

lemma worse_trans: "worse a b \<Longrightarrow> worse b c \<Longrightarrow> worse a c"
  by (auto simp: worse_def)

lemma worse_total: "\<not> worse a b \<Longrightarrow> a = b \<or> worse b a"
  by (auto simp: worse_def)

lemma worse_irrefl [simp]: "\<not> worse a a"
  by (simp add: worse_def)

lemma worse_asym: "worse a b \<Longrightarrow> \<not> worse b a"
  by (auto simp: worse_def)

definition upd_worst :: "nat \<Rightarrow> nat option \<Rightarrow> nat option" where
  "upd_worst m b = (case b of None \<Rightarrow> Some m | Some w \<Rightarrow> if worse m w then Some m else Some w)"

definition mode_at :: "'c fs \<Rightarrow> path \<Rightarrow> nat" where
  "mode_at fs p = (case fs p of Some (Reg m _) \<Rightarrow> m | _ \<Rightarrow> 0)"

lemma scan_worst:
  "sc_worst (fold (scan_one fs) ps s) =
     fold upd_worst (map (mode_at fs) (filter (risky_at fs) ps)) (sc_worst s)"
proof (induction ps arbitrary: s)
  case (Cons p ps)
  then show ?case
    by (auto simp: scan_one_def risky_at_def mode_at_def upd_worst_def Let_def
        split: option.splits node.splits)
qed simp

lemma upd_worst_fold_Some:
  "\<exists>w. fold upd_worst ms (Some w0) = Some w \<and> w \<in> insert w0 (set ms) \<and>
       (\<forall>m \<in> insert w0 (set ms). \<not> worse m w)"
proof (induction ms arbitrary: w0)
  case (Cons m ms)
  show ?case
  proof (cases "worse m w0")
    case True
    then have step: "fold upd_worst (m # ms) (Some w0) = fold upd_worst ms (Some m)"
      by (simp add: upd_worst_def)
    obtain w where w: "fold upd_worst ms (Some m) = Some w" "w \<in> insert m (set ms)"
      "\<forall>x \<in> insert m (set ms). \<not> worse x w"
      using Cons [of m] by blast
    then have "\<not> worse w0 w" using True worse_trans worse_asym worse_total by (metis insertI1)
    with w show ?thesis unfolding step by auto
  next
    case False
    then have step: "fold upd_worst (m # ms) (Some w0) = fold upd_worst ms (Some w0)"
      by (simp add: upd_worst_def)
    obtain w where w: "fold upd_worst ms (Some w0) = Some w" "w \<in> insert w0 (set ms)"
      "\<forall>x \<in> insert w0 (set ms). \<not> worse x w"
      using Cons [of w0] by blast
    then have "\<not> worse m w" using False worse_trans worse_total by (metis insertI1)
    with w show ?thesis unfolding step by auto
  qed
qed simp

lemma upd_worst_fold:
  "(ms = [] \<and> fold upd_worst ms None = None) \<or>
   (\<exists>w. fold upd_worst ms None = Some w \<and> w \<in> set ms \<and> (\<forall>m \<in> set ms. \<not> worse m w))"
proof (cases ms)
  case (Cons m ms')
  then show ?thesis using upd_worst_fold_Some [of ms' m] by (simp add: upd_worst_def)
qed simp

section \<open>Properties\<close>

text \<open>A ledger keeps every acknowledged row: starting from a ledger in order, reading it after
  any sequence of appends returns exactly the rows it held followed by the appended ones in
  order, under every environment and umask.\<close>

theorem appends_are_kept:
  assumes "ledger_ok p fs"
  shows "read_jsonl (fold (ledger_append e umask p) vs fs) p = Inr (ledger_rows p fs @ vs)"
  using ledger_read_ok [OF ledger.ok_fold [OF assms]] ledger.rows_fold [OF assms] by metis

definition empty_fs :: ledger_fs where "empty_fs = Map.empty"

lemma empty_fs_ok [simp]: "ledger_ok p empty_fs" "ledger_rows p empty_fs = []"
  by (simp_all add: ledger_ok_def empty_fs_def)

theorem appends_are_kept_witness:
  "read_jsonl (fold (ledger_append no_env 18 ''/s/l.jsonl'') [VInt 1, VInt 2] empty_fs) ''/s/l.jsonl'' =
     Inr [VInt 1, VInt 2]"
  using appends_are_kept [of "''/s/l.jsonl''" empty_fs no_env 18 "[VInt 1, VInt 2]"] by simp

text \<open>Replacing a file is all or nothing: in every state a crash can leave behind, the target
  is either exactly as before or exactly the new document, no other file but the temporary one
  has changed, a failure leaves the file system as it was, and success removes the temporary file.\<close>

theorem atomic_write_all_or_nothing:
  assumes "tmp \<noteq> p" and "fs tmp = None"
    and "atomic_write ft nothing what p tmp part doc fs = (states, r)"
  shows "(\<forall>s \<in> set states. (s p = fs p \<or> s p = Some (Reg ledger_mode_target doc)) \<and>
            (\<forall>q. q \<noteq> p \<longrightarrow> q \<noteq> tmp \<longrightarrow> s q = fs q)) \<and>
    (case r of Inl _ \<Rightarrow> last states = fs
     | Inr _ \<Rightarrow> last states = fs(p \<mapsto> Reg ledger_mode_target doc) \<and> (\<forall>q. fs p \<noteq> Some (Link q)))"
proof (cases "reject_symlink_target fs p what")
  case (Inl x)
  with assms(3) have "states = [fs]" "r = Inl x" by (auto simp: atomic_write_def)
  then show ?thesis by simp
next
  case (Inr u)
  have gone: "fs(tmp := None) = fs" using assms(2) by auto
  have swap: "(fs(p \<mapsto> Reg ledger_mode_target doc))(tmp := None) = fs(p \<mapsto> Reg ledger_mode_target doc)"
    using assms(1,2) by auto
  have nolink: "\<forall>q. fs p \<noteq> Some (Link q)"
    using Inr by (auto simp: reject_symlink_target_def)
  from assms(3) [symmetric] Inr nolink assms(1) show ?thesis
    by (auto simp: atomic_write_def Let_def gone swap split: if_splits)
qed

theorem atomic_write_all_or_nothing_witness:
  "last (fst (atomic_write FaultWrite [] ''JSON output'' ''/s/a'' ''/s/.a.tmp'' [VNone] [VInt 1]
      [''/s/a'' \<mapsto> Reg 420 [VInt 0]])) = [''/s/a'' \<mapsto> Reg 420 [VInt 0]]"
proof -
  let ?r = "atomic_write FaultWrite [] ''JSON output'' ''/s/a'' ''/s/.a.tmp'' [VNone] [VInt 1]
      [''/s/a'' \<mapsto> Reg 420 [VInt 0]]"
  obtain sts where r: "?r = (sts, Inl (OSError ''write''))"
    by (simp add: atomic_write_def reject_symlink_target_def)
  have "last sts = [''/s/a'' \<mapsto> Reg 420 [VInt 0]]"
    using atomic_write_all_or_nothing [OF _ _ r] by simp
  then show ?thesis unfolding r by simp
qed

text \<open>No write goes through a symbolic link: when the destination is one, both the append and
  the atomic replacement fail and leave every file as it was.\<close>

theorem symlink_destination_refused:
  assumes "fs p = Some (Link q)"
  shows "atomic_append_jsonl e umask w pid tid p v fs =
      (fs, Inl (OSError (''refusing to append through symlink: '' @ p))) \<and>
    atomic_write ft nothing what p tmp part doc fs =
      ([fs], Inl (ValueError (''refusing symlink '' @ what @ '': '' @ p)))"
  using assms by (simp_all add: atomic_append_eq append_jsonl_unlocked_def atomic_write_def
      reject_symlink_target_def)

theorem symlink_destination_refused_witness:
  "atomic_append_jsonl no_env 18 WrOk 1 1 ''/s/l'' (VInt 1) [''/s/l'' \<mapsto> Link ''/etc/x''] =
     ([''/s/l'' \<mapsto> Link ''/etc/x''], Inl (OSError (''refusing to append through symlink: '' @ ''/s/l'')))"
  using symlink_destination_refused [of "[''/s/l'' \<mapsto> Link ''/etc/x'']" "''/s/l''" "''/etc/x''"] by simp

text \<open>A write that fails inside a row damages the ledger for good: the next append returns
  success although its row cannot be read, and from then on every read of the ledger raises,
  whatever is appended.\<close>

theorem torn_append_is_permanent:
  assumes "ledger_ok p fs" and "fs1 = fst (atomic_append_jsonl e umask WrPartial pid tid p v fs)"
  shows "snd (atomic_append_jsonl e umask WrOk pid tid p v' fs1) = Inr () \<and>
    (\<exists>x. read_jsonl (fold (ledger_append e umask p) vs fs1) p = Inl (JSONDecodeError x))"
proof -
  have "damaged p fs1" unfolding assms(2) by (rule partial_write_damages [OF assms(1)])
  then show ?thesis using damaged_append_result damaged_unreadable damaged_fold by blast
qed

theorem torn_append_is_permanent_witness:
  "\<exists>x. read_jsonl (fst (atomic_append_jsonl no_env 18 WrPartial 1 1 ''/s/l'' (VInt 1) empty_fs)) ''/s/l'' =
     Inl (JSONDecodeError x)"
  using torn_append_is_permanent [OF empty_fs_ok(1) refl, where vs = "[]"] by simp

text \<open>The permission audit counts exactly the matched regular files whose mode is not 0600 and
  reports as worst the mode with the most group and other bits (the largest among equals);
  it reports none exactly when there is no such file.\<close>

theorem audit_exact:
  assumes "ledger_mode_audit_enabled e"
  shows "risky_count (audit_ledger_modes e found fs) = length (filter (risky_at fs) found) \<and>
    (case worst_mode (audit_ledger_modes e found fs) of
       None \<Rightarrow> filter (risky_at fs) found = []
     | Some w \<Rightarrow> w \<in> mode_at fs ` set (filter (risky_at fs) found) \<and>
         (\<forall>m \<in> mode_at fs ` set (filter (risky_at fs) found). \<not> worse m w))"
  using assms upd_worst_fold [of "map (mode_at fs) (filter (risky_at fs) found)"]
  by (auto simp: audit_ledger_modes_def Let_def scan_risky scan_worst)

theorem audit_exact_witness:
  "worst_mode (audit_ledger_modes no_env [''a'', ''b'']
     [''a'' \<mapsto> Reg 420 (), ''b'' \<mapsto> Reg 384 ()]) \<noteq> None"
proof -
  have on: "ledger_mode_audit_enabled no_env"
    unfolding ledger_mode_audit_enabled_def getenv_no_env by code_simp
  have "filter (risky_at [''a'' \<mapsto> Reg 420 (), ''b'' \<mapsto> Reg 384 ()]) [''a'', ''b''] = [''a'']"
    by (simp add: risky_at_def ledger_mode_target_def)
  then show ?thesis
    using audit_exact [OF on, of "[''a'', ''b'']" "[''a'' \<mapsto> Reg 420 (), ''b'' \<mapsto> Reg 384 ()]"]
    by (auto split: option.splits)
qed

end
