(* ===== verification/JoinKeys.thy ===== *)
theory JoinKeys
  imports FailFast
begin

text \<open>
  The keys that join the rows of several ledgers (\<open>runtime/ledger_join.py\<close>): what a writer adds to
  a row, and which time and which cycle a reader finds in one. The context the keys fall back on
  (\<open>episode_ctx.current\<close>) and the ISO date parser are arguments.
\<close>

section \<open>Writing the keys\<close>

definition join_enabled :: "env \<Rightarrow> bool" where
  "join_enabled e \<longleftrightarrow>
     py_lower (py_strip (getenv e ''AGI_V8_LEDGER_JOIN_KEYS_ENABLED'' [])) \<in> {''true'', ''1''}"

type_synonym join_ctx = "(string option \<times> string option) result"

definition pick :: "string option \<Rightarrow> string option \<Rightarrow> string option" where
  "pick explicit fallback =
     (case explicit of Some (c # cs) \<Rightarrow> Some (c # cs)
      | _ \<Rightarrow> (case fallback of Some (c # cs) \<Rightarrow> Some (c # cs) | _ \<Rightarrow> None))"

definition join_keys :: "env \<Rightarrow> join_ctx \<Rightarrow> string option \<Rightarrow> string option \<Rightarrow> dict result" where
  "join_keys e ctx cycle_id call_id =
     (if \<not> join_enabled e then Inr []
      else bindR (case ctx of Inr c \<Rightarrow> Inr c | Inl x \<Rightarrow> absorb e x (None, None)) (\<lambda>(ccyc, ccall).
        Inr ((case pick cycle_id ccyc of Some c \<Rightarrow> [(''cycle_id'', VStr c)] | None \<Rightarrow> []) @
             (case pick call_id ccall of Some k \<Rightarrow> [(''call_id'', VStr k)] | None \<Rightarrow> []))))"

section \<open>Reading the cycle\<close>

text \<open>\<open>row_cycle\<close>: a non-blank string \<open>cycle_id\<close>, in the row or one mapping deeper.\<close>

fun id_text :: "pyv \<Rightarrow> string option" where
  "id_text (VStr s) = (if py_strip s \<noteq> [] then Some (py_strip s) else None)"
| "id_text _ = None"

fun nested_id :: "dict \<Rightarrow> string option" where
  "nested_id [] = None"
| "nested_id ((_, VDict d) # rest) =
     (case id_text (dict_get d ''cycle_id'') of Some c \<Rightarrow> Some c | None \<Rightarrow> nested_id rest)"
| "nested_id (_ # rest) = nested_id rest"

fun row_cycle :: "pyv \<Rightarrow> string option" where
  "row_cycle (VDict d) =
     (case id_text (dict_get d ''cycle_id'') of Some c \<Rightarrow> Some c | None \<Rightarrow> nested_id d)"
| "row_cycle _ = None"

section \<open>Reading the time\<close>

definition ts_aliases :: "string list" where
  "ts_aliases = [''ts'', ''timestamp_unix'', ''ts_utc'', ''registered_ts'', ''graded_ts'', ''ts_epoch'', ''timestamp'']"

definition iso_utc :: "string \<Rightarrow> string" where
  "iso_utc s = concat (map (\<lambda>c. if c = CHR ''Z'' then ''+00:00'' else [c]) s)"

definition numeral_like :: "string \<Rightarrow> bool" where
  "numeral_like s \<longleftrightarrow>
     (let t = takeWhile (\<lambda>c. c \<noteq> CHR ''.'') s @ drop 1 (dropWhile (\<lambda>c. c \<noteq> CHR ''.'') s)
      in t \<noteq> [] \<and> list_all (\<lambda>c. c \<in> set ''0123456789'' \<or> of_char c \<in> {0xB2, 0xB3, 0xB9 :: nat}) t)"

fun coerce_ts :: "env \<Rightarrow> (string \<Rightarrow> rat result) \<Rightarrow> pyv \<Rightarrow> rat option result" where
  "coerce_ts e fromiso (VInt i) = Inr (if 0 < i then Some (of_int i) else None)"
| "coerce_ts e fromiso (VFloat f) = Inr (if 0 < f then Some f else None)"
| "coerce_ts e fromiso (VStr v) =
     (let s = py_strip v in
      if s = [] then Inr None
      else (case (if numeral_like s
                  then (case parse_float s of Some f \<Rightarrow> Inr f
                        | None \<Rightarrow> Inl (ValueError ''could not convert string to float''))
                  else fromiso (iso_utc s)) of
              Inr t \<Rightarrow> Inr (Some t)
            | Inl x \<Rightarrow> absorb e x None))"
| "coerce_ts e fromiso _ = Inr None"

fun first_ts :: "env \<Rightarrow> (string \<Rightarrow> rat result) \<Rightarrow> dict \<Rightarrow> string list \<Rightarrow> rat option result" where
  "first_ts e fromiso d [] = Inr None"
| "first_ts e fromiso d (k # ks) =
     (case map_of d k of
        None \<Rightarrow> first_ts e fromiso d ks
      | Some v \<Rightarrow> bindR (coerce_ts e fromiso v) (\<lambda>t.
          case t of Some f \<Rightarrow> Inr (Some f) | None \<Rightarrow> first_ts e fromiso d ks))"

fun join_row_ts :: "env \<Rightarrow> (string \<Rightarrow> rat result) \<Rightarrow> pyv \<Rightarrow> rat option result" where
  "join_row_ts e fromiso (VDict d) = first_ts e fromiso d ts_aliases"
| "join_row_ts e fromiso _ = Inr None"

section \<open>Lemmas\<close>

definition steady_join :: "env \<Rightarrow> join_ctx \<Rightarrow> bool" where
  "steady_join e ctx \<longleftrightarrow> \<not> (strict_enabled e \<and> join_enabled e \<and> (\<exists>x. ctx = Inl x))"

lemma join_keys_ok:
  assumes "steady_join e ctx"
  shows "\<exists>ks. join_keys e ctx c k = Inr ks \<and> set (map fst ks) \<subseteq> {''cycle_id'', ''call_id''}"
  using assms
  by (auto simp: join_keys_def steady_join_def absorb_def split: sum.splits option.splits prod.splits)

lemma first_ts_cong:
  "\<forall>k \<in> set ks. map_of d k = map_of d' k \<Longrightarrow> first_ts e fromiso d ks = first_ts e fromiso d' ks"
  by (induction ks) (auto split: option.splits sum.splits simp: bindR_def)

lemma first_ts_total: "\<not> strict_enabled e \<Longrightarrow> \<exists>t. first_ts e fromiso d ks = Inr t"
proof (induction ks)
  case (Cons k ks)
  have "\<exists>t. coerce_ts e fromiso v = Inr t" for v
    using Cons.prems by (cases v) (auto simp: Let_def absorb_def split: sum.splits option.splits)
  then have "\<exists>t. bindR (coerce_ts e fromiso v) (\<lambda>t. case t of Some f \<Rightarrow> Inr (Some f)
      | None \<Rightarrow> first_ts e fromiso d ks) = Inr t" for v
    using Cons.IH [OF Cons.prems] by (metis bindR_simps(2) option.exhaust option.simps(4,5))
  then show ?case using Cons.IH [OF Cons.prems] by (cases "map_of d k") simp_all
qed simp

text \<open>The time of a row comes from the enumerated names only: any other field, such as the time a
prediction is due, may be added, removed or changed without moving the row; and, unless the strict
mode asks for the exception, a value that cannot be read never makes the reader fail.\<close>

theorem row_ts_reads_aliases_only:
  assumes "\<forall>k \<in> set ts_aliases. map_of d k = map_of d' k"
  shows "join_row_ts e fromiso (VDict d) = join_row_ts e fromiso (VDict d') \<and>
    (strict_enabled e \<or> (\<exists>t. join_row_ts e fromiso (VDict d) = Inr t))"
  using first_ts_cong [OF assms, of e fromiso] first_ts_total [of e fromiso d' ts_aliases] by auto

theorem row_ts_reads_aliases_only_witness:
  "join_row_ts no_env (\<lambda>_. Inr 0) (VDict [(''ts'', VInt 5)]) =
    join_row_ts no_env (\<lambda>_. Inr 0) (VDict [(''horizon_ts'', VInt 9), (''ts'', VInt 5)])"
  using row_ts_reads_aliases_only [of "[(''ts'', VInt 5)]" "[(''horizon_ts'', VInt 9), (''ts'', VInt 5)]" no_env "\<lambda>_. Inr 0"]
  by (simp add: ts_aliases_def)

text \<open>A time written as the text \<open>0\<close> is read as 1970, where the number 0 is read as no time.\<close>

lemma zero_text_is_1970:
  "join_row_ts no_env fromiso (VDict [(''ts'', VStr ''0'')]) = Inr (Some 0)"
  "join_row_ts no_env fromiso (VDict [(''ts'', VInt 0)]) = Inr None"
proof -
  have "holds (join_row_ts no_env fromiso (VDict [(''ts'', VStr ''0'')])) (\<lambda>t. t = Some 0)" by code_simp
  then show "join_row_ts no_env fromiso (VDict [(''ts'', VStr ''0'')]) = Inr (Some 0)" by (auto elim: holdsE)
  show "join_row_ts no_env fromiso (VDict [(''ts'', VInt 0)]) = Inr None" by code_simp
qed

end
