(* ===== verification/ContinuationRing.thy ===== *)
theory ContinuationRing
  imports Store JoinKeys
begin

text \<open>
  The continuation ring (\<open>core/continuation_ring.py\<close>) with its JSONL sidecar, and the
  escalation policy read off it (\<open>core/cycle_policy_v81.py\<close>). The sidecar is a ledger of theory
  \<open>Store\<close>; its rows carry the join keys of theory \<open>JoinKeys\<close>.
\<close>

section \<open>The ring\<close>

definition default_max_size :: int where "default_max_size = 60"

definition ring_enabled :: "env \<Rightarrow> bool" where
  "ring_enabled e \<longleftrightarrow> gate_strict e ''AGI_V8_CONTINUATION_RING_ENABLED''"

record ring_entry =
  re_cycle :: int
  re_status :: string
  re_decision :: string
  re_timestamp :: rat

record ring =
  run_id :: string
  session_id :: string
  pod :: string
  max_size :: int
  state_dir :: path
  persist :: bool
  ring_entries :: "ring_entry list"

definition sidecar_path :: "ring \<Rightarrow> path" where
  "sidecar_path r = state_dir r @ ''/'' @ run_id r @ ''.jsonl''"

definition schema_version :: string where "schema_version = ''agi_v8_continuation_ring_v1''"

definition sidecar_record :: "ring \<Rightarrow> ring_entry \<Rightarrow> dict" where
  "sidecar_record r x =
     [(''schema_version'', VStr schema_version), (''run_id'', VStr (run_id r)),
      (''session_id'', VStr (session_id r)), (''pod'', VStr (pod r)),
      (''cycle'', VInt (re_cycle x)), (''status'', VStr (re_status x)),
      (''decision'', VStr (re_decision x)), (''timestamp'', VFloat (re_timestamp x))]"

definition dict_update :: "dict \<Rightarrow> dict \<Rightarrow> dict" where
  "dict_update d d' = fold (\<lambda>(k, v) acc. dict_set acc k v) d' d"

definition write_sidecar ::
  "env \<Rightarrow> nat \<Rightarrow> wr \<Rightarrow> join_ctx \<Rightarrow> ring \<Rightarrow> ring_entry \<Rightarrow> ledger_fs \<Rightarrow> ledger_fs \<times> unit result" where
  "write_sidecar e umask w ctx r x fs =
     (let rec = sidecar_record r x
      in case (case join_keys e ctx None None of
                 Inr ks \<Rightarrow> Inr (dict_update rec ks)
               | Inl y \<Rightarrow> absorb e y rec) of
           Inl y \<Rightarrow> (fs, Inl y)
         | Inr full \<Rightarrow> atomic_append_jsonl e umask w 0 0 (sidecar_path r) (VDict full) fs)"

text \<open>\<open>append\<close>: nothing with the gate off; otherwise record, trim, then persist.\<close>

definition ring_append ::
  "env \<Rightarrow> nat \<Rightarrow> wr \<Rightarrow> join_ctx \<Rightarrow> rat \<Rightarrow> int \<Rightarrow> string \<Rightarrow> string \<Rightarrow> ring \<times> ledger_fs
    \<Rightarrow> (ring \<times> ledger_fs) \<times> unit result" where
  "ring_append e umask w ctx now cycle status decision rf =
     (if \<not> ring_enabled e then (rf, Inr ())
      else
        (let (r, fs) = rf;
             x = \<lparr>re_cycle = cycle, re_status = status, re_decision = decision, re_timestamp = now\<rparr>;
             es = ring_entries r @ [x];
             r1 = r\<lparr>ring_entries := (if int (length es) > max_size r then neg_slice (max_size r) es
                                    else es)\<rparr>
         in if persist r1
            then (let (fs', res) = write_sidecar e umask w ctx r1 x fs in ((r1, fs'), res))
            else ((r1, fs), Inr ())))"

definition ring_tail :: "env \<Rightarrow> int \<Rightarrow> ring \<Rightarrow> ring_entry list" where
  "ring_tail e n r =
     (if \<not> ring_enabled e then []
      else if max 0 n = 0 then [] else neg_slice (max 0 n) (ring_entries r))"

definition ring_to_list :: "env \<Rightarrow> ring \<Rightarrow> dict list" where
  "ring_to_list e r =
     (if \<not> ring_enabled e then []
      else map (\<lambda>x. [(''cycle'', VInt (re_cycle x)), (''status'', VStr (re_status x)),
              (''decision'', VStr (re_decision x)), (''timestamp'', VFloat (re_timestamp x)),
              (''run_id'', VStr (run_id r)), (''session_id'', VStr (session_id r)),
              (''pod'', VStr (pod r))]) (ring_entries r))"

fun count_while :: "('a \<Rightarrow> bool) \<Rightarrow> 'a list \<Rightarrow> nat" where
  "count_while p [] = 0"
| "count_while p (x # xs) = (if p x then Suc (count_while p xs) else 0)"

definition continuation_cycle_count :: "env \<Rightarrow> ring \<Rightarrow> nat" where
  "continuation_cycle_count e r =
     (if \<not> ring_enabled e then 0
      else count_while (\<lambda>x. re_status x = ''continuation_pending'') (rev (ring_entries r)))"

definition escalated_count :: "env \<Rightarrow> ring \<Rightarrow> nat" where
  "escalated_count e r =
     (if \<not> ring_enabled e then 0
      else length (filter (\<lambda>x. re_status x = ''escalated'') (ring_entries r)))"

definition trailing_escalated_count :: "env \<Rightarrow> ring \<Rightarrow> nat" where
  "trailing_escalated_count e r =
     (if \<not> ring_enabled e then 0
      else count_while (\<lambda>x. re_status x = ''escalated'') (rev (ring_entries r)))"

section \<open>Loading a ring from its sidecar\<close>

definition row_matches :: "ring \<Rightarrow> pyv \<Rightarrow> bool result" where
  "row_matches r row =
     (case row of
        VDict d \<Rightarrow> Inr (dict_get d ''run_id'' = VStr (run_id r) \<and>
                      dict_get d ''session_id'' = VStr (session_id r) \<and>
                      dict_get d ''pod'' = VStr (pod r))
      | _ \<Rightarrow> Inl (AttributeError ''get''))"

fun matching_rows :: "ring \<Rightarrow> pyv list \<Rightarrow> pyv list result" where
  "matching_rows r [] = Inr []"
| "matching_rows r (row # rows) =
     bindR (row_matches r row) (\<lambda>m.
     bindR (matching_rows r rows) (\<lambda>ms. Inr (if m then row # ms else ms)))"

definition entry_of :: "(rat \<Rightarrow> string) \<Rightarrow> dict \<Rightarrow> ring_entry result" where
  "entry_of fr d =
     bindR (py_int (get_or d ''cycle'' (VInt 0))) (\<lambda>c.
     bindR (py_float (get_or d ''timestamp'' (VFloat 0))) (\<lambda>t.
       Inr \<lparr>re_cycle = c, re_status = py_str fr (get_or d ''status'' (VStr [])),
            re_decision = py_str fr (get_or d ''decision'' (VStr [])), re_timestamp = t\<rparr>))"

fun entries_of :: "(rat \<Rightarrow> string) \<Rightarrow> pyv list \<Rightarrow> ring_entry list result" where
  "entries_of fr [] = Inr []"
| "entries_of fr (VDict d # rows) =
     bindR (entry_of fr d) (\<lambda>x. bindR (entries_of fr rows) (\<lambda>xs. Inr (x # xs)))"
| "entries_of fr (_ # rows) = Inl (AttributeError ''get'')"

definition load_from_sidecar ::
  "(rat \<Rightarrow> string) \<Rightarrow> env \<Rightarrow> string \<Rightarrow> string \<Rightarrow> string \<Rightarrow> path \<Rightarrow> int \<Rightarrow> ledger_fs \<Rightarrow> ring result" where
  "load_from_sidecar fr e rid sid pd dir m fs =
     (let r = \<lparr>run_id = rid, session_id = sid, pod = pd, max_size = m, state_dir = dir,
               persist = False, ring_entries = []\<rparr>
      in if \<not> ring_enabled e then Inr r
         else bindR (read_jsonl fs (sidecar_path r)) (\<lambda>rows.
              bindR (matching_rows r rows) (\<lambda>ms.
              bindR (entries_of fr (neg_slice m ms)) (\<lambda>es.
                Inr (r\<lparr>ring_entries := es, persist := True\<rparr>)))))"

section \<open>The escalation policy\<close>

text \<open>\<open>e\<close> is the process environment, \<open>pe\<close> the mapping the policy is given.\<close>

definition policy_enabled :: "env \<Rightarrow> bool" where
  "policy_enabled pe \<longleftrightarrow>
     py_lower (py_strip (getenv pe ''AGI_V81_CYCLE_POLICY_ENABLED'' [])) \<notin>
       {''0'', ''false'', ''no'', ''off'', ''never'', ''disabled''}"

definition head_auto_reset_enabled :: "env \<Rightarrow> bool" where
  "head_auto_reset_enabled pe \<longleftrightarrow>
     py_lower (py_strip (getenv pe ''AGI_V81_HEAD_AUTO_RESET_ENABLED'' [])) \<noteq> ''false''"

definition safe_int :: "env \<Rightarrow> string \<Rightarrow> int \<Rightarrow> int result" where
  "safe_int e v d =
     (if py_strip v = [] then Inr d
      else case parse_int (py_strip v) of
             Some i \<Rightarrow> Inr i
           | None \<Rightarrow> absorb e (ValueError ''invalid literal for int() with base 10'') d)"

definition cycle_ids :: "(rat \<Rightarrow> string) \<Rightarrow> pyv list \<Rightarrow> string list" where
  "cycle_ids fr evs =
     filter (\<lambda>c. c \<noteq> [])
       (map (\<lambda>ev. case ev of VDict d \<Rightarrow> py_str fr (get_or d ''cycle_id'' (VStr [])) | _ \<Rightarrow> []) evs)"

fun prev_cycle_count :: "(rat \<Rightarrow> string) \<Rightarrow> env \<Rightarrow> pyv \<Rightarrow> int result" where
  "prev_cycle_count fr e VNone = Inr 0"
| "prev_cycle_count fr e (VInt i) = Inr (max 0 i)"
| "prev_cycle_count fr e (VBool b) = Inr (if b then 1 else 0)"
| "prev_cycle_count fr e (VDict d) = Inr 0"
| "prev_cycle_count fr e (VStr s) = Inr 0"
| "prev_cycle_count fr e (VList evs) = Inr (int (length (remdups (cycle_ids fr evs))))"
| "prev_cycle_count fr e (VFloat r) = absorb e (TypeError ''float object is not iterable'') 0"

record cycle_policy =
  cycle_n :: int
  escalate_streak :: nat
  force_replan :: bool
  head_auto_reset :: bool
  emergency_regression_threshold :: int
  self_improvement_max_proposals :: int
  p_enabled :: bool

definition force_replan_threshold :: nat where "force_replan_threshold = 3"

definition env_or :: "env \<Rightarrow> string \<Rightarrow> string \<Rightarrow> string" where
  "env_or pe k k' = (if getenv pe k [] \<noteq> [] then getenv pe k [] else getenv pe k' [])"

definition build_cycle_policy ::
  "(rat \<Rightarrow> string) \<Rightarrow> env \<Rightarrow> env \<Rightarrow> ring option \<Rightarrow> pyv \<Rightarrow> cycle_policy result" where
  "build_cycle_policy fr e pe rg prev_log =
     bindR (prev_cycle_count fr e prev_log) (\<lambda>prev.
     bindR (safe_int e (env_or pe ''EMERGENCY_REGRESSION_THRESHOLD''
              ''CRITIC_EMERGENCY_REGRESSION_THRESHOLD'') 3) (\<lambda>emergency.
     bindR (safe_int e (getenv pe ''SELF_IMPROVEMENT_MAX_PROPOSALS'' []) 10) (\<lambda>proposals.
       if \<not> policy_enabled pe
       then Inr \<lparr>cycle_n = max 1 (prev + 1), escalate_streak = 0, force_replan = False,
                 head_auto_reset = False, emergency_regression_threshold = emergency,
                 self_improvement_max_proposals = proposals, p_enabled = False\<rparr>
       else
         (let streak = (case rg of None \<Rightarrow> 0 | Some r \<Rightarrow> trailing_escalated_count e r);
              fp = streak \<ge> force_replan_threshold
          in Inr \<lparr>cycle_n = max 1 (prev + 1), escalate_streak = streak, force_replan = fp,
                  head_auto_reset = (fp \<and> head_auto_reset_enabled pe),
                  emergency_regression_threshold = emergency,
                  self_improvement_max_proposals = proposals, p_enabled = True\<rparr>))))"

text \<open>
  \<open>auto_reset_head_state\<close>: the backup is written first. A document is \<^const>\<open>None\<close> when its
  text is no JSON. \<open>ts\<close> is the second-resolution stamp, \<open>dir\<close> the parent directory.
\<close>

definition reset_state :: "pyv \<Rightarrow> pyv" where
  "reset_state sid = VDict [(''session_id'', sid), (''status'', VStr ''planning''),
     (''current_stage'', VStr ''strategist_replan''), (''open_tasks'', VList []),
     (''completed_tasks'', VList []), (''blocked_tasks'', VList []),
     (''notes'', VList [VStr ''auto_head_reset after 3+ escalations''])]"

definition backup_path :: "path \<Rightarrow> string \<Rightarrow> path" where
  "backup_path dir ts = dir @ ''/current_state_auto.backup_'' @ ts @ ''.json''"

definition auto_reset_head_state ::
  "env \<Rightarrow> path \<Rightarrow> string \<Rightarrow> path \<Rightarrow> pyv option fs \<Rightarrow> pyv option fs \<times> bool result" where
  "auto_reset_head_state e dir ts p fs =
     (case fs p of
        Some (Reg m c) \<Rightarrow>
          (let fs1 = fs(backup_path dir ts \<mapsto> Reg m c);
               sid = (case c of
                        None \<Rightarrow> absorb e (JSONDecodeError ''Expecting value'') (VStr [])
                      | Some (VDict d) \<Rightarrow> Inr (get_or d ''session_id'' (VStr []))
                      | Some _ \<Rightarrow> absorb e (AttributeError ''get'') (VStr []))
           in case sid of
                Inl x \<Rightarrow> (fs1, Inl x)
              | Inr s \<Rightarrow> (fs1(p \<mapsto> Reg m (Some (reset_state s))), Inr True))
      | _ \<Rightarrow> (fs, Inr False))"

section \<open>Facts about the ring\<close>

lemma count_while_takeWhile: "count_while p xs = length (takeWhile p xs)"
  by (induction xs) simp_all

lemma ring_append_on:
  "ring_enabled e \<Longrightarrow>
     fst (fst (ring_append e umask w ctx now c st d (r, fs))) =
       r\<lparr>ring_entries := (let es = ring_entries r @ [\<lparr>re_cycle = c, re_status = st, re_decision = d,
                              re_timestamp = now\<rparr>]
                         in if int (length es) > max_size r then neg_slice (max_size r) es else es)\<rparr>"
  by (simp add: ring_append_def Let_def split: prod.splits)

lemma ring_trim:
  assumes "0 < m" "int (length xs) \<le> m"
  shows "(if int (length (xs @ [x])) > m then neg_slice m (xs @ [x]) else xs @ [x]) =
     neg_slice m (xs @ [x])"
  using assms by (auto intro!: neg_slice_all [symmetric])

lemma map_of_dict_update:
  "k \<notin> set (map fst ks) \<Longrightarrow> map_of (dict_update d ks) k = map_of d k"
  unfolding dict_update_def by (induction ks arbitrary: d) auto

text \<open>What the sidecar row of an entry reads back as, whatever join keys it carries.\<close>

lemma sidecar_row_reads_back:
  assumes "set (map fst ks) \<subseteq> {''cycle_id'', ''call_id''}"
  shows "row_matches r (VDict (dict_update (sidecar_record r x) ks)) = Inr True"
    and "entry_of fr (dict_update (sidecar_record r x) ks) = Inr x"
proof -
  have same: "map_of (dict_update (sidecar_record r x) ks) k = map_of (sidecar_record r x) k"
    if "k \<noteq> ''cycle_id''" "k \<noteq> ''call_id''" for k
    using assms that by (intro map_of_dict_update) auto
  show "row_matches r (VDict (dict_update (sidecar_record r x) ks)) = Inr True"
    by (simp add: row_matches_def dict_get_def same) (simp add: sidecar_record_def)
  show "entry_of fr (dict_update (sidecar_record r x) ks) = Inr x"
    by (simp add: entry_of_def get_or_def same) (simp add: sidecar_record_def)
qed

lemma matching_rows_snoc:
  "matching_rows r rows = Inr ms \<Longrightarrow> row_matches r row = Inr True \<Longrightarrow>
     matching_rows r (rows @ [row]) = Inr (ms @ [row])"
  by (induction rows arbitrary: ms) (auto simp: bindR_def split: sum.splits if_splits)

text \<open>The sidecar holds the ring: its matching rows read back as a list that ends in the ring.\<close>

definition all_dicts :: "pyv list \<Rightarrow> bool" where
  "all_dicts vs \<longleftrightarrow> list_all is_dict vs"

definition synced :: "(rat \<Rightarrow> string) \<Rightarrow> ring \<Rightarrow> ledger_fs \<Rightarrow> bool" where
  "synced fr r fs \<longleftrightarrow>
     ledger_ok (sidecar_path r) fs \<and> 0 < max_size r \<and> persist r \<and>
     (\<exists>ms xs. matching_rows r (ledger_rows (sidecar_path r) fs) = Inr ms \<and>
              entries_of fr ms = Inr xs \<and> ring_entries r = neg_slice (max_size r) xs)"

lemma entries_of_snoc:
  "entries_of fr ms = Inr xs \<Longrightarrow> entry_of fr d = Inr x \<Longrightarrow> entries_of fr (ms @ [VDict d]) = Inr (xs @ [x])"
  by (induction fr ms arbitrary: xs rule: entries_of.induct) auto

lemma entries_of_drop:
  "entries_of fr ms = Inr xs \<Longrightarrow> entries_of fr (drop n ms) = Inr (drop n xs)"
proof (induction fr ms arbitrary: xs n rule: entries_of.induct)
  case (2 fr d rows)
  then show ?case by (cases n) auto
qed auto

lemma entries_of_length: "entries_of fr ms = Inr xs \<Longrightarrow> length xs = length ms"
  by (induction fr ms arbitrary: xs rule: entries_of.induct) auto

lemma entries_of_neg_slice:
  "entries_of fr ms = Inr xs \<Longrightarrow> entries_of fr (neg_slice m ms) = Inr (neg_slice m xs)"
  by (simp add: neg_slice_def entries_of_drop entries_of_length)

lemma matching_rows_cong:
  "run_id r' = run_id r \<Longrightarrow> session_id r' = session_id r \<Longrightarrow> pod r' = pod r \<Longrightarrow>
     matching_rows r' rows = matching_rows r rows"
proof (induction rows)
  case (Cons row rows)
  then have "row_matches r' row = row_matches r row" by (simp add: row_matches_def split: pyv.split)
  then show ?case using Cons by simp
qed simp

lemma sidecar_path_entries [simp]: "sidecar_path (r\<lparr>ring_entries := es\<rparr>) = sidecar_path r"
  by (simp add: sidecar_path_def)

lemma matching_rows_entries [simp]:
  "matching_rows (r\<lparr>ring_entries := es\<rparr>) rows = matching_rows r rows"
  by (rule matching_rows_cong) simp_all

lemma ring_append_persisted:
  assumes on: "ring_enabled e" and sync: "synced fr r fs" and join: "steady_join e ctx"
  shows "\<exists>ks. set (map fst ks) \<subseteq> {''cycle_id'', ''call_id''} \<and>
    ring_append e umask WrOk ctx now c st d (r, fs) =
      (let x = \<lparr>re_cycle = c, re_status = st, re_decision = d, re_timestamp = now\<rparr>;
           r1 = r\<lparr>ring_entries := neg_slice (max_size r) (ring_entries r @ [x])\<rparr>
       in ((r1, ledger_append e umask (sidecar_path r)
              (VDict (dict_update (sidecar_record r x) ks)) fs), Inr ()))"
proof -
  let ?x = "\<lparr>re_cycle = c, re_status = st, re_decision = d, re_timestamp = now\<rparr>"
  from join obtain ks where ks: "join_keys e ctx None None = Inr ks"
    "set (map fst ks) \<subseteq> {''cycle_id'', ''call_id''}"
    using join_keys_ok by blast
  from sync have ok: "ledger_ok (sidecar_path r) fs" and pos: "0 < max_size r" and per: "persist r"
    and len: "int (length (ring_entries r)) \<le> max_size r"
    by (auto simp: synced_def length_neg_slice)
  have path: "sidecar_path (r\<lparr>ring_entries := es\<rparr>) = sidecar_path r"
    "sidecar_record (r\<lparr>ring_entries := es\<rparr>) = sidecar_record r" for es
    by (simp_all add: sidecar_path_def sidecar_record_def fun_eq_iff)
  have written: "atomic_append_jsonl e umask WrOk 0 0 (sidecar_path r) v fs =
      (ledger_append e umask (sidecar_path r) v fs, Inr ())" for v
    using append_result_ok [OF ok] by (simp add: ledger_append_def prod_eq_iff)
  show ?thesis
    using on per ks ring_trim [OF pos len, of ?x]
    by (intro exI [of _ ks])
      (simp add: ring_append_def Let_def write_sidecar_def path written split del: if_split)
qed

lemma synced_step:
  assumes "ring_enabled e" "synced fr r fs" "steady_join e ctx"
  shows "case ring_append e umask WrOk ctx now c st d (r, fs) of
    ((r', fs'), res) \<Rightarrow> synced fr r' fs' \<and> res = Inr () \<and>
      r' = r\<lparr>ring_entries := neg_slice (max_size r) (ring_entries r @
        [\<lparr>re_cycle = c, re_status = st, re_decision = d, re_timestamp = now\<rparr>])\<rparr>"
proof -
  let ?x = "\<lparr>re_cycle = c, re_status = st, re_decision = d, re_timestamp = now\<rparr>"
  let ?p = "sidecar_path r"
  obtain ks where ks: "set (map fst ks) \<subseteq> {''cycle_id'', ''call_id''}"
    and run: "ring_append e umask WrOk ctx now c st d (r, fs) =
      ((r\<lparr>ring_entries := neg_slice (max_size r) (ring_entries r @ [?x])\<rparr>,
        ledger_append e umask ?p (VDict (dict_update (sidecar_record r ?x) ks)) fs), Inr ())"
    using ring_append_persisted [OF assms(1,2,3), where umask = umask and now = now and c = c and st = st and d = d] by (auto simp: Let_def)
  from assms(2) obtain ms xs where sync: "ledger_ok ?p fs" "0 < max_size r" "persist r"
    "matching_rows r (ledger_rows ?p fs) = Inr ms" "entries_of fr ms = Inr xs"
    "ring_entries r = neg_slice (max_size r) xs"
    by (auto simp: synced_def)
  let ?row = "VDict (dict_update (sidecar_record r ?x) ks)"
  let ?r1 = "r\<lparr>ring_entries := neg_slice (max_size r) (ring_entries r @ [?x])\<rparr>"
  have "matching_rows ?r1 (ledger_rows ?p (ledger_append e umask ?p ?row fs)) = Inr (ms @ [?row])"
    using matching_rows_snoc [OF sync(4) sidecar_row_reads_back(1) [OF ks]]
    by (simp add: ledger.rows_append [OF sync(1)])
  moreover have "entries_of fr (ms @ [?row]) = Inr (xs @ [?x])"
    using entries_of_snoc [OF sync(5) sidecar_row_reads_back(2) [OF ks]] .
  ultimately have "synced fr ?r1 (ledger_append e umask ?p ?row fs)"
    using sync ledger.ok_append [OF sync(1)] neg_slice_snoc [OF sync(2), of xs ?x]
    by (auto simp: synced_def)
  then show ?thesis by (simp add: run)
qed

lemma synced_load:
  assumes "ring_enabled e" "synced fr r fs"
  shows "load_from_sidecar fr e (run_id r) (session_id r) (pod r) (state_dir r) (max_size r) fs = Inr r"
proof -
  let ?r0 = "\<lparr>run_id = run_id r, session_id = session_id r, pod = pod r, max_size = max_size r,
    state_dir = state_dir r, persist = False, ring_entries = []\<rparr>"
  from assms(2) obtain ms xs where sync: "ledger_ok (sidecar_path r) fs" "persist r"
    "matching_rows r (ledger_rows (sidecar_path r) fs) = Inr ms" "entries_of fr ms = Inr xs"
    "ring_entries r = neg_slice (max_size r) xs"
    by (auto simp: synced_def)
  have path: "sidecar_path ?r0 = sidecar_path r" by (simp add: sidecar_path_def)
  have "matching_rows ?r0 rows = matching_rows r rows" for rows by (rule matching_rows_cong) simp_all
  then show ?thesis
    using assms(1) sync entries_of_neg_slice [OF sync(4), of "max_size r"]
    by (simp add: load_from_sidecar_def Let_def path ledger_read_ok)
qed

text \<open>A run of appends: cycle number, status, decision and clock of each.\<close>

type_synonym ring_event = "int \<times> string \<times> string \<times> rat"

definition event_entry :: "ring_event \<Rightarrow> ring_entry" where
  "event_entry ev = (case ev of (c, st, d, now) \<Rightarrow>
     \<lparr>re_cycle = c, re_status = st, re_decision = d, re_timestamp = now\<rparr>)"

fun ring_run ::
  "env \<Rightarrow> nat \<Rightarrow> join_ctx \<Rightarrow> ring_event list \<Rightarrow> ring \<times> ledger_fs \<Rightarrow> ring \<times> ledger_fs" where
  "ring_run e umask ctx [] rf = rf"
| "ring_run e umask ctx ((c, st, d, now) # evs) rf =
     ring_run e umask ctx evs (fst (ring_append e umask WrOk ctx now c st d rf))"

lemma ring_run_synced:
  assumes "ring_enabled e" "steady_join e ctx" "synced fr r fs"
  shows "case ring_run e umask ctx evs (r, fs) of (r', fs') \<Rightarrow> synced fr r' fs' \<and>
    r' = r\<lparr>ring_entries := neg_slice (max_size r) (ring_entries r @ map event_entry evs)\<rparr>"
  using assms(3)
proof (induction evs arbitrary: r fs)
  case Nil
  then have "neg_slice (max_size r) (ring_entries r) = ring_entries r"
    by (auto simp: synced_def length_neg_slice intro!: neg_slice_all)
  then show ?case using Nil by simp
next
  case (Cons ev evs)
  obtain c st d now where ev: "ev = (c, st, d, now)" by (cases ev)
  obtain r1 fs1 res where step: "ring_append e umask WrOk ctx now c st d (r, fs) = ((r1, fs1), res)"
    by (metis prod.collapse)
  have one: "synced fr r1 fs1"
    "r1 = r\<lparr>ring_entries := neg_slice (max_size r) (ring_entries r @ [event_entry ev])\<rparr>"
    using synced_step [OF assms(1) Cons.prems assms(2), where umask = umask and now = now
        and c = c and st = st and d = d]
    unfolding step ev event_entry_def prod.case by blast+
  have pos: "0 < max_size r" using Cons.prems by (simp add: synced_def)
  have shift: "neg_slice (max_size r) (neg_slice (max_size r) xs @ ys) = neg_slice (max_size r) (xs @ ys)"
    for xs ys :: "ring_entry list"
    using pos by (cases "length xs < nat (max_size r)") (auto simp: neg_slice_def add.commute)
  from Cons.IH [OF one(1)] show ?case
    by (simp add: ev step) (simp add: one(2) shift ev)
qed

definition fresh_ring :: "string \<Rightarrow> string \<Rightarrow> string \<Rightarrow> path \<Rightarrow> int \<Rightarrow> ring" where
  "fresh_ring rid sid pd dir m =
     \<lparr>run_id = rid, session_id = sid, pod = pd, max_size = m, state_dir = dir, persist = True,
      ring_entries = []\<rparr>"

lemma fresh_synced: "0 < m \<Longrightarrow> synced fr (fresh_ring rid sid pd dir m) empty_fs"
  by (auto simp: synced_def fresh_ring_def neg_slice_def)

lemma count_while_last:
  "n \<le> count_while p (rev xs) \<longleftrightarrow> n \<le> length xs \<and> (\<forall>x \<in> set (drop (length xs - n) xs). p x)"
proof (induction xs arbitrary: n rule: rev_induct)
  case (snoc x xs)
  show ?case
  proof (cases n)
    case (Suc k)
    have "set (drop (length xs - k) (xs @ [x])) = insert x (set (drop (length xs - k) xs))"
      by simp
    with Suc snoc [of k] show ?thesis by auto
  qed simp
qed simp

section \<open>Properties\<close>

text \<open>A persisted ring survives a restart: after any run of appends with the gate on, the
  in-memory ring holds the last \<open>max_size\<close> entries of everything recorded, in order, and loading
  the sidecar for the same run, session and pod returns exactly that ring.\<close>

theorem ring_survives_restart:
  assumes "ring_enabled e" and "steady_join e ctx" and "synced fr r fs"
    and "ring_run e umask ctx evs (r, fs) = (r', fs')"
  shows "ring_entries r' = neg_slice (max_size r) (ring_entries r @ map event_entry evs) \<and>
    length (ring_entries r') \<le> nat (max_size r) \<and>
    load_from_sidecar fr e (run_id r) (session_id r) (pod r) (state_dir r) (max_size r) fs' = Inr r'"
proof -
  have run: "synced fr r' fs'"
    "r' = r\<lparr>ring_entries := neg_slice (max_size r) (ring_entries r @ map event_entry evs)\<rparr>"
    using ring_run_synced [OF assms(1,2,3), where umask = umask and evs = evs]
    unfolding assms(4) prod.case by blast+
  have "0 < max_size r" using assms(3) by (simp add: synced_def)
  then show ?thesis
    using synced_load [OF assms(1) run(1)] by (simp add: run(2) length_neg_slice)
qed

definition ring_on :: env where
  "ring_on = no_env(''AGI_V8_CONTINUATION_RING_ENABLED'' \<mapsto> ''true'')"

lemma ring_on_enabled [gate_simps]: "ring_enabled ring_on" "steady_join ring_on ctx"
  by (simp_all add: ring_enabled_def gate_strict_def ring_on_def steady_join_def strict_enabled_def
      strict_env_def)

definition three_events :: "ring_event list" where
  "three_events = [(1, ''accepted'', ''stop'', 1), (2, ''escalated'', ''esc'', 2), (3, ''escalated'', ''esc'', 3)]"

theorem ring_survives_restart_witness:
  "map re_cycle (ring_entries (fst (ring_run ring_on 18 (Inr (None, None)) three_events
      (fresh_ring ''r'' ''s'' ''p'' ''/d'' 2, empty_fs)))) = [2, 3]"
proof -
  obtain r' fs' where run: "ring_run ring_on 18 (Inr (None, None)) three_events
      (fresh_ring ''r'' ''s'' ''p'' ''/d'' 2, empty_fs) = (r', fs')"
    by (metis prod.collapse)
  have "map re_cycle (ring_entries r') = [2, 3]"
    using ring_survives_restart [OF ring_on_enabled fresh_synced run, of "\<lambda>_. []"]
    by (simp add: fresh_ring_def three_events_def event_entry_def neg_slice_def)
  then show ?thesis by (simp only: run fst_conv)
qed

text \<open>With its gate on, the escalation policy forces a replan exactly when the ring's own gate
  is on and the last three recorded statuses are all escalated, and it asks for the head reset
  exactly when it forces a replan and the reset is not opted out; with the gate off it never
  does either.\<close>

theorem policy_forces_replan_iff:
  assumes "build_cycle_policy fr e pe (Some r) prev_log = Inr p"
  shows "(force_replan p \<longleftrightarrow> policy_enabled pe \<and> ring_enabled e \<and> 3 \<le> length (ring_entries r) \<and>
      (\<forall>x \<in> set (drop (length (ring_entries r) - 3) (ring_entries r)). re_status x = ''escalated'')) \<and>
    (head_auto_reset p \<longleftrightarrow> force_replan p \<and> head_auto_reset_enabled pe) \<and> 1 \<le> cycle_n p"
  using assms count_while_last [of 3 "\<lambda>x. re_status x = ''escalated''" "ring_entries r"]
  by (auto simp: build_cycle_policy_def trailing_escalated_count_def force_replan_threshold_def Let_def
      split: if_splits)

definition stuck_ring :: ring where
  "stuck_ring = (fresh_ring ''r'' ''s'' ''p'' ''/d'' 60)\<lparr>ring_entries :=
     map event_entry [(1, ''escalated'', [], 1), (2, ''escalated'', [], 2), (3, ''escalated'', [], 3)]\<rparr>"

theorem policy_forces_replan_iff_witness:
  "\<exists>p. build_cycle_policy (\<lambda>_. []) ring_on ring_on (Some stuck_ring) VNone = Inr p \<and> force_replan p"
proof -
  have "policy_enabled ring_on"
    unfolding policy_enabled_def ring_on_def by simp
  moreover have "\<exists>p. build_cycle_policy (\<lambda>_. []) ring_on ring_on (Some stuck_ring) VNone = Inr p"
    unfolding build_cycle_policy_def safe_int_def env_or_def ring_on_def by (simp add: Let_def)
  then obtain p where "build_cycle_policy (\<lambda>_. []) ring_on ring_on (Some stuck_ring) VNone = Inr p" ..
  ultimately show ?thesis
    using policy_forces_replan_iff ring_on_enabled
    by (fastforce simp: stuck_ring_def fresh_ring_def event_entry_def)
qed

text \<open>The head reset always backs up first: whenever the state file existed, the backup holds its
  previous content afterwards, even when that content is no JSON and even when strict mode
  stops the reset, in which case the state file is untouched.\<close>

theorem head_reset_backs_up:
  assumes "fs p = Some (Reg m c)" and "backup_path dir ts \<noteq> p"
    and "auto_reset_head_state e dir ts p fs = (fs', res)"
  shows "fs' (backup_path dir ts) = Some (Reg m c) \<and>
    (\<forall>q. q \<noteq> p \<longrightarrow> q \<noteq> backup_path dir ts \<longrightarrow> fs' q = fs q) \<and>
    (case res of
       Inl x \<Rightarrow> strict_enabled e \<and> fs' p = fs p
     | Inr did \<Rightarrow> did \<and> (\<exists>sid. fs' p = Some (Reg m (Some (reset_state sid)))))"
  using assms
  by (auto simp: auto_reset_head_state_def absorb_def Let_def
      split: option.splits pyv.splits if_splits)

theorem head_reset_backs_up_witness:
  "fst (auto_reset_head_state no_env ''/d'' ''1'' ''/d/s'' [''/d/s'' \<mapsto> Reg 420 None])
     (backup_path ''/d'' ''1'') = Some (Reg 420 None)"
proof -
  obtain fs' res where run: "auto_reset_head_state no_env ''/d'' ''1'' ''/d/s'' [''/d/s'' \<mapsto> Reg 420 None] =
    (fs', res)" by (metis prod.collapse)
  show ?thesis using head_reset_backs_up [OF _ _ run] by (simp add: run backup_path_def)
qed

end
