(* ===== verification/CommandPolicy.thy ===== *)
theory CommandPolicy
  imports FailFast "HOL-Library.List_Lexorder"
begin

text \<open>
  The command policies of the executors: the deny classes with their token-level rules
  and single-use carve-out tokens (\<open>enforcement/destructive_command_policy.py\<close>), and the
  allowlist that composes with them (\<open>enforcement/executor_command_policy.py\<close>).

  \<open>nfkc\<close>, the Unicode NFKC normalization, is an argument (it leaves ASCII text as it is);
  case folding, \<open>shlex.split\<close> and the regular expressions are modelled. A pattern is
  reported by its class and position instead of its text.
\<close>

section \<open>Normalization\<close>

definition casefold :: "string \<Rightarrow> string" where
  "casefold s = concat (map (\<lambda>c. if char_code c = 223 then ''ss'' else [lower_char c]) s)"

definition normalize :: "(string \<Rightarrow> string) \<Rightarrow> string \<Rightarrow> string" where
  "normalize nfkc cmd = casefold (nfkc cmd)"

section \<open>\<open>shlex.split\<close>\<close>

text \<open>
  The POSIX lexer with \<open>whitespace_split\<close>: between words, inside a word, inside a quote,
  and after a backslash (with the quote to return to). \<^const>\<open>None\<close> is its \<open>ValueError\<close>
  (no closing quotation, no escaped character).
\<close>

datatype lex_state = Between | InWord | InQuote char | Escaped "char option"

definition shlex_space :: "char \<Rightarrow> bool" where
  "shlex_space c \<longleftrightarrow> char_code c \<in> {32, 9, 13, 10}"

definition backslash :: char where "backslash = CHR 0x5C"
definition dquote :: char where "dquote = CHR 0x22"
definition squote :: char where "squote = CHR 0x27"

definition is_quote :: "char \<Rightarrow> bool" where
  "is_quote c \<longleftrightarrow> c = dquote \<or> c = squote"

definition emit :: "string \<Rightarrow> bool \<Rightarrow> string list \<Rightarrow> string list" where
  "emit tok quoted rest = (if tok \<noteq> [] \<or> quoted then tok # rest else rest)"

fun shlex :: "lex_state \<Rightarrow> string \<Rightarrow> bool \<Rightarrow> string \<Rightarrow> string list option" where
  "shlex Between tok q [] = Some (emit tok q [])"
| "shlex InWord tok q [] = Some (emit tok q [])"
| "shlex (InQuote _) tok q [] = None"
| "shlex (Escaped _) tok q [] = None"
| "shlex Between tok q (c # cs) =
     (if shlex_space c then map_option (emit tok q) (shlex Between [] False cs)
      else if c = backslash then shlex (Escaped None) tok q cs
      else if is_quote c then shlex (InQuote c) tok q cs
      else shlex InWord [c] q cs)"
| "shlex InWord tok q (c # cs) =
     (if shlex_space c then map_option (emit tok q) (shlex Between [] False cs)
      else if is_quote c then shlex (InQuote c) tok q cs
      else if c = backslash then shlex (Escaped None) tok q cs
      else shlex InWord (tok @ [c]) q cs)"
| "shlex (InQuote d) tok q (c # cs) =
     (if c = d then shlex InWord tok True cs
      else if c = backslash \<and> d = dquote then shlex (Escaped (Some d)) tok True cs
      else shlex (InQuote d) (tok @ [c]) True cs)"
| "shlex (Escaped ret) tok q (c # cs) =
     (case ret of
        None \<Rightarrow> shlex InWord (tok @ [c]) q cs
      | Some d \<Rightarrow> shlex (InQuote d)
                   (tok @ (if c \<noteq> backslash \<and> c \<noteq> d then [backslash] else []) @ [c]) q cs)"

definition shlex_split :: "string \<Rightarrow> string list option" where
  "shlex_split s = shlex Between [] False s"

section \<open>Regular expressions\<close>

text \<open>
  The constructs the patterns use. Only the existence of a match matters to the policy,
  so \<open>ends\<close> lists every position a match may end at; a position is the character before
  it and the text after it.
\<close>

datatype rx =
    Cls "char \<Rightarrow> bool"
  | Many "char \<Rightarrow> bool"
  | WordB
  | Eps
  | Sequ rx rx
  | Alt rx rx

definition word_char :: "char \<Rightarrow> bool" where
  "word_char c \<longleftrightarrow>
     (let n = char_code c in 48 \<le> n \<and> n \<le> 57 \<or> 65 \<le> n \<and> n \<le> 90 \<or> 97 \<le> n \<and> n \<le> 122 \<or> n = 95 \<or>
        n \<in> {170, 178, 179, 181, 185, 186, 188, 189, 190} \<or> 192 \<le> n \<and> n \<noteq> 215 \<and> n \<noteq> 247)"

lemma word_char_Char [code]:
  "word_char (Char b0 b1 b2 b3 b4 b5 b6 b7) \<longleftrightarrow>
     (if b7
      then (if b6 then \<not> (b4 \<and> \<not> b3 \<and> b2 \<and> b1 \<and> b0)
            else b5 \<and> (if b4
                  then (if b3 then (if b2 then \<not> (b1 \<and> b0) else b1 \<noteq> b0)
                        else (if b2 then \<not> b1 \<and> b0 else b1))
                  else b3 \<and> \<not> b2 \<and> b1 \<and> \<not> b0))
      else (if b6
            then (if b4 then (\<not> b3 \<or> \<not> b2 \<and> (\<not> b1 \<or> \<not> b0)) \<or> \<not> b5 \<and> b3 \<and> b2 \<and> b1 \<and> b0
                  else b3 \<or> b2 \<or> b1 \<or> b0)
            else b5 \<and> b4 \<and> (\<not> b3 \<or> \<not> b2 \<and> \<not> b1)))"
  by (cases b0; cases b1; cases b2; cases b3; cases b4; cases b5; cases b6; cases b7;
      simp add: word_char_def char_code_def)

definition at_boundary :: "char option \<Rightarrow> string \<Rightarrow> bool" where
  "at_boundary pre s \<longleftrightarrow>
     (case pre of None \<Rightarrow> False | Some c \<Rightarrow> word_char c) \<noteq>
     (case s of [] \<Rightarrow> False | c # _ \<Rightarrow> word_char c)"

fun star_ends :: "(char \<Rightarrow> bool) \<Rightarrow> char option \<Rightarrow> string \<Rightarrow> (char option \<times> string) list" where
  "star_ends p pre [] = [(pre, [])]"
| "star_ends p pre (c # cs) = (pre, c # cs) # (if p c then star_ends p (Some c) cs else [])"

fun ends :: "rx \<Rightarrow> char option \<times> string \<Rightarrow> (char option \<times> string) list" where
  "ends (Cls p) (pre, []) = []"
| "ends (Cls p) (pre, c # cs) = (if p c then [(Some c, cs)] else [])"
| "ends (Many p) (pre, s) = star_ends p pre s"
| "ends WordB (pre, s) = (if at_boundary pre s then [(pre, s)] else [])"
| "ends Eps pos = [pos]"
| "ends (Sequ r1 r2) pos = concat (map (ends r2) (ends r1 pos))"
| "ends (Alt r1 r2) pos = ends r1 pos @ ends r2 pos"

fun search_from :: "rx \<Rightarrow> char option \<Rightarrow> string \<Rightarrow> bool" where
  "search_from r pre [] \<longleftrightarrow> ends r (pre, []) \<noteq> []"
| "search_from r pre (c # cs) \<longleftrightarrow> ends r (pre, c # cs) \<noteq> [] \<or> search_from r (Some c) cs"

definition rx_search :: "rx \<Rightarrow> string \<Rightarrow> bool" where
  "rx_search r s = search_from r None s"

fun sequ :: "rx list \<Rightarrow> rx" where
  "sequ [] = Eps" | "sequ [r] = r" | "sequ (r # s # rs) = Sequ r (sequ (s # rs))"

fun alts :: "rx list \<Rightarrow> rx" where
  "alts [] = Cls (\<lambda>_. False)" | "alts [r] = r" | "alts (r # s # rs) = Alt r (alts (s # rs))"

definition lit :: "string \<Rightarrow> rx" where "lit t = sequ (map (\<lambda>c. Cls (\<lambda>x. x = c)) t)"
definition opt :: "rx \<Rightarrow> rx" where "opt r = Alt r Eps"
definition plus_of :: "(char \<Rightarrow> bool) \<Rightarrow> rx" where "plus_of p = Sequ (Cls p) (Many p)"

definition any_char :: "char \<Rightarrow> bool" where "any_char c \<longleftrightarrow> c \<noteq> CHR 0x0A"
definition letter :: "char \<Rightarrow> bool" where
  "letter c \<longleftrightarrow> (let n = char_code c in 97 \<le> n \<and> n \<le> 122 \<or> 65 \<le> n \<and> n \<le> 90)"
lemma letter_Char [code]:
  "letter (Char b0 b1 b2 b3 b4 b5 b6 b7) \<longleftrightarrow>
     \<not> b7 \<and> b6 \<and> (b4 \<or> b3 \<or> b2 \<or> b1 \<or> b0) \<and> \<not> (b4 \<and> b3 \<and> (b2 \<or> b1 \<and> b0))"
  by (cases b0; cases b1; cases b2; cases b3; cases b4; cases b5; cases b6; cases b7;
      simp add: letter_def char_code_def)

definition non_space :: "char \<Rightarrow> bool" where "non_space c \<longleftrightarrow> \<not> py_space c"

definition spaces :: rx where "spaces = plus_of py_space"
definition letters :: rx where "letters = Many letter"
definition word :: "string \<Rightarrow> rx" where "word t = sequ [WordB, lit t, WordB]"

text \<open>The patterns see folded text, so their literals are the lower-case ones.\<close>

definition rx_git_push :: rx where
  "rx_git_push = sequ [WordB, lit ''git'', spaces, lit ''push'', WordB, Many any_char, alts [
     Sequ (lit ''--force'') (Alt WordB (lit ''='')),
     sequ [lit ''--force-with-lease'', opt (Sequ (lit ''='') (Many non_space)), WordB],
     sequ [lit ''--force-if-includes'', opt (Sequ (lit ''='') (Many non_space)), WordB],
     Sequ (lit ''--mirror'') WordB,
     Sequ (lit ''+'') (Alt (lit ''head'') (lit ''refs/''))]]"

definition rx_git_reset :: rx where
  "rx_git_reset = sequ [WordB, lit ''git'', spaces, lit ''reset'', spaces, lit ''--hard'', WordB]"

definition rx_git_clean :: rx where
  "rx_git_clean = sequ [WordB, lit ''git'', spaces, lit ''clean'', spaces, lit ''-'', letters,
     lit ''f'', letters, opt (lit ''d''), letters, WordB]"

definition rx_rm :: rx where
  "rx_rm = Alt
     (sequ [WordB, lit ''rm'', spaces, lit ''-'', letters, lit ''r'', letters, lit ''f'', letters, WordB])
     (sequ [WordB, lit ''rm'', spaces, lit ''-'', letters, lit ''f'', letters, lit ''r'', letters, WordB])"

definition rx_dd :: rx where
  "rx_dd = sequ [WordB, lit ''dd'', spaces, lit ''if='', plus_of any_char, lit ''of=/dev/'']"

definition piped_shell :: rx where
  "piped_shell = sequ [lit ''|'', Many py_space,
     alts [lit ''sh'', lit ''bash'', lit ''zsh'', lit ''python''], WordB]"

definition rx_fetch :: "string \<Rightarrow> rx" where
  "rx_fetch tool = sequ [word tool, plus_of any_char, piped_shell]"

definition rx_nc :: rx where
  "rx_nc = sequ [word ''nc'', spaces, lit ''-l'']"

definition rx_ssh :: rx where
  "rx_ssh = sequ [WordB, lit ''ssh'', spaces, lit ''-'', letters, lit ''r'', WordB]"

definition rx_chmod :: rx where
  "rx_chmod = sequ [WordB, lit ''chmod'', spaces, lit ''-'', letters, lit ''r'', letters, spaces,
     Alt (Sequ (opt (lit ''0'')) (lit ''777'')) (lit ''a+rwx'')]"

definition rx_chown :: rx where
  "rx_chown = sequ [WordB, lit ''chown'', spaces, lit ''-'', letters, lit ''r'', letters, WordB]"

section \<open>Deny classes and decisions\<close>

datatype deny_class = Irreversible | NetworkExec | ConfirmNeeded

datatype matched = TokenRule string | Pattern deny_class nat

record deny_decision =
  class_name :: deny_class
  matched_pattern :: matched
  category :: string
  dreason :: string

definition deny_classes :: "(deny_class \<times> rx list) list" where
  "deny_classes =
     [(Irreversible, [rx_git_push, rx_git_reset, rx_git_clean, rx_rm, word ''mkfs'', rx_dd]),
      (NetworkExec, [rx_fetch ''curl'', rx_fetch ''wget'', rx_nc, rx_ssh]),
      (ConfirmNeeded, [rx_chmod, rx_chown, word ''sudo''])]"

fun class_metadata :: "deny_class \<Rightarrow> string \<times> string" where
  "class_metadata Irreversible =
     (''irreversible'', ''command matches an irreversible/destructive deny rule'')"
| "class_metadata NetworkExec =
     (''network_exec'', ''command matches a network-bound code execution deny rule'')"
| "class_metadata ConfirmNeeded =
     (''confirm_required'', ''command requires explicit confirmation and is denied by default'')"

definition shell_interpreters :: "string list" where
  "shell_interpreters =
     [''bash'', ''cmd'', ''dash'', ''fish'', ''ksh'', ''powershell'', ''pwsh'', ''sh'', ''zsh'']"

definition deny_file_commands :: "(string \<times> deny_class \<times> string \<times> string) list" where
  "deny_file_commands =
     [(''rm'', Irreversible, ''file_delete'', ''rm deletes files''),
      (''rmdir'', Irreversible, ''file_delete'', ''rmdir deletes directories''),
      (''shred'', Irreversible, ''file_delete'', ''shred destroys file contents''),
      (''truncate'', Irreversible, ''file_overwrite'', ''truncate can discard file contents''),
      (''unlink'', Irreversible, ''file_delete'', ''unlink deletes files''),
      (''chmod'', ConfirmNeeded, ''permission_change'', ''chmod changes file permissions''),
      (''chown'', ConfirmNeeded, ''ownership_change'', ''chown changes file ownership'')]"

definition deny_flags :: "(string \<times> string list) list" where
  "deny_flags =
     [(''force'', [''-f'', ''--force'', ''--force-if-includes'', ''--force-with-lease'']),
      (''delete'', [''-d'', ''-D'', ''--delete'', ''--delete-force'']),
      (''hard'', [''--hard'', ''--mirror'']),
      (''shell'', [''rm'', ''sudo'']),
      (''clean_aggressive'', [''-fd'', ''-fdx'', ''-fx'']),
      (''skip_verify'', [''--no-verify'', ''--no-gpg-sign''])]"

definition skip_verify_flags :: "string list" where
  "skip_verify_flags = (case map_of deny_flags ''skip_verify'' of Some fs \<Rightarrow> fs | None \<Rightarrow> [])"

definition mk_decision :: "deny_class \<Rightarrow> matched \<Rightarrow> string \<Rightarrow> string \<Rightarrow> deny_decision" where
  "mk_decision c m cat rsn =
     \<lparr>class_name = c, matched_pattern = m,
      category = (if cat \<noteq> [] then cat else fst (class_metadata c)),
      dreason = (if rsn \<noteq> [] then rsn else snd (class_metadata c))\<rparr>"

section \<open>Token rules\<close>

definition has_short_flag :: "string \<Rightarrow> char \<Rightarrow> bool" where
  "has_short_flag tok f \<longleftrightarrow> prefix ''-'' tok \<and> \<not> prefix ''--'' tok \<and> f \<in> set (tl tok)"

definition push_rewrites :: "string \<Rightarrow> bool" where
  "push_rewrites t \<longleftrightarrow>
     t = ''--force'' \<or> prefix ''--force='' t \<or> t = ''--force-with-lease'' \<or>
     prefix ''--force-with-lease='' t \<or> t = ''--force-if-includes'' \<or>
     prefix ''--force-if-includes='' t \<or> t = ''--mirror'' \<or> prefix ''+head'' t \<or> prefix ''+refs/'' t"

definition git_rules :: "string list \<Rightarrow> deny_decision option" where
  "git_rules args =
     (case args of
        [] \<Rightarrow> None
      | sub # rest \<Rightarrow>
          if sub = ''push'' \<and> list_ex push_rewrites rest
          then Some (mk_decision Irreversible (TokenRule ''token:git_push_force'') ''force''
                 ''git push force/mirror/refspec rewrites remote history'')
          else if sub = ''checkout'' \<and> list_ex (\<lambda>t. t = ''--force'' \<or> has_short_flag t (CHR ''f'')) rest
          then Some (mk_decision Irreversible (TokenRule ''token:git_checkout_force'') ''force''
                 ''git checkout force can discard worktree changes'')
          else if sub = ''branch'' \<and>
               list_ex (\<lambda>t. t = ''-D'' \<or> t = ''--delete'' \<or> t = ''--delete-force'') rest
          then Some (mk_decision Irreversible (TokenRule ''token:git_branch_delete'') ''delete''
                 ''git branch deletion is denied by default'')
          else None)"

text \<open>
  The rules in source order. The final \<open>rm\<close> block of the source cannot be reached, since
  \<open>rm\<close> is already a denied file command.
\<close>

definition token_rules :: "string \<Rightarrow> string list \<Rightarrow> deny_decision option" where
  "token_rules head args =
     (if head \<in> set shell_interpreters
      then Some (mk_decision ConfirmNeeded (TokenRule (''token:shell:'' @ head)) ''shell_exec''
             ''shell interpreter commands are denied by default'')
      else case map_of deny_file_commands head of
        Some (c, cat, rsn) \<Rightarrow> Some (mk_decision c (TokenRule (''token:file_command:'' @ head)) cat rsn)
      | None \<Rightarrow>
          if head = ''dd'' \<and> list_ex (prefix ''of='') args
          then Some (mk_decision Irreversible (TokenRule ''token:dd_output'') ''file_overwrite''
                 ''dd with an output target can overwrite devices or files'')
          else if head = ''sed'' \<and> list_ex (\<lambda>t. prefix ''-i'' t \<or> prefix ''--in-place'' t) args
          then Some (mk_decision Irreversible (TokenRule ''token:sed_in_place'') ''file_overwrite''
                 ''sed in-place editing can overwrite files'')
          else if head \<in> {''cp'', ''mv'', ''ln''} \<and>
               list_ex (\<lambda>t. t = ''--force'' \<or> has_short_flag t (CHR ''f'')) args
          then Some (mk_decision ConfirmNeeded (TokenRule (''token:'' @ head @ ''_force'')) ''file_overwrite''
                 (head @ '' force mode can overwrite filesystem state''))
          else if head = ''tar'' \<and>
               list_ex (\<lambda>t. t = ''--extract'' \<or> t = ''--get'' \<or> has_short_flag t (CHR ''x'')) args
          then Some (mk_decision ConfirmNeeded (TokenRule ''token:tar_extract'') ''file_overwrite''
                 ''tar extraction can overwrite filesystem state'')
          else if list_ex (\<lambda>t. t \<in> set skip_verify_flags) args
          then Some (mk_decision ConfirmNeeded (TokenRule ''flag:skip_verify'') ''skip_verify''
                 ''commands that skip verification are denied by default'')
          else if head = ''git'' then git_rules args
          else None)"

definition parse_error_decision :: deny_decision where
  "parse_error_decision = mk_decision ConfirmNeeded (TokenRule ''token:parse_error'')
     ''ambiguous_command'' ''command could not be parsed safely''"

definition tokenized_deny_hit :: "env \<Rightarrow> string \<Rightarrow> deny_decision option result" where
  "tokenized_deny_hit e normalized =
     (case shlex_split normalized of
        None \<Rightarrow> absorb e (ValueError ''No closing quotation'') (Some parse_error_decision)
      | Some [] \<Rightarrow> Inr None
      | Some (head # args) \<Rightarrow> Inr (token_rules head args))"

fun first_pattern :: "deny_class \<Rightarrow> nat \<Rightarrow> rx list \<Rightarrow> string \<Rightarrow> deny_decision option" where
  "first_pattern c i [] s = None"
| "first_pattern c i (r # rs) s =
     (if rx_search r s then Some (mk_decision c (Pattern c i) [] [])
      else first_pattern c (Suc i) rs s)"

fun pattern_hit :: "(deny_class \<times> rx list) list \<Rightarrow> string \<Rightarrow> deny_decision option" where
  "pattern_hit [] s = None"
| "pattern_hit ((c, rs) # rest) s =
     (case first_pattern c 0 rs s of Some d \<Rightarrow> Some d | None \<Rightarrow> pattern_hit rest s)"

definition find_deny_hit :: "env \<Rightarrow> string \<Rightarrow> deny_decision option result" where
  "find_deny_hit e normalized =
     bindR (tokenized_deny_hit e normalized) (\<lambda>hit.
       Inr (case hit of Some d \<Rightarrow> Some d | None \<Rightarrow> pattern_hit deny_classes normalized))"

section \<open>Carve-out tokens\<close>

type_synonym registry = "nat \<Rightarrow> string set"

definition issue_token :: "nat \<Rightarrow> string \<Rightarrow> registry \<Rightarrow> registry" where
  "issue_token pid tok reg = reg(pid := insert tok (reg pid))"

definition consume_token :: "nat \<Rightarrow> string \<Rightarrow> registry \<Rightarrow> registry \<times> bool" where
  "consume_token pid tok reg =
     (if tok \<in> reg pid then (reg(pid := reg pid - {tok}), True) else (reg, False))"

definition check_deny ::
  "(string \<Rightarrow> string) \<Rightarrow> env \<Rightarrow> nat \<Rightarrow> string \<Rightarrow> string option \<Rightarrow> registry
    \<Rightarrow> registry \<times> deny_decision option result" where
  "check_deny nfkc e pid cmd bypass reg =
     (case find_deny_hit e (normalize nfkc cmd) of
        Inl x \<Rightarrow> (reg, Inl x)
      | Inr None \<Rightarrow> (reg, Inr None)
      | Inr (Some d) \<Rightarrow>
          (case bypass of
             None \<Rightarrow> (reg, Inr (Some d))
           | Some tok \<Rightarrow>
               if tok = [] then (reg, Inr (Some d))
               else (let (reg', used) = consume_token pid tok reg
                     in (reg', Inr (if used then None else Some d)))))"

section \<open>The executor allowlist\<close>

definition command_allowlist :: "(string list \<times> bool) list" where
  "command_allowlist =
     [([''ask_self''], True), ([''git'', ''log''], True), ([''git'', ''show''], True),
      ([''git'', ''diff''], True), ([''git'', ''blame''], True),
      ([''git'', ''rev-parse''], True), ([''git'', ''ls-files''], True),
      ([''git'', ''status''], True), ([''git'', ''add''], False), ([''git'', ''commit''], False),
      ([''git'', ''grep''], True), ([''grep''], True), ([''rg''], True), ([''ripgrep''], True),
      ([''node'', ''--version''], True), ([''node'', ''-v''], True),
      ([''node'', ''--check''], True), ([''node'', ''-c''], True), ([''node''], False),
      ([''python3'', ''-c''], True), ([''python'', ''-c''], True),
      ([''python3'', ''-m'', ''py_compile''], True),
      ([''python'', ''-m'', ''py_compile''], True), ([''python3'', ''-m'', ''pytest''], False),
      ([''python'', ''-m'', ''pytest''], False), ([''python3''], False), ([''python''], False),
      ([''uvicorn''], False), ([''npm'', ''test''], False), ([''npx'', ''vitest''], False),
      ([''pytest''], False), ([''tox''], False), ([''npm'', ''run'', ''build''], False),
      ([''npx'', ''tsc''], False), ([''npx'', ''vite'', ''build''], False), ([''black''], True),
      ([''isort''], True), ([''pylint''], True), ([''pre-commit'', ''validate-config''], True),
      ([''mkdir''], False), ([''ls''], True), ([''cp''], False), ([''mv''], False),
      ([''touch''], False), ([''ln''], False), ([''wc''], True), ([''sort''], True),
      ([''head''], True), ([''tail''], True), ([''cat''], True), ([''find''], True),
      ([''echo''], True), ([''printf''], True), ([''tee''], False), ([''test''], True),
      ([''basename''], True), ([''dirname''], True), ([''realpath''], True), ([''stat''], True),
      ([''diff''], True), ([''sed''], False), ([''patch'', ''--version''], True),
      ([''patch''], False), ([''awk''], True), ([''xargs''], True), ([''pwd''], True),
      ([''which''], True), ([''type''], True), ([''command''], True), ([''jq''], True),
      ([''sqlite3''], True), ([''sha256sum''], True), ([''md5sum''], True), ([''tar''], False),
      ([''date''], True), ([''du''], True), ([''uname''], True), ([''df''], True),
      ([''free''], True), ([''uptime''], True), ([''curl''], True), ([''wget''], False),
      ([''pip3'', ''install''], False), ([''pip3'', ''freeze''], True),
      ([''pip3'', ''list''], True), ([''pip3'', ''show''], True),
      ([''pip'', ''install''], False), ([''pip'', ''freeze''], True),
      ([''pip'', ''list''], True), ([''pip'', ''show''], True),
      ([''python3'', ''-m'', ''pip''], False), ([''python'', ''-m'', ''pip''], False),
      ([''pandoc''], True)]"

definition describe_allowed_commands :: string where
  "describe_allowed_commands =
     join '', '' (sort (remdups (map (\<lambda>(p, _). hd p) (filter (\<lambda>(p, _). p \<noteq> []) command_allowlist)))
       @ [''timeout-wrapper'', ''export-env-prefix''])"

definition shell_operator_tokens :: "string list" where
  "shell_operator_tokens =
     [''&&'', ''&'', ''||'', ''|'', '';'', ''>'', ''>>'', ''<'', ''<<'', ''2>'', ''2>>'']"

fun match_prefix :: "string list \<Rightarrow> (string list \<times> bool) list \<Rightarrow> (string list \<times> bool) option" where
  "match_prefix toks [] = None"
| "match_prefix toks ((p, ro) # rest) =
     (if toks \<noteq> [] \<and> p \<noteq> [] \<and> prefix p toks then Some (p, ro) else match_prefix toks rest)"

definition has_shell_operator :: "string list \<Rightarrow> bool" where
  "has_shell_operator toks \<longleftrightarrow> list_ex (\<lambda>t. t \<in> set shell_operator_tokens) toks"

record command_decision =
  allowed :: bool
  read_only :: bool
  cd_category :: string
  cd_reason :: string
  matched_prefix :: "string list option"
  destructive_hit :: "deny_decision option"

definition refuse :: "string \<Rightarrow> string \<Rightarrow> deny_decision option \<Rightarrow> command_decision" where
  "refuse cat rsn hit = \<lparr>allowed = False, read_only = False, cd_category = cat, cd_reason = rsn,
     matched_prefix = None, destructive_hit = hit\<rparr>"

definition evaluate_command ::
  "(string \<Rightarrow> string) \<Rightarrow> env \<Rightarrow> string list \<Rightarrow> command_decision result" where
  "evaluate_command nfkc e toks =
     (if toks = [] then Inr (refuse ''empty'' ''empty command tokens are denied'' None)
      else bindR (snd (check_deny nfkc e 0 (join '' '' toks) None (\<lambda>_. {}))) (\<lambda>hit.
        case hit of
          Some d \<Rightarrow> Inr (refuse (category d) (dreason d) (Some d))
        | None \<Rightarrow>
            if has_shell_operator toks
            then Inr (refuse ''ambiguous_shell''
                        ''shell control operators require shell-form validation'' None)
            else (case match_prefix toks command_allowlist of
                    None \<Rightarrow> Inr (refuse ''not_allowlisted''
                              ''command prefix is not in the executor allowlist'' None)
                  | Some (p, ro) \<Rightarrow>
                      Inr \<lparr>allowed = True, read_only = ro,
                           cd_category = (if ro then ''read_only'' else ''explicit_write''),
                           cd_reason = (if ro then ''matched read-only executor allowlist prefix''
                                     else ''matched explicit write executor allowlist prefix''),
                           matched_prefix = Some p, destructive_hit = None\<rparr>)))"

definition is_command_allowed :: "(string \<Rightarrow> string) \<Rightarrow> env \<Rightarrow> string list \<Rightarrow> bool result" where
  "is_command_allowed nfkc e toks = bindR (evaluate_command nfkc e toks) (\<lambda>d. Inr (allowed d))"

definition is_read_only_command :: "(string \<Rightarrow> string) \<Rightarrow> env \<Rightarrow> string list \<Rightarrow> bool result" where
  "is_read_only_command nfkc e toks =
     bindR (evaluate_command nfkc e toks) (\<lambda>d. Inr (allowed d \<and> read_only d))"

section \<open>Facts about the lexer\<close>

definition plain_char :: "char \<Rightarrow> bool" where
  "plain_char c \<longleftrightarrow> \<not> shlex_space c \<and> c \<noteq> backslash \<and> \<not> is_quote c"

lemma shlex_inword_plain:
  "list_all plain_char w \<Longrightarrow> shlex InWord tok q (w @ rest) = shlex InWord (tok @ w) q rest"
  by (induction w arbitrary: tok) (auto simp: plain_char_def)

lemma shlex_first_word:
  assumes "list_all plain_char w" "w \<noteq> []" "shlex_space c"
  shows "shlex_split (w @ c # rest) = map_option (\<lambda>ts. w # ts) (shlex_split rest)"
    and "shlex_split w = Some [w]"
proof -
  obtain x xs where w: "w = x # xs" using assms(2) by (cases w) auto
  have first: "plain_char x" and others: "list_all plain_char xs" using assms(1) by (auto simp: w)
  have start: "shlex_split (w @ r) = shlex InWord w False r" for r
    using first shlex_inword_plain [OF others, of "[x]"] by (simp add: w shlex_split_def plain_char_def)
  have "emit w False = (\<lambda>ts. w # ts)" using assms(2) by (auto simp: emit_def)
  then show "shlex_split (w @ c # rest) = map_option (\<lambda>ts. w # ts) (shlex_split rest)"
    using assms(3) by (simp add: start) (simp add: shlex_split_def)
  show "shlex_split w = Some [w]" using start [of "[]"] assms(2) by (simp add: emit_def)
qed

definition denied_heads :: "string list" where
  "denied_heads = shell_interpreters @ map fst deny_file_commands"

lemma denied_heads_plain: "h \<in> set denied_heads \<Longrightarrow> list_all plain_char h \<and> h \<noteq> []"
proof -
  have "list_all (\<lambda>h. list_all plain_char h \<and> h \<noteq> []) denied_heads" by code_simp
  then show "h \<in> set denied_heads \<Longrightarrow> ?thesis" by (simp add: list_all_iff)
qed

lemma denied_heads_hit: "h \<in> set denied_heads \<Longrightarrow> token_rules h args \<noteq> None"
proof (cases "h \<in> set shell_interpreters")
  case True
  then show ?thesis by (simp add: token_rules_def)
next
  case False
  moreover assume "h \<in> set denied_heads"
  ultimately have "map_of deny_file_commands h \<noteq> None"
    by (simp add: denied_heads_def map_of_eq_None_iff)
  then obtain c cat rsn where "map_of deny_file_commands h = Some (c, cat, rsn)" by auto
  with False show ?thesis by (simp add: token_rules_def)
qed

lemma denied_head_found:
  assumes "h \<in> set denied_heads" "n = h \<or> (\<exists>c rest. shlex_space c \<and> n = h @ c # rest)"
  shows "find_deny_hit e n \<noteq> Inr None"
proof -
  have plain: "list_all plain_char h" "h \<noteq> []" using denied_heads_plain [OF assms(1)] by auto
  from assms(2) have "shlex_split n = None \<or> (\<exists>ts. shlex_split n = Some (h # ts))"
  proof
    assume "n = h"
    then show ?thesis using shlex_first_word(2) [OF plain, of "CHR '' ''"]
      by (simp add: shlex_space_def char_code_def)
  next
    assume "\<exists>c rest. shlex_space c \<and> n = h @ c # rest"
    then obtain c rest where "shlex_space c" "n = h @ c # rest" by blast
    then show ?thesis using shlex_first_word(1) [OF plain, of c rest]
      by (cases "shlex_split rest") auto
  qed
  then show ?thesis
  proof (elim disjE exE)
    assume "shlex_split n = None"
    then show ?thesis by (simp add: find_deny_hit_def tokenized_deny_hit_def absorb_def)
  next
    fix ts
    assume "shlex_split n = Some (h # ts)"
    then show ?thesis using denied_heads_hit [OF assms(1), of ts]
      by (auto simp: find_deny_hit_def tokenized_deny_hit_def)
  qed
qed

lemma check_deny_plain: "snd (check_deny nfkc e pid cmd None reg) = find_deny_hit e (normalize nfkc cmd)"
  by (auto simp: check_deny_def split: sum.splits option.splits)

lemma match_prefix_Some:
  "match_prefix toks al = Some (p, ro) \<Longrightarrow> (p, ro) \<in> set al \<and> p \<noteq> [] \<and> prefix p toks"
  by (induction al) (auto split: if_splits)

lemma evaluate_allowed:
  "evaluate_command nfkc e toks = Inr d \<and> allowed d \<longleftrightarrow>
     toks \<noteq> [] \<and> find_deny_hit e (normalize nfkc (join '' '' toks)) = Inr None \<and>
     \<not> has_shell_operator toks \<and>
     (\<exists>p ro. match_prefix toks command_allowlist = Some (p, ro) \<and>
        d = \<lparr>allowed = True, read_only = ro,
             cd_category = (if ro then ''read_only'' else ''explicit_write''),
             cd_reason = (if ro then ''matched read-only executor allowlist prefix''
                       else ''matched explicit write executor allowlist prefix''),
             matched_prefix = Some p, destructive_hit = None\<rparr>)"
  by (auto simp: evaluate_command_def check_deny_plain refuse_def bindR_def
      split: sum.splits option.splits if_splits)

definition git_subcommands :: "string list" where
  "git_subcommands = [''log'', ''show'', ''diff'', ''blame'', ''rev-parse'', ''ls-files'', ''status'',
     ''add'', ''commit'', ''grep'']"

lemma allowlist_git:
  "list_all (\<lambda>(p, ro). case p of [] \<Rightarrow> False
     | h # t \<Rightarrow> h = ''git'' \<longrightarrow> (case t of [] \<Rightarrow> False | sub # _ \<Rightarrow> sub \<in> set git_subcommands))
     command_allowlist"
  by code_simp

text \<open>Evaluating the check piece by piece on a concrete command.\<close>

lemma no_hit:
  "normalize nfkc cmd = n \<Longrightarrow> shlex_split n = Some (h # args) \<Longrightarrow> token_rules h args = None \<Longrightarrow>
     pattern_hit deny_classes n = None \<Longrightarrow> find_deny_hit e (normalize nfkc cmd) = Inr None"
  by (simp add: find_deny_hit_def tokenized_deny_hit_def)

lemma token_hit:
  "normalize nfkc cmd = n \<Longrightarrow> shlex_split n = Some (h # args) \<Longrightarrow> token_rules h args \<noteq> None \<Longrightarrow>
     find_deny_hit e (normalize nfkc cmd) \<noteq> Inr None"
  by (auto simp: find_deny_hit_def tokenized_deny_hit_def)

lemmas token_rule_defs = token_rules_def shell_interpreters_def deny_file_commands_def
  skip_verify_flags_def deny_flags_def git_rules_def push_rewrites_def has_short_flag_def

section \<open>Properties\<close>


text \<open>A command whose normalized text starts with a shell interpreter or a denied file command
  as its first word is never allowed: whatever follows, even text that does not parse, the
  check denies it (or raises in strict mode), and the executor does not run it.\<close>

theorem denied_head_never_passes:
  assumes "h \<in> set denied_heads"
    and "normalize nfkc cmd = h \<or> (\<exists>c rest. shlex_space c \<and> normalize nfkc cmd = h @ c # rest)"
  shows "snd (check_deny nfkc e pid cmd None reg) \<noteq> Inr None \<and>
    (\<forall>toks d. cmd = join '' '' toks \<longrightarrow> evaluate_command nfkc e toks = Inr d \<longrightarrow> \<not> allowed d)"
  using denied_head_found [OF assms] evaluate_allowed
  by (metis check_deny_plain)

theorem denied_head_never_passes_witness:
  "snd (check_deny (\<lambda>s. s) no_env 7 ''RM -x f'' None (\<lambda>_. {})) \<noteq> Inr None"
proof -
  have "''rm'' \<in> set denied_heads" by (simp add: denied_heads_def deny_file_commands_def)
  moreover have "normalize (\<lambda>s. s) ''RM -x f'' = ''rm'' @ CHR '' '' # ''-x f''" by code_simp
  moreover have "shlex_space (CHR '' '')" by code_simp
  ultimately show ?thesis using denied_head_never_passes by blast
qed

text \<open>A carve-out token works once, for the process it was issued to: when a token lets a denied
  command through, it was registered for that process and is gone afterwards, so no denied
  command passes with it again until it is issued anew.\<close>

theorem carve_out_single_use:
  assumes "find_deny_hit e (normalize nfkc cmd) = Inr (Some d)"
    and "check_deny nfkc e pid cmd (Some tok) reg = (reg', Inr None)"
    and "find_deny_hit e (normalize nfkc cmd') = Inr (Some d')"
  shows "tok \<in> reg pid \<and> tok \<notin> reg' pid \<and> (\<forall>q. q \<noteq> pid \<longrightarrow> reg' q = reg q) \<and>
    check_deny nfkc e pid cmd' (Some tok) reg' = (reg', Inr (Some d'))"
  using assms
  by (auto simp: check_deny_def consume_token_def split: if_splits prod.splits)

definition rmdir_decision :: deny_decision where
  "rmdir_decision = mk_decision Irreversible (TokenRule ''token:file_command:rmdir'')
     ''file_delete'' ''rmdir deletes directories''"

lemma rmdir_hit: "find_deny_hit no_env (normalize (\<lambda>s. s) ''rmdir x'') = Inr (Some rmdir_decision)"
proof -
  have "normalize (\<lambda>s. s) ''rmdir x'' = ''rmdir x''" by code_simp
  moreover have "shlex_split ''rmdir x'' = Some [''rmdir'', ''x'']" by code_simp
  ultimately show ?thesis
    by (simp add: find_deny_hit_def tokenized_deny_hit_def token_rule_defs rmdir_decision_def)
qed

theorem carve_out_single_use_witness:
  "snd (check_deny (\<lambda>s. s) no_env 7 ''rmdir x'' (Some ''t1'') ((\<lambda>_. {})(7 := {}))) \<noteq> Inr None"
proof -
  have "check_deny (\<lambda>s. s) no_env 7 ''rmdir x'' (Some ''t1'') (issue_token 7 ''t1'' (\<lambda>_. {})) =
      ((\<lambda>_. {})(7 := {}), Inr None)"
    by (simp add: check_deny_def rmdir_hit consume_token_def issue_token_def)
  from carve_out_single_use [OF rmdir_hit this rmdir_hit] show ?thesis by simp
qed

text \<open>The allowlist admits no git command but the listed subcommands: a permitted command that
  starts with git has one of them as its second token, so no bare git and no reset, checkout,
  clean, stash, restore or push is ever permitted.\<close>

theorem git_only_listed_subcommands:
  assumes "evaluate_command nfkc e (''git'' # rest) = Inr d" and "allowed d"
  shows "\<exists>sub args. rest = sub # args \<and> sub \<in> set git_subcommands"
proof -
  obtain p ro where "match_prefix (''git'' # rest) command_allowlist = Some (p, ro)"
    using assms evaluate_allowed by blast
  then have p: "(p, ro) \<in> set command_allowlist" "p \<noteq> []" "prefix p (''git'' # rest)"
    using match_prefix_Some by blast+
  then obtain t where t: "p = ''git'' # t" "prefix t rest" by (cases p) auto
  from allowlist_git p(1) have "case t of [] \<Rightarrow> False | sub # _ \<Rightarrow> sub \<in> set git_subcommands"
    by (auto simp: list_all_iff t)
  with t(2) show ?thesis by (cases t) (auto simp: prefix_def)
qed

lemma git_log_clean: "find_deny_hit no_env (normalize (\<lambda>s. s) (join '' '' [''git'', ''log''])) = Inr None"
proof (rule no_hit [where n = "''git log''"])
  show "normalize (\<lambda>s. s) (join '' '' [''git'', ''log'']) = ''git log''" by code_simp
  show "shlex_split ''git log'' = Some (''git'' # [''log''])" by code_simp
  show "token_rules ''git'' [''log''] = None" by (simp add: token_rule_defs)
  show "pattern_hit deny_classes ''git log'' = None" by code_simp
qed

theorem git_only_listed_subcommands_witness:
  "''log'' \<in> set git_subcommands"
proof -
  have "match_prefix [''git'', ''log''] command_allowlist = Some ([''git'', ''log''], True)" by code_simp
  moreover have "\<not> has_shell_operator [''git'', ''log'']"
    by (simp add: has_shell_operator_def shell_operator_tokens_def)
  ultimately obtain d where "evaluate_command (\<lambda>s. s) no_env [''git'', ''log''] = Inr d" "allowed d"
    using evaluate_allowed [of "\<lambda>s. s" no_env "[''git'', ''log'']"] git_log_clean by fastforce
  from git_only_listed_subcommands [OF this] show ?thesis by simp
qed

text \<open>Folding the command to lower case makes the rule for the flag -D unreachable, and no rule
  covers the short force flag of git push: deleting a branch with -D and force pushing with -f
  pass the deny check, although both flags are in the declared deny flags and the long forms
  of the same commands are denied.\<close>

theorem short_git_flags_pass:
  "snd (check_deny (\<lambda>s. s) no_env pid ''git branch -D m'' None reg) = Inr None \<and>
   snd (check_deny (\<lambda>s. s) no_env pid ''git push -f o'' None reg) = Inr None \<and>
   snd (check_deny (\<lambda>s. s) no_env pid ''git branch --delete x'' None reg) \<noteq> Inr None \<and>
   snd (check_deny (\<lambda>s. s) no_env pid ''git push --force x'' None reg) \<noteq> Inr None"
proof -
  have a: "find_deny_hit no_env (normalize (\<lambda>s. s) ''git branch -D m'') = Inr None"
  proof (rule no_hit [where n = "''git branch -d m''"])
    show "normalize (\<lambda>s. s) ''git branch -D m'' = ''git branch -d m''" by code_simp
    show "shlex_split ''git branch -d m'' = Some (''git'' # [''branch'', ''-d'', ''m''])" by code_simp
    show "token_rules ''git'' [''branch'', ''-d'', ''m''] = None" by (simp add: token_rule_defs)
    show "pattern_hit deny_classes ''git branch -d m'' = None" by code_simp
  qed
  have b: "find_deny_hit no_env (normalize (\<lambda>s. s) ''git push -f o'') = Inr None"
  proof (rule no_hit [where n = "''git push -f o''"])
    show "normalize (\<lambda>s. s) ''git push -f o'' = ''git push -f o''" by code_simp
    show "shlex_split ''git push -f o'' = Some (''git'' # [''push'', ''-f'', ''o''])" by code_simp
    show "token_rules ''git'' [''push'', ''-f'', ''o''] = None" by (simp add: token_rule_defs)
    show "pattern_hit deny_classes ''git push -f o'' = None" by code_simp
  qed
  have c: "find_deny_hit no_env (normalize (\<lambda>s. s) ''git branch --delete x'') \<noteq> Inr None"
  proof (rule token_hit [where n = "''git branch --delete x''"])
    show "normalize (\<lambda>s. s) ''git branch --delete x'' = ''git branch --delete x''" by code_simp
    show "shlex_split ''git branch --delete x'' = Some (''git'' # [''branch'', ''--delete'', ''x''])" by code_simp
    show "token_rules ''git'' [''branch'', ''--delete'', ''x''] \<noteq> None" by (simp add: token_rule_defs)
  qed
  have d: "find_deny_hit no_env (normalize (\<lambda>s. s) ''git push --force x'') \<noteq> Inr None"
  proof (rule token_hit [where n = "''git push --force x''"])
    show "normalize (\<lambda>s. s) ''git push --force x'' = ''git push --force x''" by code_simp
    show "shlex_split ''git push --force x'' = Some (''git'' # [''push'', ''--force'', ''x''])" by code_simp
    show "token_rules ''git'' [''push'', ''--force'', ''x''] \<noteq> None" by (simp add: token_rule_defs)
  qed
  from a b c d show ?thesis by (simp add: check_deny_plain)
qed

text \<open>The read-only mark of the allowlist is not sound: deleting files with find is permitted and
  reported as read-only.\<close>

theorem read_only_mark_unsound:
  "is_read_only_command (\<lambda>s. s) no_env [''find'', ''-delete''] = Inr True"
proof -
  have f: "find_deny_hit no_env (normalize (\<lambda>s. s) (join '' '' [''find'', ''-delete''])) = Inr None"
  proof (rule no_hit [where n = "''find -delete''"])
    show "normalize (\<lambda>s. s) (join '' '' [''find'', ''-delete'']) = ''find -delete''" by code_simp
    show "shlex_split ''find -delete'' = Some (''find'' # [''-delete''])" by code_simp
    show "token_rules ''find'' [''-delete''] = None" by (simp add: token_rule_defs)
    show "pattern_hit deny_classes ''find -delete'' = None" by code_simp
  qed
  have f2: "match_prefix [''find'', ''-delete''] command_allowlist = Some ([''find''], True)" by code_simp
  from f f2 show ?thesis
    by (simp add: is_read_only_command_def evaluate_command_def check_deny_plain
        has_shell_operator_def shell_operator_tokens_def del: join.simps)
qed

end
