(* ===== verification/Json.thy ===== *)
theory Json
  imports Prelude "HOL-Library.List_Lexorder"
begin

text \<open>
  The canonical JSON text the program hashes and signs:
  \<open>json.dumps(v, sort_keys=True, separators=(",", ":"), ensure_ascii=True)\<close>.
  The digits of a float are the parameter \<open>fr\<close>. Dicts compare regardless of the order of
  their keys; \<open>canon\<close> sorts them.
\<close>

section \<open>Canonical form\<close>

fun canon :: "pyv \<Rightarrow> pyv"
and canon_items :: "dict \<Rightarrow> dict" where
  "canon (VList xs) = VList (map canon xs)"
| "canon (VDict d) = VDict (sort_key fst (canon_items d))"
| "canon v = v"
| "canon_items [] = []"
| "canon_items ((k, v) # d) = (k, canon v) # canon_items d"

definition same_value :: "pyv \<Rightarrow> pyv \<Rightarrow> bool" where
  "same_value v w \<longleftrightarrow> canon v = canon w"

section \<open>Text\<close>

definition unicode_escape :: "char \<Rightarrow> string" where
  "unicode_escape c =
     [CHR 0x5C, CHR ''u'', CHR ''0'', CHR ''0'', hex_digit (char_code c div 16),
      hex_digit (char_code c mod 16)]"

definition json_char :: "char \<Rightarrow> string" where
  "json_char c =
     (let n = char_code c in
      if n = 34 \<or> n = 92 then [CHR 0x5C, c]
      else if n = 10 then [CHR 0x5C, CHR ''n'']
      else if n = 13 then [CHR 0x5C, CHR ''r'']
      else if n = 9 then [CHR 0x5C, CHR ''t'']
      else if n = 8 then [CHR 0x5C, CHR ''b'']
      else if n = 12 then [CHR 0x5C, CHR ''f'']
      else if 32 \<le> n \<and> n \<le> 126 then [c] else unicode_escape c)"

definition json_special :: "char \<Rightarrow> string" where "json_special c = json_char c"

lemma json_char_Char [code]:
  "json_char (Char b0 b1 b2 b3 b4 b5 b6 b7) =
     (if \<not> b7 \<and> (b6 \<or> b5) \<and> \<not> (b6 \<and> b5 \<and> b4 \<and> b3 \<and> b2 \<and> b1 \<and> b0) \<and>
         \<not> (\<not> b6 \<and> b5 \<and> \<not> b4 \<and> \<not> b3 \<and> \<not> b2 \<and> b1 \<and> \<not> b0) \<and>
         \<not> (b6 \<and> \<not> b5 \<and> b4 \<and> b3 \<and> b2 \<and> \<not> b1 \<and> \<not> b0)
      then [Char b0 b1 b2 b3 b4 b5 b6 b7] else json_special (Char b0 b1 b2 b3 b4 b5 b6 b7))"
  by (cases b0; cases b1; cases b2; cases b3; cases b4; cases b5; cases b6; cases b7;
      simp add: json_special_def json_char_def char_code_def)

lemma json_special_code [code]:
  "json_special c =
     (let n = char_code c in
      if n = 34 \<or> n = 92 then [CHR 0x5C, c]
      else if n = 10 then [CHR 0x5C, CHR ''n'']
      else if n = 13 then [CHR 0x5C, CHR ''r'']
      else if n = 9 then [CHR 0x5C, CHR ''t'']
      else if n = 8 then [CHR 0x5C, CHR ''b'']
      else if n = 12 then [CHR 0x5C, CHR ''f'']
      else if 32 \<le> n \<and> n \<le> 126 then [c] else unicode_escape c)"
  by (simp add: json_special_def json_char_def)

definition json_string :: "string \<Rightarrow> string" where
  "json_string s = CHR 0x22 # concat (map json_char s) @ [CHR 0x22]"

text \<open>The same with \<open>ensure_ascii=False\<close>: only controls, quote and backslash are escaped.\<close>

definition raw_char :: "char \<Rightarrow> string" where
  "raw_char c = (if char_code c < 127 then json_char c else [c])"

definition raw_string :: "string \<Rightarrow> string" where
  "raw_string s = CHR 0x22 # concat (map raw_char s) @ [CHR 0x22]"

text \<open>The text of a value, with the printer \<open>js\<close> of its strings.\<close>

fun json_with :: "(string \<Rightarrow> string) \<Rightarrow> (rat \<Rightarrow> string) \<Rightarrow> pyv \<Rightarrow> string"
and json_list :: "(string \<Rightarrow> string) \<Rightarrow> (rat \<Rightarrow> string) \<Rightarrow> pyv list \<Rightarrow> string list"
and json_items :: "(string \<Rightarrow> string) \<Rightarrow> (rat \<Rightarrow> string) \<Rightarrow> dict \<Rightarrow> string list" where
  "json_with js fr VNone = ''null''"
| "json_with js fr (VBool b) = (if b then ''true'' else ''false'')"
| "json_with js fr (VInt i) = int_text i"
| "json_with js fr (VFloat r) = fr r"
| "json_with js fr (VStr s) = js s"
| "json_with js fr (VList xs) = ''['' @ join '','' (json_list js fr xs) @ '']''"
| "json_with js fr (VDict d) = ''{'' @ join '','' (json_items js fr d) @ ''}''"
| "json_list js fr [] = []"
| "json_list js fr (x # xs) = json_with js fr x # json_list js fr xs"
| "json_items js fr [] = []"
| "json_items js fr ((k, v) # d) = (js k @ '':'' @ json_with js fr v) # json_items js fr d"

definition json_text :: "(rat \<Rightarrow> string) \<Rightarrow> pyv \<Rightarrow> string" where
  "json_text fr v = json_with json_string fr (canon v)"

definition json_text_raw :: "(rat \<Rightarrow> string) \<Rightarrow> pyv \<Rightarrow> string" where
  "json_text_raw fr v = json_with raw_string fr (canon v)"

text \<open>With the default separators \<open>", "\<close> and \<open>": "\<close> and \<open>ensure_ascii=False\<close>.\<close>

fun json_spaced :: "(rat \<Rightarrow> string) \<Rightarrow> pyv \<Rightarrow> string"
and spaced_list :: "(rat \<Rightarrow> string) \<Rightarrow> pyv list \<Rightarrow> string list"
and spaced_items :: "(rat \<Rightarrow> string) \<Rightarrow> dict \<Rightarrow> string list" where
  "json_spaced fr (VList xs) = ''['' @ join '', '' (spaced_list fr xs) @ '']''"
| "json_spaced fr (VDict d) = ''{'' @ join '', '' (spaced_items fr d) @ ''}''"
| "json_spaced fr v = json_with raw_string fr v"
| "spaced_list fr [] = []"
| "spaced_list fr (x # xs) = json_spaced fr x # spaced_list fr xs"
| "spaced_items fr [] = []"
| "spaced_items fr ((k, v) # d) = (raw_string k @ '': '' @ json_spaced fr v) # spaced_items fr d"

lemma same_value_text: "same_value v w \<Longrightarrow> json_text fr v = json_text fr w"
  by (simp add: same_value_def json_text_def)

lemma same_value_refl [simp]: "same_value v v"
  by (simp add: same_value_def)

lemma canon_items_map: "canon_items d = map (\<lambda>(k, v). (k, canon v)) d"
  by (induction d) auto

end
