(* ===== verification/TierToken.thy ===== *)
theory TierToken
  imports Json FailFast
begin

text \<open>
  Offline verification of public-tier tokens (\<open>policy/tier_token.py\<close>). A token arrives as
  bytes: its size and the JSON value they decode to (\<^const>\<open>None\<close> when they do not decode, or
  when a key is repeated). Ed25519 verification is the parameter \<open>ed\<close> of key, signature
  and message; it accepts, rejects, or is not installed. Refusals are the fixed reasons of
  \<open>TokenRefused\<close>.
\<close>

section \<open>Raw tokens\<close>

record raw_token =
  rsize :: nat
  rvalue :: "pyv option"

definition parse_token :: "raw_token \<Rightarrow> string + dict" where
  "parse_token raw =
     (if \<not> (0 < rsize raw \<and> rsize raw \<le> 8192) then Inl ''token_size''
      else case rvalue raw of
             None \<Rightarrow> Inl ''token_encoding''
           | Some (VDict d) \<Rightarrow> Inr d
           | Some _ \<Rightarrow> Inl ''token_shape'')"

section \<open>Character classes and base64\<close>

definition char_in :: "nat \<Rightarrow> nat \<Rightarrow> char \<Rightarrow> bool" where
  "char_in a b c \<longleftrightarrow> a \<le> char_code c \<and> char_code c \<le> b"

definition alnum :: "char \<Rightarrow> bool" where
  "alnum c \<longleftrightarrow> char_in 65 90 c \<or> char_in 97 122 c \<or> char_in 48 57 c"

text \<open>\<open>_IDENTIFIER\<close>: an alphanumeric, then at most 127 of alphanumerics and \<open>. _ : @ / -\<close>.\<close>

definition ident_ok :: "string \<Rightarrow> bool" where
  "ident_ok s \<longleftrightarrow>
     (case s of [] \<Rightarrow> False
      | c # cs \<Rightarrow> alnum c \<and> length cs \<le> 127 \<and> list_all (\<lambda>c. alnum c \<or> c \<in> set ''._:@/-'') cs)"

definition lower_hex :: "nat \<Rightarrow> string \<Rightarrow> bool" where
  "lower_hex n s \<longleftrightarrow> length s = n \<and> list_all (\<lambda>c. char_in 48 57 c \<or> char_in 97 102 c) s"

definition b64_char :: "char \<Rightarrow> bool" where
  "b64_char c \<longleftrightarrow> alnum c \<or> c = CHR ''_'' \<or> c = CHR ''-''"

definition b64_val :: "char \<Rightarrow> nat" where
  "b64_val c =
     (let n = char_code c in
      if char_in 65 90 c then n - 65 else if char_in 97 122 c then n - 71
      else if char_in 48 57 c then n + 4 else if c = CHR ''-'' then 62 else 63)"

definition b64_digit :: "nat \<Rightarrow> char" where
  "b64_digit v =
     (if v < 26 then char_of (v + 65) else if v < 52 then char_of (v + 71)
      else if v < 62 then char_of (v - 4) else if v = 62 then CHR ''-'' else CHR ''_'')"

text \<open>Six-bit groups to bytes and back; a short last group carries one or two bytes.\<close>

fun b64_bytes :: "nat list \<Rightarrow> nat list" where
  "b64_bytes (a # b # c # d # rest) =
     (a * 4 + b div 16) # ((b mod 16) * 16 + c div 4) # ((c mod 4) * 64 + d) # b64_bytes rest"
| "b64_bytes [a, b, c] = [a * 4 + b div 16, (b mod 16) * 16 + c div 4]"
| "b64_bytes [a, b] = [a * 4 + b div 16]"
| "b64_bytes _ = []"

fun b64_groups :: "nat list \<Rightarrow> nat list" where
  "b64_groups (x # y # z # rest) =
     (x div 4) # ((x mod 4) * 16 + y div 16) # ((y mod 16) * 4 + z div 64) # (z mod 64) # b64_groups rest"
| "b64_groups [x, y] = [x div 4, (x mod 4) * 16 + y div 16, (y mod 16) * 4]"
| "b64_groups [x] = [x div 4, (x mod 4) * 16]"
| "b64_groups [] = []"

definition b64_decode :: "string \<Rightarrow> nat list" where
  "b64_decode s = b64_bytes (map b64_val s)"

definition b64_encode :: "nat list \<Rightarrow> string" where
  "b64_encode bs = map b64_digit (b64_groups bs)"

section \<open>Verification\<close>

datatype crypto = CryptoOk | CryptoBad | CryptoMissing

type_synonym ed25519 = "string \<Rightarrow> nat list \<Rightarrow> string \<Rightarrow> crypto"
type_synonym key_map = "string \<times> string \<Rightarrow> string option"

definition trusted_keys :: key_map where "trusted_keys = (\<lambda>_. None)"

definition token_schema :: string where "token_schema = ''agi-v8-public-tier-token/v1''"

definition claim_names :: "string list" where
  "claim_names = [''issuer'', ''key_id'', ''tier'', ''user_id'', ''repo_commit'', ''evidence_digest'',
     ''issued_at'', ''expiry'']"

record binding =
  b_issuer :: pyv
  b_user_id :: pyv
  b_repo_commit :: pyv
  b_evidence_digest :: pyv

definition bound_fields :: "binding \<Rightarrow> dict" where
  "bound_fields b = [(''issuer'', b_issuer b), (''user_id'', b_user_id b),
     (''repo_commit'', b_repo_commit b), (''evidence_digest'', b_evidence_digest b)]"

fun str_such :: "(string \<Rightarrow> bool) \<Rightarrow> pyv \<Rightarrow> bool" where
  "str_such p (VStr s) = p s" | "str_such p _ = False"

fun int_such :: "(int \<Rightarrow> bool) \<Rightarrow> pyv \<Rightarrow> bool" where
  "int_such p (VInt i) = p i" | "int_such p _ = False"

fun int_of :: "pyv \<Rightarrow> int" where
  "int_of (VInt i) = i" | "int_of _ = 0"

fun str_of :: "pyv \<Rightarrow> string" where
  "str_of (VStr s) = s" | "str_of _ = []"

fun dict_of :: "pyv \<Rightarrow> dict" where
  "dict_of (VDict d) = d" | "dict_of _ = []"

definition max_time :: int where "max_time = 253402300799"

definition claims_in_time :: "int \<Rightarrow> dict \<Rightarrow> string + unit" where
  "claims_in_time now c =
     (let t = int_of (dict_get c ''tier''); i = int_of (dict_get c ''issued_at'');
          x = int_of (dict_get c ''expiry'')
      in bindR (check (int_such (\<lambda>t. 3 \<le> t \<and> t \<le> 9) (dict_get c ''tier'')) ''claims_tier'') (\<lambda>_.
         bindR (check (int_such (\<lambda>i. 0 \<le> i \<and> i \<le> max_time) (dict_get c ''issued_at'') \<and>
                       int_such (\<lambda>i. 0 \<le> i \<and> i \<le> max_time) (dict_get c ''expiry'') \<and> 0 \<le> now)
                  ''claims_time'') (\<lambda>_.
         bindR (check (0 < x - i \<and> x - i \<le> (if t = 9 then 30 else 90) * 86400) ''claims_lifetime'') (\<lambda>_.
         check (i \<le> now \<and> now < x) ''token_expired_or_future''))))"

definition claims_well_formed :: "dict \<Rightarrow> string + unit" where
  "claims_well_formed c =
     bindR (check (dict_keys c = set claim_names) ''claims_shape'') (\<lambda>_.
     bindR (check (list_all (\<lambda>f. str_such ident_ok (dict_get c f)) [''issuer'', ''key_id'', ''user_id''])
              ''claims_identity'') (\<lambda>_.
     check (str_such (lower_hex 40) (dict_get c ''repo_commit'') \<and>
            str_such (lower_hex 64) (dict_get c ''evidence_digest'')) ''claims_digest''))"

definition identity_matches :: "binding \<Rightarrow> dict \<Rightarrow> string + unit" where
  "identity_matches b c =
     bindR (check (list_all (\<lambda>(f, v). str_such (\<lambda>s. s \<noteq> []) v) (bound_fields b))
              ''expected_identity_missing'') (\<lambda>_.
     check (list_all (\<lambda>(f, v). dict_get c f = v) (bound_fields b)) ''identity_mismatch'')"

definition signature_valid ::
  "ed25519 \<Rightarrow> (rat \<Rightarrow> string) \<Rightarrow> key_map \<Rightarrow> binding \<Rightarrow> dict \<Rightarrow> pyv \<Rightarrow> string + unit" where
  "signature_valid ed fr keys b c sig =
     (case keys (str_of (b_issuer b), str_of (dict_get c ''key_id'')) of
        None \<Rightarrow> Inl ''issuer_unarmed''
      | Some key \<Rightarrow>
          bindR (check (length key = 32) ''issuer_unarmed'') (\<lambda>_.
          bindR (check (str_such (\<lambda>s. length s = 86 \<and> list_all b64_char s) sig) ''signature_encoding'') (\<lambda>_.
          bindR (check (b64_encode (b64_decode (str_of sig)) = str_of sig) ''signature_encoding'') (\<lambda>_.
            case ed key (b64_decode (str_of sig)) (json_text fr (VDict c)) of
              CryptoOk \<Rightarrow> Inr ()
            | CryptoBad \<Rightarrow> Inl ''signature_invalid''
            | CryptoMissing \<Rightarrow> Inl ''verifier_unavailable''))))"

definition verify_token ::
  "ed25519 \<Rightarrow> (rat \<Rightarrow> string) \<Rightarrow> key_map \<Rightarrow> dict \<Rightarrow> binding \<Rightarrow> int \<Rightarrow> string + dict" where
  "verify_token ed fr keys tok b now =
     bindR (check (dict_keys tok = {''schema'', ''claims'', ''signature''}) ''token_shape'') (\<lambda>_.
     bindR (check (dict_get tok ''schema'' = VStr token_schema) ''token_schema'') (\<lambda>_.
     bindR (check (is_dict (dict_get tok ''claims'')) ''claims_shape'') (\<lambda>_.
       let c = dict_of (dict_get tok ''claims'')
       in bindR (claims_well_formed c) (\<lambda>_.
          bindR (claims_in_time now c) (\<lambda>_.
          bindR (identity_matches b c) (\<lambda>_.
          bindR (signature_valid ed fr keys b c (dict_get tok ''signature'')) (\<lambda>_. Inr c)))))))"

section \<open>Facts\<close>

definition tier_of :: "dict \<Rightarrow> int" where "tier_of c = int_of (dict_get c ''tier'')"
definition issued_of :: "dict \<Rightarrow> int" where "issued_of c = int_of (dict_get c ''issued_at'')"
definition expiry_of :: "dict \<Rightarrow> int" where "expiry_of c = int_of (dict_get c ''expiry'')"

lemmas claim_of_defs = tier_of_def issued_of_def expiry_of_def

lemma int_such_iff: "int_such p v \<longleftrightarrow> (\<exists>i. v = VInt i \<and> p i)"
  by (cases v) auto

lemma str_such_iff: "str_such p v \<longleftrightarrow> (\<exists>s. v = VStr s \<and> p s)"
  by (cases v) auto

lemma claims_in_time_Inr:
  "claims_in_time now c = Inr u \<longleftrightarrow>
     int_such (\<lambda>t. 3 \<le> t \<and> t \<le> 9) (dict_get c ''tier'') \<and>
     int_such (\<lambda>i. 0 \<le> i \<and> i \<le> max_time) (dict_get c ''issued_at'') \<and>
     int_such (\<lambda>i. 0 \<le> i \<and> i \<le> max_time) (dict_get c ''expiry'') \<and> 0 \<le> now \<and>
     issued_of c < expiry_of c \<and>
     expiry_of c - issued_of c \<le> (if tier_of c = 9 then 30 else 90) * 86400 \<and>
     issued_of c \<le> now \<and> now < expiry_of c"
  by (auto simp: claims_in_time_def Let_def claim_of_defs)

lemma verify_token_Inr:
  "verify_token ed fr keys tok b now = Inr c \<longleftrightarrow>
     dict_keys tok = {''schema'', ''claims'', ''signature''} \<and>
     dict_get tok ''schema'' = VStr token_schema \<and> dict_get tok ''claims'' = VDict c \<and>
     claims_well_formed c = Inr () \<and> claims_in_time now c = Inr () \<and> identity_matches b c = Inr () \<and>
     signature_valid ed fr keys b c (dict_get tok ''signature'') = Inr ()"
  unfolding verify_token_def Let_def bindR_eq_Inr check_eq_Inr
  by (cases "dict_get tok ''claims''") (simp_all, blast)

text \<open>
  What a consumer of tokens relies on: a verified token states a tier from 3 to 9, lies in
  its time window, and belongs to the caller's own identity.
\<close>

locale token_verifier =
  fixes verify :: "dict \<Rightarrow> binding \<Rightarrow> int \<Rightarrow> string + dict"
  assumes tier_range: "verify tok b now = Inr c \<Longrightarrow> 3 \<le> tier_of c \<and> tier_of c \<le> 9"
    and in_window: "verify tok b now = Inr c \<Longrightarrow> issued_of c \<le> now \<and> now < expiry_of c"
    and bound: "verify tok b now = Inr c \<Longrightarrow> dict_get c ''user_id'' = b_user_id b"
begin

definition admits :: "dict \<Rightarrow> binding \<Rightarrow> int \<Rightarrow> int \<Rightarrow> bool" where
  "admits tok b now t \<longleftrightarrow> (\<exists>c. verify tok b now = Inr c \<and> t \<le> tier_of c)"

lemma admits_mono: "admits tok b now t \<Longrightarrow> t' \<le> t \<Longrightarrow> admits tok b now t'"
  by (auto simp: admits_def)

lemma admits_bound: "admits tok b now t \<Longrightarrow> t \<le> 9"
  using tier_range by (force simp: admits_def)

lemma admits_until_expiry:
  "admits tok b now t \<Longrightarrow> \<exists>c. verify tok b now = Inr c \<and> now < expiry_of c \<and> dict_get c ''user_id'' = b_user_id b"
  using in_window bound by (auto simp: admits_def)

end

lemma verify_token_bound:
  "verify_token ed fr keys tok b now = Inr c \<Longrightarrow> dict_get c ''user_id'' = b_user_id b"
  unfolding verify_token_Inr identity_matches_def bound_fields_def by (elim conjE) simp

interpretation token: token_verifier "verify_token ed fr keys" for ed fr keys
proof unfold_locales
  fix tok b now c
  assume v: "verify_token ed fr keys tok b now = Inr c"
  then have t: "claims_in_time now c = Inr ()" by (simp only: verify_token_Inr)
  then obtain k where "dict_get c ''tier'' = VInt k" "3 \<le> k" "k \<le> 9"
    unfolding claims_in_time_Inr int_such_iff by blast
  then show "3 \<le> tier_of c \<and> tier_of c \<le> 9" by (simp add: tier_of_def)
  show "issued_of c \<le> now \<and> now < expiry_of c" using t unfolding claims_in_time_Inr by blast
  show "dict_get c ''user_id'' = b_user_id b" using v by (rule verify_token_bound)
qed

lemma untrusted_refused: "verify_token ed fr trusted_keys tok b now \<noteq> Inr c"
  by (simp add: verify_token_Inr signature_valid_def trusted_keys_def)

section \<open>Properties\<close>

text \<open>A verified token is exactly what it claims: verification returns the claims of the token,
  which state a tier from 3 to 9, lie within their window of at most 90 days (30 for tier 9),
  equal the caller's issuer, user, release and evidence digest, and are signed, in canonical
  form, by the 32-byte key the caller trusts for that issuer and key id.\<close>

theorem verified_token_sound:
  assumes "verify_token ed fr keys tok b now = Inr c"
  shows "dict_get tok ''claims'' = VDict c \<and> 3 \<le> tier_of c \<and> tier_of c \<le> 9 \<and>
    issued_of c \<le> now \<and> now < expiry_of c \<and>
    expiry_of c - issued_of c \<le> (if tier_of c = 9 then 30 else 90) * 86400 \<and>
    dict_get c ''issuer'' = b_issuer b \<and> dict_get c ''user_id'' = b_user_id b \<and>
    dict_get c ''repo_commit'' = b_repo_commit b \<and> dict_get c ''evidence_digest'' = b_evidence_digest b \<and>
    (\<exists>key. keys (str_of (dict_get c ''issuer''), str_of (dict_get c ''key_id'')) = Some key \<and>
       length key = 32 \<and>
       ed key (b64_decode (str_of (dict_get tok ''signature''))) (json_text fr (VDict c)) = CryptoOk)"
proof -
  from assms have v: "dict_get tok ''claims'' = VDict c" "claims_in_time now c = Inr ()"
    "identity_matches b c = Inr ()" "signature_valid ed fr keys b c (dict_get tok ''signature'') = Inr ()"
    by (simp_all add: verify_token_Inr)
  from v(3) have ids: "dict_get c ''issuer'' = b_issuer b" "dict_get c ''user_id'' = b_user_id b"
    "dict_get c ''repo_commit'' = b_repo_commit b" "dict_get c ''evidence_digest'' = b_evidence_digest b"
    by (simp_all add: identity_matches_def bound_fields_def)
  from v(4) have "\<exists>key. keys (str_of (b_issuer b), str_of (dict_get c ''key_id'')) = Some key \<and>
      length key = 32 \<and>
      ed key (b64_decode (str_of (dict_get tok ''signature''))) (json_text fr (VDict c)) = CryptoOk"
    by (auto simp: signature_valid_def split: option.splits crypto.splits)
  then show ?thesis
    using v(1,2) ids token.tier_range [OF assms] by (simp add: claims_in_time_Inr)
qed

definition sample_claims :: dict where
  "sample_claims = [(''issuer'', VStr ''iss''), (''key_id'', VStr ''k1''), (''tier'', VInt 4),
     (''user_id'', VStr ''u1''), (''repo_commit'', VStr (replicate 40 (CHR ''a''))),
     (''evidence_digest'', VStr (replicate 64 (CHR ''b''))), (''issued_at'', VInt 100),
     (''expiry'', VInt 1000)]"

definition sample_token :: dict where
  "sample_token = [(''schema'', VStr token_schema), (''claims'', VDict sample_claims),
     (''signature'', VStr (replicate 86 (CHR ''A'')))]"

definition sample_binding :: binding where
  "sample_binding = \<lparr>b_issuer = VStr ''iss'', b_user_id = VStr ''u1'',
     b_repo_commit = VStr (replicate 40 (CHR ''a'')), b_evidence_digest = VStr (replicate 64 (CHR ''b''))\<rparr>"

definition sample_key :: string where "sample_key = replicate 32 (CHR ''k'')"

definition one_key :: key_map where
  "one_key ik = (if ik = (''iss'', ''k1'') then Some sample_key else None)"

definition always_ok :: ed25519 where "always_ok key sig msg = CryptoOk"

definition no_floats :: "rat \<Rightarrow> string" where "no_floats r = []"

lemma sample_verifies:
  "verify_token always_ok no_floats one_key sample_token sample_binding 500 = Inr sample_claims"
proof -
  have "dict_keys sample_token = {''schema'', ''claims'', ''signature''}"
    "dict_get sample_token ''schema'' = VStr token_schema"
    "dict_get sample_token ''claims'' = VDict sample_claims"
    by (simp_all add: sample_token_def dict_keys_def dict_get_def insert_commute)
  moreover have "claims_well_formed sample_claims = Inr ()"
  proof -
    have "char_in 97 102 (CHR ''a'')" "char_in 97 102 (CHR ''b'')" "ident_ok ''iss''" "ident_ok ''k1''"
      "ident_ok ''u1''"
      by code_simp+
    then show ?thesis
      by (auto simp: claims_well_formed_def sample_claims_def dict_get_def dict_keys_def claim_names_def
          lower_hex_def list_all_iff)
  qed
  moreover have "claims_in_time 500 sample_claims = Inr ()" by code_simp
  moreover have "identity_matches sample_binding sample_claims = Inr ()" by code_simp
  moreover have "signature_valid always_ok no_floats one_key sample_binding sample_claims
      (dict_get sample_token ''signature'') = Inr ()"
  proof -
    have "b64_val (CHR ''A'') = 0" "b64_digit 0 = CHR ''A''" by code_simp+
    moreover have "b64_groups (b64_bytes (replicate 86 0)) = replicate 86 0" by code_simp
    ultimately have "b64_encode (b64_decode (replicate 86 (CHR ''A''))) = replicate 86 (CHR ''A'')"
      by (simp add: b64_encode_def b64_decode_def)
    moreover have "b64_char (CHR ''A'')" by code_simp
    ultimately show ?thesis
      by (simp add: signature_valid_def sample_token_def sample_binding_def sample_claims_def
          dict_get_def one_key_def sample_key_def always_ok_def list_all_iff)
  qed
  ultimately show ?thesis by (simp add: verify_token_Inr)
qed

theorem verified_token_sound_witness:
  "\<exists>key. one_key (''iss'', ''k1'') = Some key \<and> length key = 32 \<and>
     expiry_of sample_claims - issued_of sample_claims \<le> 90 * 86400"
  using verified_token_sound [OF sample_verifies] by (auto simp: sample_claims_def dict_get_def tier_of_def)

text \<open>The release trusts no key: with the shipped trust map every token is refused, whatever it
  contains and whoever asks.\<close>

theorem shipped_trust_map_refuses:
  "\<exists>reason. verify_token ed fr trusted_keys tok b now = Inl reason"
  using untrusted_refused by (cases "verify_token ed fr trusted_keys tok b now") auto

end
