(* ===== verification/TierGate.thy ===== *)
theory TierGate
  imports TierToken
begin

text \<open>
  Public-tier admission (\<open>policy/tier_gate.py\<close>): the local receipts of tiers 1 and 2, the
  import of signed tokens, and \<open>require_tier\<close>. The unlock directory is a map of names to
  entries as \<open>fstat\<close> sees them; the writers create it, the check may find that it does not
  open. SHA-256 over the
  canonical JSON text is the parameter \<open>sha\<close>; \<open>cur\<close> is the parsed curriculum file.
  \<open>TierRefused\<close> carries the tier and a fixed reason.
\<close>

section \<open>The unlock directory\<close>

datatype ukind = URegular | ULink | UOther

record uentry =
  u_kind :: ukind
  u_owned :: bool
  u_mode :: nat
  u_nlink :: nat
  u_size :: nat
  u_value :: "pyv option"

type_synonym udir = "string \<Rightarrow> uentry option"

text \<open>\<open>_read_at\<close>: a private regular file with one link, within the limit.\<close>

definition read_at :: "udir \<Rightarrow> string \<Rightarrow> nat \<Rightarrow> uentry result" where
  "read_at dir name limit =
     (case dir name of
        None \<Rightarrow> Inl (FileNotFound name)
      | Some f \<Rightarrow>
          if u_kind f = ULink then Inl (OSError ''Too many levels of symbolic links'')
          else if u_kind f \<noteq> URegular \<or> \<not> u_owned f \<or> u_mode f \<noteq> 384 \<or> u_nlink f \<noteq> 1 \<or> limit < u_size f
          then Inl (ValueError ''unlock file type or permissions'')
          else Inr f)"

definition read_json_at :: "udir \<Rightarrow> string \<Rightarrow> nat \<Rightarrow> pyv result" where
  "read_json_at dir name limit =
     bindR (read_at dir name limit) (\<lambda>f.
       case u_value f of Some v \<Rightarrow> Inr v | None \<Rightarrow> Inl (ValueError ''json''))"

text \<open>\<open>_write_at\<close>: refuses an unsafe existing entry; \<open>io\<close> tells whether the write goes through.\<close>

definition write_at :: "(rat \<Rightarrow> string) \<Rightarrow> bool \<Rightarrow> udir \<Rightarrow> string \<Rightarrow> pyv \<Rightarrow> udir \<times> unit result" where
  "write_at fr io dir name v =
     (if \<not> io then (dir, Inl (OSError ''short write''))
      else if (case dir name of None \<Rightarrow> False
               | Some f \<Rightarrow> u_kind f \<noteq> URegular \<or> u_nlink f \<noteq> 1 \<or> \<not> u_owned f)
      then (dir, Inl (ValueError ''unsafe existing unlock file''))
      else (dir(name \<mapsto> \<lparr>u_kind = URegular, u_owned = True, u_mode = 384, u_nlink = 1,
                         u_size = length (json_text fr v), u_value = Some v\<rparr>), Inr ()))"

section \<open>Cycle evidence\<close>

definition evidence_limit :: nat where "evidence_limit = 1048576"
definition evidence_schema :: string where "evidence_schema = ''agi-v8-public-local-evidence/v1''"
definition local_schema :: string where "local_schema = ''agi-v8-public-local-tier/v1''"

datatype eline = EBlank | EJson pyv | EBad

definition cycle_statuses :: "string list" where
  "cycle_statuses = [''advisory_stub'', ''consensus'', ''split'', ''blocked'']"

definition cycle_id_ok :: "string \<Rightarrow> bool" where
  "cycle_id_ok s \<longleftrightarrow>
     (case s of [] \<Rightarrow> False
      | c # cs \<Rightarrow> alnum c \<and> length cs \<le> 127 \<and> list_all (\<lambda>c. alnum c \<or> c \<in> set ''_.:-'') cs)"

definition cycle_row :: "dict \<Rightarrow> (string \<times> string) result" where
  "cycle_row row =
     (let cid = dict_get row ''cycle_id''; payload = dict_get row ''payload''
      in if str_such cycle_id_ok cid \<and> is_dict payload \<and>
            str_such (\<lambda>s. s \<in> set cycle_statuses) (dict_get (dict_of payload) ''status'')
         then Inr (str_of cid, str_of (dict_get (dict_of payload) ''status''))
         else Inl (ValueError ''cycle evidence''))"

fun fold_cycles :: "eline list \<Rightarrow> (string \<times> string) list \<Rightarrow> (string \<times> string) list result" where
  "fold_cycles [] acc = Inr acc"
| "fold_cycles (EBlank # ls) acc = fold_cycles ls acc"
| "fold_cycles (EBad # ls) acc = Inl (ValueError ''json'')"
| "fold_cycles (EJson v # ls) acc =
     (if \<not> (is_dict v \<and> is_str (dict_get (dict_of v) ''event_type'')) then Inl (ValueError ''evidence row'')
      else if dict_get (dict_of v) ''event_type'' \<noteq> VStr ''cycle_end'' then fold_cycles ls acc
      else bindR (cycle_row (dict_of v)) (\<lambda>(cid, st).
        case map_of acc cid of
          Some st' \<Rightarrow> if st' = st then fold_cycles ls acc
                     else Inl (ValueError ''contradictory cycle evidence'')
        | None \<Rightarrow> fold_cycles ls (acc @ [(cid, st)])))"

definition evidence_doc :: "(string \<times> string) list \<Rightarrow> pyv" where
  "evidence_doc cycles =
     VDict [(''schema'', VStr evidence_schema),
       (''cycles'', VList (map (\<lambda>(c, s). VDict [(''cycle_id'', VStr c), (''status'', VStr s)])
                    (sort_key fst cycles)))]"

text \<open>\<open>normalize_cycle_evidence\<close> on a file of the given size and lines.\<close>

definition normalize_cycle_evidence :: "nat \<Rightarrow> eline list \<Rightarrow> pyv result" where
  "normalize_cycle_evidence n lines =
     (if n = 0 \<or> evidence_limit < n then Inl (ValueError ''evidence size'')
      else bindR (fold_cycles lines []) (\<lambda>cycles.
        if cycles = [] then Inl (ValueError ''empty cycle evidence'') else Inr (evidence_doc cycles)))"

definition row_event :: "dict \<Rightarrow> pyv" where
  "row_event d = VDict [(''event_type'', VStr ''cycle_end''), (''cycle_id'', dict_get d ''cycle_id''),
     (''payload'', VDict [(''status'', dict_get d ''status'')])]"

definition rows_ok :: "pyv list \<Rightarrow> bool" where
  "rows_ok rows \<longleftrightarrow>
     list_all (\<lambda>r. is_dict r \<and> dict_keys (dict_of r) = {''cycle_id'', ''status''}) rows"

definition raw_size :: "(rat \<Rightarrow> string) \<Rightarrow> pyv list \<Rightarrow> nat" where
  "raw_size fr events = sum_list (map (\<lambda>v. length (json_text fr v)) events) + (length events - 1)"

fun list_of :: "pyv \<Rightarrow> pyv list" where
  "list_of (VList xs) = xs" | "list_of _ = []"

fun is_list :: "pyv \<Rightarrow> bool" where
  "is_list (VList _) = True" | "is_list _ = False"

definition check_evidence :: "(rat \<Rightarrow> string) \<Rightarrow> pyv \<Rightarrow> int \<Rightarrow> unit result" where
  "check_evidence fr data minimum =
     (if \<not> (is_dict data \<and> dict_keys (dict_of data) = {''schema'', ''cycles''} \<and>
            dict_get (dict_of data) ''schema'' = VStr evidence_schema)
      then Inl (ValueError ''evidence schema'')
      else
        (let rows = list_of (dict_get (dict_of data) ''cycles'')
         in if \<not> is_list (dict_get (dict_of data) ''cycles'') \<or> 10000 < length rows
            then Inl (ValueError ''evidence rows'')
            else if \<not> rows_ok rows then Inl (ValueError ''evidence row shape'')
            else
              (let events = map (row_event \<circ> dict_of) rows
               in bindR (normalize_cycle_evidence (raw_size fr events) (map EJson events)) (\<lambda>checked.
                    check (same_value checked data \<and>
                           minimum \<le> int (length (list_of (dict_get (dict_of checked) ''cycles''))))
                      (ValueError ''insufficient or noncanonical evidence'')))))"

section \<open>Curriculum and receipts\<close>

record curriculum =
  ack1 :: string
  ack2 :: string
  min_cycles :: int

definition local_curriculum :: "pyv option \<Rightarrow> curriculum result" where
  "local_curriculum raw =
     (case raw of
        Some (VDict d) \<Rightarrow>
          (let t1 = dict_get d ''T1''; t2 = dict_get d ''T2'';
               a1 = dict_get (dict_of t1) ''ack''; a2 = dict_get (dict_of t2) ''ack'';
               n = dict_get (dict_of t2) ''minimum_distinct_cycles''
           in if dict_keys d = {''schema'', ''T1'', ''T2''} \<and>
                 dict_get d ''schema'' = VStr ''agi-v8-public-local-curriculum/v1'' \<and>
                 is_dict t1 \<and> is_dict t2 \<and> str_such (\<lambda>s. s \<noteq> []) a1 \<and> str_such (\<lambda>s. s \<noteq> []) a2 \<and>
                 n = VInt 2
              then Inr \<lparr>ack1 = str_of a1, ack2 = str_of a2, min_cycles = int_of n\<rparr>
              else Inl (ValueError ''curriculum schema''))
      | _ \<Rightarrow> Inl (ValueError ''curriculum schema''))"

definition digest_of :: "(string \<Rightarrow> string) \<Rightarrow> (rat \<Rightarrow> string) \<Rightarrow> pyv \<Rightarrow> string" where
  "digest_of sha fr v = sha (json_text fr v)"

definition acks_for :: "(string \<Rightarrow> string) \<Rightarrow> (rat \<Rightarrow> string) \<Rightarrow> curriculum \<Rightarrow> int \<Rightarrow> pyv" where
  "acks_for sha fr cur tier =
     VDict ((''1'', VStr (digest_of sha fr (VStr (ack1 cur)))) #
            (if tier = 2 then [(''2'', VStr (digest_of sha fr (VStr (ack2 cur))))] else []))"

definition receipt_fields :: "string set" where
  "receipt_fields = {''schema'', ''tier'', ''evidence_digest'', ''ts'', ''acks''}"

definition evidence_name :: "string \<Rightarrow> string" where
  "evidence_name d = ''evidence-'' @ d @ ''.json''"

text \<open>\<open>_local_tier\<close>: only the receipt itself may be missing quietly.\<close>

definition local_tier ::
  "(string \<Rightarrow> string) \<Rightarrow> (rat \<Rightarrow> string) \<Rightarrow> udir \<Rightarrow> curriculum \<Rightarrow> int result" where
  "local_tier sha fr dir cur =
     bindR (read_json_at dir ''tier.json'' 8192) (\<lambda>v.
       let r = dict_of v; t = int_of (dict_get r ''tier''); dg = str_of (dict_get r ''evidence_digest'')
       in bindR (check (is_dict v \<and> dict_keys r = receipt_fields \<and>
                     dict_get r ''schema'' = VStr local_schema \<and>
                     int_such (\<lambda>t. t = 1 \<or> t = 2) (dict_get r ''tier'') \<and>
                     int_such (\<lambda>t. 0 \<le> t) (dict_get r ''ts'') \<and> is_dict (dict_get r ''acks''))
                   (ValueError ''local receipt schema'')) (\<lambda>_.
          bindR (check (same_value (dict_get r ''acks'') (acks_for sha fr cur t))
                   (ValueError ''local acknowledgement drift'')) (\<lambda>_.
          bindR (check (str_such (lower_hex 64) (dict_get r ''evidence_digest''))
                   (ValueError ''local evidence digest shape'')) (\<lambda>_.
          bindR (if t = 2
                 then (case read_json_at dir (evidence_name dg) evidence_limit of
                         Inl (FileNotFound _) \<Rightarrow> Inl (ValueError ''existing tier evidence missing'')
                       | res \<Rightarrow> res)
                 else Inr (VDict [(''acks'', acks_for sha fr cur t)])) (\<lambda>evidence.
          bindR (if t = 2 then check_evidence fr evidence (min_cycles cur) else Inr ()) (\<lambda>_.
          bindR (check (digest_of sha fr evidence = dg) (ValueError ''local evidence digest drift'')) (\<lambda>_.
            Inr t)))))))"

section \<open>Granting a local tier\<close>

record tier_context =
  repo_commit :: string
  user_id :: string
  issuer :: string
  evidence_digest :: string
  now_at :: "int option"
  t9_facts :: "(string \<Rightarrow> bool option) option"

type_synonym refusal = "int \<times> string"

definition refused_as :: "int \<Rightarrow> string \<Rightarrow> exn + 'a \<Rightarrow> refusal + 'a" where
  "refused_as tier reason r = (case r of Inl _ \<Rightarrow> Inl (tier, reason) | Inr a \<Rightarrow> Inr a)"

definition receipt :: "int \<Rightarrow> string \<Rightarrow> int \<Rightarrow> pyv \<Rightarrow> pyv" where
  "receipt tier dg ts acks = VDict [(''schema'', VStr local_schema), (''tier'', VInt tier),
     (''evidence_digest'', VStr dg), (''ts'', VInt ts), (''acks'', acks)]"

text \<open>
  What \<open>grant_local\<close> decides before it writes: the normalized evidence (tier 2 only). The
  directory check of the previous tier comes last, as in the source.
\<close>

definition grant_checks ::
  "(string \<Rightarrow> string) \<Rightarrow> (rat \<Rightarrow> string) \<Rightarrow> pyv option \<Rightarrow> int \<Rightarrow> tier_context \<Rightarrow> string
    \<Rightarrow> (nat \<times> eline list) option \<Rightarrow> udir \<Rightarrow> (curriculum \<times> pyv option) result" where
  "grant_checks sha fr raw_cur tier ctx ack evidence dir =
     bindR (check (case now_at ctx of Some t \<Rightarrow> 0 \<le> t | None \<Rightarrow> True) (ValueError ''invalid local time'')) (\<lambda>_.
     bindR (local_curriculum raw_cur) (\<lambda>cur.
     bindR (check (ack = (if tier = 1 then ack1 cur else ack2 cur)) (ValueError ''ack mismatch'')) (\<lambda>_.
     bindR (if tier = 2
            then (case evidence of
                    None \<Rightarrow> Inl (ValueError ''evidence size'')
                  | Some (n, ls) \<Rightarrow>
                      bindR (normalize_cycle_evidence n ls) (\<lambda>doc.
                      bindR (check_evidence fr doc (min_cycles cur)) (\<lambda>_. Inr (Some doc))))
            else Inr None) (\<lambda>normalized.
     bindR (case local_tier sha fr dir cur of Inl (FileNotFound _) \<Rightarrow> Inr 0 | res \<Rightarrow> res) (\<lambda>previous.
     bindR (check (\<not> (tier = 2 \<and> previous < 1 \<or> tier < previous)) (ValueError ''local transition refused'')) (\<lambda>_.
       Inr (cur, normalized)))))))"

text \<open>\<open>io1\<close> and \<open>io2\<close> tell whether the evidence write and the receipt write go through.\<close>

definition grant_local ::
  "(string \<Rightarrow> string) \<Rightarrow> (rat \<Rightarrow> string) \<Rightarrow> pyv option \<Rightarrow> bool \<Rightarrow> bool \<Rightarrow> int \<Rightarrow> int \<Rightarrow> tier_context \<Rightarrow> string
    \<Rightarrow> (nat \<times> eline list) option \<Rightarrow> udir \<Rightarrow> udir \<times> (refusal + unit)" where
  "grant_local sha fr raw_cur io1 io2 clock tier ctx ack evidence dir =
     (if tier \<noteq> 1 \<and> tier \<noteq> 2 then (dir, Inl (2, ''local_tier_only''))
      else case grant_checks sha fr raw_cur tier ctx ack evidence dir of
        Inl _ \<Rightarrow> (dir, Inl (tier, ''local_grant_refused''))
      | Inr (cur, normalized) \<Rightarrow>
          (let acks = acks_for sha fr cur tier;
               doc = (case normalized of Some d \<Rightarrow> d | None \<Rightarrow> VDict [(''acks'', acks)]);
               dg = digest_of sha fr doc;
               (dir1, r1) = (case normalized of
                   Some d \<Rightarrow> write_at fr io1 dir (evidence_name dg) d
                 | None \<Rightarrow> (dir, Inr ()))
           in case r1 of
                Inl _ \<Rightarrow> (dir1, Inl (tier, ''local_grant_refused''))
              | Inr _ \<Rightarrow>
                  (let (dir2, r2) = write_at fr io2 dir1 ''tier.json''
                         (receipt tier dg (case now_at ctx of Some t \<Rightarrow> t | None \<Rightarrow> clock) acks)
                   in (dir2, refused_as tier ''local_grant_refused'' r2))))"

section \<open>Requiring a tier\<close>

definition tier_gate_enabled :: "env \<Rightarrow> bool" where
  "tier_gate_enabled e \<longleftrightarrow> gate_lower_true e ''AGI_V8_PUBLIC_TIER_GATE_ENABLED''"

definition t9_names :: "string list" where
  "t9_names = [''killswitch_owner'', ''external_killswitch_owner'', ''cost_cap'', ''jail_integrity'',
     ''promote_history'']"

definition binding_of :: "tier_context \<Rightarrow> binding" where
  "binding_of ctx = \<lparr>b_issuer = VStr (issuer ctx), b_user_id = VStr (user_id ctx),
     b_repo_commit = VStr (repo_commit ctx), b_evidence_digest = VStr (evidence_digest ctx)\<rparr>"

definition default_context :: tier_context where
  "default_context = \<lparr>repo_commit = [], user_id = [], issuer = [], evidence_digest = [],
     now_at = None, t9_facts = None\<rparr>"

definition pick_context :: "tier_context option \<Rightarrow> tier_context option \<Rightarrow> tier_context" where
  "pick_context explicit active_ctx =
     (case explicit of Some c \<Rightarrow> c
      | None \<Rightarrow> (case active_ctx of Some c \<Rightarrow> c | None \<Rightarrow> default_context))"

definition moment :: "tier_context \<Rightarrow> int \<Rightarrow> int" where
  "moment ctx clock = (case now_at ctx of Some t \<Rightarrow> t | None \<Rightarrow> clock)"

definition read_token :: "udir \<Rightarrow> dict result" where
  "read_token dir =
     bindR (read_at dir ''token.json'' 8192) (\<lambda>f.
       case parse_token \<lparr>rsize = u_size f, rvalue = u_value f\<rparr> of
         Inl rsn \<Rightarrow> Inl (ValueError rsn)
       | Inr d \<Rightarrow> Inr d)"

definition token_refusal_text :: "string \<Rightarrow> string" where
  "token_refusal_text rsn = ''TokenRefused: public_tier_token_refused:'' @ rsn"

definition require_local ::
  "(string \<Rightarrow> string) \<Rightarrow> (rat \<Rightarrow> string) \<Rightarrow> env \<Rightarrow> pyv option \<Rightarrow> int \<Rightarrow> tier_context \<Rightarrow> udir result
    \<Rightarrow> refusal + unit" where
  "require_local sha fr e raw_cur tier ctx opened_dir =
     (if lower_hex 40 (repo_commit ctx) \<and> getenv e ''AGI_V8_I_HAVE_READ_THE_SOURCE'' [] = repo_commit ctx
      then Inr ()
      else bindR (refused_as tier ''state_or_evidence_invalid''
             (bindR opened_dir (\<lambda>dir. bindR (local_curriculum raw_cur) (local_tier sha fr dir)))) (\<lambda>have.
           check (tier \<le> have) (tier, ''local_tier_insufficient'')))"

definition require_signed ::
  "ed25519 \<Rightarrow> (rat \<Rightarrow> string) \<Rightarrow> key_map \<Rightarrow> int \<Rightarrow> int \<Rightarrow> tier_context \<Rightarrow> udir result \<Rightarrow> refusal + unit" where
  "require_signed ed fr keys clock tier ctx opened_dir =
     bindR (refused_as tier ''state_or_evidence_invalid'' (bindR opened_dir read_token)) (\<lambda>tok.
     bindR (case verify_token ed fr keys tok (binding_of ctx) (moment ctx clock) of
              Inl rsn \<Rightarrow> Inl (tier, token_refusal_text rsn)
            | Inr c \<Rightarrow> Inr c) (\<lambda>c.
     bindR (check (tier \<le> tier_of c) (tier, ''signed_tier_insufficient'')) (\<lambda>_.
     check (tier = 9 \<longrightarrow> (case t9_facts ctx of None \<Rightarrow> False
                         | Some f \<Rightarrow> list_all (\<lambda>k. f k = Some True) t9_names))
       (9, ''runtime_prerequisites_missing''))))"

definition require_tier ::
  "(string \<Rightarrow> string) \<Rightarrow> ed25519 \<Rightarrow> (rat \<Rightarrow> string) \<Rightarrow> key_map \<Rightarrow> env \<Rightarrow> pyv option \<Rightarrow> int \<Rightarrow> int
    \<Rightarrow> tier_context option \<Rightarrow> tier_context option \<Rightarrow> udir result \<Rightarrow> refusal + unit" where
  "require_tier sha ed fr keys e raw_cur clock tier explicit active_ctx opened_dir =
     (if \<not> tier_gate_enabled e then Inr ()
      else if \<not> (0 \<le> tier \<and> tier \<le> 9) then Inl (9, ''invalid_required_tier'')
      else if tier = 0 then Inr ()
      else if tier \<le> 2
      then require_local sha fr e raw_cur tier (pick_context explicit active_ctx) opened_dir
      else require_signed ed fr keys clock tier (pick_context explicit active_ctx) opened_dir)"

section \<open>Importing a token\<close>

text \<open>
  The tier an older token proves: at the present time, or just before its expiry when it has
  expired; its own release and evidence digest authenticate it.
\<close>

definition prior_claims ::
  "ed25519 \<Rightarrow> (rat \<Rightarrow> string) \<Rightarrow> key_map \<Rightarrow> tier_context \<Rightarrow> int \<Rightarrow> dict \<Rightarrow> dict result" where
  "prior_claims ed fr keys ctx now old =
     (let cv = dict_get old ''claims''; c = dict_of cv;
          i = dict_get c ''issued_at''; x = dict_get c ''expiry'';
          t = (if is_int i \<and> is_int x \<and> 0 \<le> int_of i \<and> int_of i < int_of x \<and> int_of x \<le> now
               then int_of x - 1 else now)
      in if \<not> is_dict cv then Inl (ValueError ''prior token shape'')
         else case verify_token ed fr keys old
                \<lparr>b_issuer = VStr (issuer ctx), b_user_id = VStr (user_id ctx),
                 b_repo_commit = dict_get c ''repo_commit'',
                 b_evidence_digest = dict_get c ''evidence_digest''\<rparr> t of
                Inl rsn \<Rightarrow> Inl (ValueError rsn)
              | Inr pc \<Rightarrow> Inr pc)"

definition import_token ::
  "ed25519 \<Rightarrow> (rat \<Rightarrow> string) \<Rightarrow> key_map \<Rightarrow> bool \<Rightarrow> int \<Rightarrow> raw_token \<Rightarrow> tier_context \<Rightarrow> udir
    \<Rightarrow> udir \<times> (refusal + unit)" where
  "import_token ed fr keys io clock raw ctx dir =
     (case (case parse_token raw of Inl rsn \<Rightarrow> Inl (ValueError rsn) | Inr tok \<Rightarrow>
              (case verify_token ed fr keys tok (binding_of ctx) (moment ctx clock) of
                 Inl rsn \<Rightarrow> Inl (ValueError rsn)
               | Inr incoming \<Rightarrow>
                   bindR (case read_at dir ''token.json'' 8192 of
                            Inl (FileNotFound _) \<Rightarrow> Inr ()
                          | Inl x \<Rightarrow> Inl x
                          | Inr f \<Rightarrow>
                              bindR (read_token dir) (\<lambda>old.
                              bindR (prior_claims ed fr keys ctx (moment ctx clock) old) (\<lambda>prior.
                                check (tier_of prior \<le> tier_of incoming)
                                  (ValueError ''acquired tier cannot regress''))))
                     (\<lambda>_. Inr tok))) of
        Inl _ \<Rightarrow> (dir, Inl (3, ''token_import_refused''))
      | Inr tok \<Rightarrow>
          (let (dir', r) = write_at fr io dir ''token.json'' (VDict tok)
           in (dir', refused_as 3 ''token_import_refused'' r)))"

section \<open>Facts about the directory\<close>

lemma write_at_Inr:
  "write_at fr io dir name v = (dir', Inr u) \<Longrightarrow>
     dir' = dir(name \<mapsto> \<lparr>u_kind = URegular, u_owned = True, u_mode = 384, u_nlink = 1,
                       u_size = length (json_text fr v), u_value = Some v\<rparr>)"
  by (auto simp: write_at_def split: if_splits)

lemma write_at_Inl: "write_at fr io dir name v = (dir', Inl x) \<Longrightarrow> dir' = dir"
  by (auto simp: write_at_def split: if_splits)

lemma read_written:
  assumes "write_at fr io dir name v = (dir', Inr u)" "length (json_text fr v) \<le> limit"
  shows "read_json_at dir' name limit = Inr v"
  using assms(2) by (simp add: write_at_Inr [OF assms(1)] read_json_at_def read_at_def)

lemma read_other:
  "q \<noteq> name \<Longrightarrow> read_json_at (dir(name := f)) q limit = read_json_at dir q limit"
  by (simp add: read_json_at_def read_at_def)

lemma receipt_name_fresh: "''tier.json'' \<noteq> evidence_name d" "evidence_name d \<noteq> ''tier.json''"
  by (simp_all add: evidence_name_def)

lemma evidence_name_inj [simp]: "evidence_name d = evidence_name d' \<longleftrightarrow> d = d'"
  by (simp add: evidence_name_def)

section \<open>Facts about receipts\<close>

lemma receipt_fields_ok:
  "dict_keys [(''schema'', a), (''tier'', b), (''evidence_digest'', c), (''ts'', d), (''acks'', f)] = receipt_fields"
  by (auto simp: dict_keys_def receipt_fields_def)

lemma receipt_get:
  "dict_get (dict_of (receipt t dg ts acks)) ''schema'' = VStr local_schema"
  "dict_get (dict_of (receipt t dg ts acks)) ''tier'' = VInt t"
  "dict_get (dict_of (receipt t dg ts acks)) ''evidence_digest'' = VStr dg"
  "dict_get (dict_of (receipt t dg ts acks)) ''ts'' = VInt ts"
  "dict_get (dict_of (receipt t dg ts acks)) ''acks'' = acks"
  "is_dict (receipt t dg ts acks)" "dict_keys (dict_of (receipt t dg ts acks)) = receipt_fields"
  by (simp_all add: receipt_def dict_get_def receipt_fields_ok)

lemma acks_dict: "is_dict (acks_for sha fr cur t)"
  by (simp add: acks_for_def)

text \<open>The evidence document a receipt of a tier refers to, and when it holds up.\<close>

definition evidence_ok ::
  "(string \<Rightarrow> string) \<Rightarrow> (rat \<Rightarrow> string) \<Rightarrow> udir \<Rightarrow> curriculum \<Rightarrow> int \<Rightarrow> string \<Rightarrow> bool" where
  "evidence_ok sha fr dir cur t dg \<longleftrightarrow>
     (if t = 2
      then \<exists>doc. read_json_at dir (evidence_name dg) evidence_limit = Inr doc \<and>
             check_evidence fr doc (min_cycles cur) = Inr () \<and> digest_of sha fr doc = dg
      else digest_of sha fr (VDict [(''acks'', acks_for sha fr cur t)]) = dg)"

lemma local_tier_Inr:
  "local_tier sha fr dir cur = Inr t \<longleftrightarrow>
     (\<exists>v. read_json_at dir ''tier.json'' 8192 = Inr v \<and> is_dict v \<and> dict_keys (dict_of v) = receipt_fields \<and>
        dict_get (dict_of v) ''schema'' = VStr local_schema \<and>
        dict_get (dict_of v) ''tier'' = VInt t \<and> (t = 1 \<or> t = 2) \<and>
        int_such (\<lambda>t. 0 \<le> t) (dict_get (dict_of v) ''ts'') \<and> is_dict (dict_get (dict_of v) ''acks'') \<and>
        same_value (dict_get (dict_of v) ''acks'') (acks_for sha fr cur t) \<and>
        str_such (lower_hex 64) (dict_get (dict_of v) ''evidence_digest'') \<and>
        evidence_ok sha fr dir cur t (str_of (dict_get (dict_of v) ''evidence_digest'')))"
  (is "?l \<longleftrightarrow> (\<exists>v. ?r v)")
proof
  assume ?l
  then obtain v where v: "read_json_at dir ''tier.json'' 8192 = Inr v" by (auto simp: local_tier_def)
  with \<open>?l\<close> obtain k where k: "dict_get (dict_of v) ''tier'' = VInt k" "k = 1 \<or> k = 2"
    by (auto simp: local_tier_def Let_def int_such_iff)
  show "\<exists>v. ?r v"
    using \<open>?l\<close> v k
    by (intro exI [of _ v])
      (auto simp: local_tier_def Let_def evidence_ok_def split: sum.splits exn.splits)
next
  assume "\<exists>v. ?r v"
  then obtain v where "?r v" ..
  then show ?l by (auto simp: local_tier_def Let_def evidence_ok_def)
qed

text \<open>A written receipt proves its tier when the digests are hexadecimal and the text fits.\<close>

definition sha_hex :: "(string \<Rightarrow> string) \<Rightarrow> bool" where
  "sha_hex sha \<longleftrightarrow> (\<forall>s. lower_hex 64 (sha s))"

lemma receipt_proves:
  assumes "write_at fr io dir ''tier.json'' (receipt t dg ts (acks_for sha fr cur t)) = (dir', Inr u)"
    and "length (json_text fr (receipt t dg ts (acks_for sha fr cur t))) \<le> 8192"
    and "t = 1 \<or> t = 2" "0 \<le> ts" "lower_hex 64 dg" "evidence_ok sha fr dir' cur t dg"
  shows "local_tier sha fr dir' cur = Inr t"
  using read_written [OF assms(1,2)] assms(3-)
  by (subst local_tier_Inr) (simp add: receipt_get acks_dict)

text \<open>The document a grant refers to, and the demand that its texts stay within the read limits.\<close>

definition grant_doc ::
  "(string \<Rightarrow> string) \<Rightarrow> (rat \<Rightarrow> string) \<Rightarrow> curriculum \<Rightarrow> int \<Rightarrow> (nat \<times> eline list) option \<Rightarrow> pyv" where
  "grant_doc sha fr cur t evidence =
     (case (if t = 2 then evidence else None) of
        Some (n, ls) \<Rightarrow> (case normalize_cycle_evidence n ls of Inr d \<Rightarrow> d | Inl _ \<Rightarrow> VNone)
      | None \<Rightarrow> VDict [(''acks'', acks_for sha fr cur t)])"

definition grant_digest ::
  "(string \<Rightarrow> string) \<Rightarrow> (rat \<Rightarrow> string) \<Rightarrow> curriculum \<Rightarrow> int \<Rightarrow> (nat \<times> eline list) option \<Rightarrow> string" where
  "grant_digest sha fr cur t evidence = digest_of sha fr (grant_doc sha fr cur t evidence)"

definition texts_fit ::
  "(string \<Rightarrow> string) \<Rightarrow> (rat \<Rightarrow> string) \<Rightarrow> curriculum \<Rightarrow> int \<Rightarrow> int \<Rightarrow> (nat \<times> eline list) option \<Rightarrow> bool" where
  "texts_fit sha fr cur t ts evidence \<longleftrightarrow>
     length (json_text fr (grant_doc sha fr cur t evidence)) \<le> evidence_limit \<and>
     length (json_text fr (receipt t (grant_digest sha fr cur t evidence) ts (acks_for sha fr cur t))) \<le> 8192"

text \<open>What a successful check phase says.\<close>

lemma grant_checks_Inr:
  assumes "grant_checks sha fr raw_cur t ctx ack evidence dir = Inr (cur, nz)" "t = 1 \<or> t = 2"
  shows "local_curriculum raw_cur = Inr cur" "(case now_at ctx of Some n \<Rightarrow> 0 \<le> n | None \<Rightarrow> True)"
    "t = 1 \<Longrightarrow> nz = None"
    "t = 2 \<Longrightarrow> \<exists>doc. nz = Some doc \<and> check_evidence fr doc (min_cycles cur) = Inr () \<and> grant_doc sha fr cur t evidence = doc"
    "(\<exists>n. local_tier sha fr dir cur = Inl (FileNotFound n)) \<and> t = 1 \<or>
     (\<exists>p. local_tier sha fr dir cur = Inr p \<and> p \<le> t)"
proof -
  from assms(1) obtain previous where st: "(case now_at ctx of Some n \<Rightarrow> 0 \<le> n | None \<Rightarrow> True)"
    "local_curriculum raw_cur = Inr cur"
    "(if t = 2
      then (case evidence of
              None \<Rightarrow> Inl (ValueError ''evidence size'')
            | Some (n, ls) \<Rightarrow>
                bindR (normalize_cycle_evidence n ls) (\<lambda>doc.
                bindR (check_evidence fr doc (min_cycles cur)) (\<lambda>_. Inr (Some doc))))
      else Inr None) = Inr nz"
    "(case local_tier sha fr dir cur of Inl (FileNotFound _) \<Rightarrow> Inr 0 | res \<Rightarrow> res) = Inr previous"
    "\<not> (t = 2 \<and> previous < 1 \<or> t < previous)"
    unfolding grant_checks_def bindR_eq_Inr check_eq_Inr by blast
  show "local_curriculum raw_cur = Inr cur" "(case now_at ctx of Some n \<Rightarrow> 0 \<le> n | None \<Rightarrow> True)"
    by (fact st)+
  show "t = 1 \<Longrightarrow> nz = None" using st(3) by simp
  show "t = 2 \<Longrightarrow> \<exists>doc. nz = Some doc \<and> check_evidence fr doc (min_cycles cur) = Inr () \<and>
      grant_doc sha fr cur t evidence = doc"
    using st(3) by (auto simp: grant_doc_def split: option.splits)
  show "(\<exists>n. local_tier sha fr dir cur = Inl (FileNotFound n)) \<and> t = 1 \<or>
     (\<exists>p. local_tier sha fr dir cur = Inr p \<and> p \<le> t)"
  proof (cases "local_tier sha fr dir cur")
    case (Inl x)
    with st(4,5) assms(2) show ?thesis by (cases x) auto
  next
    case (Inr q)
    with st(4,5) show ?thesis by simp
  qed
qed

lemma evidence_ok_kept:
  assumes "evidence_ok sha fr dir cur p dg0" "check_evidence fr doc (min_cycles cur) = Inr ()"
    "length (json_text fr doc) \<le> evidence_limit"
    "write_at fr io dir (evidence_name (digest_of sha fr doc)) doc = (dir', Inr u)"
  shows "evidence_ok sha fr dir' cur p dg0"
proof (cases "dg0 = digest_of sha fr doc")
  case True
  then show ?thesis using assms(1,2) read_written [OF assms(4,3)] by (auto simp: evidence_ok_def)
next
  case False
  then show ?thesis
    using assms(1) by (simp add: evidence_ok_def write_at_Inr [OF assms(4)] read_other)
qed

lemma local_tier_kept:
  assumes "local_tier sha fr dir cur = Inr p" "check_evidence fr doc (min_cycles cur) = Inr ()"
    "length (json_text fr doc) \<le> evidence_limit"
    "write_at fr io dir (evidence_name (digest_of sha fr doc)) doc = (dir', Inr u)"
  shows "local_tier sha fr dir' cur = Inr p"
proof -
  have "read_json_at dir' ''tier.json'' 8192 = read_json_at dir ''tier.json'' 8192"
    by (simp add: write_at_Inr [OF assms(4)] read_other receipt_name_fresh)
  then show ?thesis
    using assms(1) evidence_ok_kept [OF _ assms(2,3,4)] unfolding local_tier_Inr by metis
qed

lemma evidence_ok_other:
  "evidence_ok sha fr dir cur t dg \<Longrightarrow> evidence_ok sha fr (dir(''tier.json'' := f)) cur t dg"
  by (auto simp: evidence_ok_def read_other receipt_name_fresh)

text \<open>The outcome of a grant, by how far it got.\<close>

lemma grant_outcome:
  assumes cur: "local_curriculum raw_cur = Inr cur" and hex: "sha_hex sha"
    and fit: "texts_fit sha fr cur t (moment ctx clock) evidence" and clock: "0 \<le> clock"
    and run: "grant_local sha fr raw_cur io1 io2 clock t ctx ack evidence dir = (dir', r)"
  shows "(\<forall>p. local_tier sha fr dir cur = Inr p \<longrightarrow> (\<exists>p'. local_tier sha fr dir' cur = Inr p' \<and> p \<le> p')) \<and>
    (r = Inr () \<longrightarrow> local_tier sha fr dir' cur = Inr t)"
proof (cases "t = 1 \<or> t = 2")
  case False
  then show ?thesis using run by (auto simp: grant_local_def)
next
  case t: True
  show ?thesis
  proof (cases "grant_checks sha fr raw_cur t ctx ack evidence dir")
    case (Inl x)
    then show ?thesis using run t by (auto simp: grant_local_def)
  next
    case (Inr cn)
    obtain cur' nz where cn: "cn = (cur', nz)" by (cases cn)
    note g = grant_checks_Inr [OF Inr [unfolded cn] t]
    have same: "cur' = cur" using g(1) cur by simp
    let ?acks = "acks_for sha fr cur t" and ?dg = "digest_of sha fr (grant_doc sha fr cur t evidence)"
    let ?rec = "receipt t ?dg (moment ctx clock) ?acks"
    have ts: "0 \<le> moment ctx clock" using g(2) clock by (simp add: moment_def split: option.splits)
    have dg: "lower_hex 64 ?dg" using hex by (simp add: digest_of_def sha_hex_def)
    have low: "p \<le> t" if "local_tier sha fr dir cur = Inr p" for p
      using g(5) that by (auto simp: same)
    have docs: "(case nz of Some d \<Rightarrow> d | None \<Rightarrow> VDict [(''acks'', ?acks)]) = grant_doc sha fr cur t evidence"
      using g(3,4) t by (auto simp: same grant_doc_def)
    obtain dir1 r1 where w1: "(case nz of Some d \<Rightarrow> write_at fr io1 dir (evidence_name ?dg) d
        | None \<Rightarrow> (dir, Inr ())) = (dir1, r1)" by (metis prod.collapse)
    obtain dir2 r2 where w2: "write_at fr io2 dir1 ''tier.json'' ?rec = (dir2, r2)"
      by (metis prod.collapse)
    have "grant_local sha fr raw_cur io1 io2 clock t ctx ack evidence dir =
        (case r1 of Inl _ \<Rightarrow> (dir1, Inl (t, ''local_grant_refused''))
        | Inr _ \<Rightarrow> (dir2, refused_as t ''local_grant_refused'' r2))"
      using t unfolding grant_local_def Inr cn same prod.case sum.case Let_def docs w1
      by (auto simp: w2 [unfolded moment_def] split: sum.splits)
    then have out: "(dir', r) = (case r1 of Inl _ \<Rightarrow> (dir1, Inl (t, ''local_grant_refused''))
        | Inr _ \<Rightarrow> (dir2, refused_as t ''local_grant_refused'' r2))"
      using run by simp
    have step1: "local_tier sha fr dir1 cur = Inr p" if "local_tier sha fr dir cur = Inr p" for p
    proof (cases nz)
      case None
      then show ?thesis using w1 that by simp
    next
      case (Some d)
      with g(3,4) t have d: "check_evidence fr d (min_cycles cur) = Inr ()" "grant_doc sha fr cur t evidence = d"
        by (auto simp: same)
      show ?thesis
      proof (cases r1)
        case (Inl x)
        then show ?thesis using w1 Some that write_at_Inl by fastforce
      next
        case (Inr u)
        then show ?thesis
          using local_tier_kept [OF that d(1), of io1 dir1 u] w1 Some fit d(2)
          by (simp add: texts_fit_def grant_digest_def)
      qed
    qed
    have granted: "local_tier sha fr dir2 cur = Inr t" if "r1 = Inr u1" "r2 = Inr u2" for u1 u2
    proof -
      have "evidence_ok sha fr dir1 cur t ?dg"
      proof (cases "t = 2")
        case True
        with g(4) obtain d where d: "nz = Some d" "check_evidence fr d (min_cycles cur) = Inr ()"
          "grant_doc sha fr cur t evidence = d" by (auto simp: same)
        then have "read_json_at dir1 (evidence_name ?dg) evidence_limit = Inr d"
          using read_written [of fr io1 dir "evidence_name ?dg" d dir1 u1] w1 that(1) fit
          by (simp add: texts_fit_def)
        then show ?thesis using True d by (simp add: evidence_ok_def)
      next
        case False
        then show ?thesis by (simp add: evidence_ok_def grant_doc_def)
      qed
      moreover have "\<exists>f. dir2 = dir1(''tier.json'' := f)"
        using write_at_Inr [OF w2 [unfolded that(2)]] by blast
      ultimately have "evidence_ok sha fr dir2 cur t ?dg" using evidence_ok_other by blast
      then show ?thesis
        using receipt_proves [OF _ _ t ts dg, of fr io2 dir1 sha cur dir2 u2] w2 that(2) fit
        by (simp add: texts_fit_def grant_digest_def)
    qed
    show ?thesis
    proof (cases r1)
      case (Inl x)
      then show ?thesis using out step1 by auto
    next
      case r1: (Inr u1)
      show ?thesis
      proof (cases r2)
        case (Inl x)
        then have "dir2 = dir1" using w2 write_at_Inl by metis
        then show ?thesis using out r1 Inl step1 by (auto simp: refused_as_def)
      next
        case (Inr u2)
        then show ?thesis using out r1 granted low by (auto simp: refused_as_def)
      qed
    qed
  qed
qed

section \<open>Properties\<close>

text \<open>C21: With the gate on, a tier from 3 to 9 is admitted exactly when the unlock directory opens,
  holds a well-formed token, the token verifies against the caller's own identity at the
  caller's time, it states at least the required tier, and for tier 9 all five runtime facts
  are supplied as true.\<close>

theorem signed_admission_iff:
  assumes "tier_gate_enabled e" and "3 \<le> t" and "t \<le> 9"
  shows "require_tier sha ed fr keys e raw_cur clock t explicit act opened_dir = Inr () \<longleftrightarrow>
    (\<exists>dir tok c. opened_dir = Inr dir \<and> read_token dir = Inr tok \<and>
       verify_token ed fr keys tok (binding_of (pick_context explicit act))
         (moment (pick_context explicit act) clock) = Inr c \<and> t \<le> tier_of c \<and>
       (t = 9 \<longrightarrow> (\<exists>f. t9_facts (pick_context explicit act) = Some f \<and> list_all (\<lambda>k. f k = Some True) t9_names)))"
  using assms
  by (auto simp: require_tier_def require_signed_def refused_as_def bindR_def
      split: sum.splits option.splits)

definition tier_on :: env where
  "tier_on = no_env(''AGI_V8_PUBLIC_TIER_GATE_ENABLED'' \<mapsto> ''true'')"

lemma tier_on_enabled [gate_simps]: "tier_gate_enabled tier_on"
proof -
  have "py_lower (py_strip ''true'') = ''true''" by code_simp
  then show ?thesis by (simp add: tier_gate_enabled_def gate_lower_true_def tier_on_def)
qed

definition sample_context :: tier_context where
  "sample_context = \<lparr>repo_commit = replicate 40 (CHR ''a''), user_id = ''u1'', issuer = ''iss'',
     evidence_digest = replicate 64 (CHR ''b''), now_at = Some 500, t9_facts = None\<rparr>"

definition token_dir :: udir where
  "token_dir = [''token.json'' \<mapsto> \<lparr>u_kind = URegular, u_owned = True, u_mode = 384, u_nlink = 1,
     u_size = 600, u_value = Some (VDict sample_token)\<rparr>]"

lemma sample_binding_of: "binding_of sample_context = sample_binding"
  by (simp add: binding_of_def sample_context_def sample_binding_def)

lemma token_dir_read: "read_token token_dir = Inr sample_token"
  by (simp add: read_token_def read_at_def token_dir_def parse_token_def)

theorem signed_admission_iff_witness:
  "require_tier (\<lambda>s. s) always_ok no_floats one_key tier_on None 0 4 (Some sample_context) None (Inr token_dir)
     = Inr ()"
proof -
  have "verify_token always_ok no_floats one_key sample_token
      (binding_of (pick_context (Some sample_context) None))
      (moment (pick_context (Some sample_context) None) 0) = Inr sample_claims"
    using sample_verifies sample_binding_of by (simp add: pick_context_def moment_def sample_context_def)
  moreover have "tier_of sample_claims = 4" by (simp add: tier_of_def sample_claims_def dict_get_def)
  ultimately show ?thesis
    using signed_admission_iff [OF tier_on_enabled, of 4] token_dir_read by fastforce
qed

text \<open>As shipped, with no trusted key, the armed gate admits no tier above 2: whatever the
  directory, the environment, the context and the clock, tiers 3 to 9 and every tier outside
  0 to 9 are refused.\<close>

theorem shipped_gate_refuses_signed_tiers:
  assumes "tier_gate_enabled e" and "t < 0 \<or> 3 \<le> t"
  shows "\<exists>r. require_tier sha ed fr trusted_keys e raw_cur clock t explicit act opened_dir = Inl r"
proof -
  have "require_signed ed fr trusted_keys clock t (pick_context explicit act) opened_dir \<noteq> Inr u" for u
    using untrusted_refused by (auto simp: require_signed_def split: sum.splits)
  then have "require_tier sha ed fr trusted_keys e raw_cur clock t explicit act opened_dir \<noteq> Inr u" for u
    using assms by (auto simp: require_tier_def)
  then show ?thesis by (cases "require_tier sha ed fr trusted_keys e raw_cur clock t explicit act opened_dir") auto
qed

theorem shipped_gate_refuses_signed_tiers_witness:
  "\<exists>r. require_tier (\<lambda>s. s) always_ok no_floats trusted_keys tier_on None 0 4 (Some sample_context) None
     (Inr token_dir) = Inl r"
  by (rule shipped_gate_refuses_signed_tiers [OF tier_on_enabled]) simp

text \<open>A local grant is durable and monotone: when it succeeds, the directory proves exactly the
  granted tier, and whether it succeeds or stops anywhere, including after the evidence and
  before the receipt, a tier the directory proved before is still proved and never lowered.\<close>

theorem grant_local_monotone:
  assumes "local_curriculum raw_cur = Inr cur" and "sha_hex sha"
    and "texts_fit sha fr cur t (moment ctx clock) evidence" and "0 \<le> clock"
    and "grant_local sha fr raw_cur io1 io2 clock t ctx ack evidence dir = (dir', r)"
  shows "(\<forall>p. local_tier sha fr dir cur = Inr p \<longrightarrow> (\<exists>p'. local_tier sha fr dir' cur = Inr p' \<and> p \<le> p')) \<and>
    (r = Inr () \<longrightarrow> local_tier sha fr dir' cur = Inr t)"
  using assms by (rule grant_outcome)

definition sample_cur :: "pyv option" where
  "sample_cur = Some (VDict [(''schema'', VStr ''agi-v8-public-local-curriculum/v1''),
     (''T1'', VDict [(''ack'', VStr ''a1'')]),
     (''T2'', VDict [(''ack'', VStr ''a2''), (''minimum_distinct_cycles'', VInt 2)])])"

definition the_cur :: curriculum where
  "the_cur = \<lparr>ack1 = ''a1'', ack2 = ''a2'', min_cycles = 2\<rparr>"

definition flat_sha :: "string \<Rightarrow> string" where "flat_sha s = replicate 64 (CHR ''c'')"

lemma sample_cur_ok: "local_curriculum sample_cur = Inr the_cur"
  by code_simp

lemma flat_sha_hex: "sha_hex flat_sha"
proof -
  have "char_in 97 102 (CHR ''c'')" by code_simp
  then show ?thesis by (simp add: sha_hex_def lower_hex_def flat_sha_def list_all_iff)
qed

theorem grant_local_monotone_witness:
  "\<exists>dir'. grant_local flat_sha no_floats sample_cur True True 7 1 default_context ''a1'' None Map.empty
      = (dir', Inr ()) \<and> local_tier flat_sha no_floats dir' the_cur = Inr 1"
proof -
  obtain dir' r where run: "grant_local flat_sha no_floats sample_cur True True 7 1 default_context ''a1''
      None Map.empty = (dir', r)" by (metis prod.collapse)
  have "local_tier flat_sha no_floats Map.empty the_cur = Inl (FileNotFound ''tier.json'')"
    by (simp add: local_tier_def read_json_at_def read_at_def)
  then have "grant_checks flat_sha no_floats sample_cur 1 default_context ''a1'' None Map.empty = Inr (the_cur, None)"
    by (simp add: grant_checks_def sample_cur_ok default_context_def) (simp add: the_cur_def)
  then have ok: "r = Inr ()"
    using run by (auto simp: grant_local_def write_at_def Let_def refused_as_def)
  have "length (json_text no_floats (grant_doc flat_sha no_floats the_cur 1 None)) \<le> 300"
    "length (json_text no_floats (receipt 1 (grant_digest flat_sha no_floats the_cur 1 None)
       (moment default_context 7) (acks_for flat_sha no_floats the_cur 1))) \<le> 400"
    by code_simp+
  then have "texts_fit flat_sha no_floats the_cur 1 (moment default_context 7) None"
    by (simp add: texts_fit_def evidence_limit_def)
  from grant_local_monotone [OF sample_cur_ok flat_sha_hex this _ run] show ?thesis
    using run ok by simp
qed

text \<open>The decision of an import, before it writes.\<close>

definition import_decision ::
  "ed25519 \<Rightarrow> (rat \<Rightarrow> string) \<Rightarrow> key_map \<Rightarrow> int \<Rightarrow> tier_context \<Rightarrow> udir \<Rightarrow> dict \<Rightarrow> dict \<Rightarrow> bool" where
  "import_decision ed fr keys now ctx dir tok c \<longleftrightarrow>
     verify_token ed fr keys tok (binding_of ctx) now = Inr c \<and>
     (case read_at dir ''token.json'' 8192 of
        Inl x \<Rightarrow> \<exists>n. x = FileNotFound n
      | Inr _ \<Rightarrow> \<exists>old prior. read_token dir = Inr old \<and> prior_claims ed fr keys ctx now old = Inr prior \<and>
                  tier_of prior \<le> tier_of c)"

lemma import_token_Inr:
  "import_token ed fr keys io clock raw ctx dir = (dir', Inr u) \<longleftrightarrow>
     (\<exists>tok c. parse_token raw = Inr tok \<and> import_decision ed fr keys (moment ctx clock) ctx dir tok c \<and>
        write_at fr io dir ''token.json'' (VDict tok) = (dir', Inr ()))"
proof (cases "parse_token raw")
  case (Inl x)
  then show ?thesis by (simp add: import_token_def)
next
  case tok: (Inr tok)
  show ?thesis
  proof (cases "verify_token ed fr keys tok (binding_of ctx) (moment ctx clock)")
    case (Inl x)
    then show ?thesis using tok by (simp add: import_token_def import_decision_def)
  next
    case c: (Inr c)
    obtain d r where w: "write_at fr io dir ''token.json'' (VDict tok) = (d, r)" by (metis prod.collapse)
    show ?thesis
    proof (cases "read_at dir ''token.json'' 8192")
      case (Inl x)
      then show ?thesis using tok c w
        by (cases x; cases r) (auto simp: import_token_def import_decision_def refused_as_def)
    next
      case (Inr f)
      then show ?thesis using tok c w
        by (cases r) (auto simp: import_token_def import_decision_def refused_as_def bindR_def check_def
            split: sum.splits if_splits)
    qed
  qed
qed

lemma import_token_Inl: "import_token ed fr keys io clock raw ctx dir = (dir', Inl x) \<Longrightarrow> dir' = dir"
  using write_at_Inl
  by (fastforce simp: import_token_def refused_as_def split: sum.splits prod.splits)

text \<open>Importing a token is safe: a refused import leaves the directory as it was; a successful one
  stores a token that verifies for the caller, whose tier is at least that of any token stored
  before, and the gate then admits every tier up to it (for tier 9, with its runtime facts).\<close>

theorem import_token_sound:
  assumes "import_token ed fr keys io clock raw ctx dir = (dir', r)"
  shows "case r of
      Inl _ \<Rightarrow> dir' = dir
    | Inr _ \<Rightarrow> \<exists>tok c. parse_token raw = Inr tok \<and>
        verify_token ed fr keys tok (binding_of ctx) (moment ctx clock) = Inr c \<and>
        (dir ''token.json'' \<noteq> None \<longrightarrow> (\<exists>old prior. read_token dir = Inr old \<and>
           prior_claims ed fr keys ctx (moment ctx clock) old = Inr prior \<and> tier_of prior \<le> tier_of c)) \<and>
        (length (json_text fr (VDict tok)) \<le> 8192 \<longrightarrow> tier_gate_enabled e \<longrightarrow>
           (\<forall>t. 3 \<le> t \<longrightarrow> t \<le> tier_of c \<longrightarrow> t \<noteq> 9 \<longrightarrow>
              require_tier sha ed fr keys e raw_cur clock t (Some ctx) act (Inr dir') = Inr ()))"
proof (cases r)
  case (Inl x)
  then show ?thesis using import_token_Inl assms by auto
next
  case (Inr u)
  then obtain tok c where p: "parse_token raw = Inr tok"
    and d: "import_decision ed fr keys (moment ctx clock) ctx dir tok c"
    and w: "write_at fr io dir ''token.json'' (VDict tok) = (dir', Inr ())"
    using assms import_token_Inr by blast
  from d have v: "verify_token ed fr keys tok (binding_of ctx) (moment ctx clock) = Inr c"
    by (simp add: import_decision_def)
  have old: "\<exists>old prior. read_token dir = Inr old \<and>
      prior_claims ed fr keys ctx (moment ctx clock) old = Inr prior \<and> tier_of prior \<le> tier_of c"
    if "dir ''token.json'' \<noteq> None"
    using d that by (auto simp: import_decision_def read_at_def split: sum.splits if_splits)
  have pos: "0 < length (json_text fr (VDict tok))" by (simp add: json_text_def)
  have back': "read_token dir' = Inr tok" if "length (json_text fr (VDict tok)) \<le> 8192"
    using that pos by (simp add: write_at_Inr [OF w] read_token_def read_at_def parse_token_def)
  have adm: "require_tier sha ed fr keys e raw_cur clock t (Some ctx) act (Inr dir') = Inr ()"
    if "length (json_text fr (VDict tok)) \<le> 8192" "tier_gate_enabled e" "3 \<le> t" "t \<le> tier_of c" "t \<noteq> 9"
    for t
    using that back' v token.tier_range [OF v]
    by (simp add: require_tier_def require_signed_def refused_as_def pick_context_def)
  show ?thesis using Inr p v old adm by auto
qed

theorem import_token_sound_witness:
  "require_tier (\<lambda>s. s) always_ok no_floats one_key tier_on None 0 3 (Some sample_context) None
     (Inr (fst (import_token always_ok no_floats one_key True 0
        \<lparr>rsize = 600, rvalue = Some (VDict sample_token)\<rparr> sample_context Map.empty))) = Inr ()"
proof -
  have v: "verify_token always_ok no_floats one_key sample_token (binding_of sample_context)
      (moment sample_context 0) = Inr sample_claims"
    using sample_verifies sample_binding_of by (simp add: moment_def sample_context_def)
  obtain dir' where run: "import_token always_ok no_floats one_key True 0
        \<lparr>rsize = 600, rvalue = Some (VDict sample_token)\<rparr> sample_context Map.empty = (dir', Inr ())"
    using v by (auto simp: import_token_def parse_token_def read_at_def write_at_def refused_as_def)
  have fits: "length (json_text no_floats (VDict sample_token)) \<le> 8192"
  proof -
    have "length (json_text no_floats (VDict sample_token)) \<le> 900" by code_simp
    then show ?thesis by simp
  qed
  have "3 \<le> tier_of sample_claims" by (simp add: tier_of_def sample_claims_def dict_get_def)
  with import_token_sound [OF run, of tier_on "\<lambda>s. s" None None] fits tier_on_enabled v show ?thesis
    by (auto simp: run parse_token_def)
qed

end
