(* ===== verification/TickLease.thy ===== *)
theory TickLease
  imports FailFast
begin

text \<open>
  The single-flight lease of a tick (\<open>runtime/tick_lease.py\<close>). Authority is the kernel's
  exclusive lock on the lease's lock file: a lock belongs to the open file that took it
  and lives while any process holds a descriptor of that file, so a forked child keeps a
  dead parent's lock alive until it closes its copy. The JSON record is diagnostics only.
  Each call is split at the points where processes interleave; \<open>step\<close> is one such move.
  Clock, nonce and owner text are arguments.
\<close>

section \<open>Gate and horizon\<close>

definition lease_enabled :: "env \<Rightarrow> bool" where
  "lease_enabled e \<longleftrightarrow> gate_loose e ''AGI_V8_TICK_LEASE_ENABLED''"

definition default_ttl :: rat where "default_ttl = 1800"

definition positive_or_default :: "rat option \<Rightarrow> rat" where
  "positive_or_default v = (case v of Some r \<Rightarrow> if 0 < r then r else default_ttl | None \<Rightarrow> default_ttl)"

text \<open>\<open>ttl_seconds\<close>: an unreadable value is swallowed, a non-positive one replaced.\<close>

definition ttl_seconds :: "env \<Rightarrow> rat result" where
  "ttl_seconds e =
     (case e ''AGI_V8_TICK_LEASE_TTL_SEC'' of
        None \<Rightarrow> Inr default_ttl
      | Some v \<Rightarrow>
          (case parse_float v of
             None \<Rightarrow> absorb e (ValueError ''could not convert string to float'') default_ttl
           | Some r \<Rightarrow> Inr (positive_or_default (Some r))))"

text \<open>The horizon of one call: the caller's value when it is a positive number.\<close>

definition horizon :: "env \<Rightarrow> pyv option \<Rightarrow> rat result" where
  "horizon e ttl =
     (case ttl of
        None \<Rightarrow> ttl_seconds e
      | Some v \<Rightarrow> Inr (positive_or_default (case py_float v of Inr r \<Rightarrow> Some r | Inl _ \<Rightarrow> None)))"

section \<open>The world the lease lives in\<close>

record lease_record =
  l_owner :: string
  l_nonce :: nat
  l_pid :: nat
  l_acquired_ts :: rat
  l_expires_ts :: rat

datatype phase = Idle | Locked nat | Working nat | Releasing

record file_lock =
  lk_taker :: nat
  lk_fds :: "nat set"

record world =
  kernel_lock :: "file_lock option"
  lease_file :: "lease_record option"
  phase_of :: "nat \<Rightarrow> phase"
  spent_nonces :: "nat set"
  clock :: rat

definition initial_world :: world where
  "initial_world = \<lparr>kernel_lock = None, lease_file = None, phase_of = (\<lambda>_. Idle),
     spent_nonces = {}, clock = 0\<rparr>"

section \<open>The operations\<close>

datatype lease_error = LeaseBusy "lease_record option" | LeaseUnavailable string

datatype lock_io = LockOk | LockMissing | LockOpenFails | LockFails

text \<open>\<open>_try_lock\<close>: a held lock is \<^const>\<open>None\<close>; anything else that goes wrong is an error.\<close>

definition try_lock :: "lock_io \<Rightarrow> nat \<Rightarrow> world \<Rightarrow> lease_error + (world option)" where
  "try_lock io p w =
     (case io of
        LockMissing \<Rightarrow> Inl (LeaseUnavailable ''POSIX flock is unavailable'')
      | LockOpenFails \<Rightarrow> Inl (LeaseUnavailable ''cannot open tick lease lock'')
      | LockFails \<Rightarrow> Inl (LeaseUnavailable ''cannot acquire tick lease lock'')
      | LockOk \<Rightarrow>
          (case kernel_lock w of
             Some _ \<Rightarrow> Inr None
           | None \<Rightarrow> Inr (Some (w\<lparr>kernel_lock := Some \<lparr>lk_taker = p, lk_fds = {p}\<rparr>\<rparr>))))"

definition acquire_lock :: "lock_io \<Rightarrow> nat \<Rightarrow> nat \<Rightarrow> world \<Rightarrow> world \<times> (lease_error + unit)" where
  "acquire_lock io p nonce w =
     (case try_lock io p w of
        Inl x \<Rightarrow> (w, Inl x)
      | Inr None \<Rightarrow> (w, Inl (LeaseBusy (lease_file w)))
      | Inr (Some w') \<Rightarrow>
          (w'\<lparr>phase_of := (phase_of w)(p := Locked nonce), spent_nonces := insert nonce (spent_nonces w)\<rparr>,
           Inr ()))"

text \<open>Releasing unlocks the open file itself, whoever else holds a descriptor of it.\<close>

definition release_lock :: "nat \<Rightarrow> world \<Rightarrow> world" where
  "release_lock p w = w\<lparr>kernel_lock := None, phase_of := (phase_of w)(p := Idle)\<rparr>"

definition publish ::
  "bool \<Rightarrow> nat \<Rightarrow> nat \<Rightarrow> string \<Rightarrow> rat \<Rightarrow> rat \<Rightarrow> world \<Rightarrow> world \<times> (lease_error + lease_record)" where
  "publish io p nonce owner now ttl w =
     (if io
      then (let r = \<lparr>l_owner = owner, l_nonce = nonce, l_pid = p, l_acquired_ts = now,
                     l_expires_ts = now + ttl\<rparr>
            in (w\<lparr>lease_file := Some r, phase_of := (phase_of w)(p := Working nonce)\<rparr>, Inr r))
      else (release_lock p w, Inl (LeaseUnavailable ''cannot publish tick lease record'')))"

text \<open>
  Leaving the context: the record is removed only if it still carries this nonce; \<open>io\<close>
  tells whether the removal succeeds (a failure is swallowed).
\<close>

definition withdraw :: "bool \<Rightarrow> nat \<Rightarrow> nat \<Rightarrow> world \<Rightarrow> world" where
  "withdraw io p nonce w =
     w\<lparr>lease_file := (case lease_file w of
                       Some r \<Rightarrow> if l_nonce r = nonce \<and> io then None else Some r
                     | None \<Rightarrow> None),
       phase_of := (phase_of w)(p := Releasing)\<rparr>"

definition drop_fd :: "nat \<Rightarrow> world \<Rightarrow> world" where
  "drop_fd p w =
     w\<lparr>kernel_lock := (case kernel_lock w of
          None \<Rightarrow> None
        | Some l \<Rightarrow> if lk_fds l - {p} = {} then None else Some (l\<lparr>lk_fds := lk_fds l - {p}\<rparr>))\<rparr>"

text \<open>\<open>close_inherited_lock_fds_in_child\<close> closes the child's copies and nothing else.\<close>

definition close_inherited :: "nat \<Rightarrow> world \<Rightarrow> world" where
  "close_inherited p w = drop_fd p w"

definition crash :: "nat \<Rightarrow> world \<Rightarrow> world" where
  "crash p w = (drop_fd p w)\<lparr>phase_of := (phase_of w)(p := Idle)\<rparr>"

definition forked :: "nat \<Rightarrow> nat \<Rightarrow> world \<Rightarrow> world" where
  "forked p c w =
     w\<lparr>kernel_lock := map_option (\<lambda>l. if p \<in> lk_fds l then l\<lparr>lk_fds := insert c (lk_fds l)\<rparr> else l)
          (kernel_lock w)\<rparr>"

section \<open>Status\<close>

text \<open>What the probe of \<open>_probe_lock_held\<close> can see; \<^const>\<open>None\<close> when it cannot look.\<close>

definition probe_lock_held :: "bool \<Rightarrow> world \<Rightarrow> bool option" where
  "probe_lock_held can_look w = (if can_look then Some (kernel_lock w \<noteq> None) else None)"

record lease_status =
  st_held :: bool
  st_expired :: "bool option"
  st_lease :: "lease_record option"

definition status :: "bool \<Rightarrow> rat \<Rightarrow> world \<Rightarrow> lease_status" where
  "status can_look now w =
     (case lease_file w of
        None \<Rightarrow> \<lparr>st_held = (probe_lock_held can_look w = Some True), st_expired = None, st_lease = None\<rparr>
      | Some r \<Rightarrow> \<lparr>st_held = (case probe_lock_held can_look w of Some h \<Rightarrow> h | None \<Rightarrow> True),
                  st_expired = Some (l_expires_ts r \<le> now), st_lease = Some r\<rparr>)"

section \<open>Interleavings\<close>

text \<open>
  One move of one process, or of the clock. A process forks only children that run no
  lease of their own; a nonce is never drawn twice.
\<close>

inductive step :: "world \<Rightarrow> world \<Rightarrow> bool" where
  lock [step_intros]: "phase_of w p = Idle \<Longrightarrow> nonce \<notin> spent_nonces w \<Longrightarrow>
     step w (fst (acquire_lock io p nonce w))"
| publish [step_intros]: "phase_of w p = Locked nonce \<Longrightarrow> step w (fst (publish ok p nonce owner now ttl w))"
| withdraw [step_intros]: "phase_of w p = Working nonce \<Longrightarrow> step w (withdraw ok p nonce w)"
| release [step_intros]: "phase_of w p = Releasing \<Longrightarrow> step w (release_lock p w)"
| crash [step_intros]: "step w (crash p w)"
| fork [step_intros]: "phase_of w c = Idle \<Longrightarrow> step w (forked p c w)"
| close [step_intros]: "phase_of w c = Idle \<Longrightarrow> step w (close_inherited c w)"
| tick [step_intros]: "clock w \<le> t \<Longrightarrow> step w (w\<lparr>clock := t\<rparr>)"

inductive reachable :: "world \<Rightarrow> bool" where
  start: "reachable initial_world"
| move: "reachable w \<Longrightarrow> step w w' \<Longrightarrow> reachable w'"

inductive_cases reachableE: "reachable w"

section \<open>The invariant\<close>

definition owns :: "world \<Rightarrow> nat \<Rightarrow> bool" where
  "owns w p \<longleftrightarrow> phase_of w p \<noteq> Idle"

text \<open>
  Whoever is inside the context holds a descriptor of the lock it took; while it works,
  the published record is its own.
\<close>

definition lease_inv :: "world \<Rightarrow> bool" where
  "lease_inv w \<longleftrightarrow>
     (\<forall>p. owns w p \<longrightarrow> (\<exists>l. kernel_lock w = Some l \<and> lk_taker l = p \<and> p \<in> lk_fds l)) \<and>
     (\<forall>p n. phase_of w p = Working n \<longrightarrow> (\<exists>r. lease_file w = Some r \<and> l_nonce r = n \<and> l_pid r = p))"

lemma lease_inv_exclusive: "lease_inv w \<Longrightarrow> owns w p \<Longrightarrow> owns w q \<Longrightarrow> p = q"
  unfolding lease_inv_def by (metis option.inject)

lemma lease_inv_initial: "lease_inv initial_world"
  by (simp add: lease_inv_def initial_world_def owns_def)

lemma phase_simps [simp]:
  "phase_of (release_lock p w) = (phase_of w)(p := Idle)"
  "phase_of (withdraw io p n w) = (phase_of w)(p := Releasing)"
  "phase_of (crash p w) = (phase_of w)(p := Idle)"
  "phase_of (close_inherited p w) = phase_of w"
  "phase_of (forked p c w) = phase_of w"
  by (simp_all add: release_lock_def withdraw_def crash_def close_inherited_def drop_fd_def forked_def)

lemma lock_simps [simp]:
  "kernel_lock (release_lock p w) = None"
  "kernel_lock (withdraw io p n w) = kernel_lock w"
  "kernel_lock (crash p w) = kernel_lock (drop_fd p w)"
  "kernel_lock (close_inherited p w) = kernel_lock (drop_fd p w)"
  by (simp_all add: release_lock_def withdraw_def crash_def close_inherited_def)

lemma record_simps [simp]:
  "lease_file (release_lock p w) = lease_file w"
  "lease_file (crash p w) = lease_file w"
  "lease_file (close_inherited p w) = lease_file w"
  "lease_file (forked p c w) = lease_file w"
  by (simp_all add: release_lock_def crash_def close_inherited_def drop_fd_def forked_def)

lemma drop_fd_other:
  "kernel_lock w = Some l \<Longrightarrow> q \<in> lk_fds l \<Longrightarrow> q \<noteq> p \<Longrightarrow>
     kernel_lock (drop_fd p w) = Some (l\<lparr>lk_fds := lk_fds l - {p}\<rparr>)"
  by (auto simp: drop_fd_def)

text \<open>The invariant for one process: all that a move of another process has to keep.\<close>

definition holds_lease :: "world \<Rightarrow> nat \<Rightarrow> bool" where
  "holds_lease w p \<longleftrightarrow>
     (\<exists>l. kernel_lock w = Some l \<and> lk_taker l = p \<and> p \<in> lk_fds l) \<and>
     (\<forall>n. phase_of w p = Working n \<longrightarrow> (\<exists>r. lease_file w = Some r \<and> l_nonce r = n \<and> l_pid r = p))"

lemma lease_inv_alt: "lease_inv w \<longleftrightarrow> (\<forall>p. owns w p \<longrightarrow> holds_lease w p)"
  by (auto simp: lease_inv_def holds_lease_def owns_def)

lemma acquire_lock_cases:
  "fst (acquire_lock io p nonce w) = w \<or>
   (kernel_lock w = None \<and>
    fst (acquire_lock io p nonce w) =
      w\<lparr>kernel_lock := Some \<lparr>lk_taker = p, lk_fds = {p}\<rparr>, phase_of := (phase_of w)(p := Locked nonce),
        spent_nonces := insert nonce (spent_nonces w)\<rparr>)"
  by (auto simp: acquire_lock_def try_lock_def split: lock_io.splits option.splits)

lemma drop_fd_keeps:
  assumes "lease_inv w" "kernel_lock w' = kernel_lock (drop_fd c w)" "lease_file w' = lease_file w"
    and "\<And>q. owns w' q \<Longrightarrow> q \<noteq> c \<and> phase_of w' q = phase_of w q"
  shows "lease_inv w'"
  unfolding lease_inv_alt
proof (intro allI impI)
  fix q
  assume own: "owns w' q"
  then have q: "q \<noteq> c" "phase_of w' q = phase_of w q" using assms(4) by auto
  then have "holds_lease w q" using own assms(1) by (simp add: lease_inv_alt owns_def)
  then obtain l where l: "kernel_lock w = Some l" "lk_taker l = q" "q \<in> lk_fds l"
    and rec: "\<forall>n. phase_of w q = Working n \<longrightarrow> (\<exists>r. lease_file w = Some r \<and> l_nonce r = n \<and> l_pid r = q)"
    by (auto simp: holds_lease_def)
  have "kernel_lock w' = Some (l\<lparr>lk_fds := lk_fds l - {c}\<rparr>)"
    using drop_fd_other [OF l(1,3) q(1)] assms(2) by simp
  then show "holds_lease w' q"
    unfolding holds_lease_def assms(3) q(2) using l q(1) rec by simp
qed

lemma step_keeps_inv:
  assumes "step w w'" "lease_inv w"
  shows "lease_inv w'"
  using assms
proof (cases rule: step.cases)
  case (lock p nonce io)
  from acquire_lock_cases [of io p nonce w] show ?thesis
  proof
    assume "fst (acquire_lock io p nonce w) = w"
    then show ?thesis using lock assms(2) by simp
  next
    assume new: "kernel_lock w = None \<and> fst (acquire_lock io p nonce w) =
      w\<lparr>kernel_lock := Some \<lparr>lk_taker = p, lk_fds = {p}\<rparr>, phase_of := (phase_of w)(p := Locked nonce),
        spent_nonces := insert nonce (spent_nonces w)\<rparr>"
    then have "\<not> owns w q" for q using assms(2) by (auto simp: lease_inv_def)
    then show ?thesis using new lock by (auto simp: lease_inv_def owns_def)
  qed
next
  case (publish p nonce ok owner now ttl)
  then have only: "owns w q \<Longrightarrow> q = p" for q
    using lease_inv_exclusive [OF assms(2)] by (auto simp: owns_def)
  have mine: "holds_lease w p" using publish assms(2) by (simp add: lease_inv_alt owns_def)
  show ?thesis
  proof (cases ok)
    case True
    then show ?thesis using publish only mine
      by (auto simp: publish_def lease_inv_alt holds_lease_def owns_def Let_def split: if_splits)
  next
    case False
    then show ?thesis using publish only
      by (auto simp: publish_def lease_inv_def owns_def)
  qed
next
  case (withdraw p nonce ok)
  then have only: "owns w q \<Longrightarrow> q = p" for q
    using lease_inv_exclusive [OF assms(2)] by (auto simp: owns_def)
  have mine: "holds_lease w p" using withdraw assms(2) by (simp add: lease_inv_alt owns_def)
  show ?thesis using withdraw only mine
    by (auto simp: lease_inv_alt holds_lease_def owns_def split: if_splits)
next
  case (release p)
  then have only: "owns w q \<Longrightarrow> q = p" for q
    using lease_inv_exclusive [OF assms(2)] by (auto simp: owns_def)
  show ?thesis using release only by (auto simp: lease_inv_def owns_def)
next
  case (crash p)
  show ?thesis
    by (rule drop_fd_keeps [OF assms(2), of _ p]) (auto simp: crash owns_def split: if_splits)
next
  case (fork c p)
  show ?thesis unfolding lease_inv_alt
  proof (intro allI impI)
    fix q
    assume "owns w' q"
    then have "holds_lease w q" using fork assms(2) by (simp add: lease_inv_alt owns_def)
    then show "holds_lease w' q"
      unfolding fork(1) holds_lease_def by (cases "kernel_lock w") (auto simp: forked_def)
  qed
next
  case (close c)
  show ?thesis
    by (rule drop_fd_keeps [OF assms(2), of _ c]) (use close in \<open>auto simp: owns_def\<close>)
next
  case (tick t)
  then show ?thesis using assms(2) by (simp add: lease_inv_def owns_def)
qed

lemma reachable_inv: "reachable w \<Longrightarrow> lease_inv w"
  by (induction rule: reachable.induct) (auto intro: lease_inv_initial step_keeps_inv)

section \<open>Properties\<close>

text \<open>C24: At most one process is ever inside the lease, in every reachable interleaving of takers,
  crashes, forks and clock jumps; while one is, every other attempt fails, whatever the record's
  expiry says, and while it works the published record is its own.\<close>

theorem lease_single_flight:
  assumes "reachable w" and "owns w p"
  shows "(\<forall>q. owns w q \<longrightarrow> q = p) \<and>
    (\<forall>io q nonce. \<exists>x. acquire_lock io q nonce w = (w, Inl x)) \<and>
    (\<forall>n. phase_of w p = Working n \<longrightarrow>
       (\<exists>r. lease_file w = Some r \<and> l_nonce r = n \<and> l_pid r = p))"
proof -
  have inv: "lease_inv w" by (rule reachable_inv [OF assms(1)])
  then have "kernel_lock w \<noteq> None" using assms(2) by (auto simp: lease_inv_def)
  then have "\<exists>x. acquire_lock io q nonce w = (w, Inl x)" for io q nonce
    by (auto simp: acquire_lock_def try_lock_def split: lock_io.splits)
  moreover have "\<forall>q. owns w q \<longrightarrow> q = p" using lease_inv_exclusive [OF inv _ assms(2)] by blast
  moreover have "\<forall>n. phase_of w p = Working n \<longrightarrow> (\<exists>r. lease_file w = Some r \<and> l_nonce r = n \<and> l_pid r = p)"
    using inv unfolding lease_inv_def by blast
  ultimately show ?thesis by blast
qed

definition one_taker :: world where
  "one_taker = fst (acquire_lock LockOk 1 100 initial_world)"

definition one_worker :: world where
  "one_worker = fst (publish True 1 100 ''host:1'' 5 0 one_taker)"

lemma one_worker_reachable: "reachable one_worker"
proof -
  have "step initial_world one_taker"
    unfolding one_taker_def by (rule step.lock) (simp_all add: initial_world_def)
  moreover have "step one_taker one_worker"
    unfolding one_worker_def
    by (rule step.publish) (simp add: one_taker_def acquire_lock_def try_lock_def initial_world_def)
  ultimately show ?thesis by (meson reachable.start reachable.move)
qed

lemma one_worker_owns: "owns one_worker 1"
  by (simp add: one_worker_def publish_def Let_def owns_def)

theorem lease_single_flight_witness:
  "\<exists>x. acquire_lock LockOk 2 101 (one_worker\<lparr>clock := 1000000\<rparr>) = (one_worker\<lparr>clock := 1000000\<rparr>, Inl x)"
proof -
  have "clock one_worker \<le> 1000000"
    by (simp add: one_worker_def publish_def one_taker_def acquire_lock_def try_lock_def
        initial_world_def Let_def)
  then have "reachable (one_worker\<lparr>clock := 1000000\<rparr>)"
    by (intro reachable.move [OF one_worker_reachable] step.tick)
  moreover have "owns (one_worker\<lparr>clock := 1000000\<rparr>) 1" using one_worker_owns by (simp add: owns_def)
  ultimately show ?thesis using lease_single_flight by blast
qed

text \<open>A crash of the owner frees the lease at once unless a forked child still holds a descriptor:
  with no such child the next taker gets the lock although the dead owner's record is still
  there and unexpired; with one, nobody gets it until the child closes its copies, and closing
  them never frees a lock whose owner is alive.\<close>

theorem lease_crash_recovery:
  assumes "reachable w" and "owns w p" and "kernel_lock w = Some l"
  shows "(lk_fds l = {p} \<longrightarrow>
            snd (acquire_lock LockOk q nonce (crash p w)) = Inr () \<and> lease_file (crash p w) = lease_file w) \<and>
    (c \<in> lk_fds l \<longrightarrow> c \<noteq> p \<longrightarrow>
       (\<exists>x. snd (acquire_lock LockOk q nonce (crash p w)) = Inl x) \<and>
       kernel_lock (close_inherited c w) \<noteq> None \<and>
       (lk_fds l = {p, c} \<longrightarrow> snd (acquire_lock LockOk q nonce (close_inherited c (crash p w))) = Inr ()))"
proof -
  have mine: "p \<in> lk_fds l" using reachable_inv [OF assms(1)] assms(2,3) by (auto simp: lease_inv_def)
  have alone: "kernel_lock (crash p w) = None" if "lk_fds l = {p}"
    using that assms(3) by (simp add: drop_fd_def)
  have shared: "kernel_lock (crash p w) = Some (l\<lparr>lk_fds := lk_fds l - {p}\<rparr>)" if "c \<in> lk_fds l" "c \<noteq> p"
    using drop_fd_other [OF assms(3), of c p] that by simp
  have kept: "kernel_lock (close_inherited c w) \<noteq> None" if "c \<noteq> p"
    using drop_fd_other [OF assms(3), of p c] that mine by auto
  have freed: "kernel_lock (close_inherited c (crash p w)) = None" if "lk_fds l = {p, c}" "c \<noteq> p"
    using that shared by (simp add: drop_fd_def)
  show ?thesis
    using alone shared kept freed
    by (auto simp: acquire_lock_def try_lock_def)
qed

theorem lease_crash_recovery_witness:
  "snd (acquire_lock LockOk 2 101 (crash 1 one_worker)) = Inr ()"
proof -
  have "kernel_lock one_worker = Some \<lparr>lk_taker = 1, lk_fds = {1}\<rparr>"
    by (simp add: one_worker_def publish_def one_taker_def acquire_lock_def try_lock_def
        initial_world_def Let_def)
  from lease_crash_recovery [OF one_worker_reachable one_worker_owns this, of 2 101] show ?thesis by simp
qed

text \<open>The reported status is the kernel's answer, and a record counts as held when it cannot be asked.\<close>

lemma status_authority:
  "st_held (status True now w) \<longleftrightarrow> kernel_lock w \<noteq> None"
  "st_held (status False now w) \<longleftrightarrow> lease_file w \<noteq> None"
  by (simp_all add: status_def probe_lock_held_def split: option.splits)

end
