(* ===== verification/HaltSentinel.thy ===== *)
theory HaltSentinel
  imports FailFast
begin

text \<open>
  The human stop sentinel (\<open>runtime/halt_sentinel.py\<close>): two directory entries, the
  privileged one probed first. What \<open>lstat\<close> says of a path is one of three things; the
  content of the entry is never read, so it is not part of the model.
\<close>

section \<open>State\<close>

datatype entry_type = Symlink | Directory | Regular | OtherType

datatype lstat = Absent | Entry entry_type int | Failed exn int

type_synonym probe_env = "string \<Rightarrow> lstat"

definition tier_privileged :: string where "tier_privileged = ''privileged''"
definition tier_unprivileged :: string where "tier_unprivileged = ''unprivileged''"

definition sentinel_privileged :: string where "sentinel_privileged = ''/etc/agi_v8/HALT''"

text \<open>The second path lies in the installed package, whose directory is \<open>home\<close>.\<close>

definition sentinel_unprivileged :: "string \<Rightarrow> string" where
  "sentinel_unprivileged home = home @ ''/state/si_jail/tick/STOP''"

definition sentinels :: "string \<Rightarrow> (string \<times> string) list" where
  "sentinels home = [(tier_privileged, sentinel_privileged),
                     (tier_unprivileged, sentinel_unprivileged home)]"

record halt_state =
  halted :: bool
  tier :: "string option"
  sentinel :: "string option"
  mtime_ns :: "int option"
  readable :: bool
  halt_error :: "string option"
  entry_kind :: "string option"

definition no_halt :: halt_state where
  "no_halt = \<lparr>halted = False, tier = None, sentinel = None, mtime_ns = None, readable = True,
     halt_error = None, entry_kind = None\<rparr>"

definition tier_is_guaranteed :: "halt_state \<Rightarrow> bool" where
  "tier_is_guaranteed st \<longleftrightarrow> tier st = Some tier_privileged"

section \<open>Operations\<close>

fun kind_of :: "entry_type \<Rightarrow> string" where
  "kind_of Symlink = ''symlink''"
| "kind_of Directory = ''dir''"
| "kind_of Regular = ''file''"
| "kind_of OtherType = ''other''"

definition unreadable :: string where "unreadable = ''__unreadable__''"

definition probe :: "env \<Rightarrow> probe_env \<Rightarrow> string \<Rightarrow>
    (string option \<times> int option \<times> string option) result" where
  "probe e ls path =
     (case ls path of
        Absent \<Rightarrow> Inr (None, None, None)
      | Failed x errno \<Rightarrow>
          absorb e x (Some unreadable, None, Some (etype x @ ''(errno='' @ int_text errno @ '')''))
      | Entry k t \<Rightarrow> Inr (Some (kind_of k), Some t, None))"

fun first_halt :: "env \<Rightarrow> probe_env \<Rightarrow> (string \<times> string) list \<Rightarrow> halt_state result" where
  "first_halt e ls [] = Inr no_halt"
| "first_halt e ls ((t, path) # rest) =
     bindR (probe e ls path) (\<lambda>(kind, mtime, err).
       case kind of
         None \<Rightarrow> first_halt e ls rest
       | Some k \<Rightarrow>
           if k = unreadable
           then Inr (no_halt\<lparr>halted := True, tier := Some t, sentinel := Some path,
                       readable := False, halt_error := err\<rparr>)
           else Inr (no_halt\<lparr>halted := True, tier := Some t, sentinel := Some path,
                       mtime_ns := mtime, entry_kind := Some k\<rparr>))"

definition halt_state_now :: "env \<Rightarrow> string \<Rightarrow> probe_env \<Rightarrow> halt_state result" where
  "halt_state_now e home ls = first_halt e ls (sentinels home)"

definition is_halted :: "env \<Rightarrow> string \<Rightarrow> probe_env \<Rightarrow> bool result" where
  "is_halted e home ls = bindR (halt_state_now e home ls) (\<lambda>st. Inr (halted st))"

text \<open>
  \<open>HumanHalt\<close> derives from \<open>BaseException\<close>: what a raise of this module is, apart from the
  ordinary exceptions, and what an \<open>except Exception\<close> around it lets through.
\<close>

datatype raised = Human halt_state | Ordinary exn

definition raise_if_halted :: "env \<Rightarrow> string \<Rightarrow> probe_env \<Rightarrow> raised + unit" where
  "raise_if_halted e home ls =
     (case halt_state_now e home ls of
        Inl x \<Rightarrow> Inl (Ordinary x)
      | Inr st \<Rightarrow> if halted st then Inl (Human st) else Inr ())"

definition except_exception :: "'a \<Rightarrow> raised + 'a \<Rightarrow> raised + 'a" where
  "except_exception fallback r = (case r of Inl (Ordinary _) \<Rightarrow> Inr fallback | _ \<Rightarrow> r)"

section \<open>Lemmas\<close>

lemma kind_of_readable [simp]: "kind_of k \<noteq> unreadable"
  by (cases k) (simp_all add: unreadable_def)

definition probe_failed :: "lstat \<Rightarrow> bool" where
  "probe_failed l \<longleftrightarrow> (case l of Failed _ _ \<Rightarrow> True | _ \<Rightarrow> False)"

lemma first_halt_Absent: "ls path = Absent \<Longrightarrow> first_halt e ls ((t, path) # rest) = first_halt e ls rest"
  by (simp add: probe_def)

lemma first_halt_Entry:
  "ls path = Entry k m \<Longrightarrow> first_halt e ls ((t, path) # rest) =
     Inr (no_halt\<lparr>halted := True, tier := Some t, sentinel := Some path, mtime_ns := Some m,
            entry_kind := Some (kind_of k)\<rparr>)"
  by (simp add: probe_def)

lemma first_halt_Failed:
  "ls path = Failed x n \<Longrightarrow> first_halt e ls ((t, path) # rest) =
     absorb e x (no_halt\<lparr>halted := True, tier := Some t, sentinel := Some path, readable := False,
            halt_error := Some (etype x @ ''(errno='' @ int_text n @ '')'')\<rparr>)"
  by (simp add: probe_def absorb_def)

declare first_halt.simps(2) [simp del]

lemmas first_halt_cases = first_halt_Absent first_halt_Entry first_halt_Failed

lemma no_halt_simps [simp]: "\<not> halted no_halt" "tier no_halt = None" "readable no_halt"
  by (simp_all add: no_halt_def)

lemma tiers_distinct [simp]: "tier_privileged \<noteq> tier_unprivileged" "tier_unprivileged \<noteq> tier_privileged"
  by (simp_all add: tier_privileged_def tier_unprivileged_def)

definition verdict_ok :: "string \<Rightarrow> probe_env \<Rightarrow> halt_state \<Rightarrow> bool" where
  "verdict_ok home ls st \<longleftrightarrow>
     (halted st \<longleftrightarrow> ls sentinel_privileged \<noteq> Absent \<or> ls (sentinel_unprivileged home) \<noteq> Absent) \<and>
     (tier_is_guaranteed st \<longleftrightarrow> ls sentinel_privileged \<noteq> Absent) \<and>
     (readable st \<longleftrightarrow> \<not> probe_failed (if ls sentinel_privileged \<noteq> Absent then ls sentinel_privileged
                                else ls (sentinel_unprivileged home)))"

lemma halt_state_cases:
  "case halt_state_now e home ls of
     Inl x \<Rightarrow> strict_enabled e
   | Inr st \<Rightarrow> verdict_ok home ls st"
  by (cases "ls sentinel_privileged"; cases "ls (sentinel_unprivileged home)")
    (simp_all add: halt_state_now_def sentinels_def first_halt_cases verdict_ok_def
      tier_is_guaranteed_def probe_failed_def absorb_def)

section \<open>Properties\<close>

text \<open>The verdict always falls, and not knowing is a stop: unless the strict census re-raises
  the probe's error, the program is halted exactly when one of the two entries is not certainly
  absent (whatever its type, and whether or not it could be examined), the guaranteed tier is
  reported exactly when the privileged entry is what stopped it, and the state is marked
  unreadable exactly when the deciding probe failed.\<close>

theorem halt_verdict:
  "case halt_state_now e home ls of
     Inl x \<Rightarrow> strict_enabled e
   | Inr st \<Rightarrow>
      (halted st \<longleftrightarrow> \<not> (ls sentinel_privileged = Absent \<and> ls (sentinel_unprivileged home) = Absent)) \<and>
      (tier_is_guaranteed st \<longleftrightarrow> ls sentinel_privileged \<noteq> Absent) \<and>
      (readable st \<longleftrightarrow> \<not> probe_failed (if ls sentinel_privileged \<noteq> Absent then ls sentinel_privileged
                                 else ls (sentinel_unprivileged home)))"
  using halt_state_cases [of e home ls] unfolding verdict_ok_def by (auto split: sum.splits)

text \<open>A pressed stop cannot be absorbed on the way out: outside strict mode, whenever either
  entry is not certainly absent \<open>raise_if_halted\<close> raises \<open>HumanHalt\<close> with the verdict, and every
  enclosing \<open>except Exception\<close> lets it through.\<close>

theorem human_halt_not_absorbed:
  assumes "\<not> strict_enabled e"
    and "ls sentinel_privileged \<noteq> Absent \<or> ls (sentinel_unprivileged home) \<noteq> Absent"
  shows "\<exists>st. raise_if_halted e home ls = Inl (Human st) \<and> halted st \<and>
    except_exception fb (raise_if_halted e home ls) = Inl (Human st)"
  using halt_state_cases [of e home ls] assms
  by (auto simp: raise_if_halted_def except_exception_def verdict_ok_def split: sum.splits)

theorem human_halt_not_absorbed_witness:
  "\<exists>st. except_exception () (raise_if_halted no_env ''/r''
     (\<lambda>p. if p = sentinel_privileged then Absent else Failed (OSError ''EACCES'') 13)) = Inl (Human st)"
proof -
  have "sentinel_unprivileged ''/r'' \<noteq> sentinel_privileged"
    by (simp add: sentinel_unprivileged_def sentinel_privileged_def)
  then show ?thesis
    using human_halt_not_absorbed [OF not_strict_no_env, where home = "''/r''" and fb = "()"
        and ls = "\<lambda>p. if p = sentinel_privileged then Absent else Failed (OSError ''EACCES'') 13"]
    by auto
qed

end
