(* ===== verification/Money.thy ===== *)
theory Money
  imports Prelude
begin

text \<open>
  Amounts of money as the ledgers hold them: exact rationals, rounded to a number of decimal
  places, and read out of rows whose values may be of any type.
\<close>

section \<open>Rounding\<close>

text \<open>\<open>round(x, n)\<close>: to the nearest multiple of \<open>10 ^ -n\<close>, ties to the even one.\<close>

definition round_even :: "rat \<Rightarrow> int" where
  "round_even r =
     (let f = \<lfloor>r\<rfloor>; d = r - of_int f
      in if d < 1 / 2 then f else if 1 / 2 < d then f + 1 else if even f then f else f + 1)"

definition round_to :: "nat \<Rightarrow> rat \<Rightarrow> rat" where
  "round_to n r = of_int (round_even (r * 10 ^ n)) / 10 ^ n"

lemma round_even_int [simp]: "round_even (of_int i) = i"
  by (simp add: round_even_def)

lemma round_even_nonneg: "0 \<le> r \<Longrightarrow> 0 \<le> round_even r"
  by (simp add: round_even_def Let_def)

lemma round_to_nonneg: "0 \<le> r \<Longrightarrow> 0 \<le> round_to n r"
  by (simp add: round_to_def round_even_nonneg)

lemma round_even_error: "\<bar>of_int (round_even r) - r\<bar> \<le> 1 / 2"
proof -
  have "of_int \<lfloor>r\<rfloor> \<le> r" "r < of_int \<lfloor>r\<rfloor> + 1" by linarith+
  then show ?thesis by (auto simp: round_even_def Let_def abs_le_iff)
qed

lemma round_to_error: "\<bar>round_to n r - r\<bar> \<le> 1 / 2 / 10 ^ n"
proof -
  have "round_to n r - r = (of_int (round_even (r * 10 ^ n)) - r * 10 ^ n) / 10 ^ n"
    by (simp add: round_to_def field_simps)
  then have "\<bar>round_to n r - r\<bar> = \<bar>of_int (round_even (r * 10 ^ n)) - r * 10 ^ n\<bar> / 10 ^ n"
    by (simp add: abs_divide)
  also have "\<dots> \<le> (1 / 2) / 10 ^ n"
    by (rule divide_right_mono [OF round_even_error]) simp
  finally show ?thesis .
qed

lemma round_even_mono: assumes "r \<le> s" shows "round_even r \<le> round_even s"
proof -
  have f: "\<lfloor>r\<rfloor> \<le> \<lfloor>s\<rfloor>" using assms by (rule floor_mono)
  show ?thesis
  proof (cases "\<lfloor>r\<rfloor> = \<lfloor>s\<rfloor>")
    case True
    then show ?thesis using assms by (auto simp: round_even_def Let_def)
  next
    case False
    with f have lt: "\<lfloor>r\<rfloor> + 1 \<le> \<lfloor>s\<rfloor>" by simp
    have "round_even r \<le> \<lfloor>r\<rfloor> + 1" "\<lfloor>s\<rfloor> \<le> round_even s"
      by (simp_all add: round_even_def Let_def)
    with lt show ?thesis by simp
  qed
qed

lemma round_to_mono: "r \<le> s \<Longrightarrow> round_to n r \<le> round_to n s"
  by (simp add: round_to_def divide_right_mono round_even_mono mult_right_mono)

text \<open>An \<open>int\<close> or a \<open>float\<close> that is not a \<open>bool\<close>.\<close>

definition number_of :: "pyv \<Rightarrow> rat option" where
  "number_of v = (case v of VInt i \<Rightarrow> Some (of_int i) | VFloat r \<Rightarrow> Some r | _ \<Rightarrow> None)"

definition cost_of :: "string \<Rightarrow> dict \<Rightarrow> rat" where
  "cost_of key d = (case number_of (dict_get d key) of Some r \<Rightarrow> r | None \<Rightarrow> 0)"

section \<open>The ledger quantum\<close>

definition quantum :: rat where "quantum = 1 / 10 ^ 8"

text \<open>A number of at most eight decimal places.\<close>

definition has_8dp :: "rat \<Rightarrow> bool" where
  "has_8dp r \<longleftrightarrow> of_int \<lfloor>r * 10 ^ 8\<rfloor> = r * 10 ^ 8"

text \<open>Upwards to eight places; a result of more than 28 digits is refused.\<close>

definition ceil_8dp :: "rat \<Rightarrow> rat" where
  "ceil_8dp r = of_int \<lceil>r * 10 ^ 8\<rceil> / 10 ^ 8"

lemma ceil_8dp_ge: "r \<le> ceil_8dp r"
  by (simp add: ceil_8dp_def field_simps)

lemma ceil_8dp_less: "ceil_8dp r < r + quantum"
proof -
  have "of_int \<lceil>r * 10 ^ 8\<rceil> < r * 10 ^ 8 + 1" using ceiling_correct [of "r * 10 ^ 8"] by linarith
  then show ?thesis by (simp add: ceil_8dp_def quantum_def field_simps)
qed

lemma ceil_8dp_nonneg: "0 \<le> r \<Longrightarrow> 0 \<le> ceil_8dp r"
  using ceil_8dp_ge [of r] by linarith

lemma has_8dp_ceil [simp]: "has_8dp (ceil_8dp r)"
  by (simp add: has_8dp_def ceil_8dp_def)

lemma has_8dp_round [simp]: "has_8dp (round_to 8 r)"
  by (simp add: has_8dp_def round_to_def)

lemma has_8dp_0 [simp]: "has_8dp 0"
  by (simp add: has_8dp_def)

lemma has_8dp_iff: "has_8dp r \<longleftrightarrow> (\<exists>i. r = of_int i / 10 ^ 8)"
proof
  assume "has_8dp r"
  then have "r * 10 ^ 8 = of_int \<lfloor>r * 10 ^ 8\<rfloor>" unfolding has_8dp_def by (rule sym)
  then have "r = of_int \<lfloor>r * 10 ^ 8\<rfloor> / 10 ^ 8"
    by (subst nonzero_eq_divide_eq) simp_all
  then show "\<exists>i. r = of_int i / 10 ^ 8" by blast
qed (auto simp: has_8dp_def)

lemma ceil_8dp_fixed: "has_8dp r \<Longrightarrow> ceil_8dp r = r"
  by (auto simp: has_8dp_iff ceil_8dp_def)

lemma round_to_8dp: "has_8dp r \<Longrightarrow> round_to 8 r = r"
  by (auto simp: has_8dp_iff round_to_def)

end
