(* ===== verification/SpendReservation.thy ===== *)
theory SpendReservation
  imports Store Money "HOL-Library.Multiset"
begin

text \<open>
  The spend reservation ledger (\<open>runtime/spend_reservation.py\<close>): an expected amount is written
  down before it is spent, and settled or released afterwards. A reservation's current state
  is its last row. What \<open>episode_spend\<close> measures at the moment of a call is the argument
  \<open>spend\<close>; ids and times are arguments too.
\<close>

section \<open>State\<close>

definition res_enabled :: "env \<Rightarrow> bool" where
  "res_enabled e = gate_strict e ''AGI_V8_SPEND_RESERVATION_ENABLED''"

definition default_res_ttl :: rat where "default_res_ttl = 1800"

definition res_ttl :: "env \<Rightarrow> rat result" where
  "res_ttl e =
     (case e ''AGI_V8_SPEND_RESERVATION_TTL_SEC'' of
        None \<Rightarrow> Inr default_res_ttl
      | Some raw \<Rightarrow>
          (case parse_float raw of
             None \<Rightarrow> absorb e (ValueError ''could not convert string to float'') default_res_ttl
           | Some v \<Rightarrow> Inr (if 0 < v then v else default_res_ttl)))"

definition res_path :: "string \<Rightarrow> path" where
  "res_path dir = dir @ ''/runtime_logs/spend_reservation.jsonl''"

record handle =
  h_id :: string
  h_subject :: string
  h_cycle :: pyv
  h_expected :: rat
  h_ts :: rat
  h_before :: "rat option"

text \<open>The three answers of \<open>reserve\<close>: the gate is off, the row could not be written, or a handle.\<close>

datatype reservation = GateOff | Unavailable string pyv | Held handle

definition is_unavailable :: "reservation \<Rightarrow> bool" where
  "is_unavailable r = (case r of Unavailable _ _ \<Rightarrow> True | _ \<Rightarrow> False)"

section \<open>Operations\<close>

definition safe_episode_spend :: "env \<Rightarrow> rat result \<Rightarrow> rat option result" where
  "safe_episode_spend e spend = (case spend of Inr r \<Rightarrow> Inr (Some r) | Inl x \<Rightarrow> absorb e x None)"

definition res_append ::
  "env \<Rightarrow> nat \<Rightarrow> wr \<Rightarrow> string \<Rightarrow> dict \<Rightarrow> ledger_fs \<Rightarrow> ledger_fs \<times> bool result" where
  "res_append e umask w dir row fs =
     (let (fs', r) = atomic_append_jsonl e umask w 0 0 (res_path dir) (VDict row) fs
      in (fs', case r of Inr _ \<Rightarrow> Inr True | Inl x \<Rightarrow> absorb e x False))"

definition res_schema :: string where "res_schema = ''agi_v8_spend_reservation_v1''"

definition open_row :: "handle \<Rightarrow> dict" where
  "open_row h =
     [(''schema_version'', VStr res_schema), (''reservation_id'', VStr (h_id h)),
      (''subject'', VStr (h_subject h)), (''cycle_id'', h_cycle h),
      (''expected_usd'', VFloat (h_expected h)), (''status'', VStr ''open''),
      (''reserved_ts'', VFloat (h_ts h)), (''settled_ts'', VNone), (''actual_usd'', VNone)]"

definition reserve ::
  "env \<Rightarrow> nat \<Rightarrow> wr \<Rightarrow> string \<Rightarrow> string \<Rightarrow> string \<Rightarrow> pyv \<Rightarrow> rat \<Rightarrow> rat \<Rightarrow> rat result \<Rightarrow> ledger_fs
    \<Rightarrow> ledger_fs \<times> reservation result" where
  "reserve e umask w dir rid subject cycle expected now spend fs =
     (if \<not> res_enabled e then (fs, Inr GateOff)
      else case safe_episode_spend e spend of
             Inl x \<Rightarrow> (fs, Inl x)
           | Inr before \<Rightarrow>
               (let h = \<lparr>h_id = rid, h_subject = subject, h_cycle = cycle,
                         h_expected = round_to 8 (max 0 expected), h_ts = now, h_before = before\<rparr>;
                    (fs', r) = res_append e umask w dir (open_row h) fs
                in (fs', bindR r (\<lambda>ok. Inr (if ok then Held h else Unavailable subject cycle)))))"

text \<open>The amount a reservation settles at, and whether it was measured.\<close>

definition settled_amount :: "env \<Rightarrow> handle \<Rightarrow> rat option \<Rightarrow> rat result \<Rightarrow> (rat \<times> bool) result" where
  "settled_amount e h actual spend =
     (case actual of
        Some a \<Rightarrow> Inr (max 0 a, True)
      | None \<Rightarrow>
          bindR (safe_episode_spend e spend) (\<lambda>after.
            case (h_before h, after) of
              (Some b, Some a) \<Rightarrow> Inr (max 0 (round_to 8 (a - b)), True)
            | _ \<Rightarrow> Inr (h_expected h, False)))"

definition closing_row :: "handle \<Rightarrow> string \<Rightarrow> rat \<Rightarrow> rat \<Rightarrow> bool \<Rightarrow> dict" where
  "closing_row h status now actual measured =
     [(''schema_version'', VStr res_schema), (''reservation_id'', VStr (h_id h)),
      (''subject'', VStr (h_subject h)), (''cycle_id'', h_cycle h),
      (''expected_usd'', VFloat (h_expected h)), (''status'', VStr status),
      (''reserved_ts'', VFloat (h_ts h)), (''settled_ts'', VFloat now),
      (''actual_usd'', VFloat actual), (''actual_measured'', VBool measured)]"

definition settle ::
  "env \<Rightarrow> nat \<Rightarrow> wr \<Rightarrow> string \<Rightarrow> reservation \<Rightarrow> rat option \<Rightarrow> rat \<Rightarrow> rat result \<Rightarrow> ledger_fs
    \<Rightarrow> ledger_fs \<times> dict option result" where
  "settle e umask w dir res actual now spend fs =
     (case res of
        Held h \<Rightarrow>
          (case settled_amount e h actual spend of
             Inl x \<Rightarrow> (fs, Inl x)
           | Inr (amount, measured) \<Rightarrow>
               (let row = closing_row h ''settled'' now (round_to 8 amount) measured;
                    (fs', r) = res_append e umask w dir row fs
                in (fs', bindR r (\<lambda>_. Inr (Some row)))))
      | _ \<Rightarrow> (fs, Inr None))"

definition release ::
  "env \<Rightarrow> nat \<Rightarrow> wr \<Rightarrow> string \<Rightarrow> reservation \<Rightarrow> string option \<Rightarrow> rat \<Rightarrow> ledger_fs
    \<Rightarrow> ledger_fs \<times> dict option result" where
  "release e umask w dir res reason now fs =
     (case res of
        Held h \<Rightarrow>
          (let row = closing_row h ''released'' now 0 True @
                 [(''release_reason'', case reason of None \<Rightarrow> VNone
                     | Some s \<Rightarrow> if s = [] then VNone else VStr s)];
               (fs', r) = res_append e umask w dir row fs
           in (fs', bindR r (\<lambda>_. Inr (Some row))))
      | _ \<Rightarrow> (fs, Inr None))"

section \<open>Reading\<close>

record open_summary =
  open_usd :: rat
  open_count :: nat
  expired_count :: nat
  read_failed :: "string option"

text \<open>The last row of each reservation id, in the order the ids first appear.\<close>

fun latest_rows :: "dict \<Rightarrow> pyv list \<Rightarrow> dict result" where
  "latest_rows acc [] = Inr acc"
| "latest_rows acc (r # rs) =
     bindR (py_get r ''reservation_id'' VNone) (\<lambda>rid.
       latest_rows (case rid of VStr s \<Rightarrow> if s \<noteq> [] then dict_set acc s r else acc | _ \<Rightarrow> acc) rs)"

datatype standing = NotOpen | Expired | Live rat

definition standing_of :: "rat \<Rightarrow> rat \<Rightarrow> pyv \<Rightarrow> standing" where
  "standing_of ttl now r =
     (case r of
        VDict d \<Rightarrow>
          if dict_get d ''status'' \<noteq> VStr ''open'' then NotOpen
          else (case number_of (dict_get d ''reserved_ts'') of
                  None \<Rightarrow> NotOpen
                | Some ts \<Rightarrow>
                    if ttl < now - ts then Expired
                    else (case number_of (dict_get d ''expected_usd'') of
                            None \<Rightarrow> NotOpen
                          | Some v \<Rightarrow> Live v))
      | _ \<Rightarrow> NotOpen)"

definition live_amount :: "standing \<Rightarrow> rat" where
  "live_amount s = (case s of Live v \<Rightarrow> v | _ \<Rightarrow> 0)"

definition is_live :: "standing \<Rightarrow> bool" where
  "is_live s = (case s of Live _ \<Rightarrow> True | _ \<Rightarrow> False)"

definition standings :: "rat \<Rightarrow> rat \<Rightarrow> dict \<Rightarrow> standing list" where
  "standings ttl now l = map (standing_of ttl now \<circ> snd) l"

definition summarise :: "standing list \<Rightarrow> open_summary" where
  "summarise ss =
     \<lparr>open_usd = round_to 8 (sum_list (map live_amount ss)),
      open_count = length (filter is_live ss),
      expired_count = length (filter (\<lambda>s. s = Expired) ss),
      read_failed = None\<rparr>"

definition open_reservations ::
  "env \<Rightarrow> string \<Rightarrow> rat \<Rightarrow> ledger_fs \<Rightarrow> open_summary result" where
  "open_reservations e dir now fs =
     (case read_jsonl fs (res_path dir) of
        Inl x \<Rightarrow> absorb e x \<lparr>open_usd = 0, open_count = 0, expired_count = 0,
                  read_failed = Some (safe_exception_type_name x)\<rparr>
      | Inr rows \<Rightarrow>
          bindR (latest_rows [] rows) (\<lambda>l.
          bindR (res_ttl e) (\<lambda>ttl. Inr (summarise (standings ttl now l)))))"

definition open_reservations_usd :: "env \<Rightarrow> string \<Rightarrow> rat \<Rightarrow> ledger_fs \<Rightarrow> rat result" where
  "open_reservations_usd e dir now fs =
     bindR (open_reservations e dir now fs) (\<lambda>s. Inr (open_usd s))"

section \<open>Rows and their order\<close>

definition row_of :: "string \<Rightarrow> pyv \<Rightarrow> bool" where
  "row_of rid v \<longleftrightarrow> (\<exists>d. v = VDict d \<and> dict_get d ''reservation_id'' = VStr rid)"

definition foreign :: "string \<Rightarrow> pyv list \<Rightarrow> bool" where
  "foreign rid vs \<longleftrightarrow> (\<forall>v \<in> set vs. is_dict v \<and> \<not> row_of rid v)"

lemma foreign_simps [simp]:
  "foreign rid []"
  "foreign rid (vs @ ws) \<longleftrightarrow> foreign rid vs \<and> foreign rid ws"
  "foreign rid (v # vs) \<longleftrightarrow> is_dict v \<and> \<not> row_of rid v \<and> foreign rid vs"
  by (auto simp: foreign_def)

lemma latest_append:
  "latest_rows acc (xs @ ys) = bindR (latest_rows acc xs) (\<lambda>a. latest_rows a ys)"
  by (induction xs arbitrary: acc) (auto simp: bindR_def split: sum.splits)

lemma keys_dict_set: "set (map fst (dict_set d k v)) = insert k (set (map fst d))"
  by (induction d k v rule: dict_set.induct) auto

lemma distinct_dict_set: "distinct (map fst d) \<Longrightarrow> distinct (map fst (dict_set d k v))"
proof (induction d k v rule: dict_set.induct)
  case (2 k' v' d k v)
  then show ?case using keys_dict_set [of d k v] by (auto simp del: set_map)
qed simp

definition less_key :: "string \<Rightarrow> dict \<Rightarrow> dict" where
  "less_key k d = filter (\<lambda>kv. fst kv \<noteq> k) d"

lemma less_key_set_same [simp]: "less_key k (dict_set d k v) = less_key k d"
  by (induction d k v rule: dict_set.induct) (auto simp: less_key_def)

lemma less_key_set_other: "k' \<noteq> k \<Longrightarrow> less_key k (dict_set d k' v) = dict_set (less_key k d) k' v"
  by (induction d k' v rule: dict_set.induct) (auto simp: less_key_def)

text \<open>Rows of other reservations read the same with and without the one of \<open>rid\<close>.\<close>

lemma latest_foreign:
  assumes "foreign rid vs" "distinct (map fst acc)"
  shows "\<exists>l. latest_rows acc vs = Inr l \<and> distinct (map fst l) \<and> map_of l rid = map_of acc rid \<and>
    latest_rows (less_key rid acc) vs = Inr (less_key rid l)"
  using assms
proof (induction vs arbitrary: acc)
  case (Cons v vs)
  then obtain d where v: "v = VDict d" "dict_get d ''reservation_id'' \<noteq> VStr rid" "foreign rid vs"
    by (auto simp: row_of_def dest: is_dictD)
  let ?f = "\<lambda>a. case dict_get d ''reservation_id'' of
      VStr s \<Rightarrow> if s \<noteq> [] then dict_set a s v else a | _ \<Rightarrow> a"
  have get: "py_get v ''reservation_id'' VNone = Inr (dict_get d ''reservation_id'')"
    by (simp add: v(1) dict_get_def)
  have "distinct (map fst (?f acc))" "map_of (?f acc) rid = map_of acc rid"
    "less_key rid (?f acc) = ?f (less_key rid acc)"
    using Cons.prems(2) v(2) by (auto simp: distinct_dict_set less_key_set_other split: pyv.splits)
  with Cons.IH [OF v(3), of "?f acc"] show ?case by (auto simp: get)
qed simp

lemma less_key_absent: "map_of l k = None \<Longrightarrow> less_key k l = l"
  by (auto simp: less_key_def filter_id_conv map_of_eq_None_iff)

text \<open>A summary depends on the standings alone, not on their order.\<close>

lemma summarise_mset: "mset ss = mset ts \<Longrightarrow> summarise ss = summarise ts"
proof -
  assume m: "mset ss = mset ts"
  have "sum_list (map live_amount ss) = sum_list (map live_amount ts)"
    using m by (metis mset_map sum_mset_sum_list)
  moreover have "length (filter P ss) = length (filter P ts)" for P
    using m by (metis mset_filter size_mset)
  ultimately show ?thesis by (simp add: summarise_def)
qed

lemma standings_key:
  "distinct (map fst l) \<Longrightarrow> map_of l k = Some r \<Longrightarrow>
     mset (standings ttl now l) = mset (standing_of ttl now r # standings ttl now (less_key k l))"
proof (induction l)
  case (Cons kv l)
  show ?case
  proof (cases "fst kv = k")
    case True
    then have "map_of l k = None" using Cons.prems(1) by (simp add: map_of_eq_None_iff)
    then have "less_key k l = l" by (rule less_key_absent)
    with True Cons.prems(2) show ?thesis by (cases kv) (simp add: standings_def less_key_def)
  next
    case False
    with Cons show ?thesis by (cases kv) (simp add: standings_def less_key_def)
  qed
qed simp

lemmas summarise_key = summarise_mset [OF standings_key]

lemma summarise_NotOpen: "summarise (NotOpen # ss) = summarise ss"
  by (simp add: summarise_def live_amount_def is_live_def)

lemma standing_closing:
  "status \<noteq> ''open'' \<Longrightarrow> standing_of ttl now (VDict (closing_row h status t a m @ extra)) = NotOpen"
  by (simp add: standing_of_def closing_row_def dict_get_def)

lemma standing_open_row:
  "standing_of ttl now (VDict (open_row h)) = (if ttl < now - h_ts h then Expired else Live (h_expected h))"
  by (simp add: standing_of_def open_row_def dict_get_def number_of_def)


section \<open>What the operations append\<close>

lemma res_append_ok:
  "ledger_ok (res_path dir) fs \<Longrightarrow>
     res_append e umask WrOk dir row fs = (ledger_append e umask (res_path dir) (VDict row) fs, Inr True)"
  using append_result_ok [of "res_path dir" fs e umask 0 0 "VDict row"]
  by (cases "atomic_append_jsonl e umask WrOk 0 0 (res_path dir) (VDict row) fs")
    (simp add: res_append_def ledger_append_def)

lemma reserve_Held:
  assumes "ledger_ok (res_path dir) fs"
    and "reserve e umask WrOk dir rid subject cycle expected now spend fs = (fs', Inr (Held h))"
  shows "fs' = ledger_append e umask (res_path dir) (VDict (open_row h)) fs"
    and "h_id h = rid" and "h_ts h = now" and "h_expected h = round_to 8 (max 0 expected)"
  using assms by (auto simp: reserve_def Let_def res_append_ok split: if_splits sum.splits)

definition closes :: "handle \<Rightarrow> dict \<Rightarrow> bool" where
  "closes h row \<longleftrightarrow> dict_get row ''reservation_id'' = VStr (h_id h) \<and>
     (\<forall>ttl now. standing_of ttl now (VDict row) = NotOpen)"

lemma closing_row_closes:
  "status \<noteq> ''open'' \<Longrightarrow> closes h (closing_row h status t a m @ extra)"
  by (simp add: closes_def standing_closing) (simp add: closing_row_def dict_get_def)

lemma settle_row:
  assumes "ledger_ok (res_path dir) fs"
    and "settle e umask WrOk dir (Held h) actual now spend fs = (fs', Inr out)"
  shows "\<exists>row. fs' = ledger_append e umask (res_path dir) (VDict row) fs \<and> closes h row"
  using assms closing_row_closes [where extra = "[]" and h = h and status = "''settled''"]
  by (auto simp: settle_def Let_def res_append_ok split: sum.splits)

lemma release_row:
  assumes "ledger_ok (res_path dir) fs"
    and "release e umask WrOk dir (Held h) reason now fs = (fs', Inr out)"
  shows "\<exists>row. fs' = ledger_append e umask (res_path dir) (VDict row) fs \<and> closes h row"
  using assms closing_row_closes [where h = h and status = "''released''"]
  by (auto simp: release_def Let_def res_append_ok)

lemma open_reservations_ok:
  assumes "ledger_ok (res_path dir) fs"
  shows "open_reservations e dir now fs =
    bindR (latest_rows [] (ledger_rows (res_path dir) fs)) (\<lambda>l.
      bindR (res_ttl e) (\<lambda>ttl. Inr (summarise (standings ttl now l))))"
  using assms by (simp add: open_reservations_def ledger_read_ok)

definition read_standings :: "env \<Rightarrow> string \<Rightarrow> rat \<Rightarrow> ledger_fs \<Rightarrow> standing list result" where
  "read_standings e dir now fs =
     bindR (read_jsonl fs (res_path dir)) (\<lambda>rows.
     bindR (latest_rows [] rows) (\<lambda>l. bindR (res_ttl e) (\<lambda>ttl. Inr (standings ttl now l))))"

text \<open>The latest rows after a reservation, then others, then perhaps its closing row.\<close>

lemma latest_reserved:
  assumes "foreign (h_id h) xs" "foreign (h_id h) vs" "h_id h \<noteq> []"
  obtains l where "latest_rows [] (xs @ VDict (open_row h) # vs) = Inr l" "distinct (map fst l)"
    "map_of l (h_id h) = Some (VDict (open_row h))" "latest_rows [] (xs @ vs) = Inr (less_key (h_id h) l)"
proof -
  obtain a where a: "latest_rows [] xs = Inr a" "distinct (map fst a)" "map_of a (h_id h) = None"
    using latest_foreign [OF assms(1), of "[]"] by auto
  let ?b = "dict_set a (h_id h) (VDict (open_row h))"
  have b: "distinct (map fst ?b)" "map_of ?b (h_id h) = Some (VDict (open_row h))"
    "less_key (h_id h) ?b = a"
    using a by (simp_all add: distinct_dict_set less_key_absent)
  obtain l where l: "latest_rows ?b vs = Inr l" "distinct (map fst l)"
    "map_of l (h_id h) = Some (VDict (open_row h))" "latest_rows a vs = Inr (less_key (h_id h) l)"
    using latest_foreign [OF assms(2) b(1)] b by auto
  have "py_get (VDict (open_row h)) ''reservation_id'' VNone = Inr (VStr (h_id h))"
    by (simp add: open_row_def)
  with a l assms(3) that show thesis by (simp add: latest_append)
qed

lemma latest_closed:
  assumes "latest_rows [] rows = Inr l" "dict_get row ''reservation_id'' = VStr rid" "rid \<noteq> []"
  shows "latest_rows [] (rows @ [VDict row]) = Inr (dict_set l rid (VDict row))"
proof -
  have "py_get (VDict row) ''reservation_id'' VNone = Inr (VStr rid)"
    using assms(2) by (simp add: dict_get_def)
  with assms show ?thesis by (simp add: latest_append)
qed

lemma reservation_seen:
  assumes "ledger_ok (res_path dir) fs"
    and "reserve e umask WrOk dir rid subject cycle expected t0 spend fs = (fs1, Inr (Held h))"
    and "rid \<noteq> []" and "foreign rid (ledger_rows (res_path dir) fs)" and "foreign rid vs"
    and "res_ttl e = Inr ttl"
  shows "\<exists>ss. read_standings e dir t (fold (ledger_append e umask (res_path dir)) vs fs) = Inr ss \<and>
    open_reservations e dir t (fold (ledger_append e umask (res_path dir)) vs fs) = Inr (summarise ss) \<and>
    open_reservations e dir t (fold (ledger_append e umask (res_path dir)) vs fs1) =
      Inr (summarise ((if ttl < t - t0 then Expired else Live (round_to 8 (max 0 expected))) # ss))"
proof -
  let ?p = "res_path dir" and ?xs = "ledger_rows (res_path dir) fs"
  note h = reserve_Held [OF assms(1,2)]
  have ok1: "ledger_ok ?p fs1" and rows1: "ledger_rows ?p fs1 = ?xs @ [VDict (open_row h)]"
    using assms(1) unfolding h(1) by (simp_all add: ledger_append_ok ledger_rows_append)
  have ff: "foreign (h_id h) ?xs" "foreign (h_id h) vs" "h_id h \<noteq> []"
    using assms(3-5) h(2) by simp_all
  obtain l where l: "latest_rows [] (?xs @ VDict (open_row h) # vs) = Inr l" "distinct (map fst l)"
    "map_of l (h_id h) = Some (VDict (open_row h))" "latest_rows [] (?xs @ vs) = Inr (less_key (h_id h) l)"
    by (rule latest_reserved [OF ff])
  have "open_reservations e dir t (fold (ledger_append e umask ?p) vs fs) =
      Inr (summarise (standings ttl t (less_key (h_id h) l)))"
    using open_reservations_ok [OF ledger.ok_fold [OF assms(1)]] assms(6) l(4)
    by (simp add: ledger.rows_fold [OF assms(1)])
  moreover have "read_standings e dir t (fold (ledger_append e umask ?p) vs fs) =
      Inr (standings ttl t (less_key (h_id h) l))"
    using ledger_read_ok [OF ledger.ok_fold [OF assms(1)]] assms(6) l(4)
    by (simp add: read_standings_def ledger.rows_fold [OF assms(1)])
  moreover have "open_reservations e dir t (fold (ledger_append e umask ?p) vs fs1) =
      Inr (summarise (standings ttl t l))"
    using open_reservations_ok [OF ledger.ok_fold [OF ok1]] assms(6) l(1)
    by (simp add: ledger.rows_fold [OF ok1] rows1)
  ultimately show ?thesis
    using summarise_key [OF l(2,3), of ttl t] by (auto simp: standing_open_row h(3,4))
qed

section \<open>Properties\<close>

text \<open>A reservation is visible while it is open: once \<open>reserve\<close> returns a handle, then after any
  rows of other reservations every reader at a time within the lifetime sees one more open
  reservation and the reserved amount added to the sum before rounding, and a later reader
  counts it as expired and adds nothing.\<close>

theorem reservation_visible:
  assumes "ledger_ok (res_path dir) fs"
    and "reserve e umask WrOk dir rid subject cycle expected t0 spend fs = (fs1, Inr (Held h))"
    and "rid \<noteq> []" and "foreign rid (ledger_rows (res_path dir) fs)" and "foreign rid vs"
    and "res_ttl e = Inr ttl"
  shows "\<exists>ss. read_standings e dir t (fold (ledger_append e umask (res_path dir)) vs fs) = Inr ss \<and>
    open_reservations e dir t (fold (ledger_append e umask (res_path dir)) vs fs) = Inr (summarise ss) \<and>
    open_reservations e dir t (fold (ledger_append e umask (res_path dir)) vs fs1) =
      Inr (summarise ((if ttl < t - t0 then Expired else Live (round_to 8 (max 0 expected))) # ss))"
  by (rule reservation_seen [OF assms])

text \<open>C26: Closing a reservation takes it out again: after it is settled (measured or not) or
  released, whatever other rows lie in between, every reader at every time sees exactly the
  summary the ledger would give had the reservation never been made.\<close>

theorem closing_restores:
  assumes "ledger_ok (res_path dir) fs"
    and "reserve e umask WrOk dir rid subject cycle expected t0 spend fs = (fs1, Inr (Held h))"
    and "rid \<noteq> []" and "foreign rid (ledger_rows (res_path dir) fs)" and "foreign rid vs"
    and "fs2 = fold (ledger_append e umask (res_path dir)) vs fs1"
    and "settle e umask WrOk dir (Held h) actual t1 spend' fs2 = (fs3, Inr out) \<or>
         release e umask WrOk dir (Held h) reason t1 fs2 = (fs3, Inr out)"
  shows "open_reservations e dir t fs3 =
    open_reservations e dir t (fold (ledger_append e umask (res_path dir)) vs fs)"
proof -
  let ?p = "res_path dir" and ?xs = "ledger_rows (res_path dir) fs"
  note h = reserve_Held [OF assms(1,2)]
  have ok1: "ledger_ok ?p fs1" and rows1: "ledger_rows ?p fs1 = ?xs @ [VDict (open_row h)]"
    using assms(1) unfolding h(1) by (simp_all add: ledger_append_ok ledger_rows_append)
  have ok2: "ledger_ok ?p fs2" and rows2: "ledger_rows ?p fs2 = ?xs @ VDict (open_row h) # vs"
    unfolding assms(6) by (simp_all add: ledger.ok_fold [OF ok1] ledger.rows_fold [OF ok1] rows1)
  have ff: "foreign (h_id h) ?xs" "foreign (h_id h) vs" "h_id h \<noteq> []"
    using assms(3-5) h(2) by simp_all
  obtain row where row: "fs3 = ledger_append e umask ?p (VDict row) fs2" "closes h row"
    using assms(7) settle_row [OF ok2] release_row [OF ok2] by metis
  have ok3: "ledger_ok ?p fs3" and rows3: "ledger_rows ?p fs3 = ledger_rows ?p fs2 @ [VDict row]"
    using ok2 unfolding row(1) by (simp_all add: ledger_append_ok ledger_rows_append)
  obtain l where l: "latest_rows [] (?xs @ VDict (open_row h) # vs) = Inr l" "distinct (map fst l)"
    "map_of l (h_id h) = Some (VDict (open_row h))" "latest_rows [] (?xs @ vs) = Inr (less_key (h_id h) l)"
    by (rule latest_reserved [OF ff])
  let ?m = "dict_set l (h_id h) (VDict row)"
  have "latest_rows [] (ledger_rows ?p fs3) = Inr ?m"
    using latest_closed [OF l(1)] row(2) ff(3) rows2 rows3 by (simp add: closes_def)
  moreover have "summarise (standings ttl t ?m) = summarise (standings ttl t (less_key (h_id h) l))" for ttl
    using summarise_key [of ?m "h_id h" "VDict row" ttl t] l(2) row(2)
    by (simp add: distinct_dict_set closes_def summarise_NotOpen)
  ultimately show ?thesis
    using l(4) by (simp add: open_reservations_ok [OF ok3]
        open_reservations_ok [OF ledger.ok_fold [OF assms(1)]] ledger.rows_fold [OF assms(1)])
qed

text \<open>A reservation that could not be written down is refused, never silently granted: outside
  strict mode a failed write makes \<open>reserve\<close> return the refusal, which is not confused with the
  closed gate, and settling or releasing what was refused writes nothing.\<close>

theorem unwritten_reservation_refused:
  assumes "res_enabled e" and "\<not> strict_enabled e"
    and "snd (atomic_append_jsonl e umask w 0 0 (res_path dir)
           (VDict (open_row \<lparr>h_id = rid, h_subject = subject, h_cycle = cycle,
              h_expected = round_to 8 (max 0 expected), h_ts = now,
              h_before = (case spend of Inr r \<Rightarrow> Some r | Inl _ \<Rightarrow> None)\<rparr>)) fs) = Inl x"
  shows "\<exists>fs'. reserve e umask w dir rid subject cycle expected now spend fs =
      (fs', Inr (Unavailable subject cycle)) \<and>
    is_unavailable (Unavailable subject cycle) \<and> \<not> is_unavailable GateOff \<and>
    settle e umask w dir (Unavailable subject cycle) actual t sp fs' = (fs', Inr None) \<and>
    release e umask w dir (Unavailable subject cycle) reason t fs' = (fs', Inr None)"
  using assms
  by (auto simp: reserve_def safe_episode_spend_def res_append_def Let_def open_row_def absorb_def
      is_unavailable_def settle_def release_def split: sum.splits prod.split)

section \<open>Witnesses\<close>

definition res_env :: env where
  "res_env = no_env(''AGI_V8_SPEND_RESERVATION_ENABLED'' \<mapsto> ''1'')"

lemma res_env [simp]: "res_enabled res_env" "\<not> strict_enabled res_env" "res_ttl res_env = Inr 1800"
  by (simp_all add: res_enabled_def strict_enabled_def gate_strict_def res_env_def res_ttl_def
      no_env_def default_res_ttl_def getenv_def strict_env_def)

definition sample_handle :: handle where
  "sample_handle = \<lparr>h_id = ''r1'', h_subject = ''dispatch'', h_cycle = VNone, h_expected = 2,
     h_ts = 100, h_before = Some 0\<rparr>"

lemma sample_reserve:
  "\<exists>fs1. reserve res_env 18 WrOk ''/s'' ''r1'' ''dispatch'' VNone 2 100 (Inr 0) empty_fs =
     (fs1, Inr (Held sample_handle))"
proof -
  have "round_to 8 2 = 2" by (simp add: round_to_def round_even_def)
  then show ?thesis
    by (simp add: reserve_def res_append_ok safe_episode_spend_def sample_handle_def Let_def)
qed

theorem reservation_visible_witness:
  "\<exists>fs1. open_reservations res_env ''/s'' 200 fs1 = Inr (summarise [Live (round_to 8 2)])"
proof -
  obtain fs1 where r: "reserve res_env 18 WrOk ''/s'' ''r1'' ''dispatch'' VNone 2 100 (Inr 0) empty_fs =
     (fs1, Inr (Held sample_handle))" using sample_reserve by blast
  have none: "read_standings res_env ''/s'' 200 empty_fs = Inr []"
    using ledger_read_ok [OF empty_fs_ok(1)] by (simp add: read_standings_def standings_def)
  have "\<exists>ss. read_standings res_env ''/s'' 200 empty_fs = Inr ss \<and>
      open_reservations res_env ''/s'' 200 fs1 = Inr (summarise (Live (round_to 8 2) # ss))"
    using reservation_visible [OF _ r, where vs = "[]" and t = 200] by auto
  then show ?thesis using none by auto
qed

theorem closing_restores_witness:
  "\<exists>fs3. open_reservations res_env ''/s'' 200 fs3 = Inr (summarise [])"
proof -
  obtain fs1 where r: "reserve res_env 18 WrOk ''/s'' ''r1'' ''dispatch'' VNone 2 100 (Inr 0) empty_fs =
     (fs1, Inr (Held sample_handle))" using sample_reserve by blast
  have ok1: "ledger_ok (res_path ''/s'') fs1"
    using reserve_Held(1) [OF _ r] by (simp add: ledger_append_ok)
  obtain fs3 out where c: "release res_env 18 WrOk ''/s'' (Held sample_handle) None 150 fs1 = (fs3, Inr out)"
    by (simp add: release_def res_append_ok [OF ok1] Let_def)
  have "open_reservations res_env ''/s'' 200 fs3 = open_reservations res_env ''/s'' 200 empty_fs"
    by (rule closing_restores [OF _ r _ _ _ _ disjI2 [OF c], where vs = "[]", simplified])
  then show ?thesis by (auto simp: open_reservations_ok standings_def)
qed

theorem unwritten_reservation_refused_witness:
  "\<exists>fs'. reserve res_env 18 WrNone ''/s'' ''r1'' ''dispatch'' VNone 2 100 (Inr 0) empty_fs =
     (fs', Inr (Unavailable ''dispatch'' VNone))"
proof -
  have failed: "snd (atomic_append_jsonl res_env 18 WrNone 0 0 p row empty_fs) =
      Inl (OSError ''short write while appending JSONL'')" for p row
    by (simp add: atomic_append_eq append_jsonl_unlocked_def empty_fs_def)
  show ?thesis using unwritten_reservation_refused [OF res_env(1,2) failed, where spend = "Inr 0"] by blast
qed

end
