(* ===== verification/PathGuard.thy ===== *)
theory PathGuard
  imports Store
begin

text \<open>
  Path containment (\<open>state/path_guard.py\<close>): safe slugs, containment under a root, and the
  resolution of a ledger's destination. A path is read as its list of components; resolving
  walks them over the file system of \<^theory_text>\<open>Store\<close>, following symbolic links. A chain of more
  than \<open>max_hops\<close> links counts as a loop, whose rest is kept as written. The working directory,
  the expansion of \<open>~\<close> and the package directory are arguments; a component the process may not
  examine is outside the model.
\<close>

section \<open>Components\<close>

fun split_on :: "char \<Rightarrow> string \<Rightarrow> string list" where
  "split_on s [] = [[]]"
| "split_on s (c # cs) =
     (if c = s then [] # split_on s cs
      else (case split_on s cs of [] \<Rightarrow> [[c]] | w # ws \<Rightarrow> (c # w) # ws))"

definition slash :: char where "slash = CHR ''/''"

text \<open>What \<open>pathlib\<close> keeps of a text: no empty components and no single dots.\<close>

definition comps :: "string \<Rightarrow> string list" where
  "comps p = filter (\<lambda>c. c \<noteq> [] \<and> c \<noteq> ''.'') (split_on slash p)"

definition is_absolute :: "string \<Rightarrow> bool" where
  "is_absolute p \<longleftrightarrow> take 1 p = ''/''"

fun render :: "string list \<Rightarrow> path" where
  "render [] = ''/''"
| "render [c] = slash # c"
| "render (c # d # cs) = slash # c @ render (d # cs)"

text \<open>A parsed path: whether it is absolute, and its components.\<close>

type_synonym ppath = "bool \<times> string list"

definition parse :: "string \<Rightarrow> ppath" where
  "parse p = (is_absolute p, comps p)"

definition absolute_comps :: "string list \<Rightarrow> ppath \<Rightarrow> string list" where
  "absolute_comps cwd p = (if fst p then snd p else cwd @ snd p)"

section \<open>Home directories\<close>

text \<open>
  \<open>home u\<close> is the home directory of the user named \<open>u\<close> (of the current one for the empty name),
  when it is known. \<open>os.path.expanduser\<close> leaves a text it cannot expand as it is;
  \<open>Path.expanduser\<close> raises, and looks at the first component of the parsed path.
\<close>

definition rstrip_slash :: "string \<Rightarrow> string" where
  "rstrip_slash p = rev (dropWhile (\<lambda>c. c = slash) (rev p))"

definition os_expanduser :: "(string \<Rightarrow> string option) \<Rightarrow> string \<Rightarrow> string" where
  "os_expanduser home p =
     (if take 1 p \<noteq> ''~'' then p
      else (case home (takeWhile (\<lambda>c. c \<noteq> slash) (tl p)) of
              None \<Rightarrow> p
            | Some h \<Rightarrow>
                (let q = rstrip_slash h @ dropWhile (\<lambda>c. c \<noteq> slash) p
                 in if q = [] then ''/'' else q)))"

definition tilde :: "ppath \<Rightarrow> bool" where
  "tilde p \<longleftrightarrow> \<not> fst p \<and> take 1 (concat (take 1 (snd p))) = ''~''"

definition path_expanduser :: "(string \<Rightarrow> string option) \<Rightarrow> ppath \<Rightarrow> ppath result" where
  "path_expanduser home p =
     (if tilde p
      then (let h = os_expanduser home (hd (snd p))
            in if take 1 h = ''~'' then Inl (RuntimeError ''Could not determine home directory.'')
               else Inr (is_absolute h, comps h @ tl (snd p)))
      else Inr p)"

section \<open>Slugs\<close>

definition alnum :: "char \<Rightarrow> bool" where
  "alnum c \<longleftrightarrow> (let n = char_code c in 48 \<le> n \<and> n \<le> 57 \<or> 65 \<le> n \<and> n \<le> 90 \<or> 97 \<le> n \<and> n \<le> 122)"

definition slug_char :: "char \<Rightarrow> bool" where
  "slug_char c \<longleftrightarrow> alnum c \<or> c = CHR ''.'' \<or> c = CHR ''_'' \<or> c = CHR ''-''"

definition safe_slug :: "string \<Rightarrow> bool" where
  "safe_slug t \<longleftrightarrow> (case t of [] \<Rightarrow> False | c # cs \<Rightarrow> alnum c \<and> list_all slug_char cs)"

definition validate_slug :: "(rat \<Rightarrow> string) \<Rightarrow> pyv \<Rightarrow> string \<Rightarrow> string result" where
  "validate_slug fr value what =
     (let text = py_str fr value in
      if \<not> safe_slug text \<or> text \<in> {''.'', ''..''} \<or> contains text ''..''
      then Inl (ValueError (''unsafe '' @ what @ '': '' @ py_repr fr value))
      else Inr text)"

section \<open>Resolution\<close>

definition max_hops :: nat where "max_hops = 40"

text \<open>\<open>done\<close> is the resolved part, innermost component last; \<open>todo\<close> what remains to walk.\<close>

function walk_path :: "'c fs \<Rightarrow> nat \<Rightarrow> string list \<Rightarrow> string list \<Rightarrow> string list" where
  "walk_path fs hops sofar [] = sofar"
| "walk_path fs hops sofar (c # todo) =
     (if c = ''..'' then walk_path fs hops (butlast sofar) todo
      else (case fs (render (sofar @ [c])) of
              Some (Link target) \<Rightarrow>
                (if hops = 0 then sofar @ c # todo
                 else walk_path fs (hops - 1) (if is_absolute target then [] else sofar) (comps target @ todo))
            | _ \<Rightarrow> walk_path fs hops (sofar @ [c]) todo))"
  by pat_completeness auto

termination
  by (relation "measures [\<lambda>(fs, hops, sofar, todo). hops, \<lambda>(fs, hops, sofar, todo). length todo]") auto

definition resolve :: "'c fs \<Rightarrow> string list \<Rightarrow> string list" where
  "resolve fs cs = walk_path fs max_hops [] cs"

section \<open>Containment\<close>

definition require_under ::
  "'c fs \<Rightarrow> string list \<Rightarrow> (string \<Rightarrow> string option) \<Rightarrow> ppath \<Rightarrow> ppath \<Rightarrow> string \<Rightarrow> string list result" where
  "require_under fs cwd home base target what =
     bindR (path_expanduser home target) (\<lambda>q.
       let r = resolve fs (absolute_comps cwd base);
           t = resolve fs (absolute_comps cwd q)
       in if prefix r t then Inr t
          else Inl (RuntimeError (''refusing '' @ what @ '': '' @ render t @ '' escapes '' @ render r)))"

definition sink_strict_enabled :: "env \<Rightarrow> bool" where
  "sink_strict_enabled e = gate_loose e ''AGI_V8_LEDGER_SINK_STRICT''"

definition default_sink_root ::
  "env \<Rightarrow> 'c fs \<Rightarrow> string list \<Rightarrow> (string \<Rightarrow> string option) \<Rightarrow> string list \<Rightarrow> string list result" where
  "default_sink_root e fs cwd home package =
     (let a = getenv e ''AGI_V8_STATE_DIR'' []; b = getenv e ''AGI_STATE_DIR'' [];
          raw = (if a \<noteq> [] then a else b)
      in if raw \<noteq> []
         then bindR (path_expanduser home (parse raw)) (\<lambda>p. Inr (resolve fs (absolute_comps cwd p)))
         else Inr package)"

text \<open>
  \<open>resolve_sink\<close>: the parent is resolved and the last component kept, so that a link there
  stays visible to the write; the containment check looks at the fully resolved path.
\<close>

definition resolve_sink ::
  "env \<Rightarrow> 'c fs \<Rightarrow> string list \<Rightarrow> (string \<Rightarrow> string option) \<Rightarrow> string list \<Rightarrow> string \<Rightarrow> string
    \<Rightarrow> ppath option \<Rightarrow> string list result" where
  "resolve_sink e fs cwd home package value what base =
     (let p = parse (os_expanduser home value);
          parent = resolve fs (absolute_comps cwd (fst p, butlast (snd p)));
          out = (if snd p = [] then parent else parent @ [List.last (snd p)])
      in if sink_strict_enabled e
         then bindR (case base of Some b \<Rightarrow> Inr b
                     | None \<Rightarrow> bindR (default_sink_root e fs cwd home package) (\<lambda>r. Inr (True, r))) (\<lambda>b.
              bindR (require_under fs cwd home b p what) (\<lambda>_. Inr out))
         else Inr out)"

text \<open>What of the machine the resolution of a ledger path reads, and the path as a text.\<close>

record host =
  h_cwd :: "string list"
  h_home :: "string \<Rightarrow> string option"
  h_package :: "string list"

definition sink_path :: "env \<Rightarrow> host \<Rightarrow> 'c fs \<Rightarrow> string \<Rightarrow> string \<Rightarrow> path result" where
  "sink_path e h fs value what =
     bindR (resolve_sink e fs (h_cwd h) (h_home h) (h_package h) value what None)
       (\<lambda>cs. Inr (render cs))"

section \<open>Texts and components\<close>

lemma split_on_nonempty [simp]: "split_on s xs \<noteq> []"
  by (cases xs) (auto split: list.splits)

lemma split_on_append: "split_on s (xs @ s # ys) = split_on s xs @ split_on s ys"
  by (induction xs) (auto split: list.splits)

lemma split_on_free: "s \<notin> set xs \<Longrightarrow> split_on s xs = [xs]"
  by (induction xs) auto

lemma comps_append: "comps (dir @ slash # p) = comps dir @ comps p"
  by (simp add: comps_def split_on_append)

lemma slug_char_no_slash: "\<not> slug_char slash"
  by code_simp

lemma alnum_slug: "alnum c \<Longrightarrow> slug_char c"
  by (simp add: slug_char_def)

lemma safe_slug_no_slash: "safe_slug s \<Longrightarrow> slash \<notin> set s"
  using slug_char_no_slash alnum_slug [of slash]
  by (cases s) (auto simp: safe_slug_def list_all_iff)

lemma validate_slug_Inr:
  assumes "validate_slug fr value what = Inr s"
  shows "comps s = [s]" and "s \<noteq> ''..''" and "s = py_str fr value"
proof -
  have s: "safe_slug s" "s \<noteq> ''.''" "s \<noteq> ''..''" "s = py_str fr value"
    using assms unfolding validate_slug_def Let_def by (auto split: if_splits)
  have "split_on slash s = [s]" by (rule split_on_free [OF safe_slug_no_slash [OF s(1)]])
  moreover have "s \<noteq> []" using s(1) by (auto simp: safe_slug_def)
  ultimately show "comps s = [s]" by (simp add: comps_def s(2))
  show "s \<noteq> ''..''" "s = py_str fr value" by (rule s(3), rule s(4))
qed

section \<open>Walks that meet no loop\<close>

function settles :: "'c fs \<Rightarrow> nat \<Rightarrow> string list \<Rightarrow> string list \<Rightarrow> bool" where
  "settles fs hops sofar [] \<longleftrightarrow> True"
| "settles fs hops sofar (c # todo) \<longleftrightarrow>
     (if c = ''..'' then settles fs hops (butlast sofar) todo
      else (case fs (render (sofar @ [c])) of
              Some (Link target) \<Rightarrow>
                (if hops = 0 then False
                 else settles fs (hops - 1) (if is_absolute target then [] else sofar) (comps target @ todo))
            | _ \<Rightarrow> settles fs hops (sofar @ [c]) todo))"
  by pat_completeness auto

termination
  by (relation "measures [\<lambda>(fs, hops, sofar, todo). hops, \<lambda>(fs, hops, sofar, todo). length todo]") auto

definition is_link :: "'c fs \<Rightarrow> string list \<Rightarrow> bool" where
  "is_link fs cs \<longleftrightarrow> (\<exists>t. fs (render cs) = Some (Link t))"

lemma is_link_code [code]:
  "is_link fs cs = (case fs (render cs) of Some (Link _) \<Rightarrow> True | _ \<Rightarrow> False)"
  by (auto simp: is_link_def split: option.splits node.splits)

text \<open>A path no component of which is a link or a double dot.\<close>

definition clean :: "'c fs \<Rightarrow> string list \<Rightarrow> bool" where
  "clean fs cs \<longleftrightarrow> ''..'' \<notin> set cs \<and> (\<forall>xs. xs \<noteq> [] \<longrightarrow> prefix xs cs \<longrightarrow> \<not> is_link fs xs)"

lemma clean_Nil [simp]: "clean fs []"
  by (simp add: clean_def)

lemma clean_snoc: "clean fs (cs @ [c]) \<longleftrightarrow> clean fs cs \<and> c \<noteq> ''..'' \<and> \<not> is_link fs (cs @ [c])"
  by (auto simp: clean_def prefix_snoc)

lemma clean_butlast: "clean fs cs \<Longrightarrow> clean fs (butlast cs)"
  by (cases cs rule: rev_cases) (simp_all add: clean_snoc)

lemma walk_up:
  "walk_path fs hops sofar (''..'' # todo) = walk_path fs hops (butlast sofar) todo"
  "settles fs hops sofar (''..'' # todo) = settles fs hops (butlast sofar) todo"
  by simp_all

lemma walk_plain:
  assumes "c \<noteq> ''..''" and "\<not> is_link fs (sofar @ [c])"
  shows "walk_path fs hops sofar (c # todo) = walk_path fs hops (sofar @ [c]) todo"
    and "settles fs hops sofar (c # todo) = settles fs hops (sofar @ [c]) todo"
  using assms by (auto simp: is_link_def split: option.splits node.splits)

lemma walk_link:
  assumes "c \<noteq> ''..''" and "fs (render (sofar @ [c])) = Some (Link t)"
  shows "hops \<noteq> 0 \<Longrightarrow> walk_path fs hops sofar (c # todo) =
      walk_path fs (hops - 1) (if is_absolute t then [] else sofar) (comps t @ todo)"
    and "settles fs hops sofar (c # todo) \<longleftrightarrow>
      hops \<noteq> 0 \<and> settles fs (hops - 1) (if is_absolute t then [] else sofar) (comps t @ todo)"
  using assms by simp_all

lemmas walk_steps = walk_up walk_plain walk_link

declare walk_path.simps(2) [simp del] settles.simps(2) [simp del]

text \<open>Induction over the three kinds of step of a walk.\<close>

lemma walk_induct [case_names stop up plain link]:
  fixes P :: "nat \<Rightarrow> string list \<Rightarrow> string list \<Rightarrow> bool" and fs :: "'c fs"
  assumes stop: "\<And>hops sofar. P hops sofar []"
    and up: "\<And>hops sofar todo. P hops (butlast sofar) todo \<Longrightarrow> P hops sofar (''..'' # todo)"
    and plain: "\<And>hops sofar c todo. c \<noteq> ''..'' \<Longrightarrow> \<not> is_link fs (sofar @ [c]) \<Longrightarrow>
      P hops (sofar @ [c]) todo \<Longrightarrow> P hops sofar (c # todo)"
    and link: "\<And>hops sofar c t todo. c \<noteq> ''..'' \<Longrightarrow> fs (render (sofar @ [c])) = Some (Link t) \<Longrightarrow>
      (hops \<noteq> 0 \<Longrightarrow> P (hops - 1) (if is_absolute t then [] else sofar) (comps t @ todo)) \<Longrightarrow>
      P hops sofar (c # todo)"
  shows "P hops sofar todo"
proof -
  have "f = fs \<longrightarrow> P hops sofar todo" for f
  proof (induction f hops sofar todo rule: walk_path.induct)
    case (2 f hops sofar c todo)
    consider "c = ''..''" | "c \<noteq> ''..''" "\<not> is_link f (sofar @ [c])"
      | t where "c \<noteq> ''..''" "f (render (sofar @ [c])) = Some (Link t)"
      by (auto simp: is_link_def)
    then show ?case
    proof cases
      case 1
      then show ?thesis using 2 up by simp
    next
      case plain2: 2
      then have "f = fs \<longrightarrow> P hops (sofar @ [c]) todo"
        using 2(2,3,5) by (metis is_link_def node.exhaust not_Some_eq)
      then show ?thesis using plain plain2 by blast
    next
      case 3
      then show ?thesis using 2(4) link by blast
    qed
  qed (simp add: stop)
  then show ?thesis by simp
qed

lemma walk_link_out:
  "c \<noteq> ''..'' \<Longrightarrow> fs (render (sofar @ [c])) = Some (Link t) \<Longrightarrow> walk_path fs 0 sofar (c # todo) = sofar @ c # todo"
  by (simp add: walk_path.simps(2))

text \<open>Only the links of a file system matter to a walk.\<close>

definition same_links :: "'c fs \<Rightarrow> 'c fs \<Rightarrow> bool" where
  "same_links fs fs' \<longleftrightarrow> (\<forall>p t. fs p = Some (Link t) \<longleftrightarrow> fs' p = Some (Link t))"

lemma same_links_refl [simp]: "same_links fs fs"
  by (simp add: same_links_def)

lemma same_links_trans: "same_links fs fs' \<Longrightarrow> same_links fs' fs'' \<Longrightarrow> same_links fs fs''"
  by (simp add: same_links_def)

lemma same_links_walk:
  assumes "same_links fs fs'"
  shows "walk_path fs hops sofar todo = walk_path fs' hops sofar todo"
proof (induction hops sofar todo rule: walk_induct [where fs = fs])
  case (plain hops sofar c todo)
  then have "\<not> is_link fs' (sofar @ [c])" using assms by (simp add: is_link_def same_links_def)
  with plain show ?case by (simp add: walk_plain)
next
  case (link hops sofar c t todo)
  then have "fs' (render (sofar @ [c])) = Some (Link t)" using assms by (simp add: same_links_def)
  with link show ?case by (cases "hops = 0") (simp_all add: walk_link walk_link_out)
qed (simp_all add: walk_up)

lemma same_links_resolve: "same_links fs fs' \<Longrightarrow> resolve fs' cs = resolve fs cs"
  by (simp add: resolve_def same_links_walk)

lemma walk_clean:
  "clean fs (sofar @ cs) \<Longrightarrow>
     walk_path fs hops sofar (cs @ todo) = walk_path fs hops (sofar @ cs) todo"
proof (induction cs arbitrary: sofar)
  case (Cons c cs)
  have "clean fs (sofar @ [c])"
    using Cons.prems unfolding clean_def by (auto dest: prefix_order.trans [of _ "sofar @ [c]"])
  then have "c \<noteq> ''..''" "\<not> is_link fs (sofar @ [c])" by (simp_all add: clean_snoc)
  then show ?case using Cons.IH [of "sofar @ [c]"] Cons.prems by (simp add: walk_plain)
qed simp

lemma settles_clean: "settles fs hops sofar todo \<Longrightarrow> clean fs sofar \<Longrightarrow> clean fs (walk_path fs hops sofar todo)"
  by (induction hops sofar todo rule: walk_induct [where fs = fs])
    (auto simp: walk_steps clean_butlast clean_snoc)

lemma settles_more:
  "settles fs hops sofar todo \<Longrightarrow> hops \<le> fuel \<Longrightarrow>
     settles fs fuel sofar todo \<and> walk_path fs fuel sofar todo = walk_path fs hops sofar todo"
proof (induction hops sofar todo arbitrary: fuel rule: walk_induct [where fs = fs])
  case (link hops sofar c t todo)
  then have "hops \<noteq> 0" by (simp add: walk_link)
  then show ?case using link.prems link.IH [of "fuel - 1"] link.hyps by (simp add: walk_link)
next
  case (up hops sofar todo)
  then show ?case unfolding walk_up by blast
next
  case (plain hops sofar c todo)
  then show ?case unfolding walk_plain [OF plain.hyps] by blast
qed simp

lemma walk_append:
  "settles fs hops sofar (xs @ ys) \<Longrightarrow>
     settles fs hops sofar xs \<and>
     (\<exists>left \<le> hops. settles fs left (walk_path fs hops sofar xs) ys \<and>
        walk_path fs hops sofar (xs @ ys) = walk_path fs left (walk_path fs hops sofar xs) ys)"
proof (induction hops sofar xs rule: walk_induct [where fs = fs])
  case (link hops sofar c t todo)
  then have h: "hops \<noteq> 0" by (simp add: walk_link)
  then show ?case using link.prems link.IH link.hyps
    by (auto simp: walk_link intro: le_trans [OF _ diff_le_self])
qed (auto simp: walk_steps)

lemma resolve_parent:
  assumes "settles fs max_hops [] (xs @ [c])"
  shows "resolve fs (resolve fs xs @ [c]) = resolve fs (xs @ [c])"
proof -
  obtain left where left: "settles fs max_hops [] xs" "left \<le> max_hops"
    "settles fs left (resolve fs xs) [c]"
    "resolve fs (xs @ [c]) = walk_path fs left (resolve fs xs) [c]"
    using walk_append [OF assms] by (auto simp: resolve_def)
  have "clean fs (resolve fs xs)" unfolding resolve_def by (rule settles_clean [OF left(1)]) simp
  then have "resolve fs (resolve fs xs @ [c]) = walk_path fs max_hops (resolve fs xs) [c]"
    using walk_clean [of fs "[]" "resolve fs xs" max_hops "[c]"] by (simp add: resolve_def)
  then show ?thesis using settles_more [OF left(3,2)] left(4) by simp
qed

section \<open>Properties\<close>


text \<open>A validated slug names a direct child of whatever directory it is joined to: it adds one
  component, no traversal and no separator.\<close>

theorem slug_names_child:
  assumes "validate_slug fr value what = Inr s"
  shows "comps (dir @ ''/'' @ s) = comps dir @ [s] \<and> s \<noteq> ''..'' \<and>
    prefix (comps dir) (comps (dir @ ''/'' @ s))"
proof -
  have "comps (dir @ ''/'' @ s) = comps dir @ [s]"
    using comps_append [of dir s] validate_slug_Inr(1) [OF assms] by (simp add: slash_def)
  then show ?thesis using validate_slug_Inr(2) [OF assms] by simp
qed

section \<open>Witnesses\<close>

definition strict_sink :: env where
  "strict_sink = no_env(''AGI_V8_LEDGER_SINK_STRICT'' \<mapsto> ''1'')"

lemma strict_sink_on: "sink_strict_enabled strict_sink"
proof -
  have "getenv strict_sink ''AGI_V8_LEDGER_SINK_STRICT'' [] = ''1''" by (simp add: strict_sink_def)
  moreover have "py_lower (py_strip ''1'') = ''1''" by code_simp
  ultimately show ?thesis by (simp add: sink_strict_enabled_def gate_loose_def)
qed

text \<open>A ledger below \<open>/s\<close> through a directory link \<open>/s/l\<close> to \<open>/s/r\<close>.\<close>

definition linked_fs :: "unit fs" where
  "linked_fs p = (if p = ''/s/l'' then Some (Link ''/s/r'') else None)"

definition nobody :: "string \<Rightarrow> string option" where "nobody u = None"

lemma linked_walks:
  "parse (os_expanduser nobody ''/s/l/x'') = (True, [''s'', ''l'', ''x''])"
  "resolve linked_fs [''s'', ''l''] = [''s'', ''r'']"
  "resolve linked_fs [''s''] = [''s'']"
  "resolve linked_fs [''s'', ''l'', ''x''] = [''s'', ''r'', ''x'']"
  "settles linked_fs max_hops [] [''s'', ''l'', ''x'']"
  by code_simp+


text \<open>
  The one gap: a text that begins with a dot and a tilde component is not expanded as a text but
  is as a path. With the home directory below the root, the check looks there and the write goes to
  a directory named by the tilde, below the working directory.
\<close>

definition me :: "string \<Rightarrow> string option" where
  "me u = (if u = [] then Some ''/s/me'' else None)"

lemma strict_sink_tilde_escape:
  "resolve_sink strict_sink (\<lambda>_. None) [''w''] me [] ''./~/x'' ''ledger'' (Some (True, [''s''])) =
     Inr [''w'', ''~'', ''x''] \<and>
   \<not> prefix [''s''] (resolve (\<lambda>_. None) [''w'', ''~'', ''x''])"
proof -
  have p: "parse (os_expanduser me ''./~/x'') = (False, [''~'', ''x''])"
    "os_expanduser me ''~'' = ''/s/me''" "is_absolute ''/s/me''" "comps ''/s/me'' = [''s'', ''me'']"
    by code_simp+
  have w: "resolve (\<lambda>_. None) cs = cs" if "''..'' \<notin> set cs" for cs
  proof -
    have "clean (\<lambda>_. None) cs" using that by (simp add: clean_def is_link_def)
    then show ?thesis using walk_clean [of "\<lambda>_. None" "[]" cs max_hops "[]"] by (simp add: resolve_def)
  qed
  show ?thesis using strict_sink_on
    by (simp add: resolve_sink_def require_under_def path_expanduser_def absolute_comps_def tilde_def p w)
qed

theorem slug_names_child_witness: "comps (''/s'' @ ''/'' @ ''run-1'') = [''s'', ''run-1'']"
proof -
  have "holds (validate_slug (\<lambda>_. []) (VStr ''run-1'') ''run'') (\<lambda>s. s = ''run-1'')" by code_simp
  then have "validate_slug (\<lambda>_. []) (VStr ''run-1'') ''run'' = Inr ''run-1''" by (auto elim: holdsE)
  from slug_names_child [OF this, of "''/s''"] show ?thesis by (simp add: comps_def slash_def)
qed

end
