(* ===== verification/CrossModelLedger.thy ===== *)
theory CrossModelLedger
  imports PathGuard Money
begin

text \<open>
  The spend ledger of the cross-model reviewer as its readers see it
  (\<open>verifier/cross_model_budget.py\<close>): the strict row reader, the validation of rows and of
  transactions (an open reserve, a reserve with its reconcile, or a lone actual), the exact
  total over legacy and current rows, and the view of charges a spending window may attribute.
  \<open>Decimal(str(x))\<close> of a stored number is its exact rational value, and sums are exact.
\<close>

section \<open>Rows\<close>

definition schema_v2 :: string where "schema_v2 = ''cross_model_verify_spend_v2''"
definition schema_v1 :: string where "schema_v1 = ''cross_model_verify_spend_v1''"

definition k_reserve :: pyv where "k_reserve = VStr ''reserve''"
definition k_reconcile :: pyv where "k_reconcile = VStr ''reconcile''"
definition k_actual :: pyv where "k_actual = VStr ''actual''"

lemmas kind_defs = k_reserve_def k_reconcile_def k_actual_def

definition spend_kinds :: "pyv list" where
  "spend_kinds = [k_reserve, k_reconcile, k_actual]"

definition tx_prefix :: string where "tx_prefix = ''xmv2-''"

definition hex_chars :: string where "hex_chars = ''0123456789abcdef''"

definition valid_transaction_id :: "pyv \<Rightarrow> bool" where
  "valid_transaction_id v =
     (case v of
        VStr s \<Rightarrow> take 5 s = tx_prefix \<and> length (drop 5 s) = 32 \<and>
          list_all (\<lambda>c. c \<in> set hex_chars) (drop 5 s)
      | _ \<Rightarrow> False)"

text \<open>\<open>_finite_number\<close>: an \<open>int\<close> or \<open>float\<close> by exact type, and finite.\<close>

definition finite_number :: "pyv \<Rightarrow> bool" where
  "finite_number v \<longleftrightarrow> number_of v \<noteq> None"

definition usd_has_at_most_8dp :: "pyv \<Rightarrow> bool" where
  "usd_has_at_most_8dp v = (case number_of v of Some r \<Rightarrow> has_8dp r | None \<Rightarrow> False)"

definition quantize_usd_ceiling :: "pyv \<Rightarrow> rat result" where
  "quantize_usd_ceiling v =
     (case number_of v of
        None \<Rightarrow> Inl (ValueError ''invalid non-negative USD principal'')
      | Some r \<Rightarrow>
          if r < 0 \<or> 10 ^ 28 \<le> \<lceil>r * 10 ^ 8\<rceil> then Inl (ValueError ''invalid non-negative USD principal'')
          else Inr (ceil_8dp r))"

text \<open>
  \<open>_plain_json_tree\<close> with the duplicate check of the parser: at most 32 levels, no object
  with the same key twice. \<open>depth\<close> is the depth of the value itself.
\<close>

fun plain_tree :: "nat \<Rightarrow> pyv \<Rightarrow> bool"
and plain_items :: "nat \<Rightarrow> dict \<Rightarrow> bool" where
  "plain_tree depth (VList xs) \<longleftrightarrow> depth \<le> 32 \<and> list_all (plain_tree (Suc depth)) xs"
| "plain_tree depth (VDict d) \<longleftrightarrow> depth \<le> 32 \<and> distinct (map fst d) \<and> plain_items (Suc depth) d"
| "plain_tree depth v \<longleftrightarrow> depth \<le> 32"
| "plain_items depth [] \<longleftrightarrow> True"
| "plain_items depth ((k, v) # d) \<longleftrightarrow> plain_tree depth v \<and> plain_items depth d"

fun strict_rows :: "jline list \<Rightarrow> dict list result" where
  "strict_rows [] = Inr []"
| "strict_rows (Blank # ls) = strict_rows ls"
| "strict_rows (Bad # ls) = Inl (JSONDecodeError ''Expecting value'')"
| "strict_rows (Row v # ls) =
     (case v of
        VDict d \<Rightarrow>
          if plain_tree 0 v then bindR (strict_rows ls) (\<lambda>ds. Inr (d # ds))
          else Inl (ValueError ''accounting detail is not a plain JSON tree'')
      | _ \<Rightarrow> Inl (ValueError ''ledger row is not an object''))"

definition read_spend_rows :: "ledger_fs \<Rightarrow> path \<Rightarrow> dict list result" where
  "read_spend_rows fs p =
     (case opened fs p of
        None \<Rightarrow> Inr []
      | Some (Reg _ c) \<Rightarrow> strict_rows (jlines c)
      | Some _ \<Rightarrow> Inl (OSError ''Is a directory''))"

text \<open>
  Where the ledger is: the override, normalised as a sink, or the file below the caller's state
  directory, or below the one of the environment or the package.
\<close>

definition cross_rel :: string where
  "cross_rel = ''/runtime_logs/cross_model_verify_spend.jsonl''"

definition state_dir_env :: "env \<Rightarrow> string" where
  "state_dir_env e =
     (let a = getenv e ''AGI_V8_STATE_DIR'' [] in if a \<noteq> [] then a else getenv e ''AGI_STATE_DIR'' [])"

definition resolve_ledger_path :: "env \<Rightarrow> host \<Rightarrow> ledger_fs \<Rightarrow> string option \<Rightarrow> path result" where
  "resolve_ledger_path e h fs dir =
     (let override = py_strip (getenv e ''AGI_V81_CROSS_MODEL_VERIFY_LEDGER'' [])
      in if override \<noteq> [] then sink_path e h fs override ''cross_model_verify ledger''
         else (case dir of
                 Some d \<Rightarrow> Inr (d @ cross_rel)
               | None \<Rightarrow>
                   (let d = state_dir_env e
                    in Inr ((if d \<noteq> [] then d else render (h_package h)) @ cross_rel))))"

section \<open>Transactions\<close>

definition usd_of :: "dict \<Rightarrow> rat" where "usd_of d = cost_of ''usd'' d"
definition ts_of :: "dict \<Rightarrow> rat" where "ts_of d = cost_of ''ts'' d"
definition kind_at :: "dict \<Rightarrow> pyv" where "kind_at d = dict_get d ''kind''"

definition is_v2 :: "dict \<Rightarrow> bool" where
  "is_v2 d \<longleftrightarrow> dict_get d ''schema_version'' = VStr schema_v2"

definition nonblank :: "pyv \<Rightarrow> bool" where
  "nonblank v = (case v of VStr s \<Rightarrow> py_strip s \<noteq> [] | _ \<Rightarrow> False)"

definition is_bool :: "pyv \<Rightarrow> bool" where
  "is_bool v = (case v of VBool _ \<Rightarrow> True | _ \<Rightarrow> False)"

text \<open>The checks of one current row, in the order of the code.\<close>

definition row_defect :: "dict \<Rightarrow> string option" where
  "row_defect d =
     (let kind = kind_at d; usd = dict_get d ''usd''; ts = dict_get d ''ts'';
          measured = dict_get d ''usage_measured''; amount = usd_of d
      in if \<not> valid_transaction_id (dict_get d ''transaction_id'') then Some ''transaction_id_invalid''
         else if \<not> nonblank (dict_get d ''model'') then Some ''transaction_model_invalid''
         else if kind \<notin> set spend_kinds then Some ''transaction_kind_invalid''
         else if \<not> finite_number usd \<or> \<not> finite_number ts \<or> ts_of d \<le> 0
         then Some ''transaction_number_invalid''
         else if \<not> usd_has_at_most_8dp usd then Some ''transaction_amount_precision_invalid''
         else if \<not> is_bool measured then Some ''transaction_measurement_invalid''
         else if kind \<noteq> k_reconcile \<and> amount < 0 then Some ''transaction_negative_principal''
         else if kind = k_reserve \<and> measured \<noteq> VBool False then Some ''transaction_reserve_measured''
         else if kind = k_actual \<and> measured \<noteq> VBool True then Some ''transaction_actual_unmeasured''
         else if kind = k_reconcile \<and> measured = VBool False \<and> amount \<noteq> 0
         then Some ''transaction_unmeasured_reconcile_nonzero''
         else None)"

fun first_row_defect :: "dict list \<Rightarrow> string option" where
  "first_row_defect [] = None"
| "first_row_defect (d # ds) =
     (if is_v2 d
      then (case row_defect d of Some x \<Rightarrow> Some x | None \<Rightarrow> first_row_defect ds)
      else first_row_defect ds)"

definition txid_of :: "dict \<Rightarrow> string" where
  "txid_of d = (case dict_get d ''transaction_id'' of VStr s \<Rightarrow> s | _ \<Rightarrow> [])"

type_synonym groups = "(string \<times> dict list) list"

text \<open>\<open>states.setdefault(txid, []).append(row)\<close>.\<close>

fun put_row :: "dict \<Rightarrow> groups \<Rightarrow> groups" where
  "put_row d [] = [(txid_of d, [d])]"
| "put_row d ((k, rs) # gs) = (if k = txid_of d then (k, rs @ [d]) # gs else (k, rs) # put_row d gs)"

definition group_rows :: "dict list \<Rightarrow> groups" where
  "group_rows rows = fold put_row (filter is_v2 rows) []"

text \<open>A closed transaction: the reserve \<open>a\<close> and its reconcile \<open>b\<close>.\<close>

definition pair_defect :: "dict \<Rightarrow> dict \<Rightarrow> string option" where
  "pair_defect a b =
     (if dict_get a ''model'' \<noteq> dict_get b ''model'' then Some ''transaction_model_mismatch''
      else if ts_of b < ts_of a then Some ''transaction_time_reversed''
      else if usd_of a + usd_of b < 0 then Some ''transaction_negative_net''
      else (case dict_get b ''detail'' of
              VDict det \<Rightarrow>
                if \<not> usd_has_at_most_8dp (dict_get det ''reserved_usd'')
                then Some ''transaction_reserved_detail_precision_invalid''
                else if cost_of ''reserved_usd'' det \<noteq> usd_of a
                then Some ''transaction_reserved_detail_mismatch''
                else if dict_get b ''usage_measured'' = VBool True
                then (if \<not> usd_has_at_most_8dp (dict_get det ''actual_usd'')
                      then Some ''transaction_actual_detail_precision_invalid''
                      else if cost_of ''actual_usd'' det \<noteq> usd_of a + usd_of b
                      then Some ''transaction_actual_detail_mismatch''
                      else None)
                else if dict_get det ''usage_unmeasured'' \<noteq> VBool True
                then Some ''transaction_unmeasured_detail_invalid''
                else None
            | _ \<Rightarrow> Some ''transaction_reconcile_detail_invalid''))"

definition tx_defect :: "dict list \<Rightarrow> string option" where
  "tx_defect rs =
     (let kinds = map kind_at rs in
      if kinds = [k_actual] then None
      else if kinds = [k_reserve] then None
      else if kinds = [k_reserve, k_reconcile] then pair_defect (rs ! 0) (rs ! 1)
      else Some ''transaction_sequence_invalid'')"

fun first_tx_defect :: "groups \<Rightarrow> string option" where
  "first_tx_defect [] = None"
| "first_tx_defect ((k, rs) # gs) =
     (case tx_defect rs of Some x \<Rightarrow> Some x | None \<Rightarrow> first_tx_defect gs)"

definition transaction_defect :: "dict list \<Rightarrow> string option" where
  "transaction_defect rows =
     (case first_row_defect rows of
        Some x \<Rightarrow> Some x
      | None \<Rightarrow> first_tx_defect (group_rows rows))"

section \<open>The total\<close>

fun hashable :: "pyv \<Rightarrow> bool" where
  "hashable (VList _) = False"
| "hashable (VDict _) = False"
| "hashable _ = True"

definition mixed_row_error :: "bool \<Rightarrow> dict \<Rightarrow> exn option" where
  "mixed_row_error seen_v2 d =
     (let schema = dict_get d ''schema_version''; kind = kind_at d; ts = dict_get d ''ts'' in
      if \<not> hashable schema then Some (TypeError ''unhashable type'')
      else if schema \<notin> {VStr schema_v1, VStr schema_v2}
      then Some (ValueError ''unknown cross-model ledger schema'')
      else if schema = VStr schema_v1 \<and> seen_v2 then Some (ValueError ''schema_downgrade_after_v2'')
      else if \<not> hashable kind then Some (TypeError ''unhashable type'')
      else if kind \<notin> set spend_kinds then Some (ValueError ''unknown cross-model accounting kind'')
      else if \<not> nonblank (dict_get d ''model'') then Some (ValueError ''missing cross-model model'')
      else if \<not> finite_number (dict_get d ''usd'') then Some (ValueError ''invalid cross-model amount'')
      else if schema = VStr schema_v1 \<and> ts \<noteq> VNone \<and> (\<not> finite_number ts \<or> ts_of d \<le> 0)
      then Some (ValueError ''invalid legacy cross-model timestamp'')
      else if kind \<noteq> k_reconcile \<and> usd_of d < 0
      then Some (ValueError ''negative cross-model principal'')
      else None)"

fun mixed_error :: "bool \<Rightarrow> dict list \<Rightarrow> exn option" where
  "mixed_error seen [] = None"
| "mixed_error seen (d # ds) =
     (case mixed_row_error seen d of Some x \<Rightarrow> Some x | None \<Rightarrow> mixed_error (seen \<or> is_v2 d) ds)"

definition total_of :: "dict list \<Rightarrow> rat" where
  "total_of rows = sum_list (map usd_of rows)"

definition ledger_total :: "dict list \<Rightarrow> rat result" where
  "ledger_total rows =
     (case mixed_error False rows of
        Some x \<Rightarrow> Inl x
      | None \<Rightarrow>
          (case transaction_defect rows of
             Some x \<Rightarrow> Inl (ValueError x)
           | None \<Rightarrow>
               if total_of rows < - (5 / 10 ^ 9) then Inl (ValueError ''invalid cross-model ledger total'')
               else Inr (total_of rows)))"

section \<open>Admission poison\<close>

text \<open>The first reconcile that proves the price envelope or the provider unreliable.\<close>

definition row_blocker :: "dict \<Rightarrow> string option" where
  "row_blocker d =
     (if \<not> is_v2 d \<or> kind_at d \<noteq> k_reconcile then None
      else if 0 < usd_of d then Some ''cost_envelope_breached''
      else (case dict_get d ''detail'' of
              VDict det \<Rightarrow>
                if dict_get det ''provider_outcome_unverified'' = VBool True
                then Some ''provider_outcome_unverified''
                else if dict_get det ''model_identity_unverified'' = VBool True
                then Some ''provider_identity_unverified''
                else None
            | _ \<Rightarrow> None))"

fun admission_blocker :: "dict list \<Rightarrow> string option" where
  "admission_blocker [] = None"
| "admission_blocker (d # ds) =
     (case row_blocker d of Some x \<Rightarrow> Some x | None \<Rightarrow> admission_blocker ds)"

section \<open>Charges\<close>

definition attribution_key :: string where "attribution_key = ''_cross_model_attribution''"
definition attribution_exact :: pyv where "attribution_exact = VStr ''exact_transaction''"
definition attribution_legacy :: pyv where "attribution_legacy = VStr ''legacy_upper_bound''"

definition marked :: "rat \<Rightarrow> pyv \<Rightarrow> dict \<Rightarrow> dict" where
  "marked usd how d = dict_set (dict_set d ''usd'' (VFloat usd)) attribution_key how"

definition legacy_charge :: "dict \<Rightarrow> dict" where
  "legacy_charge d = marked (max 0 (usd_of d)) attribution_legacy d"

definition rows_of_tx :: "groups \<Rightarrow> string \<Rightarrow> dict list" where
  "rows_of_tx gs k = (case map_of gs k of Some rs \<Rightarrow> rs | None \<Rightarrow> [])"

definition charge_of :: "groups \<Rightarrow> dict \<Rightarrow> dict list" where
  "charge_of gs d =
     (if \<not> is_v2 d then [legacy_charge d]
      else if kind_at d = k_reconcile then []
      else if kind_at d = k_reserve
      then (let rs = rows_of_tx gs (txid_of d); net = total_of rs in
            if net \<le> usd_of d then [marked (max 0 net) attribution_exact d]
            else [marked (usd_of d) attribution_exact d,
                  marked (net - usd_of d) attribution_exact (rs ! 1)])
      else [dict_set d attribution_key attribution_exact])"

definition transaction_charge_rows :: "bool \<Rightarrow> dict list \<Rightarrow> dict list result" where
  "transaction_charge_rows allow_preschema rows =
     (if rows = [] then Inr []
      else if \<not> list_ex is_v2 rows
      then (if \<not> list_all (\<lambda>d. hashable (dict_get d ''schema_version'')) rows
            then Inl (TypeError ''unhashable type'')
            else if list_all (\<lambda>d. dict_get d ''schema_version'' = VNone) rows
            then (if \<not> allow_preschema then Inl (ValueError ''unknown cross-model ledger schema'')
                  else if list_all (\<lambda>d. finite_number (dict_get d ''usd'')) rows
                  then Inr (map legacy_charge rows)
                  else Inl (ValueError ''invalid pre-schema cross-model amount''))
            else bindR (ledger_total rows) (\<lambda>_. Inr (map legacy_charge rows)))
      else bindR (ledger_total rows) (\<lambda>_. Inr (concat (map (charge_of (group_rows rows)) rows))))"

definition charge_attribution :: "dict list \<Rightarrow> pyv" where
  "charge_attribution rows =
     (if list_ex (\<lambda>d. dict_get d attribution_key = attribution_legacy) rows
      then attribution_legacy else attribution_exact)"

section \<open>Groups are filters\<close>

definition tx_rows :: "string \<Rightarrow> dict list \<Rightarrow> dict list" where
  "tx_rows k rows = filter (\<lambda>d. is_v2 d \<and> txid_of d = k) rows"

definition txids :: "dict list \<Rightarrow> string set" where
  "txids rows = txid_of ` set (filter is_v2 rows)"

lemma tx_rows_simps [simp]:
  "tx_rows k [] = []"
  "tx_rows k (xs @ ys) = tx_rows k xs @ tx_rows k ys"
  "tx_rows k (d # ds) = (if is_v2 d \<and> txid_of d = k then d # tx_rows k ds else tx_rows k ds)"
  by (simp_all add: tx_rows_def)

lemma tx_rows_Nil: "tx_rows k rows = [] \<longleftrightarrow> k \<notin> txids rows"
  by (auto simp: tx_rows_def txids_def filter_empty_conv)

lemma in_tx_rows: "d \<in> set (tx_rows k rows) \<longleftrightarrow> d \<in> set rows \<and> is_v2 d \<and> txid_of d = k"
  by (auto simp: tx_rows_def)

lemma map_of_put_row:
  "map_of (put_row d gs) k =
     (if k = txid_of d then Some (rows_of_tx gs k @ [d]) else map_of gs k)"
  by (induction d gs rule: put_row.induct) (auto simp: rows_of_tx_def)

lemma keys_put_row: "set (map fst (put_row d gs)) = insert (txid_of d) (set (map fst gs))"
  by (induction d gs rule: put_row.induct) auto

lemma distinct_put_row: "distinct (map fst gs) \<Longrightarrow> distinct (map fst (put_row d gs))"
proof (induction d gs rule: put_row.induct)
  case (2 d k rs gs)
  then show ?case using keys_put_row [of d gs] by (auto simp del: set_map)
qed simp

lemma rows_of_tx_put_row:
  "rows_of_tx (put_row d gs) k = (if k = txid_of d then rows_of_tx gs k @ [d] else rows_of_tx gs k)"
  using map_of_put_row [of d gs k] by (simp add: rows_of_tx_def)

lemma group_rows_fold:
  "distinct (map fst gs) \<Longrightarrow> \<forall>(k, rs) \<in> set gs. rs \<noteq> [] \<Longrightarrow>
     distinct (map fst (fold put_row ds gs)) \<and>
     (\<forall>k. rows_of_tx (fold put_row ds gs) k = rows_of_tx gs k @ filter (\<lambda>d. txid_of d = k) ds)"
proof (induction ds arbitrary: gs)
  case (Cons d ds)
  have "\<forall>(k, rs) \<in> set (put_row d gs). rs \<noteq> []"
    using Cons.prems(2) by (induction d gs rule: put_row.induct) auto
  then show ?case
    using Cons.IH [OF distinct_put_row [OF Cons.prems(1)]] by (auto simp: rows_of_tx_put_row)
qed simp

lemma rows_of_group [simp]: "rows_of_tx (group_rows rows) k = tx_rows k rows"
  using group_rows_fold [of "[]" "filter is_v2 rows"]
  by (simp add: group_rows_def rows_of_tx_def tx_rows_def conj_commute)

lemma keys_group: "set (map fst (group_rows rows)) = txids rows"
proof -
  have "set (map fst (fold put_row ds gs)) = txid_of ` set ds \<union> set (map fst gs)" for ds gs
    by (induction ds arbitrary: gs) (auto simp: keys_put_row simp del: set_map)
  from this [of "filter is_v2 rows" "[]"] show ?thesis by (simp add: group_rows_def txids_def)
qed

lemma group_mem: "(k, rs) \<in> set (group_rows rows) \<longleftrightarrow> k \<in> txids rows \<and> rs = tx_rows k rows"
proof -
  have d: "distinct (map fst (group_rows rows))"
    using group_rows_fold [of "[]" "filter is_v2 rows"] by (simp add: group_rows_def)
  have mem: "(k, rs) \<in> set (group_rows rows) \<Longrightarrow> rs = tx_rows k rows" for k rs
    using map_of_is_SomeI [OF d] rows_of_group [of rows k] by (simp add: rows_of_tx_def)
  show ?thesis
  proof
    assume m: "(k, rs) \<in> set (group_rows rows)"
    then have "k \<in> fst ` set (group_rows rows)" by (rule image_eqI [rotated]) simp
    then show "k \<in> txids rows \<and> rs = tx_rows k rows" using mem [OF m] keys_group [of rows] by simp
  next
    assume k: "k \<in> txids rows \<and> rs = tx_rows k rows"
    then have "k \<in> fst ` set (group_rows rows)" using keys_group [of rows] by simp
    then obtain rs' where "(k, rs') \<in> set (group_rows rows)" by auto
    with mem k show "(k, rs) \<in> set (group_rows rows)" by metis
  qed
qed

section \<open>Valid ledgers\<close>

lemma first_row_defect_None:
  "first_row_defect rows = None \<longleftrightarrow> (\<forall>d \<in> set rows. is_v2 d \<longrightarrow> row_defect d = None)"
  by (induction rows) (auto split: option.splits)

lemma first_tx_defect_None:
  "first_tx_defect gs = None \<longleftrightarrow> (\<forall>(k, rs) \<in> set gs. tx_defect rs = None)"
  by (induction gs rule: first_tx_defect.induct) (auto split: option.splits)

lemma transaction_defect_None:
  "transaction_defect rows = None \<longleftrightarrow>
     (\<forall>d \<in> set rows. is_v2 d \<longrightarrow> row_defect d = None) \<and>
     (\<forall>k \<in> txids rows. tx_defect (tx_rows k rows) = None)"
proof -
  have "transaction_defect rows = None \<longleftrightarrow>
      first_row_defect rows = None \<and> first_tx_defect (group_rows rows) = None"
    by (simp add: transaction_defect_def split: option.splits)
  then show ?thesis unfolding first_row_defect_None first_tx_defect_None by (auto simp: group_mem)
qed

definition valid_ledger :: "dict list \<Rightarrow> bool" where
  "valid_ledger rows \<longleftrightarrow> ledger_total rows = Inr (total_of rows)"

lemma valid_ledger_iff:
  "valid_ledger rows \<longleftrightarrow> mixed_error False rows = None \<and> transaction_defect rows = None \<and>
     - (5 / 10 ^ 9) \<le> total_of rows"
  by (auto simp: valid_ledger_def ledger_total_def split: option.splits)

lemma ledger_total_Inr: "ledger_total rows = Inr t \<longleftrightarrow> valid_ledger rows \<and> t = total_of rows"
  by (auto simp: valid_ledger_def ledger_total_def split: option.splits if_splits)

lemma kinds_distinct [simp]:
  "k_reserve \<noteq> k_reconcile" "k_reserve \<noteq> k_actual" "k_reconcile \<noteq> k_actual"
  "k_reconcile \<noteq> k_reserve" "k_actual \<noteq> k_reserve" "k_actual \<noteq> k_reconcile"
  by (simp_all add: kind_defs)

lemma schemas_distinct [simp]: "schema_v1 \<noteq> schema_v2" "schema_v2 \<noteq> schema_v1"
  by (simp_all add: schema_v1_def schema_v2_def)

lemma tx_defect_cases:
  assumes "tx_defect rs = None"
  obtains (actual) a where "rs = [a]" "kind_at a = k_actual"
    | (open_reserve) a where "rs = [a]" "kind_at a = k_reserve"
    | (closed) a b where "rs = [a, b]" "kind_at a = k_reserve" "kind_at b = k_reconcile"
        "pair_defect a b = None"
proof -
  from assms consider "map kind_at rs = [k_actual]" | "map kind_at rs = [k_reserve]"
    | "map kind_at rs = [k_reserve, k_reconcile]" "pair_defect (rs ! 0) (rs ! 1) = None"
    by (auto simp: tx_defect_def Let_def split: if_splits)
  then show thesis
    by cases (auto simp: map_eq_Cons_conv intro: that)
qed

lemma pair_defect_net: "pair_defect a b = None \<Longrightarrow> 0 \<le> usd_of a + usd_of b"
  by (auto simp: pair_defect_def split: if_splits)

lemma row_defect_principal: "row_defect d = None \<Longrightarrow> kind_at d \<noteq> k_reconcile \<Longrightarrow> 0 \<le> usd_of d"
  by (auto simp: row_defect_def Let_def split: if_splits)

lemma usd_of_marked [simp]: "usd_of (marked u how d) = u"
  by (simp add: usd_of_def cost_of_def marked_def attribution_key_def number_of_def)

lemma usd_of_attributed [simp]: "usd_of (dict_set d attribution_key v) = usd_of d"
  by (simp add: usd_of_def cost_of_def attribution_key_def)

lemma total_of_simps [simp]:
  "total_of [] = 0" "total_of (d # ds) = usd_of d + total_of ds"
  "total_of (xs @ ys) = total_of xs + total_of ys"
  by (simp_all add: total_of_def)

text \<open>A sum over a list is the sum of the sums over its classes.\<close>

lemma sum_list_classes:
  "finite K \<Longrightarrow> g ` set xs \<subseteq> K \<Longrightarrow>
     sum_list (map f xs) = (\<Sum>k\<in>K. sum_list (map f (filter (\<lambda>x. g x = k) xs)))"
  for f :: "'a \<Rightarrow> rat"
proof (induction xs)
  case (Cons x xs)
  have "(\<Sum>k\<in>K. sum_list (map f (filter (\<lambda>y. g y = k) (x # xs)))) =
      (\<Sum>k\<in>K. (if g x = k then f x else 0) + sum_list (map f (filter (\<lambda>y. g y = k) xs)))"
    by (intro sum.cong) auto
  also have "\<dots> = f x + sum_list (map f xs)"
    using Cons by (simp add: sum.distrib)
  finally show ?case by simp
qed simp

definition charge_sum :: "dict list \<Rightarrow> dict \<Rightarrow> rat" where
  "charge_sum rows d = total_of (charge_of (group_rows rows) d)"

lemma charge_sum_tx:
  assumes "\<forall>d \<in> set rows. is_v2 d \<longrightarrow> row_defect d = None" "tx_defect (tx_rows k rows) = None"
  shows "sum_list (map (charge_sum rows) (tx_rows k rows)) = total_of (tx_rows k rows)"
proof -
  have mem: "d \<in> set (tx_rows k rows) \<Longrightarrow> is_v2 d \<and> txid_of d = k \<and> row_defect d = None" for d
    using assms(1) by (auto simp: in_tx_rows)
  from assms(2) show ?thesis
  proof (cases rule: tx_defect_cases)
    case (actual a)
    with mem [of a] show ?thesis by (simp add: charge_sum_def charge_of_def)
  next
    case (open_reserve a)
    with mem [of a] show ?thesis
      by (simp add: charge_sum_def charge_of_def Let_def row_defect_principal)
  next
    case (closed a b)
    with mem [of a] mem [of b] pair_defect_net [OF closed(4)] show ?thesis
      by (simp add: charge_sum_def charge_of_def Let_def)
  qed
qed

definition legacy_credit :: "dict list \<Rightarrow> rat" where
  "legacy_credit rows = sum_list (map (\<lambda>d. max 0 (- usd_of d)) (filter (\<lambda>d. \<not> is_v2 d) rows))"

lemma total_concat: "total_of (concat (map f rows)) = sum_list (map (total_of \<circ> f) rows)"
  by (induction rows) simp_all

lemma sum_list_filter_split:
  "sum_list (map f xs) = sum_list (map f (filter P xs)) + sum_list (map f (filter (\<lambda>x. \<not> P x) xs))"
  for f :: "'a \<Rightarrow> rat"
  by (induction xs) auto

lemma charges_conserve:
  assumes "transaction_defect rows = None"
  shows "total_of (concat (map (charge_of (group_rows rows)) rows)) = total_of rows + legacy_credit rows"
proof -
  let ?V = "filter is_v2 rows" and ?L = "filter (\<lambda>d. \<not> is_v2 d) rows"
  have ok: "\<forall>d \<in> set rows. is_v2 d \<longrightarrow> row_defect d = None"
    "\<forall>k \<in> txids rows. tx_defect (tx_rows k rows) = None"
    using assms by (simp_all add: transaction_defect_None)
  have cls: "filter (\<lambda>d. txid_of d = k) ?V = tx_rows k rows" for k
    by (simp add: tx_rows_def conj_commute)
  have fin: "finite (txids rows)" by (simp add: txids_def)
  have v: "sum_list (map (charge_sum rows) ?V) = sum_list (map usd_of ?V)"
  proof -
    have split: "sum_list (map f ?V) = (\<Sum>k\<in>txids rows. sum_list (map f (tx_rows k rows)))" for f :: "dict \<Rightarrow> rat"
      using sum_list_classes [OF fin, of txid_of ?V f] unfolding cls by (simp add: txids_def)
    show ?thesis unfolding split
      using ok(2) charge_sum_tx [OF ok(1)] by (intro sum.cong) (simp_all add: total_of_def)
  qed
  have l: "sum_list (map (charge_sum rows) ?L) = sum_list (map usd_of ?L) + legacy_credit rows"
  proof -
    have "sum_list (map (charge_sum rows) (filter (\<lambda>d. \<not> is_v2 d) xs)) =
        sum_list (map usd_of (filter (\<lambda>d. \<not> is_v2 d) xs)) + legacy_credit xs" for xs
      by (induction xs)
        (auto simp: charge_sum_def charge_of_def legacy_charge_def legacy_credit_def max_def)
    then show ?thesis .
  qed
  have "total_of (concat (map (charge_of (group_rows rows)) rows)) = sum_list (map (charge_sum rows) rows)"
    by (simp add: total_concat charge_sum_def [abs_def] comp_def)
  also have "\<dots> = total_of rows + legacy_credit rows"
    using sum_list_filter_split [of "charge_sum rows" rows is_v2] v l
      sum_list_filter_split [of usd_of rows is_v2] by (simp add: total_of_def)
  finally show ?thesis .
qed

lemma charges_shape:
  assumes "transaction_charge_rows False rows = Inr cs"
  shows "transaction_defect rows = None" and "cs = concat (map (charge_of (group_rows rows)) rows)"
proof -
  have none: "transaction_defect rows = None" "map legacy_charge rows = concat (map (charge_of gs) rows)"
    if "\<not> list_ex is_v2 rows" for gs
  proof -
    have "\<forall>d \<in> set rows. \<not> is_v2 d" using that by (simp add: list_ex_iff)
    then show "transaction_defect rows = None" by (auto simp: transaction_defect_None txids_def)
    show "map legacy_charge rows = concat (map (charge_of gs) rows)"
      using \<open>\<forall>d \<in> set rows. \<not> is_v2 d\<close> by (induction rows) (simp_all add: charge_of_def)
  qed
  have "transaction_defect rows = None \<and> cs = concat (map (charge_of (group_rows rows)) rows)"
  proof (cases "list_ex is_v2 rows")
    case True
    with assms have "valid_ledger rows" "cs = concat (map (charge_of (group_rows rows)) rows)"
      by (auto simp: transaction_charge_rows_def ledger_total_Inr split: if_splits)
    then show ?thesis by (simp add: valid_ledger_iff)
  next
    case False
    with assms have "cs = map legacy_charge rows"
      by (auto simp: transaction_charge_rows_def split: if_splits)
    with none [OF False] show ?thesis by simp
  qed
  then show "transaction_defect rows = None" "cs = concat (map (charge_of (group_rows rows)) rows)"
    by simp_all
qed

lemma charge_nonneg:
  assumes "transaction_defect rows = None" "d \<in> set rows" "c \<in> set (charge_of (group_rows rows) d)"
  shows "0 \<le> usd_of c"
proof (cases "is_v2 d")
  case True
  then have "row_defect d = None" using assms(1,2) by (simp add: transaction_defect_None)
  with True assms(3) show ?thesis
    by (auto simp: charge_of_def Let_def row_defect_principal split: if_splits)
next
  case False
  with assms(3) show ?thesis by (simp add: charge_of_def legacy_charge_def)
qed

lemma admission_blocker_append:
  "admission_blocker (xs @ ys) =
     (case admission_blocker xs of Some x \<Rightarrow> Some x | None \<Rightarrow> admission_blocker ys)"
  by (induction xs) (auto split: option.splits)

lemma admission_blocker_stays: "admission_blocker xs = Some x \<Longrightarrow> admission_blocker (xs @ ys) = Some x"
  by (simp add: admission_blocker_append)

lemma mixed_error_append:
  "mixed_error seen (xs @ ys) =
     (case mixed_error seen xs of Some x \<Rightarrow> Some x | None \<Rightarrow> mixed_error (seen \<or> list_ex is_v2 xs) ys)"
  by (induction xs arbitrary: seen) (auto split: option.splits simp: disj_assoc)

section \<open>Properties\<close>

text \<open>C27: The charges account for every dollar exactly once: whenever the charge view of a ledger is
  given out, its charges add up to the ledger's total plus the negative corrections of legacy
  rows it must not credit, and no charge is negative, so whatever the window no refund of one
  transaction can pay for another.\<close>

theorem charges_account_for_total:
  assumes "transaction_charge_rows False rows = Inr cs"
  shows "total_of cs = total_of rows + legacy_credit rows \<and> (\<forall>c \<in> set cs. 0 \<le> usd_of c)"
  using charges_conserve [OF charges_shape(1) [OF assms]] charges_shape(2) [OF assms]
    charge_nonneg [OF charges_shape(1) [OF assms]] by auto

definition sample_tx :: pyv where
  "sample_tx = VStr ''xmv2-00000000000000000000000000000000''"

definition sample_reserve_row :: dict where
  "sample_reserve_row =
     [(''schema_version'', VStr schema_v2), (''transaction_id'', sample_tx), (''ts'', VInt 10),
      (''usd'', VInt 3), (''model'', VStr ''m''), (''kind'', k_reserve), (''usage_measured'', VBool False)]"

definition sample_reconcile_row :: dict where
  "sample_reconcile_row =
     [(''schema_version'', VStr schema_v2), (''transaction_id'', sample_tx), (''ts'', VInt 20),
      (''usd'', VInt (-1)), (''model'', VStr ''m''), (''kind'', k_reconcile),
      (''usage_measured'', VBool True),
      (''detail'', VDict [(''reserved_usd'', VInt 3), (''actual_usd'', VInt 2)])]"

lemma sample_charges:
  "\<exists>cs. transaction_charge_rows False [sample_reserve_row, sample_reconcile_row] = Inr cs"
proof -
  have "holds (transaction_charge_rows False [sample_reserve_row, sample_reconcile_row]) (\<lambda>_. True)"
    by code_simp
  then show ?thesis by (auto elim: holdsE)
qed

theorem charges_account_for_total_witness:
  "\<exists>cs. transaction_charge_rows False [sample_reserve_row, sample_reconcile_row] = Inr cs \<and> total_of cs = 2"
proof -
  obtain cs where cs: "transaction_charge_rows False [sample_reserve_row, sample_reconcile_row] = Inr cs"
    using sample_charges by blast
  have v2: "is_v2 sample_reserve_row" "is_v2 sample_reconcile_row"
    "usd_of sample_reserve_row = 3" "usd_of sample_reconcile_row = -1"
    by (simp_all add: is_v2_def dict_get_def sample_reserve_row_def sample_reconcile_row_def usd_of_def
        cost_of_def number_of_def)
  show ?thesis using charges_account_for_total [OF cs] cs by (auto simp: legacy_credit_def v2)
qed

end
