(* ===== verification/DailyCostCap.thy ===== *)
theory DailyCostCap
  imports SpendReservation CrossModelLedger
begin

text \<open>
  The per-day cost cap of the tick loop (\<open>runtime/daily_cost_cap.py\<close>), read over the executor
  ledger, optionally the cross-model ledger, and the open reservations. Local midnight is the
  parameter \<open>day_start\<close>.
\<close>

section \<open>Gates and values\<close>

definition cross_model_included :: "env \<Rightarrow> bool" where
  "cross_model_included e = gate_loose e ''AGI_V8_COST_CAP_INCLUDE_CROSS_MODEL''"

definition ledger_failclosed_enabled :: "env \<Rightarrow> bool" where
  "ledger_failclosed_enabled e \<longleftrightarrow>
     py_lower (py_strip (getenv e ''AGI_V8_COST_CAP_LEDGER_FAILCLOSED'' ''true''))
       \<notin> {''false'', ''0''}"

definition strict_unmeasured :: "env \<Rightarrow> bool" where
  "strict_unmeasured e = gate_loose e ''AGI_V8_SI_TICK_DAILY_CAP_STRICT_UNMEASURED''"

definition default_daily_cap :: rat where "default_daily_cap = 10"

definition cap_usd :: "env \<Rightarrow> rat result" where
  "cap_usd e =
     (case e ''AGI_V8_SI_TICK_DAILY_USD_CAP'' of
        None \<Rightarrow> Inr default_daily_cap
      | Some raw \<Rightarrow>
          (case parse_float raw of
             None \<Rightarrow> absorb e (ValueError ''could not convert string to float'') default_daily_cap
           | Some v \<Rightarrow> Inr (if 0 \<le> v then v else default_daily_cap)))"

definition executor_log_path :: "string \<Rightarrow> path" where
  "executor_log_path dir = dir @ ''/runtime_logs/executor_log.jsonl''"

section \<open>Rows\<close>

definition ts_keys :: "string list" where
  "ts_keys = [''timestamp'', ''timestamp_unix'', ''ts'', ''generated_at'']"

fun first_number :: "dict \<Rightarrow> string list \<Rightarrow> rat option" where
  "first_number d [] = None"
| "first_number d (k # ks) =
     (case number_of (dict_get d k) of Some r \<Rightarrow> Some r | None \<Rightarrow> first_number d ks)"

definition row_ts :: "dict \<Rightarrow> rat option" where
  "row_ts d = first_number d ts_keys"

text \<open>Every row is read with \<open>.get\<close>: the first that is no mapping raises.\<close>

fun as_dicts :: "pyv list \<Rightarrow> dict list result" where
  "as_dicts [] = Inr []"
| "as_dicts (VDict d # vs) = bindR (as_dicts vs) (\<lambda>ds. Inr (d # ds))"
| "as_dicts (v # vs) = Inl (AttributeError ''get'')"

definition row_is_unmeasured :: "dict \<Rightarrow> bool" where
  "row_is_unmeasured d \<longleftrightarrow>
     (case dict_get d ''output_summary'' of
        VDict s \<Rightarrow> dict_get s ''usage_measured'' = VBool False
      | _ \<Rightarrow> False)"

definition row_is_unmarked :: "dict \<Rightarrow> bool" where
  "row_is_unmarked d \<longleftrightarrow>
     (case dict_get d ''cost_usd'' of VInt _ \<Rightarrow> True | VFloat _ \<Rightarrow> True | VBool _ \<Rightarrow> True | _ \<Rightarrow> False) \<and>
     (case dict_get d ''output_summary'' of
        VDict s \<Rightarrow> \<not> dict_has s ''usage_measured''
      | _ \<Rightarrow> True)"

definition row_is_price_model_mismatch :: "dict \<Rightarrow> bool" where
  "row_is_price_model_mismatch d \<longleftrightarrow>
     (case dict_get d ''output_summary'' of
        VDict s \<Rightarrow> dict_get s ''price_model_mismatch'' = VBool True
      | _ \<Rightarrow> False)"

definition ack_executor :: string where "ack_executor = ''spend_unmeasured_ack''"

definition is_ack :: "dict \<Rightarrow> bool" where
  "is_ack d \<longleftrightarrow> dict_get d ''executor'' = VStr ack_executor"

definition ack_step :: "dict \<Rightarrow> rat \<Rightarrow> rat" where
  "ack_step d best =
     (if \<not> is_ack d then best
      else case number_of (dict_get d ''ack_through_ts'') of
             Some ts \<Rightarrow> if best < ts then ts else best
           | None \<Rightarrow> best)"

definition ack_through_ts :: "dict list \<Rightarrow> rat \<Rightarrow> rat" where
  "ack_through_ts rows start = fold ack_step rows (start - 1)"

section \<open>The tally of a day\<close>

record tally =
  spent :: rat
  unmeasured :: nat
  unmeasured_acked :: nat
  mismatched :: nat
  unmarked :: nat
  considered :: nat

definition zero_tally :: tally where
  "zero_tally = \<lparr>spent = 0, unmeasured = 0, unmeasured_acked = 0, mismatched = 0, unmarked = 0,
     considered = 0\<rparr>"

definition before_start :: "rat \<Rightarrow> dict \<Rightarrow> bool" where
  "before_start start d \<longleftrightarrow> (case row_ts d of Some ts \<Rightarrow> ts < start | None \<Rightarrow> False)"

definition tally_row :: "rat \<Rightarrow> rat \<Rightarrow> dict \<Rightarrow> tally \<Rightarrow> tally" where
  "tally_row start ack d t =
     (if is_ack d \<or> before_start start d then t
      else
        (let t1 = t\<lparr>considered := considered t + 1, spent := spent t + cost_of ''cost_usd'' d\<rparr>;
             acked = (case row_ts d of Some ts \<Rightarrow> ts \<le> ack | None \<Rightarrow> False);
             t2 = (if row_is_unmeasured d
                   then if acked then t1\<lparr>unmeasured_acked := unmeasured_acked t1 + 1\<rparr>
                        else t1\<lparr>unmeasured := unmeasured t1 + 1\<rparr>
                   else if row_is_unmarked d then t1\<lparr>unmarked := unmarked t1 + 1\<rparr> else t1)
         in if row_is_price_model_mismatch d then t2\<lparr>mismatched := mismatched t2 + 1\<rparr> else t2))"

definition tally_rows :: "rat \<Rightarrow> dict list \<Rightarrow> tally" where
  "tally_rows start rows = fold (tally_row start (ack_through_ts rows start)) rows zero_tally"

text \<open>Reading a ledger for the cap: on failure no rows and the name of the failure.\<close>

definition read_ledger_rows :: "env \<Rightarrow> ledger_fs \<Rightarrow> path \<Rightarrow> (pyv list \<times> string option) result" where
  "read_ledger_rows e fs p =
     (case read_jsonl fs p of
        Inr rows \<Rightarrow> Inr (rows, None)
      | Inl x \<Rightarrow> absorb e x ([], Some (safe_exception_type_name x)))"

record cross_tally =
  cm_spent :: rat
  cm_considered :: nat
  cm_read_failed :: "string option"
  cm_attribution :: pyv

definition cross_model_tally ::
  "env \<Rightarrow> host \<Rightarrow> string \<Rightarrow> rat \<Rightarrow> ledger_fs \<Rightarrow> (rat \<times> cross_tally) result" where
  "cross_model_tally e h dir start fs =
     bindR (case bindR (resolve_ledger_path e h fs (Some dir)) (read_spend_rows fs) of
              Inr rows \<Rightarrow> Inr (rows, None)
            | Inl x \<Rightarrow> absorb e x ([], Some (safe_exception_type_name x))) (\<lambda>(rows, failed).
     bindR (case transaction_charge_rows False rows of
              Inr cs \<Rightarrow> Inr (cs, failed)
            | Inl x \<Rightarrow> absorb e x ([], Some (safe_exception_type_name x))) (\<lambda>(charges, failed).
       let today = filter (\<lambda>d. \<not> before_start start d) charges;
           total = sum_list (map (cost_of ''usd'') today)
       in Inr (total,
               \<lparr>cm_spent = round_to 6 total,
                cm_considered = length (filter (\<lambda>d. \<not> before_start start d) rows),
                cm_read_failed = failed,
                cm_attribution = charge_attribution today\<rparr>)))"

definition tally_today ::
  "env \<Rightarrow> (rat \<Rightarrow> rat) \<Rightarrow> host \<Rightarrow> string \<Rightarrow> rat \<Rightarrow> ledger_fs
    \<Rightarrow> (tally \<times> string option \<times> cross_tally option) result" where
  "tally_today e day_start h dir now fs =
     bindR (read_ledger_rows e fs (executor_log_path dir)) (\<lambda>(rows, failed).
     bindR (as_dicts rows) (\<lambda>ds.
       let t = tally_rows (day_start now) ds
       in if cross_model_included e
          then bindR (cross_model_tally e h dir (day_start now) fs) (\<lambda>(cm, ct).
                 Inr (t\<lparr>spent := round_to 6 (spent t + cm)\<rparr>, failed, Some ct))
          else Inr (t\<lparr>spent := round_to 6 (spent t)\<rparr>, failed, None)))"

section \<open>The verdict\<close>

record cap_verdict =
  allowed :: bool
  spent_usd :: rat
  cap_used :: rat
  remaining_usd :: rat
  unmeasured_rows :: nat
  rows_considered :: nat
  spend_is_complete :: bool
  cap_reason :: string
  ledger_read_failed :: "string option"
  cross_verdict :: "cross_tally option"
  reserved :: "open_summary option"

definition reason_read_failed :: string where "reason_read_failed = ''ledger_read_failed''"

definition deny :: "string \<Rightarrow> cap_verdict \<Rightarrow> cap_verdict" where
  "deny why v = v\<lparr>allowed := False, cap_reason := why\<rparr>"

text \<open>The verdict from the tally, before the ledgers' own state has its say.\<close>

definition base_verdict :: "env \<Rightarrow> rat \<Rightarrow> tally \<Rightarrow> cap_verdict" where
  "base_verdict e cap t =
     (let ok = spent t < cap; complete = (unmeasured t = 0);
          v = \<lparr>allowed = ok, spent_usd = spent t, cap_used = cap,
               remaining_usd = max 0 (round_to 6 (cap - spent t)),
               unmeasured_rows = unmeasured t, rows_considered = considered t,
               spend_is_complete = complete,
               cap_reason = (if \<not> ok then ''daily_cap_reached''
                             else if complete then ''ok'' else ''ok_spend_incomplete''),
               ledger_read_failed = None, cross_verdict = None, reserved = None\<rparr>
      in if ok \<and> \<not> complete \<and> strict_unmeasured e then deny ''unmeasured_spend'' v else v)"

definition with_ledger :: "env \<Rightarrow> string option \<Rightarrow> cap_verdict \<Rightarrow> cap_verdict" where
  "with_ledger e failed v =
     (if ledger_failclosed_enabled e
      then (let v' = v\<lparr>ledger_read_failed := failed\<rparr>
            in if failed \<noteq> None then deny reason_read_failed v' else v')
      else v)"

definition with_cross :: "env \<Rightarrow> cross_tally option \<Rightarrow> cap_verdict \<Rightarrow> cap_verdict" where
  "with_cross e ct v =
     (case ct of
        None \<Rightarrow> v
      | Some c \<Rightarrow>
          (let v' = v\<lparr>cross_verdict := Some c\<rparr>
           in if cm_read_failed c \<noteq> None \<and> ledger_failclosed_enabled e
              then deny reason_read_failed v' else v'))"

definition with_reservations :: "env \<Rightarrow> open_summary \<Rightarrow> cap_verdict \<Rightarrow> cap_verdict" where
  "with_reservations e s v =
     (let v' = v\<lparr>reserved := Some s\<rparr>
      in if read_failed s \<noteq> None \<and> ledger_failclosed_enabled e then deny reason_read_failed v'
         else if allowed v' \<and> cap_used v \<le> round_to 8 (spent_usd v + open_usd s)
              then deny ''daily_cap_reached_with_reservations'' v' else v')"

definition cap_check ::
  "env \<Rightarrow> (rat \<Rightarrow> rat) \<Rightarrow> host \<Rightarrow> string \<Rightarrow> rat \<Rightarrow> ledger_fs \<Rightarrow> cap_verdict result" where
  "cap_check e day_start h dir now fs =
     bindR (cap_usd e) (\<lambda>cap.
     bindR (tally_today e day_start h dir now fs) (\<lambda>(t, failed, ct).
       let v = with_cross e ct (with_ledger e failed (base_verdict e cap t))
       in if res_enabled e
          then bindR (open_reservations e dir now fs) (\<lambda>s. Inr (with_reservations e s v))
          else Inr v))"

definition spent_today where
  "spent_today e day_start h dir now fs =
     bindR (tally_today e day_start h dir now fs) (\<lambda>(t, _, _). Inr (spent t))"

definition unmeasured_today where
  "unmeasured_today e day_start h dir now fs =
     bindR (tally_today e day_start h dir now fs) (\<lambda>(t, _, _). Inr (unmeasured t))"

definition cap_remaining where
  "cap_remaining e day_start h dir now fs =
     bindR (cap_usd e) (\<lambda>cap. bindR (spent_today e day_start h dir now fs)
       (\<lambda>s. Inr (max 0 (round_to 6 (cap - s)))))"

text \<open>The operator's recorded acceptance of unmeasured rows; \<open>reason\<close> is a string.\<close>

definition ack_row :: "string \<Rightarrow> rat \<Rightarrow> rat \<Rightarrow> dict" where
  "ack_row reason through now =
     [(''executor'', VStr ack_executor), (''ts'', VFloat now), (''ack_through_ts'', VFloat through),
      (''reason'', VStr (py_strip reason)), (''schema_version'', VStr ''agi_v8_unmeasured_ack_v1'')]"

definition ack_unmeasured ::
  "env \<Rightarrow> nat \<Rightarrow> wr \<Rightarrow> string \<Rightarrow> string \<Rightarrow> rat option \<Rightarrow> rat \<Rightarrow> ledger_fs
    \<Rightarrow> ledger_fs \<times> dict result" where
  "ack_unmeasured e umask w dir reason through now fs =
     (if length (py_strip reason) < 12
      then (fs, Inl (ValueError ''the reason of an ack needs at least 12 characters''))
      else
        (let row = ack_row reason (case through of Some t \<Rightarrow> t | None \<Rightarrow> now) now;
             (fs', r) = atomic_append_jsonl e umask w 0 0 (executor_log_path dir) (VDict row) fs
         in (fs', bindR r (\<lambda>_. Inr row))))"

section \<open>Lemmas\<close>

definition counted :: "rat \<Rightarrow> dict \<Rightarrow> bool" where
  "counted start d \<longleftrightarrow> \<not> is_ack d \<and> \<not> before_start start d"

definition acked_by :: "rat \<Rightarrow> dict \<Rightarrow> bool" where
  "acked_by ack d \<longleftrightarrow> (case row_ts d of Some ts \<Rightarrow> ts \<le> ack | None \<Rightarrow> False)"

definition day_spend :: "rat \<Rightarrow> dict list \<Rightarrow> rat" where
  "day_spend start ds = sum_list (map (cost_of ''cost_usd'') (filter (counted start) ds))"

definition open_unmeasured :: "rat \<Rightarrow> rat \<Rightarrow> dict list \<Rightarrow> nat" where
  "open_unmeasured start ack ds =
     length (filter (\<lambda>d. counted start d \<and> row_is_unmeasured d \<and> \<not> acked_by ack d) ds)"

lemma spent_tally_row:
  "spent (tally_row start ack d t) =
     spent t + (if counted start d then cost_of ''cost_usd'' d else 0)"
  by (simp add: tally_row_def counted_def Let_def)

lemma unmeasured_tally_row:
  "unmeasured (tally_row start ack d t) =
     unmeasured t + (if counted start d \<and> row_is_unmeasured d \<and> \<not> acked_by ack d then 1 else 0)"
  by (simp add: tally_row_def counted_def acked_by_def Let_def)

lemma spent_tally: "spent (tally_rows start ds) = day_spend start ds"
proof -
  have "spent (fold (tally_row start ack) ds t) = spent t + day_spend start ds" for ack t
    by (induction ds arbitrary: t) (simp_all add: spent_tally_row day_spend_def)
  then show ?thesis by (simp add: tally_rows_def zero_tally_def)
qed

lemma unmeasured_tally:
  "unmeasured (tally_rows start ds) = open_unmeasured start (ack_through_ts ds start) ds"
proof -
  have "unmeasured (fold (tally_row start ack) ds t) = unmeasured t + open_unmeasured start ack ds" for ack t
    by (induction ds arbitrary: t) (simp_all add: unmeasured_tally_row open_unmeasured_def)
  then show ?thesis by (simp add: tally_rows_def zero_tally_def)
qed

lemma day_spend_append: "day_spend start (ds @ es) = day_spend start ds + day_spend start es"
  by (simp add: day_spend_def)

lemma day_spend_nonneg: "\<forall>d \<in> set ds. 0 \<le> cost_of ''cost_usd'' d \<Longrightarrow> 0 \<le> day_spend start ds"
  by (auto simp: day_spend_def intro!: sum_list_nonneg)

lemma as_dicts_append:
  "as_dicts (vs @ ws) = bindR (as_dicts vs) (\<lambda>ds. bindR (as_dicts ws) (\<lambda>es. Inr (ds @ es)))"
  by (induction vs rule: as_dicts.induct) (auto simp: bindR_def split: sum.splits)

lemma as_dicts_map [simp]: "as_dicts (map VDict ds) = Inr ds"
  by (induction ds) simp_all

lemma paths_differ [simp]: "res_path dir \<noteq> executor_log_path dir" "executor_log_path dir \<noteq> res_path dir"
  by (simp_all add: res_path_def executor_log_path_def)

lemma tally_read:
  assumes "\<not> cross_model_included e" "read_jsonl fs (executor_log_path dir) = Inr rows"
    "as_dicts rows = Inr ds"
  shows "tally_today e day_start h dir now fs =
    Inr ((tally_rows (day_start now) ds)\<lparr>spent := round_to 6 (day_spend (day_start now) ds)\<rparr>, None, None)"
  using assms by (simp add: tally_today_def read_ledger_rows_def Let_def spent_tally)

lemma verdict_simps [simp]:
  "spent_usd (deny why v) = spent_usd v" "cap_used (deny why v) = cap_used v"
  "unmeasured_rows (deny why v) = unmeasured_rows v" "\<not> allowed (deny why v)"
  "cap_reason (deny why v) = why"
  by (simp_all add: deny_def)

lemma base_verdict_simps:
  "allowed (base_verdict e cap t) \<longleftrightarrow>
     spent t < cap \<and> (strict_unmeasured e \<longrightarrow> unmeasured t = 0)"
  "spent_usd (base_verdict e cap t) = spent t" "cap_used (base_verdict e cap t) = cap"
  by (auto simp: base_verdict_def Let_def)

lemma with_ledger_simps:
  "allowed (with_ledger e f v) \<longleftrightarrow> allowed v \<and> (ledger_failclosed_enabled e \<longrightarrow> f = None)"
  "spent_usd (with_ledger e f v) = spent_usd v" "cap_used (with_ledger e f v) = cap_used v"
  by (auto simp: with_ledger_def Let_def deny_def)

lemma with_reservations_allowed:
  "allowed (with_reservations e s v) \<longleftrightarrow> allowed v \<and>
     (ledger_failclosed_enabled e \<longrightarrow> read_failed s = None) \<and>
     round_to 8 (spent_usd v + open_usd s) < cap_used v"
  by (auto simp: with_reservations_def Let_def deny_def)

lemmas verdict_layers = base_verdict_simps with_ledger_simps with_reservations_allowed

lemma cap_check_read:
  assumes "\<not> cross_model_included e" "cap_usd e = Inr cap"
    "read_jsonl fs (executor_log_path dir) = Inr rows" "as_dicts rows = Inr ds"
    "cap_check e day_start h dir now fs = Inr v"
  shows "allowed v \<longleftrightarrow>
    round_to 6 (day_spend (day_start now) ds) < cap \<and>
    (strict_unmeasured e \<longrightarrow> open_unmeasured (day_start now) (ack_through_ts ds (day_start now)) ds = 0) \<and>
    (res_enabled e \<longrightarrow> (\<exists>s. open_reservations e dir now fs = Inr s \<and>
       (ledger_failclosed_enabled e \<longrightarrow> read_failed s = None) \<and>
       round_to 8 (round_to 6 (day_spend (day_start now) ds) + open_usd s) < cap))"
proof -
  let ?t = "(tally_rows (day_start now) ds)\<lparr>spent := round_to 6 (day_spend (day_start now) ds)\<rparr>"
  let ?v = "with_ledger e None (base_verdict e cap ?t)"
  have eq: "cap_check e day_start h dir now fs =
      (if res_enabled e
       then bindR (open_reservations e dir now fs) (\<lambda>s. Inr (with_reservations e s ?v))
       else Inr ?v)"
    by (simp add: cap_check_def assms(2) tally_read [OF assms(1,3,4)] with_cross_def)
  have um: "unmeasured ?t = open_unmeasured (day_start now) (ack_through_ts ds (day_start now)) ds"
    by (simp add: unmeasured_tally)
  show ?thesis
  proof (cases "res_enabled e")
    case True
    with assms(5) eq obtain s where s: "open_reservations e dir now fs = Inr s"
      "v = with_reservations e s ?v" by auto
    show ?thesis unfolding s(2) verdict_layers um using True s(1) by auto
  next
    case False
    with assms(5) eq have v: "v = ?v" by simp
    show ?thesis unfolding v verdict_layers um using False by auto
  qed
qed

definition refused_unread :: "cap_verdict \<Rightarrow> bool" where
  "refused_unread v \<longleftrightarrow> \<not> allowed v \<and> cap_reason v = reason_read_failed"

lemma refused_unread_layers:
  "ledger_failclosed_enabled e \<Longrightarrow> refused_unread (with_ledger e (Some n) v)"
  "refused_unread v \<Longrightarrow> refused_unread (with_cross e ct v)"
  "refused_unread v \<Longrightarrow> refused_unread (with_reservations e s v)"
  by (auto simp: refused_unread_def with_ledger_def with_cross_def with_reservations_def Let_def
      deny_def split: option.splits)

lemma cap_check_failed:
  assumes "read_jsonl fs (executor_log_path dir) = Inl x" "ledger_failclosed_enabled e"
    "cap_check e day_start h dir now fs = Inr v"
  shows "refused_unread v"
proof -
  obtain cap t failed ct where t: "tally_today e day_start h dir now fs = Inr (t, failed, ct)"
    and v: "(if res_enabled e
      then bindR (open_reservations e dir now fs) (\<lambda>s. Inr (with_reservations e s
        (with_cross e ct (with_ledger e failed (base_verdict e cap t)))))
      else Inr (with_cross e ct (with_ledger e failed (base_verdict e cap t)))) = Inr v"
    using assms(3) by (auto simp: cap_check_def Let_def)
  have "failed = Some (safe_exception_type_name x)"
    using t by (auto simp: tally_today_def read_ledger_rows_def assms(1) Let_def split: if_splits)
  then have "refused_unread (with_cross e ct (with_ledger e failed (base_verdict e cap t)))"
    using refused_unread_layers(1,2) [OF _] assms(2) by simp
  then show ?thesis
    using v refused_unread_layers(3) by (auto split: if_splits)
qed

lemma with_cross_allowed:
  "allowed (with_cross e (Some c) v) \<longleftrightarrow>
     allowed v \<and> (ledger_failclosed_enabled e \<longrightarrow> cm_read_failed c = None)"
  by (auto simp: with_cross_def Let_def deny_def)

definition day_charges :: "rat \<Rightarrow> dict list \<Rightarrow> rat" where
  "day_charges start cs = sum_list (map (cost_of ''usd'') (filter (\<lambda>d. \<not> before_start start d) cs))"

lemma cross_tally_read:
  assumes "cross_model_tally e h dir start fs = Inr (cm, ct)" "cm_read_failed ct = None"
  shows "\<exists>p xs cs. resolve_ledger_path e h fs (Some dir) = Inr p \<and> read_spend_rows fs p = Inr xs \<and>
    transaction_charge_rows False xs = Inr cs \<and> cm = day_charges start cs"
  using assms
  by (auto simp: cross_model_tally_def absorb_def day_charges_def Let_def bindR_def
      split: sum.splits if_splits)

lemma ledger_same: "ledger_ok p fs \<Longrightarrow> fs' p = fs p \<Longrightarrow> read_jsonl fs' p = read_jsonl fs p"
  by (auto simp: ledger_ok_def read_jsonl_def split: option.splits node.splits)

section \<open>Properties\<close>


text \<open>C32: Damage to the spend ledger never loosens the cap: after a write that was cut inside a row
  of the executor ledger, whatever is appended later and whenever the cap is asked, every verdict
  it returns under the (default) fail-closed gate refuses the cycle for the unreadable ledger.\<close>

theorem torn_spend_ledger_denies:
  assumes "ledger_failclosed_enabled e" and "ledger_ok (executor_log_path dir) fs"
    and "fs1 = fst (atomic_append_jsonl e umask WrPartial pid tid (executor_log_path dir) row fs)"
    and "cap_check e day_start h dir now (fold (ledger_append e umask (executor_log_path dir)) vs fs1) = Inr v"
  shows "\<not> allowed v \<and> cap_reason v = ''ledger_read_failed''"
proof -
  have "damaged (executor_log_path dir) fs1"
    unfolding assms(3) by (rule partial_write_damages [OF assms(2)])
  then obtain x where "read_jsonl (fold (ledger_append e umask (executor_log_path dir)) vs fs1)
      (executor_log_path dir) = Inl x"
    using damaged_unreadable damaged_fold by blast
  then show ?thesis
    using cap_check_failed [OF _ assms(1,4)] by (simp add: refused_unread_def reason_read_failed_def)
qed

text \<open>A reached cap stays reached for the day: once the recorded spend is at or above the cap,
  no rows appended to the executor ledger (of non-negative cost, acknowledgements included) let
  another cycle through before the next local midnight.\<close>

theorem reached_cap_stays:
  assumes "\<not> cross_model_included e" and "cap_usd e = Inr cap"
    and "ledger_ok (executor_log_path dir) fs"
    and "as_dicts (ledger_rows (executor_log_path dir) fs) = Inr ds"
    and "cap \<le> round_to 6 (day_spend (day_start t0) ds)"
    and "\<forall>d \<in> set es. 0 \<le> cost_of ''cost_usd'' d"
    and "day_start t1 = day_start t0"
    and "cap_check e day_start h dir t1
           (fold (ledger_append e umask (executor_log_path dir)) (map VDict es) fs) = Inr v"
  shows "\<not> allowed v"
proof -
  let ?p = "executor_log_path dir"
  have rd: "read_jsonl (fold (ledger_append e umask ?p) (map VDict es) fs) ?p =
      Inr (ledger_rows ?p fs @ map VDict es)"
    using ledger_read_ok [OF ledger.ok_fold [OF assms(3)]] ledger.rows_fold [OF assms(3)] by metis
  have ds: "as_dicts (ledger_rows ?p fs @ map VDict es) = Inr (ds @ es)"
    by (simp add: as_dicts_append assms(4))
  have "round_to 6 (day_spend (day_start t0) ds) \<le> round_to 6 (day_spend (day_start t1) (ds @ es))"
    using day_spend_nonneg [OF assms(6)] assms(7) by (auto simp: day_spend_append intro!: round_to_mono)
  with assms(5) show ?thesis
    using cap_check_read [OF assms(1,2) rd ds assms(8)] by auto
qed

text \<open>Money on its way out counts: with reservations on, after a reservation is made whose
  rounded amount added to the recorded spend reaches the cap, every verdict asked within its
  lifetime refuses the next cycle, although the executor ledger does not show the money yet.\<close>

theorem reserved_money_counts:
  assumes "res_enabled e" and "\<not> cross_model_included e" and "cap_usd e = Inr cap"
    and "res_ttl e = Inr ttl"
    and "read_jsonl fs (executor_log_path dir) = Inr rows" and "as_dicts rows = Inr ds"
    and "ledger_ok (res_path dir) fs" and "rid \<noteq> []"
    and "foreign rid (ledger_rows (res_path dir) fs)"
    and "reserve e umask WrOk dir rid subject cycle expected t0 spend fs = (fs1, Inr (Held g))"
    and "t1 - t0 \<le> ttl"
    and "read_standings e dir t1 fs = Inr ss" and "\<forall>s \<in> set ss. 0 \<le> live_amount s"
    and "cap \<le> round_to 8 (round_to 6 (day_spend (day_start t1) ds) + round_to 8 (round_to 8 (max 0 expected)))"
    and "cap_check e day_start h dir t1 fs1 = Inr v"
    and "ledger_ok (executor_log_path dir) fs"
  shows "\<not> allowed v"
proof -
  let ?x = "round_to 8 (max 0 expected)" and ?p = "executor_log_path dir"
  have seen: "open_reservations e dir t1 fs1 = Inr (summarise (Live ?x # ss))"
    using reservation_seen [OF assms(7,10,8,9) _ assms(4), where vs = "[]" and t = t1] assms(11,12)
    by auto
  have "fs1 ?p = fs ?p" using reserve_Held(1) [OF assms(7,10)] by simp
  then have same: "read_jsonl fs1 ?p = Inr rows" using assms(5) ledger_same [OF assms(16)] by metis
  have sum: "0 \<le> sum_list (map live_amount ss)"
    using assms(13) by (auto intro!: sum_list_nonneg)
  have "round_to 8 ?x \<le> open_usd (summarise (Live ?x # ss))"
    using sum by (simp add: summarise_def live_amount_def round_to_mono)
  then have "cap \<le> round_to 8 (round_to 6 (day_spend (day_start t1) ds) + open_usd (summarise (Live ?x # ss)))"
    using assms(14) round_to_mono [of "round_to 6 (day_spend (day_start t1) ds) + round_to 8 ?x"
        "round_to 6 (day_spend (day_start t1) ds) + open_usd (summarise (Live ?x # ss))" 8] by linarith
  then show ?thesis
    using cap_check_read [OF assms(2,3) same assms(6) assms(15)] assms(1) seen by auto
qed

text \<open>Under the fail-closed gate the cross-model reviewer's money counts or the cycle is refused:
  when the cap admits a cycle with that ledger included, the ledger was found, strictly read and
  its transactions attributed, and the day's executor spend with the day's charges, rounded to
  six places, is below the cap.\<close>

theorem cross_money_counts:
  assumes "cross_model_included e" and "ledger_failclosed_enabled e" and "cap_usd e = Inr cap"
    and "read_jsonl fs (executor_log_path dir) = Inr rows" and "as_dicts rows = Inr ds"
    and "cap_check e day_start h dir now fs = Inr v" and "allowed v"
  shows "\<exists>p xs cs. resolve_ledger_path e h fs (Some dir) = Inr p \<and> read_spend_rows fs p = Inr xs \<and>
    transaction_charge_rows False xs = Inr cs \<and>
    round_to 6 (day_spend (day_start now) ds + day_charges (day_start now) cs) < cap"
proof -
  let ?s = "day_start now"
  obtain cm ct where ct: "cross_model_tally e h dir ?s fs = Inr (cm, ct)"
    and al: "allowed (with_cross e (Some ct) (with_ledger e None (base_verdict e cap
      ((tally_rows ?s ds)\<lparr>spent := round_to 6 (day_spend ?s ds + cm)\<rparr>))))"
    using assms(6,7)
    by (auto simp: cap_check_def assms(1,3,4,5) tally_today_def read_ledger_rows_def spent_tally
        with_reservations_allowed Let_def split: if_splits)
  from al have "round_to 6 (day_spend ?s ds + cm) < cap" "cm_read_failed ct = None"
    using assms(2) by (auto simp: with_cross_allowed verdict_layers)
  with cross_tally_read [OF ct] show ?thesis by blast
qed

section \<open>Witnesses\<close>

definition no_host :: host where
  "no_host = \<lparr>h_cwd = [], h_home = nobody, h_package = []\<rparr>"

lemma no_env_gates [simp]:
  "\<not> cross_model_included no_env" "\<not> res_enabled no_env" "\<not> strict_unmeasured no_env"
  "cap_usd no_env = Inr 10"
  by (simp_all add: cross_model_included_def strict_unmeasured_def gate_loose_unset no_env_def
      res_enabled_def gate_strict_unset cap_usd_def default_daily_cap_def)

lemma res_env_gates [simp]:
  "\<not> cross_model_included res_env" "\<not> strict_unmeasured res_env" "cap_usd res_env = Inr 10"
  by (simp_all add: cross_model_included_def strict_unmeasured_def gate_loose_unset res_env_def
      no_env_def cap_usd_def default_daily_cap_def)

lemma failclosed_no_env [simp]: "ledger_failclosed_enabled no_env"
  unfolding ledger_failclosed_enabled_def getenv_no_env by code_simp

lemma empty_day [simp]:
  "round_to 6 (day_spend start []) = 0" "ack_through_ts [] start = start - 1"
  "open_unmeasured start ack [] = 0"
  by (simp_all add: day_spend_def round_to_def ack_through_ts_def open_unmeasured_def round_even_def)

lemma read_empty [simp]: "read_jsonl empty_fs p = Inr []"
  by (simp add: read_jsonl_def empty_fs_def)


theorem torn_spend_ledger_denies_witness:
  "\<exists>fs1 v. cap_check no_env (\<lambda>_. 0) no_host ''/s'' 5 fs1 = Inr v \<and>
     cap_reason v = ''ledger_read_failed''"
proof -
  let ?p = "executor_log_path ''/s''"
  let ?fs = "fst (atomic_append_jsonl no_env 18 WrPartial 1 1 ?p (VInt 1) empty_fs)"
  obtain x where x: "read_jsonl ?fs ?p = Inl x"
    using partial_write_damages [OF empty_fs_ok(1)] damaged_unreadable by blast
  have rd: "read_ledger_rows no_env ?fs ?p = Inr ([], Some (safe_exception_type_name x))"
    unfolding read_ledger_rows_def x by simp
  obtain v where v: "cap_check no_env (\<lambda>_. 0) no_host ''/s'' 5 ?fs = Inr v"
    unfolding cap_check_def tally_today_def rd by (simp add: Let_def)
  have "cap_check no_env (\<lambda>_. 0) no_host ''/s'' 5 (fold (ledger_append no_env 18 ?p) [] ?fs) = Inr v"
    using v by simp
  from torn_spend_ledger_denies [OF failclosed_no_env empty_fs_ok(1) refl this] v show ?thesis by blast
qed

theorem reached_cap_stays_witness:
  "\<exists>fs v. cap_check no_env (\<lambda>_. 0) no_host ''/s'' 9 fs = Inr v \<and> \<not> allowed v"
proof -
  let ?p = "executor_log_path ''/s''" and ?d = "[(''cost_usd'', VFloat 12)]"
  let ?fs = "ledger_append no_env 18 ?p (VDict ?d) empty_fs"
  have ok: "ledger_ok ?p ?fs" by (simp add: ledger_append_ok)
  have rows: "ledger_rows ?p ?fs = [VDict ?d]" by (simp add: ledger_rows_append)
  have counted: "counted 0 ?d"
    by (simp add: counted_def is_ack_def before_start_def row_ts_def ts_keys_def dict_get_def number_of_def)
  have spend: "round_to 6 (day_spend 0 [?d]) = 12"
    using counted by (simp add: day_spend_def cost_of_def dict_get_def number_of_def round_to_def
        round_even_def)
  let ?fs' = "fold (ledger_append no_env 18 ?p) (map VDict [?d]) ?fs"
  have rd: "read_jsonl ?fs' ?p = Inr [VDict ?d, VDict ?d]"
    by (simp only: ledger_read_ok [OF ledger.ok_fold [OF ok]] ledger.rows_fold [OF ok] rows
        list.map append_Cons append_Nil)
  obtain v where v: "cap_check no_env (\<lambda>_. 0) no_host ''/s'' 9 ?fs' = Inr v"
    using tally_read [where fs = ?fs' and ds = "[?d, ?d]", OF no_env_gates(1) rd]
    by (simp add: cap_check_def Let_def)
  have "\<not> allowed v"
  proof (rule reached_cap_stays [OF no_env_gates(1,4) ok _ _ _ _ v, where ds = "[?d]"])
    show "as_dicts (ledger_rows ?p ?fs) = Inr [?d]" by (simp add: rows)
    show "10 \<le> round_to 6 (day_spend 0 [?d])" by (simp add: spend)
    show "\<forall>d \<in> set [?d]. 0 \<le> cost_of ''cost_usd'' d"
      by (simp add: cost_of_def dict_get_def number_of_def)
  qed simp
  with v show ?thesis by blast
qed

theorem reserved_money_counts_witness:
  "\<exists>fs v. cap_check res_env (\<lambda>_. 0) no_host ''/s'' 9 fs = Inr v \<and> \<not> allowed v"
proof -
  obtain fs1 g where r: "reserve res_env 18 WrOk ''/s'' ''r1'' ''dispatch'' VNone 20 5 (Inr 0) empty_fs =
      (fs1, Inr (Held g))"
    by (simp add: reserve_def res_append_ok safe_episode_spend_def Let_def)
  have st: "read_standings res_env ''/s'' 9 empty_fs = Inr []"
    by (simp add: read_standings_def standings_def)
  obtain s where s: "open_reservations res_env ''/s'' 9 fs1 = Inr s"
    using reservation_seen [OF _ r, where vs = "[]" and t = 9] by auto
  have "fs1 (executor_log_path ''/s'') = empty_fs (executor_log_path ''/s'')"
    using reserve_Held(1) [OF _ r] by simp
  then have rd: "read_jsonl fs1 (executor_log_path ''/s'') = Inr []"
    using ledger_same [OF empty_fs_ok(1)] by simp
  obtain v where v: "cap_check res_env (\<lambda>_. 0) no_host ''/s'' 9 fs1 = Inr v"
    using s tally_read [where ds = "[]", OF res_env_gates(1) rd] by (simp add: cap_check_def Let_def)
  have "\<not> allowed v"
    by (rule reserved_money_counts [OF res_env(1) res_env_gates(1,3) res_env(3) read_empty _ _ _ _ r _ st
          _ _ v empty_fs_ok(1), where ds = "[]"])
      (simp_all add: day_spend_def round_to_def round_even_def)
  with v show ?thesis by blast
qed

definition cross_env :: env where
  "cross_env = no_env(''AGI_V8_COST_CAP_INCLUDE_CROSS_MODEL'' \<mapsto> ''1'')"

lemma cross_env_gates [simp]:
  "cross_model_included cross_env" "ledger_failclosed_enabled cross_env" "cap_usd cross_env = Inr 10"
  "\<not> res_enabled cross_env" "\<not> strict_unmeasured cross_env"
  by (simp_all add: strict_unmeasured_def gate_loose_unset cross_env_def no_env_def
      cap_usd_def default_daily_cap_def res_enabled_def gate_strict_unset)
    (simp_all add: cross_model_included_def gate_loose_def ledger_failclosed_enabled_def getenv_def, code_simp+)

theorem cross_money_counts_witness:
  "\<exists>v. cap_check cross_env (\<lambda>_. 0) no_host ''/s'' 5 empty_fs = Inr v \<and> allowed v"
proof -
  have blank: "py_strip [] = []" by code_simp
  have p: "resolve_ledger_path cross_env no_host empty_fs (Some ''/s'') = Inr (''/s'' @ cross_rel)"
    by (simp add: resolve_ledger_path_def cross_env_def no_env_def getenv_def blank)
  have r: "read_spend_rows empty_fs q = Inr []" for q
    by (simp add: read_spend_rows_def empty_fs_def)
  obtain v where v: "cap_check cross_env (\<lambda>_. 0) no_host ''/s'' 5 empty_fs = Inr v" "allowed v"
    by (simp add: cap_check_def tally_today_def read_ledger_rows_def cross_model_tally_def p r
        transaction_charge_rows_def spent_tally verdict_layers with_cross_allowed Let_def
        day_spend_def round_to_def round_even_def unmeasured_tally)
  then show ?thesis using cross_money_counts [OF cross_env_gates(1-3) read_empty _ v, of "[]"] by auto
qed

end
