(* ===== verification/ApplyChain.thy ===== *)
theory ApplyChain
  imports Store Json
begin

text \<open>
  The hash-chained audit log of applied changes (\<open>enforcement/apply_chain_full.py\<close>): every
  record names the hash of its predecessor and carries its own, computed over the record less
  \<open>entry_hash\<close> and \<open>seq\<close>. SHA-256 (of the UTF-8 text, in hexadecimal) is the parameter \<open>sha\<close>,
  the digits of floats are \<open>fr\<close>. The sidecar lock makes an append one step. \<^const>\<open>Blank\<close>
  stands for an empty line here.
\<close>

section \<open>Hashes\<close>

type_synonym hasher = "string \<Rightarrow> string"

definition genesis_prev_hash :: string where
  "genesis_prev_hash = replicate 64 (CHR ''0'')"

definition chain_schema_version :: string where
  "chain_schema_version = ''agi_v8_apply_chain_full_v1''"

definition seq_verify_enabled :: "env \<Rightarrow> bool" where
  "seq_verify_enabled e \<longleftrightarrow> getenv e ''AGI_V8_APPLY_CHAIN_SEQ_VERIFY'' ''1'' \<in> {''1'', ''true''}"

definition hash_body :: "dict \<Rightarrow> dict" where
  "hash_body d = filter (\<lambda>(k, _). k \<notin> {''entry_hash'', ''seq''}) d"

definition compute_entry_hash :: "hasher \<Rightarrow> (rat \<Rightarrow> string) \<Rightarrow> dict \<Rightarrow> string" where
  "compute_entry_hash sha fr d = sha (json_text_raw fr (VDict (hash_body d)))"

text \<open>Where the chain lies: the argument, the environment, or the installed package.\<close>

definition resolve_chain_path :: "env \<Rightarrow> string \<Rightarrow> string option \<Rightarrow> path" where
  "resolve_chain_path e package state_dir =
     (case state_dir of
        Some dir \<Rightarrow> dir
      | None \<Rightarrow>
          (let a = getenv e ''AGI_V8_STATE_DIR'' []; b = getenv e ''AGI_STATE_DIR'' []
           in if a \<noteq> [] then a else if b \<noteq> [] then b else package @ ''/state''))
       @ ''/auto_apply_chain.jsonl''"

section \<open>The tail\<close>

fun last_line :: "jline list \<Rightarrow> jline option" where
  "last_line [] = None"
| "last_line (x # xs) =
     (case last_line xs of Some l \<Rightarrow> Some l | None \<Rightarrow> if x = Blank then None else Some x)"

definition read_last_record :: "ledger_fs \<Rightarrow> path \<Rightarrow> dict option result" where
  "read_last_record fs p =
     (case opened fs p of
        None \<Rightarrow> Inr None
      | Some (Reg _ c) \<Rightarrow>
          (case last_line (jlines c) of
             None \<Rightarrow> Inr None
           | Some (Row (VDict d)) \<Rightarrow> Inr (Some d)
           | Some (Row _) \<Rightarrow> Inl (ValueError (''final apply-chain record is not an object: '' @ p))
           | Some _ \<Rightarrow> Inl (ValueError (''malformed final apply-chain record: '' @ p)))
      | Some _ \<Rightarrow> Inl (OSError ''Is a directory''))"

text \<open>The hash the next record must name, once the stored one is verified.\<close>

definition tail_hash :: "hasher \<Rightarrow> (rat \<Rightarrow> string) \<Rightarrow> path \<Rightarrow> dict option \<Rightarrow> string result" where
  "tail_hash sha fr p r =
     (case r of
        None \<Rightarrow> Inr genesis_prev_hash
      | Some d \<Rightarrow>
          if dict_get d ''entry_hash'' = VStr (compute_entry_hash sha fr d)
          then Inr (compute_entry_hash sha fr d)
          else Inl (ValueError (''final apply-chain record entry_hash mismatch: '' @ p)))"

definition read_last_hash :: "hasher \<Rightarrow> (rat \<Rightarrow> string) \<Rightarrow> ledger_fs \<Rightarrow> path \<Rightarrow> string result" where
  "read_last_hash sha fr fs p = bindR (read_last_record fs p) (tail_hash sha fr p)"

section \<open>Appending\<close>

text \<open>\<open>isinstance(last_seq, int)\<close> holds of booleans too.\<close>

definition next_seq :: "dict option \<Rightarrow> int" where
  "next_seq r =
     (case r of
        None \<Rightarrow> 0
      | Some d \<Rightarrow> (case dict_get d ''seq'' of VInt i \<Rightarrow> i + 1 | VBool b \<Rightarrow> (if b then 2 else 1) | _ \<Rightarrow> 0))"

definition chain_record ::
  "env \<Rightarrow> hasher \<Rightarrow> (rat \<Rightarrow> string) \<Rightarrow> rat \<Rightarrow> string \<Rightarrow> dict option \<Rightarrow> dict \<Rightarrow> dict" where
  "chain_record e sha fr now prev tail rec =
     (let r1 = dict_set rec ''prev_hash'' (VStr prev);
          r2 = (if seq_verify_enabled e \<and> \<not> dict_has r1 ''seq''
                then dict_set r1 ''seq'' (VInt (next_seq tail)) else r1);
          r3 = dict_setdefault r2 ''ts'' (VFloat now);
          r4 = dict_setdefault r3 ''schema_version'' (VStr chain_schema_version)
      in dict_set r4 ''entry_hash'' (VStr (compute_entry_hash sha fr r4)))"

definition chain_append ::
  "env \<Rightarrow> hasher \<Rightarrow> (rat \<Rightarrow> string) \<Rightarrow> nat \<Rightarrow> wr \<Rightarrow> rat \<Rightarrow> path \<Rightarrow> dict \<Rightarrow> ledger_fs
    \<Rightarrow> ledger_fs \<times> (string \<times> dict) result" where
  "chain_append e sha fr umask w now p rec fs =
     (case read_last_record fs p of
        Inl x \<Rightarrow> (fs, Inl x)
      | Inr tail \<Rightarrow>
          (case tail_hash sha fr p tail of
             Inl x \<Rightarrow> (fs, Inl x)
           | Inr prev \<Rightarrow>
               (let r = chain_record e sha fr now prev tail rec;
                    (fs', ok) = atomic_append_jsonl e umask w 0 0 p (VDict r) fs
                in (fs', bindR ok (\<lambda>_. Inr (compute_entry_hash sha fr r, r))))))"

section \<open>Verifying\<close>

type_synonym chain_verdict = "bool \<times> nat option \<times> string option"

record walk =
  w_prev :: string
  w_last :: "int option"
  w_anchored :: bool

definition walk_start :: walk where
  "walk_start = \<lparr>w_prev = genesis_prev_hash, w_last = None, w_anchored = False\<rparr>"

fun type_name :: "pyv \<Rightarrow> string" where
  "type_name VNone = ''NoneType''"
| "type_name (VBool _) = ''bool''"
| "type_name (VInt _) = ''int''"
| "type_name (VFloat _) = ''float''"
| "type_name (VStr _) = ''str''"
| "type_name (VList _) = ''list''"
| "type_name (VDict _) = ''dict''"

text \<open>The checks of \<open>seq\<close> on one record: a complaint or the new state.\<close>

definition seq_step :: "dict \<Rightarrow> walk \<Rightarrow> string + walk" where
  "seq_step d s =
     (if \<not> dict_has d ''seq'' then Inr s
      else case dict_get d ''seq'' of
             VInt q \<Rightarrow>
               if \<not> w_anchored s \<and> q \<noteq> 0
               then Inl (''seq_anchor_mismatch: first seq-bearing entry must start at 0, got '' @ int_text q)
               else (case w_last s of
                       Some l \<Rightarrow>
                         if q \<noteq> l + 1
                         then Inl (''seq_mismatch: expected '' @ int_text (l + 1) @ '', got '' @ int_text q)
                         else Inr (s\<lparr>w_last := Some q, w_anchored := True\<rparr>)
                     | None \<Rightarrow> Inr (s\<lparr>w_last := Some q, w_anchored := True\<rparr>))
           | v \<Rightarrow> Inl (''seq_type_error: expected int, got '' @ type_name v))"

definition record_step ::
  "bool \<Rightarrow> hasher \<Rightarrow> (rat \<Rightarrow> string) \<Rightarrow> dict \<Rightarrow> walk \<Rightarrow> string + walk" where
  "record_step seqs sha fr d s =
     (let h = compute_entry_hash sha fr d in
      if dict_get d ''prev_hash'' \<noteq> VStr (w_prev s) then Inl (w_prev s)
      else if dict_get d ''entry_hash'' \<noteq> VStr h then Inl h
      else bindR (if seqs then seq_step d s else Inr s) (\<lambda>s'. Inr (s'\<lparr>w_prev := h\<rparr>)))"

fun walk_lines ::
  "env \<Rightarrow> hasher \<Rightarrow> (rat \<Rightarrow> string) \<Rightarrow> nat \<Rightarrow> walk \<Rightarrow> jline list \<Rightarrow> chain_verdict result" where
  "walk_lines e sha fr i s [] = Inr (True, None, None)"
| "walk_lines e sha fr i s (Blank # ls) = walk_lines e sha fr (Suc i) s ls"
| "walk_lines e sha fr i s (Bad # ls) =
     absorb e (JSONDecodeError ''Expecting value'') (False, Some i, Some (w_prev s))"
| "walk_lines e sha fr i s (Row v # ls) =
     (case v of
        VDict d \<Rightarrow>
          (case record_step (seq_verify_enabled e) sha fr d s of
             Inl why \<Rightarrow> Inr (False, Some i, Some why)
           | Inr s' \<Rightarrow> walk_lines e sha fr (Suc i) s' ls)
      | _ \<Rightarrow> Inr (False, Some i, Some (w_prev s)))"

definition verify_chain :: "env \<Rightarrow> hasher \<Rightarrow> (rat \<Rightarrow> string) \<Rightarrow> ledger_fs \<Rightarrow> path \<Rightarrow> chain_verdict result" where
  "verify_chain e sha fr fs p =
     (case opened fs p of
        None \<Rightarrow> Inr (True, None, None)
      | Some (Reg _ c) \<Rightarrow> walk_lines e sha fr 0 walk_start (jlines c)
      | Some _ \<Rightarrow> Inl (OSError ''Is a directory''))"

section \<open>Write-ahead intents\<close>

definition intent_of :: "string \<Rightarrow> dict \<Rightarrow> dict" where
  "intent_of txn rec = dict_set (dict_set rec ''event_phase'' (VStr ''intent'')) ''txn_id'' (VStr txn)"

definition commit_of :: "string \<Rightarrow> dict \<Rightarrow> dict" where
  "commit_of txn rec = dict_set (dict_set rec ''event_phase'' (VStr ''committed'')) ''txn_id'' (VStr txn)"

definition begin_intent where
  "begin_intent e sha fr umask w now p txn rec fs =
     (let (fs', r) = chain_append e sha fr umask w now p (intent_of txn rec) fs
      in (fs', bindR r (\<lambda>_. Inr txn)))"

definition commit where
  "commit e sha fr umask w now p txn rec fs =
     (let (fs', r) = chain_append e sha fr umask w now p (commit_of txn rec) fs
      in (fs', bindR r (\<lambda>(h, _). Inr h)))"

text \<open>Transaction ids as dict keys: equal numbers are one key, lists and dicts are none.\<close>

fun txn_key :: "pyv \<Rightarrow> pyv result" where
  "txn_key (VBool b) = Inr (VFloat (if b then 1 else 0))"
| "txn_key (VInt i) = Inr (VFloat (of_int i))"
| "txn_key (VList _) = Inl (TypeError ''unhashable type'')"
| "txn_key (VDict _) = Inl (TypeError ''unhashable type'')"
| "txn_key v = Inr v"

fun put_intent :: "pyv \<Rightarrow> dict \<Rightarrow> (pyv \<times> dict) list \<Rightarrow> (pyv \<times> dict) list" where
  "put_intent k d [] = [(k, d)]"
| "put_intent k d ((k', d') # xs) = (if k' = k then (k, d) # xs else (k', d') # put_intent k d xs)"

definition intent_step ::
  "dict \<Rightarrow> (pyv \<times> dict) list \<times> pyv set \<Rightarrow> ((pyv \<times> dict) list \<times> pyv set) result" where
  "intent_step d st =
     (let t = dict_get d ''txn_id''; ph = dict_get d ''event_phase'' in
      if \<not> truthy t then Inr st
      else if ph = VStr ''intent'' then bindR (txn_key t) (\<lambda>k. Inr (put_intent k d (fst st), snd st))
      else if ph = VStr ''committed'' then bindR (txn_key t) (\<lambda>k. Inr (fst st, insert k (snd st)))
      else Inr st)"

fun scan_intents ::
  "env \<Rightarrow> (pyv \<times> dict) list \<times> pyv set \<Rightarrow> jline list \<Rightarrow> ((pyv \<times> dict) list \<times> pyv set) result" where
  "scan_intents e st [] = Inr st"
| "scan_intents e st (Blank # ls) = scan_intents e st ls"
| "scan_intents e st (Bad # ls) =
     bindR (absorb e (JSONDecodeError ''Expecting value'') ()) (\<lambda>_. scan_intents e st ls)"
| "scan_intents e st (Row (VDict d) # ls) = bindR (intent_step d st) (\<lambda>st'. scan_intents e st' ls)"
| "scan_intents e st (Row v # ls) = scan_intents e st ls"

definition orphans_of :: "(pyv \<times> dict) list \<times> pyv set \<Rightarrow> dict list" where
  "orphans_of st = map snd (filter (\<lambda>(k, _). k \<notin> snd st) (fst st))"

definition find_orphaned_intents :: "env \<Rightarrow> ledger_fs \<Rightarrow> path \<Rightarrow> dict list result" where
  "find_orphaned_intents e fs p =
     (case opened fs p of
        None \<Rightarrow> Inr []
      | Some (Reg _ c) \<Rightarrow> bindR (scan_intents e ([], {}) (jlines c)) (\<lambda>st. Inr (orphans_of st))
      | Some _ \<Rightarrow> Inl (OSError ''Is a directory''))"

section \<open>The chain as a list of records\<close>

definition chain_at :: "ledger_fs \<Rightarrow> path \<Rightarrow> dict list \<Rightarrow> bool" where
  "chain_at fs p ds \<longleftrightarrow>
     (case fs p of
        None \<Rightarrow> ds = []
      | Some (Reg _ c) \<Rightarrow> \<not> torn c \<and> jlines c = map (\<lambda>d. Row (VDict d)) ds
      | _ \<Rightarrow> False)"

fun walk_rows :: "bool \<Rightarrow> hasher \<Rightarrow> (rat \<Rightarrow> string) \<Rightarrow> walk \<Rightarrow> dict list \<Rightarrow> string + walk" where
  "walk_rows seqs sha fr s [] = Inr s"
| "walk_rows seqs sha fr s (d # ds) = bindR (record_step seqs sha fr d s) (\<lambda>s'. walk_rows seqs sha fr s' ds)"

lemma walk_rows_append:
  "walk_rows q sha fr s (xs @ ys) = bindR (walk_rows q sha fr s xs) (\<lambda>t. walk_rows q sha fr t ys)"
  by (induction xs arbitrary: s) (auto simp: bindR_def split: sum.splits)

lemma walk_lines_rows:
  "walk_lines e sha fr i s (map (\<lambda>d. Row (VDict d)) ds) = Inr (True, None, None) \<longleftrightarrow>
     (\<exists>t. walk_rows (seq_verify_enabled e) sha fr s ds = Inr t)"
  by (induction ds arbitrary: i s) (auto split: sum.splits)

lemma walk_lines_append:
  "walk_rows (seq_verify_enabled e) sha fr s xs = Inr t \<Longrightarrow>
     walk_lines e sha fr i s (map (\<lambda>d. Row (VDict d)) xs @ ls) = walk_lines e sha fr (i + length xs) t ls"
  by (induction xs arbitrary: i s) (auto split: sum.splits)

lemma verify_chain_at:
  assumes "chain_at fs p ds"
  shows "verify_chain e sha fr fs p = Inr (True, None, None) \<longleftrightarrow>
    (\<exists>t. walk_rows (seq_verify_enabled e) sha fr walk_start ds = Inr t)"
proof (cases "fs p")
  case None
  with assms show ?thesis by (simp add: chain_at_def verify_chain_def)
next
  case (Some n)
  with assms obtain m c where "fs p = Some (Reg m c)" "jlines c = map (\<lambda>d. Row (VDict d)) ds"
    by (auto simp: chain_at_def split: node.splits)
  then show ?thesis by (simp add: verify_chain_def walk_lines_rows)
qed

lemma last_line_rows:
  "last_line (map (\<lambda>d. Row (VDict d)) ds) = (if ds = [] then None else Some (Row (VDict (List.last ds))))"
  by (induction ds) auto

definition last_rec :: "dict list \<Rightarrow> dict option" where
  "last_rec ds = (if ds = [] then None else Some (List.last ds))"

lemma last_rec_simps [simp]: "last_rec [] = None" "last_rec (ds @ [d]) = Some d"
  by (simp_all add: last_rec_def)

lemma read_last_chain: "chain_at fs p ds \<Longrightarrow> read_last_record fs p = Inr (last_rec ds)"
  by (auto simp: chain_at_def read_last_record_def last_rec_def last_line_rows
      split: option.splits node.splits if_splits)

lemma chain_at_append:
  assumes "chain_at fs p ds"
  shows "snd (atomic_append_jsonl e umask WrOk 0 0 p (VDict d) fs) = Inr ()"
    and "chain_at (fst (atomic_append_jsonl e umask WrOk 0 0 p (VDict d) fs)) p (ds @ [d])"
  using assms by (auto simp: chain_at_def atomic_append_eq append_jsonl_unlocked_def add_line_def
      split: option.splits node.splits)

lemma chain_append_ok:
  assumes "chain_at fs p ds" "tail_hash sha fr p (last_rec ds) = Inr prev"
  shows "\<exists>fs'. chain_append e sha fr umask WrOk now p rec fs =
      (fs', Inr (compute_entry_hash sha fr (chain_record e sha fr now prev (last_rec ds) rec),
                 chain_record e sha fr now prev (last_rec ds) rec)) \<and>
    chain_at fs' p (ds @ [chain_record e sha fr now prev (last_rec ds) rec])"
proof -
  let ?r = "chain_record e sha fr now prev (last_rec ds) rec"
  obtain fs' ok where a: "atomic_append_jsonl e umask WrOk 0 0 p (VDict ?r) fs = (fs', ok)"
    by (cases "atomic_append_jsonl e umask WrOk 0 0 p (VDict ?r) fs")
  with chain_at_append [OF assms(1), of e umask ?r] have "ok = Inr ()" "chain_at fs' p (ds @ [?r])"
    by simp_all
  then show ?thesis
    using a by (simp add: chain_append_def read_last_chain [OF assms(1)] assms(2) Let_def)
qed

section \<open>The record an append writes\<close>

lemma filter_dict_set: "\<not> P k \<Longrightarrow> filter (\<lambda>(x, _). P x) (dict_set d k v) = filter (\<lambda>(x, _). P x) d"
  by (induction d k v rule: dict_set.induct) auto

lemma hash_body_entry [simp]: "hash_body (dict_set d ''entry_hash'' v) = hash_body d"
  unfolding hash_body_def by (rule filter_dict_set) simp

lemma compute_entry_hash_entry [simp]:
  "compute_entry_hash sha fr (dict_set d ''entry_hash'' v) = compute_entry_hash sha fr d"
  by (simp add: compute_entry_hash_def)

lemma dict_get_setdefault:
  "k' \<noteq> k \<Longrightarrow> dict_get (dict_setdefault d k v) k' = dict_get d k'"
  "k' \<noteq> k \<Longrightarrow> dict_has (dict_setdefault d k v) k' = dict_has d k'"
  by (auto simp: dict_get_def dict_has_def)

lemma chain_record_fields:
  "dict_get (chain_record e sha fr now prev tail rec) ''prev_hash'' = VStr prev"
  "dict_get (chain_record e sha fr now prev tail rec) ''entry_hash'' =
     VStr (compute_entry_hash sha fr (chain_record e sha fr now prev tail rec))"
  by (simp_all add: chain_record_def Let_def dict_get_setdefault)

lemma chain_record_seq:
  assumes "seq_verify_enabled e \<Longrightarrow> \<not> dict_has rec ''seq''"
  shows "dict_has (chain_record e sha fr now prev tail rec) ''seq'' \<longleftrightarrow>
      seq_verify_enabled e \<or> dict_has rec ''seq''"
    and "seq_verify_enabled e \<Longrightarrow>
      dict_get (chain_record e sha fr now prev tail rec) ''seq'' = VInt (next_seq tail)"
  using assms by (auto simp: chain_record_def Let_def dict_get_setdefault)

section \<open>A chain in order\<close>

definition in_order :: "bool \<Rightarrow> hasher \<Rightarrow> (rat \<Rightarrow> string) \<Rightarrow> dict list \<Rightarrow> walk \<Rightarrow> bool" where
  "in_order seqs sha fr ds t \<longleftrightarrow>
     walk_rows seqs sha fr walk_start ds = Inr t \<and>
     (seqs \<longrightarrow> next_seq (last_rec ds) = (case w_last t of None \<Rightarrow> 0 | Some l \<Rightarrow> l + 1) \<and>
               (w_anchored t \<longleftrightarrow> w_last t \<noteq> None))"

lemma record_step_eq_Inr:
  "record_step q sha fr d s = Inr t \<longleftrightarrow>
     dict_get d ''prev_hash'' = VStr (w_prev s) \<and>
     dict_get d ''entry_hash'' = VStr (compute_entry_hash sha fr d) \<and>
     (\<exists>s'. (if q then seq_step d s else Inr s) = Inr s' \<and> t = s'\<lparr>w_prev := compute_entry_hash sha fr d\<rparr>)"
  by (auto simp: record_step_def Let_def)

lemma walk_tail:
  assumes "walk_rows q sha fr walk_start ds = Inr t"
  shows "tail_hash sha fr p (last_rec ds) = Inr (w_prev t)"
proof (cases ds rule: rev_cases)
  case Nil
  with assms show ?thesis by (auto simp: tail_hash_def walk_start_def)
next
  case (snoc xs d)
  with assms obtain s where "record_step q sha fr d s = Inr t" by (auto simp: walk_rows_append)
  then show ?thesis using snoc by (auto simp: record_step_eq_Inr tail_hash_def)
qed

lemma append_in_order:
  assumes "in_order (seq_verify_enabled e) sha fr ds t"
    and "seq_verify_enabled e \<Longrightarrow> \<not> dict_has rec ''seq''"
  shows "\<exists>t'. in_order (seq_verify_enabled e) sha fr
    (ds @ [chain_record e sha fr now (w_prev t) (last_rec ds) rec]) t'"
proof -
  let ?r = "chain_record e sha fr now (w_prev t) (last_rec ds) rec"
  have w: "walk_rows (seq_verify_enabled e) sha fr walk_start ds = Inr t"
    using assms(1) by (simp add: in_order_def)
  show ?thesis
  proof (cases "seq_verify_enabled e")
    case True
    let ?n = "next_seq (last_rec ds)"
    have seq: "dict_has ?r ''seq''" "dict_get ?r ''seq'' = VInt ?n"
      using chain_record_seq [OF assms(2)] True by blast+
    have "seq_step ?r t = Inr (t\<lparr>w_last := Some ?n, w_anchored := True\<rparr>)"
      using assms(1) True by (auto simp: seq_step_def seq in_order_def split: option.splits)
    then have "record_step True sha fr ?r t =
        Inr (t\<lparr>w_last := Some ?n, w_anchored := True, w_prev := compute_entry_hash sha fr ?r\<rparr>)"
      by (simp add: record_step_def chain_record_fields)
    then show ?thesis
      using w True by (auto simp: in_order_def walk_rows_append next_seq_def seq(2))
  next
    case False
    then have "record_step False sha fr ?r t = Inr (t\<lparr>w_prev := compute_entry_hash sha fr ?r\<rparr>)"
      by (simp add: record_step_def chain_record_fields)
    then show ?thesis using w False by (auto simp: in_order_def walk_rows_append)
  qed
qed

definition push_record where
  "push_record e sha fr umask p r fs = fst (chain_append e sha fr umask WrOk (fst r) p (snd r) fs)"

lemma push_in_order:
  assumes "chain_at fs p ds" "in_order (seq_verify_enabled e) sha fr ds t"
    and "seq_verify_enabled e \<Longrightarrow> \<not> dict_has (snd r) ''seq''"
  shows "\<exists>d t'. chain_at (push_record e sha fr umask p r fs) p (ds @ [d]) \<and>
    in_order (seq_verify_enabled e) sha fr (ds @ [d]) t'"
proof -
  have th: "tail_hash sha fr p (last_rec ds) = Inr (w_prev t)"
    using assms(2) walk_tail unfolding in_order_def by blast
  show ?thesis
    using chain_append_ok [OF assms(1) th, of e umask "fst r" "snd r"]
      append_in_order [OF assms(2,3), where now = "fst r"]
    by (auto simp: push_record_def)
qed

lemma pushes_in_order:
  assumes "chain_at fs p ds" "in_order (seq_verify_enabled e) sha fr ds t"
    and "seq_verify_enabled e \<Longrightarrow> \<forall>r \<in> set rs. \<not> dict_has (snd r) ''seq''"
  shows "\<exists>es t'. length es = length rs \<and> chain_at (fold (push_record e sha fr umask p) rs fs) p (ds @ es) \<and>
    in_order (seq_verify_enabled e) sha fr (ds @ es) t'"
  using assms
proof (induction rs arbitrary: fs ds t)
  case (Cons r rs)
  have "seq_verify_enabled e \<Longrightarrow> \<not> dict_has (snd r) ''seq''" using Cons.prems(3) by simp
  then obtain d t1 where d: "chain_at (push_record e sha fr umask p r fs) p (ds @ [d])"
    "in_order (seq_verify_enabled e) sha fr (ds @ [d]) t1"
    using push_in_order [OF Cons.prems(1,2)] by blast
  then obtain es t' where "length es = length rs"
    "chain_at (fold (push_record e sha fr umask p) rs (push_record e sha fr umask p r fs)) p ((ds @ [d]) @ es)"
    "in_order (seq_verify_enabled e) sha fr ((ds @ [d]) @ es) t'"
    using Cons.IH [OF d] Cons.prems(3) by auto
  then show ?case by (intro exI [of _ "d # es"] exI [of _ t']) simp
qed (auto intro: exI [of _ "[]"])

lemma empty_chain: "fs p = None \<Longrightarrow> chain_at fs p []"
  by (simp add: chain_at_def)

lemma empty_in_order: "in_order q sha fr [] walk_start"
  by (simp add: in_order_def walk_start_def next_seq_def)

section \<open>What one hash pins down\<close>

definition same_record :: "dict \<Rightarrow> dict \<Rightarrow> bool" where
  "same_record d d' \<longleftrightarrow> same_value (VDict (hash_body d)) (VDict (hash_body d'))"

definition collision_free :: "hasher \<Rightarrow> (rat \<Rightarrow> string) \<Rightarrow> dict set \<Rightarrow> bool" where
  "collision_free sha fr R \<longleftrightarrow>
     (\<forall>d \<in> R. compute_entry_hash sha fr d \<noteq> genesis_prev_hash \<and>
        (\<forall>d' \<in> R. compute_entry_hash sha fr d = compute_entry_hash sha fr d' \<longrightarrow> same_record d d'))"

lemma keys_canon_items [simp]: "map fst (canon_items d) = map fst d"
  by (induction d) auto

lemma map_of_canon_items: "map_of (canon_items d) k = map_option canon (map_of d k)"
  by (induction d) auto

lemma map_of_sort_key:
  assumes "distinct (map fst xs)"
  shows "map_of (sort_key fst xs) = map_of xs"
proof -
  have "distinct (map fst (sort_key fst xs))"
    by (metis assms distinct_map distinct_sort set_sort)
  then show ?thesis using assms by (intro map_of_inject_set [THEN iffD2]) simp_all
qed

lemma canon_VStr: "canon v = VStr s \<longleftrightarrow> v = VStr s"
  by (cases v) simp_all

lemma map_of_hash_body: "k \<notin> {''entry_hash'', ''seq''} \<Longrightarrow> map_of (hash_body d) k = map_of d k"
  unfolding hash_body_def by (induction d) auto

lemma distinct_hash_body: "distinct (map fst d) \<Longrightarrow> distinct (map fst (hash_body d))"
  unfolding hash_body_def by (rule distinct_map_filter)

lemma same_record_get:
  assumes "same_record d d'" "distinct (map fst d)" "distinct (map fst d')"
    "k \<notin> {''entry_hash'', ''seq''}" "dict_get d k = VStr s"
  shows "dict_get d' k = VStr s"
proof -
  have d: "distinct (map fst (canon_items (hash_body d)))" "distinct (map fst (canon_items (hash_body d')))"
    using assms(2,3) by (simp_all only: keys_canon_items distinct_hash_body)
  have "sort_key fst (canon_items (hash_body d)) = sort_key fst (canon_items (hash_body d'))"
    using assms(1) by (simp add: same_record_def same_value_def)
  then have "map_of (canon_items (hash_body d)) = map_of (canon_items (hash_body d'))"
    using map_of_sort_key [OF d(1)] map_of_sort_key [OF d(2)] by metis
  then have "map_option canon (map_of d k) = map_option canon (map_of d' k)"
    using assms(4) by (metis map_of_canon_items map_of_hash_body)
  moreover have "map_of d k = Some (VStr s)"
    using assms(5) by (cases "map_of d k") (simp_all add: dict_get_def)
  ultimately have "map_option canon (map_of d' k) = Some (VStr s)" by simp
  then have "map_of d' k = Some (VStr s)" by (auto simp: canon_VStr)
  then show ?thesis by (simp add: dict_get_def)
qed

text \<open>Two verified chains that end in the same hash hold the same records.\<close>

lemma walks_agree:
  assumes "walk_rows q sha fr walk_start ds = Inr t" "walk_rows q' sha fr walk_start ds' = Inr t'"
    "w_prev t = w_prev t'" "collision_free sha fr (set ds \<union> set ds')"
    "\<forall>d \<in> set ds \<union> set ds'. distinct (map fst d)"
  shows "list_all2 same_record ds ds'"
  using assms
proof (induction ds arbitrary: ds' t t' rule: rev_induct)
  case Nil
  then have gen: "w_prev t' = genesis_prev_hash" by (auto simp: walk_start_def)
  show ?case
  proof (cases ds' rule: rev_cases)
    case (snoc xs d)
    with Nil(2) obtain s where "record_step q' sha fr d s = Inr t'" by (auto simp: walk_rows_append)
    then have "w_prev t' = compute_entry_hash sha fr d" by (auto simp: record_step_eq_Inr)
    with gen Nil(4) snoc show ?thesis by (auto simp: collision_free_def)
  qed simp
next
  case (snoc d ds)
  obtain s where s: "walk_rows q sha fr walk_start ds = Inr s" "record_step q sha fr d s = Inr t"
    using snoc.prems(1) by (auto simp: walk_rows_append)
  then have h: "w_prev t = compute_entry_hash sha fr d" "dict_get d ''prev_hash'' = VStr (w_prev s)"
    by (auto simp: record_step_eq_Inr)
  show ?case
  proof (cases ds' rule: rev_cases)
    case Nil
    with snoc.prems(2) have "w_prev t' = genesis_prev_hash" by (auto simp: walk_start_def)
    with h snoc.prems(3,4) show ?thesis by (auto simp: collision_free_def)
  next
    case ds': (snoc xs d')
    obtain s' where s': "walk_rows q' sha fr walk_start xs = Inr s'" "record_step q' sha fr d' s' = Inr t'"
      using snoc.prems(2) ds' by (auto simp: walk_rows_append)
    then have h': "w_prev t' = compute_entry_hash sha fr d'" "dict_get d' ''prev_hash'' = VStr (w_prev s')"
      by (auto simp: record_step_eq_Inr)
    have same: "same_record d d'"
      using snoc.prems(3,4) h(1) h'(1) ds' unfolding collision_free_def by auto
    have "dict_get d' ''prev_hash'' = VStr (w_prev s)"
      by (rule same_record_get [OF same _ _ _ h(2)]) (use snoc.prems(5) ds' in auto)
    then have "w_prev s = w_prev s'" using h'(2) by simp
    moreover have "collision_free sha fr (set ds \<union> set xs)"
      using snoc.prems(4) ds' unfolding collision_free_def by auto
    ultimately have "list_all2 same_record ds xs"
      using snoc.IH [OF s(1) s'(1)] snoc.prems(5) ds' by auto
    with same ds' show ?thesis by (simp add: list_all2_appendI)
  qed
qed

lemma verified_tail:
  assumes "chain_at fs p ds" "verify_chain e sha fr fs p = Inr (True, None, None)"
  obtains t where "walk_rows (seq_verify_enabled e) sha fr walk_start ds = Inr t"
    "read_last_hash sha fr fs p = Inr (w_prev t)"
proof -
  obtain t where t: "walk_rows (seq_verify_enabled e) sha fr walk_start ds = Inr t"
    using assms verify_chain_at by blast
  with that show thesis using walk_tail [OF t] by (simp add: read_last_hash_def read_last_chain [OF assms(1)])
qed

section \<open>Intents\<close>

lemma bindR_assoc: "bindR (bindR r f) g = bindR r (\<lambda>x. bindR (f x) g)"
  by (cases r) simp_all

lemma scan_append:
  "scan_intents e st (xs @ ys) = bindR (scan_intents e st xs) (\<lambda>st'. scan_intents e st' ys)"
proof (induction xs arbitrary: st)
  case (Cons x xs)
  show ?case
  proof (cases x)
    case (Row v)
    then show ?thesis using Cons.IH by (cases v) (simp_all add: bindR_assoc)
  qed (simp_all add: bindR_assoc Cons.IH)
qed simp

definition known_keys :: "(pyv \<times> dict) list \<times> pyv set \<Rightarrow> pyv set" where
  "known_keys st = fst ` set (fst st) \<union> snd st"

lemma keys_put_intent: "fst ` set (put_intent k d xs) = insert k (fst ` set xs)"
  by (induction k d xs rule: put_intent.induct) auto

lemma put_intent_new: "k \<notin> fst ` set xs \<Longrightarrow> put_intent k d xs = xs @ [(k, d)]"
  by (induction k d xs rule: put_intent.induct) auto

lemma txn_key_VStr: "txn_key v = Inr (VStr t) \<longleftrightarrow> v = VStr t"
  by (cases v) auto

lemma intent_step_keys:
  "intent_step d st = Inr st' \<Longrightarrow> VStr t \<in> known_keys st' \<Longrightarrow>
     VStr t \<in> known_keys st \<or> dict_get d ''txn_id'' = VStr t"
proof -
  assume st: "intent_step d st = Inr st'" and t: "VStr t \<in> known_keys st'"
  consider "st' = st"
    | k where "txn_key (dict_get d ''txn_id'') = Inr k" "known_keys st' = insert k (known_keys st)"
    using st by (auto simp: intent_step_def Let_def known_keys_def keys_put_intent split: if_splits)
  then show ?thesis using t by cases (auto simp: txn_key_VStr)
qed

lemma scan_keys:
  "scan_intents e st (map (\<lambda>d. Row (VDict d)) ds) = Inr st' \<Longrightarrow> VStr t \<in> known_keys st' \<Longrightarrow>
     VStr t \<in> known_keys st \<or> (\<exists>d \<in> set ds. dict_get d ''txn_id'' = VStr t)"
  by (induction ds arbitrary: st) (auto dest: intent_step_keys)

lemma find_orphaned_chain:
  assumes "chain_at fs p ds"
  shows "find_orphaned_intents e fs p =
    bindR (scan_intents e ([], {}) (map (\<lambda>d. Row (VDict d)) ds)) (\<lambda>st. Inr (orphans_of st))"
  using assms by (auto simp: chain_at_def find_orphaned_intents_def orphans_of_def
      split: option.splits node.splits)

lemma chain_record_other:
  "k \<notin> {''prev_hash'', ''seq'', ''ts'', ''schema_version'', ''entry_hash''} \<Longrightarrow>
     dict_get (chain_record e sha fr now prev tail rec) k = dict_get rec k"
  by (auto simp: chain_record_def Let_def dict_get_setdefault)

lemma intent_step_intent:
  assumes "dict_get d ''txn_id'' = VStr t" "dict_get d ''event_phase'' = VStr ''intent''" "t \<noteq> []"
    "VStr t \<notin> known_keys st"
  shows "intent_step d st = Inr (fst st @ [(VStr t, d)], snd st)"
  using assms by (simp add: intent_step_def Let_def known_keys_def put_intent_new)

lemma intent_step_commit:
  assumes "dict_get d ''txn_id'' = VStr t" "dict_get d ''event_phase'' = VStr ''committed''" "t \<noteq> []"
  shows "intent_step d st = Inr (fst st, insert (VStr t) (snd st))"
  using assms by (simp add: intent_step_def Let_def)

lemma orphans_new:
  assumes "VStr t \<notin> known_keys st"
  shows "orphans_of (fst st @ [(VStr t, d)], snd st) = orphans_of st @ [d]"
    and "orphans_of (fst st @ [(VStr t, d)], insert (VStr t) (snd st)) = orphans_of st"
proof -
  show "orphans_of (fst st @ [(VStr t, d)], snd st) = orphans_of st @ [d]"
    using assms by (simp add: orphans_of_def known_keys_def)
  have "filter (\<lambda>(k, _). k \<notin> insert (VStr t) (snd st)) (fst st) = filter (\<lambda>(k, _). k \<notin> snd st) (fst st)"
    using assms by (intro filter_cong) (force simp: known_keys_def)+
  then show "orphans_of (fst st @ [(VStr t, d)], insert (VStr t) (snd st)) = orphans_of st"
    by (simp add: orphans_of_def)
qed

text \<open>One append on a chain whose tail verifies, and the tail it leaves.\<close>

lemma append_result:
  assumes "chain_at fs p ds" "tail_hash sha fr p (last_rec ds) = Inr prev"
    and "chain_append e sha fr umask WrOk now p rec fs = (fs', r)"
  obtains d where "chain_at fs' p (ds @ [d])" "r = Inr (compute_entry_hash sha fr d, d)"
    "tail_hash sha fr p (Some d) = Inr (compute_entry_hash sha fr d)"
    "d = chain_record e sha fr now prev (last_rec ds) rec"
  using chain_append_ok [OF assms(1,2), of e umask now rec] assms(3) that
  by (simp add: tail_hash_def chain_record_fields)

section \<open>Properties\<close>

text \<open>Appending keeps the chain verifiable: from an absent file, any sequence of appended records
  (without a \<open>seq\<close> of their own while the sequence check is on) at any times gives a chain that
  \<open>verify_chain\<close> accepts, one record per append, whatever the hash function.\<close>

theorem appended_chain_verifies:
  assumes "fs p = None"
    and "seq_verify_enabled e \<longrightarrow> (\<forall>r \<in> set rs. \<not> dict_has (snd r) ''seq'')"
  shows "verify_chain e sha fr (fold (push_record e sha fr umask p) rs fs) p = Inr (True, None, None) \<and>
    (\<exists>ds. length ds = length rs \<and> chain_at (fold (push_record e sha fr umask p) rs fs) p ds)"
proof -
  obtain es t where es: "length es = length rs"
    "chain_at (fold (push_record e sha fr umask p) rs fs) p ([] @ es)"
    "in_order (seq_verify_enabled e) sha fr ([] @ es) t"
    using pushes_in_order [OF empty_chain [where fs = fs and p = p, OF assms(1)] empty_in_order] assms(2) by blast
  then show ?thesis using verify_chain_at [of _ p es e sha fr] by (auto simp: in_order_def)
qed

text \<open>C22: One hash pins the whole history: two chains that both verify and end in the same entry
  hash hold the same records in the same order (up to \<open>seq\<close> and key order), as long as the hash
  has no collision and no genesis preimage among their records; so no record can be changed,
  dropped, inserted or reordered under an unchanged last hash.\<close>

theorem verified_chains_agree:
  assumes "chain_at fs p ds" and "verify_chain e sha fr fs p = Inr (True, None, None)"
    and "chain_at fs' p' ds'" and "verify_chain e sha fr fs' p' = Inr (True, None, None)"
    and "read_last_hash sha fr fs p = read_last_hash sha fr fs' p'"
    and "collision_free sha fr (set ds \<union> set ds')"
    and "\<forall>d \<in> set ds \<union> set ds'. distinct (map fst d)"
  shows "list_all2 same_record ds ds'"
proof -
  obtain t where t: "walk_rows (seq_verify_enabled e) sha fr walk_start ds = Inr t"
    "read_last_hash sha fr fs p = Inr (w_prev t)" by (rule verified_tail [OF assms(1,2)])
  obtain t' where t': "walk_rows (seq_verify_enabled e) sha fr walk_start ds' = Inr t'"
    "read_last_hash sha fr fs' p' = Inr (w_prev t')" by (rule verified_tail [OF assms(3,4)])
  show ?thesis using walks_agree [OF t(1) t'(1) _ assms(6,7)] t(2) t'(2) assms(5) by simp
qed

text \<open>Turning the sequence gate off for one append and on again makes the log refuse its own
  writing: on a fresh chain the records appended with the gate on, off and on again leave a file
  that the verification under the open gate reports as tampered at the third record, because
  \<open>seq\<close> restarts at zero after a record without one.\<close>

theorem seq_gate_toggle_breaks_chain:
  assumes "fs p = None" and "seq_verify_enabled e" and "\<not> seq_verify_enabled e'"
    and "\<not> dict_has (snd a) ''seq''" and "\<not> dict_has (snd b) ''seq''" and "\<not> dict_has (snd c) ''seq''"
  shows "verify_chain e sha fr (push_record e sha fr umask p c (push_record e' sha fr umask p b
      (push_record e sha fr umask p a fs))) p =
    Inr (False, Some 2, Some ''seq_mismatch: expected 1, got 0'')"
proof -
  obtain f1 r1 where A: "chain_append e sha fr umask WrOk (fst a) p (snd a) fs = (f1, r1)" by fastforce
  obtain f2 r2 where B: "chain_append e' sha fr umask WrOk (fst b) p (snd b) f1 = (f2, r2)" by fastforce
  obtain f3 r3 where C: "chain_append e sha fr umask WrOk (fst c) p (snd c) f2 = (f3, r3)" by fastforce
  let ?H = "compute_entry_hash sha fr"
  have c0: "chain_at fs p []" using assms(1) by (simp add: chain_at_def)
  have t0: "tail_hash sha fr p (last_rec []) = Inr genesis_prev_hash" by (simp add: tail_hash_def)
  obtain d1 where d1: "chain_at f1 p [d1]" "tail_hash sha fr p (Some d1) = Inr (?H d1)"
    "d1 = chain_record e sha fr (fst a) genesis_prev_hash None (snd a)"
    using append_result [OF c0 t0 A] by (auto simp: last_rec_def)
  obtain d2 where d2: "chain_at f2 p ([d1] @ [d2])" "tail_hash sha fr p (Some d2) = Inr (?H d2)"
    "d2 = chain_record e' sha fr (fst b) (?H d1) (Some d1) (snd b)"
    using append_result [OF d1(1) _ B, where prev = "?H d1"] d1(2) by (auto simp: last_rec_def)
  obtain d3 where d3: "chain_at f3 p (([d1] @ [d2]) @ [d3])"
    "d3 = chain_record e sha fr (fst c) (?H d2) (Some d2) (snd c)"
    using append_result [OF d2(1) _ C, where prev = "?H d2"] d2(2) by (auto simp: last_rec_def)
  have s1: "dict_has d1 ''seq''" "dict_get d1 ''seq'' = VInt 0"
    unfolding d1(3) using chain_record_seq [of e "snd a"] assms(2,4) by (simp_all add: next_seq_def)
  have s2: "\<not> dict_has d2 ''seq''"
    unfolding d2(3) using chain_record_seq(1) [of e' "snd b"] assms(3,5) by simp
  have n2: "next_seq (Some d2) = 0" using s2 by (simp add: next_seq_def dict_has_def dict_get_def)
  have s3: "dict_has d3 ''seq''" "dict_get d3 ''seq'' = VInt 0"
    unfolding d3(2) using chain_record_seq [of e "snd c"] assms(2,6) by (simp_all add: n2)
  note fields = chain_record_fields [of e sha fr "fst a" genesis_prev_hash None "snd a", folded d1(3)]
    chain_record_fields [of e' sha fr "fst b" "?H d1" "Some d1" "snd b", folded d2(3)]
    chain_record_fields [of e sha fr "fst c" "?H d2" "Some d2" "snd c", folded d3(2)]
  let ?w1 = "\<lparr>w_prev = ?H d1, w_last = Some 0, w_anchored = True\<rparr>"
  have w1: "record_step True sha fr d1 walk_start = Inr ?w1"
    by (simp add: record_step_def fields walk_start_def seq_step_def s1 Let_def)
  have w2: "record_step True sha fr d2 ?w1 = Inr (?w1\<lparr>w_prev := ?H d2\<rparr>)"
    by (simp add: record_step_def fields seq_step_def s2 Let_def)
  have w3: "record_step True sha fr d3 (?w1\<lparr>w_prev := ?H d2\<rparr>) =
      Inl ''seq_mismatch: expected 1, got 0''"
    by (simp add: record_step_def fields seq_step_def s3 Let_def int_text_def nat_text.simps char_of_def bit_0)
  have "verify_chain e sha fr f3 p = Inr (False, Some 2, Some ''seq_mismatch: expected 1, got 0'')"
    using d3(1) assms(2) w1 w2 w3
    by (auto simp: chain_at_def verify_chain_def split: option.splits node.splits)
  then show ?thesis by (simp add: push_record_def A B C)
qed

text \<open>Write-ahead intents are neither lost nor stuck: on a verified chain, announcing a fresh
  transaction adds exactly its intent record to the orphans, and committing it takes exactly that
  record out again.\<close>

theorem intent_lifecycle:
  assumes "chain_at fs p ds" and "tail_hash sha fr p (last_rec ds) = Inr prev"
    and "find_orphaned_intents e fs p = Inr os"
    and "txn \<noteq> []" and "\<forall>d \<in> set ds. dict_get d ''txn_id'' \<noteq> VStr txn"
    and "begin_intent e sha fr umask WrOk t1 p txn r1 fs = (fs1, out1)"
    and "commit e sha fr umask WrOk t2 p txn r2 fs1 = (fs2, out2)"
  shows "out1 = Inr txn \<and> (\<exists>d. dict_get d ''txn_id'' = VStr txn \<and>
      find_orphaned_intents e fs1 p = Inr (os @ [d])) \<and>
    find_orphaned_intents e fs2 p = Inr os"
proof -
  obtain o1 where A: "chain_append e sha fr umask WrOk t1 p (intent_of txn r1) fs = (fs1, o1)"
    and o1: "out1 = bindR o1 (\<lambda>_. Inr txn)"
    using assms(6) by (auto simp: begin_intent_def split: prod.splits)
  obtain o2 where B: "chain_append e sha fr umask WrOk t2 p (commit_of txn r2) fs1 = (fs2, o2)"
    using assms(7) by (auto simp: commit_def split: prod.splits)
  obtain d1 where d1: "chain_at fs1 p (ds @ [d1])" "o1 = Inr (compute_entry_hash sha fr d1, d1)"
    "tail_hash sha fr p (Some d1) = Inr (compute_entry_hash sha fr d1)"
    "d1 = chain_record e sha fr t1 prev (last_rec ds) (intent_of txn r1)"
    by (rule append_result [OF assms(1,2) A])
  have t1: "tail_hash sha fr p (last_rec (ds @ [d1])) = Inr (compute_entry_hash sha fr d1)"
    using d1(3) by simp
  obtain d2 where d2: "chain_at fs2 p ((ds @ [d1]) @ [d2])"
    "d2 = chain_record e sha fr t2 (compute_entry_hash sha fr d1) (last_rec (ds @ [d1])) (commit_of txn r2)"
    by (rule append_result [OF d1(1) t1 B])
  have f1: "dict_get d1 ''txn_id'' = VStr txn" "dict_get d1 ''event_phase'' = VStr ''intent''"
    by (simp_all add: d1(4) chain_record_other intent_of_def)
  have f2: "dict_get d2 ''txn_id'' = VStr txn" "dict_get d2 ''event_phase'' = VStr ''committed''"
    by (simp_all add: d2(2) chain_record_other commit_of_def)
  obtain st where st: "scan_intents e ([], {}) (map (\<lambda>d. Row (VDict d)) ds) = Inr st" "orphans_of st = os"
    using assms(3) by (auto simp: find_orphaned_chain [OF assms(1)])
  have fresh: "VStr txn \<notin> known_keys st"
    using scan_keys [OF st(1), of txn] assms(5) by (auto simp: known_keys_def)
  have "find_orphaned_intents e fs1 p = Inr (os @ [d1])"
    by (simp add: find_orphaned_chain [OF d1(1)] scan_append st
        intent_step_intent [OF f1 assms(4) fresh] orphans_new(1) [OF fresh])
  moreover have "find_orphaned_intents e fs2 p = Inr os"
    by (simp add: find_orphaned_chain [OF d2(1)] scan_append st
        intent_step_intent [OF f1 assms(4) fresh] intent_step_commit [OF f2 assms(4)]
        orphans_new(2) [OF fresh])
  ultimately show ?thesis using f1(1) o1 d1(2) by auto
qed

section \<open>Witnesses\<close>

definition plain_sha :: hasher where "plain_sha s = s"
definition plain_float :: "rat \<Rightarrow> string" where "plain_float r = ''0.0''"

definition seq_off :: env where
  "seq_off = no_env(''AGI_V8_APPLY_CHAIN_SEQ_VERIFY'' \<mapsto> ''0'')"

lemma seq_gates [simp]: "seq_verify_enabled no_env" "\<not> seq_verify_enabled seq_off"
  by (simp_all add: seq_verify_enabled_def seq_off_def)

theorem appended_chain_verifies_witness:
  "verify_chain no_env plain_sha plain_float (fold (push_record no_env plain_sha plain_float 18 ''/s/c'')
     [(1, [(''a'', VInt 1)]), (2, [(''b'', VNone)])] empty_fs) ''/s/c'' = Inr (True, None, None)"
  using appended_chain_verifies [where fs = empty_fs and p = "''/s/c''" and e = no_env
      and rs = "[(1, [(''a'', VInt 1)]), (2, [(''b'', VNone)])]" and sha = plain_sha
      and fr = plain_float and umask = 18]
  by (simp add: empty_fs_def dict_has_def)

theorem verified_chains_agree_witness:
  "\<exists>fs ds. chain_at fs ''/s/c'' ds \<and> ds \<noteq> [] \<and> list_all2 same_record ds ds"
proof -
  let ?a = "(1 :: rat, [(''a'', VInt 1)])"
  have c0: "chain_at empty_fs ''/s/c'' []" by (simp add: chain_at_def empty_fs_def)
  have t0: "tail_hash plain_sha plain_float ''/s/c'' (last_rec []) = Inr genesis_prev_hash"
    by (simp add: tail_hash_def)
  obtain f r where A: "chain_append no_env plain_sha plain_float 18 WrOk (fst ?a) ''/s/c'' (snd ?a) empty_fs = (f, r)"
    by fastforce
  obtain d where d: "chain_at f ''/s/c'' ([] @ [d])"
    "r = Inr (compute_entry_hash plain_sha plain_float d, d)"
    "tail_hash plain_sha plain_float ''/s/c'' (Some d) = Inr (compute_entry_hash plain_sha plain_float d)"
    "d = chain_record no_env plain_sha plain_float (fst ?a) genesis_prev_hash (last_rec []) (snd ?a)"
    by (rule append_result [OF c0 t0 A])
  have f: "push_record no_env plain_sha plain_float 18 ''/s/c'' ?a empty_fs = f"
    unfolding push_record_def A by simp
  obtain es t where es: "chain_at f ''/s/c'' es" "in_order True plain_sha plain_float es t"
    using pushes_in_order [OF c0 empty_in_order, where rs = "[?a]" and e = no_env and sha = plain_sha
        and fr = plain_float and umask = 18] by (auto simp: f dict_has_def)
  then have v: "verify_chain no_env plain_sha plain_float f ''/s/c'' = Inr (True, None, None)"
    using verify_chain_at [OF es(1), of no_env] by (simp add: in_order_def)
  have keys: "distinct (map fst d)"
    by (simp add: d(4) chain_record_def dict_setdefault_def dict_has_def Let_def)
  have "hd (compute_entry_hash plain_sha plain_float d) = CHR ''{''"
    by (simp add: compute_entry_hash_def plain_sha_def json_text_raw_def)
  then have "compute_entry_hash plain_sha plain_float d \<noteq> genesis_prev_hash"
    by (auto simp: genesis_prev_hash_def)
  then have "collision_free plain_sha plain_float (set [d] \<union> set [d])"
    by (simp add: collision_free_def same_record_def)
  then have "list_all2 same_record [d] [d]"
    using verified_chains_agree [OF _ v _ v, of "[d]" "[d]"] d(1) keys by simp
  then show ?thesis using d(1) by (metis append_Nil list.distinct(1))
qed

theorem seq_gate_toggle_breaks_chain_witness:
  "verify_chain no_env plain_sha plain_float
     (push_record no_env plain_sha plain_float 18 ''/s/c'' (3, [])
       (push_record seq_off plain_sha plain_float 18 ''/s/c'' (2, [])
         (push_record no_env plain_sha plain_float 18 ''/s/c'' (1, []) empty_fs))) ''/s/c'' =
   Inr (False, Some 2, Some ''seq_mismatch: expected 1, got 0'')"
  using seq_gate_toggle_breaks_chain [where fs = empty_fs and p = "''/s/c''" and e = no_env
      and e' = seq_off and a = "(1, [])" and b = "(2, [])" and c = "(3, [])" and sha = plain_sha
      and fr = plain_float and umask = 18]
  by (simp add: empty_fs_def dict_has_def)

theorem intent_lifecycle_witness:
  "\<exists>fs1 fs2 d. find_orphaned_intents no_env fs1 ''/s/c'' = Inr [d] \<and>
     find_orphaned_intents no_env fs2 ''/s/c'' = Inr []"
proof -
  obtain fs1 o1 where b: "begin_intent no_env plain_sha plain_float 18 WrOk 1 ''/s/c'' ''t1'' [] empty_fs = (fs1, o1)"
    by fastforce
  obtain fs2 o2 where c: "commit no_env plain_sha plain_float 18 WrOk 2 ''/s/c'' ''t1'' [] fs1 = (fs2, o2)"
    by fastforce
  have "chain_at empty_fs ''/s/c'' []" by (simp add: chain_at_def empty_fs_def)
  from intent_lifecycle [OF this _ _ _ _ b c, of genesis_prev_hash "[]"] show ?thesis
    by (auto simp: tail_hash_def find_orphaned_intents_def empty_fs_def)
qed

end
