(* ===== verification/GateInvariants.thy ===== *)
theory GateInvariants
  imports Prelude
begin

text \<open>
  Combinations of gates: the boot-time table of combinations that must not be armed
  (\<open>policy/gate_invariants.py\<close>) with the predicates of the gates it speaks of, and the choice of
  one of two patch producers (\<open>runtime/objective_patch_mode.py\<close>). The explanatory texts of a
  rule (reason, evidence, scope) have no part in a verdict and are left out.
\<close>

section \<open>The table\<close>

definition enforce_env :: string where "enforce_env = ''AGI_V8_GATE_INVARIANTS_ENFORCED''"
definition command_exec_env :: string where "command_exec_env = ''AGI_V8_SI_COMMAND_EXEC_ARMED''"
definition py_artifact_env :: string where "py_artifact_env = ''AGI_V8_SI_PY_ARTIFACT_RUN_ENABLED''"
definition verify_gate_env :: string where "verify_gate_env = ''AGI_V8_SI_VERIFY_GATE_ENABLED''"
definition auto_write_env :: string where "auto_write_env = ''AGI_V8_SAFE_AUTO_APPLY_WRITE_ENABLED''"
definition containment_env :: string where
  "containment_env = ''AGI_V8_SAFE_AUTO_APPLY_PATH_CONTAINMENT''"
definition promote_env :: string where "promote_env = ''AGI_V8_SI_PROMOTE_ENABLED''"
definition tick_env :: string where "tick_env = ''AGI_V8_TICK_ENABLED''"
definition tick_sig_env :: string where "tick_sig_env = ''AGI_V8_TICK_AUTH_SIG_ENABLED''"

lemmas gate_names = enforce_env_def command_exec_env_def py_artifact_env_def verify_gate_env_def
  auto_write_env_def containment_env_def promote_env_def tick_env_def tick_sig_env_def

record gate_rule =
  rule_id :: string
  armed_gate :: string
  requires :: "string list"
  severity :: string

definition truthy_sets :: "(string \<times> string list) list" where
  "truthy_sets =
     [(command_exec_env, [''true'', ''1'']), (py_artifact_env, [''true'', ''1'']),
      (verify_gate_env, [''true'', ''1'']), (auto_write_env, [''true'']),
      (containment_env, [''true'', ''1'']), (promote_env, [''true'', ''1'']),
      (tick_env, [''1'', ''true'', ''yes'', ''on'']), (tick_sig_env, [''true'', ''1''])]"

definition default_truthy :: "string list" where
  "default_truthy = [''true'', ''1'', ''yes'', ''on'']"

definition gate_on :: "string \<Rightarrow> env \<Rightarrow> bool" where
  "gate_on k e \<longleftrightarrow>
     py_lower (py_strip (getenv e k [])) \<in>
       set (case map_of truthy_sets k of Some vs \<Rightarrow> vs | None \<Rightarrow> default_truthy)"

definition gate_rules :: "gate_rule list" where
  "gate_rules =
     [\<lparr>rule_id = ''command_exec_requires_verify_gate'', armed_gate = command_exec_env,
        requires = [verify_gate_env], severity = ''critical''\<rparr>,
      \<lparr>rule_id = ''py_artifact_run_requires_verify_gate'', armed_gate = py_artifact_env,
        requires = [verify_gate_env], severity = ''critical''\<rparr>,
      \<lparr>rule_id = ''safe_auto_apply_write_requires_path_containment'', armed_gate = auto_write_env,
        requires = [containment_env], severity = ''critical''\<rparr>,
      \<lparr>rule_id = ''promote_requires_path_containment'', armed_gate = promote_env,
        requires = [containment_env], severity = ''critical''\<rparr>,
      \<lparr>rule_id = ''tick_enabled_requires_auth_sig'', armed_gate = tick_env,
        requires = [tick_sig_env], severity = ''high''\<rparr>]"

record violation =
  v_rule :: string
  v_armed :: string
  v_missing :: "string list"
  v_severity :: string

section \<open>The evaluator\<close>

definition enforcement_enabled :: "env \<Rightarrow> bool" where
  "enforcement_enabled e = gate_on enforce_env e"

fun evaluate_rules :: "env \<Rightarrow> gate_rule list \<Rightarrow> violation list" where
  "evaluate_rules e [] = []"
| "evaluate_rules e (r # rs) =
     (let missing = filter (\<lambda>g. \<not> gate_on g e) (requires r)
      in if gate_on (armed_gate r) e \<and> missing \<noteq> []
         then \<lparr>v_rule = rule_id r, v_armed = armed_gate r, v_missing = missing,
                v_severity = severity r\<rparr> # evaluate_rules e rs
         else evaluate_rules e rs)"

definition evaluate :: "env \<Rightarrow> violation list" where
  "evaluate e = evaluate_rules e gate_rules"

text \<open>\<open>Inl\<close> is the \<open>GateInvariantError\<close>, with the violations its message lists.\<close>

definition check_or_raise :: "env \<Rightarrow> violation list + violation list" where
  "check_or_raise e =
     (if \<not> enforcement_enabled e then Inr []
      else if evaluate e \<noteq> [] then Inl (evaluate e) else Inr [])"

section \<open>The gates themselves\<close>

definition si_verify_gate_enabled :: "env \<Rightarrow> bool" where
  "si_verify_gate_enabled e = gate_strict e verify_gate_env"

definition write_enabled :: "env \<Rightarrow> bool" where
  "write_enabled e \<longleftrightarrow>
     py_lower (py_strip (getenv e ''AGI_V8_SAFE_AUTO_APPLY_ENABLED'' [])) = ''true'' \<and>
     py_lower (py_strip (getenv e auto_write_env [])) = ''true''"

definition path_containment_enabled :: "env \<Rightarrow> bool" where
  "path_containment_enabled e \<longleftrightarrow> py_lower (py_strip (getenv e containment_env [])) \<in> {''true'', ''1''}"

definition promote_enabled :: "env \<Rightarrow> bool" where
  "promote_enabled e = gate_strict e promote_env"

definition tick_enabled :: "env \<Rightarrow> bool" where
  "tick_enabled e = gate_loose e tick_env"

definition tick_sig_enabled :: "env \<Rightarrow> bool" where
  "tick_sig_enabled e \<longleftrightarrow> py_lower (py_strip (getenv e tick_sig_env [])) \<in> {''true'', ''1''}"

section \<open>The patch producers\<close>

definition proposer_env :: string where "proposer_env = ''AGI_V8_SI_OBJECTIVE_PROPOSER_ENABLED''"
definition editor_env :: string where "editor_env = ''AGI_V8_SI_OBJECTIVE_EDIT_ENABLED''"

definition proposer_enabled :: "env \<Rightarrow> bool" where "proposer_enabled e = gate_strict e proposer_env"
definition editor_enabled :: "env \<Rightarrow> bool" where "editor_enabled e = gate_strict e editor_env"

datatype patch_mode = ModeOff | WholeFileProposer | AnchoredEditor

definition select_mode :: "env \<Rightarrow> patch_mode result" where
  "select_mode e =
     (if proposer_enabled e \<and> editor_enabled e
      then Inl (ValueError (proposer_env @ '' and '' @ editor_env @ '' cannot both be enabled''))
      else if proposer_enabled e then Inr WholeFileProposer
      else if editor_enabled e then Inr AnchoredEditor
      else Inr ModeOff)"

section \<open>Lemmas\<close>

lemma evaluate_rules_set:
  "set (evaluate_rules e rs) =
     {v. \<exists>r \<in> set rs. gate_on (armed_gate r) e \<and> (\<exists>g \<in> set (requires r). \<not> gate_on g e) \<and>
        v = \<lparr>v_rule = rule_id r, v_armed = armed_gate r,
              v_missing = filter (\<lambda>g. \<not> gate_on g e) (requires r), v_severity = severity r\<rparr>}"
  by (induction rs) (auto simp: Let_def filter_empty_conv)

lemma evaluate_rules_empty:
  "evaluate_rules e rs = [] \<longleftrightarrow>
     (\<forall>r \<in> set rs. gate_on (armed_gate r) e \<longrightarrow> (\<forall>g \<in> set (requires r). gate_on g e))"
  by (induction rs) (auto simp: Let_def filter_empty_conv)

lemma no_violation_iff:
  "evaluate e = [] \<longleftrightarrow>
     (\<forall>r \<in> set gate_rules. gate_on (armed_gate r) e \<longrightarrow> (\<forall>g \<in> set (requires r). gate_on g e))"
  unfolding evaluate_def by (rule evaluate_rules_empty)

lemma accepted_sets:
  "map_of truthy_sets command_exec_env = Some [''true'', ''1'']"
  "map_of truthy_sets py_artifact_env = Some [''true'', ''1'']"
  "map_of truthy_sets verify_gate_env = Some [''true'', ''1'']"
  "map_of truthy_sets auto_write_env = Some [''true'']"
  "map_of truthy_sets containment_env = Some [''true'', ''1'']"
  "map_of truthy_sets promote_env = Some [''true'', ''1'']"
  "map_of truthy_sets tick_env = Some [''1'', ''true'', ''yes'', ''on'']"
  "map_of truthy_sets tick_sig_env = Some [''true'', ''1'']"
  by (simp_all add: truthy_sets_def gate_names)

lemma lower_strip_gate_values: "py_lower (py_strip ''true'') = ''true''" "py_lower (py_strip ''1'') = ''1''"
  by code_simp+

lemma strict_implies_on:
  "gate_strict e k \<Longrightarrow> py_lower (py_strip (getenv e k [])) \<in> {''true'', ''1''}"
  by (auto simp: gate_strict_def lower_strip_gate_values)

lemma armed_seen:
  "write_enabled e \<Longrightarrow> gate_on auto_write_env e"
  "promote_enabled e \<Longrightarrow> gate_on promote_env e"
  "tick_enabled e \<Longrightarrow> gate_on tick_env e"
  using strict_implies_on [of e promote_env]
  by (auto simp: gate_on_def accepted_sets write_enabled_def promote_enabled_def tick_enabled_def
      gate_loose_def)

lemma required_seen:
  "gate_on containment_env e \<longleftrightarrow> path_containment_enabled e"
  "gate_on tick_sig_env e \<longleftrightarrow> tick_sig_enabled e"
  by (auto simp: gate_on_def accepted_sets path_containment_enabled_def tick_sig_enabled_def)

lemma verify_seen: "si_verify_gate_enabled e \<Longrightarrow> gate_on verify_gate_env e"
  using strict_implies_on [of e verify_gate_env]
  by (auto simp: gate_on_def accepted_sets si_verify_gate_enabled_def)

lemma verify_seen_exact:
  "py_lower (py_strip (getenv e verify_gate_env [])) = getenv e verify_gate_env [] \<Longrightarrow>
     gate_on verify_gate_env e \<longleftrightarrow> si_verify_gate_enabled e"
  by (auto simp: gate_on_def accepted_sets si_verify_gate_enabled_def gate_strict_def)

section \<open>Properties\<close>

text \<open>A boot the invariant check lets through has none of the dangerous combinations: with
  enforcement on and no error raised, real file writes and promotion run only behind path
  containment, the tick loop only behind signed admission, and (when the value of the verify gate
  is already trimmed and lower case) command execution and artifact runs as the table reads them
  only behind the verify gate, each gate taken by the predicate its own module uses.\<close>

theorem passed_boot_is_safe:
  assumes "enforcement_enabled e" and "check_or_raise e = Inr vs"
  shows "vs = [] \<and>
    (write_enabled e \<longrightarrow> path_containment_enabled e) \<and>
    (promote_enabled e \<longrightarrow> path_containment_enabled e) \<and>
    (tick_enabled e \<longrightarrow> tick_sig_enabled e) \<and>
    (py_lower (py_strip (getenv e verify_gate_env [])) = getenv e verify_gate_env [] \<longrightarrow>
       (gate_on command_exec_env e \<longrightarrow> si_verify_gate_enabled e) \<and>
       (gate_on py_artifact_env e \<longrightarrow> si_verify_gate_enabled e))"
proof -
  have none: "evaluate e = []" and vs: "vs = []"
    using assms by (auto simp: check_or_raise_def split: if_splits)
  have "gate_on command_exec_env e \<longrightarrow> gate_on verify_gate_env e"
    "gate_on py_artifact_env e \<longrightarrow> gate_on verify_gate_env e"
    "gate_on auto_write_env e \<longrightarrow> gate_on containment_env e"
    "gate_on promote_env e \<longrightarrow> gate_on containment_env e"
    "gate_on tick_env e \<longrightarrow> gate_on tick_sig_env e"
    using none unfolding no_violation_iff gate_rules_def by simp_all
  then show ?thesis using vs armed_seen [of e] required_seen [of e] verify_seen_exact [of e] by blast
qed

text \<open>The check can be passed with command execution armed and the verify gate off: with the
  verify gate spelled in capitals the table takes it for on while the gate's own predicate, which
  compares the raw text, takes it for off.\<close>

theorem verify_gate_spelling_unsound:
  "\<exists>e. enforcement_enabled e \<and> check_or_raise e = Inr [] \<and> gate_on command_exec_env e \<and>
     \<not> si_verify_gate_enabled e"
proof -
  let ?e = "no_env(enforce_env \<mapsto> ''1'', command_exec_env \<mapsto> ''1'', verify_gate_env \<mapsto> ''TRUE'')"
  have vals: "getenv ?e enforce_env [] = ''1''" "getenv ?e command_exec_env [] = ''1''"
    "getenv ?e verify_gate_env [] = ''TRUE''" "getenv ?e py_artifact_env [] = []"
    "getenv ?e auto_write_env [] = []" "getenv ?e promote_env [] = []" "getenv ?e tick_env [] = []"
    by (simp_all add: gate_names)
  have up: "py_lower (py_strip ''TRUE'') = ''true''" by code_simp
  have on: "gate_on command_exec_env ?e" "gate_on verify_gate_env ?e" "enforcement_enabled ?e"
    "\<not> gate_on py_artifact_env ?e" "\<not> gate_on auto_write_env ?e" "\<not> gate_on promote_env ?e"
    "\<not> gate_on tick_env ?e"
    unfolding gate_on_def accepted_sets vals enforcement_enabled_def up lower_strip_gate_values
    by (simp_all add: truthy_sets_def gate_names default_truthy_def)
  have "evaluate ?e = []" using on unfolding no_violation_iff gate_rules_def by simp
  moreover have "\<not> si_verify_gate_enabled ?e"
    unfolding si_verify_gate_enabled_def gate_strict_def vals by simp
  ultimately show ?thesis using on unfolding check_or_raise_def by (intro exI [of _ ?e]) simp
qed

section \<open>Witnesses\<close>

definition tick_boot :: env where
  "tick_boot = no_env(enforce_env \<mapsto> ''true'', tick_env \<mapsto> ''1'', tick_sig_env \<mapsto> ''1'')"

lemma tick_boot_values:
  "getenv tick_boot enforce_env [] = ''true''" "getenv tick_boot tick_env [] = ''1''"
  "getenv tick_boot tick_sig_env [] = ''1''" "getenv tick_boot command_exec_env [] = []"
  "getenv tick_boot py_artifact_env [] = []" "getenv tick_boot auto_write_env [] = []"
  "getenv tick_boot promote_env [] = []"
  by (simp_all add: tick_boot_def gate_names)

lemma tick_boot_gates:
  "enforcement_enabled tick_boot" "gate_on tick_env tick_boot" "gate_on tick_sig_env tick_boot"
  "\<not> gate_on command_exec_env tick_boot" "\<not> gate_on py_artifact_env tick_boot"
  "\<not> gate_on auto_write_env tick_boot" "\<not> gate_on promote_env tick_boot"
  unfolding gate_on_def accepted_sets tick_boot_values enforcement_enabled_def lower_strip_gate_values
  by (simp_all add: truthy_sets_def gate_names default_truthy_def)

theorem passed_boot_is_safe_witness: "tick_enabled tick_boot \<and> tick_sig_enabled tick_boot"
proof -
  have "evaluate tick_boot = []"
    using tick_boot_gates unfolding no_violation_iff gate_rules_def by simp
  then have "check_or_raise tick_boot = Inr []" by (simp add: check_or_raise_def)
  moreover have "tick_enabled tick_boot"
    unfolding tick_enabled_def gate_loose_def tick_boot_values lower_strip_gate_values by simp
  ultimately show ?thesis using passed_boot_is_safe [OF tick_boot_gates(1)] by blast
qed

end
