(* ===== verification/EpisodeLedger.thy ===== *)
theory EpisodeLedger
  imports CrossModelLedger
begin

text \<open>
  What one episode has spent (\<open>runtime/episode_ledger.py\<close>): the executor ledger and the
  attributed charges of the cross-model ledger, summed strictly.
\<close>

section \<open>Strict sums\<close>

fun strict_rows_sum :: "string \<Rightarrow> pyv list \<Rightarrow> rat result" where
  "strict_rows_sum key [] = Inr 0"
| "strict_rows_sum key (r # rs) =
     (case r of
        VDict d \<Rightarrow>
          (case dict_get d key of
             VNone \<Rightarrow> strict_rows_sum key rs
           | v \<Rightarrow> (case number_of v of
                      None \<Rightarrow> Inl (ValueError ''unfit amount in a spend ledger'')
                    | Some x \<Rightarrow> bindR (strict_rows_sum key rs) (\<lambda>t. Inr (x + t))))
      | _ \<Rightarrow> Inl (AttributeError ''get''))"

definition executor_rel :: string where
  "executor_rel = ''/runtime_logs/executor_log.jsonl''"

definition strict_ledger_sum :: "ledger_fs \<Rightarrow> path \<Rightarrow> string \<Rightarrow> rat result" where
  "strict_ledger_sum fs p key = bindR (read_jsonl fs p) (strict_rows_sum key)"

definition cross_model_ledger_sum :: "env \<Rightarrow> host \<Rightarrow> ledger_fs \<Rightarrow> string \<Rightarrow> rat result" where
  "cross_model_ledger_sum e h fs dir =
     bindR (resolve_ledger_path e h fs (Some dir)) (\<lambda>p.
     bindR (read_spend_rows fs p) (\<lambda>rows.
     bindR (transaction_charge_rows False rows) (\<lambda>charges.
       strict_rows_sum ''usd'' (map VDict charges))))"

definition episode_spend :: "env \<Rightarrow> host \<Rightarrow> ledger_fs \<Rightarrow> string \<Rightarrow> rat result" where
  "episode_spend e h fs dir =
     bindR (strict_ledger_sum fs (dir @ executor_rel) ''cost_usd'') (\<lambda>a.
     bindR (cross_model_ledger_sum e h fs dir) (\<lambda>b. Inr (round_to 8 (a + b))))"

section \<open>Lemmas\<close>

definition amounts :: "string \<Rightarrow> dict list \<Rightarrow> rat" where
  "amounts key ds = sum_list (map (cost_of key) ds)"

text \<open>A strict sum exists only when every row is a mapping whose amount is absent or a number.\<close>

definition fit :: "string \<Rightarrow> dict \<Rightarrow> bool" where
  "fit key d \<longleftrightarrow> dict_get d key = VNone \<or> number_of (dict_get d key) \<noteq> None"

lemma strict_sum_map:
  "strict_rows_sum key (map VDict ds) =
     (if \<forall>d \<in> set ds. fit key d then Inr (amounts key ds)
      else Inl (ValueError ''unfit amount in a spend ledger''))"
proof (induction ds)
  case (Cons d ds)
  then show ?case
    by (cases "dict_get d key") (auto simp: fit_def amounts_def cost_of_def number_of_def)
qed (simp add: amounts_def)

lemma strict_sum_Inr:
  "strict_rows_sum key rs = Inr t \<longleftrightarrow>
     (\<exists>ds. rs = map VDict ds \<and> (\<forall>d \<in> set ds. fit key d) \<and> t = amounts key ds)"
proof
  assume "strict_rows_sum key rs = Inr t"
  moreover have "\<exists>ds. rs = map VDict ds" if "strict_rows_sum key rs = Inr t" for t
    using that
  proof (induction rs arbitrary: t)
    case (Cons r rs)
    then obtain d where r: "r = VDict d" by (cases r) auto
    with Cons.prems have "\<exists>t'. strict_rows_sum key rs = Inr t'"
      by (auto split: pyv.splits option.splits)
    with Cons.IH r show ?case by (metis list.simps(9))
  qed simp
  ultimately show "\<exists>ds. rs = map VDict ds \<and> (\<forall>d \<in> set ds. fit key d) \<and> t = amounts key ds"
    by (auto simp: strict_sum_map split: if_splits)
qed (auto simp: strict_sum_map)

lemma amounts_usd: "amounts ''usd'' cs = total_of cs"
  by (simp add: amounts_def total_of_def usd_of_def [abs_def])

section \<open>Properties\<close>

text \<open>The spend of an episode is exactly what its two ledgers say, or no number at all: when it is
  given, every executor row was a mapping with a number or nothing for its cost, the reviewer's
  ledger validated as transactions, and the result is the sum of the costs, the reviewer's total
  and the legacy corrections it may not credit, rounded to eight places.\<close>

theorem episode_spend_exact:
  assumes "episode_spend e h fs dir = Inr t"
  shows "\<exists>ds p rows. read_jsonl fs (dir @ executor_rel) = Inr (map VDict ds) \<and>
    list_all (fit ''cost_usd'') ds \<and>
    resolve_ledger_path e h fs (Some dir) = Inr p \<and> read_spend_rows fs p = Inr rows \<and>
    transaction_defect rows = None \<and>
    t = round_to 8 (amounts ''cost_usd'' ds + (total_of rows + legacy_credit rows))"
proof -
  obtain xs p rows cs a b where x: "read_jsonl fs (dir @ executor_rel) = Inr xs"
      "strict_rows_sum ''cost_usd'' xs = Inr a"
    and p: "resolve_ledger_path e h fs (Some dir) = Inr p" "read_spend_rows fs p = Inr rows"
      "transaction_charge_rows False rows = Inr cs" "strict_rows_sum ''usd'' (map VDict cs) = Inr b"
    and t: "t = round_to 8 (a + b)"
    using assms by (auto simp: episode_spend_def strict_ledger_sum_def cross_model_ledger_sum_def)
  obtain ds where ds: "xs = map VDict ds" "\<forall>d \<in> set ds. fit ''cost_usd'' d" "a = amounts ''cost_usd'' ds"
    using x(2) by (auto simp: strict_sum_Inr)
  have "b = total_of cs" using p(4) by (simp add: strict_sum_map amounts_usd split: if_splits)
  also have "\<dots> = total_of rows + legacy_credit rows"
    using charges_conserve [OF charges_shape(1) [OF p(3)]] charges_shape(2) [OF p(3)] by simp
  finally show ?thesis using x(1) p(1,2) charges_shape(1) [OF p(3)] ds t
    by (auto simp: list_all_iff)
qed

theorem episode_spend_exact_witness:
  "\<exists>t. episode_spend no_env \<lparr>h_cwd = [], h_home = nobody, h_package = []\<rparr> Map.empty ''/s'' = Inr t \<and>
     t = round_to 8 0"
proof -
  let ?h = "\<lparr>h_cwd = [], h_home = nobody, h_package = []\<rparr>"
  have blank: "py_strip [] = []" by code_simp
  have p: "resolve_ledger_path no_env ?h Map.empty (Some ''/s'') = Inr (''/s'' @ cross_rel)"
    by (simp add: resolve_ledger_path_def blank)
  have op: "opened Map.empty q = None" for q by (simp add: opened_def)
  obtain t where t: "episode_spend no_env ?h Map.empty ''/s'' = Inr t"
    using p by (simp add: episode_spend_def strict_ledger_sum_def cross_model_ledger_sum_def
        read_jsonl_def op read_spend_rows_def transaction_charge_rows_def)
  from episode_spend_exact [OF t] obtain ds q rows where
    "read_jsonl Map.empty (''/s'' @ executor_rel) = Inr (map VDict ds)"
    "resolve_ledger_path no_env ?h Map.empty (Some ''/s'') = Inr q" "read_spend_rows Map.empty q = Inr rows"
    "t = round_to 8 (amounts ''cost_usd'' ds + (total_of rows + legacy_credit rows))" by blast
  then have "t = round_to 8 0"
    by (simp add: read_jsonl_def op read_spend_rows_def amounts_def legacy_credit_def)
  with t show ?thesis by blast
qed

end
