(* ===== verification/CrossModelBudget.thy ===== *)
theory CrossModelBudget
  imports EpisodeLedger JoinKeys Json
begin

text \<open>
  The spending cap of the cross-model reviewer (\<open>verifier/cross_model_budget.py\<close>): the cap and
  the recorded spend, the atomic reservation of a paid call, the recording of its reconcile, and
  the cost envelope of a call. The ledger's sidecar lock makes each operation one step of the
  file system; the transaction id, the clock, the context of the join keys and the pricing
  catalog (\<open>providers/pricing.py\<close>, not in the repository) are arguments, and the telemetry tee
  into the episode log is left out.
\<close>

section \<open>Cap and spend\<close>

definition xm_default_cap :: rat where "xm_default_cap = 1924 / 100"
definition min_headroom :: rat where "min_headroom = 5 / 100"

definition xm_cap_usd :: "env \<Rightarrow> rat result" where
  "xm_cap_usd e =
     (let raw = py_strip (getenv e ''AGI_V81_CROSS_MODEL_VERIFY_USD_CAP'' []) in
      if raw = [] then Inr xm_default_cap
      else (case parse_float raw of
              None \<Rightarrow> absorb e (ValueError ''could not convert string to float'') xm_default_cap
            | Some v \<Rightarrow> Inr (if v < 0 then xm_default_cap else v)))"

definition xm_spent_usd :: "env \<Rightarrow> host \<Rightarrow> ledger_fs \<Rightarrow> rat result" where
  "xm_spent_usd e h fs =
     bindR (resolve_ledger_path e h fs None) (\<lambda>p.
       if opened fs p = None then Inr 0
       else (case bindR (read_spend_rows fs p) ledger_total of
               Inr t \<Rightarrow> Inr t
             | Inl x \<Rightarrow> bindR (absorb e x ()) (\<lambda>_. xm_cap_usd e)))"

definition usage_measured_strict_enabled :: "env \<Rightarrow> bool" where
  "usage_measured_strict_enabled e \<longleftrightarrow>
     py_lower (py_strip (getenv e ''AGI_V81_CROSS_MODEL_USAGE_MEASURED_STRICT'' ''true''))
       \<in> {''1'', ''true'', ''yes'', ''on''}"

definition token_count :: "dict \<Rightarrow> string \<Rightarrow> int option" where
  "token_count u k = (case dict_get u k of VInt i \<Rightarrow> if 0 \<le> i then Some i else None | _ \<Rightarrow> None)"

definition usage_is_measured :: "pyv \<Rightarrow> bool" where
  "usage_is_measured v =
     (case v of
        VDict u \<Rightarrow>
          (case (token_count u ''input_tokens'', token_count u ''output_tokens'') of
             (Some i, Some j) \<Rightarrow>
               if i = 0 \<and> j = 0 then dict_get u ''usage_measured'' = VBool True else True
           | _ \<Rightarrow> False)
      | _ \<Rightarrow> False)"

definition accounting_admission_blocker :: "env \<Rightarrow> host \<Rightarrow> ledger_fs \<Rightarrow> string option result" where
  "accounting_admission_blocker e h fs =
     bindR (resolve_ledger_path e h fs None) (\<lambda>p.
       if opened fs p = None then Inr None
       else (case bindR (read_spend_rows fs p) (\<lambda>rows.
                    bindR (ledger_total rows) (\<lambda>_. Inr (admission_blocker rows))) of
               Inr b \<Rightarrow> Inr b
             | Inl x \<Rightarrow> absorb e x (Some ''ledger_unreadable'')))"

definition xm_remaining_usd :: "env \<Rightarrow> host \<Rightarrow> ledger_fs \<Rightarrow> rat result" where
  "xm_remaining_usd e h fs =
     bindR (xm_cap_usd e) (\<lambda>c. bindR (xm_spent_usd e h fs) (\<lambda>s. Inr (max 0 (c - s))))"

definition exhausted :: "env \<Rightarrow> host \<Rightarrow> ledger_fs \<Rightarrow> bool result" where
  "exhausted e h fs =
     bindR (xm_remaining_usd e h fs) (\<lambda>r.
       if r < min_headroom then Inr True
       else bindR (accounting_admission_blocker e h fs) (\<lambda>b. Inr (b \<noteq> None)))"

section \<open>Rows\<close>

definition plain_result :: "nat \<Rightarrow> pyv \<Rightarrow> pyv result" where
  "plain_result depth v =
     (if plain_tree depth v then Inr v else Inl (ValueError ''accounting detail is not a plain JSON tree''))"

text \<open>\<open>fresh\<close> is the id \<open>_new_transaction_id\<close> would give.\<close>

definition build_spend_row ::
  "rat \<Rightarrow> string \<Rightarrow> pyv \<Rightarrow> pyv \<Rightarrow> pyv \<Rightarrow> pyv \<Rightarrow> pyv \<Rightarrow> pyv \<Rightarrow> dict result" where
  "build_spend_row now fresh usd model kind detail measured txid =
     (if kind \<notin> set spend_kinds then Inl (ValueError ''invalid accounting kind'')
      else if \<not> nonblank model then Inl (ValueError ''invalid accounting model'')
      else (case number_of usd of
              None \<Rightarrow> Inl (ValueError ''invalid accounting amount'')
            | Some amount \<Rightarrow>
                if kind \<noteq> k_reconcile \<and> amount < 0 then Inl (ValueError ''negative accounting principal'')
                else if \<not> is_bool measured then Inl (ValueError ''usage measurement must be explicit'')
                else if kind = k_reserve \<and> measured \<noteq> VBool False
                then Inl (ValueError ''reserve cannot be measured'')
                else if kind = k_actual \<and> measured \<noteq> VBool True
                then Inl (ValueError ''actual must be measured'')
                else if kind = k_reconcile \<and> measured = VBool False \<and> amount \<noteq> 0
                then Inl (ValueError ''unmeasured reconcile must be zero'')
                else (let tx = (if txid = VNone \<and> kind = k_actual then VStr fresh else txid) in
                  if \<not> valid_transaction_id tx then Inl (ValueError ''invalid transaction identity'')
                  else bindR (if detail = VNone then Inr VNone else plain_result 1 detail) (\<lambda>det.
                       bindR (if kind = k_reconcile then Inr (round_to 8 amount)
                              else quantize_usd_ceiling (VFloat amount)) (\<lambda>durable.
                       Inr ([(''schema_version'', VStr schema_v2), (''transaction_id'', tx),
                             (''ts'', VFloat now), (''usd'', VFloat durable),
                             (''model'', (case model of VStr m \<Rightarrow> VStr (py_strip m) | v \<Rightarrow> v)),
                             (''kind'', kind), (''usage_measured'', measured)] @
                            (if truthy det then [(''detail'', det)] else [])))))))"

definition join_names :: "string list" where "join_names = [''cycle_id'', ''call_id'']"

fun validated_items :: "dict \<Rightarrow> dict result" where
  "validated_items [] = Inr []"
| "validated_items ((k, v) # d) =
     (if k \<notin> set join_names then Inl (ValueError ''join evidence contains non-additive keys'')
      else if \<not> nonblank v then Inl (ValueError ''join evidence contains invalid identity'')
      else bindR (validated_items d) (\<lambda>r. Inr ((k, v) # r)))"

definition validated_join_evidence :: "pyv \<Rightarrow> dict result" where
  "validated_join_evidence v =
     (case v of VDict d \<Rightarrow> validated_items d
      | _ \<Rightarrow> Inl (ValueError ''join evidence is not a mapping''))"

fun dict_update :: "dict \<Rightarrow> dict \<Rightarrow> dict" where
  "dict_update d [] = d"
| "dict_update d ((k, v) # u) = dict_update (dict_set d k v) u"

text \<open>Join evidence is optional: when it cannot be had, the row stays as it is.\<close>

definition with_join :: "env \<Rightarrow> join_ctx \<Rightarrow> dict \<Rightarrow> dict" where
  "with_join e ctx row =
     (case bindR (join_keys e ctx None None) (\<lambda>j. validated_join_evidence (VDict j)) of
        Inr j \<Rightarrow> dict_update row j
      | Inl _ \<Rightarrow> row)"

section \<open>The episode budget\<close>

record snapshot =
  sn_cap :: rat
  sn_before :: rat
  sn_left :: rat

definition caught_by_episode :: "exn \<Rightarrow> bool" where
  "caught_by_episode x =
     (case x of ValueError _ \<Rightarrow> True | JSONDecodeError _ \<Rightarrow> True | OSError _ \<Rightarrow> True
      | FileNotFound _ \<Rightarrow> True | _ \<Rightarrow> False)"

fun episode_executor_sum :: "pyv list \<Rightarrow> rat result" where
  "episode_executor_sum [] = Inr 0"
| "episode_executor_sum (r # rs) =
     (case r of
        VDict d \<Rightarrow>
          (case dict_get d ''cost_usd'' of
             VNone \<Rightarrow> episode_executor_sum rs
           | v \<Rightarrow> (case number_of v of
                      None \<Rightarrow> Inl (ValueError ''invalid episode executor spend'')
                    | Some x \<Rightarrow> if x < 0 then Inl (ValueError ''invalid episode executor spend'')
                                else bindR (episode_executor_sum rs) (\<lambda>t. Inr (x + t))))
      | _ \<Rightarrow> Inl (AttributeError ''get''))"

definition episode_capacity_snapshot ::
  "env \<Rightarrow> host \<Rightarrow> ledger_fs \<Rightarrow> path \<Rightarrow> rat \<Rightarrow> snapshot option result" where
  "episode_capacity_snapshot e h fs p crossed =
     (case e ''AGI_V8_EPISODE_BUDGET_USD'' of
        None \<Rightarrow> Inr None
      | Some raw \<Rightarrow>
          (case parse_float raw of
             None \<Rightarrow> Inl (ValueError ''InvalidOperation'')
           | Some cap \<Rightarrow>
               if cap \<le> 0 then Inl (ValueError ''invalid episode budget transport'')
               else let dir = state_dir_env e in
               if dir = [] \<or> \<not> is_absolute dir
               then Inl (ValueError ''episode budget requires absolute state root'')
               else if py_strip (getenv e ''AGI_V81_CROSS_MODEL_VERIFY_LEDGER'' []) \<noteq> [] \<or>
                       py_strip (getenv e ''AGI_V8_EXECUTOR_LOG_PATH'' []) \<noteq> []
               then Inl (ValueError ''episode budget ledger override is forbidden'')
               else if resolve fs (absolute_comps (h_cwd h) (parse p)) \<noteq>
                       resolve fs (absolute_comps (h_cwd h) (parse (dir @ cross_rel)))
               then Inl (ValueError ''episode budget ledger root mismatch'')
               else bindR (bindR (read_jsonl fs (dir @ executor_rel)) episode_executor_sum) (\<lambda>executor.
                    let used = executor + crossed
                    in Inr (Some \<lparr>sn_cap = cap, sn_before = used, sn_left = cap - used\<rparr>))))"

section \<open>Reserving\<close>

record receipt =
  acknowledged :: bool
  rc_reason :: "string option"
  reserved_usd :: rat
  rc_txid :: "string option"
  rc_snapshot :: "snapshot option"
  rc_episode :: "snapshot option"

definition blank_receipt :: receipt where
  "blank_receipt = \<lparr>acknowledged = False, rc_reason = None, reserved_usd = 0, rc_txid = None,
     rc_snapshot = None, rc_episode = None\<rparr>"

definition refused :: "string \<Rightarrow> receipt \<Rightarrow> receipt" where
  "refused why r = r\<lparr>rc_reason := Some why\<rparr>"

definition rounded :: "nat \<Rightarrow> snapshot \<Rightarrow> snapshot" where
  "rounded n s = \<lparr>sn_cap = round_to n (sn_cap s), sn_before = round_to n (sn_before s),
     sn_left = round_to n (sn_left s)\<rparr>"

text \<open>What the critical section reads: the cap, the rows and their validated total.\<close>

definition budget_state ::
  "env \<Rightarrow> path \<Rightarrow> ledger_fs \<Rightarrow> (rat \<times> dict list \<times> rat) result" where
  "budget_state e p fs =
     bindR (xm_cap_usd e) (\<lambda>cap. bindR (read_spend_rows fs p) (\<lambda>rows.
     bindR (ledger_total rows) (\<lambda>used. Inr (cap, rows, used))))"

definition reserve_row ::
  "env \<Rightarrow> join_ctx \<Rightarrow> rat \<Rightarrow> string \<Rightarrow> rat \<Rightarrow> pyv \<Rightarrow> pyv \<Rightarrow> dict list \<Rightarrow> dict result" where
  "reserve_row e ctx now fresh amount model detail rows =
     bindR (build_spend_row now fresh (VFloat amount) model k_reserve detail (VBool False) (VStr fresh)) (\<lambda>r.
     bindR (ledger_total (rows @ [with_join e ctx r])) (\<lambda>_. Inr (with_join e ctx r)))"

definition locked_reserve ::
  "env \<Rightarrow> host \<Rightarrow> nat \<Rightarrow> wr \<Rightarrow> join_ctx \<Rightarrow> rat \<Rightarrow> string \<Rightarrow> rat \<Rightarrow> pyv \<Rightarrow> pyv \<Rightarrow> path \<Rightarrow> ledger_fs
    \<Rightarrow> ledger_fs \<times> receipt" where
  "locked_reserve e h umask w ctx now fresh amount model detail p fs =
     (case budget_state e p fs of
        Inl x \<Rightarrow> (fs, refused ''internal_error'' blank_receipt)
      | Inr (cap, rows, used) \<Rightarrow>
          (case admission_blocker rows of
             Some b \<Rightarrow> (fs, refused b blank_receipt)
           | None \<Rightarrow>
               (let left = cap - used;
                    r1 = blank_receipt\<lparr>rc_snapshot := Some (rounded 6
                           \<lparr>sn_cap = cap, sn_before = used, sn_left = max 0 left\<rparr>)\<rparr>
                in if left < min_headroom \<or> left < amount
                   then (fs, refused ''capacity_exhausted'' r1)
                   else (case episode_capacity_snapshot e h fs p used of
                     Inl x \<Rightarrow> (fs, refused (if caught_by_episode x then ''episode_budget_unverifiable''
                                            else ''internal_error'') r1)
                   | Inr ep \<Rightarrow>
                      (let r2 = r1\<lparr>rc_episode := map_option (rounded 8) ep\<rparr>
                       in if (case ep of None \<Rightarrow> False
                              | Some s \<Rightarrow> sn_left s < min_headroom \<or> sn_left s \<le> amount)
                          then (fs, refused ''episode_capacity_exhausted'' r2)
                          else (case reserve_row e ctx now fresh amount model detail rows of
                            Inl x \<Rightarrow> (fs, refused ''internal_error'' r2)
                          | Inr row \<Rightarrow>
                              (case append_jsonl_unlocked e umask w p (VDict row) fs of
                                 (fs', Inl x) \<Rightarrow> (fs', refused ''ledger_append_failed'' r2)
                               | (fs', Inr _) \<Rightarrow>
                                   (fs', r2\<lparr>acknowledged := True, reserved_usd := round_to 8 amount,
                                            rc_txid := Some fresh\<rparr>))))))))"

definition reserve_if_capacity ::
  "env \<Rightarrow> host \<Rightarrow> nat \<Rightarrow> wr \<Rightarrow> join_ctx \<Rightarrow> rat \<Rightarrow> string \<Rightarrow> pyv \<Rightarrow> pyv \<Rightarrow> pyv \<Rightarrow> pyv \<Rightarrow> pyv \<Rightarrow> ledger_fs
    \<Rightarrow> ledger_fs \<times> receipt" where
  "reserve_if_capacity e h umask w ctx now fresh usd model kind detail measured fs =
     (if kind \<noteq> k_reserve then (fs, refused ''invalid_kind'' blank_receipt)
      else if \<not> nonblank model then (fs, refused ''invalid_model'' blank_receipt)
      else if \<not> finite_number usd then (fs, refused ''invalid_amount'' blank_receipt)
      else if measured \<noteq> VNone \<and> measured \<noteq> VBool False
      then (fs, refused ''invalid_measurement'' blank_receipt)
      else (case quantize_usd_ceiling usd of
              Inl _ \<Rightarrow> (fs, refused ''invalid_amount'' blank_receipt)
            | Inr amount \<Rightarrow>
                (case resolve_ledger_path e h fs None of
                   Inl _ \<Rightarrow> (fs, refused ''internal_error'' blank_receipt)
                 | Inr p \<Rightarrow> locked_reserve e h umask w ctx now fresh amount model detail p fs)))"

section \<open>Recording\<close>

definition record_spend ::
  "env \<Rightarrow> host \<Rightarrow> nat \<Rightarrow> wr \<Rightarrow> join_ctx \<Rightarrow> rat \<Rightarrow> string \<Rightarrow> pyv \<Rightarrow> pyv \<Rightarrow> pyv \<Rightarrow> pyv \<Rightarrow> pyv \<Rightarrow> pyv
    \<Rightarrow> ledger_fs \<Rightarrow> ledger_fs \<times> bool" where
  "record_spend e h umask w ctx now fresh usd model kind detail measured txid fs =
     (if \<not> is_str kind \<or> kind = k_reserve then (fs, False)
      else (case bindR (resolve_ledger_path e h fs None) (\<lambda>p.
                  bindR (build_spend_row now fresh usd model kind detail measured txid) (\<lambda>r.
                  bindR (read_spend_rows fs p) (\<lambda>rows.
                  bindR (ledger_total (rows @ [with_join e ctx r])) (\<lambda>_. Inr (p, with_join e ctx r))))) of
              Inl _ \<Rightarrow> (fs, False)
            | Inr (p, row) \<Rightarrow>
                (case append_jsonl_unlocked e umask w p (VDict row) fs of
                   (fs', Inl _) \<Rightarrow> (fs', False)
                 | (fs', Inr _) \<Rightarrow> (fs', True))))"

record xm_status =
  st_cap :: rat
  st_spent :: rat
  st_left :: rat
  st_exhausted :: bool
  st_blocker :: "string option"
  st_ledger :: path

definition xm_status_of :: "env \<Rightarrow> host \<Rightarrow> ledger_fs \<Rightarrow> xm_status result" where
  "xm_status_of e h fs =
     bindR (xm_cap_usd e) (\<lambda>cap. bindR (xm_spent_usd e h fs) (\<lambda>s.
     bindR (accounting_admission_blocker e h fs) (\<lambda>b. bindR (resolve_ledger_path e h fs None) (\<lambda>p.
       Inr \<lparr>st_cap = round_to 6 cap, st_spent = round_to 6 s, st_left = round_to 6 (max 0 (cap - s)),
            st_exhausted = (cap - s < min_headroom \<or> b \<noteq> None), st_blocker = b, st_ledger = p\<rparr>))))"

section \<open>Appended rows\<close>

declare py_strip_strip [simp]
lemma plain_items_iff: "plain_items n d \<longleftrightarrow> (\<forall>(k, v) \<in> set d. plain_tree n v)"
  by (induction n d rule: plain_tree_plain_items.induct(2) [where P = "\<lambda>_ _. True"]) auto

lemma dict_set_keys: "set (map fst (dict_set d k v)) = insert k (set (map fst d))"
  by (induction d k v rule: dict_set.induct) auto

lemma dict_set_distinct: "distinct (map fst d) \<Longrightarrow> distinct (map fst (dict_set d k v))"
proof (induction d k v rule: dict_set.induct)
  case (2 k' v' d k v)
  then show ?case using dict_set_keys [of d k v] by (auto simp del: set_map)
qed simp

lemma dict_set_items: "set (dict_set d k v) \<subseteq> insert (k, v) (set d)"
  by (induction d k v rule: dict_set.induct) auto

lemma plain_dict_set:
  "plain_tree 0 (VDict d) \<Longrightarrow> plain_tree 1 v \<Longrightarrow> plain_tree 0 (VDict (dict_set d k v))"
  using dict_set_distinct [of d k v] dict_set_items [of d k v] by (auto simp: plain_items_iff)

lemma validated_itemsD:
  "validated_items d = Inr j \<Longrightarrow> e \<in> set j \<Longrightarrow> fst e \<in> set join_names \<and> (\<exists>s. snd e = VStr s)"
proof (induction d arbitrary: j rule: validated_items.induct)
  case (2 k v d)
  then obtain r where r: "k \<in> set join_names" "nonblank v" "validated_items d = Inr r" "j = (k, v) # r"
    by (auto split: if_splits)
  show ?case
  proof (cases "e = (k, v)")
    case True
    then show ?thesis using r(1,2) by (cases v) (auto simp: nonblank_def)
  next
    case False
    then show ?thesis using 2 r by auto
  qed
qed simp

lemma dict_update_get:
  "k \<notin> set (map fst j) \<Longrightarrow> dict_get (dict_update d j) k = dict_get d k"
  by (induction d j rule: dict_update.induct) auto

lemma dict_update_plain:
  "plain_tree 0 (VDict d) \<Longrightarrow> \<forall>(k, v) \<in> set j. \<exists>s. v = VStr s \<Longrightarrow>
     plain_tree 0 (VDict (dict_update d j))"
proof (induction d j rule: dict_update.induct)
  case (2 d k v j)
  then have "plain_tree 0 (VDict (dict_set d k v))" by (intro plain_dict_set) auto
  then show ?case using 2 by auto
qed simp

lemma with_join_cases:
  obtains "with_join e ctx row = row"
  | j where "with_join e ctx row = dict_update row j" "set (map fst j) \<subseteq> set join_names"
      "\<forall>(k, v) \<in> set j. \<exists>s. v = VStr s"
proof (cases "bindR (join_keys e ctx None None) (\<lambda>j. validated_join_evidence (VDict j))")
  case (Inl x)
  then show ?thesis using that(1) by (simp add: with_join_def)
next
  case (Inr j)
  then obtain d where "validated_items d = Inr j" by (auto simp: validated_join_evidence_def)
  then have "\<And>k v. (k, v) \<in> set j \<Longrightarrow> k \<in> set join_names \<and> (\<exists>s. v = VStr s)"
    using validated_itemsD by fastforce
  then have "set (map fst j) \<subseteq> set join_names" "\<forall>(k, v) \<in> set j. \<exists>s. v = VStr s" by auto
  then show ?thesis using that(2) [of j] Inr by (simp add: with_join_def)
qed

lemma with_join_get [simp]: "k \<notin> set join_names \<Longrightarrow> dict_get (with_join e ctx row) k = dict_get row k"
  by (rule with_join_cases [of e ctx row]) (auto intro!: dict_update_get simp del: set_map)

lemma with_join_plain: "plain_tree 0 (VDict row) \<Longrightarrow> plain_tree 0 (VDict (with_join e ctx row))"
  by (rule with_join_cases [of e ctx row]) (simp_all only: dict_update_plain)

lemma spend_keys_free [simp]:
  "''schema_version'' \<notin> set join_names" "''transaction_id'' \<notin> set join_names" "''ts'' \<notin> set join_names"
  "''usd'' \<notin> set join_names" "''model'' \<notin> set join_names" "''kind'' \<notin> set join_names"
  "''usage_measured'' \<notin> set join_names" "''detail'' \<notin> set join_names"
  by (simp_all add: join_names_def)

text \<open>The reader's and the writer's view of an append agree, however the write ends.\<close>

lemma strict_rows_snoc:
  "strict_rows (ls @ [Row (VDict d)]) =
     bindR (strict_rows ls) (\<lambda>ds. if plain_tree 0 (VDict d) then Inr (ds @ [d])
       else Inl (ValueError ''accounting detail is not a plain JSON tree''))"
  by (induction ls rule: strict_rows.induct) (auto simp: bindR_def split: sum.splits pyv.splits)

lemma strict_rows_bad: "Bad \<in> set ls \<Longrightarrow> \<exists>x. strict_rows ls = Inl x"
  by (induction ls rule: strict_rows.induct) (auto split: pyv.splits)

lemma damaged_strict: "damaged p fs \<Longrightarrow> \<exists>x. read_spend_rows fs p = Inl x"
  by (auto simp: damaged_def read_spend_rows_def intro: strict_rows_bad)

lemma append_strict:
  assumes "ledger_ok p fs" "read_spend_rows fs p = Inr rows" "plain_tree 0 (VDict row)"
    "append_jsonl_unlocked e umask w p (VDict row) fs = (fs', r)"
  shows "(r = Inr () \<longleftrightarrow> w = WrOk) \<and>
    (damaged p fs' \<and> w = WrPartial \<or>
     ledger_ok p fs' \<and> w = WrNone \<and> read_spend_rows fs' p = Inr rows \<or>
     ledger_ok p fs' \<and> (w = WrOk \<or> w = WrUnsynced) \<and> read_spend_rows fs' p = Inr (rows @ [row]))"
  using assms
  by (cases w) (auto simp: ledger_ok_def read_spend_rows_def append_jsonl_unlocked_def add_line_def
      add_torn_def damaged_def strict_rows_snoc split: option.splits node.splits simp del: plain_tree.simps)

lemma append_other:
  "append_jsonl_unlocked e umask w p row fs = (fs', r) \<Longrightarrow> q \<noteq> p \<Longrightarrow> fs' q = fs q"
  by (cases w) (auto simp: append_jsonl_unlocked_def split: option.splits node.splits)

section \<open>Built rows\<close>

lemma quantize_Inr: "quantize_usd_ceiling v = Inr x \<Longrightarrow> \<exists>r. number_of v = Some r \<and> 0 \<le> r \<and> x = ceil_8dp r"
  by (auto simp: quantize_usd_ceiling_def split: option.splits if_splits)

lemma kinds_str: "kind \<in> set spend_kinds \<Longrightarrow> \<exists>s. kind = VStr s"
  by (auto simp: spend_kinds_def kind_defs)

lemma valid_id_str: "valid_transaction_id v \<Longrightarrow> \<exists>s. v = VStr s"
  by (auto simp: valid_transaction_id_def split: pyv.splits)

lemma nonblank_str: "nonblank v \<Longrightarrow> \<exists>s. v = VStr s \<and> py_strip s \<noteq> []"
  by (auto simp: nonblank_def split: pyv.splits)

definition spend_row ::
  "rat \<Rightarrow> string \<Rightarrow> rat \<Rightarrow> string \<Rightarrow> pyv \<Rightarrow> bool \<Rightarrow> pyv \<Rightarrow> dict" where
  "spend_row now tx usd m kind measured detail =
     [(''schema_version'', VStr schema_v2), (''transaction_id'', VStr tx), (''ts'', VFloat now),
      (''usd'', VFloat usd), (''model'', VStr m), (''kind'', kind), (''usage_measured'', VBool measured)] @
     (if truthy detail then [(''detail'', detail)] else [])"

lemma spend_row_get [simp]:
  "is_v2 (spend_row now tx usd m kind b det)"
  "dict_get (spend_row now tx usd m kind b det) ''transaction_id'' = VStr tx"
  "txid_of (spend_row now tx usd m kind b det) = tx"
  "dict_get (spend_row now tx usd m kind b det) ''ts'' = VFloat now"
  "ts_of (spend_row now tx usd m kind b det) = now"
  "dict_get (spend_row now tx usd m kind b det) ''usd'' = VFloat usd"
  "usd_of (spend_row now tx usd m kind b det) = usd"
  "dict_get (spend_row now tx usd m kind b det) ''model'' = VStr m"
  "kind_at (spend_row now tx usd m kind b det) = kind"
  "dict_get (spend_row now tx usd m kind b det) ''usage_measured'' = VBool b"
  "dict_get (spend_row now tx usd m kind b det) ''detail'' = (if truthy det then det else VNone)"
  "dict_get (spend_row now tx usd m kind b det) ''schema_version'' = VStr schema_v2"
  by (simp_all add: spend_row_def is_v2_def dict_get_def txid_of_def usd_of_def ts_of_def cost_of_def
      number_of_def kind_at_def)

lemma build_rowD:
  assumes "build_spend_row now fresh usd model kind detail measured txid = Inr r"
  obtains a m b tx where "number_of usd = Some a" "model = VStr m" "py_strip m \<noteq> []"
    "measured = VBool b" "kind \<in> set spend_kinds"
    "valid_transaction_id (VStr tx)" "txid \<noteq> VNone \<Longrightarrow> txid = VStr tx"
    "kind = k_reconcile \<or> 0 \<le> a" "kind = k_reserve \<Longrightarrow> \<not> b"
    "kind = k_reconcile \<Longrightarrow> \<not> b \<Longrightarrow> a = 0"
    "r = spend_row now tx (if kind = k_reconcile then round_to 8 a else ceil_8dp a) (py_strip m) kind b detail"
    "plain_tree 0 (VDict r)"
proof -
  let ?tx = "if txid = VNone \<and> kind = k_actual then VStr fresh else txid"
  have k: "kind \<in> set spend_kinds" and nb: "nonblank model"
    and id: "valid_transaction_id ?tx" and bl: "is_bool measured"
    using assms by (auto simp: build_spend_row_def Let_def split: if_splits option.splits)
  obtain a where a: "number_of usd = Some a"
    using assms k nb by (auto simp: build_spend_row_def split: option.splits)
  obtain m where m: "model = VStr m" "py_strip m \<noteq> []" using nonblank_str [OF nb] by blast
  obtain b where b: "measured = VBool b" using bl by (cases measured) (auto simp: is_bool_def)
  obtain tx where tx: "?tx = VStr tx" using valid_id_str [OF id] by blast
  have eq: "build_spend_row now fresh usd model kind detail measured txid =
     (if kind \<noteq> k_reconcile \<and> a < 0 then Inl (ValueError ''negative accounting principal'')
      else if kind = k_reserve \<and> b then Inl (ValueError ''reserve cannot be measured'')
      else if kind = k_actual \<and> \<not> b then Inl (ValueError ''actual must be measured'')
      else if kind = k_reconcile \<and> \<not> b \<and> a \<noteq> 0
      then Inl (ValueError ''unmeasured reconcile must be zero'')
      else bindR (if detail = VNone then Inr VNone else plain_result 1 detail) (\<lambda>det.
           bindR (if kind = k_reconcile then Inr (round_to 8 a) else quantize_usd_ceiling (VFloat a)) (\<lambda>durable.
           Inr (spend_row now tx durable (py_strip m) kind b det))))"
    using k nb id unfolding build_spend_row_def Let_def tx
    by (simp add: a b m is_bool_def spend_row_def)
  have rest1: "kind = k_reconcile \<or> 0 \<le> a" "kind = k_reserve \<Longrightarrow> \<not> b"
    "kind = k_reconcile \<Longrightarrow> \<not> b \<Longrightarrow> a = 0"
    using assms unfolding eq by (auto split: if_splits)
  then obtain det durable where d: "(if detail = VNone then Inr VNone else plain_result 1 detail) = Inr det"
      "(if kind = k_reconcile then Inr (round_to 8 a) else quantize_usd_ceiling (VFloat a)) = Inr durable"
      "r = spend_row now tx durable (py_strip m) kind b det"
    using assms unfolding eq by (auto split: if_splits)
  have "durable = (if kind = k_reconcile then round_to 8 a else ceil_8dp a)"
    using d(2) by (auto simp: number_of_def dest: quantize_Inr split: if_splits)
  moreover have "det = detail" "detail = VNone \<or> plain_tree 1 detail"
    using d(1) by (auto simp: plain_result_def split: if_splits)
  ultimately have rest: "kind = k_reconcile \<or> 0 \<le> a" "kind = k_reserve \<Longrightarrow> \<not> b"
    "kind = k_reconcile \<Longrightarrow> \<not> b \<Longrightarrow> a = 0" "detail = VNone \<or> plain_tree 1 detail"
    "r = spend_row now tx (if kind = k_reconcile then round_to 8 a else ceil_8dp a) (py_strip m) kind b detail"
    using rest1 d(3) by simp_all
  obtain ks where ks: "kind = VStr ks" using kinds_str [OF k] by blast
  have "plain_tree 0 (VDict r)" unfolding rest(5) spend_row_def using rest(4) ks by auto
  then show thesis
    using that [OF a m b k] id tx rest by (auto split: if_splits)
qed

lemma join_simps [simp]:
  "is_v2 (with_join e ctx r) = is_v2 r" "kind_at (with_join e ctx r) = kind_at r"
  "usd_of (with_join e ctx r) = usd_of r" "ts_of (with_join e ctx r) = ts_of r"
  "txid_of (with_join e ctx r) = txid_of r"
  by (simp_all add: is_v2_def kind_at_def usd_of_def ts_of_def cost_of_def txid_of_def)

lemma join_checks [simp]:
  "row_defect (with_join e ctx r) = row_defect r" "row_blocker (with_join e ctx r) = row_blocker r"
  "mixed_row_error seen (with_join e ctx r) = mixed_row_error seen r"
  unfolding row_defect_def row_blocker_def mixed_row_error_def by (simp_all cong: if_cong)

section \<open>One reservation\<close>

lemma budget_state_Inr:
  "budget_state e p fs = Inr (cap, rows, used) \<longleftrightarrow>
     xm_cap_usd e = Inr cap \<and> read_spend_rows fs p = Inr rows \<and> valid_ledger rows \<and> used = total_of rows"
  by (auto simp: budget_state_def ledger_total_Inr)

lemma locked_reserve_cases:
  assumes "locked_reserve e h umask w ctx now fresh amount model detail p fs = (fs', rc)"
  obtains (refused) "fs' = fs" "\<not> acknowledged rc"
  | (attempt) cap rows row r where "xm_cap_usd e = Inr cap" "read_spend_rows fs p = Inr rows"
      "valid_ledger rows" "admission_blocker rows = None" "min_headroom \<le> cap - total_of rows"
      "total_of rows + amount \<le> cap"
      "reserve_row e ctx now fresh amount model detail rows = Inr row"
      "append_jsonl_unlocked e umask w p (VDict row) fs = (fs', r)"
      "acknowledged rc \<longleftrightarrow> r = Inr ()"
      "r = Inr () \<Longrightarrow> reserved_usd rc = round_to 8 amount \<and> rc_txid rc = Some fresh"
proof (cases "budget_state e p fs")
  case (Inl x)
  then show ?thesis using assms refused
    by (auto simp: locked_reserve_def refused_def blank_receipt_def)
next
  case (Inr st)
  obtain cap rows used where st: "st = (cap, rows, used)" by (cases st)
  note bs = Inr [unfolded st]
  show ?thesis
  proof (cases "admission_blocker rows = None \<and> \<not> (cap - used < min_headroom \<or> cap - used < amount) \<and>
      (\<exists>ep row. episode_capacity_snapshot e h fs p used = Inr ep \<and>
         \<not> (case ep of None \<Rightarrow> False | Some s \<Rightarrow> sn_left s < min_headroom \<or> sn_left s \<le> amount) \<and>
         reserve_row e ctx now fresh amount model detail rows = Inr row)")
    case False
    then show ?thesis using assms refused
      by (auto simp: locked_reserve_def bs refused_def blank_receipt_def Let_def
          split: option.splits sum.splits if_splits)
  next
    case True
    then obtain ep row where ep: "episode_capacity_snapshot e h fs p used = Inr ep"
      "\<not> (case ep of None \<Rightarrow> False | Some s \<Rightarrow> sn_left s < min_headroom \<or> sn_left s \<le> amount)"
      "reserve_row e ctx now fresh amount model detail rows = Inr row" by blast
    obtain fs2 r where ap: "append_jsonl_unlocked e umask w p (VDict row) fs = (fs2, r)"
      by (cases "append_jsonl_unlocked e umask w p (VDict row) fs")
    have "fs2 = fs'" "acknowledged rc \<longleftrightarrow> r = Inr ()"
      "r = Inr () \<Longrightarrow> reserved_usd rc = round_to 8 amount \<and> rc_txid rc = Some fresh"
      using assms True ep(2) unfolding locked_reserve_def bs
      by (auto simp: ep ap Let_def refused_def blank_receipt_def split: sum.splits)
    then show ?thesis using attempt [of cap rows row r] True ep(3) ap bs
      by (auto simp: budget_state_Inr)
  qed
qed

lemma reserve_rowD:
  assumes "reserve_row e ctx now fresh amount model detail rows = Inr row" "has_8dp amount"
  obtains r m where "row = with_join e ctx r" "plain_tree 0 (VDict row)" "valid_ledger (rows @ [row])"
    "r = spend_row now fresh amount (py_strip m) k_reserve False detail" "model = VStr m" "0 \<le> amount"
proof -
  obtain r where b: "build_spend_row now fresh (VFloat amount) model k_reserve detail (VBool False) (VStr fresh) = Inr r"
    and v: "valid_ledger (rows @ [with_join e ctx r])" and row: "row = with_join e ctx r"
    using assms(1) by (auto simp: reserve_row_def ledger_total_Inr)
  show ?thesis
    by (rule build_rowD [OF b])
      (use that [OF row] v row with_join_plain ceil_8dp_fixed [OF assms(2)] in \<open>auto simp: number_of_def\<close>)
qed

section \<open>One recording\<close>

lemma record_spend_cases:
  assumes "record_spend e h umask w ctx now fresh usd model kind detail measured txid fs = (fs', ok)"
  obtains (refused) "fs' = fs" "\<not> ok"
  | (attempt) p rows r x where "resolve_ledger_path e h fs None = Inr p" "read_spend_rows fs p = Inr rows"
      "kind \<noteq> k_reserve" "build_spend_row now fresh usd model kind detail measured txid = Inr r"
      "valid_ledger (rows @ [with_join e ctx r])"
      "append_jsonl_unlocked e umask w p (VDict (with_join e ctx r)) fs = (fs', x)" "ok \<longleftrightarrow> x = Inr ()"
proof (cases "\<not> is_str kind \<or> kind = k_reserve")
  case True
  then show ?thesis using assms refused by (simp add: record_spend_def)
next
  case kind: False
  let ?go = "bindR (resolve_ledger_path e h fs None) (\<lambda>p.
    bindR (build_spend_row now fresh usd model kind detail measured txid) (\<lambda>r.
    bindR (read_spend_rows fs p) (\<lambda>rows.
    bindR (ledger_total (rows @ [with_join e ctx r])) (\<lambda>_. Inr (p, with_join e ctx r)))))"
  show ?thesis
  proof (cases ?go)
    case (Inl y)
    then show ?thesis using assms kind refused by (simp add: record_spend_def)
  next
    case (Inr pr)
    then obtain p r rows where pr: "resolve_ledger_path e h fs None = Inr p"
      "build_spend_row now fresh usd model kind detail measured txid = Inr r"
      "read_spend_rows fs p = Inr rows" "valid_ledger (rows @ [with_join e ctx r])"
      "pr = (p, with_join e ctx r)"
      by (auto simp: ledger_total_Inr)
    obtain fs2 x where ap: "append_jsonl_unlocked e umask w p (VDict (with_join e ctx r)) fs = (fs2, x)"
      by (cases "append_jsonl_unlocked e umask w p (VDict (with_join e ctx r)) fs")
    have "fs2 = fs'" "ok \<longleftrightarrow> x = Inr ()"
      using assms kind Inr unfolding record_spend_def pr(5)
      by (auto simp: ap split: sum.splits)
    then show ?thesis using attempt [OF pr(1,3) _ pr(2,4)] ap kind by simp
  qed
qed

lemma row_blocker_reserve: "kind_at d \<noteq> k_reconcile \<Longrightarrow> row_blocker d = None"
  by (simp add: row_blocker_def)

lemma row_blocker_positive: "is_v2 d \<Longrightarrow> kind_at d = k_reconcile \<Longrightarrow> row_blocker d = None \<Longrightarrow> usd_of d \<le> 0"
  by (auto simp: row_blocker_def split: if_splits)

lemma admission_blocker_snoc:
  "admission_blocker (rows @ [d]) = None \<longleftrightarrow> admission_blocker rows = None \<and> row_blocker d = None"
  by (auto simp: admission_blocker_append split: option.splits)

section \<open>The ledger under any sequence of operations\<close>

definition default_ledger :: "env \<Rightarrow> host \<Rightarrow> path" where
  "default_ledger e h = (let d = state_dir_env e in (if d \<noteq> [] then d else render (h_package h)) @ cross_rel)"

definition no_override :: "env \<Rightarrow> bool" where
  "no_override e \<longleftrightarrow> py_strip (getenv e ''AGI_V81_CROSS_MODEL_VERIFY_LEDGER'' []) = []"

lemma resolve_default [simp]: "no_override e \<Longrightarrow> resolve_ledger_path e h fs None = Inr (default_ledger e h)"
  by (simp add: resolve_ledger_path_def no_override_def default_ledger_def Let_def)

text \<open>
  One critical section: a reservation, or the recording of a reconcile. Whatever the arguments and
  however the write of the row ends, it is one step; interleavings of processes are sequences.
\<close>

inductive spend_step :: "env \<Rightarrow> host \<Rightarrow> nat \<Rightarrow> ledger_fs \<Rightarrow> ledger_fs \<Rightarrow> bool" for e h umask where
  reserve: "reserve_if_capacity e h umask w ctx now fresh usd model kind detail measured fs = (fs', rc) \<Longrightarrow>
    spend_step e h umask fs fs'"
| reconcile: "kind \<noteq> k_actual \<Longrightarrow>
    record_spend e h umask w ctx now fresh usd model kind detail measured txid fs = (fs', ok) \<Longrightarrow>
    spend_step e h umask fs fs'"

lemma reserve_if_capacity_cases:
  assumes "reserve_if_capacity e h umask w ctx now fresh usd model kind detail measured fs = (fs', rc)"
    and "resolve_ledger_path e h fs None = Inr p"
  obtains (refused) "fs' = fs" "\<not> acknowledged rc"
  | (locked) a where "number_of usd = Some a" "0 \<le> a"
      "locked_reserve e h umask w ctx now fresh (ceil_8dp a) model detail p fs = (fs', rc)"
proof (cases "kind = k_reserve \<and> nonblank model \<and> finite_number usd \<and> (measured = VNone \<or> measured = VBool False)
    \<and> (\<exists>x. quantize_usd_ceiling usd = Inr x)")
  case True
  then obtain x where x: "quantize_usd_ceiling usd = Inr x" by blast
  from quantize_Inr [OF x] locked x True assms show ?thesis
    by (auto simp: reserve_if_capacity_def)
next
  case False
  then have "fs' = fs \<and> \<not> acknowledged rc"
    using assms by (auto simp: reserve_if_capacity_def refused_def blank_receipt_def
        split: if_splits sum.splits)
  then show ?thesis using refused by blast
qed

text \<open>An invariant of the readable ledger that both operations keep is kept by every step.\<close>

lemma step_keeps:
  assumes "no_override e" "p = default_ledger e h" "spend_step e h umask fs fs'"
    and "damaged p fs \<or> ledger_ok p fs \<and> (\<exists>rows. read_spend_rows fs p = Inr rows \<and> P rows)"
    and reserved: "\<And>rows cap amount ctx now fresh model detail row. P rows \<Longrightarrow> valid_ledger rows \<Longrightarrow>
      admission_blocker rows = None \<Longrightarrow> xm_cap_usd e = Inr cap \<Longrightarrow> total_of rows + amount \<le> cap \<Longrightarrow>
      has_8dp amount \<Longrightarrow> 0 \<le> amount \<Longrightarrow>
      reserve_row e ctx now fresh amount model detail rows = Inr row \<Longrightarrow> P (rows @ [row])"
    and reconciled: "\<And>rows ctx now fresh usd model detail measured txid r. P rows \<Longrightarrow>
      build_spend_row now fresh usd model k_reconcile detail measured txid = Inr r \<Longrightarrow>
      valid_ledger (rows @ [with_join e ctx r]) \<Longrightarrow> P (rows @ [with_join e ctx r])"
  shows "damaged p fs' \<or> ledger_ok p fs' \<and> (\<exists>rows. read_spend_rows fs' p = Inr rows \<and> P rows)"
  using assms(3)
proof cases
  case (reserve w ctx now fresh usd model kind detail measured rc)
  from reserve(1) resolve_default [OF assms(1)] show ?thesis
  proof (cases rule: reserve_if_capacity_cases)
    case refused
    then show ?thesis using assms(4) by simp
  next
    case (locked a)
    from locked(3) show ?thesis unfolding assms(2) [symmetric]
    proof (cases rule: locked_reserve_cases)
      case refused
      then show ?thesis using assms(4) by simp
    next
      case (attempt cap rows row r)
      then have ok: "ledger_ok p fs" "P rows"
        using assms(4) damaged_strict [of p fs] by auto
      obtain "plain_tree 0 (VDict row)"
        by (rule reserve_rowD [OF attempt(7) has_8dp_ceil])
      from append_strict [OF ok(1) attempt(2) this attempt(8)] ok
        reserved [OF ok(2) attempt(3,4,1,6) has_8dp_ceil ceil_8dp_nonneg [OF locked(2)] attempt(7)]
      show ?thesis using attempt(2) by auto
    qed
  qed
next
  case (reconcile kind w ctx now fresh usd model detail measured txid ok)
  from reconcile(2) show ?thesis
  proof (cases rule: record_spend_cases)
    case refused
    then show ?thesis using assms(4) by simp
  next
    case (attempt q rows r x)
    have q: "q = p" using attempt(1) assms(1,2) by simp
    have ok: "ledger_ok p fs" "P rows"
      using attempt(2) assms(4) damaged_strict [of p fs] by (auto simp: q)
    have k: "kind = k_reconcile" and pl: "plain_tree 0 (VDict r)"
      by (rule build_rowD [OF attempt(4)], use reconcile(1) attempt(3) in \<open>auto simp: spend_kinds_def\<close>)+
    from append_strict [OF ok(1) attempt(2) [unfolded q] with_join_plain [OF pl] attempt(6) [unfolded q]]
      reconciled [OF ok(2) attempt(4) [unfolded k] attempt(5)] ok attempt(2)
    show ?thesis by (auto simp: q)
  qed
qed

text \<open>While nothing in the ledger blocks admission, its total stays within the cap.\<close>

definition within_cap :: "rat \<Rightarrow> dict list \<Rightarrow> bool" where
  "within_cap cap rows \<longleftrightarrow> valid_ledger rows \<and> (admission_blocker rows = None \<longrightarrow> total_of rows \<le> cap)"

lemma reserve_row_facts:
  assumes "reserve_row e ctx now fresh amount model detail rows = Inr row" "has_8dp amount"
  shows "valid_ledger (rows @ [row])" "usd_of row = amount" "row_blocker row = None"
    "plain_tree 0 (VDict row)" "is_v2 row" "txid_of row = fresh" "kind_at row = k_reserve"
  by (rule reserve_rowD [OF assms]; simp add: row_blocker_reserve)+

lemma step_within:
  assumes "no_override e" "p = default_ledger e h" "xm_cap_usd e = Inr cap" "spend_step e h umask fs fs'"
    and "damaged p fs \<or> ledger_ok p fs \<and> (\<exists>rows. read_spend_rows fs p = Inr rows \<and> within_cap cap rows)"
  shows "damaged p fs' \<or> ledger_ok p fs' \<and> (\<exists>rows. read_spend_rows fs' p = Inr rows \<and> within_cap cap rows)"
proof (rule step_keeps [OF assms(1,2,4,5)])
  fix rows cap' amount ctx now fresh model detail row
  assume a: "admission_blocker rows = None" "xm_cap_usd e = Inr cap'" "total_of rows + amount \<le> cap'"
    "has_8dp amount" "reserve_row e ctx now fresh amount model detail rows = Inr row"
  then show "within_cap cap (rows @ [row])"
    using reserve_row_facts [OF a(5,4)] assms(3) by (simp add: within_cap_def)
next
  fix rows ctx now fresh usd model detail measured txid r
  assume w: "within_cap cap rows" and b: "build_spend_row now fresh usd model k_reconcile detail measured txid = Inr r"
    and v: "valid_ledger (rows @ [with_join e ctx r])"
  have r: "is_v2 r" "kind_at r = k_reconcile" by (rule build_rowD [OF b], simp)+
  then show "within_cap cap (rows @ [with_join e ctx r])"
    using w v row_blocker_positive [OF r] by (auto simp: within_cap_def admission_blocker_snoc)
qed

lemma step_blocked:
  assumes "no_override e" "p = default_ledger e h" "spend_step e h umask fs fs'"
    and "damaged p fs \<or> ledger_ok p fs \<and> (\<exists>rows. read_spend_rows fs p = Inr rows \<and> admission_blocker rows = Some b)"
  shows "damaged p fs' \<or> ledger_ok p fs' \<and> (\<exists>rows. read_spend_rows fs' p = Inr rows \<and> admission_blocker rows = Some b)"
  by (rule step_keeps [OF assms]) (simp_all add: admission_blocker_stays)

lemma steps_keep:
  assumes "rtranclp (spend_step e h umask) fs fs'" "Q fs"
    and "\<And>s s'. spend_step e h umask s s' \<Longrightarrow> Q s \<Longrightarrow> Q s'"
  shows "Q fs'"
  using assms(1,2) by induction (auto intro: assms(3))

lemma locked_reserve_blocked:
  assumes "damaged p fs \<or> ledger_ok p fs \<and> (\<exists>rows. read_spend_rows fs p = Inr rows \<and> admission_blocker rows = Some b)"
    and "locked_reserve e h umask w ctx now fresh amount model detail p fs = (fs', rc)"
  shows "fs' = fs \<and> \<not> acknowledged rc"
  using assms(2)
proof (cases rule: locked_reserve_cases)
  case (attempt cap rows row r)
  then show ?thesis using assms(1) damaged_strict [of p fs] by auto
qed simp

section \<open>Fresh transactions\<close>

lemma mixed_error_snoc:
  "mixed_error False rows = None \<Longrightarrow> is_v2 d \<Longrightarrow>
     mixed_error False (rows @ [d]) = mixed_row_error True d"
  by (auto simp: mixed_error_append mixed_row_error_def is_v2_def split: option.splits)

lemma txids_snoc: "is_v2 d \<Longrightarrow> txids (rows @ [d]) = insert (txid_of d) (txids rows)"
  by (auto simp: txids_def)

lemma tx_defect_open: "kind_at d = k_reserve \<Longrightarrow> tx_defect [d] = None"
  by (simp add: tx_defect_def)

lemma valid_fresh_reserve:
  assumes "valid_ledger rows" "is_v2 d" "txid_of d \<notin> txids rows" "kind_at d = k_reserve"
    "row_defect d = None" "mixed_row_error True d = None" "0 \<le> usd_of d"
  shows "valid_ledger (rows @ [d])"
proof -
  have v: "mixed_error False rows = None" "transaction_defect rows = None" "- (5 / 10 ^ 9) \<le> total_of rows"
    using assms(1) by (simp_all add: valid_ledger_iff)
  have "tx_rows (txid_of d) rows = []" using assms(3) by (simp add: tx_rows_Nil)
  then have "transaction_defect (rows @ [d]) = None"
    using v(2) assms(2,3,4,5) by (auto simp: transaction_defect_None txids_snoc tx_defect_open)
  then show ?thesis using v assms by (simp add: valid_ledger_iff mixed_error_snoc)
qed

lemma spend_row_fine:
  assumes "valid_transaction_id (VStr tx)" "py_strip m \<noteq> []" "0 < now" "has_8dp usd" "0 \<le> usd"
  shows "row_defect (spend_row now tx usd (py_strip m) k_reserve False det) = None"
    "mixed_row_error True (spend_row now tx usd (py_strip m) k_reserve False det) = None"
  using assms
  by (simp_all add: row_defect_def mixed_row_error_def finite_number_def number_of_def is_bool_def
      usd_has_at_most_8dp_def spend_kinds_def nonblank_def Let_def kind_defs)

section \<open>Properties\<close>

text \<open>An acknowledged reservation fits: when the reserve is acknowledged, the ledger was readable,
  valid and free of admission poison, its one new row is on disk behind the rows that were there,
  the amount reserved is at least the one asked for, and with it the ledger's exact total does not
  exceed the cap.\<close>

theorem acknowledged_reserve_fits:
  assumes "no_override e" and "ledger_ok (default_ledger e h) fs"
    and "reserve_if_capacity e h umask w ctx now fresh usd model kind detail measured fs = (fs', rc)"
    and "acknowledged rc"
  shows "\<exists>cap rows row a. xm_cap_usd e = Inr cap \<and> number_of usd = Some a \<and> a \<le> reserved_usd rc \<and>
    read_spend_rows fs (default_ledger e h) = Inr rows \<and> admission_blocker rows = None \<and>
    read_spend_rows fs' (default_ledger e h) = Inr (rows @ [row]) \<and>
    ledger_total (rows @ [row]) = Inr (total_of rows + reserved_usd rc) \<and>
    total_of rows + reserved_usd rc \<le> cap"
proof -
  obtain a where a: "number_of usd = Some a" "0 \<le> a"
    "locked_reserve e h umask w ctx now fresh (ceil_8dp a) model detail (default_ledger e h) fs = (fs', rc)"
    using reserve_if_capacity_cases [OF assms(3) resolve_default [OF assms(1)]] assms(4) by metis
  from a(3) show ?thesis
  proof (cases rule: locked_reserve_cases)
    case refused
    then show ?thesis using assms(4) by simp
  next
    case (attempt cap rows row r)
    note f = reserve_row_facts [OF attempt(7) has_8dp_ceil]
    have r: "r = Inr ()" "reserved_usd rc = ceil_8dp a"
      using attempt(9,10) assms(4) by (simp_all add: round_to_8dp)
    have "read_spend_rows fs' (default_ledger e h) = Inr (rows @ [row])"
      using append_strict [OF assms(2) attempt(2) f(4) attempt(8)] r(1) by auto
    then show ?thesis
      using attempt(1,2,4,6) a(1) r(2) f(1,2) ceil_8dp_ge [of a] by (auto simp: ledger_total_Inr)
  qed
qed

text \<open>C17: The reviewer's cap holds across processes and crashes: from an empty or valid ledger within
  the cap, after any sequence of reservations and reconciles, with any arguments and any outcome of
  each write (cut, refused, or failing to reach the disk), a ledger that can still be read is valid,
  and unless a reconcile has poisoned admission its total is within the cap.\<close>

theorem cap_never_exceeded:
  assumes "no_override e" and "xm_cap_usd e = Inr cap" and "ledger_ok (default_ledger e h) fs"
    and "read_spend_rows fs (default_ledger e h) = Inr rows" and "within_cap cap rows"
    and "rtranclp (spend_step e h umask) fs fs'"
    and "read_spend_rows fs' (default_ledger e h) = Inr rows'"
  shows "valid_ledger rows' \<and> (admission_blocker rows' = None \<longrightarrow> total_of rows' \<le> cap)"
proof -
  let ?p = "default_ledger e h"
  let ?Q = "\<lambda>s. damaged ?p s \<or> ledger_ok ?p s \<and> (\<exists>rows. read_spend_rows s ?p = Inr rows \<and> within_cap cap rows)"
  have "?Q fs'" by (rule steps_keep [OF assms(6), of ?Q])
      (use assms(3-5) step_within [OF assms(1) refl assms(2)] in blast)+
  then show ?thesis using assms(7) damaged_strict [of ?p fs'] by (auto simp: within_cap_def)
qed

text \<open>Poison is durable: once a reconcile has shown that a call cost more than its reservation, or
  that the provider or the model cannot be identified, no later reservation is acknowledged,
  whatever has been recorded since and however writes failed, and the refused one changes nothing.\<close>

theorem poison_blocks_for_good:
  assumes "no_override e" and "ledger_ok (default_ledger e h) fs"
    and "read_spend_rows fs (default_ledger e h) = Inr rows" and "admission_blocker rows = Some b"
    and "rtranclp (spend_step e h umask) fs fs1"
    and "reserve_if_capacity e h umask w ctx now fresh usd model kind detail measured fs1 = (fs2, rc)"
  shows "\<not> acknowledged rc \<and> fs2 = fs1"
proof -
  let ?p = "default_ledger e h"
  let ?Q = "\<lambda>s. damaged ?p s \<or> ledger_ok ?p s \<and> (\<exists>rows. read_spend_rows s ?p = Inr rows \<and> admission_blocker rows = Some b)"
  have q: "?Q fs1" by (rule steps_keep [OF assms(5), of ?Q])
      (use assms(2-4) step_blocked [OF assms(1) refl] in blast)+
  from assms(6) resolve_default [OF assms(1)] show ?thesis
    by (cases rule: reserve_if_capacity_cases) (use locked_reserve_blocked [OF q] in auto)
qed

text \<open>A reservation that should go through does: with the ledger in order, valid and unpoisoned, no
  episode budget, a well-formed request, a fresh transaction id and room for the rounded amount and
  the minimum headroom, the reserve is acknowledged under that id.\<close>

theorem reserve_with_room_acknowledged:
  assumes "no_override e" and "xm_cap_usd e = Inr cap" and "e ''AGI_V8_EPISODE_BUDGET_USD'' = None"
    and "ledger_ok (default_ledger e h) fs" and "read_spend_rows fs (default_ledger e h) = Inr rows"
    and "valid_ledger rows" and "admission_blocker rows = None"
    and "py_strip m \<noteq> []" and "0 < now" and "0 \<le> a" and "a < 10 ^ 19"
    and "valid_transaction_id (VStr fresh)" and "fresh \<notin> txids rows"
    and "total_of rows + ceil_8dp a \<le> cap" and "total_of rows + min_headroom \<le> cap"
  shows "\<exists>fs' rc. reserve_if_capacity e h umask WrOk ctx now fresh (VFloat a) (VStr m) k_reserve VNone VNone fs =
    (fs', rc) \<and> acknowledged rc \<and> rc_txid rc = Some fresh \<and> reserved_usd rc = ceil_8dp a"
proof -
  let ?p = "default_ledger e h" and ?a = "ceil_8dp a"
  let ?d = "spend_row now fresh ?a (py_strip m) k_reserve False VNone"
  have small: "b < 10 ^ 19 + 1 \<Longrightarrow> \<not> 10 ^ 28 \<le> \<lceil>b * 10 ^ 8\<rceil>" for b :: rat
    by (simp add: le_ceiling_iff not_le)
  have q: "quantize_usd_ceiling (VFloat a) = Inr ?a"
    using assms(10,11) small [of a] by (simp add: quantize_usd_ceiling_def number_of_def)
  have "?a < 10 ^ 19 + 1" using ceil_8dp_less [of a] assms(11) by (simp add: quantum_def)
  then have q2: "quantize_usd_ceiling (VFloat ?a) = Inr ?a"
    using small [of ?a] ceil_8dp_nonneg [OF assms(10)]
    by (simp add: quantize_usd_ceiling_def number_of_def ceil_8dp_fixed)
  have fine: "valid_ledger (rows @ [with_join e ctx ?d])"
    using spend_row_fine [OF assms(12,8,9) has_8dp_ceil ceil_8dp_nonneg [OF assms(10)]]
      ceil_8dp_nonneg [OF assms(10)] assms(6,13)
    by (intro valid_fresh_reserve) simp_all
  have "build_spend_row now fresh (VFloat ?a) (VStr m) k_reserve VNone (VBool False) (VStr fresh) = Inr ?d"
    using assms(8,12) ceil_8dp_nonneg [OF assms(10)] q2
    by (simp add: build_spend_row_def spend_kinds_def nonblank_def number_of_def is_bool_def spend_row_def)
  then have rr: "reserve_row e ctx now fresh ?a (VStr m) VNone rows = Inr (with_join e ctx ?d)"
    using fine by (simp add: reserve_row_def valid_ledger_def)
  obtain fs' r where ap: "append_jsonl_unlocked e umask WrOk ?p (VDict (with_join e ctx ?d)) fs = (fs', r)"
    by (cases "append_jsonl_unlocked e umask WrOk ?p (VDict (with_join e ctx ?d)) fs")
  have "r = Inr ()"
    using append_strict [OF assms(4,5) reserve_row_facts(4) [OF rr has_8dp_ceil] ap] by simp
  moreover have "budget_state e ?p fs = Inr (cap, rows, total_of rows)"
    using assms(2,5,6) by (simp add: budget_state_Inr)
  ultimately have "\<exists>rc. locked_reserve e h umask WrOk ctx now fresh ?a (VStr m) VNone ?p fs = (fs', rc) \<and>
      acknowledged rc \<and> rc_txid rc = Some fresh \<and> reserved_usd rc = ?a"
    using assms(3,7,14,15) ap rr
    by (simp add: locked_reserve_def episode_capacity_snapshot_def Let_def round_to_8dp)
  then show ?thesis using assms(1,8) q
    by (auto simp: reserve_if_capacity_def nonblank_def finite_number_def number_of_def)
qed

text \<open>Settling nets to the truth: a recorded reconcile closes an open reserve of its transaction; the
  total then counts for that transaction what the provider's usage showed, never less than zero,
  and the whole reservation when usage was not measured, so missing evidence refunds nothing.\<close>

theorem reconcile_settles:
  assumes "no_override e" and "ledger_ok (default_ledger e h) fs"
    and "record_spend e h umask w ctx now fresh usd model k_reconcile detail measured (VStr tx) fs = (fs', True)"
  shows "\<exists>rows row a det settled. read_spend_rows fs (default_ledger e h) = Inr rows \<and>
    read_spend_rows fs' (default_ledger e h) = Inr (rows @ [row]) \<and>
    tx_rows tx rows = [a] \<and> kind_at a = k_reserve \<and> detail = VDict det \<and>
    total_of (rows @ [row]) = total_of rows - usd_of a + settled \<and> 0 \<le> settled \<and>
    settled = (if measured = VBool True then cost_of ''actual_usd'' det else usd_of a)"
  using assms(3)
proof (cases rule: record_spend_cases)
  case (attempt p rows r x)
  have p: "p = default_ledger e h" using attempt(1) assms(1) by simp
  obtain c m b where c: "measured = VBool b" "number_of usd = Some c" "\<not> b \<Longrightarrow> c = 0"
    and r: "r = spend_row now tx (round_to 8 c) (py_strip m) k_reconcile b detail" "plain_tree 0 (VDict r)"
    by (rule build_rowD [OF attempt(4)]) auto
  let ?row = "with_join e ctx r"
  have row: "is_v2 ?row" "txid_of ?row = tx" "kind_at ?row = k_reconcile" "usd_of ?row = round_to 8 c"
    "dict_get ?row ''usage_measured'' = VBool b" "dict_get ?row ''detail'' = (if truthy detail then detail else VNone)"
    by (simp_all add: r(1))
  have "tx_defect (tx_rows tx (rows @ [?row])) = None"
    using attempt(5) row(1,2) by (auto simp: valid_ledger_iff transaction_defect_None txids_snoc)
  then have "tx_defect (tx_rows tx rows @ [?row]) = None" using row(1,2) by simp
  then obtain a where a: "tx_rows tx rows = [a]" "kind_at a = k_reserve" "pair_defect a ?row = None"
    by (cases rule: tx_defect_cases) (use row(3) in \<open>auto simp: append_eq_Cons_conv\<close>)
  obtain det where det: "detail = VDict det" "0 \<le> usd_of a + usd_of ?row"
    "b \<Longrightarrow> cost_of ''actual_usd'' det = usd_of a + usd_of ?row"
    using a(3) row(5,6) by (auto simp: pair_defect_def split: if_splits pyv.splits)
  have "read_spend_rows fs' p = Inr (rows @ [?row])"
    using append_strict [OF assms(2) [folded p] attempt(2) with_join_plain [OF r(2)] attempt(6)] attempt(7)
    by auto
  moreover have "\<not> b \<Longrightarrow> usd_of ?row = 0" using c(3) row(4) by (simp add: round_to_def round_even_def)
  ultimately show ?thesis
    using a det attempt(2) c(1) unfolding p
    by (intro exI [of _ rows] exI [of _ ?row] exI [of _ a] exI [of _ det] exI [of _ "usd_of a + usd_of ?row"])
      auto
qed simp

text \<open>A transaction is settled once: when it already has its reserve and its reconcile, recording
  another row for it is refused and the ledger stays as it is.\<close>

theorem second_reconcile_refused:
  assumes "no_override e" and "read_spend_rows fs (default_ledger e h) = Inr rows"
    and "tx_rows tx rows = [a, b]"
  shows "record_spend e h umask w ctx now fresh usd model kind detail measured (VStr tx) fs = (fs, False)"
proof (cases "record_spend e h umask w ctx now fresh usd model kind detail measured (VStr tx) fs")
  case (Pair fs' ok)
  then show ?thesis
  proof (cases rule: record_spend_cases)
    case (attempt p rows' r x)
    have rows': "rows' = rows" using attempt(1,2) assms(1,2) by simp
    have r: "is_v2 r" "txid_of r = tx" by (rule build_rowD [OF attempt(4)], simp)+
    then have "tx_defect [a, b, with_join e ctx r] = None"
      using attempt(5) assms(3) by (auto simp: rows' valid_ledger_iff transaction_defect_None txids_snoc)
    then show ?thesis by (auto simp: tx_defect_def)
  qed (use Pair in simp)
qed

text \<open>What cannot be read counts as spent: when the ledger exists and cannot be read or fails its
  validation, the recorded spend reads as the whole cap, the budget as exhausted, the admission
  as blocked, and every reservation is refused without touching the ledger.\<close>

theorem unreadable_is_exhausted:
  assumes "no_override e" and "\<not> strict_enabled e" and "opened fs (default_ledger e h) \<noteq> None"
    and "bindR (read_spend_rows fs (default_ledger e h)) ledger_total = Inl x"
  shows "xm_spent_usd e h fs = xm_cap_usd e \<and> exhausted e h fs = Inr True \<and>
    accounting_admission_blocker e h fs = Inr (Some ''ledger_unreadable'') \<and>
    (\<exists>rc. reserve_if_capacity e h umask w ctx now fresh usd model kind detail measured fs = (fs, rc) \<and>
       \<not> acknowledged rc)"
proof -
  let ?p = "default_ledger e h"
  have ab: "absorb e y v = Inr v" for y :: exn and v :: "'b" using assms(2) by (simp add: absorb_def)
  have "\<exists>cap. xm_cap_usd e = Inr cap" by (simp add: xm_cap_usd_def Let_def ab split: option.split)
  then obtain cap where cap: "xm_cap_usd e = Inr cap" ..
  have bad: "read_spend_rows fs ?p = Inl x \<or> (\<exists>rows. read_spend_rows fs ?p = Inr rows \<and> ledger_total rows = Inl x)"
    using assms(4) by (auto simp: bindR_eq_Inl)
  have spent: "xm_spent_usd e h fs = xm_cap_usd e"
    using assms(1,3,4) by (auto simp: xm_spent_usd_def ab)
  have block: "accounting_admission_blocker e h fs = Inr (Some ''ledger_unreadable'')"
    using assms(1,3) bad by (auto simp: accounting_admission_blocker_def ab)
  have "exhausted e h fs = Inr True"
    by (simp add: exhausted_def xm_remaining_usd_def spent cap min_headroom_def)
  moreover have "fs' = fs \<and> \<not> acknowledged rc"
    if "reserve_if_capacity e h umask w ctx now fresh usd model kind detail measured fs = (fs', rc)" for fs' rc
    using that resolve_default [OF assms(1)]
  proof (cases rule: reserve_if_capacity_cases)
    case (locked a)
    have "\<exists>y. budget_state e ?p fs = Inl y" using bad cap by (auto simp: budget_state_def)
    then show ?thesis using locked(3) by (auto simp: locked_reserve_def refused_def blank_receipt_def)
  qed simp
  ultimately show ?thesis using spent block
    by (cases "reserve_if_capacity e h umask w ctx now fresh usd model kind detail measured fs") auto
qed

section \<open>Witnesses\<close>

definition lab :: host where
  "lab = \<lparr>h_cwd = [], h_home = nobody, h_package = [''s'']\<rparr>"

definition tx0 :: string where "tx0 = ''xmv2-00000000000000000000000000000000''"
definition fs0 :: ledger_fs where "fs0 = Map.empty"

abbreviation "ledger0 \<equiv> default_ledger no_env lab"

lemma lab_env [simp]:
  "no_override no_env" "xm_cap_usd no_env = Inr (1924 / 100)" "no_env ''AGI_V8_EPISODE_BUDGET_USD'' = None"
  "\<not> strict_enabled no_env"
  by (simp_all add: no_override_def xm_cap_usd_def xm_default_cap_def no_env_def strict_enabled_def
      gate_strict_unset getenv_def)

lemma fs0_ledger [simp]: "ledger_ok p fs0" "read_spend_rows fs0 p = Inr []"
  by (simp_all add: ledger_ok_def fs0_def read_spend_rows_def)

lemma empty_ledger [simp]: "valid_ledger []" "admission_blocker [] = None" "txids [] = {}"
  by (simp_all add: valid_ledger_def ledger_total_def transaction_defect_None txids_def split: option.split)

lemma tx0_valid: "valid_transaction_id (VStr tx0)" by code_simp

lemma model_m [simp]: "py_strip ''m'' = ''m''" by code_simp

lemma ceil_3 [simp]: "ceil_8dp 3 = 3" "round_to 8 3 = 3" "round_to 8 (-1) = -1" "round_to 8 1 = 1"
  by (simp_all add: ceil_8dp_def round_to_def round_even_def)

theorem reserve_with_room_acknowledged_witness:
  "\<exists>fs' rc. reserve_if_capacity no_env lab 18 WrOk (Inr (None, None)) 5 tx0 (VFloat 3) (VStr ''m'') k_reserve
     VNone VNone fs0 = (fs', rc) \<and> acknowledged rc \<and> rc_txid rc = Some tx0 \<and> reserved_usd rc = ceil_8dp 3"
  by (rule reserve_with_room_acknowledged [where cap = "1924 / 100" and rows = "[]"])
    (simp_all add: tx0_valid min_headroom_def)

definition reserved0 :: "ledger_fs \<times> receipt" where
  "reserved0 = reserve_if_capacity no_env lab 18 WrOk (Inr (None, None)) 5 tx0 (VFloat 3) (VStr ''m'') k_reserve
     VNone VNone fs0"

definition row0 :: dict where "row0 = spend_row 5 tx0 3 ''m'' k_reserve False VNone"

lemma no_join [simp]: "with_join no_env ctx row = row"
proof -
  have "\<not> join_enabled no_env" unfolding join_enabled_def by code_simp
  then show ?thesis by (simp add: with_join_def join_keys_def validated_join_evidence_def)
qed

lemma reserved0:
  "reserve_row no_env (Inr (None, None)) 5 tx0 3 (VStr ''m'') VNone [] = Inr row0"
  "\<exists>fs1 rc. reserved0 = (fs1, rc) \<and> acknowledged rc \<and> ledger_ok ledger0 fs1 \<and>
     read_spend_rows fs1 ledger0 = Inr [row0]"
proof -
  have q: "quantize_usd_ceiling (VFloat 3) = Inr 3"
    by (simp add: quantize_usd_ceiling_def number_of_def ceiling_divide_eq_div)
  have fine: "valid_ledger ([] @ [row0])" unfolding row0_def
    by (rule valid_fresh_reserve) (use spend_row_fine [of tx0 "''m''" 5 3 VNone] tx0_valid in
      \<open>simp_all add: has_8dp_def\<close>)
  have b: "build_spend_row 5 tx0 (VFloat 3) (VStr ''m'') k_reserve VNone (VBool False) (VStr tx0) = Inr row0"
    using tx0_valid q
    by (simp add: build_spend_row_def spend_kinds_def nonblank_def number_of_def is_bool_def spend_row_def row0_def)
  show rr: "reserve_row no_env (Inr (None, None)) 5 tx0 3 (VStr ''m'') VNone [] = Inr row0"
    using b fine by (simp add: reserve_row_def valid_ledger_def)
  obtain fs1 r where ap: "append_jsonl_unlocked no_env 18 WrOk ledger0 (VDict row0) fs0 = (fs1, r)"
    by (cases "append_jsonl_unlocked no_env 18 WrOk ledger0 (VDict row0) fs0")
  have p: "plain_tree 0 (VDict row0)" by (rule reserve_row_facts(4) [OF rr]) (simp add: has_8dp_def)
  have after: "ledger_ok ledger0 fs1" "read_spend_rows fs1 ledger0 = Inr [row0]" "r = Inr ()"
    using append_strict [OF fs0_ledger p ap] by auto
  have "budget_state no_env ledger0 fs0 = Inr (1924 / 100, [], 0)" by (simp add: budget_state_Inr)
  then have "\<exists>rc. reserved0 = (fs1, rc) \<and> acknowledged rc"
    using rr ap after(3) q
    by (simp add: reserved0_def reserve_if_capacity_def nonblank_def finite_number_def number_of_def
        locked_reserve_def episode_capacity_snapshot_def Let_def min_headroom_def)
  then show "\<exists>fs1 rc. reserved0 = (fs1, rc) \<and> acknowledged rc \<and> ledger_ok ledger0 fs1 \<and>
     read_spend_rows fs1 ledger0 = Inr [row0]" using after by blast
qed

theorem acknowledged_reserve_fits_witness:
  "\<exists>fs1 rc row. reserved0 = (fs1, rc) \<and> read_spend_rows fs1 ledger0 = Inr [row] \<and> reserved_usd rc \<le> 1924 / 100"
proof -
  obtain fs1 rc where r: "reserved0 = (fs1, rc)" "acknowledged rc" using reserved0(2) by blast
  from acknowledged_reserve_fits [OF _ _ r(1) [unfolded reserved0_def] r(2)]
  obtain cap row where "xm_cap_usd no_env = Inr cap" "read_spend_rows fs1 ledger0 = Inr [row]"
    "reserved_usd rc \<le> cap" by auto
  then have "read_spend_rows fs1 ledger0 = Inr [row]" "reserved_usd rc \<le> 1924 / 100" by auto
  with r(1) show ?thesis by blast
qed

theorem cap_never_exceeded_witness:
  "\<exists>fs1 rows. spend_step no_env lab 18 fs0 fs1 \<and> read_spend_rows fs1 ledger0 = Inr rows \<and> rows \<noteq> [] \<and>
     total_of rows \<le> 1924 / 100"
proof -
  obtain fs1 rc where r: "reserved0 = (fs1, rc)" "read_spend_rows fs1 ledger0 = Inr [row0]"
    using reserved0(2) by blast
  have st: "spend_step no_env lab 18 fs0 fs1" by (rule spend_step.reserve [OF r(1) [unfolded reserved0_def]])
  have "admission_blocker [row0] = None" by (simp add: row0_def row_blocker_def)
  with cap_never_exceeded [OF _ _ _ _ _ r_into_rtranclp [where r = "spend_step no_env lab 18", OF st] r(2), of "1924 / 100" "[]"] st r(2)
  show ?thesis by (auto simp: within_cap_def)
qed

definition detail0 :: dict where
  "detail0 = [(''reserved_usd'', VInt 3), (''actual_usd'', VInt 2)]"

definition settled0 :: "ledger_fs \<Rightarrow> ledger_fs \<times> bool" where
  "settled0 fs = record_spend no_env lab 18 WrOk (Inr (None, None)) 6 tx0 (VInt (-1)) (VStr ''m'') k_reconcile
     (VDict detail0) (VBool True) (VStr tx0) fs"

definition row1 :: dict where
  "row1 = spend_row 6 tx0 (-1) ''m'' k_reconcile True (VDict detail0)"

lemma is_str_reconcile: "is_str k_reconcile"
  by (simp add: k_reconcile_def)

lemma settled0:
  assumes "ledger_ok ledger0 fs" "read_spend_rows fs ledger0 = Inr [row0]"
  shows "\<exists>fs'. settled0 fs = (fs', True) \<and> ledger_ok ledger0 fs' \<and> read_spend_rows fs' ledger0 = Inr [row0, row1]"
proof -
  have b: "build_spend_row 6 tx0 (VInt (-1)) (VStr ''m'') k_reconcile (VDict detail0) (VBool True) (VStr tx0) = Inr row1"
    using tx0_valid
    by (simp add: build_spend_row_def spend_kinds_def nonblank_def number_of_def is_bool_def spend_row_def
        row1_def plain_result_def detail0_def)
  obtain "plain_tree 0 (VDict row1)" by (rule build_rowD [OF b])
  moreover have v: "valid_ledger ([row0] @ [row1])"
  proof -
    have "holds (ledger_total [row0, row1]) (\<lambda>_. True)" by code_simp
    then show ?thesis by (auto elim!: holdsE simp: ledger_total_Inr)
  qed
  moreover obtain fs' r where ap: "append_jsonl_unlocked no_env 18 WrOk ledger0 (VDict row1) fs = (fs', r)"
    by (cases "append_jsonl_unlocked no_env 18 WrOk ledger0 (VDict row1) fs")
  ultimately have "r = Inr ()" "ledger_ok ledger0 fs'" "read_spend_rows fs' ledger0 = Inr [row0, row1]"
    using append_strict [OF assms, of row1 no_env 18 WrOk fs' r] by auto
  moreover have "settled0 fs = (fs', True)" if "r = Inr ()"
    using v ap that b assms(2) by (simp add: settled0_def record_spend_def valid_ledger_def is_str_reconcile)
  ultimately show ?thesis by blast
qed

lemma rows01 [simp]: "is_v2 row0" "txid_of row0 = tx0" "is_v2 row1" "txid_of row1 = tx0"
  by (simp_all add: row0_def row1_def)

theorem reconcile_settles_witness:
  "\<exists>fs fs' rows. settled0 fs = (fs', True) \<and> read_spend_rows fs' ledger0 = Inr rows \<and> total_of rows = 2"
proof -
  obtain fs where fs: "ledger_ok ledger0 fs" "read_spend_rows fs ledger0 = Inr [row0]"
    using reserved0(2) by blast
  obtain fs' where s: "settled0 fs = (fs', True)" using settled0 [OF fs] by blast
  obtain rows row a det settled where "read_spend_rows fs ledger0 = Inr rows"
    "read_spend_rows fs' ledger0 = Inr (rows @ [row])" "tx_rows tx0 rows = [a]" "VDict detail0 = VDict det"
    "total_of (rows @ [row]) = total_of rows - usd_of a + settled"
    "settled = (if VBool True = VBool True then cost_of ''actual_usd'' det else usd_of a)"
    using reconcile_settles [OF _ fs(1) s [unfolded settled0_def]] by auto
  then have "read_spend_rows fs' ledger0 = Inr (rows @ [row])" "total_of (rows @ [row]) = 2"
    using fs(2) by (auto simp: cost_of_def detail0_def dict_get_def number_of_def)
  with s show ?thesis by blast
qed

lemma closed0: "\<exists>fs. ledger_ok ledger0 fs \<and> read_spend_rows fs ledger0 = Inr [row0, row1]"
  using reserved0(2) settled0 by blast

theorem second_reconcile_refused_witness:
  "\<exists>fs. read_spend_rows fs ledger0 = Inr [row0, row1] \<and> settled0 fs = (fs, False)"
proof -
  obtain fs where fs: "read_spend_rows fs ledger0 = Inr [row0, row1]" using closed0 by blast
  have "settled0 fs = (fs, False)" unfolding settled0_def
    by (rule second_reconcile_refused [OF _ fs, where a = row0 and b = row1]) simp_all
  with fs show ?thesis by blast
qed

text \<open>A reconcile above the reservation: two dollars more than reserved.\<close>

definition detail_over :: dict where
  "detail_over = [(''reserved_usd'', VInt 3), (''actual_usd'', VInt 5)]"

definition row_over :: dict where
  "row_over = spend_row 6 tx0 2 ''m'' k_reconcile True (VDict detail_over)"

definition poisoned_fs :: ledger_fs where
  "poisoned_fs = [ledger0 \<mapsto> Reg 384 \<lparr>jlines = [Row (VDict row0), Row (VDict row_over)], torn = False\<rparr>]"

lemma poisoned: "ledger_ok ledger0 poisoned_fs" "read_spend_rows poisoned_fs ledger0 = Inr [row0, row_over]"
  "admission_blocker [row0, row_over] = Some ''cost_envelope_breached''"
proof -
  show "ledger_ok ledger0 poisoned_fs" by (simp add: ledger_ok_def poisoned_fs_def)
  have "plain_tree 0 (VDict row0)" "plain_tree 0 (VDict row_over)" by code_simp+
  then show "read_spend_rows poisoned_fs ledger0 = Inr [row0, row_over]"
    by (simp add: read_spend_rows_def poisoned_fs_def del: plain_tree.simps)
  show "admission_blocker [row0, row_over] = Some ''cost_envelope_breached''"
    by (simp add: row_blocker_def row0_def row_over_def)
qed

theorem poison_blocks_for_good_witness:
  "\<exists>rc. reserve_if_capacity no_env lab 18 WrOk (Inr (None, None)) 7 tx0 (VFloat 3) (VStr ''m'') k_reserve
     VNone VNone poisoned_fs = (poisoned_fs, rc) \<and> \<not> acknowledged rc"
proof -
  obtain fs2 rc where r: "reserve_if_capacity no_env lab 18 WrOk (Inr (None, None)) 7 tx0 (VFloat 3) (VStr ''m'')
      k_reserve VNone VNone poisoned_fs = (fs2, rc)" by fastforce
  from poison_blocks_for_good [OF _ poisoned rtranclp.rtrancl_refl r] r show ?thesis by simp
qed

definition garbled_fs :: ledger_fs where
  "garbled_fs = [ledger0 \<mapsto> Reg 384 \<lparr>jlines = [Bad], torn = False\<rparr>]"

theorem unreadable_is_exhausted_witness: "exhausted no_env lab garbled_fs = Inr True"
proof -
  have "opened garbled_fs ledger0 \<noteq> None" "bindR (read_spend_rows garbled_fs ledger0) ledger_total =
      Inl (JSONDecodeError ''Expecting value'')"
    by (simp_all add: garbled_fs_def read_spend_rows_def)
  from unreadable_is_exhausted [OF _ _ this] show ?thesis by simp
qed

end
