(* ===== verification/CallCost.thy ===== *)
theory CallCost
  imports CrossModelBudget
begin

text \<open>
  What a paid call may cost and what it did cost (\<open>estimate_call_usd\<close>, \<open>call_cost_envelope\<close> and
  \<open>usage_to_usd\<close> of \<open>verifier/cross_model_budget.py\<close>). The pricing catalog, whose module is not in
  the repository, is a parameter: which routed models it lists and the entry of each model.
\<close>

section \<open>The catalog\<close>

record catalog =
  routed_known :: "string \<Rightarrow> bool"
  routed_entry :: "string \<Rightarrow> dict result"
  anthropic_entry :: "string \<Rightarrow> dict result"
  deepseek_entry :: "string \<Rightarrow> dict result"
  deepseek_ceiling :: "dict result"

definition starts :: "string \<Rightarrow> string \<Rightarrow> bool" where
  "starts p s \<longleftrightarrow> take (length p) s = p"

definition entry_value :: "dict \<Rightarrow> string \<Rightarrow> pyv result" where
  "entry_value d k = (case map_of d k of None \<Rightarrow> Inl (KeyError k) | Some v \<Rightarrow> Inr v)"

definition in_price :: string where "in_price = ''input_per_token_usd''"
definition out_price :: string where "out_price = ''output_per_token_usd''"

definition priced :: "dict \<Rightarrow> int \<Rightarrow> int \<Rightarrow> rat result" where
  "priced d i j =
     bindR (bindR (entry_value d in_price) py_float) (\<lambda>a.
     bindR (bindR (entry_value d out_price) py_float) (\<lambda>b.
       Inr (of_int (max 0 i) * a + of_int (max 0 j) * b)))"

text \<open>The entry that prices a model: by its route, or by its family.\<close>

definition price_entry :: "catalog \<Rightarrow> string \<Rightarrow> dict result" where
  "price_entry cat model =
     (if CHR ''/'' \<in> set model
      then (let key = py_lower (py_strip model) in
            if \<not> routed_known cat key then Inl (KeyError ''unpriced openrouter model'')
            else routed_entry cat key)
      else if starts ''claude-'' model then anthropic_entry cat model
      else if starts ''deepseek-'' model then deepseek_ceiling cat
      else Inl (KeyError ''unpriced cross-model provider model''))"

definition estimate_call_usd :: "catalog \<Rightarrow> string \<Rightarrow> int \<Rightarrow> int \<Rightarrow> rat result" where
  "estimate_call_usd cat model i j = bindR (price_entry cat model) (\<lambda>d. priced d i j)"

definition usage_to_usd :: "env \<Rightarrow> catalog \<Rightarrow> pyv \<Rightarrow> string \<Rightarrow> rat result" where
  "usage_to_usd e cat usage model =
     (case usage of
        VDict u \<Rightarrow>
          (case bindR (py_int (py_or (dict_get u ''input_tokens'') (VInt 0))) (\<lambda>i.
                bindR (py_int (py_or (dict_get u ''output_tokens'') (VInt 0))) (\<lambda>j.
                  estimate_call_usd cat model i j)) of
             Inr r \<Rightarrow> Inr r
           | Inl (TypeError m) \<Rightarrow> absorb e (TypeError m) 0
           | Inl (ValueError m) \<Rightarrow> absorb e (ValueError m) 0
           | Inl x \<Rightarrow> Inl x)
      | _ \<Rightarrow> Inr 0)"

section \<open>The envelope\<close>

text \<open>
  \<open>shape\<close>: the family and the entry a model's envelope is drawn from. For \<open>deepseek-\<close> the entry of
  the peak tier, with the prices of the catalog's ceiling and a revision that says so.
\<close>

definition with_ceiling :: "dict \<Rightarrow> dict \<Rightarrow> dict result" where
  "with_ceiling d cl =
     bindR (entry_value cl in_price) (\<lambda>a. bindR (entry_value cl out_price) (\<lambda>b.
       Inr (dict_set (dict_set (dict_set d in_price a) out_price b) ''_last_verified_iso''
         (VStr ((case dict_get d ''_last_verified_iso'' of VStr s \<Rightarrow> s | _ \<Rightarrow> ''None'') @
                '':per-axis-catalog-ceiling'')))))"

definition shape :: "catalog \<Rightarrow> string \<Rightarrow> (string \<times> dict) result" where
  "shape cat model =
     (if CHR ''/'' \<in> set model
      then (if \<not> routed_known cat (py_lower model) then Inl (KeyError ''unpriced openrouter model'')
            else bindR (routed_entry cat (py_lower model)) (\<lambda>d. Inr (''openrouter'', d)))
      else if starts ''claude-'' model
      then bindR (anthropic_entry cat model) (\<lambda>d. Inr (''anthropic'', d))
      else if starts ''deepseek-'' model
      then bindR (deepseek_entry cat model) (\<lambda>d. bindR (deepseek_ceiling cat) (\<lambda>c.
             bindR (with_ceiling d c) (\<lambda>d'. Inr (''deepseek'', d'))))
      else Inl (KeyError ''unpriced cross-model provider model''))"

definition positive_int :: "pyv \<Rightarrow> int option" where
  "positive_int v = (case v of VInt i \<Rightarrow> if 0 < i then Some i else None | _ \<Rightarrow> None)"

definition envelope_core ::
  "string \<Rightarrow> string \<Rightarrow> string \<Rightarrow> int \<Rightarrow> int \<Rightarrow> rat \<Rightarrow> dict" where
  "envelope_core family model revision i j usd =
     [(''provider'', VStr family), (''model'', VStr model), (''pricing_revision'', VStr revision),
      (''max_input_tokens'', VInt i), (''max_output_tokens'', VInt j), (''paid_attempts'', VInt 1),
      (''fallbacks'', VInt 0), (''reserve_usd'', VFloat usd)]"

definition output_tokens :: "pyv \<Rightarrow> int \<Rightarrow> int result" where
  "output_tokens asked catalogued =
     (case (if asked = VNone then Some catalogued else positive_int asked) of
        Some j \<Rightarrow> if j \<le> catalogued then Inr j
                  else Inl (ValueError ''wire output ceiling is outside the priced catalog envelope'')
      | None \<Rightarrow> Inl (ValueError ''wire output ceiling is outside the priced catalog envelope''))"

definition call_cost_envelope ::
  "(string \<Rightarrow> string) \<Rightarrow> (rat \<Rightarrow> string) \<Rightarrow> catalog \<Rightarrow> pyv \<Rightarrow> pyv \<Rightarrow> pyv \<Rightarrow> dict result" where
  "call_cost_envelope sha fr cat model max_output attempts =
     (case model of
        VStr m \<Rightarrow>
          if py_strip m = [] then Inl (ValueError ''invalid envelope model'')
          else if attempts \<noteq> VInt 1
          then Inl (ValueError ''cross-model envelope requires exactly one paid attempt'')
          else bindR (shape cat (py_strip m)) (\<lambda>(family, d).
            (case (positive_int (dict_get d ''context_window_tokens''),
                   positive_int (dict_get d ''max_output_tokens'')) of
               (None, _) \<Rightarrow> Inl (ValueError ''pricing entry lacks a finite context window'')
             | (_, None) \<Rightarrow> Inl (ValueError ''pricing entry lacks a finite output ceiling'')
             | (Some i, Some catalogued) \<Rightarrow>
                 bindR (output_tokens max_output catalogued) (\<lambda>j.
                 (case dict_get d ''_last_verified_iso'' of
                    VStr revision \<Rightarrow>
                      if py_strip revision = []
                      then Inl (ValueError ''pricing entry has no verified revision'')
                      else bindR (estimate_call_usd cat (py_strip m) i j) (\<lambda>usd.
                           bindR (quantize_usd_ceiling (VFloat usd)) (\<lambda>reserve.
                             let core = envelope_core family (py_strip m) revision i j reserve
                             in Inr (core @ [(''envelope_sha256'', VStr (sha (json_text_raw fr (VDict core))))])))
                  | _ \<Rightarrow> Inl (ValueError ''pricing entry has no verified revision'')))))
      | _ \<Rightarrow> Inl (ValueError ''invalid envelope model''))"

section \<open>Lemmas\<close>

lemma priced_mono:
  assumes "priced d i j = Inr a" "priced d i' j' = Inr b" "i \<le> i'" "j \<le> j'"
    and "\<And>k r. k \<in> {in_price, out_price} \<Longrightarrow> bindR (entry_value d k) py_float = Inr r \<Longrightarrow> 0 \<le> r"
  shows "a \<le> b"
proof -
  obtain x y where x: "bindR (entry_value d in_price) py_float = Inr x"
    and y: "bindR (entry_value d out_price) py_float = Inr y"
    and a: "a = of_int (max 0 i) * x + of_int (max 0 j) * y"
    using assms(1) by (auto simp: priced_def)
  have b: "b = of_int (max 0 i') * x + of_int (max 0 j') * y"
    using assms(2) x y by (auto simp: priced_def)
  have "0 \<le> x" "0 \<le> y" using assms(5) x y by blast+
  moreover have "(of_int (max 0 i) :: rat) \<le> of_int (max 0 i')" "(of_int (max 0 j) :: rat) \<le> of_int (max 0 j')"
    using assms(3,4) by (auto simp del: of_int_max)
  ultimately show ?thesis unfolding a b by (intro add_mono mult_right_mono)
qed

lemma envelope_Inr:
  assumes "call_cost_envelope sha fr cat model max_output attempts = Inr env"
  obtains m family d revision i j usd where "model = VStr m" "shape cat (py_strip m) = Inr (family, d)"
    "0 < i" "dict_get d ''context_window_tokens'' = VInt i" "0 < j"
    "estimate_call_usd cat (py_strip m) i j = Inr usd" "0 \<le> usd"
    "env = envelope_core family (py_strip m) revision i j (ceil_8dp usd) @
       [(''envelope_sha256'', VStr (sha (json_text_raw fr
          (VDict (envelope_core family (py_strip m) revision i j (ceil_8dp usd))))))]"
proof -
  obtain m where m: "model = VStr m" "py_strip m \<noteq> []" "attempts = VInt 1"
    using assms by (auto simp: call_cost_envelope_def split: pyv.splits if_splits)
  obtain family d where d: "shape cat (py_strip m) = Inr (family, d)"
    using assms m by (auto simp: call_cost_envelope_def)
  obtain i c where i: "positive_int (dict_get d ''context_window_tokens'') = Some i"
    "positive_int (dict_get d ''max_output_tokens'') = Some c"
    using assms m d by (auto simp: call_cost_envelope_def split: option.splits)
  obtain j where j: "output_tokens max_output c = Inr j"
    using assms m d i by (auto simp: call_cost_envelope_def)
  obtain revision where rev: "dict_get d ''_last_verified_iso'' = VStr revision" "py_strip revision \<noteq> []"
    using assms m d i j by (auto simp: call_cost_envelope_def split: pyv.splits if_splits)
  obtain usd where u: "estimate_call_usd cat (py_strip m) i j = Inr usd"
    using assms m d i j rev by (auto simp: call_cost_envelope_def)
  have ij: "0 < i" "dict_get d ''context_window_tokens'' = VInt i" "0 < j"
    using i j by (auto simp: positive_int_def output_tokens_def split: pyv.splits if_splits option.splits)
  have "0 \<le> usd" "env = envelope_core family (py_strip m) revision i j (ceil_8dp usd) @
       [(''envelope_sha256'', VStr (sha (json_text_raw fr
          (VDict (envelope_core family (py_strip m) revision i j (ceil_8dp usd))))))]"
    using assms m d i j rev u by (auto simp: call_cost_envelope_def Let_def number_of_def dest: quantize_Inr)
  then show thesis using that [OF m(1) d ij u] by blast
qed

section \<open>Properties\<close>

text \<open>No model is priced below zero.\<close>

definition honest_prices :: "catalog \<Rightarrow> string \<Rightarrow> bool" where
  "honest_prices cat model \<longleftrightarrow>
     (case price_entry cat model of
        Inr d \<Rightarrow> (\<forall>k \<in> {in_price, out_price}. \<forall>r. bindR (entry_value d k) py_float = Inr r \<longrightarrow> 0 \<le> r)
      | Inl _ \<Rightarrow> True)"


text \<open>An unpriced model has no price: neither an envelope nor a bill can be drawn up for a model
  outside the catalog's routes and families, whatever its usage says.\<close>

theorem unpriced_model_raises:
  assumes "price_entry cat (py_strip m) = Inl (KeyError k)"
    and "token_count u ''input_tokens'' = Some i" and "token_count u ''output_tokens'' = Some j"
  shows "usage_to_usd e cat (VDict u) (py_strip m) = Inl (KeyError k) \<and>
    \<not> holds (call_cost_envelope sha fr cat (VStr m) max_output attempts) (\<lambda>_. True)"
proof -
  have toks: "py_int (py_or (dict_get u ''input_tokens'') (VInt 0)) = Inr i"
    "py_int (py_or (dict_get u ''output_tokens'') (VInt 0)) = Inr j"
    using assms(2,3) by (auto simp: token_count_def py_or_def split: pyv.splits if_splits)
  have "call_cost_envelope sha fr cat (VStr m) max_output attempts \<noteq> Inr env" for env
  proof
    assume "call_cost_envelope sha fr cat (VStr m) max_output attempts = Inr env"
    then show False
      by (rule envelope_Inr) (use assms(1) in \<open>simp add: estimate_call_usd_def\<close>)
  qed
  then show ?thesis using assms(1)
    by (auto simp: usage_to_usd_def toks estimate_call_usd_def holds_def split: sum.splits)
qed

section \<open>Witnesses\<close>

definition small_entry :: dict where
  "small_entry = [(in_price, VFloat (1 / 1000)), (out_price, VFloat (1 / 100)),
     (''context_window_tokens'', VInt 1000), (''max_output_tokens'', VInt 100),
     (''_last_verified_iso'', VStr ''2026-08-01'')]"

definition small_catalog :: catalog where
  "small_catalog = \<lparr>routed_known = (\<lambda>_. False), routed_entry = (\<lambda>_. Inl (KeyError [])),
     anthropic_entry = (\<lambda>_. Inr small_entry), deepseek_entry = (\<lambda>_. Inl (KeyError [])),
     deepseek_ceiling = Inl (KeyError [])\<rparr>"

definition small_usage :: dict where
  "small_usage = [(''input_tokens'', VInt 400), (''output_tokens'', VInt 50)]"

lemma claude [simp]:
  "py_strip ''claude-x'' = ''claude-x''" "price_entry small_catalog ''claude-x'' = Inr small_entry"
  "shape small_catalog ''claude-x'' = Inr (''anthropic'', small_entry)"
  by (code_simp, simp_all add: price_entry_def shape_def starts_def small_catalog_def)


theorem unpriced_model_raises_witness:
  "usage_to_usd no_env small_catalog (VDict small_usage) ''gpt'' =
     Inl (KeyError ''unpriced cross-model provider model'')"
proof -
  have s: "py_strip ''gpt'' = ''gpt''" by code_simp
  have p: "price_entry small_catalog (py_strip ''gpt'') = Inl (KeyError ''unpriced cross-model provider model'')"
    unfolding s by (simp add: price_entry_def starts_def)
  have t: "token_count small_usage ''input_tokens'' = Some 400" "token_count small_usage ''output_tokens'' = Some 50"
    by (simp_all add: token_count_def small_usage_def dict_get_def)
  from unpriced_model_raises [OF p t] s show ?thesis by simp
qed

end
