(* ===== verification/LineEdits.thy ===== *)
theory LineEdits
  imports FailFast
begin

text \<open>
  The line editor of the apply engine (\<open>enforcement/safe_auto_apply.py\<close>): reading a text with
  universal newlines, splitting it into lines, the tiers by which a line is matched (exact, then
  with whitespace collapsed, then by similarity under a gate), and the three edits. The similarity
  search of \<open>difflib\<close> is the parameter \<open>close\<close>.
\<close>

section \<open>Texts and lines\<close>

definition cr :: char where "cr = CHR 0x0D"
definition lf :: char where "lf = CHR 0x0A"

text \<open>\<open>read_text\<close>: a carriage return, with the line feed after it if there is one, reads as a line feed.\<close>

fun universal :: "string \<Rightarrow> string" where
  "universal [] = []"
| "universal [c] = [if c = cr then lf else c]"
| "universal (c # d # cs) =
     (if c = cr then (if d = lf then lf # universal cs else lf # universal (d # cs))
      else c # universal (d # cs))"

text \<open>The line boundaries of \<open>str.splitlines\<close> below 256.\<close>

definition line_break :: "char \<Rightarrow> bool" where
  "line_break c \<longleftrightarrow> char_code c \<in> {10, 11, 12, 13, 28, 29, 30, 133}"

fun split_acc :: "string \<Rightarrow> string \<Rightarrow> string list" where
  "split_acc acc [] = (if acc = [] then [] else [rev acc])"
| "split_acc acc [c] = [if line_break c then rev acc else rev (c # acc)]"
| "split_acc acc (c # d # cs) =
     (if line_break c then rev acc # (if c = cr \<and> d = lf then split_acc [] cs else split_acc [] (d # cs))
      else split_acc (c # acc) (d # cs))"

definition splitlines :: "string \<Rightarrow> string list" where
  "splitlines s = split_acc [] s"

definition join_lines :: "string list \<Rightarrow> string" where
  "join_lines ls = concat (map (\<lambda>l. l @ [lf]) ls)"

section \<open>Matching\<close>

definition fuzzy_match_enabled :: "env \<Rightarrow> bool" where
  "fuzzy_match_enabled e \<longleftrightarrow>
     py_lower (py_strip (getenv e ''AGI_V8_SAFE_AUTO_APPLY_FUZZY_MATCH'' [])) \<in> {''true'', ''1''}"

definition fuzzy_cutoff :: "env \<Rightarrow> rat result" where
  "fuzzy_cutoff e =
     (let raw = py_strip (getenv e ''AGI_V8_SAFE_AUTO_APPLY_FUZZY_CUTOFF'' []) in
      if raw = [] then Inr (6 / 10)
      else (case parse_float raw of
              None \<Rightarrow> absorb e (ValueError ''could not convert string to float'') (6 / 10)
            | Some v \<Rightarrow> Inr (min 1 (max (1 / 2) v))))"

type_synonym close_match = "string \<Rightarrow> string list \<Rightarrow> rat \<Rightarrow> string option"

definition rstrip_lf :: "string \<Rightarrow> string" where
  "rstrip_lf s = rstrip_where (\<lambda>c. c = lf) s"

text \<open>\<open>re.sub(r"\s+", " ", s)\<close>.\<close>

fun squeeze :: "bool \<Rightarrow> string \<Rightarrow> string" where
  "squeeze inside [] = []"
| "squeeze inside (c # cs) =
     (if py_space c then (if inside then squeeze True cs else CHR '' '' # squeeze True cs)
      else c # squeeze False cs)"

definition normal_line :: "string \<Rightarrow> string" where
  "normal_line s = squeeze False (py_strip s)"

fun first_index :: "('a \<Rightarrow> bool) \<Rightarrow> 'a list \<Rightarrow> nat option" where
  "first_index p [] = None"
| "first_index p (x # xs) = (if p x then Some 0 else map_option Suc (first_index p xs))"

definition flex_line_index :: "env \<Rightarrow> close_match \<Rightarrow> string list \<Rightarrow> string \<Rightarrow> nat option result" where
  "flex_line_index e close ls target =
     (case first_index (\<lambda>l. rstrip_lf l = rstrip_lf target) ls of
        Some i \<Rightarrow> Inr (Some i)
      | None \<Rightarrow>
          (case first_index (\<lambda>l. normal_line l = normal_line target) ls of
             Some i \<Rightarrow> Inr (Some i)
           | None \<Rightarrow>
               if \<not> fuzzy_match_enabled e then Inr None
               else bindR (fuzzy_cutoff e) (\<lambda>cutoff.
                 Inr (case close (py_strip target) (map py_strip ls) cutoff of
                        None \<Rightarrow> None
                      | Some s \<Rightarrow> first_index (\<lambda>l. l = s) (map py_strip ls)))))"

section \<open>Edits\<close>

text \<open>
  The new text, or \<open>None\<close> when no line matches and nothing is written. \<open>text\<close> is what
  \<open>read_text\<close> gave.
\<close>

definition insert_at :: "nat \<Rightarrow> 'a \<Rightarrow> 'a list \<Rightarrow> 'a list" where
  "insert_at i x xs = take i xs @ x # drop i xs"

definition delete_at :: "nat \<Rightarrow> 'a list \<Rightarrow> 'a list" where
  "delete_at i xs = take i xs @ drop (Suc i) xs"

definition flexible_replace_line ::
  "env \<Rightarrow> close_match \<Rightarrow> string \<Rightarrow> string \<Rightarrow> string \<Rightarrow> string option result" where
  "flexible_replace_line e close text target replacement =
     bindR (flex_line_index e close (splitlines text) target) (\<lambda>i. Inr (case i of
        None \<Rightarrow> None
      | Some i \<Rightarrow> Some (join_lines ((splitlines text)[i := replacement]))))"

definition flexible_insert_line ::
  "env \<Rightarrow> close_match \<Rightarrow> string \<Rightarrow> string \<Rightarrow> string \<Rightarrow> string \<Rightarrow> string option result" where
  "flexible_insert_line e close text anchor new position =
     (if py_strip anchor = [] then Inr (Some (join_lines (splitlines text @ [new])))
      else bindR (flex_line_index e close (splitlines text) anchor) (\<lambda>i. Inr (case i of
        None \<Rightarrow> None
      | Some i \<Rightarrow>
          Some (join_lines (insert_at (if position = ''before'' then i else Suc i) new (splitlines text))))))"

definition flexible_delete_line ::
  "env \<Rightarrow> close_match \<Rightarrow> string \<Rightarrow> string \<Rightarrow> string option result" where
  "flexible_delete_line e close text target =
     bindR (flex_line_index e close (splitlines text) target) (\<lambda>i. Inr (case i of
        None \<Rightarrow> None
      | Some i \<Rightarrow> Some (join_lines (delete_at i (splitlines text)))))"

section \<open>Lemmas\<close>

definition plain_line :: "string \<Rightarrow> bool" where
  "plain_line l \<longleftrightarrow> (\<forall>c \<in> set l. \<not> line_break c)"

lemma breaks [simp]: "line_break lf" "line_break cr" "lf \<noteq> cr" "cr \<noteq> lf"
  by (simp_all add: line_break_def lf_def cr_def char_code_def)

lemma universal_free: "cr \<notin> set s \<Longrightarrow> universal s = s"
  by (induction s rule: universal.induct) auto

lemma universal_no_cr: "cr \<notin> set (universal s)"
  by (induction s rule: universal.induct) auto

lemma universal_idem [simp]: "universal (universal s) = universal s"
  by (rule universal_free [OF universal_no_cr])

lemma split_acc_plain:
  "plain_line l \<Longrightarrow> split_acc acc (l @ lf # s) = (rev acc @ l) # split_acc [] s"
proof (induction l arbitrary: acc)
  case Nil
  then show ?case by (cases s) simp_all
next
  case (Cons c l)
  then have "\<not> line_break c" "plain_line l" by (simp_all add: plain_line_def)
  then show ?case using Cons.IH [of "c # acc"] by (cases l) auto
qed

text \<open>What the editor writes, it reads back.\<close>

lemma splitlines_join: "list_all plain_line ls \<Longrightarrow> splitlines (join_lines ls) = ls"
proof (induction ls)
  case (Cons l ls)
  then have "splitlines (join_lines (l # ls)) = split_acc [] (l @ lf # join_lines ls)"
    by (simp add: splitlines_def join_lines_def)
  then show ?case using Cons by (simp add: split_acc_plain splitlines_def)
qed (simp add: splitlines_def join_lines_def)

lemma split_acc_plain_lines: "plain_line (rev acc) \<Longrightarrow> list_all plain_line (split_acc acc s)"
proof (induction acc s rule: split_acc.induct)
  case (3 acc c d cs)
  then show ?case by (auto simp: plain_line_def)
qed (auto simp: plain_line_def)

lemma splitlines_plain: "list_all plain_line (splitlines s)"
  by (simp add: splitlines_def split_acc_plain_lines plain_line_def)

lemma plain_no_cr: "plain_line l \<Longrightarrow> cr \<notin> set l"
  using breaks(2) by (auto simp: plain_line_def)

lemma join_lines_no_cr: "list_all plain_line ls \<Longrightarrow> cr \<notin> set (join_lines ls)"
  by (induction ls) (simp_all add: join_lines_def plain_no_cr)

lemma first_index_Some:
  "first_index p xs = Some i \<longleftrightarrow> i < length xs \<and> p (xs ! i) \<and> (\<forall>j < i. \<not> p (xs ! j))"
proof (induction xs arbitrary: i)
  case (Cons x xs)
  then show ?case by (cases i) (auto simp: less_Suc_eq_0_disj)
qed simp

lemma delete_insert_at: "i \<le> length xs \<Longrightarrow> delete_at i (insert_at i x xs) = xs"
  by (simp add: delete_at_def insert_at_def)

lemma insert_at_nth:
  "i \<le> length xs \<Longrightarrow> insert_at i x xs ! i = x"
  "j < i \<Longrightarrow> i \<le> length xs \<Longrightarrow> insert_at i x xs ! j = xs ! j"
  by (simp_all add: insert_at_def nth_append)

lemma insert_at_plain:
  "list_all plain_line xs \<Longrightarrow> plain_line x \<Longrightarrow> list_all plain_line (insert_at i x xs)"
  by (auto simp: insert_at_def list_all_iff dest: in_set_takeD in_set_dropD)

lemma flex_exact:
  "first_index (\<lambda>l. rstrip_lf l = rstrip_lf t) ls = Some i \<Longrightarrow> flex_line_index e close ls t = Inr (Some i)"
  by (simp add: flex_line_index_def)

lemma flex_bound: "flex_line_index e close ls t = Inr (Some i) \<Longrightarrow> i < length ls"
  by (auto simp: flex_line_index_def first_index_Some split: option.splits if_splits)

section \<open>Properties\<close>

text \<open>Deleting an inserted line undoes the insertion: when the insertion of a line succeeds and no
  line of the text equals the new one, the deletion of that line gives back exactly the lines the
  text had.\<close>

theorem insert_then_delete:
  assumes "flexible_insert_line e close text anchor new position = Inr (Some text')"
    and "plain_line new"
    and "\<forall>l \<in> set (splitlines text). rstrip_lf l \<noteq> rstrip_lf new"
  shows "\<exists>text''. flexible_delete_line e close (universal text') new = Inr (Some text'') \<and>
    splitlines text'' = splitlines text"
proof -
  let ?ls = "splitlines text"
  obtain i where i: "i \<le> length ?ls" "text' = join_lines (insert_at i new ?ls)"
  proof (cases "py_strip anchor = []")
    case True
    then show ?thesis using assms(1) that [of "length ?ls"]
      by (simp add: flexible_insert_line_def insert_at_def)
  next
    case False
    then obtain k where "flex_line_index e close ?ls anchor = Inr (Some k)"
      "text' = join_lines (insert_at (if position = ''before'' then k else Suc k) new ?ls)"
      using assms(1) by (auto simp: flexible_insert_line_def split: option.splits)
    then show ?thesis
      using that [of "if position = ''before'' then k else Suc k"] flex_bound [of e close ?ls anchor k] by simp
  qed
  have plain: "list_all plain_line (insert_at i new ?ls)"
    by (rule insert_at_plain [OF splitlines_plain assms(2)])
  then have "cr \<notin> set text'"
    unfolding i(2) by (rule join_lines_no_cr)
  then have lines: "splitlines (universal text') = insert_at i new ?ls"
    by (simp add: universal_free) (simp add: i(2) splitlines_join [OF plain])
  have "first_index (\<lambda>l. rstrip_lf l = rstrip_lf new) (insert_at i new ?ls) = Some i"
    using i(1) assms(3) by (auto simp: first_index_Some insert_at_nth insert_at_def [of i new ?ls]
        nth_append min_def)
  then have "flexible_delete_line e close (universal text') new = Inr (Some (join_lines ?ls))"
    by (simp add: flexible_delete_line_def lines flex_exact delete_insert_at [OF i(1)])
  then show ?thesis by (simp add: splitlines_join splitlines_plain)
qed

theorem insert_then_delete_witness:
  "\<exists>t. flexible_insert_line no_env (\<lambda>_ _ _. None) (''a'' @ [lf, CHR ''b'']) ''a'' ''x'' ''after'' = Inr (Some t) \<and>
     (\<exists>u. flexible_delete_line no_env (\<lambda>_ _ _. None) (universal t) ''x'' = Inr (Some u) \<and>
       splitlines u = [''a'', ''b''])"
proof -
  define s where "s = ''a'' @ [lf, CHR ''b'']"
  have sp: "splitlines s = [''a'', ''b'']" unfolding s_def by code_simp
  have "first_index (\<lambda>l. rstrip_lf l = rstrip_lf ''a'') (splitlines s) = Some 0" unfolding sp by code_simp
  then have "flex_line_index no_env (\<lambda>_ _ _. None) (splitlines s) ''a'' = Inr (Some 0)" by (rule flex_exact)
  moreover have "py_strip ''a'' \<noteq> []" by code_simp
  ultimately have ins: "flexible_insert_line no_env (\<lambda>_ _ _. None) s ''a'' ''x'' ''after'' =
      Inr (Some (join_lines [''a'', ''x'', ''b'']))"
    by (simp add: flexible_insert_line_def sp insert_at_def)
  have "plain_line ''x''" "\<forall>l \<in> set (splitlines s). rstrip_lf l \<noteq> rstrip_lf ''x''"
    unfolding sp plain_line_def by code_simp+
  from insert_then_delete [OF ins this] ins sp show ?thesis unfolding s_def by simp
qed

end
