(* ===== verification/ApplySession.thy ===== *)
theory ApplySession
  imports PathGuard LineEdits GateInvariants Json
begin

text \<open>
  The apply engine's session (\<open>enforcement/safe_auto_apply.py\<close>): which changes are refused, how a
  change is applied behind a verified backup, and how a session that failed is rolled back. Files
  hold texts; directories are not created or removed. The hash, the listing of a file's backups,
  the timestamps of the backups, which writes fail, the Python parser and the similarity search are
  the fields of the parameter \<open>world\<close>. The write-ahead trail and the audit rows are side records the
  engine never acts on, and are left out.
\<close>

section \<open>Changes and the engine\<close>

record change =
  ch_path :: string
  ch_action :: string
  ch_content :: string
  ch_target :: string
  ch_replacement :: string
  ch_position :: string
  ch_expected :: string

record applier =
  ap_root :: "string list"
  ap_files :: "string list"
  ap_dirs :: "string list"
  ap_dry :: bool
  ap_retention :: nat
  ap_max :: nat

record world =
  w_sha :: "string \<Rightarrow> string"
  w_listing :: "string fs \<Rightarrow> path \<Rightarrow> path list"
  w_stamp :: "nat \<Rightarrow> string"
  w_fault :: "nat \<Rightarrow> bool"
  w_parses :: "string \<Rightarrow> bool"
  w_close :: close_match

text \<open>\<open>s_known\<close> are the hashes of the backups this engine wrote, the latest first; \<open>s_ops\<close> counts writes.\<close>

record sess =
  s_fs :: "string fs"
  s_backups :: "(path \<times> path) list"
  s_creates :: "path list"
  s_known :: "(path \<times> string) list"
  s_writes :: nat
  s_ops :: nat

definition session_hardening_enabled :: "env \<Rightarrow> bool" where
  "session_hardening_enabled e \<longleftrightarrow>
     py_lower (py_strip (getenv e ''AGI_V8_SAFE_AUTO_APPLY_SESSION_HARDENING'' [])) \<notin> {''false'', ''0''}"

definition session_write_recheck_enabled :: "env \<Rightarrow> bool" where
  "session_write_recheck_enabled e \<longleftrightarrow>
     py_lower (py_strip (getenv e ''AGI_V8_SAFE_AUTO_APPLY_SESSION_WRITE_RECHECK'' [])) \<in> {''true'', ''1''}"

definition py_syntax_check_enabled :: "env \<Rightarrow> bool" where
  "py_syntax_check_enabled e \<longleftrightarrow>
     py_lower (py_strip (getenv e ''AGI_V8_SAFE_AUTO_APPLY_PY_SYNTAX_CHECK'' [])) \<in> {''true'', ''1''}"

section \<open>Protected paths\<close>

definition protected_files :: "string list" where
  "protected_files =
     [''agi_v8_1/enforcement/safe_auto_apply.py'', ''agi_v8_1/enforcement/destructive_command_policy.py'',
      ''agi_v8_1/enforcement/executor_command_policy.py'', ''agi_v8_1/enforcement/apply_chain_full.py'',
      ''agi_v8_1/core/apply_chain.py'', ''.env'', ''config.py'', ''state/goal_card.json'',
      ''state/memory_store.json'', ''state/state_store.json'', ''.gitignore'']"

definition protected_dirs :: "string list" where
  "protected_dirs = [''runs/'', ''state/'', ''__pycache__/'', ''.git/'']"

definition additional_protected_files :: "string list" where
  "additional_protected_files =
     [''si_lanes/verify_gate.py'', ''si_lanes/verify_isolation.py'', ''si_lanes/promote.py'',
      ''enforcement/command_executor.py'', ''runtime/halt_sentinel.py'', ''runtime/daily_cost_cap.py'']"

fun strip_dot_slash :: "string \<Rightarrow> string" where
  "strip_dot_slash (a # b # cs) =
     (if a = CHR ''.'' \<and> b = slash then strip_dot_slash cs else a # b # cs)"
| "strip_dot_slash s = s"

definition package_prefix :: string where "package_prefix = ''agi_v8_1/''"

definition spellings :: "env \<Rightarrow> string \<Rightarrow> string list" where
  "spellings e rel =
     (let r = strip_dot_slash (map (\<lambda>c. if c = CHR 0x5C then slash else c) rel) in
      if \<not> session_hardening_enabled e then [r]
      else if prefix package_prefix r then [r, drop (length package_prefix) r]
      else [r, package_prefix @ r])"

definition protected_reason :: "env \<Rightarrow> applier \<Rightarrow> string \<Rightarrow> string option" where
  "protected_reason e ap rel =
     (let cs = spellings e rel;
          files = ap_files ap @ (if session_hardening_enabled e then additional_protected_files else [])
      in if list_ex (\<lambda>c. c \<in> set files) cs then Some (''Protected file: '' @ rel)
         else if list_ex (\<lambda>p. list_ex (\<lambda>c. c = rstrip_slash p \<or> prefix p c) cs) (ap_dirs ap)
         then Some (''Protected dir: '' @ rel)
         else None)"

section \<open>Paths of changes\<close>

definition rel_posix :: "string list \<Rightarrow> string" where
  "rel_posix cs = (if cs = [] then ''.'' else tl (render cs))"

definition nul :: char where "nul = CHR 0x00"

definition resolve_change_path ::
  "env \<Rightarrow> applier \<Rightarrow> string fs \<Rightarrow> string \<Rightarrow> (string list \<times> string) option result" where
  "resolve_change_path e ap fs p =
     (if nul \<in> set p \<or> is_absolute p then Inr None
      else (let full = resolve fs (ap_root ap @ comps p) in
            if prefix (ap_root ap) full
            then Inr (Some (full, rel_posix (drop (length (ap_root ap)) full)))
            else absorb e (ValueError ''not in the subpath'') None))"

fun has_link :: "string fs \<Rightarrow> string list \<Rightarrow> string list \<Rightarrow> string list \<Rightarrow> bool" where
  "has_link fs base cursor [] = False"
| "has_link fs base cursor (c # cs) =
     (if c = ''..'' then (if cursor = base then True else has_link fs base (butlast cursor) cs)
      else if is_link fs (cursor @ [c]) then True
      else has_link fs base (cursor @ [c]) cs)"

definition path_has_symlink_component :: "applier \<Rightarrow> string fs \<Rightarrow> string \<Rightarrow> bool" where
  "path_has_symlink_component ap fs p \<longleftrightarrow>
     nul \<in> set p \<or> has_link fs (ap_root ap) (ap_root ap) (comps p)"

section \<open>Validation\<close>

definition blank :: "string \<Rightarrow> bool" where "blank s \<longleftrightarrow> py_strip s = []"

definition valid_digest :: "string \<Rightarrow> bool" where
  "valid_digest s \<longleftrightarrow> length s = 64 \<and> list_all (\<lambda>c. c \<in> set ''0123456789abcdef'') s"

text \<open>The reason a change is refused, if any.\<close>

definition validate_change :: "env \<Rightarrow> applier \<Rightarrow> string fs \<Rightarrow> change \<Rightarrow> string option result" where
  "validate_change e ap fs c =
     (let p = ch_path c; act = ch_action c in
      if p = [] then Inr (Some ''Empty path in FileChange'')
      else case protected_reason e ap p of
        Some r \<Rightarrow> Inr (Some r)
      | None \<Rightarrow> bindR (resolve_change_path e ap fs p) (\<lambda>res. Inr (case res of
          None \<Rightarrow> Some (''Path escape: '' @ p)
        | Some (full, rel) \<Rightarrow>
            if path_has_symlink_component ap fs p then Some (''Symlink path: '' @ p)
            else case protected_reason e ap rel of
              Some r \<Rightarrow> Some r
            | None \<Rightarrow>
                if (act = ''create'' \<or> act = ''edit'') \<and> blank (ch_content c)
                then Some (''Empty content: '' @ p)
                else if ch_expected c \<noteq> [] \<and> (act \<noteq> ''edit'' \<or> \<not> valid_digest (ch_expected c))
                then Some (''Invalid expected preimage: '' @ p)
                else if act = ''insert_line'' \<and> blank (ch_content c)
                then Some (''Empty insert content: '' @ p)
                else if act = ''delete_line'' \<and> blank (ch_target c)
                then Some (''Empty delete target: '' @ p)
                else None)))"

fun validate_changes :: "env \<Rightarrow> applier \<Rightarrow> string fs \<Rightarrow> change list \<Rightarrow> string list result" where
  "validate_changes e ap fs [] = Inr []"
| "validate_changes e ap fs (c # cs) =
     bindR (validate_change e ap fs c) (\<lambda>r. bindR (validate_changes e ap fs cs) (\<lambda>rs.
       Inr (case r of None \<Rightarrow> rs | Some m \<Rightarrow> m # rs)))"

fun survivors :: "env \<Rightarrow> applier \<Rightarrow> string fs \<Rightarrow> change list \<Rightarrow> change list result" where
  "survivors e ap fs [] = Inr []"
| "survivors e ap fs (c # cs) =
     bindR (validate_changes e ap fs [c]) (\<lambda>rs. bindR (survivors e ap fs cs) (\<lambda>ok.
       Inr (if rs = [] then c # ok else ok)))"

section \<open>Files\<close>

definition read_text :: "string fs \<Rightarrow> path \<Rightarrow> string result" where
  "read_text fs p =
     (case opened fs p of
        Some (Reg _ c) \<Rightarrow> Inr (universal c)
      | None \<Rightarrow> Inl (FileNotFound p)
      | Some _ \<Rightarrow> Inl (OSError ''Is a directory''))"

text \<open>\<open>_read_bytes_nofollow\<close>: the bytes themselves, and no link followed.\<close>

definition read_bytes_nofollow :: "string fs \<Rightarrow> path \<Rightarrow> string result" where
  "read_bytes_nofollow fs p =
     (case fs p of
        Some (Reg _ c) \<Rightarrow> Inr c
      | None \<Rightarrow> Inl (FileNotFound p)
      | Some _ \<Rightarrow> Inl (OSError ''ELOOP''))"

definition set_fs :: "string fs \<Rightarrow> sess \<Rightarrow> sess" where
  "set_fs fs st = st\<lparr>s_fs := fs\<rparr>"

text \<open>
  \<open>_safe_write_text\<close>: through a temporary file, so a write that fails leaves the target as it was.
  A rewritten file keeps its mode when the hardening is on.
\<close>

definition safe_write :: "env \<Rightarrow> world \<Rightarrow> sess \<Rightarrow> path \<Rightarrow> string \<Rightarrow> sess \<times> unit result" where
  "safe_write e w st p text =
     (case s_fs st p of
        Some (Link _) \<Rightarrow> (st, Inl (ValueError (''refusing symlink write target: '' @ p)))
      | node \<Rightarrow>
          (let st1 = st\<lparr>s_ops := Suc (s_ops st)\<rparr>;
               mode = (case node of Some (Reg m _) \<Rightarrow> if session_hardening_enabled e then m else 384 | _ \<Rightarrow> 384)
           in if w_fault w (s_ops st) \<or> node = Some Dir then (st1, Inl (OSError ''write''))
              else (set_fs ((s_fs st)(p \<mapsto> Reg mode text)) st1, Inr ())))"

definition backup_path :: "world \<Rightarrow> path \<Rightarrow> nat \<Rightarrow> path" where
  "backup_path w p n = p @ ''.bak.'' @ w_stamp w n"

fun prune :: "env \<Rightarrow> path list \<Rightarrow> string fs \<Rightarrow> string fs \<times> unit result" where
  "prune e [] fs = (fs, Inr ())"
| "prune e (p # ps) fs =
     (case fs p of
        Some Dir \<Rightarrow> (case absorb e (OSError ''unlink'') () of
                      Inl x \<Rightarrow> (fs, Inl x) | Inr _ \<Rightarrow> prune e ps fs)
      | _ \<Rightarrow> prune e ps (fs(p := None)))"

definition prune_backups :: "env \<Rightarrow> world \<Rightarrow> applier \<Rightarrow> sess \<Rightarrow> path \<Rightarrow> sess \<times> unit result" where
  "prune_backups e w ap st p =
     (let found = w_listing w (s_fs st) p;
          (fs', r) = prune e (take (length found - ap_retention ap) found) (s_fs st)
      in (set_fs fs' st, r))"

definition disk_backup ::
  "env \<Rightarrow> world \<Rightarrow> applier \<Rightarrow> sess \<Rightarrow> path \<Rightarrow> string \<Rightarrow> sess \<times> unit result" where
  "disk_backup e w ap st p old =
     (let bak = backup_path w p (s_ops st) in
      case safe_write e w st bak old of
        (st1, Inl x) \<Rightarrow> (st1, Inl x)
      | (st1, Inr _) \<Rightarrow>
          (case read_text (s_fs st1) bak of
             Inl x \<Rightarrow> (st1, Inl x)
           | Inr back \<Rightarrow>
               if back \<noteq> old
               then (set_fs ((s_fs st1)(bak := None)) st1,
                     Inl (RuntimeError (''disk_backup_verify_failed: '' @ bak)))
               else prune_backups e w ap
                      (st1\<lparr>s_known := (bak, w_sha w old) # s_known st1,
                           s_backups := s_backups st1 @ [(p, bak)]\<rparr>) p))"

section \<open>Applying one change\<close>

definition with_backup ::
  "env \<Rightarrow> world \<Rightarrow> applier \<Rightarrow> sess \<Rightarrow> path \<Rightarrow> (sess \<Rightarrow> sess \<times> bool result) \<Rightarrow> sess \<times> bool result" where
  "with_backup e w ap st p k =
     (if opened (s_fs st) p = None then (st, Inr False)
      else case read_text (s_fs st) p of
        Inl x \<Rightarrow> (st, Inl x)
      | Inr old \<Rightarrow>
          (case disk_backup e w ap st p old of
             (st1, Inl x) \<Rightarrow> (st1, Inl x)
           | (st1, Inr _) \<Rightarrow> k st1))"

definition write_true :: "env \<Rightarrow> world \<Rightarrow> path \<Rightarrow> string \<Rightarrow> sess \<Rightarrow> sess \<times> bool result" where
  "write_true e w p text st =
     (case safe_write e w st p text of (st', r) \<Rightarrow> (st', bindR r (\<lambda>_. Inr True)))"

definition unlink :: "path \<Rightarrow> sess \<Rightarrow> sess \<times> bool result" where
  "unlink p st =
     (case s_fs st p of
        None \<Rightarrow> (st, Inl (FileNotFound p))
      | Some Dir \<Rightarrow> (st, Inl (OSError ''Is a directory''))
      | Some _ \<Rightarrow> (set_fs ((s_fs st)(p := None)) st, Inr True))"

definition line_edit ::
  "env \<Rightarrow> world \<Rightarrow> path \<Rightarrow> (string \<Rightarrow> string option result) \<Rightarrow> sess \<Rightarrow> sess \<times> bool result" where
  "line_edit e w p f st =
     (case bindR (read_text (s_fs st) p) f of
        Inl x \<Rightarrow> (st, Inl x)
      | Inr None \<Rightarrow> (st, Inr False)
      | Inr (Some t) \<Rightarrow> write_true e w p t st)"

definition dispatch :: "env \<Rightarrow> world \<Rightarrow> applier \<Rightarrow> sess \<Rightarrow> change \<Rightarrow> path \<Rightarrow> sess \<times> bool result" where
  "dispatch e w ap st c p =
     (let act = ch_action c in
      if act = ''create''
      then (if opened (s_fs st) p \<noteq> None then (st, Inr False)
            else case safe_write e w st p (ch_content c) of
              (st1, Inl x) \<Rightarrow> (st1, Inl x)
            | (st1, Inr _) \<Rightarrow>
                (if session_hardening_enabled e then st1\<lparr>s_creates := s_creates st1 @ [p]\<rparr> else st1, Inr True))
      else if act = ''edit'' then with_backup e w ap st p (write_true e w p (ch_content c))
      else if act = ''delete'' then with_backup e w ap st p (unlink p)
      else if act = ''replace_line''
      then with_backup e w ap st p (line_edit e w p
             (\<lambda>t. flexible_replace_line e (w_close w) t (ch_target c) (ch_replacement c)))
      else if act = ''insert_line''
      then with_backup e w ap st p (line_edit e w p
             (\<lambda>t. flexible_insert_line e (w_close w) t (ch_target c) (ch_content c) (ch_position c)))
      else if act = ''delete_line''
      then with_backup e w ap st p (line_edit e w p
             (\<lambda>t. flexible_delete_line e (w_close w) t (ch_target c)))
      else (st, Inr False))"

text \<open>The compare-and-swap on the bytes a verdict was reached over.\<close>

definition preimage_ok :: "env \<Rightarrow> world \<Rightarrow> string fs \<Rightarrow> change \<Rightarrow> path \<Rightarrow> bool result" where
  "preimage_ok e w fs c p =
     (if ch_expected c = [] then Inr True
      else if ch_action c \<noteq> ''edit'' then Inr False
      else case read_bytes_nofollow fs p of
        Inl x \<Rightarrow> absorb e x False
      | Inr current \<Rightarrow> Inr (w_sha w current = ch_expected c))"

definition has_py_suffix :: "string list \<Rightarrow> bool" where
  "has_py_suffix cs \<longleftrightarrow> cs \<noteq> [] \<and> 3 < length (List.last cs) \<and> suffix ''.py'' (List.last cs)"

definition syntax_ok :: "env \<Rightarrow> world \<Rightarrow> change \<Rightarrow> string list \<Rightarrow> bool result" where
  "syntax_ok e w c full =
     (if py_syntax_check_enabled e \<and> (ch_action c = ''create'' \<or> ch_action c = ''edit'') \<and> has_py_suffix full \<and>
         \<not> w_parses w (ch_content c)
      then absorb e (ValueError ''invalid syntax'') False else Inr True)"

definition apply_change :: "env \<Rightarrow> world \<Rightarrow> applier \<Rightarrow> sess \<Rightarrow> change \<Rightarrow> sess \<times> bool result" where
  "apply_change e w ap st c =
     (if ap_dry ap then (st, Inr True)
      else case resolve_change_path e ap (s_fs st) (ch_path c) of
        Inl x \<Rightarrow> (st, Inl x)
      | Inr None \<Rightarrow> (st, Inr False)
      | Inr (Some (full, rel)) \<Rightarrow>
          if path_has_symlink_component ap (s_fs st) (ch_path c) \<or> protected_reason e ap rel \<noteq> None
          then (st, Inr False)
          else (case bindR (preimage_ok e w (s_fs st) c (render full)) (\<lambda>ok.
                       if ok then syntax_ok e w c full else Inr False) of
                  Inl x \<Rightarrow> (st, Inl x)
                | Inr False \<Rightarrow> (st, Inr False)
                | Inr True \<Rightarrow> dispatch e w ap st c (render full)))"

section \<open>The session\<close>

fun run_changes ::
  "env \<Rightarrow> world \<Rightarrow> applier \<Rightarrow> sess \<Rightarrow> nat \<Rightarrow> string list \<Rightarrow> change list
    \<Rightarrow> sess \<times> (nat \<times> string list) result" where
  "run_changes e w ap st n errs [] = (st, Inr (n, errs))"
| "run_changes e w ap st n errs (c # cs) =
     (let counted = session_hardening_enabled e \<and> \<not> ap_dry ap in
      if counted \<and> ap_max ap \<le> s_writes st
      then run_changes e w ap st n (errs @ [''rate_limited: '' @ ch_path c]) cs
      else case apply_change e w ap st c of
        (st1, Inr True) \<Rightarrow>
          run_changes e w ap (if counted then st1\<lparr>s_writes := Suc (s_writes st1)\<rparr> else st1) (Suc n) errs cs
      | (st1, Inr False) \<Rightarrow> run_changes e w ap st1 n (errs @ [''Apply returned False: '' @ ch_path c]) cs
      | (st1, Inl x) \<Rightarrow>
          if strict_enabled e then (st1, Inl x)
          else run_changes e w ap st1 n (errs @ [''Failed to apply '' @ ch_path c]) cs)"

text \<open>One step of a rollback gives nothing, or the path it could not restore and why.\<close>

type_synonym fault_note = "path \<times> string"

fun undo_all ::
  "(sess \<Rightarrow> 'a \<Rightarrow> sess \<times> fault_note option result) \<Rightarrow> sess \<Rightarrow> fault_note list \<Rightarrow> 'a list
    \<Rightarrow> sess \<times> fault_note list result" where
  "undo_all f st out [] = (st, Inr out)"
| "undo_all f st out (x # xs) =
     (case f st x of
        (st1, Inl y) \<Rightarrow> (st1, Inl y)
      | (st1, Inr None) \<Rightarrow> undo_all f st1 out xs
      | (st1, Inr (Some m)) \<Rightarrow> undo_all f st1 (out @ [m]) xs)"

definition restore_one ::
  "env \<Rightarrow> world \<Rightarrow> sess \<Rightarrow> path \<times> path \<Rightarrow> sess \<times> fault_note option result" where
  "restore_one e w st tb =
     (let (t, bak) = tb in
      case map_of (s_known st) bak of
        None \<Rightarrow> (st, Inr (Some (t, ''bak_unverified'')))
      | Some expected \<Rightarrow>
          (case read_bytes_nofollow (s_fs st) bak of
             Inl x \<Rightarrow> (st, absorb e x (Some (t, ''session_revert_failed'')))
           | Inr data \<Rightarrow>
               if w_sha w data \<noteq> expected then (st, Inr (Some (t, ''bak_tampered'')))
               else (case safe_write e w st t data of
                       (st1, Inl x) \<Rightarrow> (st1, absorb e x (Some (t, ''session_revert_failed'')))
                     | (st1, Inr _) \<Rightarrow> (st1, Inr None))))"

definition remove_created :: "env \<Rightarrow> sess \<Rightarrow> path \<Rightarrow> sess \<times> fault_note option result" where
  "remove_created e st p =
     (case s_fs st p of
        None \<Rightarrow> (st, Inr None)
      | Some (Link _) \<Rightarrow> (st, Inr (Some (p, ''symlink_at_create_target'')))
      | Some Dir \<Rightarrow> (st, absorb e (OSError ''unlink'') (Some (p, ''session_revert_failed'')))
      | Some (Reg _ _) \<Rightarrow> (set_fs ((s_fs st)(p := None)) st, Inr None))"

definition rollback :: "env \<Rightarrow> world \<Rightarrow> bool \<Rightarrow> sess \<Rightarrow> sess \<times> fault_note list result" where
  "rollback e w creates_too st =
     (case undo_all (restore_one e w) st [] (rev (s_backups st)) of
        (st1, Inl x) \<Rightarrow> (st1, Inl x)
      | (st1, Inr out) \<Rightarrow>
          if creates_too then undo_all (remove_created e) st1 out (rev (s_creates st)) else (st1, Inr out))"

definition hash_path :: "world \<Rightarrow> string fs \<Rightarrow> path \<Rightarrow> string" where
  "hash_path w fs p = (case opened fs p of Some (Reg _ c) \<Rightarrow> w_sha w c | _ \<Rightarrow> [])"

definition snapshot_hash :: "world \<Rightarrow> applier \<Rightarrow> string fs \<Rightarrow> string \<Rightarrow> string" where
  "snapshot_hash w ap fs p = hash_path w fs (render (resolve fs (ap_root ap @ comps p)))"

definition aggregate_hash :: "world \<Rightarrow> applier \<Rightarrow> string fs \<Rightarrow> change list \<Rightarrow> string" where
  "aggregate_hash w ap fs cs =
     w_sha w (concat (map (\<lambda>p. p @ '':'' @ snapshot_hash w ap fs p @ [lf]) (sort (remdups (map ch_path cs)))))"

record apply_result =
  ar_success :: bool
  ar_reverted :: bool
  ar_applied :: nat
  ar_errors :: "string list"
  ar_attempted :: bool
  ar_complete :: bool
  ar_rollback_errors :: "string list"
  ar_residual :: "path list"
  ar_pre :: string
  ar_post :: string

definition all_refused :: "string list \<Rightarrow> apply_result" where
  "all_refused errs =
     \<lparr>ar_success = False, ar_reverted = False, ar_applied = 0, ar_errors = errs, ar_attempted = False,
      ar_complete = False, ar_rollback_errors = [], ar_residual = [], ar_pre = [], ar_post = []\<rparr>"

definition session_result ::
  "env \<Rightarrow> world \<Rightarrow> applier \<Rightarrow> change list \<Rightarrow> string \<Rightarrow> nat \<Rightarrow> string list \<Rightarrow> bool \<Rightarrow> fault_note list \<Rightarrow> sess
    \<Rightarrow> apply_result" where
  "session_result e w ap cs pre n errs reverted faults st =
     (let hard = session_hardening_enabled e; post = aggregate_hash w ap (s_fs st) cs;
          all_errs = errs @ map snd faults; attempted = (hard \<and> reverted)
      in \<lparr>ar_success = (n = length cs \<and> all_errs = []), ar_reverted = reverted, ar_applied = n,
          ar_errors = all_errs, ar_attempted = attempted,
          ar_complete = (attempted \<and> faults = [] \<and> post = pre),
          ar_rollback_errors = (if hard then map snd faults else []),
          ar_residual = (if hard then map fst faults else []), ar_pre = pre, ar_post = post\<rparr>)"

definition run_session ::
  "env \<Rightarrow> world \<Rightarrow> applier \<Rightarrow> sess \<Rightarrow> string list \<Rightarrow> change list \<Rightarrow> sess \<times> apply_result result" where
  "run_session e w ap st errs cs =
     (let pre = aggregate_hash w ap (s_fs st) cs in
      case run_changes e w ap st 0 errs cs of
        (st1, Inl x) \<Rightarrow> (st1, Inl x)
      | (st1, Inr (n, errs1)) \<Rightarrow>
          (let failed = (n < length cs); hard = session_hardening_enabled e in
           if errs1 \<noteq> [] \<and> (s_backups st1 \<noteq> [] \<or> hard \<and> failed \<and> s_creates st1 \<noteq> [])
           then (case rollback e w (hard \<and> failed) st1 of
                   (st2, Inl x) \<Rightarrow> (st2, Inl x)
                 | (st2, Inr faults) \<Rightarrow>
                     (st2, Inr (session_result e w ap cs pre n errs1 True faults st2)))
           else (st1, Inr (session_result e w ap cs pre n errs1 False [] st1))))"

definition apply_session ::
  "env \<Rightarrow> world \<Rightarrow> applier \<Rightarrow> sess \<Rightarrow> change list \<Rightarrow> sess \<times> apply_result result" where
  "apply_session e w ap0 st cs =
     (let forced = (session_write_recheck_enabled e \<and> \<not> ap_dry ap0 \<and> \<not> write_enabled e);
          ap = (if forced then ap0\<lparr>ap_dry := True\<rparr> else ap0);
          errs = (if forced then [''write_disabled''] else []);
          st0 = st\<lparr>s_backups := [], s_creates := []\<rparr>
      in case validate_changes e ap (s_fs st) cs of
           Inl x \<Rightarrow> (st0, Inl x)
         | Inr [] \<Rightarrow> run_session e w ap st0 errs cs
         | Inr rejected \<Rightarrow>
             (case survivors e ap (s_fs st) cs of
                Inl x \<Rightarrow> (st0, Inl x)
              | Inr [] \<Rightarrow> (st0, Inr (all_refused (errs @ rejected)))
              | Inr ok \<Rightarrow> run_session e w ap st0 (errs @ rejected) ok))"

section \<open>What a session may change\<close>

definition only :: "(path \<Rightarrow> bool) \<Rightarrow> 'c fs \<Rightarrow> 'c fs \<Rightarrow> bool" where
  "only Q fs fs' \<longleftrightarrow> (\<forall>p. fs' p \<noteq> fs p \<longrightarrow> Q p)"

lemma only_refl [simp]: "only Q fs fs"
  by (simp add: only_def)

lemma only_trans: "only Q fs fs1 \<Longrightarrow> only Q fs1 fs2 \<Longrightarrow> only Q fs fs2"
  unfolding only_def by metis

lemma only_mono: "only Q fs fs1 \<Longrightarrow> (\<And>p. Q p \<Longrightarrow> Q' p) \<Longrightarrow> only Q' fs fs1"
  by (auto simp: only_def)

lemma only_upd: "Q p \<Longrightarrow> only Q fs (fs(p := v))"
  by (simp add: only_def)

lemma set_fs_simps [simp]:
  "s_fs (set_fs fs st) = fs" "s_backups (set_fs fs st) = s_backups st" "s_creates (set_fs fs st) = s_creates st"
  "s_known (set_fs fs st) = s_known st" "s_writes (set_fs fs st) = s_writes st" "s_ops (set_fs fs st) = s_ops st"
  by (simp_all add: set_fs_def)

lemma safe_write_cases:
  assumes "safe_write e w st p text = (st', r)"
  obtains (failed) x where "r = Inl x" "s_fs st' = s_fs st" "s_backups st' = s_backups st"
      "s_creates st' = s_creates st" "s_known st' = s_known st" "s_ops st \<le> s_ops st'"
  | (written) m where "r = Inr ()" "s_fs st' = (s_fs st)(p \<mapsto> Reg m text)" "s_backups st' = s_backups st"
      "s_creates st' = s_creates st" "s_known st' = s_known st" "s_ops st' = Suc (s_ops st)"
      "\<nexists>t. s_fs st p = Some (Link t)" "s_fs st p \<noteq> Some Dir"
  using assms
  by (cases "s_fs st p")
    (auto simp: safe_write_def Let_def split: if_splits node.splits intro: that)

definition bak_of :: "path \<Rightarrow> path \<Rightarrow> bool" where
  "bak_of t p \<longleftrightarrow> prefix (t @ ''.bak.'') p"

text \<open>The listing gives only backups of the file it is asked about.\<close>

definition honest_listing :: "world \<Rightarrow> bool" where
  "honest_listing w \<longleftrightarrow> (\<forall>fs t p. p \<in> set (w_listing w fs t) \<longrightarrow> bak_of t p)"

lemma bak_of_backup_path [simp]: "bak_of t (backup_path w t n)"
  by (simp add: bak_of_def backup_path_def)

lemma prune_only: "prune e ps fs = (fs', r) \<Longrightarrow> only (\<lambda>p. p \<in> set ps) fs fs'"
proof (induction ps arbitrary: fs)
  case (Cons p ps)
  have o1: "only (\<lambda>q. q \<in> set (p # ps)) fs (fs(p := None))" by (simp add: only_upd)
  have step: "only (\<lambda>q. q \<in> set (p # ps)) fs1 fs'" if "prune e ps fs1 = (fs', r)" for fs1
    by (rule only_mono [OF Cons.IH [OF that]]) simp
  consider "fs' = fs" | "prune e ps fs = (fs', r)" | "prune e ps (fs(p := None)) = (fs', r)"
    using Cons.prems by (auto split: option.splits node.splits sum.splits)
  then show ?case by cases (blast intro: only_trans [OF o1] step only_refl)+
qed simp

lemma prune_backups_simps:
  assumes "prune_backups e w ap st p = (st', r)"
  shows "s_backups st' = s_backups st" "s_creates st' = s_creates st" "s_known st' = s_known st"
    "s_ops st' = s_ops st" "honest_listing w \<Longrightarrow> only (bak_of p) (s_fs st) (s_fs st')"
    "\<forall>fs t. length (w_listing w fs t) \<le> ap_retention ap \<Longrightarrow> st' = st \<and> r = Inr ()"
proof -
  obtain fs' where fs: "prune e (take (length (w_listing w (s_fs st) p) - ap_retention ap) (w_listing w (s_fs st) p))
      (s_fs st) = (fs', r)" "st' = set_fs fs' st"
    using assms by (auto simp: prune_backups_def Let_def split: prod.splits)
  show "s_backups st' = s_backups st" "s_creates st' = s_creates st" "s_known st' = s_known st"
    "s_ops st' = s_ops st" using fs(2) by simp_all
  show "only (bak_of p) (s_fs st) (s_fs st')" if "honest_listing w"
    using only_mono [OF prune_only [OF fs(1)], of "bak_of p"] that fs(2)
    by (metis honest_listing_def in_set_takeD set_fs_simps(1))
  show "st' = st \<and> r = Inr ()" if "\<forall>fs t. length (w_listing w fs t) \<le> ap_retention ap"
    using fs that by (simp add: set_fs_def)
qed

lemma disk_backup_only:
  assumes "disk_backup e w ap st p old = (st', r)" "honest_listing w"
  shows "only (bak_of p) (s_fs st) (s_fs st') \<and> s_creates st' = s_creates st \<and> s_ops st \<le> s_ops st' \<and>
    (r \<noteq> Inr () \<and> s_backups st' = s_backups st \<and> s_known st' = s_known st \<or>
     s_backups st' = s_backups st @ [(p, backup_path w p (s_ops st))] \<and>
     s_known st' = (backup_path w p (s_ops st), w_sha w old) # s_known st \<and> s_ops st < s_ops st')"
proof -
  let ?b = "backup_path w p (s_ops st)"
  obtain st1 r1 where sw: "safe_write e w st ?b old = (st1, r1)"
    by (cases "safe_write e w st ?b old")
  from sw show ?thesis
  proof (cases rule: safe_write_cases)
    case failed
    then show ?thesis using assms(1) by (auto simp: disk_backup_def sw Let_def)
  next
    case (written m)
    have o1: "only (bak_of p) (s_fs st) (s_fs st1)" by (simp add: written(2) only_upd)
    show ?thesis
    proof (cases "read_text (s_fs st1) ?b = Inr old")
      case True
      let ?st2 = "st1\<lparr>s_known := (?b, w_sha w old) # s_known st1, s_backups := s_backups st1 @ [(p, ?b)]\<rparr>"
      have pr: "prune_backups e w ap ?st2 p = (st', r)"
        using assms(1) by (simp add: disk_backup_def sw written(1) True Let_def)
      from prune_backups_simps [OF pr] show ?thesis
        using o1 assms(2) written by (auto intro: only_trans)
    next
      case False
      then have "r \<noteq> Inr () \<and> (st' = st1 \<or> st' = set_fs ((s_fs st1)(?b := None)) st1)"
        using assms(1) by (auto simp: disk_backup_def sw written(1) Let_def split: sum.splits if_splits)
      then show ?thesis using o1 written
        by (auto intro!: only_upd simp del: fun_upd_apply)
    qed
  qed
qed

text \<open>Targets: resolved below the root, and not protected.\<close>

definition target :: "env \<Rightarrow> applier \<Rightarrow> path \<Rightarrow> bool" where
  "target e ap p \<longleftrightarrow> (\<exists>full. p = render full \<and> prefix (ap_root ap) full \<and>
     protected_reason e ap (rel_posix (drop (length (ap_root ap)) full)) = None)"

definition owned :: "env \<Rightarrow> applier \<Rightarrow> path \<Rightarrow> bool" where
  "owned e ap p \<longleftrightarrow> (\<exists>t. target e ap t \<and> (p = t \<or> bak_of t p))"

lemma owned_target [simp]: "target e ap p \<Longrightarrow> owned e ap p"
  by (auto simp: owned_def)

definition confined :: "env \<Rightarrow> applier \<Rightarrow> sess \<Rightarrow> sess \<Rightarrow> bool" where
  "confined e ap st st' \<longleftrightarrow> only (owned e ap) (s_fs st) (s_fs st') \<and>
     (\<forall>p \<in> fst ` set (s_backups st') \<union> set (s_creates st').
        p \<in> fst ` set (s_backups st) \<union> set (s_creates st) \<or> target e ap p)"

lemma confined_refl [simp]: "confined e ap st st"
  by (simp add: confined_def)

lemma confined_trans: "confined e ap st st1 \<Longrightarrow> confined e ap st1 st2 \<Longrightarrow> confined e ap st st2"
  unfolding confined_def by (meson only_trans)

lemma safe_write_confined:
  assumes "safe_write e w st p text = (st', r)" "target e ap p"
  shows "confined e ap st st'"
  using assms(1)
  by (cases rule: safe_write_cases) (simp_all add: confined_def assms(2) only_upd)

lemma with_backup_confined:
  assumes "with_backup e w ap st p k = (st', r)" "target e ap p" "honest_listing w"
    and "\<And>st st' r. k st = (st', r) \<Longrightarrow> confined e ap st st'"
  shows "confined e ap st st'"
proof -
  have "confined e ap st st1" if "disk_backup e w ap st p old = (st1, r1)" for old st1 r1
    using disk_backup_only [OF that assms(3)] assms(2)
    by (auto simp: confined_def only_def owned_def)
  note bk = this
  show ?thesis
  proof (cases "opened (s_fs st) p = None")
    case False
    show ?thesis
    proof (cases "read_text (s_fs st) p")
      case (Inr old)
      obtain st1 r1 where db: "disk_backup e w ap st p old = (st1, r1)"
        by (cases "disk_backup e w ap st p old")
      show ?thesis
        using assms(1) False confined_trans [OF bk [OF db] assms(4)] bk [OF db]
        by (cases r1) (auto simp: with_backup_def Inr db)
    qed (use assms(1) False in \<open>auto simp: with_backup_def\<close>)
  qed (use assms(1) in \<open>simp add: with_backup_def\<close>)
qed

lemma write_true_confined:
  "write_true e w p text st = (st', r) \<Longrightarrow> target e ap p \<Longrightarrow> confined e ap st st'"
  by (auto simp: write_true_def split: prod.splits dest: safe_write_confined)

lemma unlink_confined: "unlink p st = (st', r) \<Longrightarrow> target e ap p \<Longrightarrow> confined e ap st st'"
  by (auto simp: unlink_def confined_def only_upd split: option.splits node.splits)

lemma line_edit_confined:
  "line_edit e w p f st = (st', r) \<Longrightarrow> target e ap p \<Longrightarrow> confined e ap st st'"
  by (auto simp: line_edit_def split: sum.splits option.splits dest: write_true_confined)

lemma dispatch_confined:
  assumes "dispatch e w ap st c p = (st', r)" "target e ap p" "honest_listing w"
  shows "confined e ap st st'"
proof -
  have create: "confined e ap st st'"
    if "ch_action c = ''create''"
  proof -
    obtain st1 r1 where sw: "safe_write e w st p (ch_content c) = (st1, r1)"
      by (cases "safe_write e w st p (ch_content c)")
    have "confined e ap st1 (st1\<lparr>s_creates := s_creates st1 @ [p]\<rparr>)"
      using assms(2) by (auto simp: confined_def)
    then show ?thesis
      using assms(1) that safe_write_confined [OF sw assms(2)] confined_trans
      by (auto simp: dispatch_def sw split: if_splits sum.splits)
  qed
  show ?thesis
  proof (cases "ch_action c = ''create''")
    case False
    show ?thesis
    proof (cases "\<exists>k. with_backup e w ap st p k = (st', r) \<and>
        (\<forall>st st' r. k st = (st', r) \<longrightarrow> confined e ap st st')")
      case True
      then show ?thesis using with_backup_confined [OF _ assms(2,3)] by blast
    next
      case noback: False
      have k: "with_backup e w ap st p k \<noteq> (st', r)"
        if "\<And>st st' r. k st = (st', r) \<Longrightarrow> confined e ap st st'" for k
        using noback that by blast
      have "st' = st"
        using assms(1) False k [OF write_true_confined [OF _ assms(2)]]
          k [OF unlink_confined [OF _ assms(2)]] k [OF line_edit_confined [OF _ assms(2)]]
        unfolding dispatch_def Let_def by (auto split: if_splits)
      then show ?thesis by simp
    qed
  qed (rule create)
qed

lemma confined_fs: "confined e ap st st' \<Longrightarrow> s_fs st' p \<noteq> s_fs st p \<Longrightarrow> owned e ap p"
  by (auto simp: confined_def only_def)

lemma confined_count [simp]: "confined e ap st (st'\<lparr>s_writes := n\<rparr>) = confined e ap st st'"
  by (simp add: confined_def)

lemma resolve_change_path_target:
  assumes "resolve_change_path e ap fs p = Inr (Some (full, rel))" "protected_reason e ap rel = None"
  shows "target e ap (render full)"
  using assms by (auto simp: resolve_change_path_def target_def absorb_def Let_def split: if_splits)

lemma apply_change_confined:
  assumes "apply_change e w ap st c = (st', r)" "honest_listing w"
  shows "confined e ap st st'"
proof -
  have "st' = st \<or> (\<exists>p. target e ap p \<and> dispatch e w ap st c p = (st', r))"
    using assms(1) resolve_change_path_target [of e ap "s_fs st" "ch_path c"]
    by (auto simp: apply_change_def split: if_splits sum.splits option.splits bool.splits)
  then show ?thesis using dispatch_confined [OF _ _ assms(2)] by auto
qed

lemma run_changes_confined:
  "run_changes e w ap st n errs cs = (st', r) \<Longrightarrow> honest_listing w \<Longrightarrow> confined e ap st st'"
proof (induction cs arbitrary: st n errs)
  case (Cons c cs)
  obtain st1 r1 where ac: "apply_change e w ap st c = (st1, r1)"
    by (cases "apply_change e w ap st c")
  have c1: "confined e ap st st1" by (rule apply_change_confined [OF ac Cons.prems(2)])
  have c2: "confined e ap st st'" if "run_changes e w ap st1' k er cs = (st', r)"
    "s_fs st1' = s_fs st1" "s_backups st1' = s_backups st1" "s_creates st1' = s_creates st1" for st1' k er
    using confined_trans [OF c1, of st'] Cons.IH [OF that(1) Cons.prems(2)] that(2-4)
    by (simp add: confined_def)
  show ?case
    using Cons.prems(1) c1 Cons.IH [OF _ Cons.prems(2), of st] c2 c2 [of st1] c2 [of "st1\<lparr>s_writes := Suc (s_writes st1)\<rparr>"]
    by (auto simp: ac Let_def split: if_splits sum.splits bool.splits)
qed simp

text \<open>A rollback writes only what the session recorded.\<close>

lemma undo_all_only:
  assumes "\<And>st x st' r. x \<in> set xs \<Longrightarrow> f st x = (st', r) \<Longrightarrow>
      only Q (s_fs st) (s_fs st') \<and> s_creates st' = s_creates st"
    and "undo_all f st out xs = (st', r)"
  shows "only Q (s_fs st) (s_fs st') \<and> s_creates st' = s_creates st"
  using assms
proof (induction xs arbitrary: st out)
  case (Cons x xs)
  obtain st1 r1 where fx: "f st x = (st1, r1)" by (cases "f st x")
  have one: "only Q (s_fs st) (s_fs st1) \<and> s_creates st1 = s_creates st"
    using Cons.prems(1) [OF _ fx] by simp
  have "st' = st1 \<or> (\<exists>out. undo_all f st1 out xs = (st', r))"
    using Cons.prems(2) by (auto simp: fx split: sum.splits option.splits)
  moreover have "only Q (s_fs st1) (s_fs st') \<and> s_creates st' = s_creates st1"
    if "undo_all f st1 out xs = (st', r)" for out
    by (rule Cons.IH [OF Cons.prems(1) that]) simp_all
  ultimately show ?case using one only_trans by metis
qed simp

lemma restore_one_only:
  assumes "restore_one e w st (t, bak) = (st', r)"
  shows "only (\<lambda>p. p = t) (s_fs st) (s_fs st') \<and> s_creates st' = s_creates st"
proof -
  have "st' = st \<or> (\<exists>data r. safe_write e w st t data = (st', r))"
    using assms by (auto simp: restore_one_def split: option.splits sum.splits if_splits prod.splits)
  then show ?thesis
    by (auto elim!: safe_write_cases simp: only_upd)
qed

lemma remove_created_only:
  "remove_created e st p = (st', r) \<Longrightarrow>
    only (\<lambda>q. q = p) (s_fs st) (s_fs st') \<and> s_creates st' = s_creates st"
  by (auto simp: remove_created_def simp del: fun_upd_apply intro!: only_upd split: option.splits node.splits)

lemma rollback_only:
  assumes "rollback e w too st = (st', r)"
  shows "only (\<lambda>p. p \<in> fst ` set (s_backups st) \<union> set (s_creates st)) (s_fs st) (s_fs st')"
proof -
  let ?Q = "\<lambda>p. p \<in> fst ` set (s_backups st) \<union> set (s_creates st)"
  obtain st1 r1 where u: "undo_all (restore_one e w) st [] (rev (s_backups st)) = (st1, r1)"
    by (cases "undo_all (restore_one e w) st [] (rev (s_backups st))")
  have o1: "only ?Q (s_fs st) (s_fs st1) \<and> s_creates st1 = s_creates st"
  proof (rule undo_all_only [OF _ u], goal_cases)
    case (1 sa x sb r)
    obtain t b where x: "x = (t, b)" by (cases x)
    have "only ?Q (s_fs sa) (s_fs sb)"
      by (rule only_mono [OF conjunct1 [OF restore_one_only [OF 1(2) [unfolded x]]]])
        (use 1(1) x in force)
    then show ?case using restore_one_only [OF 1(2) [unfolded x]] by blast
  qed
  have "st' = st1 \<or> (\<exists>out. undo_all (remove_created e) st1 out (rev (s_creates st)) = (st', r))"
    using assms by (auto simp: rollback_def u split: sum.splits if_splits)
  moreover have "only ?Q (s_fs st1) (s_fs st')"
    if "undo_all (remove_created e) st1 out (rev (s_creates st)) = (st', r)" for out
  proof (rule conjunct1 [OF undo_all_only [OF _ that]], goal_cases)
    case (1 sa x sb r)
    then show ?case using only_mono [OF conjunct1 [OF remove_created_only [OF 1(2)]], of ?Q]
        remove_created_only [OF 1(2)] by auto
  qed
  ultimately show ?thesis using o1 only_trans by blast
qed

text \<open>The engine a session really runs with: a write switch that is off forces a dry run.\<close>

definition effective :: "env \<Rightarrow> applier \<Rightarrow> applier" where
  "effective e ap =
     (if session_write_recheck_enabled e \<and> \<not> ap_dry ap \<and> \<not> write_enabled e then ap\<lparr>ap_dry := True\<rparr> else ap)"

lemma effective_simps [simp]:
  "ap_root (effective e ap) = ap_root ap" "ap_files (effective e ap) = ap_files ap"
  "ap_dirs (effective e ap) = ap_dirs ap"
  by (simp_all add: effective_def)

lemma protected_reason_effective [simp]: "protected_reason e (effective e ap) = protected_reason e ap"
  by (rule ext) (simp add: protected_reason_def cong: if_cong)

lemma owned_effective [simp]: "owned e (effective e ap) p = owned e ap p"
  by (simp add: owned_def target_def)

lemma apply_session_cases:
  assumes "apply_session e w ap st cs = (st', r)"
  obtains (stopped) "s_fs st' = s_fs st" "\<And>res. r = Inr res \<Longrightarrow> ar_complete res = False"
  | (ran) errs ok where
      "run_session e w (effective e ap) (st\<lparr>s_backups := [], s_creates := []\<rparr>) errs ok = (st', r)"
      "set ok \<subseteq> set cs"
proof -
  have sub: "set ok \<subseteq> set cs" if "survivors e a fs cs = Inr ok" for e a fs ok and cs :: "change list"
    using that by (induction cs arbitrary: ok) (auto simp: bindR_def split: sum.splits if_splits)
  have "s_fs st' = s_fs st \<and> (\<forall>res. r = Inr res \<longrightarrow> ar_complete res = False) \<or>
      (\<exists>errs ok. run_session e w (effective e ap) (st\<lparr>s_backups := [], s_creates := []\<rparr>) errs ok = (st', r) \<and>
        (ok = cs \<or> survivors e (effective e ap) (s_fs st) cs = Inr ok))"
    using assms
    by (auto simp: apply_session_def effective_def [symmetric] Let_def all_refused_def
        split: sum.splits list.splits if_splits)
  then show ?thesis using sub that by blast
qed

lemma run_session_confined:
  assumes "run_session e w ap st errs cs = (st', r)" "honest_listing w" "s_backups st = []" "s_creates st = []"
  shows "only (owned e ap) (s_fs st) (s_fs st')"
proof -
  obtain st1 r1 where rc: "run_changes e w ap st 0 errs cs = (st1, r1)"
    by (cases "run_changes e w ap st 0 errs cs")
  have c: "confined e ap st st1" by (rule run_changes_confined [OF rc assms(2)])
  have rb: "only (owned e ap) (s_fs st1) (s_fs st2)" if "rollback e w too st1 = (st2, r2)" for too st2 r2
    by (rule only_mono [OF rollback_only [OF that]]) (use c assms(3,4) in \<open>auto simp: confined_def\<close>)
  have "st' = st1 \<or> (\<exists>too r2. rollback e w too st1 = (st', r2))"
    using assms(1) by (auto simp: run_session_def rc Let_def split: sum.splits if_splits prod.splits)
  then show ?thesis using c rb only_trans by (metis confined_def)
qed


text \<open>A dry session writes nothing.\<close>

lemma run_changes_dry:
  assumes "ap_dry ap"
  shows "run_changes e w ap st n errs cs = (st, Inr (n + length cs, errs))"
  using assms by (induction cs arbitrary: n) (simp_all add: apply_change_def)

text \<open>A session of a dry engine, or of any engine once the re-read write switch is off, changes
no file, whatever the changes are, and takes no backup.\<close>

theorem dry_session_is_inert:
  assumes "apply_session e w ap st cs = (st', r)"
    and "ap_dry ap \<or> session_write_recheck_enabled e \<and> \<not> write_enabled e"
  shows "s_fs st' = s_fs st \<and> s_backups st' = []"
proof -
  have dry: "ap_dry (effective e ap)" using assms(2) by (auto simp: effective_def)
  have ran: "run_session e w (effective e ap) st0 errs ok = (st', r) \<Longrightarrow> s_backups st0 = [] \<Longrightarrow>
      s_fs st' = s_fs st0 \<and> s_backups st' = []" for st0 errs ok
    by (auto simp: run_session_def run_changes_dry [OF dry] simp del: run_changes.simps)
  show ?thesis
    using assms(1) ran [of "st\<lparr>s_backups := [], s_creates := []\<rparr>"]
    by (auto simp: apply_session_def effective_def [symmetric] Let_def split: sum.splits list.splits if_splits)
qed

section \<open>What a complete rollback means\<close>

definition file_seen :: "applier \<Rightarrow> string fs \<Rightarrow> string \<Rightarrow> string option" where
  "file_seen ap fs p =
     (case opened fs (render (resolve fs (ap_root ap @ comps p))) of Some (Reg _ c) \<Rightarrow> Some c | _ \<Rightarrow> None)"

definition sound_hash :: "(string \<Rightarrow> string) \<Rightarrow> bool" where
  "sound_hash h \<longleftrightarrow> inj h \<and> (\<forall>s. h s \<noteq> [] \<and> lf \<notin> set (h s))"

lemma snapshot_hash_file: "snapshot_hash w ap fs p = (case file_seen ap fs p of Some c \<Rightarrow> w_sha w c | None \<Rightarrow> [])"
  by (simp add: snapshot_hash_def hash_path_def file_seen_def split: option.splits node.splits)

lemma snapshot_hash_eq:
  assumes "sound_hash (w_sha w)" "snapshot_hash w ap fs p = snapshot_hash w ap fs' p"
  shows "file_seen ap fs p = file_seen ap fs' p"
proof -
  have "w_sha w c \<noteq> [] \<and> [] \<noteq> w_sha w c" for c using assms(1) by (metis sound_hash_def)
  then show ?thesis
    using assms by (auto simp: snapshot_hash_file sound_hash_def inj_eq split: option.splits)
qed

lemma first_break: "a @ x # r = b @ x # r' \<Longrightarrow> x \<notin> set a \<Longrightarrow> x \<notin> set b \<Longrightarrow> a = b \<and> r = r'"
proof (induction a arbitrary: b)
  case Nil
  then show ?case by (cases b) auto
next
  case (Cons y a)
  then show ?case by (cases b) auto
qed

lemma lines_cancel:
  assumes "concat (map (\<lambda>p. p @ '':'' @ g p @ [lf]) ps) = concat (map (\<lambda>p. p @ '':'' @ h p @ [lf]) ps)"
    and "\<And>p. lf \<notin> set (g p)" "\<And>p. lf \<notin> set (h p)"
  shows "\<forall>p \<in> set ps. g p = h p"
  using assms(1)
proof (induction ps)
  case (Cons p ps)
  have "g p @ lf # concat (map (\<lambda>p. p @ '':'' @ g p @ [lf]) ps) =
      h p @ lf # concat (map (\<lambda>p. p @ '':'' @ h p @ [lf]) ps)"
    using Cons.prems by simp
  then have "g p = h p \<and> concat (map (\<lambda>p. p @ '':'' @ g p @ [lf]) ps) =
      concat (map (\<lambda>p. p @ '':'' @ h p @ [lf]) ps)"
    by (rule first_break) (rule assms(2,3))+
  then show ?case using Cons.IH by simp
qed simp

lemma aggregate_hash_eq:
  assumes "sound_hash (w_sha w)" "aggregate_hash w ap fs cs = aggregate_hash w ap fs' cs" "c \<in> set cs"
  shows "file_seen ap fs (ch_path c) = file_seen ap fs' (ch_path c)"
proof -
  have nl: "lf \<notin> set (snapshot_hash w ap fs p)" for fs p
    using assms(1) by (simp add: snapshot_hash_file sound_hash_def split: option.splits)
  have "\<forall>p \<in> set (sort (remdups (map ch_path cs))). snapshot_hash w ap fs p = snapshot_hash w ap fs' p"
    by (rule lines_cancel [OF _ nl nl])
      (rule injD [OF conjunct1 [OF assms(1) [unfolded sound_hash_def]] assms(2) [unfolded aggregate_hash_def]])
  then have "snapshot_hash w ap fs (ch_path c) = snapshot_hash w ap fs' (ch_path c)"
    using assms(3) by simp
  then show ?thesis by (rule snapshot_hash_eq [OF assms(1)])
qed

lemma survivors_keep:
  "survivors e ap fs cs = Inr ok \<Longrightarrow> c \<in> set cs \<Longrightarrow> validate_change e ap fs c = Inr None \<Longrightarrow> c \<in> set ok"
proof (induction cs arbitrary: ok)
  case (Cons d cs)
  obtain rs ok1 where "validate_changes e ap fs [d] = Inr rs" "survivors e ap fs cs = Inr ok1"
      "ok = (if rs = [] then d # ok1 else ok1)"
    using Cons.prems(1) by (auto simp del: validate_changes.simps simp: bindR_def split: sum.splits)
  then show ?case using Cons.prems(2,3) Cons.IH [of ok1] by (auto simp: bindR_def)
qed simp

text \<open>A result that claims a complete rollback tells the truth: every file an accepted change
names holds again exactly the bytes it held before the session, or is again absent.\<close>

theorem complete_rollback_is_real:
  assumes "apply_session e w ap st cs = (st', Inr res)" "ar_complete res" "sound_hash (w_sha w)"
    and "c \<in> set cs" "validate_change e (effective e ap) (s_fs st) c = Inr None"
  shows "file_seen ap (s_fs st') (ch_path c) = file_seen ap (s_fs st) (ch_path c)"
proof -
  let ?ap = "effective e ap" and ?st = "st\<lparr>s_backups := [], s_creates := []\<rparr>"
  have vc: "c \<in> set ok" if "ok = cs \<or> survivors e ?ap (s_fs st) cs = Inr ok" for ok
    using that survivors_keep assms(4,5) by blast
  obtain errs ok where run: "run_session e w ?ap ?st errs ok = (st', Inr res)" "c \<in> set ok"
    using assms(1,2) vc
    by (auto simp: apply_session_def effective_def [symmetric] Let_def all_refused_def
        split: sum.splits list.splits if_splits)
  then have "aggregate_hash w ?ap (s_fs st') ok = aggregate_hash w ?ap (s_fs st) ok"
    using assms(2)
    by (auto simp: run_session_def session_result_def Let_def split: prod.splits sum.splits if_splits)
  from aggregate_hash_eq [OF assms(3) this run(2)] show ?thesis by (simp add: file_seen_def)
qed

section \<open>Concrete sessions\<close>

text \<open>An injective stand-in for the hash, printable and without line breaks.\<close>

definition demo_hash :: "string \<Rightarrow> string" where
  "demo_hash s = CHR ''h'' # concat (map (\<lambda>c. if c = lf then ''%n'' else if c = CHR ''%'' then ''%%'' else [c]) s)"

lemma demo_hash_sound: "sound_hash demo_hash"
proof -
  let ?f = "\<lambda>c. if c = lf then ''%n'' else if c = CHR ''%'' then ''%%'' else [c]"
  have "concat (map ?f a) = concat (map ?f b) \<Longrightarrow> a = b" for a b
  proof (induction a arbitrary: b)
    case Nil
    then show ?case by (cases b) (auto split: if_splits)
  next
    case (Cons x a)
    then obtain y b' where "b = y # b'" by (cases b) (auto split: if_splits)
    then show ?case using Cons by (auto simp: lf_def split: if_splits)
  qed
  then have "inj demo_hash" by (auto simp: inj_def demo_hash_def)
  moreover have "lf \<notin> set (demo_hash s)" for s by (auto simp: demo_hash_def lf_def)
  ultimately show ?thesis by (simp add: sound_hash_def demo_hash_def)
qed

definition demo_world :: "nat list \<Rightarrow> world" where
  "demo_world faults =
     \<lparr>w_sha = demo_hash, w_listing = (\<lambda>_ _. []), w_stamp = (\<lambda>n. replicate n (CHR ''0'')),
      w_fault = (\<lambda>n. n \<in> set faults), w_parses = (\<lambda>_. True), w_close = (\<lambda>_ _ _. None)\<rparr>"

definition demo_applier :: applier where
  "demo_applier = \<lparr>ap_root = [''r''], ap_files = protected_files, ap_dirs = protected_dirs, ap_dry = False,
     ap_retention = 5, ap_max = 100\<rparr>"

definition demo_sess :: "string fs \<Rightarrow> sess" where
  "demo_sess fs = \<lparr>s_fs = fs, s_backups = [], s_creates = [], s_known = [], s_writes = 0, s_ops = 0\<rparr>"

definition mk_change :: "string \<Rightarrow> string \<Rightarrow> string \<Rightarrow> change" where
  "mk_change act p content = \<lparr>ch_path = p, ch_action = act, ch_content = content, ch_target = [],
     ch_replacement = [], ch_position = [], ch_expected = []\<rparr>"

definition demo_fs :: "string \<Rightarrow> string fs" where
  "demo_fs a = [''/r/a'' \<mapsto> Reg 420 a, ''/r/b'' \<mapsto> Reg 420 ''two'']"

definition demo_edits :: "change list" where
  "demo_edits = [mk_change ''edit'' ''a'' ''new'', mk_change ''edit'' ''b'' ''new'']"

text \<open>The second backup cannot be written, and the first edit is taken back.\<close>

lemma demo_rollback:
  "snd (apply_session no_env (demo_world [2]) demo_applier (demo_sess (demo_fs ''one'')) demo_edits) =
    Inr \<lparr>ar_success = False, ar_reverted = True, ar_applied = 1, ar_errors = [''Failed to apply b''],
      ar_attempted = True, ar_complete = True, ar_rollback_errors = [], ar_residual = [],
      ar_pre = ''ha:hone%nb:htwo%n'', ar_post = ''ha:hone%nb:htwo%n''\<rparr>"
  by code_simp

lemma demo_world_honest [simp]: "honest_listing (demo_world faults)"
  by (simp add: honest_listing_def demo_world_def)


definition recheck_env :: env where
  "recheck_env = no_env(''AGI_V8_SAFE_AUTO_APPLY_SESSION_WRITE_RECHECK'' \<mapsto> ''1'')"

theorem dry_session_is_inert_witness:
  "s_fs (fst (apply_session recheck_env (demo_world []) demo_applier (demo_sess (demo_fs ''one'')) demo_edits)) =
    demo_fs ''one''"
proof -
  let ?run = "apply_session recheck_env (demo_world []) demo_applier (demo_sess (demo_fs ''one'')) demo_edits"
  have "session_write_recheck_enabled recheck_env \<and> \<not> write_enabled recheck_env" by code_simp
  then show ?thesis
    using dry_session_is_inert [of recheck_env "demo_world []" demo_applier "demo_sess (demo_fs ''one'')"
        demo_edits "fst ?run" "snd ?run"] by (simp add: demo_sess_def)
qed

theorem complete_rollback_is_real_witness:
  "file_seen demo_applier
     (s_fs (fst (apply_session no_env (demo_world [2]) demo_applier (demo_sess (demo_fs ''one'')) demo_edits)))
     ''a'' = Some ''one''"
proof -
  let ?st = "demo_sess (demo_fs ''one'')" and ?c = "mk_change ''edit'' ''a'' ''new''"
  let ?run = "apply_session no_env (demo_world [2]) demo_applier ?st demo_edits"
  obtain res where res: "snd ?run = Inr res" "ar_complete res" using demo_rollback by force
  have run: "?run = (fst ?run, Inr res)" by (simp add: res(1) [symmetric])
  have hash: "sound_hash (w_sha (demo_world [2]))" by (simp add: demo_world_def demo_hash_sound)
  have mem: "?c \<in> set demo_edits" by (simp add: demo_edits_def)
  have ok: "validate_change no_env (effective no_env demo_applier) (s_fs ?st) ?c = Inr None" by code_simp
  have "file_seen demo_applier (s_fs ?st) (ch_path ?c) = Some ''one''" by code_simp
  with complete_rollback_is_real [OF run res(2) hash mem ok] show ?thesis by (simp add: mk_change_def)
qed

end
