(* ===== verification/ApplyRollback.thy ===== *)
theory ApplyRollback
  imports ApplySession
begin

text \<open>
  What the rollback of a session (\<open>enforcement/safe_auto_apply.py\<close>, \<open>apply_session\<close>) gives back: a
  session that failed leaves every file as it was, under the conditions spelt out here; and the
  sessions outside these conditions for which it does not.
\<close>

section \<open>Following one file through a session\<close>

definition fresh_stamps :: "world \<Rightarrow> bool" where
  "fresh_stamps w \<longleftrightarrow> inj (w_stamp w) \<and> (\<forall>n. CHR ''.'' \<notin> set (w_stamp w n))"

lemma backup_path_inj:
  assumes "fresh_stamps w" "backup_path w t n = backup_path w t' n'"
  shows "t = t' \<and> n = n'"
proof -
  have "rev (w_stamp w n) @ CHR ''.'' # rev (t @ ''.bak'') = rev (w_stamp w n') @ CHR ''.'' # rev (t' @ ''.bak'')"
    using arg_cong [OF assms(2), of rev] by (simp add: backup_path_def)
  then have "rev (w_stamp w n) = rev (w_stamp w n') \<and> rev (t @ ''.bak'') = rev (t' @ ''.bak'')"
    by (rule first_break) (use assms(1) in \<open>simp_all add: fresh_stamps_def\<close>)
  then show ?thesis using assms(1) by (simp add: fresh_stamps_def inj_eq)
qed

text \<open>
  \<open>tracked\<close>: the record the session keeps of one file \<open>p\<close> determines what it held in \<open>fs0\<close>, the
  files before the session; \<open>nodel\<close> says that no change deletes a file.
\<close>

definition tracked :: "world \<Rightarrow> bool \<Rightarrow> string fs \<Rightarrow> path \<Rightarrow> sess \<Rightarrow> bool" where
  "tracked w nodel fs0 p st \<longleftrightarrow>
     (\<forall>tb \<in> set (s_backups st). \<exists>n < s_ops st. snd tb = backup_path w (fst tb) n) \<and>
     (p \<in> set (s_creates st) \<longrightarrow> fs0 p = None) \<and>
     (p \<notin> set (s_creates st) \<longrightarrow> map_of (s_backups st) p = None \<longrightarrow> s_fs st p = fs0 p) \<and>
     (p \<notin> set (s_creates st) \<longrightarrow> (\<forall>b. map_of (s_backups st) p = Some b \<longrightarrow>
        (\<exists>m c. fs0 p = Some (Reg m c) \<and> map_of (s_known st) b = Some (w_sha w (universal c))))) \<and>
     (nodel \<and> fs0 p \<noteq> None \<longrightarrow> s_fs st p \<noteq> None)"

lemma tracked_start:
  "s_backups st = [] \<Longrightarrow> s_creates st = [] \<Longrightarrow> tracked w nodel (s_fs st) p st"
  by (simp add: tracked_def)

text \<open>A step that touches only files with a backup, or that writes somewhere else.\<close>

lemma tracked_other:
  assumes "tracked w nodel fs0 p st"
    and "s_backups st' = s_backups st" "s_creates st' = s_creates st" "s_known st' = s_known st"
    and "s_ops st \<le> s_ops st'"
    and "s_fs st' p = s_fs st p \<or> map_of (s_backups st) p \<noteq> None \<and>
      (nodel \<and> s_fs st p \<noteq> None \<longrightarrow> s_fs st' p \<noteq> None)"
  shows "tracked w nodel fs0 p st'"
proof -
  have "\<forall>tb \<in> set (s_backups st'). \<exists>n < s_ops st'. snd tb = backup_path w (fst tb) n"
    using assms(1,2,5) unfolding tracked_def by (metis less_le_trans)
  then show ?thesis using assms(1-4,6) by (auto simp: tracked_def)
qed

lemma tracked_create:
  assumes "tracked w nodel fs0 p st" "s_fs st t = None" nodel
    and "s_backups st' = s_backups st" "s_creates st' = s_creates st @ [t]" "s_known st' = s_known st"
    and "s_ops st' = Suc (s_ops st)" "s_fs st' = (s_fs st)(t \<mapsto> n)"
  shows "tracked w nodel fs0 p st'"
proof -
  have paths: "\<forall>tb \<in> set (s_backups st'). \<exists>n < s_ops st'. snd tb = backup_path w (fst tb) n"
    using assms(1,4,7) unfolding tracked_def by (metis less_SucI)
  have "fs0 t = None" if "t = p"
    using assms(1,2,3) that by (auto simp: tracked_def)
  then show ?thesis
    unfolding tracked_def using paths assms(1,3-6,8) by (cases "t = p") (auto simp: tracked_def)
qed

lemma tracked_count [simp]: "tracked w nodel fs0 p (st\<lparr>s_writes := n\<rparr>) = tracked w nodel fs0 p st"
  by (simp add: tracked_def)

definition plain_file :: "string fs \<Rightarrow> path \<Rightarrow> bool" where
  "plain_file fs p \<longleftrightarrow> fs p = None \<or> (\<exists>m c. fs p = Some (Reg m c))"

lemma tracked_path:
  assumes "tracked w nodel fs0 p st" "(q, b) \<in> set (s_backups st)"
  shows "\<exists>n < s_ops st. b = backup_path w q n"
  using bspec [OF conjunct1 [OF assms(1) [unfolded tracked_def]] assms(2)] by simp

lemma tracked_disk_backup:
  assumes "tracked w nodel fs0 p st" "plain_file fs0 p" "\<And>t. \<not> bak_of t p"
    and "disk_backup e w ap st t old = (st', r)" "honest_listing w" "fresh_stamps w"
    and "read_text (s_fs st) t = Inr old"
  shows "tracked w nodel fs0 p st' \<and> s_fs st' p = s_fs st p \<and>
    (r = Inr () \<longrightarrow> map_of (s_backups st') t \<noteq> None)"
proof -
  let ?b = "backup_path w t (s_ops st)"
  note eff = disk_backup_only [OF assms(4,5)]
  have same: "s_fs st' p = s_fs st p" using eff assms(3) by (auto simp: only_def)
  show ?thesis
  proof (cases "s_backups st' = s_backups st \<and> s_known st' = s_known st")
    case True
    then have "r \<noteq> Inr ()" using eff by auto
    then show ?thesis using tracked_other [OF assms(1), of st'] True eff same by blast
  next
    case False
    then have bk: "s_backups st' = s_backups st @ [(t, ?b)]" and kn: "s_known st' = (?b, w_sha w old) # s_known st"
      and ops: "s_ops st < s_ops st'" and cr: "s_creates st' = s_creates st" using eff by auto
    have fresh: "b \<noteq> ?b" if bq: "(q, b) \<in> set (s_backups st)" for q b
    proof
      assume "b = ?b"
      moreover obtain n where "n < s_ops st" "b = backup_path w q n"
        using tracked_path [OF assms(1) bq] by blast
      ultimately show False using backup_path_inj [OF assms(6), of q n t "s_ops st"] by simp
    qed
    have "\<forall>tb \<in> set (s_backups st). \<exists>n < s_ops st'. snd tb = backup_path w (fst tb) n"
      using assms(1) ops unfolding tracked_def by (metis less_trans)
    then have paths: "\<forall>tb \<in> set (s_backups st'). \<exists>n < s_ops st'. snd tb = backup_path w (fst tb) n"
      using ops by (auto simp: bk)
    have content: "\<exists>m c. fs0 p = Some (Reg m c) \<and> map_of (s_known st') b = Some (w_sha w (universal c))"
      if "p \<notin> set (s_creates st)" "map_of (s_backups st') p = Some b" for b
    proof (cases "map_of (s_backups st) p")
      case None
      then have "p = t" "b = ?b" using that(2) by (auto simp: bk map_add_def split: if_splits)
      moreover have "s_fs st p = fs0 p" using assms(1) that(1) None by (simp add: tracked_def)
      ultimately show ?thesis using assms(2,7)
        by (auto simp: plain_file_def read_text_def kn)
    next
      case (Some b')
      then have "b' = b" using that(2) by (simp add: bk map_add_def)
      then show ?thesis
        using assms(1) that(1) Some fresh [OF map_of_SomeD [OF Some]] by (simp add: tracked_def kn)
    qed
    have "s_fs st' p = fs0 p" if "p \<notin> set (s_creates st)" "map_of (s_backups st') p = None"
      using assms(1) that same by (simp add: tracked_def bk map_add_def split: option.splits if_splits)
    then have "tracked w nodel fs0 p st'"
      unfolding tracked_def using paths content same assms(1) by (simp add: tracked_def cr)
    then show ?thesis using same by (simp add: bk map_add_def split: option.splits)
  qed
qed

text \<open>A write to \<open>t\<close> that keeps the session's records.\<close>

definition kept :: "bool \<Rightarrow> path \<Rightarrow> sess \<Rightarrow> sess \<Rightarrow> bool" where
  "kept nodel t st st' \<longleftrightarrow> s_backups st' = s_backups st \<and> s_creates st' = s_creates st \<and>
     s_known st' = s_known st \<and> s_ops st \<le> s_ops st' \<and> only (\<lambda>p. p = t) (s_fs st) (s_fs st') \<and>
     (nodel \<and> s_fs st t \<noteq> None \<longrightarrow> s_fs st' t \<noteq> None)"

lemma kept_refl [simp]: "kept nodel t st st"
  by (simp add: kept_def)

lemma safe_write_kept: "safe_write e w st t text = (st', r) \<Longrightarrow> kept nodel t st st'"
  by (erule safe_write_cases) (simp_all add: kept_def only_upd)

lemma write_true_kept: "write_true e w t text st = (st', r) \<Longrightarrow> kept nodel t st st'"
  by (auto simp: write_true_def split: prod.splits dest: safe_write_kept)

lemma line_edit_kept: "line_edit e w t f st = (st', r) \<Longrightarrow> kept nodel t st st'"
  by (auto simp: line_edit_def split: sum.splits option.splits dest: write_true_kept)

lemma unlink_kept: "unlink t st = (st', r) \<Longrightarrow> \<not> nodel \<Longrightarrow> kept nodel t st st'"
  by (auto simp: unlink_def kept_def simp del: fun_upd_apply intro!: only_upd split: option.splits node.splits)

definition watched :: "env \<Rightarrow> world \<Rightarrow> string fs \<Rightarrow> path \<Rightarrow> bool" where
  "watched e w fs p \<longleftrightarrow> plain_file fs p \<and> (\<forall>t. \<not> bak_of t p) \<and>
     honest_listing w \<and> fresh_stamps w \<and> session_hardening_enabled e"

lemma tracked_with_backup:
  assumes "tracked w nodel fs0 p st" "with_backup e w ap st t k = (st', r)" "watched e w fs0 p"
    and "\<And>st st' r. k st = (st', r) \<Longrightarrow> kept nodel t st st'"
  shows "tracked w nodel fs0 p st'"
proof (cases "opened (s_fs st) t = None")
  case False
  show ?thesis
  proof (cases "read_text (s_fs st) t")
    case (Inr old)
    obtain st1 r1 where db: "disk_backup e w ap st t old = (st1, r1)"
      by (cases "disk_backup e w ap st t old")
    have bk: "tracked w nodel fs0 p st1 \<and> s_fs st1 p = s_fs st p \<and>
        (r1 = Inr () \<longrightarrow> map_of (s_backups st1) t \<noteq> None)"
      by (rule tracked_disk_backup [OF assms(1) _ _ db _ _ Inr]) (use assms(3) in \<open>auto simp: watched_def\<close>)
    show ?thesis
    proof (cases r1)
      case (Inr u)
      then have "k st1 = (st', r)" using assms(2) False \<open>read_text (s_fs st) t = Inr old\<close>
        by (simp add: with_backup_def db)
      then have k: "kept nodel t st1 st'" by (rule assms(4))
      show ?thesis
        by (rule tracked_other [OF conjunct1 [OF bk]])
          (use k bk Inr in \<open>auto simp: kept_def only_def dest!: spec [of _ p]\<close>)
    qed (use assms(2) False Inr bk in \<open>simp add: with_backup_def db\<close>)
  next
    case (Inl x)
    then have "st' = st" using assms(2) False by (auto simp: with_backup_def)
    then show ?thesis using assms(1) by simp
  qed
next
  case True
  then have "st' = st" using assms(2) by (simp add: with_backup_def)
  then show ?thesis using assms(1) by simp
qed

lemma tracked_dispatch:
  assumes "tracked w nodel fs0 p st" "dispatch e w ap st c t = (st', r)" "watched e w fs0 p"
    and "nodel \<Longrightarrow> ch_action c \<noteq> ''delete''" "ch_action c = ''create'' \<Longrightarrow> nodel"
  shows "tracked w nodel fs0 p st'"
proof (cases "ch_action c = ''create''")
  case True
  show ?thesis
  proof (cases "opened (s_fs st) t = None")
    case absent: True
    obtain st1 r1 where sw: "safe_write e w st t (ch_content c) = (st1, r1)"
      by (cases "safe_write e w st t (ch_content c)")
    from sw show ?thesis
    proof (cases rule: safe_write_cases)
      case (failed x)
      then have "st' = st1" using assms(2) True absent by (simp add: dispatch_def sw)
      then show ?thesis using tracked_other [OF assms(1), of st1] failed by simp
    next
      case (written m)
      then have st': "st' = st1\<lparr>s_creates := s_creates st1 @ [t]\<rparr>"
        using assms(2,3) True absent by (simp add: dispatch_def sw watched_def)
      have none: "s_fs st t = None"
      proof (cases "s_fs st t")
        case (Some n)
        then show ?thesis using absent written(7,8) by (cases n) auto
      qed
      show ?thesis
        by (rule tracked_create [OF assms(1) none])
          (use assms(5) [OF True] written in \<open>simp_all add: st'\<close>)
    qed
  qed (use assms True in \<open>simp add: dispatch_def\<close>)
next
  case False
  have step: "tracked w nodel fs0 p st'"
    if "with_backup e w ap st t k = (st', r)" "\<And>st st' r. k st = (st', r) \<Longrightarrow> kept nodel t st st'" for k
    by (rule tracked_with_backup [OF assms(1) that(1) assms(3) that(2)])
  note by_write = step [OF _ write_true_kept] and by_edit = step [OF _ line_edit_kept]
  have by_unlink: "tracked w nodel fs0 p st'" if "with_backup e w ap st t (unlink t) = (st', r)"
      "ch_action c = ''delete''"
    by (rule step [OF that(1) unlink_kept]) (use that(2) assms(4) in blast)+
  show ?thesis
    using assms(2) False unfolding dispatch_def Let_def
    by (simp split: if_split_asm) (use assms(1) by_write by_edit by_unlink in auto)
qed

definition unmixed :: "bool \<Rightarrow> change list \<Rightarrow> bool" where
  "unmixed nodel cs \<longleftrightarrow>
     (\<forall>c \<in> set cs. ch_action c \<noteq> (if nodel then ''delete'' else ''create''))"

lemma tracked_apply_change:
  assumes "tracked w nodel fs0 p st" "apply_change e w ap st c = (st', r)" "watched e w fs0 p"
    and "ch_action c \<noteq> (if nodel then ''delete'' else ''create'')"
  shows "tracked w nodel fs0 p st'"
proof -
  have "st' = st \<or> (\<exists>t. dispatch e w ap st c t = (st', r))"
    using assms(2)
    by (auto simp: apply_change_def split: if_splits sum.splits option.splits bool.splits)
  then show ?thesis
    using tracked_dispatch [OF assms(1) _ assms(3)] assms(1,4) by (cases nodel) auto
qed

lemma run_changes_tracked:
  assumes "tracked w nodel fs0 p st" "run_changes e w ap st n errs cs = (st', r)" "watched e w fs0 p"
    "unmixed nodel cs"
  shows "tracked w nodel fs0 p st'"
  using assms(1,2,4)
proof (induction cs arbitrary: st n errs)
  case (Cons c cs)
  obtain st1 r1 where ac: "apply_change e w ap st c = (st1, r1)"
    by (cases "apply_change e w ap st c")
  have t1: "tracked w nodel fs0 p st1"
    by (rule tracked_apply_change [OF Cons.prems(1) ac assms(3)]) (use Cons.prems(3) in \<open>simp add: unmixed_def\<close>)
  have un: "unmixed nodel cs" using Cons.prems(3) by (simp add: unmixed_def)
  consider "st' = st1" | k er where "run_changes e w ap st k er cs = (st', r)"
    | k er where "run_changes e w ap st1 k er cs = (st', r)"
    | k er m where "run_changes e w ap (st1\<lparr>s_writes := m\<rparr>) k er cs = (st', r)"
    using Cons.prems(2) by (auto simp: ac Let_def split: if_splits sum.splits bool.splits)
  then show ?case
    using Cons.IH [OF _ _ un] Cons.prems(1) t1 iffD2 [OF tracked_count] by cases blast+
qed simp

lemma run_changes_counts:
  "run_changes e w ap st n errs cs = (st', Inr (n', errs')) \<Longrightarrow>
    n' + length errs' = n + length errs + length cs"
proof (induction cs arbitrary: st n errs)
  case (Cons c cs)
  obtain st1 r1 where ac: "apply_change e w ap st c = (st1, r1)"
    by (cases "apply_change e w ap st c")
  show ?case
    using Cons.prems
    by (auto simp: ac Let_def split: if_splits sum.splits bool.splits dest!: Cons.IH)
qed simp

section \<open>Rolling back\<close>

lemma undo_all_out: "undo_all f st out xs = (st', Inr r) \<Longrightarrow> \<exists>ys. r = out @ ys"
proof (induction xs arbitrary: st out)
  case (Cons x xs)
  obtain st1 r1 where "f st x = (st1, r1)" by (cases "f st x")
  then show ?case using Cons.prems by (auto split: sum.splits option.splits dest!: Cons.IH)
qed simp

lemma undo_all_clean:
  assumes "undo_all f st out (x # xs) = (st', Inr [])"
  shows "\<exists>st1. f st x = (st1, Inr None) \<and> undo_all f st1 [] xs = (st', Inr [])"
  using assms undo_all_out [OF assms]
  by (auto split: prod.splits sum.splits option.splits dest: undo_all_out)

lemma restore_one_clean:
  assumes "restore_one e w st (t, b) = (st', Inr None)"
  shows "\<exists>m data. s_fs st' = (s_fs st)(t \<mapsto> Reg m data) \<and> map_of (s_known st) b = Some (w_sha w data) \<and>
    s_known st' = s_known st \<and> s_creates st' = s_creates st"
  using assms
  by (auto simp: restore_one_def absorb_def split: option.splits sum.splits if_splits prod.splits elim!: safe_write_cases)

lemma restore_all_clean:
  assumes "undo_all (restore_one e w) st [] bs = (st', Inr [])"
  shows "s_known st' = s_known st \<and> s_creates st' = s_creates st \<and>
    (case map_of (rev bs) p of None \<Rightarrow> s_fs st' p = s_fs st p
     | Some b \<Rightarrow> \<exists>m data. s_fs st' p = Some (Reg m data) \<and> map_of (s_known st) b = Some (w_sha w data))"
  using assms
proof (induction bs arbitrary: st)
  case (Cons tb bs)
  obtain t b where tb: "tb = (t, b)" by (cases tb)
  obtain st1 where one: "restore_one e w st (t, b) = (st1, Inr None)"
      and rest: "undo_all (restore_one e w) st1 [] bs = (st', Inr [])"
    using undo_all_clean [OF Cons.prems] tb by auto
  show ?case
    using Cons.IH [OF rest] restore_one_clean [OF one]
    by (auto simp: tb map_add_def split: option.splits)
qed simp

lemma remove_all_clean:
  assumes "undo_all (remove_created e) st [] ps = (st', Inr [])"
  shows "s_fs st' p = (if p \<in> set ps then None else s_fs st p)"
  using assms
proof (induction ps arbitrary: st)
  case (Cons q ps)
  obtain st1 where one: "remove_created e st q = (st1, Inr None)"
      and rest: "undo_all (remove_created e) st1 [] ps = (st', Inr [])"
    using undo_all_clean [OF Cons.prems] by auto
  have "s_fs st1 = (s_fs st)(q := None)"
    using one by (auto simp: remove_created_def absorb_def split: option.splits node.splits if_splits)
  then show ?case using Cons.IH [OF rest] by simp
qed simp

definition restored :: "string fs \<Rightarrow> string fs \<Rightarrow> path \<Rightarrow> bool" where
  "restored fs fs' p \<longleftrightarrow> fs' p = fs p \<or>
     (\<exists>m c m'. fs p = Some (Reg m c) \<and> fs' p = Some (Reg m' (universal c)))"

lemma rollback_tracked:
  assumes "tracked w nodel fs0 p st" "rollback e w True st = (st', Inr [])" "inj (w_sha w)"
  shows "restored fs0 (s_fs st') p"
proof -
  obtain st1 where bks: "undo_all (restore_one e w) st [] (rev (s_backups st)) = (st1, Inr [])"
      and gone: "undo_all (remove_created e) st1 [] (rev (s_creates st)) = (st', Inr [])"
    using assms(2) by (auto simp: rollback_def split: prod.splits sum.splits dest: undo_all_out)
  note r = restore_all_clean [OF bks, of p, unfolded rev_rev_ident]
  show ?thesis
  proof (cases "p \<in> set (s_creates st)")
    case True
    then show ?thesis using assms(1) remove_all_clean [OF gone, of p] by (simp add: tracked_def restored_def)
  next
    case False
    then have same: "s_fs st' p = s_fs st1 p" using remove_all_clean [OF gone, of p] by simp
    show ?thesis
    proof (cases "map_of (s_backups st) p")
      case None
      then show ?thesis using assms(1) False same r by (simp add: tracked_def restored_def)
    next
      case (Some b)
      then obtain m c where "fs0 p = Some (Reg m c)" "map_of (s_known st) b = Some (w_sha w (universal c))"
        using assms(1) False unfolding tracked_def by blast
      then show ?thesis using r Some same assms(3) by (auto simp: restored_def inj_eq)
    qed
  qed
qed


lemma demo_fresh: "fresh_stamps (demo_world faults)"
  by (auto simp: fresh_stamps_def demo_world_def inj_def)


section \<open>Sessions that are not restored\<close>

text \<open>
  A file deleted and created anew in one session is removed by the rollback: the restored file is
  on the list of creations. The result reports the mismatch (\<open>ar_complete\<close> is false), with no fault.
\<close>

lemma recreated_file_lost:
  "let (st', r) = apply_session no_env (demo_world [2]) demo_applier (demo_sess (demo_fs ''one''))
       [mk_change ''delete'' ''a'' [], mk_change ''create'' ''a'' ''new'', mk_change ''edit'' ''b'' ''new'']
   in s_fs st' ''/r/a'' = None \<and> s_fs st' ''/r/a.bak.'' \<noteq> None \<and>
     holds r (\<lambda>res. ar_applied res = 2 \<and> ar_reverted res \<and> ar_rollback_errors res = [] \<and> \<not> ar_complete res)"
  by code_simp

text \<open>A file with CR LF line ends is not restored byte by byte: its backup was read as text.\<close>

lemma crlf_file_rewritten:
  "let (st', r) = apply_session no_env (demo_world [2]) demo_applier
       (demo_sess (demo_fs (''x'' @ [CHR 0x0D, CHR 0x0A] @ ''y''))) demo_edits
   in s_fs st' ''/r/a'' = Some (Reg 420 (''x'' @ [CHR 0x0A] @ ''y'')) \<and>
     holds r (\<lambda>res. ar_reverted res \<and> ar_rollback_errors res = [])"
  by code_simp

end
