(* ===== verification/CostLimiter.thy ===== *)
theory CostLimiter
  imports FailFast Money
begin

text \<open>
  Estimated tokens and costs, and the budget of the provider calls of one process
  (\<open>enforcement/cost_limiter.py\<close>). A provider is its attributes and its class name; the text whose
  length is the input estimate is an argument. Amounts are exact rationals.
\<close>

section \<open>Tokens\<close>

record usage =
  u_input :: int
  u_output :: int
  u_total :: int
  u_source :: string

definition ceil_div :: "int \<Rightarrow> int \<Rightarrow> int" where
  "ceil_div a b = - ((- a) div b)"

definition estimate_tokens :: "string \<Rightarrow> int \<Rightarrow> int \<Rightarrow> usage" where
  "estimate_tokens prompt expected attachments =
     (let i = max 1 (ceil_div (int (length prompt)) 4) + max 0 attachments * 768;
          out = max 1 (if expected = 0 then 1 else expected)
      in \<lparr>u_input = i, u_output = out, u_total = i + out, u_source = ''estimated''\<rparr>)"

definition reported_tokens :: "dict \<Rightarrow> (int \<times> int) result" where
  "reported_tokens d =
     bindR (py_int (py_or (dict_get d ''input_tokens'') (dict_get d ''prompt_tokens''))) (\<lambda>i.
     bindR (py_int (py_or (dict_get d ''output_tokens'') (dict_get d ''completion_tokens''))) (\<lambda>j.
     Inr (i, j)))"

definition usage_from_provider :: "env \<Rightarrow> pyv \<Rightarrow> bool \<Rightarrow> string \<Rightarrow> int \<Rightarrow> int \<Rightarrow> usage result" where
  "usage_from_provider e reported trusted prompt expected attachments =
     (let estimate = estimate_tokens prompt expected attachments in
      case reported of
        VDict d \<Rightarrow>
          if trusted
          then bindR (case reported_tokens d of Inr t \<Rightarrow> Inr t | Inl x \<Rightarrow> absorb e x (0, 0)) (\<lambda>(i, j).
            Inr (if 0 < i \<and> 0 \<le> j
                 then \<lparr>u_input = i, u_output = j, u_total = i + j, u_source = ''reported''\<rparr>
                 else estimate))
          else Inr estimate
      | _ \<Rightarrow> Inr estimate)"

section \<open>Prices\<close>

record provider =
  p_attr :: "string \<Rightarrow> pyv"
  p_class :: string

record pricing =
  pr_model :: pyv
  pr_input :: rat
  pr_output :: rat

record cost =
  c_usage :: usage
  c_model :: pyv
  c_usd :: rat
  c_band :: string

definition cost_band :: "rat \<Rightarrow> string" where
  "cost_band tot =
     (if tot = 0 then ''free_or_local''
      else if tot < 1 / 100 then ''low_estimated''
      else if tot < 1 / 10 then ''medium_estimated''
      else ''high_estimated'')"

definition estimate_cost :: "pricing \<Rightarrow> usage \<Rightarrow> cost" where
  "estimate_cost m u =
     (let tot = round_to 8 (of_int (u_input u) / 1000 * pr_input m + of_int (u_output u) / 1000 * pr_output m)
      in \<lparr>c_usage = u, c_model = pr_model m, c_usd = tot, c_band = cost_band tot\<rparr>)"

definition env_float :: "env \<Rightarrow> string \<Rightarrow> rat \<Rightarrow> rat result" where
  "env_float e k d =
     (let raw = py_strip (getenv e k []) in
      if raw = [] then Inr d
      else case parse_float raw of
        Some f \<Rightarrow> Inr f
      | None \<Rightarrow> absorb e (ValueError ''could not convert string to float'') d)"

text \<open>The first attribute that is there and reads as a number.\<close>

fun first_attr :: "env \<Rightarrow> provider \<Rightarrow> string list \<Rightarrow> string \<Rightarrow> rat result" where
  "first_attr e p [] k = env_float e k 0"
| "first_attr e p (a # as) k =
     (case p_attr p a of
        VNone \<Rightarrow> first_attr e p as k
      | v \<Rightarrow> (case py_float v of
          Inr f \<Rightarrow> Inr f
        | Inl x \<Rightarrow> bindR (absorb e x ()) (\<lambda>_. first_attr e p as k)))"

definition float_from_sources :: "env \<Rightarrow> provider \<Rightarrow> string list \<Rightarrow> string \<Rightarrow> string \<Rightarrow> rat result" where
  "float_from_sources e p attrs key k =
     (case p_attr p ''pricing'' of
        VDict d \<Rightarrow> (case py_float (py_or (dict_get d key) (VFloat 0)) of
                     Inr f \<Rightarrow> Inr f
                   | Inl x \<Rightarrow> bindR (absorb e x ()) (\<lambda>_. first_attr e p attrs k))
      | _ \<Rightarrow> first_attr e p attrs k)"

definition model_pricing_from_provider :: "env \<Rightarrow> provider \<Rightarrow> pricing result" where
  "model_pricing_from_provider e p =
     bindR (float_from_sources e p [''price_per_1k_input'', ''input_price_per_1k''] ''price_per_1k_input''
              ''AGI_V8_COST_PRICE_PER_1K_INPUT'') (\<lambda>i.
     bindR (float_from_sources e p [''price_per_1k_output'', ''output_price_per_1k''] ''price_per_1k_output''
              ''AGI_V8_COST_PRICE_PER_1K_OUTPUT'') (\<lambda>out.
     Inr \<lparr>pr_model = py_or (py_or (p_attr p ''model_id'') (p_attr p ''model'')) (VStr (p_class p)),
          pr_input = i, pr_output = out\<rparr>))"

fun first_int_attr :: "env \<Rightarrow> provider \<Rightarrow> string list \<Rightarrow> int \<Rightarrow> int result" where
  "first_int_attr e p [] d = Inr (max 1 d)"
| "first_int_attr e p (a # as) d =
     (case p_attr p a of
        VNone \<Rightarrow> first_int_attr e p as d
      | v \<Rightarrow> (case py_int v of
          Inr i \<Rightarrow> Inr (max 1 i)
        | Inl x \<Rightarrow> bindR (absorb e x ()) (\<lambda>_. first_int_attr e p as d)))"

definition expected_output_tokens_from_provider :: "env \<Rightarrow> provider \<Rightarrow> int \<Rightarrow> int result" where
  "expected_output_tokens_from_provider e p d =
     first_int_attr e p [''budget_expected_output_tokens'', ''expected_output_tokens''] d"

definition estimate_provider_dispatch_cost ::
  "env \<Rightarrow> provider \<Rightarrow> string \<Rightarrow> pyv \<Rightarrow> bool \<Rightarrow> int option \<Rightarrow> cost result" where
  "estimate_provider_dispatch_cost e p request_text reported trusted expected =
     bindR (case expected of Some n \<Rightarrow> Inr (max 1 n) | None \<Rightarrow> expected_output_tokens_from_provider e p 1200) (\<lambda>n.
     bindR (usage_from_provider e reported trusted request_text n 0) (\<lambda>u.
     bindR (model_pricing_from_provider e p) (\<lambda>m. Inr (estimate_cost m u))))"

section \<open>The budget\<close>

definition budget_enforce_enabled :: "env \<Rightarrow> bool" where
  "budget_enforce_enabled e \<longleftrightarrow>
     py_lower (getenv e ''AGI_V8_COST_BUDGET_ENFORCE'' ''false'') \<in> {''1'', ''true'', ''yes'', ''on''}"

definition budget_cap_usd :: "env \<Rightarrow> rat result" where
  "budget_cap_usd e =
     (case parse_float (py_strip (getenv e ''AGI_V8_COST_BUDGET_USD'' ''0.0'')) of
        Some f \<Rightarrow> Inr f
      | None \<Rightarrow> absorb e (ValueError ''could not convert string to float'') 0)"

definition effective_cap :: "env \<Rightarrow> rat option \<Rightarrow> rat result" where
  "effective_cap e cap = (case cap of Some c \<Rightarrow> Inr c | None \<Rightarrow> budget_cap_usd e)"

definition budget_exceeded :: exn where
  "budget_exceeded = RuntimeError ''CostBudgetExceeded''"

definition enforce_budget :: "env \<Rightarrow> rat \<Rightarrow> rat option \<Rightarrow> bool option \<Rightarrow> bool result" where
  "enforce_budget e tot cap raises =
     bindR (effective_cap e cap) (\<lambda>c.
       if c \<le> 0 \<or> tot \<le> c then Inr True
       else if (case raises of Some b \<Rightarrow> b | None \<Rightarrow> budget_enforce_enabled e) then Inl budget_exceeded
       else Inr False)"

record budget_entry =
  b_label :: string
  b_allowed :: bool
  b_amount :: rat
  b_released :: "rat option"
  b_cumulative :: rat
  b_proposed :: rat

record budget =
  bg_cap :: "rat option"
  bg_total :: rat
  bg_records :: "budget_entry list"

definition new_budget :: "rat option \<Rightarrow> budget" where
  "new_budget cap = \<lparr>bg_cap = cap, bg_total = 0, bg_records = []\<rparr>"

text \<open>What both operations do once they know the amount, the base tot and what is released.\<close>

definition settle_total :: "env \<Rightarrow> budget \<Rightarrow> string \<Rightarrow> rat \<Rightarrow> rat option \<Rightarrow> rat \<Rightarrow> budget \<times> rat result" where
  "settle_total e b label amount released base =
     (let proposed = base + amount;
          entry = (\<lambda>ok tot. \<lparr>b_label = label, b_allowed = ok, b_amount = amount, b_released = released,
                     b_cumulative = tot, b_proposed = round_to 8 proposed\<rparr>)
      in case enforce_budget e proposed (bg_cap b) (Some False) of
           Inl x \<Rightarrow> (b, Inl x)
         | Inr False \<Rightarrow> (b\<lparr>bg_records := bg_records b @ [entry False (bg_total b)]\<rparr>, Inl budget_exceeded)
         | Inr True \<Rightarrow>
             (b\<lparr>bg_total := round_to 8 proposed,
                bg_records := bg_records b @ [entry True (round_to 8 proposed)]\<rparr>, Inr amount))"

definition cost_amount :: "dict \<Rightarrow> rat result" where
  "cost_amount d = bindR (py_float (py_or (dict_get d ''estimated_cost_usd'') (VFloat 0))) (\<lambda>f. Inr (max 0 f))"

definition check_and_reserve :: "env \<Rightarrow> budget \<Rightarrow> string \<Rightarrow> dict \<Rightarrow> budget \<times> rat result" where
  "check_and_reserve e b label cost =
     (case cost_amount cost of
        Inl x \<Rightarrow> (b, Inl x)
      | Inr amount \<Rightarrow> settle_total e b label amount None (bg_total b))"

definition replace_reservation :: "env \<Rightarrow> budget \<Rightarrow> string \<Rightarrow> rat \<Rightarrow> dict \<Rightarrow> budget \<times> rat result" where
  "replace_reservation e b label reserved cost =
     (case cost_amount cost of
        Inl x \<Rightarrow> (b, Inl x)
      | Inr amount \<Rightarrow>
          settle_total e b label amount (Some (max 0 reserved)) (max 0 (bg_total b - max 0 reserved)))"

section \<open>What the estimates promise\<close>

definition good_usage :: "usage \<Rightarrow> bool" where
  "good_usage u \<longleftrightarrow> 1 \<le> u_input u \<and> 0 \<le> u_output u \<and> u_total u = u_input u + u_output u \<and>
     u_source u \<in> {''estimated'', ''reported''}"

lemma estimate_tokens_good: "good_usage (estimate_tokens p n a)"
proof -
  have "1 \<le> max 1 (ceil_div (int (length p)) 4) + max 0 a * 768" by (rule add_increasing2) simp_all
  then show ?thesis by (simp add: good_usage_def estimate_tokens_def Let_def)
qed


text \<open>The estimated cost of a usage is never negative and is within half of the eighth decimal of
the exact price, and a usage is called free exactly when that price rounds to nothing.\<close>

theorem estimated_cost_bounds:
  assumes "good_usage u" "0 \<le> pr_input m" "0 \<le> pr_output m"
  shows "0 \<le> c_usd (estimate_cost m u) \<and>
    \<bar>c_usd (estimate_cost m u) - (of_int (u_input u) * pr_input m + of_int (u_output u) * pr_output m) / 1000\<bar>
      \<le> quantum / 2 \<and>
    (c_band (estimate_cost m u) = ''free_or_local'' \<longleftrightarrow> c_usd (estimate_cost m u) = 0)"
proof -
  let ?x = "of_int (u_input u) / 1000 * pr_input m + of_int (u_output u) / 1000 * pr_output m"
  have x: "(of_int (u_input u) * pr_input m + of_int (u_output u) * pr_output m) / 1000 = ?x"
    by (simp add: field_simps)
  have "0 \<le> ?x" using assms by (auto simp: good_usage_def)
  then show ?thesis
    using round_to_error [of 8 ?x] round_to_nonneg [of ?x 8] unfolding x
    by (simp add: estimate_cost_def Let_def cost_band_def quantum_def)
qed

theorem estimated_cost_bounds_witness:
  "0 \<le> c_usd (estimate_cost \<lparr>pr_model = VNone, pr_input = 3 / 10, pr_output = 1\<rparr> (estimate_tokens ''hello'' 7 0))"
  using estimated_cost_bounds [of "estimate_tokens ''hello'' 7 0" "\<lparr>pr_model = VNone, pr_input = 3 / 10, pr_output = 1\<rparr>"]
  by (simp add: estimate_tokens_good)

section \<open>The budget under any use\<close>

datatype budget_op = Reserve string dict | Replace string rat dict

fun budget_step :: "env \<Rightarrow> budget_op \<Rightarrow> budget \<Rightarrow> budget" where
  "budget_step e (Reserve l c) b = fst (check_and_reserve e b l c)"
| "budget_step e (Replace l r c) b = fst (replace_reservation e b l r c)"

definition in_cap :: "env \<Rightarrow> rat \<Rightarrow> budget \<Rightarrow> bool" where
  "in_cap e c b \<longleftrightarrow> effective_cap e (bg_cap b) = Inr c \<and> 0 \<le> bg_total b \<and> bg_total b \<le> c"

lemma settle_tot_cases:
  obtains (kept) "bg_total (fst (settle_total e b l a r base)) = bg_total b"
      "bg_cap (fst (settle_total e b l a r base)) = bg_cap b"
    | (moved) "enforce_budget e (base + a) (bg_cap b) (Some False) = Inr True"
      "bg_total (fst (settle_total e b l a r base)) = round_to 8 (base + a)"
      "bg_cap (fst (settle_total e b l a r base)) = bg_cap b"
proof (cases "enforce_budget e (base + a) (bg_cap b) (Some False)")
  case (Inr ok)
  then show ?thesis by (cases ok) (rule that; simp add: settle_total_def Let_def)+
qed (rule that(1); simp add: settle_total_def Let_def)

lemma settle_in_cap:
  assumes "in_cap e c b" "0 < c" "has_8dp c" "0 \<le> a" "0 \<le> base"
  shows "in_cap e c (fst (settle_total e b l a r base))"
proof (cases rule: settle_tot_cases [of e b l a r base])
  case kept
  then show ?thesis using assms(1) by (simp add: in_cap_def)
next
  case moved
  then have "base + a \<le> c" using assms(1,2)
    by (simp add: in_cap_def enforce_budget_def split: if_splits)
  then have "round_to 8 (base + a) \<le> c"
    using round_to_mono [of "base + a" c 8] round_to_8dp [OF assms(3)] by simp
  then show ?thesis using moved(2,3) assms(1,4,5) by (simp add: in_cap_def round_to_nonneg)
qed

lemma budget_step_in_cap:
  assumes "in_cap e c b" "0 < c" "has_8dp c"
  shows "in_cap e c (budget_step e x b)"
proof -
  have nn: "0 \<le> a" if "cost_amount d = Inr a" for d a using that by (auto simp: cost_amount_def)
  show ?thesis
    using assms settle_in_cap [OF assms] nn
    by (cases x) (auto simp: check_and_reserve_def replace_reservation_def in_cap_def split: sum.splits)
qed

text \<open>Whatever sequence of reservations and replacements a process makes, refused ones included,
the cumulative cost of its budget never goes above a positive cap and never below zero.\<close>

theorem budget_stays_in_cap:
  assumes "effective_cap e cap = Inr c" "0 < c" "has_8dp c"
  shows "0 \<le> bg_total (fold (budget_step e) ops (new_budget cap)) \<and>
    bg_total (fold (budget_step e) ops (new_budget cap)) \<le> c"
proof -
  have "in_cap e c (fold (budget_step e) ops b)" if "in_cap e c b" for b
    using that by (induction ops arbitrary: b) (auto intro: budget_step_in_cap [OF _ assms(2,3)])
  moreover have "in_cap e c (new_budget cap)" using assms(1,2) by (simp add: in_cap_def new_budget_def)
  ultimately show ?thesis by (auto simp: in_cap_def)
qed

definition usd_row :: "rat \<Rightarrow> dict" where "usd_row r = [(''estimated_cost_usd'', VFloat r)]"

theorem budget_stays_in_cap_witness:
  "bg_total (fold (budget_step no_env) [Reserve ''a'' (usd_row (1 / 2)), Reserve ''b'' (usd_row (3 / 4))]
     (new_budget (Some 1))) \<le> 1"
proof -
  have "has_8dp 1" by (simp add: has_8dp_def)
  from budget_stays_in_cap [OF _ _ this, of no_env "Some 1",
      of "[Reserve ''a'' (usd_row (1 / 2)), Reserve ''b'' (usd_row (3 / 4))]"]
  show ?thesis by (simp add: effective_cap_def)
qed

text \<open>A reservation is an escrow: once the real cost replaces it, the cumulative cost has grown by
exactly that cost, whatever had been reserved, as long as both fit under the cap.\<close>

theorem reservation_replaced_by_actual:
  assumes "check_and_reserve e b l x = (b1, Inr reserved)"
    and "replace_reservation e b1 l' reserved y = (b2, Inr actual)"
    and "has_8dp (bg_total b)" "has_8dp reserved" "0 \<le> bg_total b"
  shows "bg_total b2 = round_to 8 (bg_total b + actual)"
proof -
  have b1: "bg_total b1 = bg_total b + reserved" "0 \<le> reserved"
  proof -
    have "has_8dp (bg_total b + reserved)"
    proof -
      obtain i j where "bg_total b = of_int i / 10 ^ 8" "reserved = of_int j / 10 ^ 8"
        using assms(3,4) by (auto simp: has_8dp_iff)
      then have "bg_total b + reserved = of_int (i + j) / 10 ^ 8" by (simp add: add_divide_distrib)
      then show ?thesis using has_8dp_iff by blast
    qed
    then show "bg_total b1 = bg_total b + reserved" "0 \<le> reserved"
      using assms(1)
      by (auto simp: check_and_reserve_def settle_total_def Let_def cost_amount_def round_to_8dp
          split: sum.splits bool.splits)
  qed
  then show ?thesis
    using assms(2,5)
    by (auto simp: replace_reservation_def settle_total_def Let_def split: sum.splits bool.splits)
qed

theorem reservation_replaced_by_actual_witness:
  "bg_total (fst (replace_reservation no_env (fst (check_and_reserve no_env (new_budget (Some 1)) ''a'' (usd_row (1 / 2))))
     ''b'' (1 / 2) (usd_row (1 / 4)))) = 1 / 4"
proof -
  let ?r = "check_and_reserve no_env (new_budget (Some 1)) ''a'' (usd_row (1 / 2))"
  let ?s = "replace_reservation no_env (fst ?r) ''b'' (1 / 2) (usd_row (1 / 4))"
  have r: "snd ?r = Inr (1 / 2)" "snd ?s = Inr (1 / 4)" by code_simp+
  have d: "has_8dp (bg_total (new_budget (Some 1)))" "has_8dp (1 / 2)" "0 \<le> bg_total (new_budget (Some 1))"
    "has_8dp (1 / 4)"
    by code_simp+
  have "bg_total (fst ?s) = round_to 8 (bg_total (new_budget (Some 1)) + 1 / 4)"
    by (rule reservation_replaced_by_actual [OF _ _ d(1-3), of no_env "''a''" "usd_row (1 / 2)" "fst ?r" "''b''" "usd_row (1 / 4)"])
      (simp_all add: prod_eq_iff r)
  then show ?thesis using round_to_8dp [OF d(4)] by (simp add: new_budget_def)
qed

text \<open>
  A real cost that does not fit is refused and forgotten: the cumulative cost keeps the smaller
  reservation of money that was spent, and the next reservation is granted.
\<close>

lemma refused_actual_forgotten:
  "let b1 = fst (check_and_reserve no_env (new_budget (Some 1)) ''a'' (usd_row (1 / 10)));
       (b2, r) = replace_reservation no_env b1 ''a'' (1 / 10) (usd_row 5);
       (b3, s) = check_and_reserve no_env b2 ''b'' (usd_row (1 / 10))
   in r = Inl budget_exceeded \<and> bg_total b2 = 1 / 10 \<and> s = Inr (1 / 10)"
  by code_simp

end
