(* ===== verification/RepeatedFailureGate.thy ===== *)
theory RepeatedFailureGate
  imports Store Json
begin

text \<open>
  The gate against repeating a failure (\<open>runtime/repeated_failure_gate.py\<close>): the signature of a
  failed dispatch, the history of a card, and the decision to skip its next dispatch. The history is
  a ledger of theory \<open>Store\<close>; the hash and the digits of floats are parameters, and signatures are
  compared as JSON values.
\<close>

section \<open>Settings\<close>

definition rf_enabled :: "env \<Rightarrow> bool" where
  "rf_enabled e \<longleftrightarrow> gate_strict e ''AGI_V8_TICK_REPEATED_FAILURE_GATE_ENABLED''"

definition default_threshold :: int where "default_threshold = 1"

definition rf_threshold :: "env \<Rightarrow> int result" where
  "rf_threshold e =
     (case parse_int (getenv e ''AGI_V8_TICK_REPEATED_FAILURE_GATE_THRESHOLD'' (int_text default_threshold)) of
        None \<Rightarrow> absorb e (ValueError ''invalid literal for int() with base 10'') default_threshold
      | Some n \<Rightarrow> Inr (if 1 \<le> n then n else default_threshold))"

definition history_path :: "path \<Rightarrow> path" where
  "history_path dir = dir @ ''/repeated_failure_gate/history.jsonl''"

section \<open>Target and signature\<close>

definition target_key :: "(rat \<Rightarrow> string) \<Rightarrow> dict \<Rightarrow> string option" where
  "target_key fr row =
     (let campaign = dict_get row ''campaign_id''; card = dict_get row ''card_id'' in
      if \<not> truthy campaign \<or> \<not> truthy card then None
      else Some (py_str fr campaign @ ''::'' @ py_str fr card))"

definition json_bool :: "bool \<Rightarrow> string" where
  "json_bool b = (if b then ''true'' else ''false'')"

text \<open>The payload, its keys sorted.\<close>

definition signature_text :: "dict \<Rightarrow> string option \<Rightarrow> string" where
  "signature_text d exc =
     (let flag = (\<lambda>k. json_bool (truthy (dict_get d k))); q = [CHR 0x22] in
      ''{'' @ q @ ''deadline_exceeded'' @ q @ '': '' @ flag ''deadline_exceeded'' @ '', '' @
      q @ ''deadline_unavailable'' @ q @ '': '' @ flag ''deadline_unavailable'' @ '', '' @
      q @ ''exc_type'' @ q @ '': '' @ (case exc of None \<Rightarrow> ''null'' | Some s \<Rightarrow> json_string s) @ '', '' @
      q @ ''ok'' @ q @ '': '' @ flag ''ok'' @ ''}'')"

definition exc_type :: "string option \<Rightarrow> string option" where
  "exc_type err =
     (case err of
        None \<Rightarrow> None
      | Some m \<Rightarrow>
          (let t = take 80 (py_strip (takeWhile (\<lambda>c. c \<noteq> CHR '':'') m)) in if t = [] then None else Some t))"

definition failure_signature :: "(string \<Rightarrow> string) \<Rightarrow> pyv \<Rightarrow> string option \<Rightarrow> string option" where
  "failure_signature sha dres err =
     (let d = (case dres of VDict d \<Rightarrow> d | _ \<Rightarrow> []) in
      if err = None \<and> dict_get d ''ok'' = VBool True then None
      else Some (take 12 (sha (signature_text d (exc_type err)))))"

section \<open>The decision\<close>

fun tail_rows :: "(rat \<Rightarrow> string) \<Rightarrow> string \<Rightarrow> nat \<Rightarrow> pyv list \<Rightarrow> pyv list result" where
  "tail_rows fr target n [] = Inr []"
| "tail_rows fr target n (VDict r # rs) =
     (if py_str fr (dict_get r ''target'') \<noteq> target then tail_rows fr target n rs
      else if n \<le> 1 then Inr [dict_get r ''signature'']
      else bindR (tail_rows fr target (n - 1) rs) (\<lambda>out. Inr (dict_get r ''signature'' # out)))"
| "tail_rows fr target n (_ # rs) = Inl (AttributeError ''get'')"

definition tail_signatures ::
  "env \<Rightarrow> (rat \<Rightarrow> string) \<Rightarrow> ledger_fs \<Rightarrow> path \<Rightarrow> string \<Rightarrow> nat \<Rightarrow> pyv list result" where
  "tail_signatures e fr fs dir target n =
     (case read_jsonl fs (history_path dir) of
        Inl x \<Rightarrow> absorb e x []
      | Inr rows \<Rightarrow> tail_rows fr target n (rev rows))"

record observation =
  ob_target :: string
  ob_tail :: "pyv list"
  ob_threshold :: int
  ob_repeated :: "pyv option"

definition should_skip ::
  "env \<Rightarrow> (rat \<Rightarrow> string) \<Rightarrow> ledger_fs \<Rightarrow> path \<Rightarrow> dict \<Rightarrow> (bool \<times> observation option) result" where
  "should_skip e fr fs dir row =
     (if \<not> rf_enabled e then Inr (False, None)
      else case target_key fr row of
        None \<Rightarrow> Inr (False, None)
      | Some target \<Rightarrow>
          bindR (rf_threshold e) (\<lambda>n.
          bindR (tail_signatures e fr fs dir target (nat n)) (\<lambda>t.
            let ob = \<lparr>ob_target = target, ob_tail = t, ob_threshold = n, ob_repeated = None\<rparr> in
            if length t < nat n \<or> hd t = VNone \<or> list_ex (\<lambda>s. s \<noteq> hd t) t then Inr (False, Some ob)
            else Inr (True, Some (ob\<lparr>ob_repeated := Some (hd t)\<rparr>)))))"

definition outcome_row ::
  "(rat \<Rightarrow> string) \<Rightarrow> (string \<Rightarrow> string) \<Rightarrow> string \<Rightarrow> pyv \<Rightarrow> string option \<Rightarrow> string \<Rightarrow> rat \<Rightarrow> dict" where
  "outcome_row fr sha target dres err cycle now =
     [(''schema_version'', VStr ''repeated_failure_gate_history_v1''), (''target'', VStr target),
      (''signature'', case failure_signature sha dres err of None \<Rightarrow> VNone | Some s \<Rightarrow> VStr s),
      (''cycle_id'', VStr cycle), (''ts'', VFloat now)]"

definition record_outcome ::
  "env \<Rightarrow> (rat \<Rightarrow> string) \<Rightarrow> (string \<Rightarrow> string) \<Rightarrow> nat \<Rightarrow> wr \<Rightarrow> path \<Rightarrow> dict \<Rightarrow> pyv \<Rightarrow> string option \<Rightarrow> string \<Rightarrow> rat
    \<Rightarrow> ledger_fs \<Rightarrow> ledger_fs \<times> unit result" where
  "record_outcome e fr sha umask w dir row dres err cycle now fs =
     (if \<not> rf_enabled e then (fs, Inr ())
      else case target_key fr row of
        None \<Rightarrow> (fs, Inr ())
      | Some target \<Rightarrow>
          (case atomic_append_jsonl e umask w 0 0 (history_path dir)
                  (VDict (outcome_row fr sha target dres err cycle now)) fs of
             (fs', Inl x) \<Rightarrow> (fs', absorb e x ())
           | (fs', Inr u) \<Rightarrow> (fs', Inr u)))"

section \<open>A card's history\<close>

text \<open>One settled dispatch: its row, its result, its error, its cycle and its time.\<close>

type_synonym settlement = "dict \<times> pyv \<times> string option \<times> string \<times> rat"

definition record_all ::
  "env \<Rightarrow> (rat \<Rightarrow> string) \<Rightarrow> (string \<Rightarrow> string) \<Rightarrow> nat \<Rightarrow> path \<Rightarrow> settlement list \<Rightarrow> ledger_fs \<Rightarrow> ledger_fs" where
  "record_all e fr sha umask dir ss fs =
     fold (\<lambda>(row, dres, err, cycle, now) fs. fst (record_outcome e fr sha umask WrOk dir row dres err cycle now fs)) ss fs"

definition settled_rows :: "(rat \<Rightarrow> string) \<Rightarrow> (string \<Rightarrow> string) \<Rightarrow> settlement list \<Rightarrow> dict list" where
  "settled_rows fr sha ss =
     concat (map (\<lambda>(row, dres, err, cycle, now). case target_key fr row of None \<Rightarrow> []
        | Some t \<Rightarrow> [outcome_row fr sha t dres err cycle now]) ss)"

definition signatures_of ::
  "(rat \<Rightarrow> string) \<Rightarrow> (string \<Rightarrow> string) \<Rightarrow> string \<Rightarrow> settlement list \<Rightarrow> string option list" where
  "signatures_of fr sha t ss =
     map (\<lambda>(row, dres, err, cycle, now). failure_signature sha dres err)
       (filter (\<lambda>(row, _). target_key fr row = Some t) ss)"

lemma record_all_rows:
  assumes "rf_enabled e" "ledger_ok (history_path dir) fs"
  shows "ledger_ok (history_path dir) (record_all e fr sha umask dir ss fs) \<and>
    ledger_rows (history_path dir) (record_all e fr sha umask dir ss fs) =
      ledger_rows (history_path dir) fs @ map VDict (settled_rows fr sha ss)"
  using assms(2)
proof (induction ss arbitrary: fs)
  case (Cons s ss)
  obtain row dres err cycle now where s: "s = (row, dres, err, cycle, now)" by (cases s)
  show ?case
  proof (cases "target_key fr row")
    case None
    then have "record_all e fr sha umask dir (s # ss) fs = record_all e fr sha umask dir ss fs"
      by (simp add: record_all_def s record_outcome_def)
    then show ?thesis using Cons.IH [OF Cons.prems] None by (simp add: settled_rows_def s)
  next
    case (Some t)
    let ?row = "VDict (outcome_row fr sha t dres err cycle now)"
    let ?fs = "ledger_append e umask (history_path dir) ?row fs"
    have "fst (record_outcome e fr sha umask WrOk dir row dres err cycle now fs) = ?fs"
      using assms(1) Some by (simp add: record_outcome_def ledger_append_def split: prod.splits sum.splits)
    then have "record_all e fr sha umask dir (s # ss) fs = record_all e fr sha umask dir ss ?fs"
      by (simp add: record_all_def s)
    then show ?thesis
      using Cons.IH [OF ledger_append_ok [OF Cons.prems]] ledger_rows_append [OF Cons.prems] Some
      by (simp add: settled_rows_def s)
  qed
qed (simp add: record_all_def settled_rows_def)

lemma tail_rows_take:
  "1 \<le> n \<Longrightarrow> tail_rows fr t n (map VDict ds) =
    Inr (take n (map (\<lambda>d. dict_get d ''signature'') (filter (\<lambda>d. py_str fr (dict_get d ''target'') = t) ds)))"
proof (induction ds arbitrary: n)
  case (Cons d ds)
  then show ?case by (cases "n = 1") (auto simp: take_Cons')
qed simp

definition signature_value :: "string option \<Rightarrow> pyv" where
  "signature_value s = (case s of None \<Rightarrow> VNone | Some t \<Rightarrow> VStr t)"

lemma signature_value_simps [simp]:
  "signature_value s = VNone \<longleftrightarrow> s = None" "signature_value s = signature_value t \<longleftrightarrow> s = t"
  by (simp_all add: signature_value_def split: option.splits)

lemma outcome_row_get [simp]:
  "dict_get (outcome_row fr sha t dres err cycle now) ''target'' = VStr t"
  "dict_get (outcome_row fr sha t dres err cycle now) ''signature'' = signature_value (failure_signature sha dres err)"
  by (simp_all add: outcome_row_def dict_get_def signature_value_def)

lemma settled_signatures:
  "map (\<lambda>d. dict_get d ''signature'') (filter (\<lambda>d. py_str fr (dict_get d ''target'') = t) (settled_rows fr sha ss)) =
    map signature_value (signatures_of fr sha t ss)"
  by (induction ss) (auto simp: settled_rows_def signatures_of_def split: option.splits)

lemma tail_signatures_recorded:
  assumes "rf_enabled e" "ledger_ok (history_path dir) fs" "ledger_rows (history_path dir) fs = []" "1 \<le> n"
  shows "tail_signatures e fr (record_all e fr sha umask dir ss fs) dir t n =
    Inr (map signature_value (take n (rev (signatures_of fr sha t ss))))"
proof -
  have "read_jsonl (record_all e fr sha umask dir ss fs) (history_path dir) =
      Inr (map VDict (settled_rows fr sha ss))"
    using record_all_rows [OF assms(1,2)] ledger_read_ok assms(3) by simp
  then show ?thesis
    using tail_rows_take [OF assms(4), of fr t "rev (settled_rows fr sha ss)"] settled_signatures [of fr t sha ss]
    by (simp add: tail_signatures_def rev_map [symmetric] rev_filter [symmetric] take_map)
      (simp add: rev_map take_map)
qed

lemma all_same_iff:
  assumes "1 \<le> n"
  shows "\<not> (length (take n xs) < n \<or> hd (take n xs) = None \<or> list_ex (\<lambda>s. s \<noteq> hd (take n xs)) (take n xs)) \<longleftrightarrow>
    (\<exists>s. take n xs = replicate n (Some s))"
proof
  assume a: "\<not> (length (take n xs) < n \<or> hd (take n xs) = None \<or> list_ex (\<lambda>s. s \<noteq> hd (take n xs)) (take n xs))"
  then have "take n xs = replicate n (hd (take n xs))"
    by (intro replicate_eqI) (auto simp: list_ex_iff)
  then show "\<exists>s. take n xs = replicate n (Some s)" using a by auto
next
  assume "\<exists>s. take n xs = replicate n (Some s)"
  then obtain s where "take n xs = replicate n (Some s)" by blast
  then show "\<not> (length (take n xs) < n \<or> hd (take n xs) = None \<or> list_ex (\<lambda>s. s \<noteq> hd (take n xs)) (take n xs))"
    using assms by (auto simp: list_ex_iff)
qed

text \<open>The next dispatch of a card is skipped exactly when its last \<open>n\<close> settled dispatches, \<open>n\<close> the
threshold, all failed with one and the same signature: other cards, older failures and the order in
which cards were settled do not matter, and one success or one different failure lets it through.\<close>

theorem skipped_iff_repeated:
  assumes "rf_enabled e" "target_key fr row = Some t" "rf_threshold e = Inr n"
    and "ledger_ok (history_path dir) fs" "ledger_rows (history_path dir) fs = []"
  shows "\<exists>b ob. should_skip e fr (record_all e fr sha umask dir ss fs) dir row = Inr (b, Some ob) \<and>
    (b \<longleftrightarrow> (\<exists>s. take (nat n) (rev (signatures_of fr sha t ss)) = replicate (nat n) (Some s)))"
proof -
  let ?xs = "rev (signatures_of fr sha t ss)"
  have n: "1 \<le> nat n" using assms(3)
    by (auto simp: rf_threshold_def default_threshold_def absorb_def split: option.splits if_splits)
  have tl: "tail_signatures e fr (record_all e fr sha umask dir ss fs) dir t (nat n) =
      Inr (map signature_value (take (nat n) ?xs))"
    by (rule tail_signatures_recorded [OF assms(1,4,5) n])
  show ?thesis
  proof (cases "length (take (nat n) ?xs) < nat n")
    case True
    then have "\<nexists>s. take (nat n) ?xs = replicate (nat n) (Some s)" by (metis length_replicate less_irrefl)
    moreover have "length (signatures_of fr sha t ss) < nat n" using True by simp
    ultimately show ?thesis by (auto simp: should_skip_def assms(1-3) tl Let_def)
  next
    case False
    then have "take (nat n) ?xs \<noteq> []" using n by auto
    then have h: "hd (map signature_value (take (nat n) ?xs)) = signature_value (hd (take (nat n) ?xs))"
      by (rule hd_map)
    show ?thesis
      using all_same_iff [OF n, of ?xs] False
      by (auto simp: should_skip_def assms(1-3) tl Let_def h list_ex_iff)
  qed
qed

text \<open>The message of an error is no part of the signature.\<close>

lemma signature_of_type:
  "CHR '':'' \<notin> set t \<Longrightarrow>
    failure_signature sha d (Some (t @ '':'' @ m)) = failure_signature sha d (Some (t @ '':'' @ m'))"
proof -
  assume t: "CHR '':'' \<notin> set t"
  have "takeWhile (\<lambda>c. c \<noteq> CHR '':'') (t @ '':'' @ m) = t" for m
    using t by (induction t) auto
  then show ?thesis by (simp only: failure_signature_def exc_type_def option.case Let_def) simp
qed

definition gate_env :: env where
  "gate_env = no_env(''AGI_V8_TICK_REPEATED_FAILURE_GATE_ENABLED'' \<mapsto> ''1'')"

definition card_row :: dict where
  "card_row = [(''campaign_id'', VStr ''c''), (''card_id'', VStr ''k'')]"

theorem skipped_iff_repeated_witness:
  "\<exists>ob. should_skip gate_env (\<lambda>_. []) (record_all gate_env (\<lambda>_. []) (\<lambda>s. s) 18 ''/s''
      [(card_row, VDict [], Some ''OSError: x'', ''c1'', 0)] empty_fs) ''/s'' card_row = Inr (True, Some ob)"
proof -
  let ?ss = "[(card_row, VDict [], Some ''OSError: x'', ''c1'', 0)] :: settlement list"
  have en: "rf_enabled gate_env" by code_simp
  have tk: "target_key (\<lambda>_. []) card_row = Some ''c::k''" by code_simp
  have th: "rf_threshold gate_env = Inr 1"
  proof -
    have "holds (rf_threshold gate_env) (\<lambda>n. n = 1)" by code_simp
    then show ?thesis by (auto elim: holdsE)
  qed
  have "take (nat 1) (rev (signatures_of (\<lambda>_. []) (\<lambda>s. s) ''c::k'' ?ss)) =
      replicate (nat 1) (Some ''{\"deadline_e'')"
    by code_simp
  then show ?thesis
    using skipped_iff_repeated [OF en tk th, of "''/s''" empty_fs "\<lambda>s. s" 18 ?ss] by auto
qed

end
