(* ===== verification/ExecutionAuthority.thy ===== *)
theory ExecutionAuthority
  imports ApplySession
begin

text \<open>
  The one authorization every execution channel of the apply ladder asks
  (\<open>policy/execution_authority.py\<close>): what a verdict permits, which commands were reviewed, and the
  digest that binds a verdict to its changes. The hash is a parameter; commands are texts.
\<close>

section \<open>Gates\<close>

definition execution_authority_enabled :: "env \<Rightarrow> bool" where
  "execution_authority_enabled e \<longleftrightarrow>
     py_lower (py_strip (getenv e ''AGI_V8_SI_EXECUTION_AUTHORITY_ENABLED'' ''true'')) \<notin> {''false'', ''0''}"

definition unwired_rejects_enabled :: "env \<Rightarrow> bool" where
  "unwired_rejects_enabled e \<longleftrightarrow>
     py_lower (py_strip (getenv e ''AGI_V8_EXECUTION_AUTHORITY_UNWIRED_REJECTS_ENABLED'' [])) \<in> {''true'', ''1''}"

section \<open>Digests\<close>

definition command_digest :: "(string \<Rightarrow> string) \<Rightarrow> string \<Rightarrow> string" where
  "command_digest sha c = sha (py_strip c)"

definition us :: char where "us = CHR 0x1F"
definition rs :: char where "rs = CHR 0x1E"

text \<open>A change with the content it replaced (\<open>old_content\<close>).\<close>

definition digest_parts :: "change \<times> string \<Rightarrow> string list" where
  "digest_parts co = (case co of (c, old) \<Rightarrow>
     [ch_path c, ch_action c, ch_content c, old, ch_target c, ch_replacement c])"

definition changes_digest :: "(string \<Rightarrow> string) \<Rightarrow> (change \<times> string) list \<Rightarrow> string" where
  "changes_digest sha cs = sha (concat (map (\<lambda>co. join [us] (digest_parts co) @ [rs]) cs))"

section \<open>Authorization\<close>

record authorization =
  a_consensus :: bool
  a_verify :: bool
  a_write_on :: bool
  a_file_write :: bool
  a_command_exec :: bool
  a_artifact_exec :: bool
  a_digests :: "string set"
  a_readonly :: bool
  a_unwired :: bool

definition compute_authorization ::
  "env \<Rightarrow> (string \<Rightarrow> string) \<Rightarrow> bool option \<Rightarrow> bool option \<Rightarrow> bool \<Rightarrow> string list \<Rightarrow> bool \<Rightarrow> authorization" where
  "compute_authorization e sha consensus verify write_on approved readonly =
     (let unwired = (consensus = None \<or> verify = None);
          core = (consensus = Some True \<and> verify = Some True);
          rejected = (unwired \<and> unwired_rejects_enabled e);
          exec = (core \<and> \<not> rejected)
      in \<lparr>a_consensus = (consensus = Some True), a_verify = (verify = Some True), a_write_on = write_on,
          a_file_write = (core \<and> write_on \<and> \<not> rejected), a_command_exec = exec,
          a_artifact_exec = (core \<and> write_on \<and> \<not> rejected),
          a_digests = (if exec then set (map (command_digest sha) approved) else {}),
          a_readonly = (readonly \<and> \<not> rejected), a_unwired = unwired\<rparr>)"

definition command_authorized :: "(string \<Rightarrow> string) \<Rightarrow> authorization \<Rightarrow> string \<Rightarrow> bool" where
  "command_authorized sha a c \<longleftrightarrow> a_command_exec a \<and> command_digest sha c \<in> a_digests a"

section \<open>Properties\<close>

text \<open>A command may run exactly when the cycle reached consensus, its verification passed, and the
command is, up to surrounding white space, one of those that were reviewed; in particular no state of
the write switch and no gate lets an unreviewed command through.\<close>

theorem command_authorized_iff:
  assumes "inj sha"
  shows "command_authorized sha (compute_authorization e sha consensus verify w approved ro) c \<longleftrightarrow>
    consensus = Some True \<and> verify = Some True \<and> (\<exists>a \<in> set approved. py_strip a = py_strip c)"
proof -
  have "command_digest sha c \<in> set (map (command_digest sha) approved) \<longleftrightarrow>
      (\<exists>a \<in> set approved. py_strip a = py_strip c)"
    using assms by (auto simp: command_digest_def inj_eq) (metis image_eqI)
  then show ?thesis by (auto simp: command_authorized_def compute_authorization_def Let_def)
qed

theorem command_authorized_iff_witness:
  "command_authorized demo_hash
     (compute_authorization no_env demo_hash (Some True) (Some True) False [''ls ''] False) ''ls''"
proof -
  have "py_strip ''ls '' = py_strip ''ls''" by code_simp
  then show ?thesis
    using command_authorized_iff [of demo_hash no_env "Some True" "Some True" False "[''ls '']" False "''ls''"]
      demo_hash_sound by (simp add: sound_hash_def)
qed

definition implied :: "bool option \<Rightarrow> bool option \<Rightarrow> bool" where
  "implied a b \<longleftrightarrow> (a = Some True \<longrightarrow> b = Some True)"

text \<open>The permissions are monotone: every channel open to a verdict is open to any verdict with
more of its inputs true, under any environment; a file may be written or an artifact run only where a
command may be run; and an input the caller admits it does not have opens nothing.\<close>

theorem authority_monotone:
  assumes "implied c c'" "implied v v'" "w \<longrightarrow> w'" "set cmds \<subseteq> set cmds'"
    and "a = compute_authorization e sha c v w cmds ro" "b = compute_authorization e' sha c' v' w' cmds' ro'"
  shows "(a_file_write a \<longrightarrow> a_file_write b) \<and> (a_command_exec a \<longrightarrow> a_command_exec b) \<and>
    (a_artifact_exec a \<longrightarrow> a_artifact_exec b) \<and> a_digests a \<subseteq> a_digests b \<and>
    (a_file_write a \<or> a_artifact_exec a \<longrightarrow> a_command_exec a) \<and> (a_unwired a \<longrightarrow> \<not> a_command_exec a)"
  using assms by (auto simp: compute_authorization_def Let_def implied_def)

theorem authority_monotone_witness:
  "a_command_exec (compute_authorization no_env demo_hash (Some True) (Some True) True [] False)"
  using authority_monotone [OF _ _ _ _ refl refl, of "Some True" "Some True" "Some True" "Some True" False True "[]" "[]"
      no_env demo_hash False no_env False]
  by (simp add: implied_def compute_authorization_def)

section \<open>What the digest binds\<close>

definition plain_text :: "string \<Rightarrow> bool" where
  "plain_text s \<longleftrightarrow> us \<notin> set s \<and> rs \<notin> set s"

lemma join_inj:
  assumes "length xs = length ys" "\<forall>s \<in> set xs \<union> set ys. us \<notin> set s" "join [us] xs = join [us] ys"
  shows "xs = ys"
  using assms
proof (induction xs ys rule: list_induct2)
  case (Cons x xs y ys)
  show ?case
  proof (cases "xs = [] \<or> ys = []")
    case True
    then show ?thesis using Cons by auto
  next
    case False
    then obtain x' xs' y' ys' where "xs = x' # xs'" "ys = y' # ys'" by (meson neq_Nil_conv)
    then have "x @ us # join [us] xs = y @ us # join [us] ys" using Cons.prems(2) by simp
    then have "x = y \<and> join [us] xs = join [us] ys"
      by (rule first_break) (use Cons.prems(1) in simp_all)
    then show ?thesis using Cons.IH Cons.prems(1) by simp
  qed
qed simp

lemma digest_text_inj:
  assumes "\<forall>co \<in> set cs \<union> set ds. list_all plain_text (digest_parts co)"
    and "concat (map (\<lambda>co. join [us] (digest_parts co) @ [rs]) cs) =
      concat (map (\<lambda>co. join [us] (digest_parts co) @ [rs]) ds)"
  shows "map digest_parts cs = map digest_parts ds"
  using assms
proof (induction cs arbitrary: ds)
  case Nil
  then show ?case by (cases ds) auto
next
  case (Cons c cs)
  obtain d ds' where ds: "ds = d # ds'" using Cons.prems(2) by (cases ds) auto
  have free: "rs \<notin> set (join [us] ps)" if "list_all plain_text ps" for ps
    using that by (induction "[us]" ps rule: join.induct) (auto simp: plain_text_def us_def rs_def)
  have eq: "join [us] (digest_parts c) @ rs # concat (map (\<lambda>co. join [us] (digest_parts co) @ [rs]) cs) =
      join [us] (digest_parts d) @ rs # concat (map (\<lambda>co. join [us] (digest_parts co) @ [rs]) ds')"
    using Cons.prems(2) by (simp add: ds)
  have j: "join [us] (digest_parts c) = join [us] (digest_parts d) \<and>
      concat (map (\<lambda>co. join [us] (digest_parts co) @ [rs]) cs) =
      concat (map (\<lambda>co. join [us] (digest_parts co) @ [rs]) ds')"
    by (rule first_break [OF eq]) (use free Cons.prems(1) in \<open>simp_all add: ds\<close>)
  have "digest_parts c = digest_parts d"
    by (rule join_inj [OF _ _ conjunct1 [OF j]])
      (use Cons.prems(1) in \<open>auto simp: ds digest_parts_def plain_text_def list_all_iff split: prod.splits\<close>)
  then show ?case using Cons.IH [of ds'] Cons.prems(1) j by (simp add: ds)
qed



text \<open>
  The side of the anchor an \<open>insert_line\<close> goes to is not among the parts, so two changes with the same
  digest write different files; and a separator inside a content moves the boundary between fields.
\<close>

lemma digest_misses_position:
  "changes_digest sha [(c\<lparr>ch_position := ''before''\<rparr>, old)] = changes_digest sha [(c\<lparr>ch_position := ''after''\<rparr>, old)]"
  by (simp add: changes_digest_def digest_parts_def)

lemma position_changes_file:
  "flexible_insert_line no_env (\<lambda>_ _ _. None) ''a'' ''a'' ''b'' ''before'' \<noteq>
   flexible_insert_line no_env (\<lambda>_ _ _. None) ''a'' ''a'' ''b'' ''after''"
  by code_simp

lemma digest_separator_collision:
  "changes_digest sha [(mk_change ''edit'' ''a'' (''x'' @ [us] @ ''y''), [])] =
   changes_digest sha [(mk_change ''edit'' ''a'' ''x'', ''y'' @ [us])]"
  by (simp add: changes_digest_def digest_parts_def mk_change_def)

end
