(* ===== verification/JsonText.thy ===== *)
theory JsonText
  imports Json
begin

text \<open>
  The JSON texts the program signs are unambiguous: two values print to the same text only if they are
  equal. A text is read back from its first character, and the number texts by the characters
  that can follow them. The printer of floats is the parameter \<open>fr\<close>; \<open>float_repr\<close> is what
  Python documents of \<open>repr(float)\<close>.
\<close>

section \<open>Strings\<close>

definition unescape :: "char \<Rightarrow> char" where
  "unescape c =
     (if c = CHR ''n'' then char_of (10 :: nat) else if c = CHR ''r'' then char_of (13 :: nat)
      else if c = CHR ''t'' then char_of (9 :: nat) else if c = CHR ''b'' then char_of (8 :: nat)
      else if c = CHR ''f'' then char_of (12 :: nat) else c)"

definition hex_val :: "char \<Rightarrow> nat" where
  "hex_val c = (if char_code c < 58 then char_code c - 48 else char_code c - 87)"

text \<open>The first character of an escaped text, and what follows it.\<close>

fun read_char :: "string \<Rightarrow> (char \<times> string) option" where
  "read_char [] = None"
| "read_char (c # cs) =
     (if c \<noteq> CHR 0x5C then Some (c, cs)
      else case cs of
        [] \<Rightarrow> None
      | x # r \<Rightarrow>
          if x \<noteq> CHR ''u'' then Some (unescape x, r)
          else case r of
            _ # _ # a # b # r' \<Rightarrow> Some (char_of (16 * hex_val a + hex_val b), r')
          | _ \<Rightarrow> None)"

lemma char_of_code [simp]: "char_of (char_code c) = c"
  by (simp add: char_code_def)

lemma char_code_bound [simp]: "char_code c < 256"
  unfolding char_code_def by (cases c) (auto simp: of_char_def intro!: order.strict_trans2 [OF horner_sum_of_bool_2_less])

lemma char_code_of [simp]: "n < 256 \<Longrightarrow> char_code (char_of n) = n"
  by (simp add: char_code_def)

lemma hex_val_digit [simp]: "n < 16 \<Longrightarrow> hex_val (hex_digit n) = n"
  by (simp add: hex_val_def hex_digit_def)

lemma char_by_code: "char_code c = n \<Longrightarrow> c = char_of n"
  by auto

lemma named_codes:
  "char_code CHR 0x22 = 34" "char_code CHR 0x5C = 92" "char_code CHR ''u'' = 117"
  by code_simp+

lemma read_unicode_escape: "read_char (unicode_escape c) = Some (c, [])"
proof -
  have "hex_val (hex_digit (char_code c div 16)) = char_code c div 16"
       "hex_val (hex_digit (char_code c mod 16)) = char_code c mod 16"
    using char_code_bound [of c] by (simp_all add: less_mult_imp_div_less)
  then show ?thesis by (simp add: unicode_escape_def)
qed

lemma json_char_shape:
  "json_char c \<in> {[c], unicode_escape c} \<and> (json_char c = [c] \<longrightarrow> c \<noteq> CHR 0x22 \<and> c \<noteq> CHR 0x5C) \<or>
   (\<exists>x. json_char c = [CHR 0x5C, x] \<and> x \<noteq> CHR ''u'' \<and> unescape x = c)"
proof -
  consider "char_code c \<in> {34, 92}" | "char_code c \<in> {10, 13, 9, 8, 12}"
    | "char_code c \<notin> {34, 92, 10, 13, 9, 8, 12}"
    by blast
  then show ?thesis
  proof cases
    case 1
    then have "c = CHR 0x22 \<or> c = CHR 0x5C" using char_by_code [of c] by (auto simp: char_of_def bit_0)
    moreover have "json_char CHR 0x22 = [CHR 0x5C, CHR 0x22]" "unescape CHR 0x22 = CHR 0x22"
        "json_char CHR 0x5C = [CHR 0x5C, CHR 0x5C]" "unescape CHR 0x5C = CHR 0x5C"
      by code_simp+
    ultimately show ?thesis by (elim disjE) simp_all
  next
    case 2
    then have "c \<in> {char_of (10 :: nat), char_of (13 :: nat), char_of (9 :: nat), char_of (8 :: nat), char_of (12 :: nat)}"
      by (metis char_of_code insert_iff empty_iff)
    moreover have "json_char (char_of (10 :: nat)) = [CHR 0x5C, CHR ''n'']" "json_char (char_of (13 :: nat)) = [CHR 0x5C, CHR ''r'']"
        "json_char (char_of (9 :: nat)) = [CHR 0x5C, CHR ''t'']" "json_char (char_of (8 :: nat)) = [CHR 0x5C, CHR ''b'']"
        "json_char (char_of (12 :: nat)) = [CHR 0x5C, CHR ''f'']"
      by (simp_all add: json_char_def)
    ultimately show ?thesis by (elim insertE emptyE) (simp_all add: unescape_def)
  next
    case 3
    then have "c \<noteq> CHR 0x22" "c \<noteq> CHR 0x5C" using named_codes by auto
    then show ?thesis using 3 by (simp add: json_char_def Let_def)
  qed
qed

lemma read_raw_char: "read_char (raw_char c) = Some (c, []) \<and> hd (raw_char c) \<noteq> CHR 0x22"
proof (cases "char_code c < 127")
  case True
  then have "raw_char c = json_char c" by (simp add: raw_char_def)
  then show ?thesis
    using json_char_shape [of c] read_unicode_escape [of c] by (auto simp: unicode_escape_def)
next
  case False
  then show ?thesis using named_codes by (auto simp: raw_char_def)
qed

lemma read_char_append: "read_char s = Some (c, []) \<Longrightarrow> read_char (s @ x) = Some (c, x)"
  by (cases s) (auto split: if_splits list.splits)

lemma read_char_raw [simp]: "read_char (raw_char c @ x) = Some (c, x)"
  using read_raw_char read_char_append by blast

lemma raw_char_ne [simp]: "raw_char c \<noteq> []"
  using read_raw_char by (metis option.distinct(1) read_char.simps(1))

lemma raw_char_hd: "raw_char c @ x \<noteq> CHR 0x22 # y"
  using read_raw_char raw_char_ne by (metis hd_append2 list.sel(1))

lemma escaped_unique:
  "concat (map raw_char a) @ CHR 0x22 # s = concat (map raw_char b) @ CHR 0x22 # t \<Longrightarrow> a = b \<and> s = t"
proof (induction a arbitrary: b)
  case Nil
  then show ?case
    by (cases b) (simp_all, metis append.assoc raw_char_hd)
next
  case (Cons c a)
  show ?case
  proof (cases b)
    case Nil
    then show ?thesis
      using Cons.prems by (simp, metis append.assoc raw_char_hd)
  next
    case (Cons d b')
    then have eq: "raw_char c @ (concat (map raw_char a) @ CHR 0x22 # s) =
        raw_char d @ (concat (map raw_char b') @ CHR 0x22 # t)"
      using Cons.prems by simp
    then have "c = d \<and> concat (map raw_char a) @ CHR 0x22 # s = concat (map raw_char b') @ CHR 0x22 # t"
      by (metis option.inject prod.inject read_char_raw)
    then show ?thesis
      using Cons.IH Cons by blast
  qed
qed

lemma raw_string_unique: "raw_string a @ s = raw_string b @ t \<Longrightarrow> a = b \<and> s = t"
  unfolding raw_string_def by (rule escaped_unique) simp

section \<open>Numbers\<close>

definition digits_val :: "string \<Rightarrow> nat" where
  "digits_val s = foldl (\<lambda>n c. 10 * n + (char_code c - 48)) 0 s"

lemma digits_val_nat [simp]: "digits_val (nat_text n) = n"
proof (induction n rule: nat_text.induct)
  case (1 n)
  then show ?case
    by (subst nat_text.simps) (auto simp: digits_val_def)
qed

lemma nat_text_digits: "c \<in> set (nat_text n) \<Longrightarrow> is_digit c"
proof (induction n rule: nat_text.induct)
  case (1 n)
  then show ?case
    by (subst (asm) (2) nat_text.simps) (auto simp: is_digit_def split: if_splits)
qed

lemma nat_text_ne [simp]: "nat_text n \<noteq> []"
  by (subst nat_text.simps) simp

lemma minus_not_digit [simp]: "\<not> is_digit CHR ''-''"
  by code_simp

lemma int_text_inject [simp]: "int_text i = int_text j \<longleftrightarrow> i = j"
proof
  assume eq: "int_text i = int_text j"
  have no_minus: "CHR ''-'' # x \<noteq> nat_text n" for x n
    using nat_text_digits [of "CHR ''-''" n] by (metis list.set_intros(1) minus_not_digit)
  have "nat_text m = nat_text n \<Longrightarrow> m = n" for m n
    by (metis digits_val_nat)
  then have "i < 0 \<longleftrightarrow> j < 0" "nat \<bar>i\<bar> = nat \<bar>j\<bar>"
    using eq no_minus no_minus [symmetric] by (fastforce simp: int_text_def split: if_splits)+
  then show "i = j" by arith
qed simp

definition number_char :: "char \<Rightarrow> bool" where
  "number_char c \<longleftrightarrow> is_digit c \<or> c \<in> {CHR ''-'', CHR ''+'', CHR ''.'', CHR ''e''}"

definition float_repr :: "(rat \<Rightarrow> string) \<Rightarrow> bool" where
  "float_repr fr \<longleftrightarrow>
     inj fr \<and> (\<forall>r. list_all number_char (fr r) \<and> fr r \<noteq> [] \<and> hd (fr r) \<noteq> CHR ''e'' \<and>
                  (CHR ''.'' \<in> set (fr r) \<or> CHR ''e'' \<in> set (fr r)))"

lemma int_text_chars: "c \<in> set (int_text i) \<Longrightarrow> is_digit c \<or> c = CHR ''-''"
  by (auto simp: int_text_def dest: nat_text_digits split: if_splits)

lemma int_text_ne [simp]: "int_text i \<noteq> []"
  by (simp add: int_text_def)

lemma point_not_digit [simp]: "\<not> is_digit CHR ''.''" "\<not> is_digit CHR ''e''"
  by code_simp+

text \<open>What may follow a value inside a JSON text.\<close>

definition stop :: "string \<Rightarrow> bool" where
  "stop s \<longleftrightarrow> s = [] \<or> hd s \<in> {CHR '','', CHR '']'', CHR ''}''}"

lemma stop_not_number: "stop s \<Longrightarrow> takeWhile number_char s = []"
proof -
  have "\<not> number_char CHR '',''" "\<not> number_char CHR '']''" "\<not> number_char CHR ''}''"
    by code_simp+
  then show "stop s \<Longrightarrow> takeWhile number_char s = []"
    by (cases s) (auto simp: stop_def)
qed

lemma number_unique:
  assumes "list_all number_char a" "list_all number_char b" "stop s" "stop t" "a @ s = b @ t"
  shows "a = b \<and> s = t"
proof -
  have "takeWhile number_char (a @ s) = a" "takeWhile number_char (b @ t) = b"
    using assms(1-4) by (simp_all add: takeWhile_append2 list_all_iff stop_not_number)
  then have "a = b" using arg_cong [OF assms(5), of "takeWhile number_char"] by simp
  then show ?thesis using assms(5) by simp
qed

section \<open>Values\<close>

text \<open>The first character tells the kind of a value.\<close>

fun kind_of :: "pyv \<Rightarrow> nat" where
  "kind_of VNone = 0"
| "kind_of (VBool b) = (if b then 1 else 2)"
| "kind_of (VInt _) = 3"
| "kind_of (VFloat _) = 3"
| "kind_of (VStr _) = 4"
| "kind_of (VList _) = 5"
| "kind_of (VDict _) = 6"

definition head_kind :: "char \<Rightarrow> nat" where
  "head_kind c = (if c = CHR ''n'' then 0 else if c = CHR ''t'' then 1 else if c = CHR ''f'' then 2
     else if c = CHR 0x22 then 4 else if c = CHR ''['' then 5 else if c = CHR ''{'' then 6
     else if c = CHR '']'' then 7 else if c = CHR ''}'' then 8 else 3)"

lemma number_head: "number_char c \<Longrightarrow> head_kind c = 3"
proof -
  have "\<not> number_char CHR ''n''" "\<not> number_char CHR ''t''" "\<not> number_char CHR ''f''"
      "\<not> number_char CHR 0x22" "\<not> number_char CHR ''[''" "\<not> number_char CHR ''{''"
      "\<not> number_char CHR '']''" "\<not> number_char CHR ''}''"
    by code_simp+
  then show "number_char c \<Longrightarrow> head_kind c = 3" by (auto simp: head_kind_def)
qed

lemma int_text_number: "list_all number_char (int_text i)"
  using int_text_chars by (auto simp: list_all_iff number_char_def)

lemma value_head:
  assumes "float_repr fr"
  shows "\<exists>c cs. json_spaced fr v = c # cs \<and> head_kind c = kind_of v"
proof -
  have num: "\<exists>c cs. s = c # cs \<and> head_kind c = 3" if "s \<noteq> []" "list_all number_char s" for s
    using that number_head by (cases s) auto
  show ?thesis
    using assms num [OF int_text_ne int_text_number] num [of "fr _"]
    by (cases v) (auto simp: head_kind_def raw_string_def float_repr_def)
qed

lemma value_ne: "float_repr fr \<Longrightarrow> json_spaced fr v \<noteq> []"
  using value_head by (metis list.distinct(1))

lemma value_not_closing:
  assumes "float_repr fr" "c \<in> {CHR '']'', CHR ''}''}"
  shows "json_spaced fr v @ s \<noteq> c # t"
  using value_head [OF assms(1), of v] assms(2)
  by (cases v) (auto simp: head_kind_def split: if_splits)

lemma join_not_closing:
  assumes "float_repr fr" "c \<in> {CHR '']'', CHR ''}''}"
  shows "join '', '' (json_spaced fr y # ts) @ s \<noteq> c # t"
  using value_not_closing [OF assms] by (cases ts) simp_all

lemma same_kind: "float_repr fr \<Longrightarrow> json_spaced fr v @ s = json_spaced fr w @ t \<Longrightarrow> kind_of v = kind_of w"
  using value_head by (metis append_Cons list.inject)

definition unread :: "(rat \<Rightarrow> string) \<Rightarrow> pyv \<Rightarrow> bool" where
  "unread fr v \<longleftrightarrow> (\<forall>w s t. stop s \<longrightarrow> stop t \<longrightarrow> json_spaced fr v @ s = json_spaced fr w @ t \<longrightarrow> v = w \<and> s = t)"

lemma unreadD:
  "unread fr v \<Longrightarrow> stop s \<Longrightarrow> stop t \<Longrightarrow> json_spaced fr v @ s = json_spaced fr w @ t \<Longrightarrow> v = w \<and> s = t"
  unfolding unread_def by blast

text \<open>What follows an element of a list, or an entry of a dict.\<close>

definition tail_of :: "string \<Rightarrow> string list \<Rightarrow> string \<Rightarrow> string" where
  "tail_of close ts s = (if ts = [] then [] else '', '' @ join '', '' ts) @ close @ s"

lemma join_tail: "join '', '' (x # xs) @ close @ s = x @ tail_of close xs s"
  by (cases xs) (simp_all add: tail_of_def)

lemma stop_tail: "close \<in> {'']'', ''}''} \<Longrightarrow> stop (tail_of close ts s)"
  by (auto simp: tail_of_def stop_def)

lemma tail_eq:
  assumes "tail_of close xs s = tail_of close ys t" "close \<in> {'']'', ''}''}"
  shows "(xs = [] \<longleftrightarrow> ys = []) \<and> join '', '' xs @ close @ s = join '', '' ys @ close @ t"
  using assms by (auto simp: tail_of_def split: if_splits)

lemma unread_scalar:
  assumes "float_repr fr" "\<not> is_dict v" "\<And>xs. v \<noteq> VList xs"
  shows "unread fr v"
  unfolding unread_def
proof (intro allI impI)
  fix w s t assume stops: "stop s" "stop t" and eq: "json_spaced fr v @ s = json_spaced fr w @ t"
  have kind: "kind_of v = kind_of w" using same_kind [OF assms(1) eq] .
  have chars: "list_all number_char (fr r)" "CHR ''.'' \<in> set (fr r) \<or> CHR ''e'' \<in> set (fr r)" for r
    using assms(1) by (auto simp: float_repr_def)
  have int_float: "int_text i \<noteq> fr r" for i r
    using chars(2) [of r] int_text_chars [of _ i] by fastforce
  consider "v = VNone" | b where "v = VBool b" | i where "v = VInt i" | r where "v = VFloat r"
    | x where "v = VStr x"
    using assms(2,3) by (cases v) auto
  then show "v = w \<and> s = t"
  proof cases
    case (3 i)
    with kind consider j where "w = VInt j" | q where "w = VFloat q"
      by (cases w) (auto split: if_splits)
    then show ?thesis
      using number_unique [OF int_text_number int_text_number stops, of i]
        number_unique [OF int_text_number chars(1) stops, of i] eq int_float 3
      by cases fastforce+
  next
    case (4 r)
    with kind consider j where "w = VInt j" | q where "w = VFloat q"
      by (cases w) (auto split: if_splits)
    then show ?thesis
    proof cases
      case (1 j)
      then show ?thesis
        using number_unique [OF chars(1) int_text_number stops, of r j] eq int_float [of j r] 4 by simp
    next
      case (2 q)
      then show ?thesis
        using number_unique [OF chars(1) chars(1) stops, of r q] eq 4 assms(1)
        by (auto simp: float_repr_def inj_eq)
    qed
  next
    case (5 x)
    with kind obtain y where "w = VStr y" by (cases w) (auto split: if_splits)
    with 5 eq have "raw_string x @ s = raw_string y @ t" by simp
    then show ?thesis using raw_string_unique 5 \<open>w = VStr y\<close> by blast
  qed (use kind eq in \<open>cases w; auto split: if_splits\<close>)+
qed

lemma unread_list:
  assumes "float_repr fr" "\<And>x. x \<in> set xs \<Longrightarrow> unread fr x"
    and "join '', '' (spaced_list fr xs) @ '']'' @ s = join '', '' (spaced_list fr ys) @ '']'' @ t"
  shows "xs = ys \<and> s = t"
  using assms(2,3)
proof (induction xs arbitrary: ys)
  case Nil
  then show ?case
    using join_not_closing [OF assms(1), of "CHR '']''"]
    by (cases ys) (simp_all del: join.simps(2,3), metis)
next
  case (Cons x xs)
  show ?case
  proof (cases ys)
    case Nil
    then show ?thesis
      using Cons.prems(2) join_not_closing [OF assms(1), of "CHR '']''"]
      by (simp del: join.simps(2,3))
  next
    case ys: (Cons y ys')
    have eq: "json_spaced fr x @ tail_of '']'' (spaced_list fr xs) s =
        json_spaced fr y @ tail_of '']'' (spaced_list fr ys') t"
      using Cons.prems(2) unfolding ys spaced_list.simps join_tail .
    have "x = y \<and> tail_of '']'' (spaced_list fr xs) s = tail_of '']'' (spaced_list fr ys') t"
      using unreadD [OF Cons.prems(1) _ _ eq] stop_tail [of "'']''"] by simp
    then have "x = y" "join '', '' (spaced_list fr xs) @ '']'' @ s = join '', '' (spaced_list fr ys') @ '']'' @ t"
      using tail_eq [of "'']''"] by blast+
    then show ?thesis using Cons.IH [of ys'] Cons.prems(1) ys by simp
  qed
qed

lemma entry_not_closing: "join '', '' ((raw_string k @ x) # ts) @ s \<noteq> CHR ''}'' # t"
  by (cases ts) (simp_all add: raw_string_def)

lemma unread_items:
  assumes "float_repr fr" "\<And>k x. (k, x) \<in> set d \<Longrightarrow> unread fr x"
    and "join '', '' (spaced_items fr d) @ ''}'' @ s = join '', '' (spaced_items fr d') @ ''}'' @ t"
  shows "d = d' \<and> s = t"
  using assms(2,3)
proof (induction d arbitrary: d')
  case Nil
  then show ?case
    using entry_not_closing
    by (cases d') (auto simp del: join.simps(2,3), metis)
next
  case (Cons kx d)
  obtain k x where kx: "kx = (k, x)" by (cases kx)
  show ?case
  proof (cases d')
    case Nil
    then show ?thesis
      using Cons.prems(2) entry_not_closing by (simp add: kx del: join.simps(2,3))
  next
    case d': (Cons ly d'')
    obtain l y where ly: "ly = (l, y)" by (cases ly)
    have "raw_string k @ '': '' @ json_spaced fr x @ tail_of ''}'' (spaced_items fr d) s =
        raw_string l @ '': '' @ json_spaced fr y @ tail_of ''}'' (spaced_items fr d'') t"
      using Cons.prems(2) unfolding d' kx ly spaced_items.simps join_tail by simp
    then have "k = l" and eq: "json_spaced fr x @ tail_of ''}'' (spaced_items fr d) s =
        json_spaced fr y @ tail_of ''}'' (spaced_items fr d'') t"
      using raw_string_unique by blast+
    have "x = y \<and> tail_of ''}'' (spaced_items fr d) s = tail_of ''}'' (spaced_items fr d'') t"
      using unreadD [OF Cons.prems(1) _ _ eq] stop_tail [of "''}''"] kx by auto
    then have "x = y" "join '', '' (spaced_items fr d) @ ''}'' @ s = join '', '' (spaced_items fr d'') @ ''}'' @ t"
      using tail_eq [of "''}''"] by blast+
    then show ?thesis using Cons.IH [of d''] Cons.prems(1) d' kx ly \<open>k = l\<close> by auto
  qed
qed

lemma unread_all: "float_repr fr \<Longrightarrow> unread fr v"
proof (induction v)
  case (VList xs)
  show ?case unfolding unread_def
  proof (intro allI impI)
    fix w s t assume "json_spaced fr (VList xs) @ s = json_spaced fr w @ t"
    moreover from same_kind [OF VList.prems this] obtain ys where "w = VList ys"
      by (cases w) (auto split: if_splits)
    ultimately show "VList xs = w \<and> s = t"
      using unread_list [OF VList.prems VList.IH [OF _ VList.prems], of xs s ys t] by simp
  qed
next
  case (VDict d)
  have items: "unread fr x" if "(k, x) \<in> set d" for k x
    using VDict.IH [OF that, of x] VDict.prems by simp
  show ?case unfolding unread_def
  proof (intro allI impI)
    fix w s t assume "json_spaced fr (VDict d) @ s = json_spaced fr w @ t"
    moreover from same_kind [OF VDict.prems this] obtain d' where "w = VDict d'"
      by (cases w) (auto split: if_splits)
    ultimately show "VDict d = w \<and> s = t"
      using unread_items [OF VDict.prems items, where d = d and d' = d' and s = s and t = t] by simp
  qed
qed (auto intro: unread_scalar)

lemma json_spaced_inject:
  assumes "float_repr fr"
  shows "json_spaced fr v = json_spaced fr w \<longleftrightarrow> v = w"
  using unreadD [OF unread_all [OF assms], of "[]" "[]" v w] by (auto simp: stop_def)

section \<open>Canonical dicts\<close>

text \<open>With distinct keys, dicts with the same canonical text agree key by key.\<close>

lemma map_of_canon: "map_of (canon_items d) k = map_option canon (map_of d k)"
  by (induction d) auto

lemma map_of_sorted:
  assumes "distinct (map fst d)"
  shows "map_of (sort_key fst d) = map_of d"
proof -
  have "distinct (map fst (sort_key fst d))"
    using assms by (simp add: distinct_map inj_on_def)
  then show ?thesis
    using assms by (simp add: map_of_inject_set)
qed
lemma canon_agree:
  assumes "canon (VDict d) = canon (VDict d')" "distinct (map fst d)" "distinct (map fst d')"
  shows "map_option canon (map_of d k) = map_option canon (map_of d' k)"
proof -
  have keys: "map fst (canon_items x) = map fst x" for x
    by (induction x) auto
  have "map_of (canon_items d) = map_of (canon_items d')"
    using assms by (metis canon.simps(2) keys map_of_sorted pyv.inject(6))
  then show ?thesis by (metis map_of_canon)
qed

section \<open>A printer of floats\<close>

text \<open>Numerator and denominator: a concrete printer with the documented properties.\<close>

definition fraction_repr :: "rat \<Rightarrow> string" where
  "fraction_repr r = int_text (fst (quotient_of r)) @ CHR ''.'' # int_text (snd (quotient_of r))"

lemma split_at_unique:
  "c \<notin> set a \<Longrightarrow> c \<notin> set b \<Longrightarrow> a @ c # s = b @ c # t \<Longrightarrow> a = b \<and> s = t"
  by (induction a arbitrary: b) (case_tac b; auto)+

lemma point_not_in_int: "CHR ''.'' \<notin> set (int_text i)"
  using int_text_chars by fastforce

lemma fraction_repr_float: "float_repr fraction_repr"
proof -
  have "r = q" if "fraction_repr r = fraction_repr q" for r q
  proof -
    have "int_text (fst (quotient_of r)) = int_text (fst (quotient_of q)) \<and>
        int_text (snd (quotient_of r)) = int_text (snd (quotient_of q))"
      by (rule split_at_unique [OF point_not_in_int point_not_in_int]) (use that in \<open>simp add: fraction_repr_def\<close>)
    then show ?thesis by (simp add: prod_eq_iff quotient_of_inject)
  qed
  moreover have "hd (int_text i) \<noteq> CHR ''e''" for i
    using int_text_chars [of "hd (int_text i)" i] point_not_digit(2) by auto
  ultimately show ?thesis
    using int_text_number by (auto simp: float_repr_def inj_def fraction_repr_def number_char_def [of "CHR ''.''"])
qed

end
