(* ===== verification/TickAuth.thy ===== *)
theory TickAuth
  imports PathGuard JsonText GateInvariants Money
begin

text \<open>
  Who may put a query on the tick queue (\<open>runtime/tick_auth.py\<close>): the signature over a row, its age,
  the jail it was signed for, and the stamp of the producer. The keyed hash \<open>mac\<close>, the hash \<open>sha\<close>
  and the digits of floats are parameters.
\<close>

section \<open>Settings\<close>

definition falsy :: "string set" where "falsy = {''false'', ''0''}"

definition allow_legacy :: "env \<Rightarrow> bool" where
  "allow_legacy e \<longleftrightarrow> py_lower (py_strip (getenv e ''AGI_V8_TICK_AUTH_ALLOW_LEGACY'' [])) \<in> {''true'', ''1''}"

definition bind_producer_enabled :: "env \<Rightarrow> bool" where
  "bind_producer_enabled e \<longleftrightarrow>
     py_lower (py_strip (getenv e ''AGI_V8_TICK_AUTH_BIND_PRODUCER'' ''true'')) \<notin> falsy"

definition bind_audience_enabled :: "env \<Rightarrow> bool" where
  "bind_audience_enabled e \<longleftrightarrow>
     py_lower (py_strip (getenv e ''AGI_V8_TICK_AUTH_BIND_AUDIENCE'' ''true'')) \<notin> falsy"

definition bind_campaign_enabled :: "env \<Rightarrow> bool" where
  "bind_campaign_enabled e \<longleftrightarrow>
     py_strip (getenv e ''AGI_V8_TICK_AUTH_BIND_CAMPAIGN_ENABLED'' []) \<in> {''true'', ''1''}"

definition secure_profile_enabled :: "env \<Rightarrow> bool" where
  "secure_profile_enabled e \<longleftrightarrow>
     py_lower (py_strip (getenv e ''AGI_V8_TICK_SECURE_PROFILE'' ''true'')) \<notin> falsy"

definition default_secure_ttl :: rat where "default_secure_ttl = 604800"

definition clock_skew :: rat where "clock_skew = 60"

definition tick_ttl_seconds :: "env \<Rightarrow> rat option result" where
  "tick_ttl_seconds e =
     (let raw = getenv e ''AGI_V8_TICK_AUTH_TTL_SEC'' [] in
      if py_strip raw = [] then Inr (if secure_profile_enabled e then Some default_secure_ttl else None)
      else case parse_float raw of
        None \<Rightarrow> absorb e (ValueError ''could not convert string to float'') None
      | Some v \<Rightarrow> Inr (if 0 < v then Some v else None))"

section \<open>The message that is signed\<close>

definition objective_keys :: "string list" where "objective_keys = [''objective'', ''query'', ''prompt'']"
definition sig_fields :: "string list" where "sig_fields = [''id'', ''ts'']"
definition optional_sig_fields :: "string list" where "optional_sig_fields = [''producer'', ''source'']"
definition campaign_sig_fields :: "string list" where
  "campaign_sig_fields = [''campaign_id'', ''card_id'', ''card_config_path'', ''manifest_digest'',
     ''card_digest'', ''success_criteria_digest'']"

fun first_objective :: "dict \<Rightarrow> string list \<Rightarrow> string option" where
  "first_objective row [] = None"
| "first_objective row (k # ks) =
     (case dict_get row k of
        VStr v \<Rightarrow> if py_strip v \<noteq> [] then Some (py_strip v) else first_objective row ks
      | _ \<Rightarrow> first_objective row ks)"

definition resolve_objective :: "dict \<Rightarrow> string option" where
  "resolve_objective row = first_objective row objective_keys"

definition present :: "dict \<Rightarrow> string list \<Rightarrow> dict" where
  "present row ks = concat (map (\<lambda>k. case map_of row k of Some v \<Rightarrow> [(k, v)] | None \<Rightarrow> []) ks)"

definition signed_subset :: "env \<Rightarrow> dict \<Rightarrow> dict" where
  "signed_subset e row =
     map (\<lambda>k. (k, dict_get row k)) sig_fields @
     [(''objective'', case resolve_objective row of Some s \<Rightarrow> VStr s | None \<Rightarrow> VNone)] @
     (if bind_producer_enabled e then present row optional_sig_fields else []) @
     (if bind_campaign_enabled e then present row campaign_sig_fields else []) @
     (if bind_audience_enabled e then present row [''aud''] else [])"

definition canonical_msg :: "env \<Rightarrow> (rat \<Rightarrow> string) \<Rightarrow> dict \<Rightarrow> string" where
  "canonical_msg e fr row = json_spaced fr (canon (VDict (signed_subset e row)))"

type_synonym keyed_hash = "string \<Rightarrow> string \<Rightarrow> string"

definition sign_row :: "env \<Rightarrow> keyed_hash \<Rightarrow> (rat \<Rightarrow> string) \<Rightarrow> dict \<Rightarrow> string \<Rightarrow> string" where
  "sign_row e mac fr row token = mac token (canonical_msg e fr row)"

definition token_fingerprint :: "(string \<Rightarrow> string) \<Rightarrow> string \<Rightarrow> string" where
  "token_fingerprint sha token = ''sha256:'' @ take 12 (sha token)"

definition audience_digest :: "(string \<Rightarrow> string) \<Rightarrow> 'c fs \<Rightarrow> string list \<Rightarrow> path \<Rightarrow> string" where
  "audience_digest sha fs cwd dir = take 16 (sha (render (resolve fs (absolute_comps cwd (parse dir)))))"

section \<open>The verdict\<close>

text \<open>\<open>hmac.compare_digest\<close> on texts refuses anything but ASCII.\<close>

definition compare_digest :: "string \<Rightarrow> string \<Rightarrow> bool result" where
  "compare_digest a b =
     (if list_all (\<lambda>c. char_code c < 128) (a @ b) then Inr (a = b)
      else Inl (TypeError ''comparing strings with non-ASCII characters is not supported''))"

definition fresh_row :: "env \<Rightarrow> rat \<Rightarrow> dict \<Rightarrow> bool result" where
  "fresh_row e now row =
     bindR (tick_ttl_seconds e) (\<lambda>ttl. Inr (case ttl of
         None \<Rightarrow> True
       | Some m \<Rightarrow> (case number_of (dict_get row ''ts'') of
           None \<Rightarrow> False
         | Some t \<Rightarrow> - clock_skew \<le> now - t \<and> now - t \<le> m)))"

text \<open>\<open>jail\<close> is the digest of the verifier's own state directory, when it passes one.\<close>

definition audience_ok :: "env \<Rightarrow> string option \<Rightarrow> dict \<Rightarrow> bool result" where
  "audience_ok e jail row =
     (if \<not> bind_audience_enabled e then Inr True
      else case dict_get row ''aud'' of
        VNone \<Rightarrow> Inr True
      | VStr a \<Rightarrow> if a = [] then Inr False
                  else (case jail of None \<Rightarrow> Inr True | Some d \<Rightarrow> compare_digest a d)
      | _ \<Rightarrow> Inr False)"

definition legacy_match :: "dict \<Rightarrow> string \<Rightarrow> bool result" where
  "legacy_match row expected =
     (case dict_get row ''auth_token'' of
        VStr t \<Rightarrow> if t = [] then Inr False else compare_digest t expected
      | _ \<Rightarrow> Inr False)"

definition signature_ok ::
  "env \<Rightarrow> keyed_hash \<Rightarrow> (rat \<Rightarrow> string) \<Rightarrow> string option \<Rightarrow> rat \<Rightarrow> dict \<Rightarrow> string \<Rightarrow> bool result" where
  "signature_ok e mac fr jail now row expected =
     (case dict_get row ''auth_sig'' of
        VStr s \<Rightarrow>
          if s = [] then Inr False
          else bindR (compare_digest s (sign_row e mac fr row expected)) (\<lambda>same.
            if \<not> same then Inr False
            else bindR (fresh_row e now row) (\<lambda>fresh.
              if \<not> fresh then Inr False else audience_ok e jail row))
      | _ \<Rightarrow> Inr False)"

definition auth_ok ::
  "env \<Rightarrow> keyed_hash \<Rightarrow> (rat \<Rightarrow> string) \<Rightarrow> string option \<Rightarrow> rat \<Rightarrow> dict \<Rightarrow> string \<Rightarrow> bool result" where
  "auth_ok e mac fr jail now row expected =
     bindR (legacy_match row expected) (\<lambda>legacy.
       if legacy \<and> (\<not> tick_sig_enabled e \<or> allow_legacy e) then Inr True
       else if \<not> tick_sig_enabled e then Inr False
       else signature_ok e mac fr jail now row expected)"

definition stamp_auth ::
  "env \<Rightarrow> keyed_hash \<Rightarrow> (rat \<Rightarrow> string) \<Rightarrow> string option \<Rightarrow> dict \<Rightarrow> string \<Rightarrow> dict" where
  "stamp_auth e mac fr jail row token =
     (if tick_sig_enabled e
      then (let r = (case jail of
                       Some d \<Rightarrow> if bind_audience_enabled e then dict_set row ''aud'' (VStr d) else row
                     | None \<Rightarrow> row)
            in dict_set r ''auth_sig'' (VStr (sign_row e mac fr r token)))
      else dict_set row ''auth_token'' (VStr token))"

section \<open>What is signed\<close>

definition signed_keys :: "string list" where
  "signed_keys = sig_fields @ objective_keys @ optional_sig_fields @ campaign_sig_fields @ [''aud'']"

lemma first_objective_cong:
  "(\<And>k. k \<in> set ks \<Longrightarrow> map_of r k = map_of r' k) \<Longrightarrow> first_objective r ks = first_objective r' ks"
  by (induction ks) (auto simp: dict_get_def split: pyv.splits)

lemma present_cong:
  "(\<And>k. k \<in> set ks \<Longrightarrow> map_of r k = map_of r' k) \<Longrightarrow> present r ks = present r' ks"
  by (simp add: present_def cong: map_cong)

lemma signed_subset_cong:
  assumes "\<And>k. k \<in> set signed_keys \<Longrightarrow> map_of r k = map_of r' k"
  shows "signed_subset e r = signed_subset e r'"
proof -
  have "present r ks = present r' ks" if "set ks \<subseteq> set signed_keys" for ks
    using that assms by (intro present_cong) auto
  then have "present r optional_sig_fields = present r' optional_sig_fields"
      "present r campaign_sig_fields = present r' campaign_sig_fields"
      "present r [''aud''] = present r' [''aud'']"
    by (auto simp: signed_keys_def)
  moreover have "resolve_objective r = resolve_objective r'"
    unfolding resolve_objective_def using assms by (intro first_objective_cong) (simp add: signed_keys_def)
  moreover have "map (\<lambda>k. (k, dict_get r k)) sig_fields = map (\<lambda>k. (k, dict_get r' k)) sig_fields"
    using assms by (simp add: dict_get_def signed_keys_def)
  ultimately show ?thesis by (simp add: signed_subset_def)
qed

text \<open>Stamping writes no signed field but the audience.\<close>

lemma sign_after_stamp:
  assumes "k = ''auth_sig'' \<or> k = ''auth_token''"
  shows "sign_row e mac fr (dict_set r k v) token = sign_row e mac fr r token"
proof -
  have "k \<notin> set signed_keys"
    using assms by (auto simp: signed_keys_def sig_fields_def objective_keys_def optional_sig_fields_def
        campaign_sig_fields_def)
  then have "signed_subset e (dict_set r k v) = signed_subset e r"
    by (intro signed_subset_cong) auto
  then show ?thesis by (simp add: sign_row_def canonical_msg_def)
qed

text \<open>The fields the signature binds beside \<open>id\<close>, \<open>ts\<close> and the objective.\<close>

definition bound_keys :: "env \<Rightarrow> string list" where
  "bound_keys e = (if bind_producer_enabled e then optional_sig_fields else []) @
     (if bind_campaign_enabled e then campaign_sig_fields else []) @
     (if bind_audience_enabled e then [''aud''] else [])"

lemma present_append: "present r (ks @ ls) = present r ks @ present r ls"
  by (simp add: present_def)

lemma present_Nil [simp]: "present r [] = []"
  by (simp add: present_def)

lemma signed_subset_alt:
  "signed_subset e r =
     [(''id'', dict_get r ''id''), (''ts'', dict_get r ''ts''),
      (''objective'', case resolve_objective r of Some s \<Rightarrow> VStr s | None \<Rightarrow> VNone)] @
     present r (bound_keys e)"
  by (simp add: signed_subset_def bound_keys_def present_append sig_fields_def)

lemma present_keys: "map fst (present r ks) = filter (dict_has r) ks"
  by (induction ks) (auto simp: present_def dict_has_def split: option.splits)

lemma map_of_present:
  "map_of (present r ks) k = (if k \<in> set ks then map_of r k else None)"
  by (induction ks) (auto simp: present_def split: option.splits)

lemma bound_keys_distinct:
  "distinct (bound_keys e)" "''id'' \<notin> set (bound_keys e)" "''ts'' \<notin> set (bound_keys e)"
  "''objective'' \<notin> set (bound_keys e)"
  by (auto simp: bound_keys_def optional_sig_fields_def campaign_sig_fields_def)

lemma signed_subset_distinct: "distinct (map fst (signed_subset e r))"
  using bound_keys_distinct [of e] by (auto simp: signed_subset_alt present_keys)

lemma map_of_signed:
  "map_of (signed_subset e r) ''id'' = Some (dict_get r ''id'')"
  "map_of (signed_subset e r) ''ts'' = Some (dict_get r ''ts'')"
  "map_of (signed_subset e r) ''objective'' =
     Some (case resolve_objective r of Some s \<Rightarrow> VStr s | None \<Rightarrow> VNone)"
  "k \<in> set (bound_keys e) \<Longrightarrow> map_of (signed_subset e r) k = map_of r k"
  using bound_keys_distinct [of e] by (auto simp: signed_subset_alt map_of_present)

definition same_field :: "dict \<Rightarrow> dict \<Rightarrow> string \<Rightarrow> bool" where
  "same_field r r' k \<longleftrightarrow> map_option canon (map_of r k) = map_option canon (map_of r' k)"

lemma same_message_same_fields:
  assumes "float_repr fr" "canonical_msg e fr r = canonical_msg e fr r'"
  shows "same_value (dict_get r ''id'') (dict_get r' ''id'') \<and>
    same_value (dict_get r ''ts'') (dict_get r' ''ts'') \<and>
    resolve_objective r = resolve_objective r' \<and> list_all (same_field r r') (bound_keys e)"
proof -
  have "canon (VDict (signed_subset e r)) = canon (VDict (signed_subset e r'))"
    using assms json_spaced_inject by (simp add: canonical_msg_def del: canon.simps)
  then have agree: "map_option canon (map_of (signed_subset e r) k) =
      map_option canon (map_of (signed_subset e r') k)" for k
    using canon_agree signed_subset_distinct by blast
  show ?thesis
    using agree [of "''id''"] agree [of "''ts''"] agree [of "''objective''"] agree map_of_signed(4)
    by (auto simp: map_of_signed(1-3) same_value_def list_all_iff same_field_def split: option.splits)
      metis+
qed

section \<open>What the verdict shows\<close>

definition ascii_text :: "string \<Rightarrow> bool" where
  "ascii_text s \<longleftrightarrow> s \<noteq> [] \<and> list_all (\<lambda>c. char_code c < 128) s"

text \<open>The verdict on a row when signatures are in force and plain tokens are not accepted.\<close>

definition sealed :: "env \<Rightarrow> bool" where
  "sealed e \<longleftrightarrow> tick_sig_enabled e \<and> \<not> allow_legacy e"

lemma sealed_auth_ok:
  assumes "sealed e" "auth_ok e mac fr jail now row token = Inr True"
  shows "dict_get row ''auth_sig'' = VStr (sign_row e mac fr row token) \<and>
    fresh_row e now row = Inr True \<and> audience_ok e jail row = Inr True"
  using assms
  by (auto simp: sealed_def auth_ok_def signature_ok_def compare_digest_def
      split: pyv.splits if_splits)

text \<open>C7: With signatures in force, a row that is accepted while it carries the signature issued for
  another row agrees with that row on the identity, the time stamp, the objective that will be run and
  every field the gates bind (the producer, the campaign settlement fields, the jail): a signature
  cannot be moved to a row that says something else. The keyed hash must not collide on the two
  messages.\<close>

theorem signature_binds_row:
  assumes "float_repr fr" "sealed e"
    and "mac token (canonical_msg e fr row) = mac token (canonical_msg e fr issued) \<longrightarrow>
      canonical_msg e fr row = canonical_msg e fr issued"
    and "auth_ok e mac fr jail now row token = Inr True"
    and "dict_get row ''auth_sig'' = VStr (sign_row e mac fr issued token)"
  shows "same_value (dict_get row ''id'') (dict_get issued ''id'') \<and>
    same_value (dict_get row ''ts'') (dict_get issued ''ts'') \<and>
    resolve_objective row = resolve_objective issued \<and>
    list_all (same_field row issued) (bound_keys e)"
proof (rule same_message_same_fields [OF assms(1)])
  have "VStr (sign_row e mac fr row token) = VStr (sign_row e mac fr issued token)"
    using sealed_auth_ok [OF assms(2,4)] assms(5) by metis
  then show "canonical_msg e fr row = canonical_msg e fr issued"
    using assms(3) unfolding sign_row_def by blast
qed

lemma audience_in_bound: "bind_audience_enabled e \<Longrightarrow> ''aud'' \<in> set (bound_keys e)"
  by (simp add: bound_keys_def)

lemma canon_text_value [simp]: "canon v = VStr s \<longleftrightarrow> v = VStr s"
  by (cases v) auto

text \<open>A signature issued for one jail authorises nothing in another, however the row that carries
  it is edited: a row accepted by the jail with digest \<open>here\<close> with the signature that was stamped for
  the jail with digest \<open>there\<close> shows that the two are the same jail.\<close>

theorem signature_stays_in_jail:
  assumes "float_repr fr" "sealed e" "bind_audience_enabled e"
    and "stamp_auth e mac fr (Some there) issued token = stamped"
    and "mac token (canonical_msg e fr row) = mac token (canonical_msg e fr stamped) \<longrightarrow>
      canonical_msg e fr row = canonical_msg e fr stamped"
    and "auth_ok e mac fr (Some here) now row token = Inr True"
    and "dict_get row ''auth_sig'' = dict_get stamped ''auth_sig''"
  shows "here = there"
proof -
  let ?r = "dict_set issued ''aud'' (VStr there)"
  have stamped: "stamped = dict_set ?r ''auth_sig'' (VStr (sign_row e mac fr ?r token))"
    using assms(2-4) by (auto simp: stamp_auth_def sealed_def Let_def)
  then have sig: "sign_row e mac fr stamped token = sign_row e mac fr ?r token"
    using sign_after_stamp by simp
  then have "dict_get row ''auth_sig'' = VStr (sign_row e mac fr stamped token)"
    using assms(7) stamped by simp
  then have "sign_row e mac fr row token = sign_row e mac fr stamped token"
    using sealed_auth_ok [OF assms(2,6)] by simp
  then have "list_all (same_field row stamped) (bound_keys e)"
    using assms(5) same_message_same_fields [OF assms(1)] by (simp add: sign_row_def)
  then have "same_field row stamped ''aud''"
    using audience_in_bound [OF assms(3)] by (auto simp: list_all_iff)
  then have "map_of row ''aud'' = Some (VStr there)"
    by (auto simp: same_field_def stamped)
  then have "dict_get row ''aud'' = VStr there" by (simp add: dict_get_def)
  moreover have "audience_ok e (Some here) row = Inr True"
    using sealed_auth_ok [OF assms(2,6)] by simp
  ultimately show ?thesis
    using assms(3) by (auto simp: audience_ok_def compare_digest_def split: if_splits)
qed

lemma fresh_row_set:
  "k \<noteq> ''ts'' \<Longrightarrow> fresh_row e now (dict_set r k v) = fresh_row e now r"
  unfolding fresh_row_def by (subst dict_get_set) simp

lemma compare_digest_same: "ascii_text s \<Longrightarrow> compare_digest s s = Inr True"
  by (simp add: compare_digest_def ascii_text_def)

text \<open>What a producer stamps, the consumer of the same jail accepts while it is fresh, whether the
  queue runs on signatures or on plain tokens. The token, the digest of the jail and the output of
  the keyed hash are non-empty ASCII texts.\<close>

theorem stamped_row_accepted:
  assumes "ascii_text token" "ascii_text here" "ascii_text (mac token (canonical_msg e fr
      (if bind_audience_enabled e then dict_set row ''aud'' (VStr here) else row)))"
    and "dict_get row ''auth_token'' = VNone" "fresh_row e now row = Inr True"
  shows "auth_ok e mac fr (Some here) now (stamp_auth e mac fr (Some here) row token) token = Inr True"
proof (cases "tick_sig_enabled e")
  case False
  then show ?thesis
    using assms(1)
    by (simp add: auth_ok_def stamp_auth_def legacy_match_def compare_digest_same ascii_text_def)
next
  case True
  define r where "r = (if bind_audience_enabled e then dict_set row ''aud'' (VStr here) else row)"
  let ?s = "sign_row e mac fr r token"
  have stamped: "stamp_auth e mac fr (Some here) row token = dict_set r ''auth_sig'' (VStr ?s)"
    using True by (simp add: stamp_auth_def r_def Let_def)
  have s: "ascii_text ?s" using assms(3) by (simp add: sign_row_def r_def)
  have r: "dict_get r ''auth_token'' = VNone" "fresh_row e now r = Inr True"
    "audience_ok e (Some here) (dict_set r ''auth_sig'' (VStr ?s)) = Inr True"
    using assms(2,4,5)
    by (auto simp: r_def fresh_row_set audience_ok_def compare_digest_same ascii_text_def)
  have "compare_digest ?s (sign_row e mac fr (dict_set r ''auth_sig'' (VStr ?s)) token) = Inr True"
    using sign_after_stamp s by (simp add: compare_digest_same)
  then show ?thesis
    using True s r by (simp add: stamped auth_ok_def legacy_match_def signature_ok_def fresh_row_set ascii_text_def)
qed

text \<open>
  Whoever can append to the queue, without any token, can make the check raise: the plain token is
  compared first, whatever the gates say, and the comparison refuses a text that is not ASCII.
\<close>

lemma foreign_token_raises:
  assumes "dict_get row ''auth_token'' = VStr t" "\<not> list_all (\<lambda>c. char_code c < 128) t"
  shows "auth_ok e mac fr jail now row token =
    Inl (TypeError ''comparing strings with non-ASCII characters is not supported'')"
  using assms by (auto simp: auth_ok_def legacy_match_def compare_digest_def)

section \<open>A signed queue\<close>

definition auth_env :: env where "auth_env = no_env(tick_sig_env \<mapsto> ''true'')"

definition toy_mac :: keyed_hash where "toy_mac token m = token @ CHR '':'' # m"

definition auth_row :: dict where
  "auth_row = [(''id'', VStr ''q1''), (''ts'', VInt 100), (''query'', VStr ''fix the parser''),
     (''producer'', VStr ''human'')]"

definition auth_stamped :: dict where
  "auth_stamped = stamp_auth auth_env toy_mac fraction_repr (Some ''3f2a'') auth_row ''secret''"

text \<open>The stamped row with a field that is not signed.\<close>

definition auth_noted :: dict where
  "auth_noted = dict_set auth_stamped ''candidate_source'' (VStr ''tray'')"

lemma auth_env_sealed: "sealed auth_env" "bind_audience_enabled auth_env"
  by code_simp+

lemma auth_noted_ok:
  "auth_ok auth_env toy_mac fraction_repr (Some ''3f2a'') 160 auth_noted ''secret'' = Inr True"
  by code_simp

lemma auth_noted_sig:
  "dict_get auth_noted ''auth_sig'' = VStr (sign_row auth_env toy_mac fraction_repr auth_stamped ''secret'')"
  "dict_get auth_noted ''auth_sig'' = dict_get auth_stamped ''auth_sig''"
  by code_simp+

lemma toy_mac_inject [simp]: "toy_mac k m = toy_mac k m' \<longleftrightarrow> m = m'"
  by (simp add: toy_mac_def)

theorem signature_binds_row_witness: "resolve_objective auth_noted = resolve_objective auth_stamped"
  using signature_binds_row [OF fraction_repr_float auth_env_sealed(1) _ auth_noted_ok auth_noted_sig(1)]
  by simp

theorem signature_stays_in_jail_witness: "''3f2a'' = ''3f2a'' \<and> auth_noted \<noteq> auth_stamped"
proof
  show "''3f2a'' = ''3f2a''"
    by (rule signature_stays_in_jail [OF fraction_repr_float auth_env_sealed auth_stamped_def [symmetric]
          _ auth_noted_ok auth_noted_sig(2)]) simp
  show "auth_noted \<noteq> auth_stamped" by code_simp
qed

theorem stamped_row_accepted_witness:
  "auth_ok auth_env toy_mac fraction_repr (Some ''3f2a'') 160 auth_stamped ''secret'' = Inr True"
  unfolding auth_stamped_def by (rule stamped_row_accepted) code_simp+

end
