(* ===== verification/TickQueue.thy ===== *)
theory TickQueue
  imports TickAuth DailyCostCap RepeatedFailureGate HaltSentinel JoinKeys TickLease
begin

text \<open>
  The queue of the tick loop (\<open>runtime/tick_runner.py\<close>, \<open>runtime/tick_policy_ports.py\<close>): which
  rows are pending, which ledgers are fit to be read, whether the environment is safe enough to
  consume at all, and the rows a tick writes. A tick is one step: the single-flight lease of
  theory \<open>TickLease\<close> keeps a second one out, so what a tick has read stays what is on the disk
  except for what it writes itself. Each write of a row takes its outcome from a list of faults.
\<close>

section \<open>Gates\<close>

definition tick_failclosed :: "env \<Rightarrow> bool" where
  "tick_failclosed e \<longleftrightarrow>
     py_lower (py_strip (getenv e ''AGI_V8_TICK_LEDGER_FAILCLOSED'' ''true'')) \<notin> {''false'', ''0''}"

definition stall_enabled :: "env \<Rightarrow> bool" where
  "stall_enabled e = gate_strict e ''AGI_V8_STALL_VERDICT_ENABLED''"

definition review_enabled :: "env \<Rightarrow> bool" where
  "review_enabled e = gate_loose e ''AGI_V8_TICK_REVIEW_ENABLED''"

definition with_agents_armed :: "env \<Rightarrow> bool" where
  "with_agents_armed e = gate_loose e ''AGI_V8_TICK_WITH_AGENTS''"

definition preseal_capture_enabled :: "env \<Rightarrow> bool" where
  "preseal_capture_enabled e = gate_strict e ''AGI_V8_VERIFY_GATE_PRESEAL_GIT_IDENT_ENABLED''"

definition cap_reread_after_review :: "env \<Rightarrow> bool" where
  "cap_reread_after_review e \<longleftrightarrow>
     py_lower (py_strip (getenv e ''AGI_V8_TICK_CAP_REREAD_AFTER_REVIEW'' ''true'')) \<notin> {''false'', ''0''}"

definition review_transaction_enabled :: "env \<Rightarrow> bool" where
  "review_transaction_enabled e = gate_strict e ''AGI_V8_TICK_REVIEW_TRANSACTION_ENABLED''"

definition deadline_enabled :: "env \<Rightarrow> bool" where
  "deadline_enabled e = gate_loose e ''AGI_V8_TICK_DEADLINE_ENABLED''"

definition cycle_memory_enabled :: "env \<Rightarrow> bool" where
  "cycle_memory_enabled e = gate_strict e ''AGI_V8_TICK_CYCLE_MEMORY_ENABLED''"

definition human_axis_enabled :: "env \<Rightarrow> bool" where
  "human_axis_enabled e = gate_loose e ''AGI_V8_HUMAN_AXIS_ENABLED''"

definition campaign_feed_on :: "env \<Rightarrow> bool" where
  "campaign_feed_on e \<longleftrightarrow>
     py_strip (getenv e ''AGI_V8_GOAL_CAMPAIGN_TICK_FEED_ENABLED'' []) \<in> {''true'', ''1''}"

definition per_cycle_cap :: "env \<Rightarrow> rat result" where
  "per_cycle_cap e =
     (case parse_float (getenv e ''AGI_V8_TICK_PER_CYCLE_USD_CAP'' ''1.0'') of
        None \<Rightarrow> absorb e (ValueError ''could not convert string to float'') 1
      | Some v \<Rightarrow> Inr (max 0 v))"

text \<open>The token: the file named by the environment first, then the inline one. \<open>open_text\<close> reads a file.\<close>

definition expected_token :: "env \<Rightarrow> (string \<Rightarrow> string result) \<Rightarrow> string option result" where
  "expected_token e open_text =
     (let f = py_strip (getenv e ''AGI_V8_TICK_AUTH_TOKEN_FILE'' []);
          nonempty = (\<lambda>t. if t = [] then None else Some t)
      in if f \<noteq> []
         then case open_text f of
                Inr t \<Rightarrow> Inr (nonempty (py_strip t))
              | Inl (OSError m) \<Rightarrow> absorb e (OSError m) None
              | Inl (FileNotFound m) \<Rightarrow> absorb e (FileNotFound m) None
              | Inl x \<Rightarrow> Inl x
         else Inr (nonempty (py_strip (getenv e ''AGI_V8_TICK_AUTH_TOKEN'' []))))"

section \<open>The safe profile\<close>

definition secure_profile_violations :: "env \<Rightarrow> string list result" where
  "secure_profile_violations e =
     bindR (tick_ttl_seconds e) (\<lambda>ttl. Inr (sort (
       (if list_ex (\<lambda>v. v_rule v = ''tick_enabled_requires_auth_sig'') (evaluate e) then [''sig''] else []) @
       (if allow_legacy e then [''legacy_allowed''] else []) @
       (case ttl of None \<Rightarrow> [''ttl''] | Some t \<Rightarrow> if t \<le> 0 then [''ttl''] else []) @
       (if \<not> bind_audience_enabled e then [''audience_bind''] else []) @
       (if \<not> bind_producer_enabled e then [''producer_bind''] else []) @
       (if campaign_feed_on e \<and> \<not> bind_campaign_enabled e then [''campaign_bind''] else []))))"

section \<open>Targets named in an objective\<close>

definition objective_targets_parse_enabled :: "env \<Rightarrow> bool" where
  "objective_targets_parse_enabled e = gate_loose e ''AGI_V8_TICK_OBJECTIVE_TARGETS_PARSE_ENABLED''"

definition objective_targets_env :: string where
  "objective_targets_env = ''AGI_V8_SI_OBJECTIVE_TARGETS''"

text \<open>
  The first match of \<open>target_files:\s*([^\r\n]+)\<close>: the text after the first occurrence, less the
  white space the greedy \<open>\s*\<close> takes, to the end of its line. Where nothing but white space
  follows, the pattern either fails or gives back white space, and no target is left of it.
\<close>

fun after_marker :: "string \<Rightarrow> string \<Rightarrow> string option" where
  "after_marker m [] = (if m = [] then Some [] else None)"
| "after_marker m (c # cs) =
     (if prefix m (c # cs) then Some (drop (length m) (c # cs)) else after_marker m cs)"

definition line_end :: "char \<Rightarrow> bool" where
  "line_end c \<longleftrightarrow> c = char_of (10 :: nat) \<or> c = char_of (13 :: nat)"

definition parse_objective_target_files :: "string \<Rightarrow> string list" where
  "parse_objective_target_files objective =
     (case after_marker ''target_files:'' objective of
        None \<Rightarrow> []
      | Some r \<Rightarrow>
          take 12 (filter (\<lambda>t. t \<noteq> [])
            (map py_strip (split_on CHR '','' (takeWhile (\<lambda>c. \<not> line_end c) (dropWhile py_space r))))))"

text \<open>The environment a dispatch sees; the caller's own is as it was when the dispatch is over.\<close>

definition scoped_targets :: "env \<Rightarrow> string \<Rightarrow> env" where
  "scoped_targets e objective =
     (let ts = parse_objective_target_files objective in
      if objective_targets_parse_enabled e \<and> getenv e objective_targets_env [] = [] \<and> ts \<noteq> []
      then e(objective_targets_env \<mapsto> join '','' ts) else e)"

section \<open>The ledgers of the queue\<close>

definition inbox_path :: "path \<Rightarrow> path" where "inbox_path dir = dir @ ''/tick/queries.jsonl''"
definition consumed_path :: "path \<Rightarrow> path" where "consumed_path dir = dir @ ''/tick/consumed.jsonl''"
definition ticklog_path :: "path \<Rightarrow> path" where "ticklog_path dir = dir @ ''/tick/tick_log.jsonl''"

definition query_id :: "(rat \<Rightarrow> string) \<Rightarrow> (string \<Rightarrow> string) \<Rightarrow> pyv \<Rightarrow> string result" where
  "query_id fr sha row =
     (case row of
        VDict d \<Rightarrow>
          (let auto = ''auto_'' @ take 16 (sha (json_spaced fr (canon (VDict d)))) in
           Inr (case dict_get d ''id'' of
                  VStr s \<Rightarrow> if py_strip s \<noteq> [] then py_strip s else auto
                | _ \<Rightarrow> auto))
      | _ \<Rightarrow> Inl (AttributeError ''get''))"

text \<open>\<open>{str(r.get("id")) for r in rows if r.get("id") is not None}\<close>\<close>

fun row_ids :: "(rat \<Rightarrow> string) \<Rightarrow> pyv list \<Rightarrow> string list result" where
  "row_ids fr [] = Inr []"
| "row_ids fr (VDict d # rs) =
     bindR (row_ids fr rs) (\<lambda>ids. Inr (if dict_get d ''id'' = VNone then ids
        else py_str fr (dict_get d ''id'') # ids))"
| "row_ids fr (_ # rs) = Inl (AttributeError ''get'')"

text \<open>The tolerant readers, used where no check of the ledgers has run.\<close>

definition read_inbox :: "env \<Rightarrow> path \<Rightarrow> ledger_fs \<Rightarrow> pyv list result" where
  "read_inbox e dir fs =
     (case read_jsonl fs (inbox_path dir) of Inr rows \<Rightarrow> Inr rows | Inl x \<Rightarrow> absorb e x [])"

definition consumed_ids :: "env \<Rightarrow> (rat \<Rightarrow> string) \<Rightarrow> path \<Rightarrow> ledger_fs \<Rightarrow> string list result" where
  "consumed_ids e fr dir fs =
     (case read_jsonl fs (consumed_path dir) of Inr rows \<Rightarrow> row_ids fr rows | Inl x \<Rightarrow> absorb e x [])"

text \<open>One read of both ledgers, shared by the checks and by the walk; \<open>None\<close> is a failed read.\<close>

record snapshot =
  sn_inbox :: "pyv list option"
  sn_bought :: "pyv list option"

definition read_axis_raw :: "env \<Rightarrow> path \<Rightarrow> ledger_fs \<Rightarrow> pyv list option result" where
  "read_axis_raw e p fs = (case read_jsonl fs p of Inr rows \<Rightarrow> Inr (Some rows) | Inl x \<Rightarrow> absorb e x None)"

definition ledger_snapshot :: "env \<Rightarrow> path \<Rightarrow> ledger_fs \<Rightarrow> snapshot result" where
  "ledger_snapshot e dir fs =
     bindR (read_axis_raw e (inbox_path dir) fs) (\<lambda>i.
     bindR (read_axis_raw e (consumed_path dir) fs) (\<lambda>b. Inr \<lparr>sn_inbox = i, sn_bought = b\<rparr>))"

text \<open>The rows of an axis that are objects, and whether some are not.\<close>

definition axis_good_and_note :: "pyv list option \<Rightarrow> (pyv list option \<times> string option)" where
  "axis_good_and_note raw =
     (case raw of
        None \<Rightarrow> (None, Some ''read_failed'')
      | Some rows \<Rightarrow>
          (let good = filter is_dict rows in
           if length good = length rows then (Some good, None)
           else (Some good, Some (''non_object_rows='' @ nat_text (length rows - length good)))))"

definition non_object_ledgers :: "snapshot \<Rightarrow> string list" where
  "non_object_ledgers sn =
     (let bad = (\<lambda>raw. case axis_good_and_note raw of (Some _, Some _) \<Rightarrow> True | _ \<Rightarrow> False) in
      (if bad (sn_bought sn) then [''bought_ledger''] else []) @
      (if bad (sn_inbox sn) then [''inbox_queue''] else []))"

text \<open>A damaged consumed ledger counts only where the inbox has rows to be bought again.\<close>

definition failed_ledgers :: "snapshot \<Rightarrow> string list" where
  "failed_ledgers sn =
     (let inbox = fst (axis_good_and_note (sn_inbox sn)); bought = fst (axis_good_and_note (sn_bought sn)) in
      (if bought = None \<and> inbox \<noteq> None \<and> inbox \<noteq> Some [] then [''bought_ledger''] else []) @
      (if inbox = None then [''inbox_queue''] else []))"

fun keep_pending ::
  "(rat \<Rightarrow> string) \<Rightarrow> (string \<Rightarrow> string) \<Rightarrow> string list \<Rightarrow> pyv list \<Rightarrow> (dict \<times> string) list result" where
  "keep_pending fr sha consumed [] = Inr []"
| "keep_pending fr sha consumed (r # rs) =
     bindR (query_id fr sha r) (\<lambda>q.
     bindR (keep_pending fr sha consumed rs) (\<lambda>ps.
       Inr (if q \<in> set consumed then ps else case r of VDict d \<Rightarrow> (d, q) # ps | _ \<Rightarrow> ps)))"

text \<open>The pending rows, each with its identity.\<close>

definition pending_queries ::
  "env \<Rightarrow> (rat \<Rightarrow> string) \<Rightarrow> (string \<Rightarrow> string) \<Rightarrow> path \<Rightarrow> snapshot option \<Rightarrow> ledger_fs
    \<Rightarrow> (dict \<times> string) list result" where
  "pending_queries e fr sha dir snap fs =
     (case snap of
        Some sn \<Rightarrow>
          bindR (case sn_bought sn of None \<Rightarrow> Inr [] | Some rows \<Rightarrow> row_ids fr rows) (\<lambda>c.
            keep_pending fr sha c (case sn_inbox sn of None \<Rightarrow> [] | Some rows \<Rightarrow> rows))
      | None \<Rightarrow>
          bindR (read_inbox e dir fs) (\<lambda>inbox.
          bindR (consumed_ids e fr dir fs) (\<lambda>c. keep_pending fr sha c inbox)))"

section \<open>Names\<close>

definition cycle_id_for :: "rat \<Rightarrow> string \<Rightarrow> string" where
  "cycle_id_for now q = ''tick_'' @ int_text (trunc_rat now) @ ''_'' @ q"

definition producer_of :: "(rat \<Rightarrow> string) \<Rightarrow> dict \<Rightarrow> string" where
  "producer_of fr row =
     (case dict_get row ''producer'' of
        VStr (c # cs) \<Rightarrow> c # cs
      | _ \<Rightarrow>
          if dict_get row ''source'' = VStr ''work_feeder'' then ''work_feeder''
          else if prefix ''wc_'' (py_str fr (py_or (dict_get row ''id'') (VStr []))) then ''work_feeder''
          else ''human'')"

end
