(* ===== verification/TickRun.thy ===== *)
theory TickRun
  imports TickQueue
begin

text \<open>
  One tick (\<open>tick_once\<close> of \<open>runtime/tick_runner.py\<close>): its guards, the checks of its ledgers, the walk
  over the pending rows, the review and the dispatch of at most one of them. What a tick asks of
  code that is not in the repository (the dispatch, the reviewer, the idle feed, the campaign
  settlement) or not in this model (the text of the cycle memory, the row of the human axis) is a
  function of its inputs. The calls of the dispatch are collected in the state.
\<close>

section \<open>Inputs and state\<close>

text \<open>How a call into other code ends.\<close>

datatype outcome =
    Ran pyv
  | RaisedExn exn
  | HumanStop halt_state
  | DeadlineUnavailable exn
  | DeadlineExceeded exn rat
  | Interrupted exn
  | Killed

datatype review_answer =
    Reviewed bool string string
  | ReviewStop halt_state
  | ReviewDeadlineUnavailable exn
  | ReviewDeadlineExceeded exn
  | ReviewChildError exn
  | ReviewRaised exn
  | ReviewKilled

datatype lease_answer = LeaseTaken | LeaseHeld pyv pyv | LeaseDown exn

record call =
  c_id :: string
  c_objective :: string
  c_cycle :: string
  c_budget :: rat

record tick_in =
  tk_env :: env
  tk_dir :: path
  tk_now :: rat
  tk_home :: string
  tk_probe :: probe_env
  tk_tier :: "unit result"
  tk_capture :: "unit result"
  tk_context :: "unit result"
  tk_lease :: lease_answer
  tk_open_text :: "string \<Rightarrow> string result"
  tk_fr :: "rat \<Rightarrow> string"
  tk_sha :: "string \<Rightarrow> string"
  tk_mac :: keyed_hash
  tk_jail :: string
  tk_day_start :: "rat \<Rightarrow> rat"
  tk_host :: host
  tk_umask :: nat
  tk_join :: join_ctx
  tk_show :: "exn \<Rightarrow> string"
  tk_mask :: "string \<Rightarrow> string"
  tk_ack_write :: "unit result"
  tk_rids :: "string \<times> string"
  tk_clock :: "nat \<Rightarrow> rat"
  tk_spend :: "nat \<Rightarrow> rat result"
  tk_feed :: "ledger_fs \<Rightarrow> ledger_fs \<times> dict result"
  tk_reviewer :: "string \<Rightarrow> ledger_fs \<Rightarrow> ledger_fs \<times> review_answer"
  tk_has_reviewer :: "bool result"
  tk_memory :: "ledger_fs \<Rightarrow> dict \<Rightarrow> string result"
  tk_human :: "string \<Rightarrow> string \<Rightarrow> ledger_fs \<Rightarrow> ledger_fs \<times> unit result"
  tk_dispatch :: "env \<Rightarrow> call \<Rightarrow> ledger_fs \<Rightarrow> ledger_fs \<times> outcome"
  tk_settle :: "dict \<Rightarrow> pyv \<Rightarrow> string option \<Rightarrow> ledger_fs \<Rightarrow> ledger_fs \<times> unit result"

record tick_state =
  ts_fs :: ledger_fs
  ts_ack :: "pyv result option"
  ts_faults :: "wr list"
  ts_sent :: "call list"

type_synonym 'a tick = "tick_state \<Rightarrow> tick_state \<times> 'a result"

definition retT :: "'a \<Rightarrow> 'a tick" where "retT a s = (s, Inr a)"
definition raiseT :: "exn \<Rightarrow> 'a tick" where "raiseT x s = (s, Inl x)"
definition liftT :: "'a result \<Rightarrow> 'a tick" where "liftT r s = (s, r)"

definition bindT :: "'a tick \<Rightarrow> ('a \<Rightarrow> 'b tick) \<Rightarrow> 'b tick" where
  "bindT m f s = (case m s of (s', Inl x) \<Rightarrow> (s', Inl x) | (s', Inr a) \<Rightarrow> f a s')"

text \<open>A read of the files, a step of other code on them, and one whose failure is swallowed.\<close>

definition readT :: "(ledger_fs \<Rightarrow> 'a result) \<Rightarrow> 'a tick" where
  "readT f s = (s, f (ts_fs s))"

definition onfsT :: "(ledger_fs \<Rightarrow> ledger_fs \<times> 'a result) \<Rightarrow> 'a tick" where
  "onfsT f s = (let (fs', r) = f (ts_fs s) in (s\<lparr>ts_fs := fs'\<rparr>, r))"

definition swallowT :: "env \<Rightarrow> 'a \<Rightarrow> 'a tick \<Rightarrow> 'a tick" where
  "swallowT e fallback m s = (case m s of (s', Inl x) \<Rightarrow> (s', absorb e x fallback) | r \<Rightarrow> r)"

text \<open>A write takes the next fault of the list, and succeeds when there is none left.\<close>

definition wrT :: "(wr \<Rightarrow> ledger_fs \<Rightarrow> ledger_fs \<times> 'a result) \<Rightarrow> 'a tick" where
  "wrT f s = (let (fs', r) = f (case ts_faults s of [] \<Rightarrow> WrOk | w # _ \<Rightarrow> w) (ts_fs s)
              in (s\<lparr>ts_fs := fs', ts_faults := tl (ts_faults s)\<rparr>, r))"

definition push_row :: "tick_in \<Rightarrow> path \<Rightarrow> dict \<Rightarrow> unit tick" where
  "push_row i p row = wrT (\<lambda>w. atomic_append_jsonl (tk_env i) (tk_umask i) w 0 0 p (VDict row))"

section \<open>The rows of a tick\<close>

definition tombstone :: "tick_in \<Rightarrow> string \<Rightarrow> string \<Rightarrow> unit tick" where
  "tombstone i q reason =
     bindT (liftT (join_keys (tk_env i) (tk_join i) (Some (cycle_id_for (tk_now i) q)) None)) (\<lambda>ks.
       push_row i (consumed_path (tk_dir i))
         (fold (\<lambda>(k, v) d. dict_set d k v) ks
            [(''id'', VStr q), (''reason'', VStr reason), (''ts'', VFloat (tk_now i))]))"

definition log_tick :: "tick_in \<Rightarrow> dict \<Rightarrow> unit tick" where
  "log_tick i rec = push_row i (ticklog_path (tk_dir i)) rec"

text \<open>A refusal stands even where its row cannot be written.\<close>

definition log_tick_safe :: "tick_in \<Rightarrow> dict \<Rightarrow> dict tick" where
  "log_tick_safe i rec s =
     (case log_tick i rec s of
        (s', Inr _) \<Rightarrow> (s', Inr rec)
      | (s', Inl x) \<Rightarrow> (s', absorb (tk_env i) x (dict_set rec ''log_write_error'' (VStr (tk_show i x)))))"

definition refusal :: "string \<Rightarrow> rat \<Rightarrow> dict" where
  "refusal reason now = [(''dispatched'', VBool False), (''reason'', VStr reason), (''ts'', VFloat now)]"

definition quiet :: "string \<Rightarrow> rat \<Rightarrow> dict" where
  "quiet reason now = [(''dispatched'', VBool False), (''reason'', VStr reason), (''now_ts'', VFloat now)]"

definition opt_str :: "string option \<Rightarrow> pyv" where
  "opt_str s = (case s of None \<Rightarrow> VNone | Some t \<Rightarrow> VStr t)"

definition human_halt_row :: "halt_state \<Rightarrow> rat \<Rightarrow> dict" where
  "human_halt_row st now =
     [(''dispatched'', VBool False),
      (''reason'', VStr (if readable st then ''human_halt'' else ''human_halt_unknown'')),
      (''sentinel'', opt_str (sentinel st)), (''sentinel_tier'', opt_str (tier st)),
      (''sentinel_state'', if readable st then VBool True else VNone),
      (''sentinel_kind'', opt_str (entry_kind st)),
      (''stop_ts'', case mtime_ns st of None \<Rightarrow> VNone | Some n \<Rightarrow> VFloat (of_int n / 1000000000)),
      (''tier_is_guaranteed'', VBool (tier_is_guaranteed st)), (''error'', opt_str (halt_error st)),
      (''pending'', VNone), (''ts'', VFloat now)]"

definition daily_cap_block_rec :: "cap_verdict \<Rightarrow> string \<Rightarrow> rat \<Rightarrow> dict" where
  "daily_cap_block_rec v q now =
     [(''dispatched'', VBool False), (''reason'', VStr (cap_reason v)), (''id'', VStr q), (''ts'', VFloat now),
      (''spent_usd'', VFloat (spent_usd v)), (''cap_usd'', VFloat (cap_used v)),
      (''unmeasured_rows'', VInt (int (unmeasured_rows v))),
      (''spend_is_complete'', VBool (spend_is_complete v)),
      (''rows_considered'', VInt (int (rows_considered v)))]"

text \<open>\<open>work_feeder._read_rows\<close>: the objects of a ledger, or \<open>None\<close> where it cannot be read.\<close>

definition read_rows :: "env \<Rightarrow> path \<Rightarrow> ledger_fs \<Rightarrow> (dict list option \<times> string option) result" where
  "read_rows e p fs =
     (case read_jsonl fs p of
        Inl x \<Rightarrow> absorb e x (None, Some (safe_exception_type_name x))
      | Inr rows \<Rightarrow>
          (let good = concat (map (\<lambda>v. case v of VDict d \<Rightarrow> [d] | _ \<Rightarrow> []) rows); n = length rows - length good in
           if n = 0 then Inr (Some good, None)
           else absorb e (TypeError ''non-object row'') (Some good, Some (''non_object_rows='' @ nat_text n))))"

text \<open>
  Whether a fault is new: the last row of the tick log does not already report the same fault with
  the same names. \<open>_ledger_fault_edge\<close> compares the field \<open>ledgers\<close>, \<open>_secure_profile_edge\<close> the field
  \<open>violated\<close>.
\<close>

definition fault_edge :: "tick_in \<Rightarrow> string \<Rightarrow> string \<Rightarrow> string list \<Rightarrow> bool tick" where
  "fault_edge i reason field names =
     readT (\<lambda>fs. bindR (read_rows (tk_env i) (ticklog_path (tk_dir i)) fs) (\<lambda>(rows, _).
       Inr (case rows of
              None \<Rightarrow> False
            | Some rs \<Rightarrow>
                rs = [] \<or> dict_get (last rs) ''reason'' \<noteq> VStr reason \<or>
                dict_get (last rs) field \<noteq> VList (map VStr names))))"

definition halt_edge :: "tick_in \<Rightarrow> dict \<Rightarrow> bool tick" where
  "halt_edge i rec s =
     (let e = tk_env i;
          key = VList (map (dict_get rec) [''sentinel'', ''stop_ts'', ''reason'', ''error'']);
          seen = (case ts_ack s of
                    None \<Rightarrow> Inr False
                  | Some (Inl x) \<Rightarrow> absorb e x False
                  | Some (Inr v) \<Rightarrow> bindR (py_get v ''key'' VNone) (\<lambda>k. Inr (k = key)))
      in case seen of
           Inl x \<Rightarrow> (s, Inl x)
         | Inr True \<Rightarrow> (s, Inr False)
         | Inr False \<Rightarrow>
             (case tk_ack_write i of
                Inl x \<Rightarrow> (s, absorb e x True)
              | Inr _ \<Rightarrow> (s\<lparr>ts_ack := Some (Inr (VDict [(''key'', key), (''observed_ts'', dict_get rec ''ts'')]))\<rparr>,
                           Inr True)))"

definition logged :: "tick_in \<Rightarrow> dict \<Rightarrow> dict tick" where
  "logged i rec = bindT (log_tick i rec) (\<lambda>_. retT rec)"

definition report_edge :: "tick_in \<Rightarrow> string \<Rightarrow> string \<Rightarrow> string list \<Rightarrow> dict tick" where
  "report_edge i reason field names =
     (let rec = refusal reason (tk_now i) @ [(field, VList (map VStr names))] in
      bindT (fault_edge i reason field names) (\<lambda>new. if new then log_tick_safe i rec else retT rec))"

definition cap_now :: "tick_in \<Rightarrow> cap_verdict tick" where
  "cap_now i = readT (cap_check (tk_env i) (tk_day_start i) (tk_host i) (tk_dir i) (tk_now i))"

definition finallyT :: "'a tick \<Rightarrow> 'b tick \<Rightarrow> 'a tick" where
  "finallyT m f s = (case m s of (s1, r) \<Rightarrow>
     (case f s1 of (s2, Inl x) \<Rightarrow> (s2, Inl x) | (s2, Inr _) \<Rightarrow> (s2, r)))"

text \<open>What a killed process leaves: nothing after the call runs.\<close>

definition killed :: exn where "killed = RuntimeError ''killed''"

text \<open>\<open>HumanHalt\<close> where no handler names it.\<close>

definition human_halt_escapes :: exn where "human_halt_escapes = RuntimeError ''HumanHalt''"

section \<open>The review\<close>

datatype review_result = Passed cap_verdict | Rejected string string | ReviewReturns dict

definition reserve_for ::
  "tick_in \<Rightarrow> nat \<Rightarrow> string \<Rightarrow> string \<Rightarrow> rat \<Rightarrow> string \<Rightarrow> reservation tick" where
  "reserve_for i k rid subject expected cycle =
     wrT (\<lambda>w. reserve (tk_env i) (tk_umask i) w (tk_dir i) rid subject (VStr cycle) expected
       (tk_clock i k) (tk_spend i k))"

definition settle_for :: "tick_in \<Rightarrow> nat \<Rightarrow> reservation \<Rightarrow> dict option tick" where
  "settle_for i k res =
     wrT (\<lambda>w. settle (tk_env i) (tk_umask i) w (tk_dir i) res None (tk_clock i k) (tk_spend i k))"

definition run_reviewer :: "tick_in \<Rightarrow> string \<Rightarrow> review_answer tick" where
  "run_reviewer i objective = onfsT (\<lambda>fs. let (fs', a) = tk_reviewer i objective fs in (fs', Inr a))"

text \<open>The answer of a review that runs as a transaction.\<close>

definition handle_review :: "tick_in \<Rightarrow> string \<Rightarrow> string \<Rightarrow> review_answer \<Rightarrow> (bool \<times> string \<times> string + dict) tick" where
  "handle_review i q cycle a =
     (let reject = (\<lambda>x reason. bindT (liftT (absorb (tk_env i) x ())) (\<lambda>_. retT (Inl (False, ''high'', reason)))) in
      case a of
        Reviewed ok risk reason \<Rightarrow> retT (Inl (ok, risk, reason))
      | ReviewStop st \<Rightarrow>
          bindT (log_tick_safe i (fold (\<lambda>(k, v) d. dict_set d k v)
              [(''id'', VStr q), (''cycle_id'', VStr cycle), (''halted_mid_dispatch'', VBool True),
               (''stage'', VStr ''review'')] (human_halt_row st (tk_now i)))) (\<lambda>r. retT (Inr r))
      | ReviewDeadlineUnavailable x \<Rightarrow> reject x ''review_deadline_unavailable''
      | ReviewDeadlineExceeded x \<Rightarrow> reject x ''review_deadline_exceeded''
      | ReviewChildError x \<Rightarrow> reject x ''review_child_error''
      | ReviewRaised x \<Rightarrow> raiseT x
      | ReviewKilled \<Rightarrow> raiseT killed)"

definition plain_review :: "review_answer \<Rightarrow> (bool \<times> string \<times> string + dict) tick" where
  "plain_review a =
     (case a of
        Reviewed ok risk reason \<Rightarrow> retT (Inl (ok, risk, reason))
      | ReviewStop _ \<Rightarrow> raiseT human_halt_escapes
      | ReviewDeadlineUnavailable x \<Rightarrow> raiseT x
      | ReviewDeadlineExceeded x \<Rightarrow> raiseT x
      | ReviewChildError x \<Rightarrow> raiseT x
      | ReviewRaised x \<Rightarrow> raiseT x
      | ReviewKilled \<Rightarrow> raiseT killed)"

definition review_call :: "tick_in \<Rightarrow> string \<Rightarrow> string \<Rightarrow> cap_verdict \<Rightarrow> (bool \<times> string \<times> string + dict) tick" where
  "review_call i q objective v =
     (let cycle = cycle_id_for (tk_now i) q in
      if \<not> review_transaction_enabled (tk_env i)
      then bindT (run_reviewer i objective) plain_review
      else
        bindT (liftT (per_cycle_cap (tk_env i))) (\<lambda>cap.
        bindT (reserve_for i 0 (fst (tk_rids i)) ''tick_review'' (max 0 (min cap (remaining_usd v))) cycle) (\<lambda>res.
        if is_unavailable res
        then bindT (logged i (refusal ''spend_reservation_unavailable'' (tk_now i) @
               [(''id'', VStr q), (''cycle_id'', VStr cycle), (''stage'', VStr ''review'')])) (\<lambda>r. retT (Inr r))
        else bindT (run_reviewer i objective) (\<lambda>a.
          if a = ReviewKilled then raiseT killed
          else finallyT (handle_review i q cycle a) (settle_for i 1 res)))))"

definition review_step :: "tick_in \<Rightarrow> string \<Rightarrow> string \<Rightarrow> cap_verdict \<Rightarrow> review_result tick" where
  "review_step i q objective v =
     (if \<not> review_enabled (tk_env i) then retT (Passed v)
      else
        bindT (liftT (tk_has_reviewer i)) (\<lambda>has.
        bindT (if \<not> has then retT (Inl (False, ''high'', ''reviewer_unavailable''))
               else review_call i q objective v) (\<lambda>answer.
          case answer of
            Inr rec \<Rightarrow> retT (ReviewReturns rec)
          | Inl (ok, risk, reason) \<Rightarrow>
              if \<not> ok then retT (Rejected risk reason)
              else if \<not> cap_reread_after_review (tk_env i) then retT (Passed v)
              else bindT (cap_now i) (\<lambda>v'.
                if \<not> allowed v'
                then bindT (logged i (daily_cap_block_rec v' q (tk_now i))) (\<lambda>r. retT (ReviewReturns r))
                else retT (Passed v')))))"

section \<open>The dispatch\<close>

datatype dispatched = Settled pyv "string option" | Returns dict

definition dispatch_call :: "tick_in \<Rightarrow> string \<Rightarrow> call \<Rightarrow> outcome tick" where
  "dispatch_call i raw c s =
     (let (fs', a) = tk_dispatch i (scoped_targets (tk_env i) raw) c (ts_fs s)
      in (s\<lparr>ts_fs := fs', ts_sent := ts_sent s @ [c]\<rparr>, Inr a))"

definition handle_outcome :: "tick_in \<Rightarrow> call \<Rightarrow> outcome \<Rightarrow> dispatched tick" where
  "handle_outcome i c a =
     (let survive = (\<lambda>x extra. bindT (liftT (absorb (tk_env i) x ())) (\<lambda>_.
            retT (Settled (VDict ((''ok'', VBool False) # extra)) (Some (tk_show i x))))) in
      case a of
        Ran v \<Rightarrow> retT (Settled v None)
      | HumanStop st \<Rightarrow>
          bindT (log_tick_safe i (fold (\<lambda>(k, v) d. dict_set d k v)
              [(''id'', VStr (c_id c)), (''cycle_id'', VStr (c_cycle c)), (''halted_mid_dispatch'', VBool True)]
              (human_halt_row st (tk_now i)))) (\<lambda>r. retT (Returns r))
      | DeadlineUnavailable x \<Rightarrow> survive x [(''deadline_unavailable'', VBool True)]
      | DeadlineExceeded x b \<Rightarrow> survive x [(''deadline_exceeded'', VBool True), (''budget_seconds'', VFloat b)]
      | RaisedExn x \<Rightarrow> survive x []
      | Interrupted x \<Rightarrow> raiseT x
      | Killed \<Rightarrow> raiseT killed)"

text \<open>The paid call: its money is reserved first, and the reservation is closed on every way out.\<close>

definition paid_dispatch :: "tick_in \<Rightarrow> string \<Rightarrow> call \<Rightarrow> dispatched tick" where
  "paid_dispatch i raw c =
     bindT (reserve_for i 2 (snd (tk_rids i)) ''tick_dispatch'' (c_budget c) (c_cycle c)) (\<lambda>res.
     if is_unavailable res
     then bindT (logged i (refusal ''spend_reservation_unavailable'' (tk_now i) @
            [(''id'', VStr (c_id c)), (''cycle_id'', VStr (c_cycle c))])) (\<lambda>r. retT (Returns r))
     else bindT (dispatch_call i raw c) (\<lambda>a.
       if a = Killed then raiseT killed
       else finallyT (handle_outcome i c a) (settle_for i 3 res)))"

definition observation_dict :: "observation \<Rightarrow> dict" where
  "observation_dict ob =
     [(''target'', VStr (ob_target ob)), (''tail_signatures'', VList (ob_tail ob)),
      (''threshold'', VInt (ob_threshold ob))] @
     (case ob_repeated ob of None \<Rightarrow> [] | Some v \<Rightarrow> [(''repeated_signature'', v)])"

text \<open>The three bytes are the UTF-8 form of the dash in the message.\<close>

definition skipped_text :: "tick_in \<Rightarrow> observation option \<Rightarrow> string" where
  "skipped_text i ob =
     ''repeated_failure_gate: repeated failure signature ('' @
     py_str (tk_fr i) (case ob of None \<Rightarrow> VNone
        | Some b \<Rightarrow> (case ob_repeated b of None \<Rightarrow> VNone | Some v \<Rightarrow> v)) @
     '') '' @ map char_of [226, 128, 148 :: nat] @ '' dispatch skipped''"

definition finish_dispatch ::
  "tick_in \<Rightarrow> dict \<Rightarrow> call \<Rightarrow> cap_verdict \<Rightarrow> observation option \<Rightarrow> pyv \<Rightarrow> string option \<Rightarrow> dict tick" where
  "finish_dispatch i row c v ob dres err =
     (let e = tk_env i in
      bindT (if dict_get row ''source'' = VStr ''goal_campaign''
             then swallowT e () (onfsT (tk_settle i row dres err)) else retT ()) (\<lambda>_.
      bindT (swallowT e () (wrT (\<lambda>w. record_outcome e (tk_fr i) (tk_sha i) (tk_umask i) w (tk_dir i) row
                dres err (c_cycle c) (tk_now i)))) (\<lambda>_.
      bindT (tombstone i (c_id c) ''dispatched'') (\<lambda>_.
      logged i
        ([(''dispatched'', VBool True), (''reason'', VStr ''dispatched''), (''id'', VStr (c_id c)),
          (''cycle_id'', VStr (c_cycle c)), (''objective'', VStr (take 200 (c_objective c))),
          (''budget_usd'', VFloat (round_to 6 (c_budget c))),
          (''budget_basis'', VStr (if spend_is_complete v then ''headroom_fact''
             else ''headroom_ceiling_numerator_incomplete'')),
          (''unmeasured_rows'', VInt (int (unmeasured_rows v))),
          (''with_agents'', VBool (with_agents_armed e)), (''ts'', VFloat (tk_now i)),
          (''error'', opt_str err), (''dispatch_result'', dres)] @
         (case ob of None \<Rightarrow> [] | Some b \<Rightarrow> [(''repeated_failure_gate'', VDict (observation_dict b))]))))))"

definition with_memory :: "tick_in \<Rightarrow> dict \<Rightarrow> string \<Rightarrow> string tick" where
  "with_memory i row objective =
     (if \<not> cycle_memory_enabled (tk_env i) then retT objective
      else bindT (swallowT (tk_env i) [] (readT (\<lambda>fs. tk_memory i fs row))) (\<lambda>t.
        retT (if t = [] then objective else t @ replicate 2 (char_of (10 :: nat)) @ objective)))"

definition emit_human_for_query :: "tick_in \<Rightarrow> dict \<Rightarrow> string \<Rightarrow> string \<Rightarrow> unit tick" where
  "emit_human_for_query i row q cycle =
     (if \<not> human_axis_enabled (tk_env i) \<or> producer_of (tk_fr i) row \<noteq> ''human'' then retT ()
      else swallowT (tk_env i) ()
        (onfsT (tk_human i cycle (''human-submitted query '' @ q @ '' dispatched''))))"

definition dispatch_step :: "tick_in \<Rightarrow> dict \<Rightarrow> string \<Rightarrow> string \<Rightarrow> cap_verdict \<Rightarrow> dict tick" where
  "dispatch_step i row q objective v =
     bindT (liftT (per_cycle_cap (tk_env i))) (\<lambda>cap.
     bindT (readT (\<lambda>fs. should_skip (tk_env i) (tk_fr i) fs (tk_dir i) row)) (\<lambda>(skip, ob).
     bindT (with_memory i row objective) (\<lambda>full.
     let c = \<lparr>c_id = q, c_objective = full, c_cycle = cycle_id_for (tk_now i) q,
              c_budget = max 0 (min cap (remaining_usd v))\<rparr> in
     bindT (tombstone i q ''in_flight'') (\<lambda>_.
     bindT (emit_human_for_query i row q (c_cycle c)) (\<lambda>_.
     bindT (if skip
            then retT (Settled (VDict [(''ok'', VBool False), (''repeated_failure_gate_skip'', VBool True)])
                   (Some (skipped_text i ob)))
            else paid_dispatch i objective c) (\<lambda>d.
       case d of
         Returns rec \<Rightarrow> retT rec
       | Settled dres err \<Rightarrow> finish_dispatch i row c v ob dres err))))))"

section \<open>The walk\<close>

definition reject_row :: "tick_in \<Rightarrow> string \<Rightarrow> string \<Rightarrow> dict \<Rightarrow> unit tick" where
  "reject_row i q reason extra =
     bindT (tombstone i q reason) (\<lambda>_. log_tick i (refusal reason (tk_now i) @ (''id'', VStr q) # extra))"

fun walk :: "tick_in \<Rightarrow> string \<Rightarrow> (dict \<times> string) list \<Rightarrow> dict tick" where
  "walk i token [] = retT (quiet ''no_valid_pending'' (tk_now i))"
| "walk i token ((row, q) # rest) =
     (case resolve_objective row of
        None \<Rightarrow> bindT (reject_row i q ''rejected_malformed'' []) (\<lambda>_. walk i token rest)
      | Some objective \<Rightarrow>
          bindT (liftT (auth_ok (tk_env i) (tk_mac i) (tk_fr i) (Some (tk_jail i)) (tk_now i) row token)) (\<lambda>ok.
          if \<not> ok then bindT (reject_row i q ''rejected_auth'' []) (\<lambda>_. walk i token rest)
          else bindT (cap_now i) (\<lambda>v.
          if \<not> allowed v then logged i (daily_cap_block_rec v q (tk_now i))
          else bindT (review_step i q objective v) (\<lambda>r.
            case r of
              ReviewReturns rec \<Rightarrow> retT rec
            | Rejected risk reason \<Rightarrow>
                bindT (reject_row i q ''rejected_review''
                  [(''risk'', VStr risk), (''review_reason'', VStr (tk_mask i reason))]) (\<lambda>_. walk i token rest)
            | Passed v' \<Rightarrow> dispatch_step i row q objective v'))))"

section \<open>The tick\<close>

definition consume_queue :: "tick_in \<Rightarrow> snapshot option \<Rightarrow> dict tick" where
  "consume_queue i snap =
     bindT (readT (pending_queries (tk_env i) (tk_fr i) (tk_sha i) (tk_dir i) snap)) (\<lambda>pending.
     if pending = [] then onfsT (tk_feed i)
     else bindT (liftT (expected_token (tk_env i) (tk_open_text i))) (\<lambda>token.
       case token of
         None \<Rightarrow> logged i (refusal ''auth_misconfig'' (tk_now i) @ [(''pending'', VInt (int (length pending)))])
       | Some t \<Rightarrow> walk i t pending))"

definition checked_queue :: "tick_in \<Rightarrow> dict tick" where
  "checked_queue i =
     (let e = tk_env i in
      bindT (if tick_failclosed e \<or> stall_enabled e
             then bindT (readT (ledger_snapshot e (tk_dir i))) (\<lambda>sn. retT (Some sn)) else retT None) (\<lambda>snap.
      let failed = (case snap of Some sn \<Rightarrow> failed_ledgers sn | None \<Rightarrow> []);
          bad = (case snap of Some sn \<Rightarrow> non_object_ledgers sn | None \<Rightarrow> []) in
      if tick_failclosed e \<and> failed \<noteq> []
      then bindT (liftT (absorb e (RuntimeError ''ledger read failed'') ())) (\<lambda>_.
             report_edge i ''ledger_read_failed'' ''ledgers'' failed)
      else if stall_enabled e \<and> bad \<noteq> []
      then bindT (liftT (absorb e (TypeError ''non-object row'') ())) (\<lambda>_.
             report_edge i ''ledger_non_object_row'' ''ledgers'' bad)
      else consume_queue i snap))"

definition profiled_queue :: "tick_in \<Rightarrow> dict tick" where
  "profiled_queue i =
     (let e = tk_env i in
      if \<not> secure_profile_enabled e then checked_queue i
      else bindT (liftT (secure_profile_violations e)) (\<lambda>vs.
        if vs \<noteq> []
        then bindT (liftT (absorb e (RuntimeError ''insecure tick profile'') ())) (\<lambda>_.
               report_edge i ''insecure_tick_profile'' ''violated'' vs)
        else checked_queue i))"

definition leased_queue :: "tick_in \<Rightarrow> dict tick" where
  "leased_queue i =
     (let e = tk_env i; now = tk_now i in
      if \<not> lease_enabled e then profiled_queue i
      else case tk_lease i of
        LeaseTaken \<Rightarrow> profiled_queue i
      | LeaseHeld owner expiry \<Rightarrow>
          retT (quiet ''lease_busy'' now @ [(''held_by'', owner), (''lease_expires_ts'', expiry)])
      | LeaseDown x \<Rightarrow> liftT (absorb e x (quiet ''lease_unavailable'' now @ [(''error'', VStr (tk_show i x))])))"

definition tick_once :: "tick_in \<Rightarrow> dict tick" where
  "tick_once i =
     (let e = tk_env i; now = tk_now i in
      bindT (liftT (halt_state_now e (tk_home i) (tk_probe i))) (\<lambda>st.
      if halted st
      then (let rec = human_halt_row st now in
            bindT (halt_edge i rec) (\<lambda>new. if new then log_tick_safe i rec else retT rec))
      else if \<not> tick_enabled e then retT (quiet ''gate_off'' now)
      else
        bindT (liftT (if gate_lower_true e ''AGI_V8_PUBLIC_TIER_GATE_ENABLED'' then tk_tier i else Inr ())) (\<lambda>_.
        bindT (if preseal_capture_enabled e then swallowT e () (liftT (tk_capture i)) else retT ()) (\<lambda>_.
        case (if deadline_enabled e then tk_context i else Inr ()) of
          Inl x \<Rightarrow> liftT (absorb e x (quiet ''deadline_unavailable'' now @ [(''error'', VStr (tk_show i x))]))
        | Inr _ \<Rightarrow> leased_queue i))))"

section \<open>A small jail\<close>

text \<open>A signed queue with one query, and a dispatch that succeeds.\<close>

definition jail_env :: env where
  "jail_env = auth_env(tick_env \<mapsto> ''true'', ''AGI_V8_TICK_AUTH_TOKEN'' \<mapsto> ''secret'')"

definition jail_tick :: tick_in where
  "jail_tick = \<lparr>tk_env = jail_env, tk_dir = ''/s'', tk_now = 160, tk_home = ''/p'', tk_probe = (\<lambda>_. Absent),
     tk_tier = Inr (), tk_capture = Inr (), tk_context = Inr (), tk_lease = LeaseTaken,
     tk_open_text = (\<lambda>_. Inl (FileNotFound ''token'')), tk_fr = fraction_repr,
     tk_sha = (\<lambda>s. ''5e884898da280471''), tk_mac = toy_mac, tk_jail = ''3f2a'', tk_day_start = (\<lambda>_. 0),
     tk_host = \<lparr>h_cwd = [''p''], h_home = (\<lambda>_. None), h_package = [''p'']\<rparr>, tk_umask = 18,
     tk_join = Inr (None, None), tk_show = etype, tk_mask = (\<lambda>s. s), tk_ack_write = Inr (),
     tk_rids = (''r0'', ''r1''), tk_clock = (\<lambda>n. 160 + of_nat n), tk_spend = (\<lambda>_. Inr 0),
     tk_feed = (\<lambda>fs. (fs, Inr (quiet ''no_pending'' 160))),
     tk_reviewer = (\<lambda>_ fs. (fs, Reviewed True ''low'' ''fine'')), tk_has_reviewer = Inr True,
     tk_memory = (\<lambda>_ _. Inr []), tk_human = (\<lambda>_ _ fs. (fs, Inr ())),
     tk_dispatch = (\<lambda>_ _ fs. (fs, Ran (VDict [(''ok'', VBool True)]))),
     tk_settle = (\<lambda>_ _ _ fs. (fs, Inr ()))\<rparr>"

definition jail_fs :: ledger_fs where
  "jail_fs = Map.empty(inbox_path ''/s'' \<mapsto> Reg 384 \<lparr>jlines = [Row (VDict auth_stamped)], torn = False\<rparr>)"

definition jail_state :: tick_state where
  "jail_state = \<lparr>ts_fs = jail_fs, ts_ack = None, ts_faults = [], ts_sent = []\<rparr>"

definition jail_call :: call where
  "jail_call = \<lparr>c_id = ''q1'', c_objective = ''fix the parser'', c_cycle = ''tick_160_q1'', c_budget = 1\<rparr>"

lemma jail_dispatches: "ts_sent (fst (tick_once jail_tick jail_state)) = [jail_call]"
  by code_simp

text \<open>The second tick finds the query consumed.\<close>

lemma jail_second_tick:
  "ts_sent (fst (tick_once jail_tick (fst (tick_once jail_tick jail_state)))) = [jail_call]"
  by code_simp

end
