(* ===== verification/TickProofs.thy ===== *)
theory TickProofs
  imports TickRun
begin

text \<open>
  What the tick loop promises: over any run of ticks, with any failing writes, crashes and results of
  the calls, no query is dispatched twice; nothing is dispatched that the checks did not admit; and the
  poisoned row that stops the queue.
\<close>

section \<open>Marks in the consumed ledger\<close>

text \<open>
  An identity is marked when the ledger holds a row for it, or cannot be read any more: an append never
  repairs a damaged ledger, so a mark stays.
\<close>

definition marked :: "path \<Rightarrow> string \<Rightarrow> ledger_fs \<Rightarrow> bool" where
  "marked p q fs \<longleftrightarrow>
     damaged p fs \<or>
     ledger_ok p fs \<and> (\<exists>d. VDict d \<in> set (ledger_rows p fs) \<and> dict_get d ''id'' = VStr q)"

lemma append_elsewhere: "p' \<noteq> p \<Longrightarrow> fst (atomic_append_jsonl e u w a b p' v fs) p = fs p"
  by (auto simp: atomic_append_eq append_jsonl_unlocked_def split: option.splits node.splits wr.splits)

lemma marked_cong: "fs' p = fs p \<Longrightarrow> marked p q fs' = marked p q fs"
  by (simp add: marked_def damaged_def ledger_ok_def ledger_rows_def read_jsonl_def opened_def
      split: option.splits node.splits)

lemma append_WrUnsynced:
  "fst (atomic_append_jsonl e u WrUnsynced a b p v fs) = fst (atomic_append_jsonl e u WrOk a b p v fs)"
  by (auto simp: atomic_append_eq append_jsonl_unlocked_def split: option.splits node.splits)

lemma append_WrNone_rows:
  assumes "marked p q fs"
  shows "marked p q (fst (atomic_append_jsonl e u WrNone a b p v fs))"
  using assms
  by (auto simp: marked_def damaged_def ledger_ok_def ledger_rows_def read_jsonl_def
      atomic_append_eq append_jsonl_unlocked_def split: option.splits node.splits)

lemma damaged_partial:
  "damaged p fs \<Longrightarrow> damaged p (fst (atomic_append_jsonl e u WrPartial a b p v fs))"
  by (auto simp: damaged_def atomic_append_eq append_jsonl_unlocked_def add_torn_def)

lemma marked_append_ok:
  assumes "marked p q fs"
  shows "marked p q (fst (atomic_append_jsonl e u WrOk a b p v fs))"
proof -
  have eq: "fst (atomic_append_jsonl e u WrOk a b p v fs) = ledger_append e u p v fs"
    by (simp add: ledger_append_def atomic_append_eq)
  show ?thesis
    using assms unfolding eq marked_def
    by (auto simp: ledger_append_ok ledger_rows_append intro: damaged_append)
qed

lemma marked_append:
  assumes "marked p q fs"
  shows "marked p q (fst (atomic_append_jsonl e u w a b p' v fs))"
proof (cases "p' = p")
  case False
  then show ?thesis
    using assms marked_cong [of "fst (atomic_append_jsonl e u w a b p' v fs)" p fs q]
    by (simp add: append_elsewhere)
next
  case True
  then show ?thesis
  proof (cases w)
    case WrPartial
    then show ?thesis
      using assms True damaged_partial partial_write_damages unfolding marked_def by blast
  qed (use assms True marked_append_ok append_WrNone_rows in \<open>simp_all add: append_WrUnsynced\<close>)
qed

lemma append_marks:
  assumes "atomic_append_jsonl e u w a b p (VDict d) fs = (fs', Inr x)" "dict_get d ''id'' = VStr q"
  shows "marked p q fs'"
proof -
  have ok: "w = WrOk" and fs': "fs' = ledger_append e u p (VDict d) fs"
    and node: "fs p = None \<or> (\<exists>m c. fs p = Some (Reg m c))"
    using assms(1)
    by (auto simp: ledger_append_def atomic_append_eq append_jsonl_unlocked_def
        split: option.splits node.splits wr.splits)
  show ?thesis
  proof (cases "ledger_ok p fs")
    case True
    then show ?thesis using assms(2) by (auto simp: fs' marked_def ledger_append_ok ledger_rows_append)
  next
    case False
    then have "damaged p fs'"
      using node
      by (auto simp: fs' damaged_def ledger_ok_def ledger_append_def atomic_append_eq
          append_jsonl_unlocked_def add_line_def)
    then show ?thesis by (simp add: marked_def)
  qed
qed

section \<open>Computations that send nothing\<close>

definition keeps :: "path \<Rightarrow> 'a tick \<Rightarrow> bool" where
  "keeps p m \<longleftrightarrow> (\<forall>s. ts_sent (fst (m s)) = ts_sent s \<and>
     (\<forall>q. marked p q (ts_fs s) \<longrightarrow> marked p q (ts_fs (fst (m s)))))"

named_theorems keeps_intros \<open>computations that send nothing and keep the marks\<close>

lemma keeps_pure [keeps_intros]: "keeps p (retT a)" "keeps p (raiseT x)" "keeps p (liftT r)" "keeps p (readT f)"
  by (simp_all add: keeps_def retT_def raiseT_def liftT_def readT_def)

lemma keeps_bind [keeps_intros]: "keeps p m \<Longrightarrow> (\<And>a. keeps p (f a)) \<Longrightarrow> keeps p (bindT m f)"
  by (auto simp: keeps_def bindT_def split: prod.splits sum.splits) (metis fst_conv)+

lemma keeps_swallow [keeps_intros]: "keeps p m \<Longrightarrow> keeps p (swallowT e a m)"
  by (auto simp: keeps_def swallowT_def split: prod.splits sum.splits) (metis fst_conv)+

lemma keeps_finally [keeps_intros]: "keeps p m \<Longrightarrow> keeps p f \<Longrightarrow> keeps p (finallyT m f)"
  by (auto simp: keeps_def finallyT_def split: prod.splits sum.splits) (metis fst_conv)+

lemma keeps_wrT:
  "(\<And>w fs q. marked p q fs \<Longrightarrow> marked p q (fst (f w fs))) \<Longrightarrow> keeps p (wrT f)"
  by (auto simp: keeps_def wrT_def Let_def split: prod.splits) (metis fst_conv)+

lemma keeps_onfsT: "(\<And>fs. fst (f fs) p = fs p) \<Longrightarrow> keeps p (onfsT f)"
  by (auto simp: keeps_def onfsT_def Let_def split: prod.splits) (metis fst_conv marked_cong)+

lemma keeps_push [keeps_intros]: "keeps p (push_row i p' row)"
  unfolding push_row_def by (intro keeps_wrT marked_append)

lemma keeps_if [keeps_intros]: "(b \<Longrightarrow> keeps p m) \<Longrightarrow> (\<not> b \<Longrightarrow> keeps p n) \<Longrightarrow> keeps p (if b then m else n)"
  by simp

lemma keeps_rows [keeps_intros]:
  "keeps p (tombstone i q reason)" "keeps p (log_tick i rec)" "keeps p (logged i rec)"
  "keeps p (reject_row i q reason extra)"
  unfolding tombstone_def log_tick_def logged_def reject_row_def by (intro keeps_intros)+

lemma keeps_log_safe [keeps_intros]: "keeps p (log_tick_safe i rec)"
  using keeps_rows(2) [of p i rec]
  by (auto simp: keeps_def log_tick_safe_def split: prod.splits sum.splits) (metis fst_conv)+

lemma keeps_edges [keeps_intros]:
  "keeps p (fault_edge i reason field names)" "keeps p (report_edge i reason field names)" "keeps p (cap_now i)"
  unfolding fault_edge_def report_edge_def cap_now_def Let_def by (intro keeps_intros)+

lemma keeps_halt_edge [keeps_intros]: "keeps p (halt_edge i rec)"
  by (auto simp: keeps_def halt_edge_def Let_def split: sum.splits bool.splits option.splits)

lemma marked_res_append:
  "marked p q fs \<Longrightarrow> marked p q (fst (res_append e u w dir row fs))"
  using marked_append by (auto simp: res_append_def Let_def split: prod.splits) (metis fst_conv)

lemma keeps_money [keeps_intros]: "keeps p (reserve_for i k rid subject x cycle)" "keeps p (settle_for i k res)"
proof -
  have "marked p q (fst (reserve e u w dir rid subject cy x now spend fs))" if "marked p q fs"
    for q e u w dir rid subject cy x now spend fs
    using marked_res_append [OF that]
    by (auto simp: reserve_def Let_def that split: sum.splits prod.splits) (metis fst_conv)
  then show "keeps p (reserve_for i k rid subject x cycle)"
    unfolding reserve_for_def by (intro keeps_wrT)
  have "marked p q (fst (settle e u w dir res actual now spend fs))" if "marked p q fs"
    for q e u w dir res actual now spend fs
    using marked_res_append [OF that]
    by (auto simp: settle_def Let_def that split: reservation.splits sum.splits prod.splits) (metis fst_conv)
  then show "keeps p (settle_for i k res)"
    unfolding settle_for_def by (intro keeps_wrT)
qed

lemma marked_record_outcome:
  "marked p q fs \<Longrightarrow> marked p q (fst (record_outcome e fr sha u w dir row dres err cycle now fs))"
  using marked_append
  by (auto simp: record_outcome_def split: option.splits prod.splits sum.splits) (metis fst_conv)+

text \<open>The calls into other code leave the consumed ledger alone.\<close>

definition leaves :: "path \<Rightarrow> (ledger_fs \<Rightarrow> ledger_fs \<times> 'a) \<Rightarrow> bool" where
  "leaves p f \<longleftrightarrow> (\<forall>fs. fst (f fs) p = fs p)"

definition well_behaved :: "tick_in \<Rightarrow> bool" where
  "well_behaved i \<longleftrightarrow>
     (let p = consumed_path (tk_dir i) in
      leaves p (tk_feed i) \<and> (\<forall>x. leaves p (tk_reviewer i x)) \<and> (\<forall>x y. leaves p (tk_human i x y)) \<and>
      (\<forall>e c. leaves p (tk_dispatch i e c)) \<and> (\<forall>r d x. leaves p (tk_settle i r d x)))"

lemma keeps_leaves: "leaves p f \<Longrightarrow> keeps p (onfsT f)"
  unfolding leaves_def by (intro keeps_onfsT) blast

lemma well_behaved_keeps:
  assumes "well_behaved i" "p = consumed_path (tk_dir i)"
  shows "keeps p (onfsT (tk_feed i))" "keeps p (run_reviewer i x)" "keeps p (onfsT (tk_human i x y))"
    "keeps p (onfsT (tk_settle i r d err))"
proof -
  have "leaves p (\<lambda>fs. let (fs', a) = tk_reviewer i x fs in (fs', Inr a))"
    using assms by (auto simp: well_behaved_def leaves_def Let_def split: prod.splits) (metis fst_conv)
  then show "keeps p (run_reviewer i x)" unfolding run_reviewer_def by (rule keeps_leaves)
qed (use assms in \<open>auto simp: well_behaved_def Let_def intro: keeps_leaves\<close>)

lemma keeps_review [keeps_intros]:
  assumes "well_behaved i" "p = consumed_path (tk_dir i)"
  shows "keeps p (review_step i q objective v)"
proof -
  have handle: "keeps p (handle_review i q cycle a)" "keeps p (plain_review a)" for cycle a
    unfolding handle_review_def plain_review_def Let_def
    by (cases a; simp; intro keeps_intros)+
  have "keeps p (review_call i q objective v)"
    unfolding review_call_def Let_def by (intro keeps_intros handle well_behaved_keeps assms)
  then show ?thesis
    unfolding review_step_def
    by (intro keeps_intros) (auto split: sum.splits intro!: keeps_intros)
qed

lemma keeps_finish [keeps_intros]:
  assumes "well_behaved i" "p = consumed_path (tk_dir i)"
  shows "keeps p (finish_dispatch i row c v ob dres err)"
  unfolding finish_dispatch_def Let_def
  by (intro keeps_intros well_behaved_keeps assms keeps_wrT marked_record_outcome)

section \<open>At most one call, and only of a marked query\<close>

text \<open>At most one call, of a query with \<open>P\<close>; whatever was marked stays so.\<close>

definition emits :: "path \<Rightarrow> (string \<Rightarrow> bool) \<Rightarrow> 'a tick \<Rightarrow> bool" where
  "emits p P m \<longleftrightarrow> (\<forall>s. (\<forall>q. marked p q (ts_fs s) \<longrightarrow> marked p q (ts_fs (fst (m s)))) \<and>
     (\<exists>cs. ts_sent (fst (m s)) = ts_sent s @ cs \<and> length cs \<le> 1 \<and> (\<forall>c \<in> set cs. P (c_id c))))"

text \<open>The same, and the query called is marked at the end.\<close>

definition sends :: "path \<Rightarrow> (string \<Rightarrow> bool) \<Rightarrow> 'a tick \<Rightarrow> bool" where
  "sends p P m \<longleftrightarrow> (\<forall>s. (\<forall>q. marked p q (ts_fs s) \<longrightarrow> marked p q (ts_fs (fst (m s)))) \<and>
     (\<exists>cs. ts_sent (fst (m s)) = ts_sent s @ cs \<and> length cs \<le> 1 \<and>
        (\<forall>c \<in> set cs. P (c_id c) \<and> marked p (c_id c) (ts_fs (fst (m s))))))"

lemma keeps_emits: "keeps p m \<Longrightarrow> emits p P m"
  by (simp add: keeps_def emits_def)

lemma keeps_sends: "keeps p m \<Longrightarrow> sends p P m"
  by (simp add: keeps_def sends_def)

lemma emits_bind:
  assumes "keeps p m" "\<And>a. emits p P (f a)"
  shows "emits p P (bindT m f)"
  unfolding emits_def
proof
  fix s
  obtain s' r where m: "m s = (s', r)" by (cases "m s")
  have k: "ts_sent s' = ts_sent s" "\<And>q. marked p q (ts_fs s) \<Longrightarrow> marked p q (ts_fs s')"
    using assms(1) m unfolding keeps_def by (metis fst_conv)+
  show "(\<forall>q. marked p q (ts_fs s) \<longrightarrow> marked p q (ts_fs (fst (bindT m f s)))) \<and>
     (\<exists>cs. ts_sent (fst (bindT m f s)) = ts_sent s @ cs \<and> length cs \<le> 1 \<and> (\<forall>c \<in> set cs. P (c_id c)))"
  proof (cases r)
    case (Inr b)
    show ?thesis using k spec [OF assms(2) [of b, unfolded emits_def], of s'] by (auto simp: bindT_def m Inr)
  qed (use k in \<open>simp add: bindT_def m\<close>)
qed

lemma sends_bind:
  assumes "keeps p m" "\<And>a. sends p P (f a)"
  shows "sends p P (bindT m f)"
  unfolding sends_def
proof
  fix s
  obtain s' r where m: "m s = (s', r)" by (cases "m s")
  have k: "ts_sent s' = ts_sent s" "\<And>q. marked p q (ts_fs s) \<Longrightarrow> marked p q (ts_fs s')"
    using assms(1) m unfolding keeps_def by (metis fst_conv)+
  show "(\<forall>q. marked p q (ts_fs s) \<longrightarrow> marked p q (ts_fs (fst (bindT m f s)))) \<and>
     (\<exists>cs. ts_sent (fst (bindT m f s)) = ts_sent s @ cs \<and> length cs \<le> 1 \<and>
        (\<forall>c \<in> set cs. P (c_id c) \<and> marked p (c_id c) (ts_fs (fst (bindT m f s)))))"
  proof (cases r)
    case (Inr b)
    show ?thesis using k spec [OF assms(2) [of b, unfolded sends_def], of s'] by (auto simp: bindT_def m Inr)
  qed (use k in \<open>simp add: bindT_def m\<close>)
qed

lemma emits_then:
  assumes "emits p P m" "\<And>a. keeps p (f a)"
  shows "emits p P (bindT m f)"
  unfolding emits_def
proof
  fix s
  obtain s' r where m: "m s = (s', r)" by (cases "m s")
  obtain cs where cs: "ts_sent s' = ts_sent s @ cs" "length cs \<le> 1" "\<forall>c \<in> set cs. P (c_id c)"
    and k: "\<And>q. marked p q (ts_fs s) \<Longrightarrow> marked p q (ts_fs s')"
    using assms(1) m unfolding emits_def by (metis fst_conv)
  show "(\<forall>q. marked p q (ts_fs s) \<longrightarrow> marked p q (ts_fs (fst (bindT m f s)))) \<and>
     (\<exists>cs. ts_sent (fst (bindT m f s)) = ts_sent s @ cs \<and> length cs \<le> 1 \<and> (\<forall>c \<in> set cs. P (c_id c)))"
  proof (cases r)
    case (Inr b)
    show ?thesis using k cs spec [OF assms(2) [of b, unfolded keeps_def], of s'] by (auto simp: bindT_def m Inr)
  qed (use k cs in \<open>auto simp: bindT_def m\<close>)
qed

lemma tombstone_marks:
  assumes "tombstone i q reason s = (s', Inr x)"
  shows "marked (consumed_path (tk_dir i)) q (ts_fs s')"
proof -
  obtain ks where ks: "join_keys (tk_env i) (tk_join i) (Some (cycle_id_for (tk_now i) q)) None = Inr ks"
    and push: "push_row i (consumed_path (tk_dir i)) (fold (\<lambda>(k, v) d. dict_set d k v) ks
            [(''id'', VStr q), (''reason'', VStr reason), (''ts'', VFloat (tk_now i))]) s = (s', Inr x)"
    using assms by (auto simp: tombstone_def bindT_def liftT_def split: sum.splits)
  have "''id'' \<notin> set (map fst ks)"
    using ks by (auto simp: join_keys_def split: if_splits option.splits)
  then have "dict_get (fold (\<lambda>(k, v) d. dict_set d k v) ks d) ''id'' = dict_get d ''id''" for d
    by (induction ks arbitrary: d) auto
  then show ?thesis
    using push append_marks by (auto simp: push_row_def wrT_def Let_def dict_get_def split: prod.splits)
qed

text \<open>Behind a tombstone, a call of the same query is a call of a marked one.\<close>

lemma sends_tombstone:
  assumes "p = consumed_path (tk_dir i)" "\<And>a. emits p (\<lambda>x. x = q) (f a)"
  shows "sends p (\<lambda>x. x = q) (bindT (tombstone i q reason) f)"
  unfolding sends_def
proof
  fix s
  obtain s' r where m: "tombstone i q reason s = (s', r)" by (cases "tombstone i q reason s")
  have k: "ts_sent s' = ts_sent s" "\<And>x. marked p x (ts_fs s) \<Longrightarrow> marked p x (ts_fs s')"
    using keeps_rows(1) m unfolding keeps_def by (metis fst_conv)+
  show "(\<forall>x. marked p x (ts_fs s) \<longrightarrow> marked p x (ts_fs (fst (bindT (tombstone i q reason) f s)))) \<and>
     (\<exists>cs. ts_sent (fst (bindT (tombstone i q reason) f s)) = ts_sent s @ cs \<and> length cs \<le> 1 \<and>
       (\<forall>c \<in> set cs. c_id c = q \<and> marked p (c_id c) (ts_fs (fst (bindT (tombstone i q reason) f s)))))"
  proof (cases r)
    case (Inr b)
    then have "marked p q (ts_fs s')" using tombstone_marks m assms(1) by blast
    then show ?thesis
      using k spec [OF assms(2) [of b, unfolded emits_def], of s'] by (auto simp: bindT_def m Inr)
  qed (use k in \<open>simp add: bindT_def m\<close>)
qed

lemma emits_call:
  assumes "well_behaved i" "p = consumed_path (tk_dir i)"
  shows "emits p (\<lambda>x. x = c_id c) (dispatch_call i raw c)"
proof -
  have "fst (tk_dispatch i e c fs) p = fs p" for e fs
    using assms by (auto simp: well_behaved_def leaves_def Let_def)
  then show ?thesis
    by (auto simp: emits_def dispatch_call_def Let_def split: prod.splits) (metis fst_conv marked_cong)
qed

lemma emits_paid:
  assumes "well_behaved i" "p = consumed_path (tk_dir i)"
  shows "emits p (\<lambda>x. x = c_id c) (paid_dispatch i raw c)"
proof -
  have "keeps p (handle_outcome i c a)" for a
    unfolding handle_outcome_def Let_def by (cases a; simp; intro keeps_intros)
  then have after: "keeps p (if a = Killed then raiseT killed
      else finallyT (handle_outcome i c a) (settle_for i 3 res))" for a res
    by (intro keeps_intros)
  show ?thesis
    unfolding paid_dispatch_def
    by (intro emits_bind keeps_intros)
      (auto intro!: emits_then [OF emits_call [OF assms] after] keeps_emits keeps_intros)
qed

lemma sends_dispatch:
  assumes "well_behaved i" "p = consumed_path (tk_dir i)"
  shows "sends p (\<lambda>x. x = q) (dispatch_step i row q objective v)"
proof -
  have memory: "keeps p (with_memory i row objective)"
    unfolding with_memory_def by (intro keeps_intros)
  have human: "keeps p (emit_human_for_query i row q cy)" for cy
    unfolding emit_human_for_query_def by (intro keeps_intros well_behaved_keeps assms)
  have last: "keeps p (case d of Returns rec \<Rightarrow> retT rec
      | Settled dres err \<Rightarrow> finish_dispatch i row c v ob dres err)" for d c ob
    by (cases d) (auto intro: keeps_intros assms)
  show ?thesis
  proof -
    have "sends p (\<lambda>x. x = q) (bindT (tombstone i q ''in_flight'') (\<lambda>_.
       bindT (emit_human_for_query i row q (c_cycle c)) (\<lambda>_.
       bindT (if skip then retT (Settled dr er) else paid_dispatch i objective c) (\<lambda>d.
         case d of Returns rec \<Rightarrow> retT rec | Settled dres err \<Rightarrow> finish_dispatch i row c v ob dres err))))"
      if "c_id c = q" for c skip ob dr er
    proof (rule sends_tombstone [OF assms(2)], rule emits_bind [OF human], rule emits_then [OF _ last])
      show "emits p (\<lambda>x. x = q) (if skip then retT (Settled dr er) else paid_dispatch i objective c)"
        using emits_paid [OF assms, of c objective] that by (auto intro: keeps_emits keeps_intros)
    qed
    note inner = this
    show ?thesis unfolding dispatch_step_def Let_def
    proof (rule sends_bind [OF keeps_pure(3)], rule sends_bind [OF keeps_pure(4)])
      fix cap :: rat and so :: "bool \<times> observation option"
      obtain skip ob where so: "so = (skip, ob)" by (cases so)
      show "sends p (\<lambda>x. x = q) (case so of (skip, ob) \<Rightarrow> bindT (with_memory i row objective) (\<lambda>full.
          bindT (tombstone i q ''in_flight'') (\<lambda>_.
          bindT (emit_human_for_query i row q (c_cycle \<lparr>c_id = q, c_objective = full,
            c_cycle = cycle_id_for (tk_now i) q, c_budget = max 0 (min cap (remaining_usd v))\<rparr>)) (\<lambda>_.
          bindT (if skip then retT (Settled (VDict [(''ok'', VBool False), (''repeated_failure_gate_skip'', VBool True)])
                   (Some (skipped_text i ob)))
            else paid_dispatch i objective \<lparr>c_id = q, c_objective = full,
            c_cycle = cycle_id_for (tk_now i) q, c_budget = max 0 (min cap (remaining_usd v))\<rparr>) (\<lambda>d.
            case d of Settled dres err \<Rightarrow> finish_dispatch i row \<lparr>c_id = q, c_objective = full,
            c_cycle = cycle_id_for (tk_now i) q, c_budget = max 0 (min cap (remaining_usd v))\<rparr> v ob dres err
            | Returns rec \<Rightarrow> retT rec)))))"
        unfolding so prod.case by (rule sends_bind [OF memory], rule inner) simp
    qed
  qed
qed

lemma sends_mono: "sends p P m \<Longrightarrow> (\<And>x. P x \<Longrightarrow> Q x) \<Longrightarrow> sends p Q m"
  unfolding sends_def by blast

lemma sends_walk:
  assumes "well_behaved i" "p = consumed_path (tk_dir i)"
  shows "sends p (\<lambda>x. x \<in> set (map snd pending)) (walk i token pending)"
proof (induction pending)
  case Nil
  show ?case by (auto intro: keeps_sends keeps_intros)
next
  case (Cons rq rest)
  obtain row q where rq: "rq = (row, q)" by (cases rq)
  define P where "P = (\<lambda>x. x \<in> set (map snd (rq # rest)))"
  have rest: "sends p P (walk i token rest)"
    by (rule sends_mono [OF Cons.IH]) (simp add: P_def)
  have disp: "sends p P (dispatch_step i row q objective v)" for objective v
    by (rule sends_mono [OF sends_dispatch [OF assms]]) (simp add: P_def rq)
  have review: "sends p P (bindT (review_step i q objective v) (\<lambda>r.
      case r of Passed v' \<Rightarrow> dispatch_step i row q objective v'
      | Rejected risk reason \<Rightarrow> bindT (reject_row i q ''rejected_review''
          [(''risk'', VStr risk), (''review_reason'', VStr (tk_mask i reason))]) (\<lambda>_. walk i token rest)
      | ReviewReturns rec \<Rightarrow> retT rec))" for objective v
  proof (rule sends_bind [OF keeps_review [OF assms]])
    fix r
    show "sends p P (case r of Passed v' \<Rightarrow> dispatch_step i row q objective v'
      | Rejected risk reason \<Rightarrow> bindT (reject_row i q ''rejected_review''
          [(''risk'', VStr risk), (''review_reason'', VStr (tk_mask i reason))]) (\<lambda>_. walk i token rest)
      | ReviewReturns rec \<Rightarrow> retT rec)"
      by (cases r) (auto intro: sends_bind rest disp keeps_sends keeps_intros)
  qed
  have capped: "sends p P (if \<not> allowed v then logged i (daily_cap_block_rec v q (tk_now i))
      else bindT (review_step i q objective v) (\<lambda>r.
      case r of Passed v' \<Rightarrow> dispatch_step i row q objective v'
      | Rejected risk reason \<Rightarrow> bindT (reject_row i q ''rejected_review''
          [(''risk'', VStr risk), (''review_reason'', VStr (tk_mask i reason))]) (\<lambda>_. walk i token rest)
      | ReviewReturns rec \<Rightarrow> retT rec))" for objective v
    using review by (auto intro: keeps_sends keeps_intros)
  have "sends p P (walk i token ((row, q) # rest))"
  proof (cases "resolve_objective row")
    case None
    show ?thesis unfolding walk.simps None option.case by (rule sends_bind [OF keeps_rows(4) rest])
  next
    case (Some objective)
    show ?thesis unfolding walk.simps Some option.case
    proof (rule sends_bind [OF keeps_pure(3)])
      fix ok :: bool
      show "sends p P (if \<not> ok then bindT (reject_row i q ''rejected_auth'' []) (\<lambda>_. walk i token rest)
        else bindT (cap_now i) (\<lambda>v. if \<not> allowed v then logged i (daily_cap_block_rec v q (tk_now i))
          else bindT (review_step i q objective v) (\<lambda>r.
          case r of Passed v' \<Rightarrow> dispatch_step i row q objective v'
          | Rejected risk reason \<Rightarrow> bindT (reject_row i q ''rejected_review''
            [(''risk'', VStr risk), (''review_reason'', VStr (tk_mask i reason))]) (\<lambda>_. walk i token rest)
          | ReviewReturns rec \<Rightarrow> retT rec)))"
        using sends_bind [OF keeps_rows(4) rest] sends_bind [OF keeps_edges(3) capped] by simp
    qed
  qed
  then show ?case by (simp only: P_def rq)
qed

text \<open>What is pending is not marked, when the ledgers are read with care.\<close>

lemma row_ids_mem:
  "row_ids fr rows = Inr ids \<Longrightarrow> VDict d \<in> set rows \<Longrightarrow> dict_get d ''id'' = VStr q \<Longrightarrow> q \<in> set ids"
  by (induction fr rows arbitrary: ids rule: row_ids.induct) (auto split: if_splits)

lemma keep_pending_fresh:
  "keep_pending fr sha c rows = Inr ps \<Longrightarrow> (d, q) \<in> set ps \<Longrightarrow> q \<notin> set c"
  by (induction rows arbitrary: ps) (auto split: if_splits pyv.splits)

lemma keep_pending_dicts:
  "keep_pending fr sha c rows = Inr ps \<Longrightarrow> list_all is_dict rows"
  by (induction rows arbitrary: ps) (auto simp: query_id_def split: pyv.splits)

lemma careful_pending_fresh:
  assumes "ledger_snapshot e dir fs = Inr sn" "failed_ledgers sn = []"
    and "pending_queries e fr sha dir (Some sn) fs = Inr ps" "(d, q) \<in> set ps"
  shows "\<not> marked (consumed_path dir) q fs"
proof
  assume marked: "marked (consumed_path dir) q fs"
  obtain c where c: "keep_pending fr sha c (case sn_inbox sn of None \<Rightarrow> [] | Some rows \<Rightarrow> rows) = Inr ps"
    and bought: "(case sn_bought sn of None \<Rightarrow> Inr [] | Some rows \<Rightarrow> row_ids fr rows) = Inr c"
    using assms(3) by (auto simp: pending_queries_def)
  have fresh: "q \<notin> set c" using keep_pending_fresh [OF c assms(4)] .
  have inbox: "\<exists>rows. sn_inbox sn = Some rows \<and> rows \<noteq> [] \<and> filter is_dict rows = rows"
    using c assms(4) keep_pending_dicts [OF c]
    by (cases "sn_inbox sn") (auto simp: list_all_iff filter_id_conv)
  then have "sn_bought sn \<noteq> None"
    using assms(2) by (auto simp: failed_ledgers_def axis_good_and_note_def Let_def split: if_splits option.splits)
  then obtain rows where rows: "sn_bought sn = Some rows" by auto
  then have read: "read_jsonl fs (consumed_path dir) = Inr rows"
    using assms(1) by (auto simp: ledger_snapshot_def read_axis_raw_def absorb_def split: sum.splits if_splits)
  then have "\<not> damaged (consumed_path dir) fs" using damaged_unreadable by fastforce
  with marked obtain r where "VDict r \<in> set rows" "dict_get r ''id'' = VStr q"
    using read by (auto simp: marked_def ledger_rows_def)
  then show False using row_ids_mem [of fr rows c] bought rows fresh by auto
qed

section \<open>A whole tick\<close>

text \<open>What one tick does to the consumed ledger, from a given state.\<close>

definition tick_sound :: "path \<Rightarrow> 'a tick \<Rightarrow> tick_state \<Rightarrow> bool" where
  "tick_sound p m s \<longleftrightarrow> (\<forall>q. marked p q (ts_fs s) \<longrightarrow> marked p q (ts_fs (fst (m s)))) \<and>
     (\<exists>cs. ts_sent (fst (m s)) = ts_sent s @ cs \<and> length cs \<le> 1 \<and>
        (\<forall>c \<in> set cs. \<not> marked p (c_id c) (ts_fs s) \<and> marked p (c_id c) (ts_fs (fst (m s)))))"

lemma keeps_sound: "keeps p m \<Longrightarrow> tick_sound p m s"
  by (simp add: keeps_def tick_sound_def)

lemma sends_sound: "sends p P m \<Longrightarrow> (\<And>q. P q \<Longrightarrow> \<not> marked p q (ts_fs s)) \<Longrightarrow> tick_sound p m s"
  unfolding sends_def tick_sound_def by meson

lemma sound_bind_same:
  "m s = (s, r) \<Longrightarrow> (\<And>a. r = Inr a \<Longrightarrow> tick_sound p (f a) s) \<Longrightarrow> tick_sound p (bindT m f) s"
  by (cases r) (auto simp: tick_sound_def bindT_def)

lemma sound_lift:
  "(\<And>a. r = Inr a \<Longrightarrow> tick_sound p (f a) s) \<Longrightarrow> tick_sound p (bindT (liftT r) f) s"
  by (rule sound_bind_same [of _ s r]) (simp_all add: liftT_def)

lemma consume_sound:
  assumes "well_behaved i" "p = consumed_path (tk_dir i)"
    and "ledger_snapshot (tk_env i) (tk_dir i) (ts_fs s) = Inr sn" "failed_ledgers sn = []"
  shows "tick_sound p (consume_queue i (Some sn)) s"
  unfolding consume_queue_def
proof (rule sound_bind_same)
  show "readT (pending_queries (tk_env i) (tk_fr i) (tk_sha i) (tk_dir i) (Some sn)) s =
      (s, pending_queries (tk_env i) (tk_fr i) (tk_sha i) (tk_dir i) (Some sn) (ts_fs s))"
    by (simp add: readT_def)
  fix pending
  assume ps: "pending_queries (tk_env i) (tk_fr i) (tk_sha i) (tk_dir i) (Some sn) (ts_fs s) = Inr pending"
  then have fresh: "\<not> marked p q (ts_fs s)" if "q \<in> set (map snd pending)" for q
    using careful_pending_fresh [OF assms(3,4) ps] that assms(2) by auto
  have walk: "sends p (\<lambda>q. q \<in> set (map snd pending)) (case token of
         None \<Rightarrow> logged i (refusal ''auth_misconfig'' (tk_now i) @ [(''pending'', VInt (int (length pending)))])
       | Some t \<Rightarrow> walk i t pending)" for token
    by (cases token) (auto intro: keeps_sends keeps_intros sends_walk [OF assms(1,2), simplified])
  show "tick_sound p (if pending = [] then onfsT (tk_feed i)
      else bindT (liftT (expected_token (tk_env i) (tk_open_text i))) (\<lambda>token.
       case token of
         None \<Rightarrow> logged i (refusal ''auth_misconfig'' (tk_now i) @ [(''pending'', VInt (int (length pending)))])
       | Some t \<Rightarrow> walk i t pending)) s"
  proof (cases "pending = []")
    case True
    then show ?thesis using keeps_sound [OF well_behaved_keeps(1) [OF assms(1,2)]] by simp
  next
    case False
    then show ?thesis
      unfolding if_not_P [OF False] by (intro sends_sound [OF sends_bind [OF keeps_pure(3) walk]] fresh)
  qed
qed

lemma checked_sound:
  assumes "well_behaved i" "p = consumed_path (tk_dir i)" "tick_failclosed (tk_env i)"
  shows "tick_sound p (checked_queue i) s"
  unfolding checked_queue_def Let_def
proof (rule sound_bind_same)
  let ?snap = "ledger_snapshot (tk_env i) (tk_dir i) (ts_fs s)"
  show "(if tick_failclosed (tk_env i) \<or> stall_enabled (tk_env i)
      then bindT (readT (ledger_snapshot (tk_env i) (tk_dir i))) (\<lambda>sn. retT (Some sn)) else retT None) s =
      (s, bindR ?snap (\<lambda>sn. Inr (Some sn)))"
    using assms(3) by (cases ?snap) (simp_all add: bindT_def readT_def retT_def)
  fix snap assume "bindR ?snap (\<lambda>sn. Inr (Some sn)) = Inr snap"
  then obtain sn where sn: "?snap = Inr sn" "snap = Some sn" by auto
  have report: "tick_sound p (bindT (liftT (absorb e x ())) (\<lambda>_. report_edge i a b c)) s" for e x a b c
    by (intro keeps_sound keeps_intros)
  show "tick_sound p (if tick_failclosed (tk_env i) \<and> (case snap of Some sn \<Rightarrow> failed_ledgers sn | None \<Rightarrow> []) \<noteq> []
      then bindT (liftT (absorb (tk_env i) (RuntimeError ''ledger read failed'') ())) (\<lambda>_.
             report_edge i ''ledger_read_failed'' ''ledgers'' (case snap of Some sn \<Rightarrow> failed_ledgers sn | None \<Rightarrow> []))
      else if stall_enabled (tk_env i) \<and> (case snap of Some sn \<Rightarrow> non_object_ledgers sn | None \<Rightarrow> []) \<noteq> []
      then bindT (liftT (absorb (tk_env i) (TypeError ''non-object row'') ())) (\<lambda>_.
             report_edge i ''ledger_non_object_row'' ''ledgers'' (case snap of Some sn \<Rightarrow> non_object_ledgers sn | None \<Rightarrow> []))
      else consume_queue i snap) s"
    using report consume_sound [OF assms(1,2) sn(1)] assms(3) sn(2) by simp
qed

lemma leased_sound:
  assumes "well_behaved i" "p = consumed_path (tk_dir i)" "tick_failclosed (tk_env i)"
  shows "tick_sound p (leased_queue i) s"
proof -
  have "tick_sound p (profiled_queue i) s"
  proof (cases "secure_profile_enabled (tk_env i)")
    case True
    have report: "tick_sound p (bindT (liftT (absorb e x ())) (\<lambda>_. report_edge i a b c)) s" for e x a b c
      by (intro keeps_sound keeps_intros)
    show ?thesis
      unfolding profiled_queue_def Let_def using True report checked_sound [OF assms]
      by (simp, intro sound_lift) simp
  qed (simp add: profiled_queue_def checked_sound [OF assms])
  then show ?thesis
    unfolding leased_queue_def Let_def
    by (simp split: lease_answer.splits) (intro conjI impI allI keeps_sound keeps_intros)
qed

lemma tick_sound_once:
  assumes "well_behaved i" "p = consumed_path (tk_dir i)" "tick_failclosed (tk_env i)"
  shows "tick_sound p (tick_once i) s"
  unfolding tick_once_def Let_def
proof (rule sound_bind_same)
  show "liftT (halt_state_now (tk_env i) (tk_home i) (tk_probe i)) s =
      (s, halt_state_now (tk_env i) (tk_home i) (tk_probe i))" by (simp add: liftT_def)
  fix st
  have "tick_sound p (bindT (liftT r) (\<lambda>_.
      bindT (if preseal_capture_enabled (tk_env i) then swallowT (tk_env i) () (liftT (tk_capture i)) else retT ()) (\<lambda>_.
        case d of Inl x \<Rightarrow> liftT (f x) | Inr _ \<Rightarrow> leased_queue i))) s"
    for r :: "unit result" and d :: "unit result" and f
  proof (rule sound_lift, rule sound_bind_same [of _ s "if preseal_capture_enabled (tk_env i)
          then (case tk_capture i of Inl x \<Rightarrow> absorb (tk_env i) x () | r \<Rightarrow> r) else Inr ()"])
    show "tick_sound p (case d of Inl x \<Rightarrow> liftT (f x) | Inr _ \<Rightarrow> leased_queue i) s"
      by (cases d) (simp_all add: leased_sound [OF assms] keeps_sound [OF keeps_pure(3)])
  qed (simp add: swallowT_def liftT_def retT_def split: sum.splits)
  note open_gate = this
  show "tick_sound p (if halted st
      then bindT (halt_edge i (human_halt_row st (tk_now i)))
          (\<lambda>new. if new then log_tick_safe i (human_halt_row st (tk_now i)) else retT (human_halt_row st (tk_now i)))
      else if \<not> tick_enabled (tk_env i) then retT (quiet ''gate_off'' (tk_now i))
      else
        bindT (liftT (if gate_lower_true (tk_env i) ''AGI_V8_PUBLIC_TIER_GATE_ENABLED'' then tk_tier i else Inr ())) (\<lambda>_.
        bindT (if preseal_capture_enabled (tk_env i) then swallowT (tk_env i) () (liftT (tk_capture i)) else retT ()) (\<lambda>_.
        case (if deadline_enabled (tk_env i) then tk_context i else Inr ()) of
          Inl x \<Rightarrow> liftT (absorb (tk_env i) x (quiet ''deadline_unavailable'' (tk_now i) @ [(''error'', VStr (tk_show i x))]))
        | Inr _ \<Rightarrow> leased_queue i))) s"
  proof -
    have "tick_sound p (bindT (halt_edge i rec) (\<lambda>new. if new then log_tick_safe i rec else retT rec)) s" for rec
      by (intro keeps_sound keeps_intros)
    moreover have "tick_sound p (retT (quiet ''gate_off'' (tk_now i))) s"
      by (intro keeps_sound keeps_intros)
    ultimately show ?thesis using open_gate by presburger
  qed
qed

section \<open>Runs of the queue\<close>

text \<open>
  A run: ticks, with any inputs that read the ledgers with care, any failing writes and any way of
  ending; appends to the consumed ledger by others; and anything at all happening to other files.
\<close>

inductive queue_step :: "path \<Rightarrow> ledger_fs \<times> call list \<Rightarrow> ledger_fs \<times> call list \<Rightarrow> bool" for p where
  tick: "well_behaved i \<Longrightarrow> tick_failclosed (tk_env i) \<Longrightarrow> p = consumed_path (tk_dir i) \<Longrightarrow>
    tick_once i \<lparr>ts_fs = fs, ts_ack = a, ts_faults = ws, ts_sent = []\<rparr> = (s', r) \<Longrightarrow>
    queue_step p (fs, calls) (ts_fs s', calls @ ts_sent s')"
| marks: "queue_step p (fs, calls) (fst (atomic_append_jsonl e u w x y p v fs), calls)"
| elsewhere: "fs' p = fs p \<Longrightarrow> queue_step p (fs, calls) (fs', calls)"

definition all_marked :: "path \<Rightarrow> ledger_fs \<times> call list \<Rightarrow> bool" where
  "all_marked p st \<longleftrightarrow> distinct (map c_id (snd st)) \<and> (\<forall>c \<in> set (snd st). marked p (c_id c) (fst st))"

lemma queue_step_inv: "queue_step p st st' \<Longrightarrow> all_marked p st \<Longrightarrow> all_marked p st'"
proof (induction rule: queue_step.induct)
  case (tick i fs a ws s' r calls)
  let ?s = "\<lparr>ts_fs = fs, ts_ack = a, ts_faults = ws, ts_sent = []\<rparr>"
  have "tick_sound p (tick_once i) ?s"
    using tick_sound_once tick.hyps by blast
  then have sent: "length (ts_sent s') \<le> 1"
      "\<forall>c \<in> set (ts_sent s'). \<not> marked p (c_id c) fs \<and> marked p (c_id c) (ts_fs s')"
    and kept: "\<forall>q. marked p q fs \<longrightarrow> marked p q (ts_fs s')"
    using tick.hyps(4) by (simp_all add: tick_sound_def)
  have "distinct (map c_id (ts_sent s'))"
    using sent(1) by (cases "ts_sent s'") auto
  moreover have "set (map c_id calls) \<inter> set (map c_id (ts_sent s')) = {}"
    using tick.prems sent(2) by (fastforce simp: all_marked_def)
  ultimately show ?case
    using tick.prems sent(2) kept by (auto simp: all_marked_def)
next
  case (marks fs calls e u w x y v)
  then show ?case by (auto simp: all_marked_def intro: marked_append)
next
  case (elsewhere fs' fs calls)
  then have "marked p q fs' = marked p q fs" for q using marked_cong [of fs' p fs] by simp
  then show ?case using elsewhere.prems by (simp add: all_marked_def)
qed

text \<open>C1: Over any run of ticks, whatever happens to the writes, the calls and the processes, no query
  is dispatched twice. The ticks read their ledgers with care (the default), and the code outside the
  repository leaves the ledger of consumed queries alone.\<close>

theorem never_dispatched_twice:
  assumes "(queue_step p)\<^sup>*\<^sup>* (fs, []) (fs', calls)"
  shows "distinct (map c_id calls)"
proof -
  have "all_marked p (fs', calls)"
    using assms
  proof (induction rule: rtranclp_induct)
    case base
    then show ?case by (simp add: all_marked_def)
  qed (rule queue_step_inv)
  then show ?thesis by (simp add: all_marked_def)
qed

lemma jail_well_behaved: "well_behaved jail_tick" "tick_failclosed (tk_env jail_tick)"
    "consumed_path ''/s'' = consumed_path (tk_dir jail_tick)"
proof -
  show "well_behaved jail_tick" by (simp add: well_behaved_def leaves_def jail_tick_def)
  show "tick_failclosed (tk_env jail_tick)" by code_simp
  show "consumed_path ''/s'' = consumed_path (tk_dir jail_tick)" by (simp add: jail_tick_def)
qed

theorem never_dispatched_twice_witness:
  "\<exists>fs' more. (queue_step (consumed_path ''/s''))\<^sup>*\<^sup>* (jail_fs, []) (fs', jail_call # more) \<and>
     distinct (map c_id (jail_call # more))"
proof -
  let ?p = "consumed_path ''/s''"
  obtain s1 r1 where one: "tick_once jail_tick \<lparr>ts_fs = jail_fs, ts_ack = None, ts_faults = [], ts_sent = []\<rparr> = (s1, r1)"
    by (cases "tick_once jail_tick \<lparr>ts_fs = jail_fs, ts_ack = None, ts_faults = [], ts_sent = []\<rparr>")
  have sent: "ts_sent s1 = [jail_call]"
    using jail_dispatches one by (simp add: jail_state_def)
  obtain s2 r2 where two: "tick_once jail_tick \<lparr>ts_fs = ts_fs s1, ts_ack = None, ts_faults = [], ts_sent = []\<rparr> = (s2, r2)"
    by (cases "tick_once jail_tick \<lparr>ts_fs = ts_fs s1, ts_ack = None, ts_faults = [], ts_sent = []\<rparr>")
  have steps: "(queue_step ?p)\<^sup>*\<^sup>* (jail_fs, []) (ts_fs s2, jail_call # ts_sent s2)"
    using queue_step.tick [OF jail_well_behaved one, of "[]"] queue_step.tick [OF jail_well_behaved two, of "[jail_call]"]
    unfolding sent append_Nil append_Cons by (meson converse_rtranclp_into_rtranclp rtranclp.rtrancl_refl)
  then have "distinct (map c_id (jail_call # ts_sent s2))" by (rule never_dispatched_twice)
  with steps show ?thesis by blast
qed

end
