(* ===== verification/TickAdmission.thy ===== *)
theory TickAdmission
  imports TickProofs
begin

text \<open>
  What stands behind a dispatch: the checks every dispatched call has passed, for any inputs and any
  state; and the row that stops the queue.
\<close>

section \<open>Calls with a property\<close>

definition calls_only :: "(call \<Rightarrow> bool) \<Rightarrow> 'a tick \<Rightarrow> bool" where
  "calls_only Q m \<longleftrightarrow> (\<forall>s. \<exists>cs. ts_sent (fst (m s)) = ts_sent s @ cs \<and> (\<forall>c \<in> set cs. Q c))"

lemma keeps_calls: "keeps p m \<Longrightarrow> calls_only Q m"
  by (simp add: keeps_def calls_only_def)

lemma calls_bind:
  assumes "calls_only Q m" "\<And>s s' a. m s = (s', Inr a) \<Longrightarrow> calls_only Q (f a)"
  shows "calls_only Q (bindT m f)"
  unfolding calls_only_def
proof
  fix s
  obtain s' r where m: "m s = (s', r)" by (cases "m s")
  obtain cs where cs: "ts_sent s' = ts_sent s @ cs" "\<forall>c \<in> set cs. Q c"
    using assms(1) m unfolding calls_only_def by (metis fst_conv)
  show "\<exists>cs. ts_sent (fst (bindT m f s)) = ts_sent s @ cs \<and> (\<forall>c \<in> set cs. Q c)"
  proof (cases r)
    case (Inr b)
    show ?thesis
      using cs spec [OF assms(2) [of s s' b, unfolded m Inr, OF refl, unfolded calls_only_def], of s']
      by (auto simp: bindT_def m Inr)
  qed (use cs in \<open>auto simp: bindT_def m\<close>)
qed

lemma calls_lift: "(\<And>a. r = Inr a \<Longrightarrow> calls_only Q (f a)) \<Longrightarrow> calls_only Q (bindT (liftT r) f)"
  by (rule calls_bind [OF keeps_calls [OF keeps_pure(3)]]) (simp add: liftT_def)

lemma calls_read: "(\<And>fs a. g fs = Inr a \<Longrightarrow> calls_only Q (f a)) \<Longrightarrow> calls_only Q (bindT (readT g) f)"
  by (rule calls_bind [OF keeps_calls [OF keeps_pure(4)]]) (auto simp: readT_def)

lemma calls_after: "keeps p m \<Longrightarrow> (\<And>a. calls_only Q (f a)) \<Longrightarrow> calls_only Q (bindT m f)"
  by (rule calls_bind [OF keeps_calls])

section \<open>What was admitted\<close>

definition admitted :: "tick_in \<Rightarrow> call \<Rightarrow> bool" where
  "admitted i c \<longleftrightarrow>
     (\<exists>row token objective v cap fs.
        resolve_objective row = Some objective \<and>
        query_id (tk_fr i) (tk_sha i) (VDict row) = Inr (c_id c) \<and>
        expected_token (tk_env i) (tk_open_text i) = Inr (Some token) \<and>
        auth_ok (tk_env i) (tk_mac i) (tk_fr i) (Some (tk_jail i)) (tk_now i) row token = Inr True \<and>
        cap_check (tk_env i) (tk_day_start i) (tk_host i) (tk_dir i) (tk_now i) fs = Inr v \<and> allowed v \<and>
        per_cycle_cap (tk_env i) = Inr cap \<and> c_budget c = max 0 (min cap (remaining_usd v)) \<and>
        c_cycle c = cycle_id_for (tk_now i) (c_id c) \<and> suffix objective (c_objective c))"

lemma handle_keeps: "keeps p (handle_outcome i c a)"
  unfolding handle_outcome_def Let_def by (cases a; simp; intro keeps_intros)

lemma paid_calls: "Q c \<Longrightarrow> calls_only Q (paid_dispatch i raw c)"
proof -
  assume q: "Q c"
  have call: "calls_only Q (dispatch_call i raw c)"
    using q by (auto simp: calls_only_def dispatch_call_def Let_def split: prod.splits)
  have after: "calls_only Q (if a = Killed then raiseT killed
      else finallyT (handle_outcome i c a) (settle_for i 3 res))" for a res
    by (intro keeps_calls [of undefined] keeps_intros handle_keeps)
  have refused: "calls_only Q (bindT (logged i rec) (\<lambda>r. retT (Returns r)))" for rec
    by (intro keeps_calls [of undefined] keeps_intros)
  show "calls_only Q (paid_dispatch i raw c)"
    unfolding paid_dispatch_def
    by (rule calls_after [of undefined, OF keeps_money(1)]) (simp add: refused calls_bind [OF call after])
qed

lemma dispatch_calls:
  assumes "well_behaved i"
    and "\<And>cap full. per_cycle_cap (tk_env i) = Inr cap \<Longrightarrow> suffix objective full \<Longrightarrow>
      Q \<lparr>c_id = q, c_objective = full, c_cycle = cycle_id_for (tk_now i) q,
         c_budget = max 0 (min cap (remaining_usd v))\<rparr>"
  shows "calls_only Q (dispatch_step i row q objective v)"
  unfolding dispatch_step_def Let_def
proof (rule calls_lift, rule calls_read)
  fix cap fs and so :: "bool \<times> observation option"
  assume cap: "per_cycle_cap (tk_env i) = Inr cap"
  obtain skip ob where so: "so = (skip, ob)" by (cases so)
  let ?p = "consumed_path (tk_dir i)"
  let ?c = "\<lambda>full. \<lparr>c_id = q, c_objective = full, c_cycle = cycle_id_for (tk_now i) q,
      c_budget = max 0 (min cap (remaining_usd v))\<rparr>"
  have human: "keeps ?p (emit_human_for_query i row q cy)" for cy
    unfolding emit_human_for_query_def by (intro keeps_intros well_behaved_keeps assms(1)) simp
  have last: "calls_only Q (case d of Returns rec \<Rightarrow> retT rec
      | Settled dres err \<Rightarrow> finish_dispatch i row c v ob dres err)" for d c
    by (cases d) (auto intro: keeps_calls [of ?p] keeps_intros keeps_finish [OF assms(1) refl])
  have memory: "suffix objective full" if "with_memory i row objective s = (s', Inr full)" for s s' full
    using that by (auto simp: with_memory_def retT_def bindT_def suffix_def split: if_splits prod.splits sum.splits)
  have memory_keeps: "keeps ?p (with_memory i row objective)"
    unfolding with_memory_def by (intro keeps_intros)
  show "calls_only Q (case so of (skip, ob) \<Rightarrow> bindT (with_memory i row objective) (\<lambda>full.
      bindT (tombstone i q ''in_flight'') (\<lambda>_.
      bindT (emit_human_for_query i row q (c_cycle (?c full))) (\<lambda>_.
      bindT (if skip then retT (Settled (VDict [(''ok'', VBool False), (''repeated_failure_gate_skip'', VBool True)])
               (Some (skipped_text i ob)))
             else paid_dispatch i objective (?c full)) (\<lambda>d.
        case d of Settled dres err \<Rightarrow> finish_dispatch i row (?c full) v ob dres err
        | Returns rec \<Rightarrow> retT rec)))))"
    unfolding so prod.case
  proof (rule calls_bind [OF keeps_calls [OF memory_keeps]], rule calls_after [of ?p, OF keeps_rows(1)],
      rule calls_after [OF human], rule calls_bind)
    fix s s' full assume "with_memory i row objective s = (s', Inr full)"
    then have "Q (?c full)" using assms(2) [OF cap] memory by blast
    then show "calls_only Q (if skip then retT (Settled (VDict [(''ok'', VBool False),
          (''repeated_failure_gate_skip'', VBool True)]) (Some (skipped_text i ob)))
        else paid_dispatch i objective (?c full))"
      by (cases skip) (simp_all add: paid_calls keeps_calls [OF keeps_pure(1)])
  qed (use last in \<open>cases ob; simp\<close>)
qed

lemma walk_calls:
  assumes "well_behaved i" "expected_token (tk_env i) (tk_open_text i) = Inr (Some token)"
    and "\<And>row q. (row, q) \<in> set pending \<Longrightarrow> query_id (tk_fr i) (tk_sha i) (VDict row) = Inr q"
  shows "calls_only (admitted i) (walk i token pending)"
  using assms(3)
proof (induction pending)
  case Nil
  show ?case by (auto intro: keeps_calls keeps_intros)
next
  case (Cons rq rest)
  obtain row q where rq: "rq = (row, q)" by (cases rq)
  let ?p = "consumed_path (tk_dir i)"
  have q: "query_id (tk_fr i) (tk_sha i) (VDict row) = Inr q" using Cons.prems [of row q] rq by simp
  have rest: "calls_only (admitted i) (bindT (reject_row i q reason extra) (\<lambda>_. walk i token rest))" for reason extra
    using Cons.IH Cons.prems by (intro calls_after [of ?p, OF keeps_rows(4)]) auto
  show ?case
  proof (cases "resolve_objective row")
    case None
    show ?thesis unfolding rq walk.simps None option.case by (rule rest)
  next
    case (Some objective)
    show ?thesis unfolding rq walk.simps Some option.case
    proof (rule calls_lift)
      fix ok assume ok: "auth_ok (tk_env i) (tk_mac i) (tk_fr i) (Some (tk_jail i)) (tk_now i) row token = Inr ok"
      have disp: "calls_only (admitted i) (dispatch_step i row q objective v)"
        if "cap_check (tk_env i) (tk_day_start i) (tk_host i) (tk_dir i) (tk_now i) fs = Inr v" "allowed v" ok
        for fs v
        using that ok Some q assms(2)
        by (intro dispatch_calls [OF assms(1)]) (auto simp: admitted_def)
      have passed: "\<exists>fs. cap_check (tk_env i) (tk_day_start i) (tk_host i) (tk_dir i) (tk_now i) fs = Inr v' \<and> allowed v'"
        if "review_step i q objective v s = (s', Inr (Passed v'))"
          "cap_check (tk_env i) (tk_day_start i) (tk_host i) (tk_dir i) (tk_now i) fs = Inr v" "allowed v"
        for s s' v v' fs
        using that
        by (auto simp: review_step_def retT_def bindT_def cap_now_def readT_def
            split: if_splits prod.splits sum.splits)
      show "calls_only (admitted i) (if \<not> ok then bindT (reject_row i q ''rejected_auth'' []) (\<lambda>_. walk i token rest)
          else bindT (cap_now i) (\<lambda>v. if \<not> allowed v then logged i (daily_cap_block_rec v q (tk_now i))
            else bindT (review_step i q objective v) (\<lambda>r.
            case r of Passed v' \<Rightarrow> dispatch_step i row q objective v'
            | Rejected risk reason \<Rightarrow> bindT (reject_row i q ''rejected_review''
              [(''risk'', VStr risk), (''review_reason'', VStr (tk_mask i reason))]) (\<lambda>_. walk i token rest)
            | ReviewReturns rec \<Rightarrow> retT rec)))"
      proof (cases ok)
        case True
        have "calls_only (admitted i) (bindT (review_step i q objective v) (\<lambda>r.
            case r of Passed v' \<Rightarrow> dispatch_step i row q objective v'
            | Rejected risk reason \<Rightarrow> bindT (reject_row i q ''rejected_review''
              [(''risk'', VStr risk), (''review_reason'', VStr (tk_mask i reason))]) (\<lambda>_. walk i token rest)
            | ReviewReturns rec \<Rightarrow> retT rec))"
          if v: "cap_check (tk_env i) (tk_day_start i) (tk_host i) (tk_dir i) (tk_now i) fs = Inr v" "allowed v"
          for fs v
        proof (rule calls_bind [OF keeps_calls [OF keeps_review [OF assms(1) refl]]])
          fix s s' r assume r: "review_step i q objective v s = (s', Inr r)"
          have disp': "calls_only (admitted i) (dispatch_step i row q objective v')" if "r = Passed v'" for v'
            using passed [OF r [unfolded that] v] disp True by blast
          show "calls_only (admitted i) (case r of Passed v' \<Rightarrow> dispatch_step i row q objective v'
            | Rejected risk reason \<Rightarrow> bindT (reject_row i q ''rejected_review''
              [(''risk'', VStr risk), (''review_reason'', VStr (tk_mask i reason))]) (\<lambda>_. walk i token rest)
            | ReviewReturns rec \<Rightarrow> retT rec)"
            using disp' rest by (cases r) (simp_all add: keeps_calls [OF keeps_pure(1)])
        qed
        then show ?thesis
          unfolding cap_now_def
          by (simp add: True, intro calls_read) (auto intro: keeps_calls [of ?p] keeps_intros)
      qed (simp add: rest)
    qed
  qed
qed

lemma pending_ids:
  assumes "pending_queries e fr sha dir snap fs = Inr pending" "(row, q) \<in> set pending"
  shows "query_id fr sha (VDict row) = Inr q"
proof -
  have "query_id fr sha (VDict d) = Inr x" if "keep_pending fr sha c rows = Inr ps" "(d, x) \<in> set ps"
    for c rows ps d x
    using that by (induction rows arbitrary: ps) (auto split: if_splits pyv.splits)
  then show ?thesis
    using assms by (auto simp: pending_queries_def split: option.splits)
qed

section \<open>The guards of a tick\<close>

text \<open>What the safe profile asks of the environment.\<close>

definition safe_to_consume :: "env \<Rightarrow> bool" where
  "safe_to_consume e \<longleftrightarrow> sealed e \<and> bind_audience_enabled e \<and> bind_producer_enabled e \<and>
     (campaign_feed_on e \<longrightarrow> bind_campaign_enabled e)"

lemma profile_safe:
  assumes "secure_profile_violations e = Inr []" "tick_enabled e"
  shows "safe_to_consume e"
proof -
  have parts: "\<not> list_ex (\<lambda>v. v_rule v = ''tick_enabled_requires_auth_sig'') (evaluate e)" "\<not> allow_legacy e"
    "bind_audience_enabled e" "bind_producer_enabled e" "campaign_feed_on e \<longrightarrow> bind_campaign_enabled e"
    using assms(1) by (auto simp: secure_profile_violations_def dest: arg_cong [of _ _ set] split: if_splits)
  have "tick_sig_enabled e"
  proof (rule ccontr)
    assume "\<not> tick_sig_enabled e"
    then have "\<not> gate_on tick_sig_env e" by (simp add: required_seen)
    moreover have "gate_on tick_env e" using armed_seen(3) [OF assms(2)] .
    ultimately have "list_ex (\<lambda>v. v_rule v = ''tick_enabled_requires_auth_sig'') (evaluate e)"
      by (simp add: evaluate_def gate_rules_def Let_def)
    with parts(1) show False by blast
  qed
  then show ?thesis using parts by (simp add: safe_to_consume_def sealed_def)
qed

definition guarded :: "tick_in \<Rightarrow> call \<Rightarrow> bool" where
  "guarded i c \<longleftrightarrow>
     (\<exists>st. halt_state_now (tk_env i) (tk_home i) (tk_probe i) = Inr st \<and> \<not> halted st) \<and>
     tick_enabled (tk_env i) \<and>
     (gate_lower_true (tk_env i) ''AGI_V8_PUBLIC_TIER_GATE_ENABLED'' \<longrightarrow> tk_tier i = Inr ()) \<and>
     (lease_enabled (tk_env i) \<longrightarrow> tk_lease i = LeaseTaken) \<and>
     (secure_profile_enabled (tk_env i) \<longrightarrow> safe_to_consume (tk_env i)) \<and> admitted i c"

lemma consume_calls:
  assumes "well_behaved i"
  shows "calls_only (admitted i) (consume_queue i snap)"
  unfolding consume_queue_def
proof (rule calls_read)
  fix fs pending
  assume "pending_queries (tk_env i) (tk_fr i) (tk_sha i) (tk_dir i) snap fs = Inr pending"
  note ids = pending_ids [OF this]
  have token: "calls_only (admitted i) (case token of
         None \<Rightarrow> logged i (refusal ''auth_misconfig'' (tk_now i) @ [(''pending'', VInt (int (length pending)))])
       | Some t \<Rightarrow> walk i t pending)" if "expected_token (tk_env i) (tk_open_text i) = Inr token" for token
    using that walk_calls [OF assms _ ids]
    by (cases token) (auto intro: keeps_calls [OF keeps_rows(3)])
  have feed: "calls_only (admitted i) (onfsT (tk_feed i))"
    by (rule keeps_calls [OF well_behaved_keeps(1) [OF assms refl]])
  show "calls_only (admitted i) (if pending = [] then onfsT (tk_feed i)
      else bindT (liftT (expected_token (tk_env i) (tk_open_text i))) (\<lambda>token.
       case token of
         None \<Rightarrow> logged i (refusal ''auth_misconfig'' (tk_now i) @ [(''pending'', VInt (int (length pending)))])
       | Some t \<Rightarrow> walk i t pending))"
  proof (cases "pending = []")
    case False
    show ?thesis unfolding if_not_P [OF False] by (rule calls_lift) (rule token)
  qed (simp add: feed)
qed

lemma checked_calls:
  assumes "well_behaved i"
  shows "calls_only (admitted i) (checked_queue i)"
proof -
  let ?p = "consumed_path (tk_dir i)"
  have snap: "keeps ?p (if b then bindT (readT g) (\<lambda>sn. retT (Some sn)) else retT None)" for b g
    by (intro keeps_intros)
  have report: "calls_only (admitted i) (bindT (liftT (absorb e x ())) (\<lambda>_. report_edge i a b c))" for e x a b c
    by (rule keeps_calls [of ?p]) (intro keeps_intros)
  show ?thesis
    unfolding checked_queue_def Let_def
    by (rule calls_after [OF snap]) (simp add: report consume_calls [OF assms])
qed

lemma profiled_calls:
  assumes "well_behaved i" "tick_enabled (tk_env i)"
  shows "calls_only (\<lambda>c. admitted i c \<and> (secure_profile_enabled (tk_env i) \<longrightarrow> safe_to_consume (tk_env i)))
    (profiled_queue i)"
proof (cases "secure_profile_enabled (tk_env i)")
  case True
  have report: "calls_only Q (bindT (liftT (absorb e x ())) (\<lambda>_. report_edge i a b c))" for Q e x a b c
    by (rule keeps_calls [of undefined]) (intro keeps_intros)
  show ?thesis
    unfolding profiled_queue_def Let_def
  proof (simp only: True not_True_eq_False if_False, rule calls_lift)
    fix vs assume vs: "secure_profile_violations (tk_env i) = Inr vs"
    show "calls_only (\<lambda>c. admitted i c \<and> (True \<longrightarrow> safe_to_consume (tk_env i))) (if vs \<noteq> []
        then bindT (liftT (absorb (tk_env i) (RuntimeError ''insecure tick profile'') ())) (\<lambda>_.
               report_edge i ''insecure_tick_profile'' ''violated'' vs)
        else checked_queue i)"
    proof (cases "vs = []")
      case True
      then show ?thesis using profile_safe [OF _ assms(2)] vs checked_calls [OF assms(1)] by simp
    qed (simp add: report)
  qed
next
  case False
  then show ?thesis using checked_calls [OF assms(1)] by (simp add: profiled_queue_def)
qed

lemma leased_calls:
  assumes "well_behaved i" "halt_state_now (tk_env i) (tk_home i) (tk_probe i) = Inr st" "\<not> halted st"
    "tick_enabled (tk_env i)"
    "gate_lower_true (tk_env i) ''AGI_V8_PUBLIC_TIER_GATE_ENABLED'' \<longrightarrow> tk_tier i = Inr ()"
  shows "calls_only (guarded i) (leased_queue i)"
proof -
  have "calls_only (guarded i) (profiled_queue i)" if "lease_enabled (tk_env i) \<longrightarrow> tk_lease i = LeaseTaken"
    using profiled_calls [OF assms(1,4)] that assms unfolding calls_only_def guarded_def by meson
  then show ?thesis
    by (cases "tk_lease i") (auto simp: leased_queue_def Let_def intro: keeps_calls [of undefined] keeps_intros)
qed

lemma tick_calls:
  assumes "well_behaved i"
  shows "calls_only (guarded i) (tick_once i)"
  unfolding tick_once_def Let_def
proof (rule calls_lift)
  let ?e = "tk_env i"
  fix st assume st: "halt_state_now ?e (tk_home i) (tk_probe i) = Inr st"
  have halt: "calls_only Q (bindT (halt_edge i rec) (\<lambda>new. if new then log_tick_safe i rec else retT rec))" for Q rec
    by (rule keeps_calls [of undefined]) (intro keeps_intros)
  have off: "calls_only Q (retT r)" for Q and r :: dict by (rule keeps_calls [OF keeps_pure(1)])
  have capture: "keeps p (if b then swallowT ?e () (liftT x) else retT ())" for p b x by (intro keeps_intros)
  have lift: "calls_only Q (liftT r)" for Q and r :: "dict result" by (rule keeps_calls [OF keeps_pure(3)])
  have inner: "calls_only (guarded i) (bindT (liftT (if gate_lower_true ?e ''AGI_V8_PUBLIC_TIER_GATE_ENABLED''
        then tk_tier i else Inr ())) (\<lambda>_.
      bindT (if preseal_capture_enabled ?e then swallowT ?e () (liftT (tk_capture i)) else retT ()) (\<lambda>_.
      case (if deadline_enabled ?e then tk_context i else Inr ()) of
        Inl x \<Rightarrow> liftT (absorb ?e x (quiet ''deadline_unavailable'' (tk_now i) @ [(''error'', VStr (tk_show i x))]))
      | Inr _ \<Rightarrow> leased_queue i)))" if "\<not> halted st" "tick_enabled ?e"
  proof (rule calls_lift, rule calls_after [of undefined, OF capture])
    fix u :: unit
    assume "(if gate_lower_true ?e ''AGI_V8_PUBLIC_TIER_GATE_ENABLED'' then tk_tier i else Inr ()) = Inr u"
    then have "calls_only (guarded i) (leased_queue i)" by (intro leased_calls [OF assms st that]) auto
    then show "calls_only (guarded i) (case (if deadline_enabled ?e then tk_context i else Inr ()) of
        Inl x \<Rightarrow> liftT (absorb ?e x (quiet ''deadline_unavailable'' (tk_now i) @ [(''error'', VStr (tk_show i x))]))
      | Inr _ \<Rightarrow> leased_queue i)"
      using lift by (simp split: sum.splits)
  qed
  show "calls_only (guarded i) (if halted st
    then bindT (halt_edge i (human_halt_row st (tk_now i)))
        (\<lambda>new. if new then log_tick_safe i (human_halt_row st (tk_now i)) else retT (human_halt_row st (tk_now i)))
    else if \<not> tick_enabled ?e then retT (quiet ''gate_off'' (tk_now i))
    else bindT (liftT (if gate_lower_true ?e ''AGI_V8_PUBLIC_TIER_GATE_ENABLED'' then tk_tier i else Inr ())) (\<lambda>_.
      bindT (if preseal_capture_enabled ?e then swallowT ?e () (liftT (tk_capture i)) else retT ()) (\<lambda>_.
      case (if deadline_enabled ?e then tk_context i else Inr ()) of
        Inl x \<Rightarrow> liftT (absorb ?e x (quiet ''deadline_unavailable'' (tk_now i) @ [(''error'', VStr (tk_show i x))]))
      | Inr _ \<Rightarrow> leased_queue i)))"
    using halt off inner by presburger
qed



section \<open>A row that stops the queue\<close>

text \<open>The guards are open, the ledgers in order, these rows pending and this token expected.\<close>

definition tick_ready :: "tick_in \<Rightarrow> ledger_fs \<Rightarrow> (dict \<times> string) list \<Rightarrow> string \<Rightarrow> bool" where
  "tick_ready i fs pending token \<longleftrightarrow>
     (let e = tk_env i in
      holds (halt_state_now e (tk_home i) (tk_probe i)) (\<lambda>st. \<not> halted st) \<and> tick_enabled e \<and>
      \<not> gate_lower_true e ''AGI_V8_PUBLIC_TIER_GATE_ENABLED'' \<and> \<not> preseal_capture_enabled e \<and>
      \<not> deadline_enabled e \<and> \<not> lease_enabled e \<and>
      (secure_profile_enabled e \<longrightarrow> secure_profile_violations e = Inr []) \<and> tick_failclosed e \<and>
      holds (ledger_snapshot e (tk_dir i) fs) (\<lambda>sn. failed_ledgers sn = [] \<and>
        (stall_enabled e \<longrightarrow> non_object_ledgers sn = []) \<and>
        pending_queries e (tk_fr i) (tk_sha i) (tk_dir i) (Some sn) fs = Inr pending) \<and>
      pending \<noteq> [] \<and> expected_token e (tk_open_text i) = Inr (Some token))"

lemma ready_tick_walks:
  assumes "tick_ready i (ts_fs s) pending token"
  shows "tick_once i s = walk i token pending s"
proof -
  let ?e = "tk_env i"
  obtain st where st: "halt_state_now ?e (tk_home i) (tk_probe i) = Inr st" "\<not> halted st"
    using assms by (auto simp: tick_ready_def Let_def elim: holdsE)
  obtain sn where sn: "ledger_snapshot ?e (tk_dir i) (ts_fs s) = Inr sn" "failed_ledgers sn = []"
      "stall_enabled ?e \<longrightarrow> non_object_ledgers sn = []"
      "pending_queries ?e (tk_fr i) (tk_sha i) (tk_dir i) (Some sn) (ts_fs s) = Inr pending"
    using assms by (auto simp: tick_ready_def Let_def elim: holdsE)
  have "consume_queue i (Some sn) s = walk i token pending s"
    using assms sn(4) by (simp add: consume_queue_def bindT_def readT_def liftT_def tick_ready_def Let_def)
  then have "checked_queue i s = walk i token pending s"
    using assms sn by (auto simp: checked_queue_def bindT_def readT_def retT_def tick_ready_def Let_def)
  then have "profiled_queue i s = walk i token pending s"
    using assms by (auto simp: profiled_queue_def bindT_def liftT_def tick_ready_def Let_def)
  then show ?thesis
    using assms st
    by (simp add: tick_once_def bindT_def liftT_def retT_def leased_queue_def tick_ready_def Let_def)
qed

definition foreign_token :: "dict \<Rightarrow> bool" where
  "foreign_token row \<longleftrightarrow> (case dict_get row ''auth_token'' of
     VStr t \<Rightarrow> \<not> list_all (\<lambda>c. char_code c < 128) t | _ \<Rightarrow> False)"

definition run_ticks :: "tick_in list \<Rightarrow> tick_state \<Rightarrow> tick_state" where
  "run_ticks is s = fold (\<lambda>i s. fst (tick_once i s)) is s"


definition foreign_row :: dict where
  "foreign_row = [(''id'', VStr ''x''), (''objective'', VStr ''y''), (''auth_token'', VStr [char_of (233 :: nat)])]"

definition stopped_state :: tick_state where
  "stopped_state = jail_state\<lparr>ts_fs := jail_fs(inbox_path ''/s'' \<mapsto> Reg 384
     \<lparr>jlines = [Row (VDict foreign_row), Row (VDict auth_stamped)], torn = False\<rparr>)\<rparr>"


end
