(* ===== verification/CommandChannel.thy ===== *)
theory CommandChannel
  imports FailFast
begin

text \<open>
  How a proposed shell command reaches the apply ladder (\<open>si_lanes/command_channel.py\<close> and
  \<open>_extract_commands\<close> of \<open>self_improvement_v8.py\<close>): one normaliser, over whatever a model or a pod put
  under \<open>proposed_commands\<close>. The JSON decoder and the text of the contract are parameters.
\<close>

section \<open>The normaliser\<close>

definition max_commands :: nat where "max_commands = 8"

definition max_command_chars :: nat where "max_command_chars = 400"

definition forbidden_char :: "char \<Rightarrow> bool" where
  "forbidden_char c \<longleftrightarrow> char_code c \<in> {10, 13, 0}"

text \<open>Why an item is dropped; \<open>None\<close> keeps it. The text is the stripped item.\<close>

fun drop_reason :: "string list \<Rightarrow> pyv \<Rightarrow> string option" where
  "drop_reason seen (VStr raw) =
     (let s = py_strip raw in
      if s = [] then Some ''empty''
      else if max_command_chars < length s then Some ''over_max_chars''
      else if list_ex forbidden_char s then Some ''multiline_or_nul''
      else if s \<in> set seen then Some ''duplicate''
      else None)"
| "drop_reason seen _ = Some ''non_string_item''"

fun item_text :: "pyv \<Rightarrow> string" where
  "item_text (VStr raw) = py_strip raw"
| "item_text _ = []"

text \<open>The loop: what is kept so far, the drops by reason, the number of items, the items left.\<close>

fun scan_commands ::
  "string list \<Rightarrow> (string \<times> nat) list \<Rightarrow> nat \<Rightarrow> pyv list \<Rightarrow> string list \<times> (string \<times> nat) list" where
  "scan_commands out drops n [] = (out, drops)"
| "scan_commands out drops n (x # xs) =
     (case drop_reason out x of
        Some why \<Rightarrow> scan_commands out (bump drops why) n xs
      | None \<Rightarrow>
          let out' = out @ [item_text x] in
          if max_commands \<le> length out'
          then (out', if length out' < n then bump drops ''over_max_commands'' else drops)
          else scan_commands out' drops n xs)"

definition raw_items :: "pyv \<Rightarrow> pyv list" where
  "raw_items raw = (case raw of VStr s \<Rightarrow> [VStr s] | VList xs \<Rightarrow> xs | _ \<Rightarrow> [])"

definition command_scan :: "pyv \<Rightarrow> string list \<times> (string \<times> nat) list" where
  "command_scan raw = scan_commands [] [] (length (raw_items raw)) (raw_items raw)"

definition normalize_commands :: "pyv \<Rightarrow> string list" where
  "normalize_commands raw = fst (command_scan raw)"

section \<open>The channel\<close>

definition channel_enabled :: "env \<Rightarrow> bool" where
  "channel_enabled e = gate_strict e ''AGI_V8_SI_PROPOSED_COMMANDS_ENABLED''"

definition prompt_with_command_channel :: "env \<Rightarrow> string \<Rightarrow> string \<Rightarrow> string" where
  "prompt_with_command_channel e contract prompt =
     (if channel_enabled e then prompt @ CHR 0x0A # contract else prompt)"

text \<open>\<open>dict(out.get("properties") or {})\<close>: what is not a mapping and not falsy has no dict.\<close>

definition with_command_channel :: "env \<Rightarrow> dict \<Rightarrow> dict \<Rightarrow> dict result" where
  "with_command_channel e property schema =
     (if \<not> channel_enabled e then Inr schema
      else case dict_get schema ''properties'' of
        VDict ps \<Rightarrow> Inr (dict_set schema ''properties'' (VDict (dict_set ps ''proposed_commands'' (VDict property))))
      | v \<Rightarrow> if truthy v then Inl (TypeError ''properties'')
             else Inr (dict_set schema ''properties'' (VDict [(''proposed_commands'', VDict property)])))"

definition parse_commands :: "env \<Rightarrow> (string \<Rightarrow> pyv result) \<Rightarrow> pyv \<Rightarrow> string list result" where
  "parse_commands e loads raw =
     (if \<not> channel_enabled e then Inr []
      else case raw of
        VStr s \<Rightarrow>
          (case loads s of
             Inl x \<Rightarrow> absorb e x []
           | Inr (VDict d) \<Rightarrow> Inr (normalize_commands (dict_get d ''proposed_commands''))
           | Inr _ \<Rightarrow> Inr [])
      | _ \<Rightarrow> Inr [])"

definition attach_commands :: "dict \<Rightarrow> pyv \<Rightarrow> dict" where
  "attach_commands res commands =
     (let cs = normalize_commands commands in
      if cs = [] then res else dict_set res ''proposed_commands'' (VList (map VStr cs)))"

text \<open>The reader of the ladder: the lists of all blocks, through the one normaliser.\<close>

definition block_list :: "string \<Rightarrow> pyv \<Rightarrow> pyv list" where
  "block_list k b = (case b of VDict d \<Rightarrow> (case dict_get d k of VList xs \<Rightarrow> xs | _ \<Rightarrow> []) | _ \<Rightarrow> [])"

definition extract_commands :: "pyv list \<Rightarrow> string list" where
  "extract_commands blocks =
     (let flat = concat (map (block_list ''proposed_commands'') blocks) in
      if flat = [] then [] else normalize_commands (VList flat))"

section \<open>What is kept\<close>

definition command_shaped :: "string \<Rightarrow> bool" where
  "command_shaped s \<longleftrightarrow>
     s \<noteq> [] \<and> py_strip s = s \<and> length s \<le> max_command_chars \<and> (\<forall>c \<in> set s. \<not> forbidden_char c)"

text \<open>The reference: the well-shaped texts in order, each once, the first eight of them.\<close>

fun first_uses :: "'a list \<Rightarrow> 'a list \<Rightarrow> 'a list" where
  "first_uses seen [] = []"
| "first_uses seen (x # xs) = (if x \<in> set seen then first_uses seen xs else x # first_uses (seen @ [x]) xs)"

definition shaped_items :: "pyv list \<Rightarrow> string list" where
  "shaped_items xs = filter command_shaped (map item_text xs)"

lemma item_text_shaped: "command_shaped (item_text x) \<longleftrightarrow>
    item_text x \<noteq> [] \<and> length (item_text x) \<le> max_command_chars \<and> \<not> list_ex forbidden_char (item_text x)"
  by (cases x) (auto simp: command_shaped_def list_ex_iff py_strip_strip)

lemma drop_reason_None: "drop_reason seen x = None \<longleftrightarrow> command_shaped (item_text x) \<and> item_text x \<notin> set seen"
  using item_text_shaped [of x] by (cases x) (auto simp: Let_def command_shaped_def)

lemma first_uses_distinct: "distinct (first_uses seen xs) \<and> set (first_uses seen xs) = set xs - set seen"
  by (induction seen xs rule: first_uses.induct) auto

lemma first_uses_id: "distinct xs \<Longrightarrow> set xs \<inter> set seen = {} \<Longrightarrow> first_uses seen xs = xs"
  by (induction seen xs rule: first_uses.induct) auto

lemma scan_kept:
  "length out < max_commands \<Longrightarrow>
   fst (scan_commands out drops n xs) = take max_commands (out @ first_uses out (shaped_items xs))"
proof (induction out drops n xs rule: scan_commands.induct)
  case (2 out drops n x xs)
  show ?case
  proof (cases "drop_reason out x")
    case None
    then have once: "max_commands \<le> Suc (length out) \<Longrightarrow> max_commands - length out = 1"
      using 2(3) by simp
    have kept: "first_uses out (shaped_items (x # xs)) =
        item_text x # first_uses (out @ [item_text x]) (shaped_items xs)"
      using None by (simp add: shaped_items_def drop_reason_None)
    show ?thesis
      using None 2 by (auto simp: kept Let_def once)
  next
    case (Some why)
    then have "\<not> (command_shaped (item_text x) \<and> item_text x \<notin> set out)"
      by (metis drop_reason_None option.distinct(1))
    then have "first_uses out (shaped_items (x # xs)) = first_uses out (shaped_items xs)"
      by (auto simp: shaped_items_def)
    then show ?thesis using Some 2 by simp
  qed
qed (simp add: shaped_items_def)

text \<open>What the normaliser keeps of any value is the first eight distinct well-shaped texts in it.\<close>

theorem normalize_is_reference:
  "normalize_commands raw = take max_commands (first_uses [] (shaped_items (raw_items raw)))"
  by (simp add: normalize_commands_def command_scan_def scan_kept max_commands_def)

lemma normalize_shaped: "c \<in> set (normalize_commands raw) \<Longrightarrow> command_shaped c"
  using first_uses_distinct [of "[]" "shaped_items (raw_items raw)"]
  by (auto simp: normalize_is_reference shaped_items_def dest: in_set_takeD)

lemma normalize_length: "length (normalize_commands raw) \<le> max_commands"
  by (simp add: normalize_is_reference)

lemma normalize_distinct: "distinct (normalize_commands raw)"
  using first_uses_distinct [of "[]" "shaped_items (raw_items raw)"]
  by (simp add: normalize_is_reference distinct_take)

lemma shaped_texts: "\<forall>c \<in> set cs. command_shaped c \<Longrightarrow> shaped_items (map VStr cs) = cs"
  by (induction cs) (auto simp: shaped_items_def command_shaped_def)

text \<open>Reading the kept commands again keeps all of them: the second pass over the lanes' lists and the
  ladder's own pass change nothing.\<close>

theorem normalize_idempotent:
  "normalize_commands (VList (map VStr (normalize_commands raw))) = normalize_commands raw"
proof -
  let ?cs = "normalize_commands raw"
  have "shaped_items (raw_items (VList (map VStr ?cs))) = ?cs"
    using shaped_texts normalize_shaped by (simp add: raw_items_def)
  then show ?thesis
    using first_uses_id [OF normalize_distinct, of raw "[]"] normalize_length [of raw]
    by (simp add: normalize_is_reference [of "VList (map VStr ?cs)"])
qed

text \<open>The drops add up: until the cap ends the loop, every item is kept or counted under its reason.\<close>

definition dropped :: "(string \<times> nat) list \<Rightarrow> nat" where
  "dropped drops = sum_list (map snd drops)"

lemma scan_accounts:
  "length (fst (scan_commands out drops n xs)) < max_commands \<Longrightarrow>
   length (fst (scan_commands out drops n xs)) + dropped (snd (scan_commands out drops n xs)) =
   length out + dropped drops + length xs"
proof (induction out drops n xs rule: scan_commands.induct)
  case (2 out drops n x xs)
  then show ?case
    by (auto simp: Let_def dropped_def sum_bump split: option.splits if_splits)
qed (simp add: dropped_def)

lemma every_drop_counted:
  "length (normalize_commands raw) < max_commands \<Longrightarrow>
   length (normalize_commands raw) + dropped (snd (command_scan raw)) = length (raw_items raw)"
  using scan_accounts [of "[]" "[]" "length (raw_items raw)" "raw_items raw"]
  by (simp add: normalize_commands_def command_scan_def dropped_def)

text \<open>A blank item and eight commands: nothing exceeds the cap, and yet a drop over the cap is counted.\<close>

lemma false_over_max_report:
  "command_scan (VList (VStr [] # map (\<lambda>c. VStr [c]) ''abcdefgh'')) =
     (map (\<lambda>c. [c]) ''abcdefgh'', [(''empty'', 1), (''over_max_commands'', 1)])"
  by code_simp

section \<open>The way to the ladder\<close>

lemma extract_commands_shaped: "c \<in> set (extract_commands bs) \<Longrightarrow> command_shaped c"
  by (auto simp: extract_commands_def Let_def intro: normalize_shaped split: if_splits)

lemma extract_commands_length: "length (extract_commands bs) \<le> max_commands"
  by (simp add: extract_commands_def Let_def normalize_length)

lemma attached_block [simp]: "block_list ''proposed_commands'' (VDict (attach_commands d v)) =
    (if normalize_commands v = [] then block_list ''proposed_commands'' (VDict d)
     else map VStr (normalize_commands v))"
  by (simp add: attach_commands_def Let_def block_list_def)

text \<open>What a lane attaches to a result that carried no commands is what the ladder reads, whatever the
  model sent; with the channel switched off a model's answer puts nothing there.\<close>

theorem attached_commands_arrive:
  assumes "dict_get d ''proposed_commands'' = VNone"
  shows "extract_commands [VDict (attach_commands d v)] = normalize_commands v"
  using assms normalize_idempotent by (simp add: extract_commands_def Let_def block_list_def [of _ "VDict d"])

theorem attached_commands_arrive_witness:
  "extract_commands [VDict (attach_commands [] (VStr '' ls ''))] = [''ls'']"
proof -
  have "normalize_commands (VStr '' ls '') = [''ls'']" by code_simp
  then show ?thesis using attached_commands_arrive [of "[]" "VStr '' ls ''"] by (simp add: dict_get_def)
qed

lemma closed_channel: "\<not> channel_enabled e \<Longrightarrow> parse_commands e loads raw = Inr []"
  by (simp add: parse_commands_def)

end
