(* ===== verification/OutputSpill.thy ===== *)
theory OutputSpill
  imports PathGuard
begin

text \<open>
  Where the output of an artifact run that is too long for its record goes
  (\<open>_apply_output_spill\<close> of \<open>self_improvement_v8.py\<close>): a new file of the run's own directory, whatever
  links the run has planted there. The time stamp, the random suffix and the result of creating the
  directory are parameters.
\<close>

section \<open>The name and the file\<close>

definition output_spill_enabled :: "env \<Rightarrow> bool" where
  "output_spill_enabled e = gate_strict e ''AGI_V8_SI_OUTPUT_SPILL_ENABLED''"

definition tail_limit :: nat where "tail_limit = 2000"

definition path_name :: "string \<Rightarrow> string" where
  "path_name p = (case comps p of [] \<Rightarrow> [] | cs \<Rightarrow> List.last cs)"

definition strip_of :: "char set \<Rightarrow> string \<Rightarrow> string" where
  "strip_of cs s = rstrip_where (\<lambda>c. c \<in> cs) (lstrip_where (\<lambda>c. c \<in> cs) s)"

definition spill_basename :: "string \<Rightarrow> string" where
  "spill_basename req =
     (let safe = strip_of (set ''._-'') (take 64 (map (\<lambda>c. if slug_char c then c else CHR ''_'') (path_name req)))
      in if safe = [] then ''artifact'' else safe)"

definition spill_dir :: "string list" where "spill_dir = [''workspace'', ''.agent'', ''spill'']"

definition spill_name :: "string \<Rightarrow> string \<Rightarrow> string \<Rightarrow> string \<Rightarrow> string" where
  "spill_name ts uid req stream = ts @ ''_'' @ spill_basename req @ ''_'' @ stream @ ''_'' @ uid @ ''.txt''"

text \<open>The file is created anew behind the resolved parent, or not at all.\<close>

definition spill_write ::
  "string fs \<Rightarrow> unit result \<Rightarrow> string list \<Rightarrow> string \<Rightarrow> string \<Rightarrow> string fs \<times> string result" where
  "spill_write fs mkdir dir name full =
     (case mkdir of
        Inl x \<Rightarrow> (fs, Inl x)
      | Inr _ \<Rightarrow>
          (let jail = resolve fs dir; parent = resolve fs (dir @ spill_dir); p = render (parent @ [name]) in
           if \<not> prefix jail parent then (fs, Inl (ValueError ''spill path leaves the jail''))
           else if fs p \<noteq> None then (fs, Inl (OSError ''EEXIST''))
           else (fs(p \<mapsto> Reg 384 full), Inr (join ''/'' (spill_dir @ [name])))))"

definition apply_output_spill ::
  "env \<Rightarrow> unit result \<Rightarrow> string list \<Rightarrow> string \<Rightarrow> string \<Rightarrow> string \<Rightarrow> string \<Rightarrow> string \<Rightarrow> dict \<Rightarrow> string fs
    \<Rightarrow> string fs \<times> dict result" where
  "apply_output_spill e mkdir dir ts uid req stream full rec fs =
     (if \<not> output_spill_enabled e then (fs, Inr rec)
      else let truncated = tail_limit < length full;
               r1 = dict_set rec (stream @ ''_full_len'') (VInt (int (length full)));
               r2 = dict_set r1 (stream @ ''_truncated'') (VBool truncated);
               finish = (\<lambda>v. Inr (dict_set r2 (stream @ ''_spill_path'') v))
           in if \<not> truncated then (fs, finish VNone)
              else case spill_write fs mkdir dir (spill_name ts uid req stream) full of
                     (fs', Inr rel) \<Rightarrow> (fs', finish (VStr rel))
                   | (fs', Inl x) \<Rightarrow> (fs', bindR (absorb e x ()) (\<lambda>_. finish VNone)))"

section \<open>What is written\<close>

lemma strip_of_chars: "c \<in> set (strip_of cs s) \<Longrightarrow> c \<in> set s"
  unfolding strip_of_def lstrip_where_def rstrip_where_def
  by (metis set_dropWhileD set_rev)

lemma spill_basename_chars: "c \<in> set (spill_basename req) \<Longrightarrow> slug_char c"
proof -
  let ?raw = "map (\<lambda>c. if slug_char c then c else CHR ''_'') (path_name req)"
  have "c \<in> set (strip_of (set ''._-'') (take 64 ?raw)) \<Longrightarrow> slug_char c"
    using strip_of_chars [of c "set ''._-''" "take 64 ?raw"] set_take_subset [of 64 ?raw]
    by (auto simp: slug_char_def)
  moreover have "\<forall>c \<in> set ''artifact''. slug_char c" by code_simp
  ultimately show "c \<in> set (spill_basename req) \<Longrightarrow> slug_char c"
    by (auto simp: spill_basename_def Let_def split: if_splits)
qed

lemma spill_name_plain:
  assumes "slash \<notin> set (ts @ uid @ stream)"
  shows "slash \<notin> set (spill_name ts uid req stream)" "suffix ''.txt'' (spill_name ts uid req stream)"
proof -
  have "slash \<notin> set (spill_basename req)" using spill_basename_chars slug_char_no_slash by blast
  moreover have "slash \<notin> set ''.txt''" "slash \<notin> set ''_''" by code_simp+
  ultimately show "slash \<notin> set (spill_name ts uid req stream)" using assms by (simp add: spill_name_def)
  show "suffix ''.txt'' (spill_name ts uid req stream)" by (auto simp: spill_name_def suffix_def)
qed

text \<open>A spill creates at most one file, a text file with the whole output, in a directory that is, links
  followed, inside the run's own directory; it replaces nothing. The name the artifact asked for
  cannot steer it, and neither can a link planted where the directory should be.\<close>

theorem spill_stays_in_jail:
  assumes "apply_output_spill e mkdir dir ts uid req stream full rec fs = (fs', r)"
    and "slash \<notin> set (ts @ uid @ stream)" and "fs' \<noteq> fs"
  shows "\<exists>d name. prefix (resolve fs dir) d \<and> slash \<notin> set name \<and> suffix ''.txt'' name \<and>
    fs (render (d @ [name])) = None \<and> fs' = fs(render (d @ [name]) \<mapsto> Reg 384 full)"
proof -
  let ?name = "spill_name ts uid req stream" and ?d = "resolve fs (dir @ spill_dir)"
  have "\<exists>q. spill_write fs mkdir dir ?name full = (fs', q)"
    using assms(1,3) by (auto simp: apply_output_spill_def Let_def split: if_splits prod.splits sum.splits)
  then have "prefix (resolve fs dir) ?d" "fs (render (?d @ [?name])) = None"
      "fs' = fs(render (?d @ [?name]) \<mapsto> Reg 384 full)"
    using assms(3) by (auto simp: spill_write_def Let_def split: if_splits sum.splits)
  then show ?thesis using spill_name_plain [OF assms(2)] by blast
qed

text \<open>A link planted in place of the directory leads nowhere: nothing is written.\<close>

lemma link_out_refused:
  assumes "\<not> prefix (resolve fs dir) (resolve fs (dir @ spill_dir))"
  shows "fst (apply_output_spill e mkdir dir ts uid req stream full rec fs) = fs"
  using assms by (auto simp: apply_output_spill_def spill_write_def Let_def split: sum.splits)

definition planted_fs :: "string fs" where
  "planted_fs = [''/r/workspace/.agent/spill'' \<mapsto> Link ''/src'']"

lemma planted_link_refused:
  "fst (apply_output_spill e mkdir [''r''] ts uid req stream full rec planted_fs) = planted_fs"
  by (rule link_out_refused) code_simp

definition spill_env :: env where "spill_env = no_env(''AGI_V8_SI_OUTPUT_SPILL_ENABLED'' \<mapsto> ''1'')"

definition bare_fs :: "string fs" where "bare_fs = (\<lambda>_. None)"

definition long_output :: string where "long_output = replicate 2001 (CHR ''x'')"

lemma spill_run:
  "fst (apply_output_spill spill_env (Inr ()) [''r''] ''t'' ''u'' ''../../etc/passwd'' ''stdout'' long_output [] bare_fs) =
     bare_fs(''/r/workspace/.agent/spill/t_passwd_stdout_u.txt'' \<mapsto> Reg 384 long_output)"
proof -
  have "output_spill_enabled spill_env" "spill_name ''t'' ''u'' ''../../etc/passwd'' ''stdout'' = ''t_passwd_stdout_u.txt''"
    "resolve bare_fs [''r''] = [''r'']" "resolve bare_fs ([''r''] @ spill_dir) = [''r'', ''workspace'', ''.agent'', ''spill'']"
    "render [''r'', ''workspace'', ''.agent'', ''spill'', ''t_passwd_stdout_u.txt''] =
      ''/r/workspace/.agent/spill/t_passwd_stdout_u.txt''"
    by code_simp+
  then show ?thesis
    by (simp add: apply_output_spill_def spill_write_def Let_def tail_limit_def long_output_def bare_fs_def)
qed

theorem spill_stays_in_jail_witness:
  "\<exists>d name. prefix (resolve bare_fs [''r'']) d \<and> slash \<notin> set name \<and> suffix ''.txt'' name \<and>
     bare_fs(''/r/workspace/.agent/spill/t_passwd_stdout_u.txt'' \<mapsto> Reg 384 long_output) =
     bare_fs(render (d @ [name]) \<mapsto> Reg 384 long_output)"
proof -
  let ?run = "apply_output_spill spill_env (Inr ()) [''r''] ''t'' ''u'' ''../../etc/passwd'' ''stdout'' long_output [] bare_fs"
  have "slash \<notin> set (''t'' @ ''u'' @ ''stdout'')" by code_simp
  moreover have "fst ?run \<noteq> bare_fs" unfolding spill_run by (simp add: bare_fs_def fun_eq_iff)
  ultimately show ?thesis
    using spill_stays_in_jail [OF prod.collapse [of ?run, symmetric]] unfolding spill_run by blast
qed

end
