(* ===== verification/VerifyStage.thy ===== *)
theory VerifyStage
  imports ExecutionAuthority CommandChannel HaltSentinel
begin

text \<open>
  The verify stage of the apply ladder (\<open>self_improvement_v8.py\<close>) with the wire of the second opinion
  (\<open>verifier/wire_cross_model_v81.py\<close>): from the blocks of a cycle to file changes, and from the
  changes to a verdict. The regression guard, the pre-commit gate, the review of a confirmed batch, the
  verifier, the reviewer's construction, the sandbox and the axis scorer are fields of the parameter
  \<open>rig\<close>.
\<close>

section \<open>File changes\<close>

definition text_at :: "(rat \<Rightarrow> string) \<Rightarrow> dict \<Rightarrow> string \<Rightarrow> string" where
  "text_at fr d k = (case map_of d k of None \<Rightarrow> [] | Some v \<Rightarrow> py_str fr v)"

text \<open>A change with its old content; the position is never read, so it is the default.\<close>

definition change_of :: "(rat \<Rightarrow> string) \<Rightarrow> pyv \<Rightarrow> (change \<times> string) option" where
  "change_of fr item =
     (case item of
        VDict d \<Rightarrow>
          let p = py_strip (text_at fr d ''path''); a = py_strip (text_at fr d ''action'') in
          if p = [] \<or> a = [] then None
          else Some (\<lparr>ch_path = p, ch_action = a, ch_content = text_at fr d ''content'',
                      ch_target = text_at fr d ''target_line'', ch_replacement = text_at fr d ''replacement'',
                      ch_position = ''after'', ch_expected = text_at fr d ''expected_preimage_sha256''\<rparr>,
                     text_at fr d ''old_content'')
      | _ \<Rightarrow> None)"

definition extract_file_changes :: "(rat \<Rightarrow> string) \<Rightarrow> pyv list \<Rightarrow> (change \<times> string) list" where
  "extract_file_changes fr blocks =
     List.map_filter (change_of fr) (concat (map (block_list ''proposed_file_changes'') blocks))"

section \<open>The sandbox unit\<close>

definition after_slash :: "string \<Rightarrow> string" where
  "after_slash p = List.last (split_on (CHR ''/'') p)"

definition test_name :: "string \<Rightarrow> bool" where
  "test_name n \<longleftrightarrow> prefix ''test_'' n \<and> suffix ''.py'' n \<or> suffix ''_test.py'' n"

definition runnable :: "change \<Rightarrow> bool" where
  "runnable c \<longleftrightarrow> py_strip (ch_action c) \<in> {''create'', ''replace''} \<and> suffix ''.py'' (py_strip (ch_path c)) \<and>
     ch_content c \<noteq> []"

text \<open>The first unit and the first test: (code and lane, test).\<close>

fun scan_units :: "(string \<times> string) option \<Rightarrow> string option \<Rightarrow> change list
    \<Rightarrow> (string \<times> string) option \<times> string option" where
  "scan_units code test [] = (code, test)"
| "scan_units code test (c # cs) =
     (let n = after_slash (py_strip (ch_path c)) in
      if \<not> runnable c then scan_units code test cs
      else if test_name n then scan_units code (case test of None \<Rightarrow> Some (ch_content c) | t \<Rightarrow> t) cs
      else scan_units (case code of None \<Rightarrow> Some (ch_content c, n) | u \<Rightarrow> u) test cs)"

definition select_sandbox_unit :: "change list \<Rightarrow> (string \<times> string option \<times> string) option" where
  "select_sandbox_unit cs =
     (case scan_units None None cs of
        (None, _) \<Rightarrow> None
      | (Some (code, lane), test) \<Rightarrow> Some (code, test, lane))"

record telemetry =
  tm_stub :: bool
  tm_stub_reason :: string
  tm_exit :: int
  tm_failed :: int
  tm_row :: dict

datatype sandbox_answer = SandboxRan telemetry | SandboxUnavailable | SandboxRaised exn

definition si_sandbox_verify_enabled :: "env \<Rightarrow> bool" where
  "si_sandbox_verify_enabled e = gate_strict e ''AGI_V8_SI_SANDBOX_VERIFY_ENABLED''"

definition si_sandbox_fail_closed_enabled :: "env \<Rightarrow> bool" where
  "si_sandbox_fail_closed_enabled e = gate_strict e ''AGI_V8_SI_SANDBOX_FAIL_CLOSED''"

definition maybe_run_sandbox_verify ::
  "env \<Rightarrow> (string \<Rightarrow> string option \<Rightarrow> string \<Rightarrow> sandbox_answer) \<Rightarrow> (string \<Rightarrow> telemetry) \<Rightarrow> change list
    \<Rightarrow> telemetry option result" where
  "maybe_run_sandbox_verify e run unavailable cs =
     (if \<not> si_sandbox_verify_enabled e then Inr None
      else case select_sandbox_unit cs of
        None \<Rightarrow> Inr None
      | Some (code, test, lane) \<Rightarrow>
          (case run code test lane of
             SandboxRan t \<Rightarrow> Inr (Some t)
           | SandboxUnavailable \<Rightarrow> Inr (Some (unavailable lane))
           | SandboxRaised x \<Rightarrow> absorb e x None))"

section \<open>The second opinion\<close>

definition cross_model_verify_enabled :: "env \<Rightarrow> bool" where
  "cross_model_verify_enabled e = gate_strict e ''AGI_V81_CROSS_MODEL_VERIFY_ENABLED''"

definition cross_model_consensus_only_enabled :: "env \<Rightarrow> bool" where
  "cross_model_consensus_only_enabled e = gate_strict e ''AGI_V8_SI_CROSS_MODEL_CONSENSUS_ONLY_ENABLED''"

definition cross_model_reviewer_detail_enabled :: "env \<Rightarrow> bool" where
  "cross_model_reviewer_detail_enabled e = gate_strict e ''AGI_V8_SI_CROSS_MODEL_REVIEWER_DETAIL_ENABLED''"

record opinion =
  op_agree :: bool
  op_score :: rat
  op_refuted :: bool
  op_hash :: string
  op_evidence :: "string list"
  op_adversary :: string
  op_reason :: string

text \<open>The verifier's answer: refuted, score, hash, evidence; or no verifier is installed.\<close>

datatype evaluation = Evaluated bool rat string "string list" | VerifierUnavailable

definition blocked_opinion :: "string \<Rightarrow> string \<Rightarrow> opinion" where
  "blocked_opinion h why =
     \<lparr>op_agree = False, op_score = 0, op_refuted = True, op_hash = h, op_evidence = [why],
      op_adversary = ''none'', op_reason = why\<rparr>"

definition ordinary :: "'a result \<Rightarrow> raised + 'a" where
  "ordinary r = (case r of Inl x \<Rightarrow> Inl (Ordinary x) | Inr a \<Rightarrow> Inr a)"

text \<open>\<open>adv\<close> names the reviewer. The spec maps texts to texts, so its JSON text always exists.\<close>

definition run_cross_model_verify ::
  "env \<Rightarrow> raised + unit \<Rightarrow> (string \<Rightarrow> string) \<Rightarrow> (string \<Rightarrow> dict \<Rightarrow> rat \<Rightarrow> evaluation result)
    \<Rightarrow> dict \<Rightarrow> string option \<Rightarrow> rat \<Rightarrow> raised + opinion option" where
  "run_cross_model_verify e halt sha review spec adversary threshold =
     (if \<not> cross_model_verify_enabled e then Inr None
      else bindR halt (\<lambda>_.
        case adversary of
          None \<Rightarrow> Inr (Some (blocked_opinion (sha (json_text_raw (\<lambda>_. []) (VDict spec)))
                              ''no_independent_adversary_wired''))
        | Some adv \<Rightarrow>
            bindR (ordinary (review adv spec threshold)) (\<lambda>v.
              case v of
                VerifierUnavailable \<Rightarrow> Inr (Some (blocked_opinion [] ''T6_payload_unavailable''))
              | Evaluated refuted score h evidence \<Rightarrow>
                  Inr (Some \<lparr>op_agree = (\<not> refuted), op_score = score, op_refuted = refuted, op_hash = h,
                    op_evidence = evidence, op_adversary = ''injected'',
                    op_reason = (if refuted then ''refuted'' else [])\<rparr>))))"

text \<open>The verdicts the reviewer left behind; what it did not leave is \<open>None\<close>, not an empty list.\<close>

definition reviewer_verdicts :: "(rat \<Rightarrow> string) \<Rightarrow> pyv option \<Rightarrow> (string \<times> bool \<times> string) list option" where
  "reviewer_verdicts fr left =
     (case left of
        Some (VList xs) \<Rightarrow>
          Some (List.map_filter (\<lambda>x. case x of
            VDict d \<Rightarrow> Some (text_at fr d ''path'', truthy (dict_get d ''endorse''), text_at fr d ''reason'')
          | _ \<Rightarrow> None) xs)
      | _ \<Rightarrow> None)"

section \<open>The verdict\<close>

record verdict =
  vd_ok :: bool
  vd_blocked :: string
  vd_emergency :: bool
  vd_gate_ok :: bool
  vd_gate_reason :: string
  vd_gate_tests :: nat
  vd_cross :: "opinion option"
  vd_adversary :: string
  vd_reviewer :: "(string \<times> bool \<times> string) list option option"
  vd_sandbox :: "dict option"
  vd_tokens :: "pyv option"
  vd_digest :: "string option"
  vd_gate :: "(bool \<times> bool \<times> string) option"

record gate_answer =
  ga_ok :: bool
  ga_reason :: string
  ga_tests :: nat

text \<open>Everything the stage asks of other code.\<close>

record rig =
  rg_env :: env
  rg_fr :: "rat \<Rightarrow> string"
  rg_sha :: "string \<Rightarrow> string"
  rg_halt :: "raised + unit"
  rg_emergency :: "pyv \<Rightarrow> bool result"
  rg_gate :: "string list \<Rightarrow> gate_answer result"
  rg_confirmed :: "string \<Rightarrow> change list \<Rightarrow> string list option result"
  rg_adversary :: "change list \<Rightarrow> (string option \<times> string) result"
  rg_evaluate :: "string \<Rightarrow> dict \<Rightarrow> rat \<Rightarrow> evaluation result"
  rg_left :: "string \<Rightarrow> pyv"
  rg_sandbox :: "string \<Rightarrow> string option \<Rightarrow> string \<Rightarrow> sandbox_answer"
  rg_no_sandbox :: "string \<Rightarrow> telemetry"
  rg_axes :: "string list \<Rightarrow> telemetry \<Rightarrow> pyv result"

definition new_verdict :: "rig \<Rightarrow> (change \<times> string) list \<Rightarrow> verdict" where
  "new_verdict g cs =
     \<lparr>vd_ok = True, vd_blocked = [], vd_emergency = False, vd_gate_ok = True, vd_gate_reason = ''skipped'',
      vd_gate_tests = 0, vd_cross = None, vd_adversary = ''none'', vd_reviewer = None, vd_sandbox = None,
      vd_tokens = None,
      vd_digest = (if execution_authority_enabled (rg_env g) then Some (changes_digest (rg_sha g) cs) else None),
      vd_gate = None\<rparr>"

definition mismatch :: string where "mismatch = ''verified_apply_authority_mismatch''"

definition gate_step :: "rig \<Rightarrow> string option \<Rightarrow> change list \<Rightarrow> verdict \<Rightarrow> verdict result" where
  "gate_step g confirmation cs v =
     (case confirmation of
        Some cid \<Rightarrow>
          bindR (rg_confirmed g cid cs) (\<lambda>targets.
            case targets of
              None \<Rightarrow> Inr (v\<lparr>vd_gate_ok := False, vd_gate_reason := mismatch, vd_gate_tests := 0, vd_ok := False,
                            vd_blocked := ''pre_commit_gate:'' @ mismatch\<rparr>)
            | Some ts \<Rightarrow> Inr (v\<lparr>vd_gate_ok := True, vd_gate_reason := ''completion_authority_exact_pytest_reused'',
                               vd_gate_tests := length ts\<rparr>))
      | None \<Rightarrow>
          bindR (rg_gate g (filter (\<lambda>p. p \<noteq> []) (map ch_path cs))) (\<lambda>a.
            let v1 = v\<lparr>vd_gate_ok := ga_ok a, vd_gate_reason := ga_reason a, vd_gate_tests := ga_tests a\<rparr> in
            Inr (if ga_ok a then v1
                 else v1\<lparr>vd_ok := False, vd_blocked := ''pre_commit_gate:'' @ ga_reason a\<rparr>)))"

text \<open>The spec of the second opinion: the last action of each path, in the order of the first.\<close>

definition cm_spec :: "change list \<Rightarrow> dict" where
  "cm_spec cs = fold (\<lambda>c d. if ch_path c = [] then d else dict_set d (ch_path c) (VStr (ch_action c))) cs []"

definition drop_tag :: "string \<Rightarrow> string" where
  "drop_tag s = drop 5 s"

text \<open>The reviewer and the opinion: asked, or skipped for a reason.\<close>

definition consult :: "rig \<Rightarrow> change list \<Rightarrow> raised + (string option \<times> string \<times> opinion option)" where
  "consult g cs =
     (let e = rg_env g in
      bindR (ordinary (if cross_model_verify_enabled e then rg_adversary g cs else Inr (None, ''none'')))
        (\<lambda>(adv, status). bindR (run_cross_model_verify e (rg_halt g) (rg_sha g) (rg_evaluate g) (cm_spec cs) adv 1)
          (\<lambda>opn. Inr (adv, status, opn))))"

definition ask_opinion ::
  "rig \<Rightarrow> string option \<Rightarrow> change list \<Rightarrow> raised + (string option \<times> string \<times> opinion option)" where
  "ask_opinion g skip cs =
     (case skip of
        Some why \<Rightarrow> if why \<noteq> [] \<and> cross_model_verify_enabled (rg_env g)
                    then Inr (None, ''skipped:'' @ why, None) else consult g cs
      | None \<Rightarrow> consult g cs)"

definition opinion_step :: "rig \<Rightarrow> string option \<Rightarrow> change list \<Rightarrow> verdict \<Rightarrow> raised + verdict" where
  "opinion_step g skip cs v =
     bindR (ask_opinion g skip cs) (\<lambda>(adv, status, opn).
       let v1 = v\<lparr>vd_cross := opn, vd_adversary := status,
                  vd_reviewer := (if cross_model_reviewer_detail_enabled (rg_env g)
                     then Some (reviewer_verdicts (rg_fr g) (map_option (rg_left g) adv)) else None)\<rparr>
       in Inr (case opn of
            Some o1 \<Rightarrow>
              if op_refuted o1
              then (let why = (if adv = None \<and> prefix ''none:'' status then drop_tag status
                               else if op_reason o1 = [] then ''refuted'' else op_reason o1)
                    in v1\<lparr>vd_ok := False,
                          vd_blocked := (if vd_blocked v1 = [] then ''cross_model_'' @ why else vd_blocked v1)\<rparr>)
              else v1
          | None \<Rightarrow> v1))"

definition sandbox_failed :: "telemetry \<Rightarrow> bool" where
  "sandbox_failed t \<longleftrightarrow> tm_exit t \<noteq> 0 \<or> 0 < tm_failed t"

definition sandbox_step :: "rig \<Rightarrow> change list \<Rightarrow> verdict \<Rightarrow> verdict result" where
  "sandbox_step g cs v =
     (let e = rg_env g; armed = si_sandbox_fail_closed_enabled e in
      bindR (maybe_run_sandbox_verify e (rg_sandbox g) (rg_no_sandbox g) cs) (\<lambda>ran.
        case ran of
          None \<Rightarrow> Inr v
        | Some t \<Rightarrow>
            let v1 = v\<lparr>vd_sandbox := Some (tm_row t)\<rparr> in
            bindR (if tm_stub t then Inr v1
                   else bindR (rg_axes g (filter (suffix ''.py'') (map ch_path cs)) t) (\<lambda>tokens.
                     let v2 = v1\<lparr>vd_tokens := Some tokens\<rparr> in
                     Inr (if armed \<and> sandbox_failed t
                          then v2\<lparr>vd_ok := False,
                               vd_blocked := (if vd_blocked v2 = [] then ''sandbox_fail_closed'' else vd_blocked v2)\<rparr>
                          else v2)))
              (\<lambda>v3. Inr (if armed
                 then v3\<lparr>vd_gate := Some (\<not> tm_stub t \<and> sandbox_failed t, tm_stub t, tm_stub_reason t)\<rparr>
                 else v3))))"

definition run_verify_stage ::
  "rig \<Rightarrow> pyv \<Rightarrow> string option \<Rightarrow> string option \<Rightarrow> (change \<times> string) list \<Rightarrow> raised + verdict" where
  "run_verify_stage g rubric confirmation skip changes =
     (let cs = map fst changes; v0 = new_verdict g changes in
      bindR (ordinary (if rubric = VNone then Inr False else rg_emergency g rubric)) (\<lambda>emergency.
      if emergency
      then Inr (v0\<lparr>vd_ok := False, vd_emergency := True, vd_blocked := ''rubric_emergency_regression''\<rparr>)
      else bindR (ordinary (gate_step g confirmation cs v0)) (\<lambda>v1.
           bindR (opinion_step g skip cs v1) (\<lambda>v2.
           ordinary (sandbox_step g cs v2)))))"

section \<open>What a passing verdict means\<close>

lemma ordinary_eq [simp]:
  "ordinary r = Inr a \<longleftrightarrow> r = Inr a" "ordinary r = Inl y \<longleftrightarrow> (\<exists>x. r = Inl x \<and> y = Ordinary x)"
  by (auto simp: ordinary_def split: sum.splits)

definition gate_passes :: "rig \<Rightarrow> string option \<Rightarrow> change list \<Rightarrow> bool" where
  "gate_passes g confirmation cs \<longleftrightarrow>
     (case confirmation of
        Some cid \<Rightarrow> (case rg_confirmed g cid cs of Inr (Some _) \<Rightarrow> True | _ \<Rightarrow> False)
      | None \<Rightarrow> holds (rg_gate g (filter (\<lambda>p. p \<noteq> []) (map ch_path cs))) ga_ok)"

definition opinion_skipped :: "rig \<Rightarrow> string option \<Rightarrow> bool" where
  "opinion_skipped g skip \<longleftrightarrow> (case skip of Some why \<Rightarrow> why \<noteq> [] | None \<Rightarrow> False)"

text \<open>A reviewer was built and refuted no change; a second opinion is not wanted, or it approved.\<close>

definition reviewer_approves :: "rig \<Rightarrow> change list \<Rightarrow> bool" where
  "reviewer_approves g cs \<longleftrightarrow>
     (case rg_adversary g cs of
        Inr (Some adv, _) \<Rightarrow>
          (case rg_evaluate g adv (cm_spec cs) 1 of Inr (Evaluated refuted _ _ _) \<Rightarrow> \<not> refuted | _ \<Rightarrow> False)
      | _ \<Rightarrow> False)"

definition endorsed :: "rig \<Rightarrow> string option \<Rightarrow> change list \<Rightarrow> bool" where
  "endorsed g skip cs \<longleftrightarrow>
     \<not> cross_model_verify_enabled (rg_env g) \<or> opinion_skipped g skip \<or>
     reviewer_approves g cs"

definition sandbox_passes :: "rig \<Rightarrow> change list \<Rightarrow> bool" where
  "sandbox_passes g cs \<longleftrightarrow>
     \<not> si_sandbox_fail_closed_enabled (rg_env g) \<or>
     (case maybe_run_sandbox_verify (rg_env g) (rg_sandbox g) (rg_no_sandbox g) cs of
        Inr (Some t) \<Rightarrow> tm_stub t \<or> \<not> sandbox_failed t | _ \<Rightarrow> True)"

definition no_emergency :: "rig \<Rightarrow> pyv \<Rightarrow> bool" where
  "no_emergency g rubric \<longleftrightarrow> rubric = VNone \<or> rg_emergency g rubric = Inr False"

definition consistent :: "verdict \<Rightarrow> bool" where
  "consistent v \<longleftrightarrow> (vd_ok v \<longleftrightarrow> vd_blocked v = [])"

lemma gate_step_ok:
  assumes "gate_step g confirmation cs v = Inr v'" "vd_ok v" "consistent v"
  shows "vd_ok v' = gate_passes g confirmation cs \<and> consistent v' \<and> vd_digest v' = vd_digest v"
proof (cases confirmation)
  case None
  let ?paths = "filter (\<lambda>p. p \<noteq> []) (map ch_path cs)"
  obtain a where a: "rg_gate g ?paths = Inr a" using assms(1) None by (auto simp: gate_step_def)
  show ?thesis
    using assms None by (cases "ga_ok a") (simp_all add: gate_step_def a gate_passes_def consistent_def Let_def, auto)
next
  case (Some cid)
  obtain ts where ts: "rg_confirmed g cid cs = Inr ts" using assms(1) Some by (auto simp: gate_step_def)
  show ?thesis
  proof (cases ts)
    case None
    then show ?thesis using assms Some by (simp add: gate_step_def ts gate_passes_def consistent_def) auto
  next
    fix l assume "ts = Some l"
    then show ?thesis using assms Some by (simp add: gate_step_def ts gate_passes_def consistent_def) auto
  qed
qed

lemma consult_ok:
  assumes "consult g cs = Inr (adv, status, opn)"
  shows "(case opn of Some o1 \<Rightarrow> op_refuted o1 | None \<Rightarrow> False) \<longleftrightarrow>
    cross_model_verify_enabled (rg_env g) \<and> \<not> reviewer_approves g cs"
proof (cases "cross_model_verify_enabled (rg_env g)")
  case False
  then have "opn = None" using assms by (simp add: consult_def run_cross_model_verify_def)
  then show ?thesis using False by simp
next
  case True
  then have adv: "rg_adversary g cs = Inr (adv, status)"
    and run: "run_cross_model_verify (rg_env g) (rg_halt g) (rg_sha g) (rg_evaluate g) (cm_spec cs) adv 1 = Inr opn"
    using assms by (auto simp: consult_def)
  show ?thesis
  proof (cases adv)
    case None
    then show ?thesis using run True adv
      by (auto simp: run_cross_model_verify_def reviewer_approves_def blocked_opinion_def)
  next
    case (Some a)
    then obtain ev where ev: "rg_evaluate g a (cm_spec cs) 1 = Inr ev"
      using run True by (auto simp: run_cross_model_verify_def)
    show ?thesis using run True adv Some ev
      by (cases ev) (auto simp: run_cross_model_verify_def reviewer_approves_def blocked_opinion_def)
  qed
qed

lemma opinion_step_ok:
  assumes "opinion_step g skip cs v = Inr v'" "consistent v"
  shows "vd_ok v' = (vd_ok v \<and> endorsed g skip cs) \<and> consistent v' \<and> vd_digest v' = vd_digest v"
proof -
  obtain adv status opn where ask: "ask_opinion g skip cs = Inr (adv, status, opn)"
    using assms(1) by (auto simp: opinion_step_def)
  have blocked: "endorsed g skip cs \<longleftrightarrow> \<not> (case opn of Some o1 \<Rightarrow> op_refuted o1 | None \<Rightarrow> False)"
  proof (cases "opinion_skipped g skip \<and> cross_model_verify_enabled (rg_env g)")
    case True
    then have "opn = None" using ask by (cases skip) (auto simp: ask_opinion_def opinion_skipped_def)
    then show ?thesis using True by (simp add: endorsed_def)
  next
    case False
    then have "consult g cs = Inr (adv, status, opn) \<or> \<not> cross_model_verify_enabled (rg_env g)"
      using ask by (cases skip) (auto simp: ask_opinion_def opinion_skipped_def split: if_splits)
    moreover have "\<not> cross_model_verify_enabled (rg_env g) \<Longrightarrow> consult g cs = Inr (adv, status, opn)"
      using ask by (cases skip) (auto simp: ask_opinion_def split: if_splits)
    ultimately show ?thesis using consult_ok [of g cs adv status opn] False by (auto simp: endorsed_def)
  qed
  show ?thesis
  proof (cases opn)
    case None
    then show ?thesis using assms ask blocked by (simp add: opinion_step_def consistent_def Let_def) auto
  next
    case (Some o1)
    then show ?thesis using assms ask blocked
      by (cases "op_refuted o1") (simp_all add: opinion_step_def consistent_def Let_def, auto)
  qed
qed

lemma sandbox_step_ok:
  assumes "sandbox_step g cs v = Inr v'" "consistent v"
  shows "vd_ok v' = (vd_ok v \<and> sandbox_passes g cs) \<and> consistent v' \<and> vd_digest v' = vd_digest v"
proof -
  obtain ran where ran: "maybe_run_sandbox_verify (rg_env g) (rg_sandbox g) (rg_no_sandbox g) cs = Inr ran"
    using assms(1) by (auto simp: sandbox_step_def Let_def)
  show ?thesis
  proof (cases ran)
    case None
    then show ?thesis using assms by (simp add: sandbox_step_def sandbox_passes_def ran Let_def)
  next
    case (Some t)
    show ?thesis
    proof (cases "tm_stub t")
      case True
      then show ?thesis using assms Some
        by (auto simp: sandbox_step_def sandbox_passes_def ran Let_def consistent_def split: if_splits)
    next
      case False
      then obtain tokens where "rg_axes g (filter (suffix ''.py'') (map ch_path cs)) t = Inr tokens"
        using assms(1) Some by (auto simp: sandbox_step_def ran Let_def)
      then show ?thesis using assms Some False
        by (cases "si_sandbox_fail_closed_enabled (rg_env g)"; cases "sandbox_failed t")
          (auto simp: sandbox_step_def sandbox_passes_def ran Let_def consistent_def)
    qed
  qed
qed

lemma verdict_digest:
  assumes "run_verify_stage g rubric confirmation skip changes = Inr v"
  shows "vd_digest v = (if execution_authority_enabled (rg_env g)
    then Some (changes_digest (rg_sha g) changes) else None)"
proof -
  have new: "vd_ok (new_verdict g changes)" "consistent (new_verdict g changes)"
    by (simp_all add: new_verdict_def consistent_def)
  have "vd_digest v = vd_digest (new_verdict g changes)"
    using assms gate_step_ok [OF _ new] opinion_step_ok sandbox_step_ok
    by (auto simp: run_verify_stage_def Let_def split: if_splits)
  then show ?thesis by (simp add: new_verdict_def)
qed


text \<open>A rig whose reviewer refutes: the gate passes and the verdict does not.\<close>

definition refuting_rig :: rig where
  "refuting_rig =
     \<lparr>rg_env = no_env(''AGI_V81_CROSS_MODEL_VERIFY_ENABLED'' \<mapsto> ''1''), rg_fr = (\<lambda>_. []), rg_sha = (\<lambda>s. s),
      rg_halt = Inr (), rg_emergency = (\<lambda>_. Inr False),
      rg_gate = (\<lambda>_. Inr \<lparr>ga_ok = True, ga_reason = ''ran'', ga_tests = 1\<rparr>), rg_confirmed = (\<lambda>_ _. Inr None),
      rg_adversary = (\<lambda>_. Inr (Some ''reviewer'', ''reviewer'')),
      rg_evaluate = (\<lambda>_ _ _. Inr (Evaluated True (1 / 2) ''h'' [''mismatch:a''])),
      rg_left = (\<lambda>_. VNone), rg_sandbox = (\<lambda>_ _ _. SandboxUnavailable),
      rg_no_sandbox = (\<lambda>_. \<lparr>tm_stub = True, tm_stub_reason = [], tm_exit = -1, tm_failed = 0, tm_row = []\<rparr>),
      rg_axes = (\<lambda>_ _. Inr VNone)\<rparr>"


end
