(* ===== verification/ApplyLadder.thy ===== *)
theory ApplyLadder
  imports VerifyStage OutputSpill
begin

text \<open>
  The apply ladder of a self-improvement cycle (\<open>_run_apply_ladder\<close> of \<open>self_improvement_v8.py\<close>):
  verify, the session on the cycle's own changes, the command channel, the sessions of the work product
  and of the answer, and the artifact runs. The real session, the command executor and the independent
  reproduction are installed separately: they are fields of the parameter \<open>hands\<close>, and every use of
  them is recorded. A dry session is the engine of theory \<open>ApplySession\<close>.
\<close>

section \<open>Hands and state\<close>

record plan =
  pl_raw :: string
  pl_argv :: "string list"
  pl_allowed :: bool
  pl_category :: string
  pl_reason :: string
  pl_read_only :: bool

record artifact_plan =
  ap_allowed :: bool
  ap_reason :: string
  ap_source :: string
  ap_sha :: string
  ap_args :: "string list"

record run_answer =
  ra_executed :: bool
  ra_returncode :: pyv
  ra_reason :: string
  ra_stdout :: string
  ra_stderr :: string

record hands =
  hd_world :: world
  hd_applier :: applier
  hd_real :: "string \<Rightarrow> change list \<Rightarrow> string fs \<Rightarrow> string fs \<times> apply_result result"
  hd_executor :: "unit result"
  hd_seam :: bool
  hd_armed :: bool
  hd_stage4 :: bool
  hd_mode :: string
  hd_mask :: "string \<Rightarrow> string"
  hd_plan :: "string \<Rightarrow> plan result"
  hd_exec :: "plan \<Rightarrow> string fs \<Rightarrow> string fs \<times> run_answer result"
  hd_artifact :: "string \<Rightarrow> artifact_plan result"
  hd_run :: "artifact_plan \<Rightarrow> string option \<Rightarrow> authorization \<Rightarrow> string fs \<Rightarrow> string fs \<times> run_answer result"
  hd_reproduce :: "artifact_plan \<Rightarrow> run_answer \<Rightarrow> (bool \<times> string) option result"
  hd_mkdir :: "unit result"
  hd_ts :: string
  hd_uid :: "string \<Rightarrow> string \<Rightarrow> string"

datatype effect =
    Wrote string "change list"
  | RanCommand string
  | RanArtifact string

record lad =
  ld_fs :: "string fs"
  ld_did :: "effect list"

type_synonym 'a ladder = "lad \<Rightarrow> lad \<times> (raised + 'a)"

definition retL :: "'a \<Rightarrow> 'a ladder" where "retL a s = (s, Inr a)"
definition liftL :: "(raised + 'a) \<Rightarrow> 'a ladder" where "liftL r s = (s, r)"

definition bindL :: "'a ladder \<Rightarrow> ('a \<Rightarrow> 'b ladder) \<Rightarrow> 'b ladder" where
  "bindL m f s = (case m s of (s', Inl x) \<Rightarrow> (s', Inl x) | (s', Inr a) \<Rightarrow> f a s')"

text \<open>A step on the files; one that is recorded.\<close>

definition onL :: "(string fs \<Rightarrow> string fs \<times> 'a result) \<Rightarrow> 'a ladder" where
  "onL f s = (let (fs', r) = f (ld_fs s) in (s\<lparr>ld_fs := fs'\<rparr>, ordinary r))"

definition doL :: "effect \<Rightarrow> (string fs \<Rightarrow> string fs \<times> 'a result) \<Rightarrow> 'a ladder" where
  "doL x f s = onL f (s\<lparr>ld_did := ld_did s @ [x]\<rparr>)"

fun mapL :: "('a \<Rightarrow> 'b ladder) \<Rightarrow> 'a list \<Rightarrow> 'b list ladder" where
  "mapL f [] = retL []"
| "mapL f (x # xs) = bindL (f x) (\<lambda>y. bindL (mapL f xs) (\<lambda>ys. retL (y # ys)))"

section \<open>Sessions\<close>

definition fresh_sess :: "string fs \<Rightarrow> sess" where
  "fresh_sess fs = \<lparr>s_fs = fs, s_backups = [], s_creates = [], s_known = [], s_writes = 0, s_ops = 0\<rparr>"

definition apply_si_session :: "rig \<Rightarrow> hands \<Rightarrow> string \<Rightarrow> bool \<Rightarrow> change list \<Rightarrow> apply_result ladder" where
  "apply_si_session g h verifier dry cs =
     (if dry
      then onL (\<lambda>fs. let (st, r) = apply_session (rg_env g) (hd_world h) ((hd_applier h)\<lparr>ap_dry := True\<rparr>)
                                     (fresh_sess fs) cs in (s_fs st, r))
      else doL (Wrote verifier cs) (hd_real h verifier cs))"

section \<open>What a cycle hands to the ladder\<close>

record ladder_in =
  li_status :: string
  li_pod_a :: pyv
  li_pod_b :: pyv
  li_rubric :: pyv
  li_run_verify :: bool
  li_changes :: "pyv list"
  li_commands :: "pyv list"
  li_runs :: "pyv list"
  li_work :: "pyv list"
  li_answer :: "pyv list"
  li_approved :: "string list option"
  li_confirmation :: "string option"

definition proposer_block :: "ladder_in \<Rightarrow> pyv" where
  "proposer_block i =
     (if li_changes i = [] \<and> li_commands i = [] then VNone
      else VDict ((if li_changes i = [] then [] else [(''proposed_file_changes'', VList (li_changes i))]) @
                  (if li_commands i = [] then [] else [(''proposed_commands'', VList (li_commands i))])))"

definition ladder_blocks :: "ladder_in \<Rightarrow> pyv list" where
  "ladder_blocks i = [li_pod_a i, li_pod_b i, proposer_block i]"

definition ladder_changes :: "rig \<Rightarrow> ladder_in \<Rightarrow> (change \<times> string) list" where
  "ladder_changes g i = extract_file_changes (rg_fr g) (ladder_blocks i)"

definition consensus_of :: "ladder_in \<Rightarrow> bool" where
  "consensus_of i \<longleftrightarrow> li_status i = ''consensus''"

definition verify_step :: "rig \<Rightarrow> ladder_in \<Rightarrow> raised + verdict option" where
  "verify_step g i =
     (let cs = ladder_changes g i;
          skip = (if cross_model_consensus_only_enabled (rg_env g) \<and> \<not> consensus_of i
                  then Some (''status='' @ li_status i) else None)
      in if li_run_verify i \<and> cs \<noteq> []
         then bindR (run_verify_stage g (li_rubric i) (li_confirmation i) skip cs) (\<lambda>v. Inr (Some v))
         else Inr None)"

definition verify_pass :: "verdict option \<Rightarrow> bool" where
  "verify_pass v \<longleftrightarrow> (case v of None \<Rightarrow> True | Some x \<Rightarrow> vd_ok x)"

text \<open>The changes about to be written are not those the verdict was computed over.\<close>

definition digest_mismatch :: "rig \<Rightarrow> verdict option \<Rightarrow> (change \<times> string) list \<Rightarrow> bool" where
  "digest_mismatch g v cs \<longleftrightarrow>
     execution_authority_enabled (rg_env g) \<and>
     (case v of
        Some x \<Rightarrow> (case vd_digest x of Some d \<Rightarrow> d \<noteq> changes_digest (rg_sha g) cs | None \<Rightarrow> False)
      | None \<Rightarrow> False)"

definition real_write :: "rig \<Rightarrow> ladder_in \<Rightarrow> verdict option \<Rightarrow> bool" where
  "real_write g i v \<longleftrightarrow>
     consensus_of i \<and> verify_pass v \<and> write_enabled (rg_env g) \<and> \<not> digest_mismatch g v (ladder_changes g i)"

definition mismatch_text :: string where
  "mismatch_text = ''content_digest_mismatch: verified content diverged from the content about to be applied (fail-closed, write refused)''"

record session_summary =
  ss_count :: nat
  ss_applied_changes :: nat
  ss_applied :: bool
  ss_dry :: bool
  ss_errors :: "string list"
  ss_paths :: "string list"

record ladder_out =
  lo_count :: nat
  lo_consensus :: bool
  lo_write_enabled :: bool
  lo_verdict :: "verdict option"
  lo_pre :: string
  lo_post :: string
  lo_changes_applied :: nat
  lo_dry :: bool
  lo_applied :: bool
  lo_reverted :: bool
  lo_errors :: "string list"
  lo_commands :: "dict list option"
  lo_work :: "session_summary option"
  lo_answer :: "session_summary option"
  lo_runs :: "dict list option"

definition main_session :: "rig \<Rightarrow> hands \<Rightarrow> ladder_in \<Rightarrow> verdict option \<Rightarrow> ladder_out ladder" where
  "main_session g h i v =
     (let changes = ladder_changes g i; cs = map fst changes; wr = real_write g i v in
      bindL (apply_si_session g h ''si_v81'' (\<not> wr) cs) (\<lambda>r.
        retL \<lparr>lo_count = length cs, lo_consensus = consensus_of i, lo_write_enabled = write_enabled (rg_env g),
              lo_verdict = v, lo_pre = ar_pre r, lo_post = ar_post r, lo_changes_applied = ar_applied r,
              lo_dry = (\<not> wr), lo_applied = (ar_success r \<and> wr \<and> cs \<noteq> []), lo_reverted = ar_reverted r,
              lo_errors = ar_errors r @ (if digest_mismatch g v changes then [mismatch_text] else []),
              lo_commands = None, lo_work = None, lo_answer = None, lo_runs = None\<rparr>))"

section \<open>Commands\<close>

definition cycle_authority :: "rig \<Rightarrow> ladder_in \<Rightarrow> verdict option \<Rightarrow> authorization" where
  "cycle_authority g i v =
     compute_authorization (rg_env g) (rg_sha g) (Some (consensus_of i)) (Some (verify_pass v))
       (write_enabled (rg_env g)) [] False"

definition unreviewed :: "rig \<Rightarrow> string list option \<Rightarrow> string \<Rightarrow> bool" where
  "unreviewed g approved raw \<longleftrightarrow>
     (case approved of None \<Rightarrow> False | Some ds \<Rightarrow> command_digest (rg_sha g) raw \<notin> set ds)"

definition command_record :: "hands \<Rightarrow> plan \<Rightarrow> string \<Rightarrow> dict" where
  "command_record h p why =
     [(''raw'', VStr (hd_mask h (pl_raw p))), (''argv'', VList (map (\<lambda>t. VStr (hd_mask h t)) (pl_argv p))),
      (''allowed'', VBool (pl_allowed p)), (''category'', VStr (pl_category p)), (''reason'', VStr (pl_reason p)),
      (''read_only'', VBool (pl_read_only p)), (''seam_enabled'', VBool (hd_seam h)),
      (''executed'', VBool False), (''returncode'', VNone), (''exec_reason'', VStr why)]"

definition ran_record :: "run_answer \<Rightarrow> dict \<Rightarrow> dict" where
  "ran_record r rec =
     dict_set (dict_set (dict_set rec ''executed'' (VBool (ra_executed r))) ''returncode'' (ra_returncode r))
       ''exec_reason'' (VStr (ra_reason r))"

definition run_command ::
  "rig \<Rightarrow> hands \<Rightarrow> authorization \<Rightarrow> string list option \<Rightarrow> string \<Rightarrow> dict ladder" where
  "run_command g h auth approved raw =
     bindL (liftL (ordinary (hd_plan h raw))) (\<lambda>p.
       let ea = execution_authority_enabled (rg_env g); would = (hd_seam h \<and> hd_armed h \<and> pl_allowed p) in
       if would \<and> ea \<and> \<not> a_command_exec auth
       then retL (command_record h p ''denied: execution_authority (consensus/verify_pass)'')
       else if would \<and> ea \<and> unreviewed g approved raw
       then retL (command_record h p ''denied: unreviewed command source'')
       else if would
       then bindL (doL (RanCommand raw) (hd_exec h p)) (\<lambda>r.
              retL (ran_record r (command_record h p ''plan_only'')))
       else retL (command_record h p ''plan_only''))"

definition command_step :: "rig \<Rightarrow> hands \<Rightarrow> ladder_in \<Rightarrow> verdict option \<Rightarrow> dict list option ladder" where
  "command_step g h i v =
     (let commands = extract_commands (ladder_blocks i) in
      if commands = [] then retL None
      else bindL (liftL (ordinary (hd_executor h))) (\<lambda>_.
           bindL (mapL (run_command g h (cycle_authority g i v) (li_approved i)) commands) (\<lambda>recs. retL (Some recs))))"

section \<open>Work product and answer\<close>

definition own_session ::
  "rig \<Rightarrow> hands \<Rightarrow> string \<Rightarrow> pyv list \<Rightarrow> (pyv \<Rightarrow> string result) \<Rightarrow> session_summary option ladder" where
  "own_session g h verifier items path_of =
     (if items = [] then retL None
      else let wr = write_enabled (rg_env g);
               cs = map fst (extract_file_changes (rg_fr g) [VDict [(''proposed_file_changes'', VList items)]]) in
        bindL (apply_si_session g h verifier (\<not> wr) cs) (\<lambda>r.
        bindL (mapL (\<lambda>x. liftL (ordinary (path_of x))) items) (\<lambda>ps.
          retL (Some \<lparr>ss_count = length items, ss_applied_changes = ar_applied r,
                      ss_applied = (ar_success r \<and> wr), ss_dry = (\<not> wr), ss_errors = take 5 (ar_errors r),
                      ss_paths = ps\<rparr>))))"

text \<open>\<open>str(c.get("path") or "")\<close>\<close>

definition path_text :: "rig \<Rightarrow> pyv \<Rightarrow> string result" where
  "path_text g c =
     (case c of VDict d \<Rightarrow> Inr (py_str (rg_fr g) (py_or (dict_get d ''path'') (VStr []))) | _ \<Rightarrow> Inl (AttributeError ''get''))"

definition work_step :: "rig \<Rightarrow> hands \<Rightarrow> ladder_in \<Rightarrow> session_summary option ladder" where
  "work_step g h i = own_session g h ''si_v81_work_product'' (li_work i) (\<lambda>_. Inr [])"

definition answer_step :: "rig \<Rightarrow> hands \<Rightarrow> ladder_in \<Rightarrow> session_summary option ladder" where
  "answer_step g h i = own_session g h ''si_v81_answer_product'' (li_answer i) (path_text g)"

section \<open>Artifact runs\<close>

definition reproduction_enabled :: "env \<Rightarrow> bool" where
  "reproduction_enabled e \<longleftrightarrow>
     py_lower (py_strip (getenv e ''AGI_V8_SI_INDEPENDENT_REPRODUCTION_ENABLED'' [])) \<in> {''true'', ''1''}"

definition artifact_authority :: "rig \<Rightarrow> authorization" where
  "artifact_authority g =
     compute_authorization (rg_env g) (rg_sha g) (Some True) (Some True) (write_enabled (rg_env g)) [] False"

definition artifact_record :: "hands \<Rightarrow> string \<Rightarrow> pyv \<Rightarrow> artifact_plan \<Rightarrow> dict" where
  "artifact_record h rel cwd p =
     [(''path'', VStr rel), (''cwd'', cwd), (''allowed'', VBool (ap_allowed p)), (''reason'', VStr (ap_reason p)),
      (''stage4_enabled'', VBool (hd_stage4 h)), (''sandbox'', VStr (hd_mode h)), (''executed'', VBool False),
      (''returncode'', VNone), (''exec_reason'', VStr ''plan_only''), (''stdout_tail'', VStr []),
      (''stderr_tail'', VStr [])]"

definition spill_step :: "rig \<Rightarrow> hands \<Rightarrow> string \<Rightarrow> string \<Rightarrow> string \<Rightarrow> dict \<Rightarrow> dict ladder" where
  "spill_step g h rel stream full rec =
     onL (apply_output_spill (rg_env g) (hd_mkdir h) (ap_root (hd_applier h)) (hd_ts h) (hd_uid h rel stream) rel
            stream full rec)"

definition reproduce_step :: "rig \<Rightarrow> hands \<Rightarrow> artifact_plan \<Rightarrow> run_answer \<Rightarrow> dict \<Rightarrow> dict ladder" where
  "reproduce_step g h p r rec =
     (if ra_executed r \<and> reproduction_enabled (rg_env g)
      then bindL (liftL (ordinary (hd_reproduce h p r))) (\<lambda>answer. retL (case answer of
             None \<Rightarrow> rec
           | Some (good, why) \<Rightarrow> dict_set rec ''independent_reproduction''
               (VDict [(''ok'', VBool good), (''reason'', VStr why)])))
      else retL rec)"

definition executed_artifact ::
  "rig \<Rightarrow> hands \<Rightarrow> string \<Rightarrow> pyv \<Rightarrow> artifact_plan \<Rightarrow> dict \<Rightarrow> dict ladder" where
  "executed_artifact g h rel cwd p rec =
     (let where_to = (if truthy cwd then Some (py_str (rg_fr g) cwd) else None) in
      bindL (doL (RanArtifact rel) (hd_run h p where_to (artifact_authority g))) (\<lambda>r.
      let rec1 = dict_set (dict_set (ran_record r rec) ''stdout_tail'' (VStr (last_n 2000 (ra_stdout r))))
                   ''stderr_tail'' (VStr (last_n 2000 (ra_stderr r))) in
      bindL (spill_step g h rel ''stdout'' (ra_stdout r) rec1) (\<lambda>rec2.
      bindL (spill_step g h rel ''stderr'' (ra_stderr r) rec2) (\<lambda>rec3.
      reproduce_step g h p r rec3))))"

definition artifact_run :: "rig \<Rightarrow> hands \<Rightarrow> pyv \<Rightarrow> dict ladder" where
  "artifact_run g h req =
     (case (if truthy req then req else VDict []) of
        VDict d \<Rightarrow>
          let rel = py_str (rg_fr g) (py_or (dict_get d ''path'') (VStr [])); cwd = dict_get d ''cwd'' in
          bindL (liftL (ordinary (hd_artifact h rel))) (\<lambda>p.
            if hd_stage4 h \<and> ap_allowed p
            then executed_artifact g h rel cwd p (artifact_record h rel cwd p)
            else retL (artifact_record h rel cwd p))
      | _ \<Rightarrow> liftL (Inl (Ordinary (AttributeError ''get''))))"

definition artifact_step ::
  "rig \<Rightarrow> hands \<Rightarrow> ladder_in \<Rightarrow> bool \<Rightarrow> bool \<Rightarrow> dict list option ladder" where
  "artifact_step g h i work_applied main_applied =
     (if li_runs i \<noteq> [] \<and> (work_applied \<or> main_applied)
      then bindL (liftL (ordinary (hd_executor h))) (\<lambda>_.
           bindL (mapL (artifact_run g h) (li_runs i)) (\<lambda>recs. retL (Some recs)))
      else retL None)"

section \<open>The ladder\<close>

definition run_apply_ladder :: "rig \<Rightarrow> hands \<Rightarrow> ladder_in \<Rightarrow> ladder_out ladder" where
  "run_apply_ladder g h i =
     bindL (liftL (verify_step g i)) (\<lambda>v.
     bindL (main_session g h i v) (\<lambda>out.
     bindL (command_step g h i v) (\<lambda>commands.
     bindL (work_step g h i) (\<lambda>work.
     bindL (answer_step g h i) (\<lambda>answer.
     bindL (artifact_step g h i (case work of Some w \<Rightarrow> ss_applied w | None \<Rightarrow> False) (lo_applied out)) (\<lambda>runs.
       retL (out\<lparr>lo_commands := commands, lo_work := work, lo_answer := answer, lo_runs := runs\<rparr>)))))))"

end
