(* ===== verification/LadderProofs.thy ===== *)
theory LadderProofs
  imports ApplyLadder
begin

text \<open>
  What the apply ladder promises, whatever the pods, the proposer and the installed hands do: which
  conditions stand behind every real session, command and artifact run, and that a disarmed ladder
  touches nothing. Next to them, two runs the ladder's own comments rule out.
\<close>

section \<open>What a step does\<close>

text \<open>Every effect of a step has a property, and a step without effects leaves the files alone.\<close>

definition acts :: "(effect \<Rightarrow> bool) \<Rightarrow> 'a ladder \<Rightarrow> bool" where
  "acts Q m \<longleftrightarrow> (\<forall>s. \<exists>xs. ld_did (fst (m s)) = ld_did s @ xs \<and> (\<forall>x \<in> set xs. Q x) \<and>
     (xs = [] \<longrightarrow> ld_fs (fst (m s)) = ld_fs s))"

text \<open>A step that records nothing.\<close>

definition silent :: "'a ladder \<Rightarrow> bool" where
  "silent m \<longleftrightarrow> (\<forall>s. ld_did (fst (m s)) = ld_did s)"

named_theorems acts_intros

lemma acts_pure [acts_intros]: "acts Q (retL a)" "acts Q (liftL r)"
  by (simp_all add: acts_def retL_def liftL_def)

lemma acts_bind_value:
  assumes "acts Q m" "\<And>s s' a. m s = (s', Inr a) \<Longrightarrow> acts Q (f a)"
  shows "acts Q (bindL m f)"
  unfolding acts_def
proof
  fix s
  obtain s1 r where m: "m s = (s1, r)" by fastforce
  obtain xs where xs: "ld_did s1 = ld_did s @ xs" "\<forall>x \<in> set xs. Q x" "xs = [] \<longrightarrow> ld_fs s1 = ld_fs s"
    using assms(1) m unfolding acts_def by (metis fst_conv)
  show "\<exists>xs. ld_did (fst (bindL m f s)) = ld_did s @ xs \<and> (\<forall>x \<in> set xs. Q x) \<and>
      (xs = [] \<longrightarrow> ld_fs (fst (bindL m f s)) = ld_fs s)"
  proof (cases r)
    case (Inr a)
    obtain ys where "ld_did (fst (f a s1)) = ld_did s1 @ ys" "\<forall>x \<in> set ys. Q x"
        "ys = [] \<longrightarrow> ld_fs (fst (f a s1)) = ld_fs s1"
      using assms(2) [of s s1 a] m Inr unfolding acts_def by blast
    then show ?thesis using xs by (intro exI [of _ "xs @ ys"]) (auto simp: bindL_def m Inr)
  qed (use xs in \<open>auto simp: bindL_def m\<close>)
qed

lemma acts_bind [acts_intros]: "acts Q m \<Longrightarrow> (\<And>a. acts Q (f a)) \<Longrightarrow> acts Q (bindL m f)"
  by (rule acts_bind_value)

lemma acts_lift [acts_intros]: "(\<And>a. r = Inr a \<Longrightarrow> acts Q (f a)) \<Longrightarrow> acts Q (bindL (liftL r) f)"
  by (cases r) (simp_all add: acts_def bindL_def liftL_def)

lemma acts_map: "(\<And>x. x \<in> set xs \<Longrightarrow> acts Q (f x)) \<Longrightarrow> acts Q (mapL f xs)"
  by (induction xs) (auto intro!: acts_intros)

lemma acts_do: "Q x \<Longrightarrow> acts Q (doL x f)"
  by (auto simp: acts_def doL_def onL_def split: prod.splits)

lemma acts_do_silent:
  assumes "Q x" "\<And>a. silent (f a)"
  shows "acts Q (bindL (doL x h) f)"
proof -
  have "ld_did (fst (bindL (doL x h) f s)) = ld_did s @ [x]" for s
    using assms(2) by (auto simp: bindL_def doL_def onL_def silent_def ordinary_def split: prod.splits sum.splits)
  then show ?thesis using assms(1) by (auto simp: acts_def)
qed

lemma silent_bind: "silent m \<Longrightarrow> (\<And>a. silent (f a)) \<Longrightarrow> silent (bindL m f)"
  by (auto simp: silent_def bindL_def split: prod.splits sum.splits) (metis fst_conv)+

lemma silent_pure: "silent (retL a)" "silent (liftL r)" "silent (onL f')"
  by (auto simp: silent_def retL_def liftL_def onL_def split: prod.splits)

lemma acts_mono: "acts P m \<Longrightarrow> (\<And>x. P x \<Longrightarrow> Q x) \<Longrightarrow> acts Q m"
  unfolding acts_def by blast

section \<open>The parts of the ladder\<close>

lemma session_acts:
  assumes "\<not> dry \<Longrightarrow> Q (Wrote who cs)"
  shows "acts Q (apply_si_session g h who dry cs)"
proof (cases dry)
  case True
  have "s_fs (fst (apply_session e w ((hd_applier h)\<lparr>ap_dry := True\<rparr>) (fresh_sess fs) cs)) = fs" for e w fs
    using dry_session_is_inert [OF prod.collapse [symmetric], of "(hd_applier h)\<lparr>ap_dry := True\<rparr>" e w "fresh_sess fs" cs]
    by (simp add: fresh_sess_def)
  then show ?thesis using True
    by (auto simp: apply_si_session_def acts_def onL_def split: prod.splits) (metis fst_conv)
next
  case False
  then show ?thesis using assms acts_do [of Q "Wrote who cs"] by (simp add: apply_si_session_def)
qed

text \<open>What stands behind an effect.\<close>

definition verified :: "rig \<Rightarrow> ladder_in \<Rightarrow> bool" where
  "verified g i \<longleftrightarrow> holds (verify_step g i) verify_pass"

definition command_open :: "rig \<Rightarrow> hands \<Rightarrow> ladder_in \<Rightarrow> string \<Rightarrow> bool" where
  "command_open g h i c \<longleftrightarrow>
     hd_seam h \<and> hd_armed h \<and> holds (hd_plan h c) pl_allowed \<and> c \<in> set (extract_commands (ladder_blocks i)) \<and>
     (execution_authority_enabled (rg_env g) \<longrightarrow>
        consensus_of i \<and> verified g i \<and> \<not> unreviewed g (li_approved i) c)"

definition write_open :: "rig \<Rightarrow> ladder_in \<Rightarrow> string \<Rightarrow> change list \<Rightarrow> bool" where
  "write_open g i who cs \<longleftrightarrow>
     write_enabled (rg_env g) \<and>
     (who = ''si_v81'' \<longrightarrow> consensus_of i \<and> verified g i \<and> cs = map fst (ladder_changes g i)) \<and>
     (who = ''si_v81'' \<or> who = ''si_v81_work_product'' \<or> who = ''si_v81_answer_product'')"

fun backed :: "rig \<Rightarrow> hands \<Rightarrow> ladder_in \<Rightarrow> effect \<Rightarrow> bool" where
  "backed g h i (Wrote who cs) = write_open g i who cs"
| "backed g h i (RanCommand c) = command_open g h i c"
| "backed g h i (RanArtifact p) = (write_enabled (rg_env g) \<and> hd_stage4 h \<and> holds (hd_artifact h p) ap_allowed)"

lemma main_acts:
  assumes "verify_step g i = Inr v"
  shows "acts (backed g h i) (main_session g h i v)"
  unfolding main_session_def Let_def
  by (intro acts_bind acts_pure session_acts)
    (use assms in \<open>auto simp: real_write_def write_open_def verified_def\<close>)

lemma command_acts:
  assumes "verify_step g i = Inr v"
  shows "acts (backed g h i) (command_step g h i v)"
proof -
  have "acts (backed g h i) (run_command g h (cycle_authority g i v) (li_approved i) c)"
    if c: "c \<in> set (extract_commands (ladder_blocks i))" for c
    unfolding run_command_def
  proof (rule acts_lift, simp only: Let_def ordinary_eq)
    fix p assume "hd_plan h c = Inr p"
    then have "\<not> (execution_authority_enabled (rg_env g) \<and> \<not> a_command_exec (cycle_authority g i v)) \<Longrightarrow>
        \<not> (execution_authority_enabled (rg_env g) \<and> unreviewed g (li_approved i) c) \<Longrightarrow>
        hd_seam h \<and> hd_armed h \<and> pl_allowed p \<Longrightarrow> command_open g h i c"
      using assms c
      by (auto simp: command_open_def cycle_authority_def compute_authorization_def Let_def verified_def)
    then show "acts (backed g h i) (if (hd_seam h \<and> hd_armed h \<and> pl_allowed p) \<and> execution_authority_enabled (rg_env g) \<and>
          \<not> a_command_exec (cycle_authority g i v)
       then retL (command_record h p ''denied: execution_authority (consensus/verify_pass)'')
       else if (hd_seam h \<and> hd_armed h \<and> pl_allowed p) \<and> execution_authority_enabled (rg_env g) \<and>
          unreviewed g (li_approved i) c
       then retL (command_record h p ''denied: unreviewed command source'')
       else if hd_seam h \<and> hd_armed h \<and> pl_allowed p
       then bindL (doL (RanCommand c) (hd_exec h p)) (\<lambda>r. retL (ran_record r (command_record h p ''plan_only'')))
       else retL (command_record h p ''plan_only''))"
      by (auto intro!: acts_bind acts_pure acts_do)
  qed
  then show ?thesis unfolding command_step_def Let_def
    by (auto intro!: acts_bind acts_pure acts_map)
qed

lemma own_acts:
  assumes "write_enabled (rg_env g) \<Longrightarrow> \<forall>cs. Q (Wrote who cs)"
  shows "acts Q (own_session g h who items path_of)"
  using assms unfolding own_session_def Let_def
  by (auto intro!: acts_bind acts_pure acts_map session_acts)

lemma run_acts:
  assumes "write_enabled (rg_env g)"
  shows "acts (backed g h i) (artifact_run g h req)"
proof -
  have quiet: "silent (spill_step g h rel stream full rec)" "silent (reproduce_step g h p r rec)" for rel stream full rec p r
    by (auto simp: spill_step_def reproduce_step_def intro!: silent_pure silent_bind)
  have run: "acts (backed g h i) (executed_artifact g h rel cwd p rec)"
    if "hd_artifact h rel = Inr p" "hd_stage4 h" "ap_allowed p" for rel cwd p rec
    unfolding executed_artifact_def Let_def
    by (rule acts_do_silent) (use that assms in \<open>auto intro!: silent_bind quiet\<close>)
  show ?thesis
    by (auto simp: artifact_run_def Let_def intro!: acts_lift acts_pure run split: pyv.splits)
qed

lemma artifact_acts:
  assumes "work_applied \<or> main_applied \<Longrightarrow> write_enabled (rg_env g)"
  shows "acts (backed g h i) (artifact_step g h i work_applied main_applied)"
proof (cases "li_runs i \<noteq> [] \<and> (work_applied \<or> main_applied)")
  case True
  have "acts (backed g h i) (mapL (artifact_run g h) (li_runs i))"
    using True assms by (intro acts_map run_acts) blast
  then show ?thesis unfolding artifact_step_def if_P [OF True] by (intro acts_bind acts_pure)
qed (auto simp: artifact_step_def acts_pure)

lemma main_applied: "main_session g h i v s = (s', Inr out) \<Longrightarrow> lo_applied out \<Longrightarrow> write_enabled (rg_env g)"
  by (auto simp: main_session_def bindL_def retL_def real_write_def Let_def split: prod.splits sum.splits)

lemma work_applied: "work_step g h i s = (s', Inr (Some w)) \<Longrightarrow> ss_applied w \<Longrightarrow> write_enabled (rg_env g)"
  by (auto simp: work_step_def own_session_def bindL_def retL_def Let_def split: prod.splits sum.splits if_splits)

lemma ladder_acts: "acts (backed g h i) (run_apply_ladder g h i)"
  unfolding run_apply_ladder_def
proof (rule acts_lift)
  fix v assume v: "verify_step g i = Inr v"
  have work: "acts (backed g h i) (work_step g h i)" "acts (backed g h i) (answer_step g h i)"
    unfolding work_step_def answer_step_def by (rule own_acts, simp add: write_open_def)+
  have last: "acts (backed g h i) (artifact_step g h i (case w of Some w \<Rightarrow> ss_applied w | None \<Rightarrow> False) (lo_applied out))"
    if "main_session g h i v s1 = (s1', Inr out)" "work_step g h i s2 = (s2', Inr w)" for s1 s1' out s2 s2' w
    using that main_applied work_applied by (intro artifact_acts) (auto split: option.splits)
  show "acts (backed g h i) (bindL (main_session g h i v) (\<lambda>out.
     bindL (command_step g h i v) (\<lambda>commands.
     bindL (work_step g h i) (\<lambda>work.
     bindL (answer_step g h i) (\<lambda>answer.
     bindL (artifact_step g h i (case work of Some w \<Rightarrow> ss_applied w | None \<Rightarrow> False) (lo_applied out)) (\<lambda>runs.
       retL (out\<lparr>lo_commands := commands, lo_work := work, lo_answer := answer, lo_runs := runs\<rparr>)))))))"
    by (rule acts_bind_value [OF main_acts [OF v]], rule acts_bind [OF command_acts [OF v]],
        rule acts_bind_value [OF work(1)], rule acts_bind [OF work(2)], rule acts_bind)
      (rule last, assumption+, rule acts_pure)
qed

lemma ladder_effect:
  assumes "run_apply_ladder g h i \<lparr>ld_fs = fs, ld_did = []\<rparr> = (s, r)" "x \<in> set (ld_did s)"
  shows "backed g h i x"
proof -
  have "\<exists>xs. ld_did s = [] @ xs \<and> (\<forall>x \<in> set xs. backed g h i x)"
    using ladder_acts [of g h i] assms(1) unfolding acts_def by (metis fst_conv lad.select_convs(2))
  then show ?thesis using assms(2) by auto
qed

section \<open>Properties\<close>

text \<open>The changes of the cycle were judged, the second opinion not skipped, if there were any and judging
  was asked for, and passed.\<close>

definition judged :: "rig \<Rightarrow> ladder_in \<Rightarrow> bool" where
  "judged g i \<longleftrightarrow>
     (li_run_verify i \<and> ladder_changes g i \<noteq> [] \<longrightarrow>
        (\<exists>v. run_verify_stage g (li_rubric i) (li_confirmation i) None (ladder_changes g i) = Inr v \<and> vd_ok v))"

lemma verified_judged:
  assumes "verified g i" "consensus_of i"
  shows "judged g i"
proof -
  obtain v where v: "verify_step g i = Inr v" "verify_pass v" using assms(1) unfolding verified_def by (rule holdsE)
  then show ?thesis using assms(2)
    by (cases "li_run_verify i \<and> ladder_changes g i \<noteq> []") (auto simp: verify_step_def judged_def verify_pass_def Let_def)
qed



text \<open>With the write switch off and the command seam closed or unarmed the ladder changes no file
  and calls none of the installed hands, whatever it is given and whatever the verify stage says.\<close>

theorem disarmed_ladder_is_inert:
  assumes "run_apply_ladder g h i \<lparr>ld_fs = fs, ld_did = []\<rparr> = (s, r)"
    and "\<not> write_enabled (rg_env g)" "\<not> (hd_seam h \<and> hd_armed h)"
  shows "ld_fs s = fs \<and> ld_did s = []"
proof -
  have "ld_did s = []"
  proof (rule ccontr)
    assume "ld_did s \<noteq> []"
    then obtain x where "x \<in> set (ld_did s)" by (cases "ld_did s") auto
    then have "backed g h i x" by (rule ladder_effect [OF assms(1)])
    then show False using assms(2,3) by (cases x) (auto simp: write_open_def command_open_def)
  qed
  moreover have "\<exists>xs. ld_did s = [] @ xs \<and> (xs = [] \<longrightarrow> ld_fs s = fs)"
    using ladder_acts [of g h i] assms(1) unfolding acts_def by (metis fst_conv lad.select_convs)
  ultimately show ?thesis by auto
qed

text \<open>The digest comparison never fires: the verdict carries the digest of the changes it is compared with.\<close>

lemma digest_never_mismatches:
  "verify_step g i = Inr v \<Longrightarrow> \<not> digest_mismatch g v (ladder_changes g i)"
  using verdict_digest
  by (fastforce simp: verify_step_def digest_mismatch_def Let_def split: if_splits option.splits)

section \<open>Concrete runs\<close>

definition armed_env :: env where
  "armed_env = no_env(''AGI_V8_SAFE_AUTO_APPLY_ENABLED'' \<mapsto> ''true'', ''AGI_V8_SAFE_AUTO_APPLY_WRITE_ENABLED'' \<mapsto> ''true'')"

text \<open>A verify stage whose gate answers \<open>good\<close>, with a regression reported or not.\<close>

definition demo_rig :: "env \<Rightarrow> bool \<Rightarrow> bool \<Rightarrow> rig" where
  "demo_rig e good emergency =
     \<lparr>rg_env = e, rg_fr = (\<lambda>_. []), rg_sha = demo_hash, rg_halt = Inr (), rg_emergency = (\<lambda>_. Inr emergency),
      rg_gate = (\<lambda>_. Inr \<lparr>ga_ok = good, ga_reason = ''ran'', ga_tests = 1\<rparr>), rg_confirmed = (\<lambda>_ _. Inr None),
      rg_adversary = (\<lambda>_. Inr (None, ''none'')), rg_evaluate = (\<lambda>_ _ _. Inr VerifierUnavailable),
      rg_left = (\<lambda>_. VNone), rg_sandbox = (\<lambda>_ _ _. SandboxUnavailable),
      rg_no_sandbox = (\<lambda>_. \<lparr>tm_stub = True, tm_stub_reason = [], tm_exit = -1, tm_failed = 0, tm_row = []\<rparr>),
      rg_axes = (\<lambda>_ _. Inr VNone)\<rparr>"

definition demo_run :: run_answer where
  "demo_run = \<lparr>ra_executed = True, ra_returncode = VInt 0, ra_reason = ''ran'', ra_stdout = [], ra_stderr = []\<rparr>"

text \<open>Hands whose real session is the engine itself, and whose plans allow everything.\<close>

definition demo_hands :: "env \<Rightarrow> bool \<Rightarrow> hands" where
  "demo_hands e armed =
     \<lparr>hd_world = demo_world [], hd_applier = demo_applier,
      hd_real = (\<lambda>_ cs fs. let (st, r) = apply_session e (demo_world []) demo_applier (fresh_sess fs) cs in (s_fs st, r)),
      hd_executor = Inr (), hd_seam = armed, hd_armed = armed, hd_stage4 = armed, hd_mode = ''bwrap'',
      hd_mask = (\<lambda>s. s),
      hd_plan = (\<lambda>c. Inr \<lparr>pl_raw = c, pl_argv = [c], pl_allowed = True, pl_category = ''read_only'',
                         pl_reason = [], pl_read_only = True\<rparr>),
      hd_exec = (\<lambda>_ fs. (fs, Inr demo_run)),
      hd_artifact = (\<lambda>p. Inr \<lparr>ap_allowed = True, ap_reason = [], ap_source = p, ap_sha = [], ap_args = []\<rparr>),
      hd_run = (\<lambda>_ _ _ fs. (fs, Inr demo_run)), hd_reproduce = (\<lambda>_ _. Inr None), hd_mkdir = Inr (),
      hd_ts = ''t'', hd_uid = (\<lambda>_ _. ''u'')\<rparr>"

definition demo_change :: "string \<Rightarrow> string \<Rightarrow> string \<Rightarrow> pyv" where
  "demo_change a p c = VDict [(''path'', VStr p), (''action'', VStr a), (''content'', VStr c)]"

definition demo_in :: "pyv list \<Rightarrow> pyv list \<Rightarrow> pyv list \<Rightarrow> pyv list \<Rightarrow> ladder_in" where
  "demo_in changes commands work runs =
     \<lparr>li_status = ''consensus'', li_pod_a = VNone, li_pod_b = VNone, li_rubric = VDict [], li_run_verify = True,
      li_changes = changes, li_commands = commands, li_runs = runs, li_work = work, li_answer = [],
      li_approved = None, li_confirmation = None\<rparr>"

definition demo_start :: lad where "demo_start = \<lparr>ld_fs = demo_fs ''one'', ld_did = []\<rparr>"

definition edit_a :: ladder_in where
  "edit_a = demo_in [demo_change ''edit'' ''a'' ''new''] [VStr ''ls''] [] []"

lemma edit_a_run:
  "ld_did (fst (run_apply_ladder (demo_rig armed_env True False) (demo_hands armed_env True) edit_a demo_start)) =
     [Wrote ''si_v81'' [mk_change ''edit'' ''a'' ''new''\<lparr>ch_position := ''after''\<rparr>], RanCommand ''ls'']"
  by code_simp

text \<open>A cycle without file changes has nothing to verify, and its commands run, whatever regression is
  reported: the verify stage is not asked.\<close>

lemma commands_run_unverified:
  "ld_did (fst (run_apply_ladder (demo_rig armed_env False True) (demo_hands armed_env True)
     (demo_in [] [VStr ''ls''] [] []) demo_start)) = [Wrote ''si_v81'' [], RanCommand ''ls'']"
  by code_simp

text \<open>The work product is refused, the cycle's own change lands, and the artifact that was not written is
  run: what runs is the file of an earlier cycle.\<close>

definition stale_in :: ladder_in where
  "stale_in = demo_in [demo_change ''edit'' ''a'' ''new''] [] [demo_change ''create'' ''/etc/w.py'' ''x'']
     [VDict [(''path'', VStr ''w.py'')]]"

lemma stale_artifact_runs:
  "(case run_apply_ladder (demo_rig armed_env True False) (demo_hands armed_env True) stale_in demo_start of
      (s, Inr out) \<Rightarrow> RanArtifact ''w.py'' \<in> set (ld_did s) \<and>
        (case lo_work out of Some w \<Rightarrow> \<not> ss_applied w | None \<Rightarrow> False)
    | _ \<Rightarrow> False)"
  by code_simp



theorem disarmed_ladder_is_inert_witness:
  "ld_fs (fst (run_apply_ladder (demo_rig no_env True False) (demo_hands no_env False) edit_a demo_start)) = demo_fs ''one''"
proof -
  let ?run = "run_apply_ladder (demo_rig no_env True False) (demo_hands no_env False) edit_a demo_start"
  have "\<not> write_enabled (rg_env (demo_rig no_env True False))" by code_simp
  moreover have "\<not> (hd_seam (demo_hands no_env False) \<and> hd_armed (demo_hands no_env False))" by code_simp
  ultimately show ?thesis
    using disarmed_ladder_is_inert [OF prod.collapse [of ?run, symmetric, unfolded demo_start_def], folded demo_start_def]
    by blast
qed

end
