(* ===== verification/SandboxReceipt.thy ===== *)
theory SandboxReceipt
  imports PathGuard TierToken LineEdits JsonText TickAuth
begin

text \<open>
  The result of a sandbox run and the receipt that proves who wrote it (\<open>core/sandbox_runner.py\<close>): the
  keys and the list of reviewed harnesses outside the jail, the material of one call, the check of a
  signed row, and the parse of the envelope. The keyed hash, the hash, the masker of tails, the JSON
  decoder and the nonce are parameters.
\<close>

section \<open>Telemetry\<close>

definition stub_status :: "(string \<times> string) list" where
  "stub_status =
     [(''disabled'', ''NOT_CONFIGURED''), (''payload_unavailable'', ''INFRA_UNAVAILABLE''),
      (''docker_missing'', ''INFRA_UNAVAILABLE''), (''docker_unavailable'', ''INFRA_UNAVAILABLE''),
      (''docker_endpoint_untrusted'', ''INFRA_UNAVAILABLE''), (''image_missing'', ''INFRA_UNAVAILABLE''),
      (''no_isolation_available'', ''INFRA_UNAVAILABLE''), (''image_untrusted'', ''INFRA_UNAVAILABLE''),
      (''invalid_config'', ''EVALUATOR_ERROR''), (''input_rejected'', ''EVALUATOR_ERROR''),
      (''container_failed'', ''EVALUATOR_ERROR''), (''invalid_envelope'', ''EVALUATOR_ERROR''),
      (''exception'', ''EVALUATOR_ERROR''), (''worktree_unavailable'', ''EVALUATOR_ERROR''),
      (''receipt_untrusted'', ''EVALUATOR_ERROR''), (''timeout'', ''CANDIDATE_TIMEOUT'')]"

definition stub_reasons :: "string list" where
  "stub_reasons =
     [''disabled'', ''payload_unavailable'', ''docker_missing'', ''docker_unavailable'', ''docker_endpoint_untrusted'',
      ''image_missing'', ''invalid_config'', ''input_rejected'', ''container_failed'', ''invalid_envelope'', ''timeout'',
      ''exception'', ''no_isolation_available'', ''worktree_unavailable'', ''image_untrusted'', ''receipt_untrusted'']"

definition sandbox_status_enabled :: "env \<Rightarrow> bool" where
  "sandbox_status_enabled e \<longleftrightarrow>
     py_lower (py_strip (getenv e ''AGI_V8_SANDBOX_STATUS_ENABLED'' ''true'')) \<notin> {''false'', ''0''}"

definition status_for_stub_reason :: "string \<Rightarrow> string result" where
  "status_for_stub_reason r = (case map_of stub_status r of Some s \<Rightarrow> Inr s | None \<Rightarrow> Inl (KeyError r))"

record telem =
  te_stub :: bool
  te_reason :: string
  te_status :: string
  te_exit :: int
  te_wall :: rat
  te_rss :: rat
  te_ruff_warnings :: int
  te_ruff_errors :: int
  te_mypy :: int
  te_passed :: int
  te_failed :: int
  te_stderr :: string
  te_image :: string
  te_lane :: string
  te_backend :: string
  te_verified :: bool

text \<open>The call every row is made for: lane, image and back end; \<open>tl\<close> masks and cuts a tail.\<close>

record slot =
  sl_env :: env
  sl_tail :: "string \<Rightarrow> string"
  sl_lane :: string
  sl_image :: string
  sl_backend :: string

definition stub_row :: "slot \<Rightarrow> string \<Rightarrow> rat \<Rightarrow> string \<Rightarrow> int \<Rightarrow> telem result" where
  "stub_row sl reason wall err code =
     (if reason \<notin> set stub_reasons then Inl (ValueError (''unknown stub_reason: '' @ reason))
      else bindR (if sandbox_status_enabled (sl_env sl) then status_for_stub_reason reason else Inr []) (\<lambda>st.
        Inr \<lparr>te_stub = True, te_reason = reason, te_status = st, te_exit = code, te_wall = wall, te_rss = 0,
             te_ruff_warnings = 0, te_ruff_errors = 0, te_mypy = 0, te_passed = 0, te_failed = 0,
             te_stderr = sl_tail sl err, te_image = sl_image sl, te_lane = sl_lane sl,
             te_backend = sl_backend sl, te_verified = False\<rparr>))"

definition stub :: "slot \<Rightarrow> string \<Rightarrow> string \<Rightarrow> int \<Rightarrow> telem result" where
  "stub sl reason err code = stub_row sl reason 0 err code"

section \<open>Keys and reviewed harnesses\<close>

definition grade_receipt_enabled :: "env \<Rightarrow> bool" where
  "grade_receipt_enabled e = gate_strict e ''AGI_V8_SANDBOX_GRADE_RECEIPT_ENABLED''"

definition protocol :: string where "protocol = ''AGI_V8_GRADE_RECEIPT_V1''"
definition mac_domain :: string where "mac_domain = ''agi_v8/grade_receipt/v1''"

definition signed_fields :: "string list" where
  "signed_fields =
     [''protocol'', ''key_id'', ''nonce'', ''code_sha256'', ''test_sha256'', ''cand_stdout_sha256'', ''exit_code'',
      ''cand_rc'', ''sup_child_rc'', ''runner_rc'', ''pytest_passed'', ''pytest_failed'', ''collect_errors'',
      ''pytest_status'', ''harness_self_sha256'']"

text \<open>Where the files are: the checkout, the working directory and the homes.\<close>

record place =
  pc_repo :: "string list"
  pc_cwd :: "string list"
  pc_home :: "string \<Rightarrow> string option"

definition receipt_path :: "env \<Rightarrow> place \<Rightarrow> string \<Rightarrow> string \<Rightarrow> string list result" where
  "receipt_path e pc name dflt =
     (let raw = py_strip (getenv e name []) in
      bindR (path_expanduser (pc_home pc) (parse (if raw = [] then dflt else raw))) (\<lambda>p.
        Inr (absolute_comps (pc_cwd pc) p)))"

definition outside_jail :: "place \<Rightarrow> string fs \<Rightarrow> string list \<Rightarrow> bool" where
  "outside_jail pc fs p \<longleftrightarrow> \<not> prefix (pc_repo pc) (resolve fs p)"

text \<open>A file's mode and text, links followed.\<close>

definition read_file :: "string fs \<Rightarrow> string list \<Rightarrow> (nat \<times> string) result" where
  "read_file fs p =
     (case fs (render (resolve fs p)) of
        Some (Reg mode c) \<Rightarrow> Inr (mode, universal c)
      | Some Dir \<Rightarrow> Inl (OSError ''EISDIR'')
      | Some (Link _) \<Rightarrow> Inl (OSError ''ELOOP'')
      | None \<Rightarrow> Inl (FileNotFound ''ENOENT''))"

fun words_acc :: "string \<Rightarrow> string \<Rightarrow> string list" where
  "words_acc w [] = (if w = [] then [] else [w])"
| "words_acc w (c # cs) =
     (if py_space c then (if w = [] then words_acc [] cs else w # words_acc [] cs) else words_acc (w @ [c]) cs)"

definition key_id_ok :: "string \<Rightarrow> bool" where
  "key_id_ok s \<longleftrightarrow> s \<noteq> [] \<and> length s \<le> 64 \<and> list_all slug_char s"

definition key_line :: "string \<Rightarrow> (string \<times> string) option" where
  "key_line l =
     (let s = py_strip l in
      if s = [] \<or> take 1 s = ''#'' then None
      else case words_acc [] s of
        [i, k] \<Rightarrow> if key_id_ok i \<and> lower_hex 64 (py_lower k) then Some (i, py_lower k) else None
      | _ \<Rightarrow> None)"

text \<open>The first line of a key id counts.\<close>

fun keep_first :: "(string \<times> string) list \<Rightarrow> (string \<times> string) list \<Rightarrow> (string \<times> string) list" where
  "keep_first ks [] = ks"
| "keep_first ks ((i, k) # rest) = keep_first (if map_of ks i = None then ks @ [(i, k)] else ks) rest"

definition key_file :: string where "key_file = ''AGI_V8_SANDBOX_RECEIPT_KEY_FILE''"
definition allowlist_file :: string where "allowlist_file = ''AGI_V8_SANDBOX_RECEIPT_HARNESS_ALLOWLIST_FILE''"

text \<open>The keys, or the refusal by name. A read that fails is swallowed.\<close>

definition load_receipt_keys :: "env \<Rightarrow> place \<Rightarrow> string fs \<Rightarrow> (string + (string \<times> string) list) result" where
  "load_receipt_keys e pc fs =
     bindR (receipt_path e pc key_file ''~/.config/agi_v8/sandbox_receipt_keys'') (\<lambda>p.
     if \<not> outside_jail pc fs p then Inr (Inl ''receipt_key_in_jail'')
     else case read_file fs p of
       Inl x \<Rightarrow> absorb e x (Inl ''receipt_key_unavailable'')
     | Inr (mode, text) \<Rightarrow>
         if mode mod 64 \<noteq> 0 then Inr (Inl ''receipt_key_permissive'')
         else let ks = keep_first [] (List.map_filter key_line (splitlines text)) in
              Inr (if ks = [] then Inl ''receipt_key_unavailable'' else Inr ks))"

definition allow_line :: "string \<Rightarrow> string option" where
  "allow_line l =
     (let s = py_lower (py_strip (takeWhile (\<lambda>c. c \<noteq> CHR ''#'') l)) in if lower_hex 64 s then Some s else None)"

definition load_harness_allowlist :: "env \<Rightarrow> place \<Rightarrow> string fs \<Rightarrow> (string + string list) result" where
  "load_harness_allowlist e pc fs =
     bindR (receipt_path e pc allowlist_file ''~/.config/agi_v8/sandbox_harness_allowlist'') (\<lambda>p.
     if \<not> outside_jail pc fs p then Inr (Inl ''receipt_key_in_jail'')
     else case read_file fs p of
       Inl x \<Rightarrow> absorb e x (Inl ''receipt_allowlist_unavailable'')
     | Inr (mode, text) \<Rightarrow>
         let ds = List.map_filter allow_line (splitlines text) in
         Inr (if ds = [] then Inl ''receipt_allowlist_unavailable'' else Inr ds))"

section \<open>One call\<close>

record receipt_ctx =
  rc_nonce :: string
  rc_key_id :: string
  rc_keys :: "(string \<times> string) list"
  rc_allowlist :: "string list"
  rc_code :: string
  rc_test :: string
  rc_stdin :: string

definition build_receipt_context ::
  "env \<Rightarrow> place \<Rightarrow> string fs \<Rightarrow> (string \<Rightarrow> string) \<Rightarrow> string \<Rightarrow> string \<Rightarrow> string option \<Rightarrow> (string + receipt_ctx) result" where
  "build_receipt_context e pc fs sha nonce code test =
     bindR (load_receipt_keys e pc fs) (\<lambda>ks. case ks of Inl why \<Rightarrow> Inr (Inl why) | Inr keys \<Rightarrow>
     bindR (load_harness_allowlist e pc fs) (\<lambda>al. case al of Inl why \<Rightarrow> Inr (Inl why) | Inr allow \<Rightarrow>
       let (i, k) = hd keys in
       Inr (Inr \<lparr>rc_nonce = nonce, rc_key_id = i, rc_keys = keys, rc_allowlist = allow, rc_code = sha code,
                 rc_test = (case test of None \<Rightarrow> [] | Some t \<Rightarrow> sha t),
                 rc_stdin = protocol @ '' '' @ nonce @ '' '' @ i @ '' '' @ k @ [lf]\<rparr>)))"

definition receipt_text :: "string list \<Rightarrow> string" where
  "receipt_text vs = join [lf] (mac_domain # vs)"

definition receipt_mac :: "keyed_hash \<Rightarrow> string \<Rightarrow> string list \<Rightarrow> string" where
  "receipt_mac mac key vs = mac key (receipt_text vs)"

text \<open>The signed fields in order, or the first that is no text.\<close>

fun signed_values :: "dict \<Rightarrow> string list \<Rightarrow> string list option" where
  "signed_values d [] = Some []"
| "signed_values d (f # fs) =
     (case dict_get d f of
        VStr s \<Rightarrow> map_option (\<lambda>vs. s # vs) (signed_values d fs)
      | _ \<Rightarrow> None)"

definition field_of :: "string list \<Rightarrow> string \<Rightarrow> string" where
  "field_of vs f = (case map_of (zip signed_fields vs) f of Some v \<Rightarrow> v | None \<Rightarrow> [])"

definition counted_fields :: "string list" where
  "counted_fields = [''exit_code'', ''pytest_passed'', ''pytest_failed'', ''pytest_status'']"

text \<open>The empty text accepts; anything else names the refusal.\<close>

definition check_receipt ::
  "keyed_hash \<Rightarrow> (rat \<Rightarrow> string) \<Rightarrow> receipt_ctx \<Rightarrow> dict \<Rightarrow> string list \<Rightarrow> string \<Rightarrow> string" where
  "check_receipt mac fr ctx envelope vs m =
     (if \<not> lower_hex 64 m then ''receipt_malformed''
      else if field_of vs ''protocol'' \<noteq> protocol then ''receipt_protocol_mismatch''
      else case map_of (rc_keys ctx) (field_of vs ''key_id'') of
        None \<Rightarrow> ''receipt_key_unknown''
      | Some key \<Rightarrow>
          if receipt_mac mac key vs \<noteq> m then ''receipt_mac_mismatch''
          else if \<not> lower_hex 32 (field_of vs ''nonce'') then ''receipt_malformed''
          else if field_of vs ''nonce'' \<noteq> rc_nonce ctx \<or> field_of vs ''code_sha256'' \<noteq> rc_code ctx \<or>
                  field_of vs ''test_sha256'' \<noteq> rc_test ctx then ''receipt_context_mismatch''
          else if list_ex (\<lambda>f. py_str fr (dict_get envelope f) \<noteq> field_of vs f) counted_fields
          then ''receipt_envelope_mismatch''
          else if py_lower (field_of vs ''harness_self_sha256'') \<notin> set (rc_allowlist ctx)
          then ''receipt_harness_not_allowlisted'' else [])"

definition verify_grade_receipt ::
  "keyed_hash \<Rightarrow> (rat \<Rightarrow> string) \<Rightarrow> receipt_ctx \<Rightarrow> dict \<Rightarrow> string" where
  "verify_grade_receipt mac fr ctx envelope =
     (case dict_get envelope ''grade_receipt'' of
        VDict receipt \<Rightarrow>
          (case signed_values receipt signed_fields of
             None \<Rightarrow> ''receipt_malformed''
           | Some vs \<Rightarrow>
               (case dict_get receipt ''mac'' of
                  VStr m \<Rightarrow> check_receipt mac fr ctx envelope vs m
                | _ \<Rightarrow> ''receipt_malformed''))
      | _ \<Rightarrow> ''receipt_missing'')"

section \<open>The envelope\<close>

text \<open>\<open>None\<close> where the field is no usable number.\<close>

definition as_int :: "env \<Rightarrow> dict \<Rightarrow> string \<Rightarrow> int option result" where
  "as_int e d k =
     (case dict_get d k of
        VBool _ \<Rightarrow> Inr None
      | v \<Rightarrow> (case py_int v of Inr i \<Rightarrow> Inr (Some i) | Inl x \<Rightarrow> absorb e x None))"

definition as_float :: "env \<Rightarrow> dict \<Rightarrow> string \<Rightarrow> rat option result" where
  "as_float e d k =
     (case dict_get d k of
        VBool _ \<Rightarrow> Inr None
      | v \<Rightarrow> (case py_float v of Inr r \<Rightarrow> Inr (Some r) | Inl x \<Rightarrow> absorb e x None))"

text \<open>The fields in order, or the name of the first that is unusable.\<close>

fun fields_with :: "(string \<Rightarrow> 'a option result) \<Rightarrow> string list \<Rightarrow> (string + 'a list) result" where
  "fields_with f [] = Inr (Inr [])"
| "fields_with f (k # ks) =
     bindR (f k) (\<lambda>v. case v of
        None \<Rightarrow> Inr (Inl k)
      | Some a \<Rightarrow> bindR (fields_with f ks) (\<lambda>r. Inr (map_sum id (\<lambda>as. a # as) r)))"

definition int_keys :: "string list" where
  "int_keys = [''exit_code'', ''ruff_warnings'', ''ruff_errors'', ''mypy_errors'', ''pytest_passed'', ''pytest_failed'']"

definition float_keys :: "string list" where "float_keys = [''wall_clock_sec'', ''peak_rss_mb'']"

definition missing_field :: string where "missing_field = ''invalid or missing envelope field: ''"

definition measured_row ::
  "slot \<Rightarrow> (rat \<Rightarrow> string) \<Rightarrow> bool \<Rightarrow> int \<Rightarrow> dict \<Rightarrow> int list \<Rightarrow> rat list \<Rightarrow> telem result" where
  "measured_row sl fr verified rc d is rs =
     (if is ! 0 < 0 \<or> 255 < is ! 0 then stub sl ''invalid_envelope'' ''exit_code out of bounds'' rc
      else if list_ex (\<lambda>i. i < 0) (tl is) then stub sl ''invalid_envelope'' ''negative count in envelope'' rc
      else if list_ex (\<lambda>r. r < 0) rs then stub sl ''invalid_envelope'' ''negative float in envelope'' rc
      else Inr \<lparr>te_stub = False, te_reason = [],
           te_status = (if sandbox_status_enabled (sl_env sl)
                        then if is ! 0 = 0 \<and> is ! 5 = 0 then ''PASS'' else ''CANDIDATE_FAIL'' else []),
           te_exit = is ! 0, te_wall = rs ! 0, te_rss = rs ! 1, te_ruff_warnings = is ! 1,
           te_ruff_errors = is ! 2, te_mypy = is ! 3, te_passed = is ! 4, te_failed = is ! 5,
           te_stderr = sl_tail sl (case map_of d ''stderr_tail'' of None \<Rightarrow> [] | Some v \<Rightarrow> py_str fr v),
           te_image = sl_image sl, te_lane = sl_lane sl, te_backend = sl_backend sl, te_verified = verified\<rparr>)"

definition read_envelope ::
  "slot \<Rightarrow> keyed_hash \<Rightarrow> (rat \<Rightarrow> string) \<Rightarrow> receipt_ctx option \<Rightarrow> int \<Rightarrow> dict \<Rightarrow> telem result" where
  "read_envelope sl mac fr ctx rc d =
     (let refusal = (case ctx of None \<Rightarrow> [] | Some c \<Rightarrow> verify_grade_receipt mac fr c d) in
      if refusal \<noteq> [] then stub sl ''receipt_untrusted'' refusal rc
      else bindR (fields_with (as_int (sl_env sl) d) int_keys) (\<lambda>is0. case is0 of
             Inl k \<Rightarrow> stub sl ''invalid_envelope'' (missing_field @ k) rc
           | Inr is \<Rightarrow>
               bindR (fields_with (as_float (sl_env sl) d) float_keys) (\<lambda>rs0. case rs0 of
                 Inl k \<Rightarrow> stub sl ''invalid_envelope'' (missing_field @ k) rc
               | Inr rs \<Rightarrow> measured_row sl fr (ctx \<noteq> None) rc d is rs)))"

text \<open>The lines that are not blank; the last one is the envelope.\<close>

definition out_lines :: "string \<Rightarrow> string list" where
  "out_lines out = filter (\<lambda>l. py_strip l \<noteq> []) (splitlines (py_strip out))"

definition parse_envelope ::
  "slot \<Rightarrow> keyed_hash \<Rightarrow> (rat \<Rightarrow> string) \<Rightarrow> (string \<Rightarrow> pyv result) \<Rightarrow> receipt_ctx option \<Rightarrow> string \<Rightarrow> string \<Rightarrow> int
    \<Rightarrow> telem result" where
  "parse_envelope sl mac fr loads ctx out err rc =
     (if rc \<noteq> 0 then stub sl ''container_failed'' err rc
      else if out_lines out = [] then stub sl ''invalid_envelope'' err rc
      else case loads (List.last (out_lines out)) of
          Inl x \<Rightarrow> bindR (absorb (sl_env sl) x ()) (\<lambda>_. stub sl ''invalid_envelope'' err rc)
        | Inr (VDict d) \<Rightarrow> read_envelope sl mac fr ctx rc d
        | Inr _ \<Rightarrow> stub sl ''invalid_envelope'' err rc)"

section \<open>Signed lines are unambiguous\<close>

lemma split_join: "ws \<noteq> [] \<Longrightarrow> split_on s (join [s] ws) = concat (map (split_on s) ws)"
proof (induction ws)
  case (Cons w ws)
  then show ?case by (cases ws) (simp_all add: split_on_append)
qed simp

lemma split_on_one: "length (split_on s w) = 1 \<Longrightarrow> s \<notin> set w"
proof (induction w)
  case (Cons c w)
  then show ?case by (cases "split_on s w") (auto split: if_splits)
qed simp

lemma length_splits:
  "length ws \<le> length (concat (map (split_on s) ws))"
  "length (concat (map (split_on s) ws)) = length ws \<Longrightarrow> w \<in> set ws \<Longrightarrow> s \<notin> set w"
proof (induction ws arbitrary: w)
  case (Cons x ws)
  have pos: "1 \<le> length (split_on s x)" by (simp add: Suc_le_eq)
  { case 1 then show ?case using Cons.IH(1) pos by simp
  next
    case 2
    then have "length (split_on s x) = 1" "length (concat (map (split_on s) ws)) = length ws"
      using Cons.IH(1) pos by simp_all
    then show ?case using 2(2) Cons.IH(2) split_on_one by auto }
qed simp_all

text \<open>A text made of lines without a line break is made of these lines only.\<close>

lemma join_unique:
  assumes "length vs = length ws" "\<forall>w \<in> set ws. s \<notin> set w" "join [s] vs = join [s] ws"
  shows "vs = ws"
proof (cases "vs = []")
  case False
  then have "concat (map (split_on s) vs) = concat (map (split_on s) ws)"
    using split_join [of vs s] split_join [of ws s] assms(1,3) by (cases ws) auto
  moreover have free: "\<forall>w \<in> set us. s \<notin> set w \<Longrightarrow> concat (map (split_on s) us) = us" for us
    by (induction us) (simp_all add: split_on_free)
  ultimately have "concat (map (split_on s) vs) = ws" using assms(2) by simp
  then have "\<forall>w \<in> set vs. s \<notin> set w" using length_splits(2) [of s vs] assms(1) by auto
  then show ?thesis using free [of vs] \<open>concat (map (split_on s) vs) = ws\<close> by simp
qed (use assms(1) in simp)

section \<open>What an accepted row proves\<close>

lemma signed_values_length: "signed_values d fs = Some vs \<Longrightarrow> length vs = length fs"
  by (induction fs arbitrary: vs) (auto split: pyv.splits)

text \<open>What a row of this call says: it was made for this nonce and these inputs, by a reviewed harness,
  and its counts are the envelope's.\<close>

definition row_of_call :: "(rat \<Rightarrow> string) \<Rightarrow> receipt_ctx \<Rightarrow> dict \<Rightarrow> string list \<Rightarrow> bool" where
  "row_of_call fr ctx d vs \<longleftrightarrow>
     field_of vs ''nonce'' = rc_nonce ctx \<and> field_of vs ''code_sha256'' = rc_code ctx \<and>
     field_of vs ''test_sha256'' = rc_test ctx \<and>
     (\<forall>f \<in> set counted_fields. py_str fr (dict_get d f) = field_of vs f) \<and>
     py_lower (field_of vs ''harness_self_sha256'') \<in> set (rc_allowlist ctx)"

lemma accepted_row:
  assumes "verify_grade_receipt mac fr ctx d = []"
  obtains receipt vs key where
    "dict_get d ''grade_receipt'' = VDict receipt" "length vs = length signed_fields"
    "(field_of vs ''key_id'', key) \<in> set (rc_keys ctx)"
    "dict_get receipt ''mac'' = VStr (mac key (receipt_text vs))" "row_of_call fr ctx d vs"
proof -
  obtain receipt where receipt: "dict_get d ''grade_receipt'' = VDict receipt"
    using assms by (auto simp: verify_grade_receipt_def split: pyv.splits)
  then obtain vs where vs: "signed_values receipt signed_fields = Some vs"
    using assms by (auto simp: verify_grade_receipt_def split: option.splits)
  then obtain m where m: "dict_get receipt ''mac'' = VStr m"
    using assms receipt by (auto simp: verify_grade_receipt_def split: pyv.splits)
  have ok: "check_receipt mac fr ctx d vs m = []"
    using assms receipt vs m by (simp add: verify_grade_receipt_def)
  then obtain key where key: "map_of (rc_keys ctx) (field_of vs ''key_id'') = Some key"
    by (auto simp: check_receipt_def split: if_splits option.splits)
  have "receipt_mac mac key vs = m \<and> row_of_call fr ctx d vs"
    using ok key by (auto simp: check_receipt_def row_of_call_def list_ex_iff split: if_splits)
  then show thesis
    using that [OF receipt signed_values_length [OF vs] map_of_SomeD [OF key]] m by (simp add: receipt_mac_def)
qed

text \<open>No MAC under one of the keys is presented but those the harness made for its rows \<open>S\<close>; these rows
  hold one line per field.\<close>

definition unforged :: "keyed_hash \<Rightarrow> receipt_ctx \<Rightarrow> string list set \<Rightarrow> dict \<Rightarrow> bool" where
  "unforged mac ctx S d \<longleftrightarrow>
     (\<forall>receipt k t. dict_get d ''grade_receipt'' = VDict receipt \<and> k \<in> snd ` set (rc_keys ctx) \<and>
        dict_get receipt ''mac'' = VStr (mac k t) \<longrightarrow> t \<in> receipt_text ` S)"

definition harness_rows :: "string list set \<Rightarrow> bool" where
  "harness_rows S \<longleftrightarrow> (\<forall>vs \<in> S. length vs = length signed_fields \<and> (\<forall>v \<in> set vs. lf \<notin> set v))"

lemma mac_domain_line: "lf \<notin> set mac_domain"
  by code_simp

lemma receipt_text_unique:
  assumes "length vs = length ws" "\<forall>w \<in> set ws. lf \<notin> set w" "receipt_text vs = receipt_text ws"
  shows "vs = ws"
  using join_unique [of "mac_domain # vs" "mac_domain # ws" lf] assms mac_domain_line
  by (simp add: receipt_text_def)

lemma accepted_by_harness:
  assumes "verify_grade_receipt mac fr ctx d = []" "unforged mac ctx S d" "harness_rows S"
  shows "\<exists>vs \<in> S. row_of_call fr ctx d vs"
proof (rule accepted_row [OF assms(1)])
  fix receipt vs key
  assume row: "dict_get d ''grade_receipt'' = VDict receipt" "length vs = length signed_fields"
    "(field_of vs ''key_id'', key) \<in> set (rc_keys ctx)"
    "dict_get receipt ''mac'' = VStr (mac key (receipt_text vs))" "row_of_call fr ctx d vs"
  have "key \<in> snd ` set (rc_keys ctx)" using row(3) by force
  then obtain ws where "ws \<in> S" "receipt_text vs = receipt_text ws"
    using assms(2) row(1,4) unfolding unforged_def by (metis imageE)
  then show ?thesis
    using receipt_text_unique [of vs ws] row(2,5) assms(3) by (metis harness_rows_def)
qed

section \<open>Properties\<close>

text \<open>Every reason has a status, so a refusal is never an exception.\<close>

lemma reasons_have_status: "list_all (\<lambda>r. map_of stub_status r \<noteq> None) stub_reasons"
  by code_simp

lemma stub_total: "reason \<in> set stub_reasons \<Longrightarrow> \<exists>t. stub sl reason err rc = Inr t \<and> te_stub t"
  using reasons_have_status
  by (auto simp: stub_def stub_row_def status_for_stub_reason_def list_all_iff split: option.splits)

lemma stub_stubs: "stub sl reason err rc = Inr t \<Longrightarrow> te_stub t"
  by (auto simp: stub_def stub_row_def split: if_splits)

lemma measured_row_cases:
  assumes "measured_row sl fr verified rc d ns rs = Inr t" "\<not> te_stub t"
  shows "0 \<le> te_exit t" "te_exit t \<le> 255" "te_exit t = ns ! 0" "te_passed t = ns ! 4" "te_failed t = ns ! 5"
    "\<forall>n \<in> set (tl ns). 0 \<le> n" "te_verified t = verified"
    "sandbox_status_enabled (sl_env sl) \<Longrightarrow> te_status t = (if te_exit t = 0 \<and> te_failed t = 0 then ''PASS'' else ''CANDIDATE_FAIL'')"
  using assms stub_stubs
  by (auto simp: measured_row_def list_ex_iff split: if_splits)

lemma fields_with_Inr:
  "fields_with f ks = Inr (Inr as) \<Longrightarrow> length as = length ks \<and> (\<forall>j < length ks. f (ks ! j) = Inr (Some (as ! j)))"
proof (induction ks arbitrary: as)
  case (Cons k ks)
  then obtain a r where a: "f k = Inr (Some a)" "fields_with f ks = Inr r" "map_sum id (\<lambda>as. a # as) r = Inr as"
    by (auto split: option.splits)
  then obtain bs where "r = Inr bs" "as = a # bs" by (cases r) auto
  then show ?case using Cons.IH a by (auto simp: less_Suc_eq_0_disj)
qed simp

lemma ints_read:
  assumes "fields_with (as_int e d) int_keys = Inr (Inr ns)"
  shows "length ns = 6" "as_int e d ''exit_code'' = Inr (Some (ns ! 0))" "as_int e d ''pytest_passed'' = Inr (Some (ns ! 4))"
    "as_int e d ''pytest_failed'' = Inr (Some (ns ! 5))"
  using fields_with_Inr [OF assms] by (auto simp: int_keys_def dest: spec [of _ 0] spec [of _ 4] spec [of _ 5])

text \<open>A measured row comes from a zero return code, a last line that is an object, and a passed receipt.\<close>

lemma measured_parse:
  assumes "parse_envelope sl mac fr loads ctx out err rc = Inr t" "\<not> te_stub t"
  obtains d ns rs where "loads (List.last (out_lines out)) = Inr (VDict d)" "case ctx of None \<Rightarrow> True | Some c \<Rightarrow> verify_grade_receipt mac fr c d = []"
    "fields_with (as_int (sl_env sl) d) int_keys = Inr (Inr ns)"
    "measured_row sl fr (ctx \<noteq> None) rc d ns rs = Inr t"
proof -
  have no_stub: "stub sl why tl code \<noteq> Inr t" for why tl code using assms(2) stub_stubs by blast
  obtain d where d: "loads (List.last (out_lines out)) = Inr (VDict d)" "read_envelope sl mac fr ctx rc d = Inr t"
    using assms(1) no_stub by (auto simp: parse_envelope_def split: if_splits sum.splits pyv.splits)
  have receipt: "case ctx of None \<Rightarrow> True | Some c \<Rightarrow> verify_grade_receipt mac fr c d = []"
    using d no_stub by (auto simp: read_envelope_def Let_def split: option.splits if_splits)
  have passed: "(case ctx of None \<Rightarrow> [] | Some c \<Rightarrow> verify_grade_receipt mac fr c d) = []"
    using receipt by (simp split: option.splits)
  let ?ints = "fields_with (as_int (sl_env sl) d) int_keys" and ?floats = "fields_with (as_float (sl_env sl) d) float_keys"
  obtain r where r: "?ints = Inr r" using d(2) passed by (auto simp: read_envelope_def)
  then obtain ns where ns: "?ints = Inr (Inr ns)" using d(2) passed no_stub by (cases r) (auto simp: read_envelope_def)
  then obtain q where q: "?floats = Inr q" using d(2) passed by (auto simp: read_envelope_def)
  then obtain rs where rs: "?floats = Inr (Inr rs)"
    using d(2) passed no_stub ns by (cases q) (auto simp: read_envelope_def)
  then have "measured_row sl fr (ctx \<noteq> None) rc d ns rs = Inr t"
    using d(2) passed ns by (auto simp: read_envelope_def)
  then show thesis using that d(1) receipt ns by blast
qed


text \<open>One run: two tests pass, and the harness signs its row.\<close>

definition wit_values :: "string list" where
  "wit_values =
     [protocol, ''k1'', replicate 32 CHR ''0'', ''c'', [], ''o'', ''0'', ''0'', ''0'', ''0'', ''2'', ''0'', ''0'',
      ''passed'', ''h'']"

definition wit_mac :: keyed_hash where
  "wit_mac k t = (if k = ''key'' \<and> t = receipt_text wit_values then replicate 64 CHR ''a'' else [])"

definition wit_receipt :: dict where
  "wit_receipt = (''mac'', VStr (replicate 64 CHR ''a'')) # zip signed_fields (map VStr wit_values)"

definition wit_envelope :: dict where
  "wit_envelope =
     [(''grade_receipt'', VDict wit_receipt), (''exit_code'', VInt 0), (''ruff_warnings'', VInt 1), (''ruff_errors'', VInt 0),
      (''mypy_errors'', VInt 0), (''pytest_passed'', VInt 2), (''pytest_failed'', VInt 0),
      (''pytest_status'', VStr ''passed''), (''wall_clock_sec'', VInt 3), (''peak_rss_mb'', VInt 64)]"

definition wit_ctx :: receipt_ctx where
  "wit_ctx =
     \<lparr>rc_nonce = replicate 32 CHR ''0'', rc_key_id = ''k1'', rc_keys = [(''k1'', ''key'')], rc_allowlist = [''h''],
      rc_code = ''c'', rc_test = [], rc_stdin = []\<rparr>"

definition wit_slot :: slot where
  "wit_slot = \<lparr>sl_env = (\<lambda>_. None), sl_tail = id, sl_lane = ''l'', sl_image = ''i'', sl_backend = ''docker''\<rparr>"

definition wit_run :: "telem result" where
  "wit_run =
     parse_envelope wit_slot wit_mac (\<lambda>_. []) (\<lambda>_. Inr (VDict wit_envelope)) (Some wit_ctx) ''{}'' [] 0"

lemma wit_run_passes: "(case wit_run of Inr t \<Rightarrow> \<not> te_stub t \<and> te_status t = ''PASS'' | Inl _ \<Rightarrow> False)"
  by code_simp

lemma wit_lines: "length wit_values = length signed_fields \<and> list_all (\<lambda>v. lf \<notin> set v) wit_values"
  by code_simp

lemma wit_unforged: "unforged wit_mac wit_ctx {wit_values} wit_envelope"
  by (auto simp: unforged_def wit_envelope_def wit_receipt_def dict_get_def wit_mac_def wit_ctx_def split: if_splits)


text \<open>The counts of the linters are adopted from the envelope, but the receipt does not cover them.\<close>

lemma lint_counts_unsigned:
  assumes "f \<in> {''ruff_warnings'', ''ruff_errors'', ''mypy_errors''}"
  shows "verify_grade_receipt mac fr ctx (dict_set d f v) = verify_grade_receipt mac fr ctx d"
proof -
  have other: "dict_get (dict_set d f v) k = dict_get d k" if "k \<in> insert ''grade_receipt'' (set counted_fields)" for k
    using assms that by (auto simp: counted_fields_def)
  have "list_ex (\<lambda>k. py_str fr (dict_get (dict_set d f v) k) \<noteq> field_of vs k) counted_fields =
      list_ex (\<lambda>k. py_str fr (dict_get d k) \<noteq> field_of vs k) counted_fields" for vs
    unfolding list_ex_iff using other by auto
  then have checks: "check_receipt mac fr ctx (dict_set d f v) vs m = check_receipt mac fr ctx d vs m" for vs m
    unfolding check_receipt_def by presburger
  show ?thesis
    unfolding verify_grade_receipt_def checks using other [of "''grade_receipt''"] by (auto split: pyv.splits)
qed

end
