(* ===== verification/SandboxRun.thy ===== *)
theory SandboxRun
  imports SandboxReceipt
begin

text \<open>
  The sandbox call (\<open>core/sandbox_runner.py\<close>): the bounds of a run, the choice of an isolated back end,
  the pins of the image, the command line, and the execution. \<open>run\<close> ends in a refusal or hands one
  \<open>call\<close> to the operation, which is not in the tree. The answers of the system are the record \<open>host\<close>;
  the pre-seal authority is asked several times and may answer differently each time, so its answers
  are numbered. The two variants of each probe differ in the environment they pass, which \<open>docker_env\<close>
  computes for both. Timeouts are finite numbers. A message is given up to its first dash.
\<close>

section \<open>Bounds of a run\<close>

definition enabled :: "env \<Rightarrow> bool" where
  "enabled e \<longleftrightarrow> gate_lower_true e ''AGI_V8_SWARM_SANDBOX_ENABLED''"

definition default_image :: string where "default_image = ''agi_v8_sandbox:latest''"

definition safe_image :: "string \<Rightarrow> bool" where
  "safe_image s \<longleftrightarrow>
     s \<noteq> [] \<and> length s \<le> 255 \<and> alnum (hd s) \<and>
     list_all (\<lambda>c. alnum c \<or> c \<in> set ''._:/@+-'') (tl s)"

text \<open>A value and an error, as in the code.\<close>

definition bounded_int_from_env :: "env \<Rightarrow> string \<Rightarrow> int \<Rightarrow> int \<Rightarrow> int \<Rightarrow> (int \<times> string) result" where
  "bounded_int_from_env e name dflt lo hi =
     (case e name of
        None \<Rightarrow> Inr (dflt, [])
      | Some raw \<Rightarrow>
          let s = py_strip raw in
          if s = [] then Inr (dflt, name @ '' is empty'')
          else case parse_int s of
              None \<Rightarrow> absorb e (ValueError ''invalid literal for int() with base 10'') (dflt, name @ '' must be an integer'')
            | Some v \<Rightarrow>
                Inr (if v < lo \<or> hi < v
                     then (dflt, name @ '' must be between '' @ int_text lo @ '' and '' @ int_text hi)
                     else (v, [])))"

definition clamped_int_from_env :: "env \<Rightarrow> string \<Rightarrow> int \<Rightarrow> int \<Rightarrow> int \<Rightarrow> int result" where
  "clamped_int_from_env e name dflt lo hi =
     bindR (bounded_int_from_env e name dflt lo hi) (\<lambda>(v, err). Inr (if err \<noteq> [] then dflt else v))"

definition bounded_timeout :: "env \<Rightarrow> pyv \<Rightarrow> (rat \<times> string) result" where
  "bounded_timeout e t =
     (let raw = (if t = VNone then VStr (getenv e ''AGI_V8_SWARM_SANDBOX_TIMEOUT_SEC'' ''30.0'') else t) in
      case raw of
        VBool _ \<Rightarrow> Inr (30, ''sandbox timeout must be numeric'')
      | _ \<Rightarrow> (case py_float raw of
            Inl x \<Rightarrow> absorb e x (30, ''sandbox timeout must be numeric'')
          | Inr r \<Rightarrow> Inr (if r < 1 \<or> 300 < r then (30, ''sandbox timeout must be between 1 and 300'') else (r, []))))"

definition normalise_image :: "env \<Rightarrow> pyv \<Rightarrow> string \<times> string" where
  "normalise_image e imv =
     (case (if imv = VNone then VStr (getenv e ''AGI_V8_SWARM_SANDBOX_IMAGE'' default_image) else imv) of
        VStr raw \<Rightarrow>
          (let s = py_strip raw in
           if s = [] then (default_image, ''sandbox image is empty'')
           else if \<not> safe_image s then (default_image, ''sandbox image contains unsupported characters'')
           else (s, []))
      | _ \<Rightarrow> (default_image, ''sandbox image must be a string''))"

record run_config =
  cf_image :: string
  cf_timeout :: rat
  cf_memory :: int
  cf_pids :: int

definition memory_knob :: string where "memory_knob = ''AGI_V8_SWARM_SANDBOX_MEMORY_MB''"
definition pids_knob :: string where "pids_knob = ''AGI_V8_SWARM_SANDBOX_PIDS_LIMIT''"

definition build_run_config :: "env \<Rightarrow> pyv \<Rightarrow> pyv \<Rightarrow> (string + run_config) result" where
  "build_run_config e imv timeout =
     (let (img, ierr) = normalise_image e imv in
      if ierr \<noteq> [] then Inr (Inl ierr)
      else bindR (bounded_timeout e timeout) (\<lambda>(t, terr).
      if terr \<noteq> [] then Inr (Inl terr)
      else bindR (bounded_int_from_env e memory_knob 512 64 4096) (\<lambda>(m, merr).
      if merr \<noteq> [] then Inr (Inl merr)
      else bindR (bounded_int_from_env e pids_knob 64 8 1024) (\<lambda>(p, perr).
      if perr \<noteq> [] then Inr (Inl perr)
      else Inr (Inr \<lparr>cf_image = img, cf_timeout = t, cf_memory = m, cf_pids = p\<rparr>)))))"

definition max_source :: int where "max_source = 1000000"

definition validate_sources :: "pyv \<Rightarrow> pyv \<Rightarrow> string" where
  "validate_sources code test =
     (case code of
        VStr c \<Rightarrow>
          if max_source < int (utf8_length c) then ''code exceeds 1000000 bytes''
          else (case test of
              VNone \<Rightarrow> []
            | VStr t \<Rightarrow> if max_source < int (utf8_length t) then ''test exceeds 1000000 bytes'' else []
            | _ \<Rightarrow> ''test must be a string or None'')
      | _ \<Rightarrow> ''code must be a string'')"

section \<open>The host\<close>

text \<open>The answers while the snapshot of the repository is built: the cached directory and whether it is
  still complete, the ancestors of the source with their probes for \<open>.git\<close>, the temporary directory, its
  package directory, the archive, its extraction, the widening of modes, whether the package arrived, the
  registration of the clean-up (active, registered), and whether a clean-up removes the directory.\<close>

record snapshot_io =
  si_cached :: "string option"
  si_cached_ok :: bool
  si_ancestors :: "(string \<times> bool result) list"
  si_mkdtemp :: "string result"
  si_mkdir :: "unit result"
  si_archive :: "int result"
  si_extract :: "int result"
  si_widen :: "unit result"
  si_init :: bool
  si_seal :: "(bool \<times> bool) result"
  si_removed :: bool

record host =
  ho_payload :: "unit result"
  ho_captured :: "nat \<Rightarrow> pyv result"
  ho_crossed :: "pyv result"
  ho_trusted_docker :: "pyv result"
  ho_which :: "string \<Rightarrow> string option"
  ho_resolve :: "string \<Rightarrow> string result"
  ho_is_file :: "string \<Rightarrow> bool"
  ho_spawn :: "string list \<Rightarrow> (string \<times> string) list \<Rightarrow> (int \<times> string) result"
  ho_entry :: "string result"
  ho_snapshot :: snapshot_io

definition subprocess_env :: "(string \<times> string) list" where
  "subprocess_env = [(''PATH'', ''/bin:/usr/bin''), (''LANG'', ''C.UTF-8''), (''LC_ALL'', ''C.UTF-8'')]"

definition preseal :: "env \<Rightarrow> bool" where
  "preseal e = gate_strict e ''AGI_V8_VERIFY_GATE_PRESEAL_GIT_IDENT_ENABLED''"

text \<open>\<open>None\<close> is the refusal of the authority.\<close>

definition docker_env :: "env \<Rightarrow> host \<Rightarrow> nat \<Rightarrow> (string \<times> string) list option" where
  "docker_env e h n =
     (if \<not> preseal e then Some subprocess_env
      else case ho_captured h n of
          Inr (VDict d) \<Rightarrow>
            if \<not> list_all (\<lambda>k. k \<in> {''PATH'', ''DOCKER_HOST''}) (map fst d) then None
            else (case dict_get d ''DOCKER_HOST'' of
                VNone \<Rightarrow> Some subprocess_env
              | VStr s \<Rightarrow> if s = [] then None else Some (subprocess_env @ [(''DOCKER_HOST'', s)])
              | _ \<Rightarrow> None)
        | _ \<Rightarrow> None)"

definition preseal_crossed :: "env \<Rightarrow> host \<Rightarrow> bool option" where
  "preseal_crossed e h =
     (if \<not> preseal e then Some False
      else case ho_crossed h of Inr (VBool b) \<Rightarrow> Some b | _ \<Rightarrow> None)"

definition executable :: "env \<Rightarrow> host \<Rightarrow> string \<Rightarrow> string option result" where
  "executable e h name =
     (case ho_which h name of
        None \<Rightarrow> Inr None
      | Some found \<Rightarrow>
          (case ho_resolve h found of
             Inl x \<Rightarrow> absorb e x None
           | Inr p \<Rightarrow> Inr (if ho_is_file h p then Some p else None)))"

definition docker_for_run :: "env \<Rightarrow> host \<Rightarrow> string option option result" where
  "docker_for_run e h =
     (if \<not> preseal e then bindR (executable e h ''docker'') (\<lambda>p. Inr (Some p))
      else case ho_trusted_docker h of
          Inr (VStr p) \<Rightarrow> Inr (if p = [] then None else Some (Some p))
        | _ \<Rightarrow> Inr None)"

text \<open>One question to the Docker client; \<open>None\<close> where the authority refuses, \<open>fallback\<close> where the
  client does not answer.\<close>

definition ask_docker ::
  "env \<Rightarrow> host \<Rightarrow> nat \<Rightarrow> string list \<Rightarrow> 'a \<Rightarrow> (int \<Rightarrow> string \<Rightarrow> 'a) \<Rightarrow> 'a option result" where
  "ask_docker e h n argv fallback f =
     (case docker_env e h n of
        None \<Rightarrow> Inr None
      | Some denv \<Rightarrow>
          (case ho_spawn h argv denv of
             Inl x \<Rightarrow> absorb e x (Some fallback)
           | Inr (rc, out) \<Rightarrow> Inr (Some (f rc out))))"

definition docker_backend_available :: "env \<Rightarrow> host \<Rightarrow> string \<Rightarrow> bool option result" where
  "docker_backend_available e h p =
     ask_docker e h 1 [p, ''version'', ''--format'', ''{{.Server.Version}}''] False (\<lambda>rc out. rc = 0)"

definition image_exists :: "env \<Rightarrow> host \<Rightarrow> string \<Rightarrow> string \<Rightarrow> bool option result" where
  "image_exists e h img p = ask_docker e h 3 [p, ''image'', ''inspect'', img] False (\<lambda>rc out. rc = 0)"

definition image_id_ok :: "string \<Rightarrow> bool" where
  "image_id_ok s \<longleftrightarrow> take 7 s = ''sha256:'' \<and> lower_hex 64 (drop 7 s)"

definition pinned_id :: "env \<Rightarrow> string" where
  "pinned_id e = py_strip (getenv e ''AGI_V8_SWARM_SANDBOX_IMAGE_ID'' [])"

text \<open>Trusted, armed, and the error.\<close>

definition image_id_trusted :: "env \<Rightarrow> host \<Rightarrow> string \<Rightarrow> string \<Rightarrow> (bool \<times> bool \<times> string) option result" where
  "image_id_trusted e h img p =
     (if docker_env e h 5 = None then Inr None
      else if pinned_id e = [] then Inr (Some (True, False, []))
      else if \<not> image_id_ok (pinned_id e)
      then Inr (Some (False, True, ''AGI_V8_SWARM_SANDBOX_IMAGE_ID is malformed (expected sha256:<64 hex>)''))
      else ask_docker e h 5 [p, ''image'', ''inspect'', ''--format'', ''{{.Id}}'', img]
             (False, True, ''sandbox image id inspect failed'')
             (\<lambda>rc out.
                let actual = py_strip out in
                if rc \<noteq> 0 \<or> \<not> image_id_ok actual \<or> actual \<noteq> pinned_id e
                then (False, True, ''sandbox image id does not match AGI_V8_SWARM_SANDBOX_IMAGE_ID pin'')
                else (True, True, [])))"

definition entry_digest_check :: "env \<Rightarrow> bool" where
  "entry_digest_check e = gate_strict e ''AGI_V8_SWARM_SANDBOX_ENTRY_DIGEST_ENABLED''"

definition entry_digest_trusted ::
  "env \<Rightarrow> host \<Rightarrow> (string \<Rightarrow> string) \<Rightarrow> string \<Rightarrow> string \<Rightarrow> (bool \<times> string) option result" where
  "entry_digest_trusted e h sha img p =
     (if docker_env e h 7 = None then Inr None
      else if \<not> entry_digest_check e then Inr (Some (True, []))
      else case ho_entry h of
          Inl x \<Rightarrow> absorb e x (Some (False, ''local sandbox harness unreadable; cannot verify image harness''))
        | Inr text \<Rightarrow>
            ask_docker e h 7
              [p, ''image'', ''inspect'', ''--format'', ''{{index .Config.Labels \"agi_v8.entry_sha256\"}}'', img]
              (False, ''sandbox image harness-digest inspect failed'')
              (\<lambda>rc out.
                 let baked = py_strip out in
                 if rc \<noteq> 0 \<or> baked = [] \<or> baked = ''<no value>'' \<or> baked = ''null''
                 then (False, ''sandbox image carries no agi_v8.entry_sha256 label'')
                 else if baked \<noteq> sha text
                 then (False, ''sandbox image harness digest does not match this checkout's entry.py'')
                 else (True, [])))"

section \<open>The snapshot of the repository\<close>

fun repo_root :: "(string \<times> bool result) list \<Rightarrow> string option" where
  "repo_root [] = None"
| "repo_root ((d, probe) # ds) = (case probe of Inl x \<Rightarrow> None | Inr b \<Rightarrow> if b then Some d else repo_root ds)"

definition built :: "snapshot_io \<Rightarrow> bool" where
  "built io \<longleftrightarrow>
     si_mkdir io = Inr () \<and> si_archive io = Inr 0 \<and> si_extract io = Inr 0 \<and> si_widen io = Inr () \<and> si_init io"

text \<open>What stays cached, and the directory that is mounted.\<close>

definition ensure_repo_snapshot ::
  "(string \<Rightarrow> string option) \<Rightarrow> snapshot_io \<Rightarrow> string option \<times> string option" where
  "ensure_repo_snapshot which io =
     (if si_cached io \<noteq> None \<and> si_cached_ok io then (si_cached io, si_cached io)
      else if repo_root (si_ancestors io) = None \<or> which ''git'' = None \<or> which ''tar'' = None then (None, None)
      else case si_mkdtemp io of
          Inl x \<Rightarrow> (None, None)
        | Inr d \<Rightarrow>
            if \<not> built io then (None, None)
            else (case si_seal io of
                Inr (scoped, registered) \<Rightarrow>
                  if scoped \<and> \<not> registered then (if si_removed io then None else Some d, None)
                  else (Some d, Some d)
              | Inl x \<Rightarrow> (if si_removed io then None else Some d, None)))"

section \<open>One call\<close>

text \<open>What is handed to the operation.\<close>

record call =
  ca_config :: run_config
  ca_bwrap :: "string option"
  ca_docker :: "string option"
  ca_pull_never :: bool
  ca_worktree :: "string option"
  ca_receipt :: "receipt_ctx option"
  ca_backend :: string

text \<open>A stage refuses with a row or goes on with a value.\<close>

definition refuse :: "slot \<Rightarrow> string \<Rightarrow> string \<Rightarrow> (telem + 'a) result" where
  "refuse sl reason err = bindR (stub sl reason err (-1)) (\<lambda>t. Inr (Inl t))"

definition go_on :: "(telem + 'a) result \<Rightarrow> ('a \<Rightarrow> (telem + 'b) result) \<Rightarrow> (telem + 'b) result" where
  "go_on m f = bindR m (\<lambda>r. case r of Inl t \<Rightarrow> Inr (Inl t) | Inr a \<Rightarrow> f a)"

definition on_docker :: "slot \<Rightarrow> slot" where
  "on_docker sl = sl\<lparr>sl_backend := ''docker''\<rparr>"

text \<open>The back end of a row where it is only named under the pre-seal contract.\<close>

definition on_preseal :: "slot \<Rightarrow> slot" where
  "on_preseal sl = sl\<lparr>sl_backend := if preseal (sl_env sl) then ''docker'' else []\<rparr>"

definition untrusted :: "slot \<Rightarrow> (telem + 'a) result" where
  "untrusted sl = refuse sl ''docker_endpoint_untrusted'' ''pre-seal Docker authority unavailable''"

text \<open>A negative answer under the pre-seal contract counts only while the authority holds.\<close>

definition recheck :: "slot \<Rightarrow> host \<Rightarrow> nat \<Rightarrow> (telem + 'a) result \<Rightarrow> (telem + 'a) result" where
  "recheck sl h n k =
     (if preseal (sl_env sl) \<and> docker_env (sl_env sl) h n = None then untrusted (on_docker sl) else k)"

text \<open>The path of the client and whether its server answers.\<close>

definition docker_ready :: "slot \<Rightarrow> host \<Rightarrow> (telem + string option \<times> bool) result" where
  "docker_ready sl h =
     bindR (docker_for_run (sl_env sl) h) (\<lambda>found.
       case found of
         None \<Rightarrow> untrusted (on_preseal sl)
       | Some None \<Rightarrow> Inr (Inr (None, False))
       | Some (Some p) \<Rightarrow>
           bindR (docker_backend_available (sl_env sl) h p) (\<lambda>ready.
             case ready of
               None \<Rightarrow> untrusted (on_preseal sl)
             | Some False \<Rightarrow> recheck sl h 2 (Inr (Inr (Some p, False)))
             | Some True \<Rightarrow> Inr (Inr (Some p, True))))"

definition bwrap_enabled :: "env \<Rightarrow> bool" where
  "bwrap_enabled e = gate_lower_true e ''AGI_V8_SANDBOX_BWRAP_ENABLED''"

text \<open>The other back end, when Docker is not ready.\<close>

definition bwrap_instead :: "slot \<Rightarrow> host \<Rightarrow> bool \<Rightarrow> string option \<Rightarrow> (telem + string) result" where
  "bwrap_instead sl h crossed docker =
     (let missing = (if docker = None then ''docker_missing'' else ''docker_unavailable'') in
      if crossed then refuse (on_docker sl) missing []
      else if bwrap_enabled (sl_env sl)
      then bindR (executable (sl_env sl) h ''bwrap'') (\<lambda>b. case b of
             None \<Rightarrow> refuse sl ''no_isolation_available''
                 ''AGI_V8_SANDBOX_BWRAP_ENABLED is set but docker and bwrap are both unavailable; refusing to execute unisolated''
           | Some p \<Rightarrow> Inr (Inr p))
      else refuse sl missing [])"

text \<open>The image is there and is the one that was reviewed; the value tells whether its pin is armed.\<close>

definition image_gate :: "slot \<Rightarrow> host \<Rightarrow> (string \<Rightarrow> string) \<Rightarrow> string \<Rightarrow> (telem + bool) result" where
  "image_gate sl h sha p =
     bindR (image_exists (sl_env sl) h (sl_image sl) p) (\<lambda>found.
       if found = None then untrusted (on_docker sl)
       else if found = Some False then recheck sl h 4 (refuse (on_preseal sl) ''image_missing'' [])
       else bindR (image_id_trusted (sl_env sl) h (sl_image sl) p) (\<lambda>pin.
         case pin of
           None \<Rightarrow> untrusted (on_docker sl)
         | Some (trusted, armed, err) \<Rightarrow>
             if \<not> trusted then recheck sl h 6 (refuse (on_preseal sl) ''image_untrusted'' err)
             else bindR (entry_digest_trusted (sl_env sl) h sha (sl_image sl) p) (\<lambda>digest.
               case digest of
                 None \<Rightarrow> untrusted (on_docker sl)
               | Some (trusted, err) \<Rightarrow>
                   if \<not> trusted then recheck sl h 8 (refuse (on_preseal sl) ''image_untrusted'' err)
                   else Inr (Inr armed))))"

definition worktree_enabled :: "env \<Rightarrow> bool" where
  "worktree_enabled e = gate_lower_true e ''AGI_V8_SANDBOX_WORKTREE_ENABLED''"

definition worktree_gate :: "slot \<Rightarrow> host \<Rightarrow> (telem + string option) result" where
  "worktree_gate sl h =
     (if \<not> worktree_enabled (sl_env sl) then Inr (Inr None)
      else case snd (ensure_repo_snapshot (ho_which h) (ho_snapshot h)) of
          None \<Rightarrow> refuse sl ''worktree_unavailable''
              ''AGI_V8_SANDBOX_WORKTREE_ENABLED is set but the repo snapshot could not be built''
        | Some d \<Rightarrow> Inr (Inr (Some d)))"

text \<open>The material of the receipt, before any back end is asked.\<close>

definition receipt_gate ::
  "slot \<Rightarrow> place \<Rightarrow> string fs \<Rightarrow> (string \<Rightarrow> string) \<Rightarrow> string \<Rightarrow> string \<Rightarrow> string option
    \<Rightarrow> (telem + receipt_ctx option) result" where
  "receipt_gate sl pc fs sha nonce code test =
     (if \<not> grade_receipt_enabled (sl_env sl) then Inr (Inr None)
      else bindR (build_receipt_context (sl_env sl) pc fs sha nonce code test) (\<lambda>r.
        case r of Inl why \<Rightarrow> refuse sl ''receipt_untrusted'' why | Inr ctx \<Rightarrow> Inr (Inr (Some ctx))))"

text \<open>The choice of the back end: the other one's path, Docker's path, and whether the pin is armed.\<close>

definition choose_backend ::
  "slot \<Rightarrow> host \<Rightarrow> (string \<Rightarrow> string) \<Rightarrow> bool \<Rightarrow> (telem + string option \<times> string option \<times> bool) result" where
  "choose_backend sl h sha crossed =
     go_on (docker_ready sl h) (\<lambda>(docker, ready).
       if ready then go_on (image_gate sl h sha (the docker)) (\<lambda>armed. Inr (Inr (None, docker, armed)))
       else go_on (bwrap_instead sl h crossed docker) (\<lambda>b. Inr (Inr (Some b, docker, False))))"

fun text_of :: "pyv \<Rightarrow> string" where
  "text_of (VStr s) = s"
| "text_of _ = []"

fun text_option :: "pyv \<Rightarrow> string option" where
  "text_option (VStr s) = Some s"
| "text_option _ = None"

definition run ::
  "env \<Rightarrow> (string \<Rightarrow> string) \<Rightarrow> host \<Rightarrow> place \<Rightarrow> string fs \<Rightarrow> (string \<Rightarrow> string) \<Rightarrow> string \<Rightarrow> pyv \<Rightarrow> pyv \<Rightarrow> string
    \<Rightarrow> pyv \<Rightarrow> pyv \<Rightarrow> (telem + call) result" where
  "run e tailing h pc fs sha nonce code test lane imv timeout =
     (let sl = \<lparr>sl_env = e, sl_tail = tailing, sl_lane = lane, sl_image = fst (normalise_image e imv), sl_backend = []\<rparr> in
      if \<not> enabled e then refuse sl ''disabled'' []
      else bindR (build_run_config e imv timeout) (\<lambda>conf. case conf of
        Inl err \<Rightarrow> refuse sl ''invalid_config'' err
      | Inr cf \<Rightarrow>
          if validate_sources code test \<noteq> [] then refuse sl ''input_rejected'' (validate_sources code test)
          else bindR (ho_payload h) (\<lambda>_.
          if docker_env e h 0 = None then untrusted (on_preseal sl)
          else case preseal_crossed e h of None \<Rightarrow> untrusted (on_preseal sl) | Some crossed \<Rightarrow>
          go_on (receipt_gate sl pc fs sha nonce (text_of code) (text_option test)) (\<lambda>ctx.
          go_on (choose_backend sl h sha crossed) (\<lambda>(bwrap, docker, armed).
          let backend = (if preseal e then if bwrap \<noteq> None then ''bwrap'' else ''docker'' else []) in
          go_on (worktree_gate (sl\<lparr>sl_backend := backend\<rparr>) h) (\<lambda>dir.
            Inr (Inr \<lparr>ca_config = cf, ca_bwrap = bwrap, ca_docker = docker, ca_pull_never = armed,
                      ca_worktree = dir, ca_receipt = ctx, ca_backend = backend\<rparr>)))))))"

section \<open>The input directory\<close>

datatype node_kind = Regular | Directory | OtherKind nat

record node_stat =
  ns_dev :: int
  ns_ino :: int
  ns_uid :: int
  ns_gid :: int
  ns_links :: int
  ns_kind :: node_kind
  ns_mode :: nat
  ns_size :: nat

definition same_owned_node :: "node_stat \<Rightarrow> node_stat \<Rightarrow> bool" where
  "same_owned_node a b \<longleftrightarrow>
     ns_dev a = ns_dev b \<and> ns_ino a = ns_ino b \<and> ns_uid a = ns_uid b \<and> ns_gid a = ns_gid b \<and>
     ns_links a = ns_links b \<and> ns_kind a = ns_kind b"

text \<open>The answers while one file is written; \<open>fi_written k\<close> is the count of the \<open>k\<close>-th write.\<close>

record file_io =
  fi_open :: "unit result"
  fi_before :: "node_stat result"
  fi_written :: "nat \<Rightarrow> int result"
  fi_chmod :: "unit result"
  fi_after :: "node_stat result"
  fi_path :: "node_stat result"

function write_all :: "(nat \<Rightarrow> int result) \<Rightarrow> nat \<Rightarrow> nat \<Rightarrow> unit result" where
  "write_all w k left =
     (if left = 0 then Inr ()
      else case w k of
          Inl x \<Rightarrow> Inl x
        | Inr i \<Rightarrow> if i \<le> 0 \<or> int left < i then Inl (OSError ''sandbox bind-input partial write failed'')
                   else write_all w (Suc k) (left - nat i))"
  by auto

termination by (relation "measure (\<lambda>(w, k, left). left)") auto

declare write_all.simps [simp del]

definition file_done :: "int \<Rightarrow> nat \<Rightarrow> node_stat \<Rightarrow> node_stat \<Rightarrow> bool" where
  "file_done uid sz a b \<longleftrightarrow>
     same_owned_node a b \<and> ns_kind b = Regular \<and> ns_mode b = 420 \<and> ns_uid b = uid \<and> ns_links b = 1 \<and>
     ns_size b = sz"

definition write_bind_input_file :: "int \<Rightarrow> string \<Rightarrow> string \<Rightarrow> file_io \<Rightarrow> unit result" where
  "write_bind_input_file uid name content io =
     (if name \<noteq> ''code.py'' \<and> name \<noteq> ''test_candidate.py'' then Inl (ValueError ''invalid sandbox bind-input filename'')
      else if max_source < int (utf8_length content) then Inl (ValueError ''sandbox bind-input file exceeds source bound'')
      else bindR (fi_open io) (\<lambda>_. bindR (fi_before io) (\<lambda>before.
        if ns_kind before \<noteq> Regular \<or> ns_uid before \<noteq> uid \<or> ns_links before \<noteq> 1 \<or> ns_size before \<noteq> 0
        then Inl (OSError ''unsafe sandbox bind-input file identity'')
        else bindR (write_all (fi_written io) 0 (utf8_length content)) (\<lambda>_.
        bindR (fi_chmod io) (\<lambda>_. bindR (fi_after io) (\<lambda>after.
        if \<not> file_done uid (utf8_length content) before after
        then Inl (OSError ''unsafe sandbox bind-input file after write'')
        else bindR (fi_path io) (\<lambda>path_info.
        if \<not> file_done uid (utf8_length content) after path_info
        then Inl (OSError ''sandbox bind-input file path changed after write'') else Inr ())))))))"

text \<open>The answers while the directory is made; the last is the resolved directory and its parent.\<close>

record dir_io =
  di_root :: "node_stat result"
  di_mkdir :: "unit result"
  di_open :: "unit result"
  di_before :: "node_stat result"
  di_chmod :: "unit result"
  di_widened :: "node_stat result"
  di_code :: file_io
  di_test :: file_io
  di_final :: "node_stat result"
  di_path :: "node_stat result"
  di_resolved :: "(string \<times> string) result"

definition own_dir :: "int \<Rightarrow> node_stat \<Rightarrow> bool" where
  "own_dir uid n \<longleftrightarrow> ns_kind n = Directory \<and> ns_uid n = uid \<and> 2 \<le> ns_links n"

definition prepare_bind_input ::
  "int \<Rightarrow> string \<Rightarrow> string \<Rightarrow> string option \<Rightarrow> dir_io \<Rightarrow> string result" where
  "prepare_bind_input uid tmp code test io =
     bindR (di_root io) (\<lambda>r.
     if \<not> own_dir uid r \<or> ns_mode r mod 64 \<noteq> 0 then Inl (OSError ''unsafe sandbox temporary root'')
     else bindR (di_mkdir io) (\<lambda>_. bindR (di_open io) (\<lambda>_. bindR (di_before io) (\<lambda>before.
     if \<not> own_dir uid before then Inl (OSError ''unsafe sandbox bind-input directory identity'')
     else bindR (di_chmod io) (\<lambda>_. bindR (di_widened io) (\<lambda>widened.
     if \<not> same_owned_node before widened \<or> \<not> own_dir uid widened \<or> ns_mode widened \<noteq> 493
     then Inl (OSError ''unsafe sandbox bind-input directory mode'')
     else bindR (write_bind_input_file uid ''code.py'' code (di_code io)) (\<lambda>_.
     bindR (case test of None \<Rightarrow> Inr () | Some t \<Rightarrow> write_bind_input_file uid ''test_candidate.py'' t (di_test io)) (\<lambda>_.
     bindR (di_final io) (\<lambda>final. bindR (di_path io) (\<lambda>path_info.
     if \<not> same_owned_node widened final \<or> \<not> same_owned_node final path_info \<or> \<not> own_dir uid path_info \<or>
        ns_mode final \<noteq> 493 \<or> ns_mode path_info \<noteq> 493
     then Inl (OSError ''sandbox bind-input directory changed during preparation'')
     else bindR (di_resolved io) (\<lambda>(dir, parent).
     if parent \<noteq> tmp then Inl (ValueError ''sandbox bind-input escaped temporary root'') else Inr dir)))))))))))"

section \<open>The command line\<close>

definition mask_sockets :: "env \<Rightarrow> bool" where
  "mask_sockets e \<longleftrightarrow>
     py_lower (py_strip (getenv e ''AGI_V8_SANDBOX_MASK_RUNTIME_SOCKETS'' ''true'')) \<notin> {''false'', ''0''}"

definition build_bwrap_argv ::
  "env \<Rightarrow> string \<Rightarrow> string \<Rightarrow> string \<Rightarrow> string \<Rightarrow> string \<Rightarrow> string option \<Rightarrow> string list" where
  "build_bwrap_argv e bwrap entry input work python repo =
     [bwrap, ''--unshare-net'', ''--unshare-pid'', ''--unshare-ipc'', ''--unshare-uts'', ''--unshare-cgroup-try'',
      ''--die-with-parent'', ''--new-session'', ''--ro-bind'', ''/'', ''/''] @
     (if mask_sockets e then [''--tmpfs'', ''/run''] else []) @
     [''--proc'', ''/proc'', ''--dev'', ''/dev'', ''--tmpfs'', ''/tmp'', ''--dir'', ''/tmp/sandbox'',
      ''--bind'', work, ''/tmp/work'', ''--ro-bind'', input, ''/tmp/sandbox/input'',
      ''--ro-bind'', entry, ''/tmp/sandbox/entry.py''] @
     (case repo of None \<Rightarrow> [] | Some d \<Rightarrow> [''--ro-bind'', d, ''/tmp/sandbox/repo'']) @
     [''--chdir'', ''/tmp/work'', python, ''/tmp/sandbox/entry.py'']"

definition build_isolation_args ::
  "env \<Rightarrow> string \<Rightarrow> string option \<Rightarrow> int option \<Rightarrow> int option \<Rightarrow> bool \<Rightarrow> bool \<Rightarrow> string list result" where
  "build_isolation_args e img docker memory pids pull_never interactive =
     bindR (case memory of Some m \<Rightarrow> Inr m | None \<Rightarrow> clamped_int_from_env e memory_knob 512 64 4096) (\<lambda>m.
     bindR (case pids of Some p \<Rightarrow> Inr p | None \<Rightarrow> clamped_int_from_env e pids_knob 64 8 1024) (\<lambda>p.
       Inr ([if docker = None \<or> docker = Some [] then ''docker'' else the docker, ''run'', ''--rm''] @
            (if pull_never then [''--pull=never''] else []) @
            (if interactive then [''-i''] else []) @
            [''--network=none'', ''--read-only'', ''--tmpfs'', ''/tmp:size=64m'', ''--memory='' @ int_text m @ ''m'',
             ''--cpus=1'', ''--pids-limit='' @ int_text p, ''--user'', ''65532:65532'', img])))"

definition receipt_flag :: string where "receipt_flag = ''AGI_V8_SANDBOX_GRADE_RECEIPT_ENABLED''"

record launch =
  la_argv :: "string list"
  la_env :: "(string \<times> string) list"
  la_timeout :: rat
  la_stdin :: "string option"
  la_cidfile :: string

text \<open>The place of one call: its temporary root, the answers while its input is made and while the
  working directory is made and resolved, the harness, the interpreter, and the text of an exception.\<close>

record bench =
  be_uid :: int
  be_root :: string
  be_input :: dir_io
  be_mkwork :: "unit result"
  be_work :: "string result"
  be_entry :: string
  be_python :: string
  be_sink :: "exn \<Rightarrow> string"

definition docker_argv :: "env \<Rightarrow> bench \<Rightarrow> call \<Rightarrow> string \<Rightarrow> string list result" where
  "docker_argv e b c input =
     bindR (build_isolation_args e (cf_image (ca_config c)) (ca_docker c) (Some (cf_memory (ca_config c)))
              (Some (cf_pids (ca_config c))) (ca_pull_never c) (ca_receipt c \<noteq> None)) (\<lambda>base.
       Inr (take 2 base @
            [''--cidfile'', be_root b @ ''/container.cid'', ''-v'', input @ '':/sandbox/input:ro''] @
            (if ca_receipt c \<noteq> None then [''-e'', receipt_flag @ ''=true''] else []) @
            (case ca_worktree c of
               None \<Rightarrow> []
             | Some d \<Rightarrow> [''-v'', d @ '':/sandbox/repo:ro'', ''-e'', ''PYTHONPATH=/sandbox/repo'']) @
            drop 2 base))"

definition bwrap_env :: "call \<Rightarrow> (string \<times> string) list" where
  "bwrap_env c =
     subprocess_env @ [(''AGI_V8_SANDBOX_INPUT_DIR'', ''/tmp/sandbox/input'')] @
     (if ca_worktree c \<noteq> None then [(''PYTHONPATH'', ''/tmp/sandbox/repo'')] else []) @
     (if ca_receipt c \<noteq> None then [(receipt_flag, ''true'')] else [])"

definition make_launch ::
  "call \<Rightarrow> bench \<Rightarrow> string list \<Rightarrow> (string \<times> string) list \<Rightarrow> launch" where
  "make_launch c b argv xenv =
     \<lparr>la_argv = argv, la_env = xenv, la_timeout = cf_timeout (ca_config c),
      la_stdin = map_option rc_stdin (ca_receipt c), la_cidfile = be_root b @ ''/container.cid''\<rparr>"

definition prepare_sandbox_launch ::
  "slot \<Rightarrow> host \<Rightarrow> bench \<Rightarrow> call \<Rightarrow> string \<Rightarrow> string option \<Rightarrow> (telem + launch) result" where
  "prepare_sandbox_launch sl h b c code test =
     (case bindR (prepare_bind_input (be_uid b) (be_root b) code test (be_input b)) (\<lambda>dir.
             bindR (if ca_bwrap c \<noteq> None then be_mkwork b else Inr ()) (\<lambda>_. Inr dir)) of
        Inl x \<Rightarrow> bindR (absorb (sl_env sl) x ()) (\<lambda>_.
                   refuse sl ''exception'' (sl_tail sl (''input prep: '' @ be_sink b x)))
      | Inr dir \<Rightarrow>
          (case ca_bwrap c of
             Some p \<Rightarrow> bindR (be_work b) (\<lambda>work.
               Inr (Inr (make_launch c b
                 (build_bwrap_argv (sl_env sl) p (be_entry b) dir work (be_python b) (ca_worktree c)) (bwrap_env c))))
           | None \<Rightarrow> bindR (docker_argv (sl_env sl) b c dir) (\<lambda>argv.
               case docker_env (sl_env sl) h 9 of
                 None \<Rightarrow> untrusted (on_docker sl)
               | Some denv \<Rightarrow> Inr (Inr (make_launch c b argv denv)))))"

section \<open>The execution\<close>

datatype spawned = Exited int string string | TimedOut string | Failed exn string

definition container_id_ok :: "string \<Rightarrow> bool" where
  "container_id_ok s \<longleftrightarrow>
     12 \<le> length s \<and> length s \<le> 64 \<and>
     list_all (\<lambda>c. char_in 48 57 c \<or> char_in 97 102 c \<or> char_in 65 70 c) s"

text \<open>The commands that remove the container.\<close>

definition cleanup_container :: "env \<Rightarrow> host \<Rightarrow> string \<Rightarrow> string result \<Rightarrow> string list list result" where
  "cleanup_container e h docker cid =
     (case cid of
        Inl x \<Rightarrow> absorb e x []
      | Inr t \<Rightarrow>
          if \<not> container_id_ok (py_strip t) then Inr []
          else let argv = [docker, ''rm'', ''-f'', py_strip t] in
            (case docker_env e h 10 of
               None \<Rightarrow> absorb e (ValueError ''pre-seal Docker endpoint authority unavailable'') []
             | Some denv \<Rightarrow> (case ho_spawn h argv denv of Inl x \<Rightarrow> absorb e x [argv] | Inr _ \<Rightarrow> Inr [argv])))"

text \<open>The clean-up that was done, and the row or the result of the process. A failure carries its text.\<close>

definition execute_sandbox_launch ::
  "slot \<Rightarrow> host \<Rightarrow> call \<Rightarrow> string result \<Rightarrow> spawned \<Rightarrow> (string list list \<times> (telem + int \<times> string \<times> string)) result" where
  "execute_sandbox_launch sl h c cid outcome =
     (case outcome of
        Exited rc out err \<Rightarrow> Inr ([], Inr (rc, out, err))
      | TimedOut t \<Rightarrow>
          bindR (absorb (sl_env sl) (RuntimeError t) ()) (\<lambda>_.
          bindR (if ca_bwrap c = None then cleanup_container (sl_env sl) h (the (ca_docker c)) cid else Inr []) (\<lambda>done.
          bindR (stub_row sl ''timeout'' (cf_timeout (ca_config c)) (sl_tail sl t) (-1)) (\<lambda>row. Inr (done, Inl row))))
      | Failed x t \<Rightarrow>
          bindR (absorb (sl_env sl) x ()) (\<lambda>_.
          bindR (stub sl ''exception'' (sl_tail sl t) (-1)) (\<lambda>row. Inr ([], Inl row))))"

section \<open>Bounds\<close>

lemma bounded_int_bounds:
  assumes "bounded_int_from_env e name dflt lo hi = Inr (v, [])" "lo \<le> dflt" "dflt \<le> hi"
  shows "lo \<le> v \<and> v \<le> hi"
  using assms by (auto simp: bounded_int_from_env_def absorb_def Let_def split: option.splits if_splits)

lemma clamped_int_bounds:
  assumes "clamped_int_from_env e name dflt lo hi = Inr v" "lo \<le> dflt" "dflt \<le> hi"
  shows "lo \<le> v \<and> v \<le> hi"
  using assms bounded_int_bounds [of e name dflt lo hi v]
  by (auto simp: clamped_int_from_env_def split: if_splits)

lemma bounded_timeout_bounds: "bounded_timeout e t = Inr (r, []) \<Longrightarrow> 1 \<le> r \<and> r \<le> 300"
  by (auto simp: bounded_timeout_def absorb_def Let_def split: pyv.splits sum.splits if_splits)

lemma normalise_image_safe: "normalise_image e imv = (s, []) \<Longrightarrow> safe_image s"
  by (auto simp: normalise_image_def Let_def split: pyv.splits if_splits)

definition in_bounds :: "run_config \<Rightarrow> bool" where
  "in_bounds cf \<longleftrightarrow>
     safe_image (cf_image cf) \<and> 1 \<le> cf_timeout cf \<and> cf_timeout cf \<le> 300 \<and>
     64 \<le> cf_memory cf \<and> cf_memory cf \<le> 4096 \<and> 8 \<le> cf_pids cf \<and> cf_pids cf \<le> 1024"

lemma config_in_bounds:
  assumes "build_run_config e imv timeout = Inr (Inr cf)"
  shows "in_bounds cf" "cf_image cf = fst (normalise_image e imv)"
proof -
  obtain img ierr where img: "normalise_image e imv = (img, ierr)" by (cases "normalise_image e imv")
  then have i: "ierr = []" using assms by (auto simp: build_run_config_def split: if_splits)
  obtain t where t: "bounded_timeout e timeout = Inr (t, [])"
    using assms img i by (auto simp: build_run_config_def split: if_splits)
  obtain m where m: "bounded_int_from_env e memory_knob 512 64 4096 = Inr (m, [])"
    using assms img i t by (auto simp: build_run_config_def split: if_splits)
  obtain p where p: "bounded_int_from_env e pids_knob 64 8 1024 = Inr (p, [])"
    using assms img i t m by (auto simp: build_run_config_def split: if_splits)
  have cf: "cf = \<lparr>cf_image = img, cf_timeout = t, cf_memory = m, cf_pids = p\<rparr>"
    using assms img i t m p by (simp add: build_run_config_def)
  show "in_bounds cf"
    using cf normalise_image_safe img i bounded_timeout_bounds [OF t] bounded_int_bounds [OF m]
      bounded_int_bounds [OF p] by (simp add: in_bounds_def)
  show "cf_image cf = fst (normalise_image e imv)" using cf img by simp
qed

section \<open>What was checked before a call\<close>

lemma go_on_passes: "go_on m f = Inr (Inr b) \<longleftrightarrow> (\<exists>a. m = Inr (Inr a) \<and> f a = Inr (Inr b))"
  by (cases m) (auto simp: go_on_def split: sum.splits)

lemma refusals_refuse [simp]:
  "refuse sl reason err \<noteq> Inr (Inr a)" "untrusted sl \<noteq> Inr (Inr a)"
  by (auto simp: refuse_def untrusted_def)

lemma recheck_passes: "recheck sl h n k = Inr (Inr a) \<Longrightarrow> k = Inr (Inr a)"
  by (auto simp: recheck_def split: if_splits)

lemma recheck_refuses [simp]: "recheck sl h n (refuse sl' reason err) \<noteq> Inr (Inr a)"
  by (auto dest: recheck_passes)

lemma docker_ready_found:
  assumes "docker_ready sl h = Inr (Inr (docker, True))"
  obtains p where "docker = Some p" "docker_for_run (sl_env sl) h = Inr (Some (Some p))"
    "docker_backend_available (sl_env sl) h p = Inr (Some True)"
  using assms by (auto simp: docker_ready_def split: option.splits bool.splits dest: recheck_passes)

text \<open>An armed pin was compared with the answer of the client.\<close>

lemma pin_compared:
  assumes "image_id_trusted e h img p = Inr (Some (True, armed, err))"
  shows "armed \<longleftrightarrow> pinned_id e \<noteq> []"
    "armed \<Longrightarrow> \<exists>denv out. docker_env e h 5 = Some denv \<and> py_strip out = pinned_id e \<and>
       ho_spawn h [p, ''image'', ''inspect'', ''--format'', ''{{.Id}}'', img] denv = Inr (0, out)"
  using assms
  by (auto simp: image_id_trusted_def ask_docker_def absorb_def Let_def split: if_splits option.splits sum.splits)

lemma digest_compared:
  assumes "entry_digest_trusted e h sha img p = Inr (Some (True, err))" "entry_digest_check e"
  shows "\<exists>text denv out. ho_entry h = Inr text \<and> docker_env e h 7 = Some denv \<and> py_strip out = sha text \<and>
     ho_spawn h [p, ''image'', ''inspect'', ''--format'', ''{{index .Config.Labels \"agi_v8.entry_sha256\"}}'', img]
       denv = Inr (0, out)"
  using assms
  by (auto simp: entry_digest_trusted_def ask_docker_def absorb_def Let_def split: if_splits option.splits sum.splits)

definition reviewed_image :: "env \<Rightarrow> host \<Rightarrow> (string \<Rightarrow> string) \<Rightarrow> string \<Rightarrow> string \<Rightarrow> bool \<Rightarrow> bool" where
  "reviewed_image e h sha img p armed \<longleftrightarrow>
     image_exists e h img p = Inr (Some True) \<and> (armed \<longleftrightarrow> pinned_id e \<noteq> []) \<and>
     (armed \<longrightarrow> (\<exists>denv out. docker_env e h 5 = Some denv \<and> py_strip out = pinned_id e \<and>
        ho_spawn h [p, ''image'', ''inspect'', ''--format'', ''{{.Id}}'', img] denv = Inr (0, out))) \<and>
     (entry_digest_check e \<longrightarrow> (\<exists>text denv out. ho_entry h = Inr text \<and> docker_env e h 7 = Some denv \<and>
        py_strip out = sha text \<and>
        ho_spawn h [p, ''image'', ''inspect'', ''--format'', ''{{index .Config.Labels \"agi_v8.entry_sha256\"}}'', img]
          denv = Inr (0, out)))"

lemma image_gate_passes:
  assumes "image_gate sl h sha p = Inr (Inr armed)"
  shows "reviewed_image (sl_env sl) h sha (sl_image sl) p armed"
proof -
  let ?digest = "entry_digest_trusted (sl_env sl) h sha (sl_image sl) p"
  have found: "image_exists (sl_env sl) h (sl_image sl) p = Inr (Some True)"
    using assms by (auto simp: image_gate_def split: if_splits)
  then obtain r where r: "image_id_trusted (sl_env sl) h (sl_image sl) p = Inr (Some r)"
    using assms by (auto simp: image_gate_def split: option.splits)
  obtain trusted on err where parts: "r = (trusted, on, err)" by (cases r)
  then have trusted using assms found r by (auto simp: image_gate_def split: if_splits)
  with assms found r parts obtain q where q: "?digest = Inr (Some q)"
    by (auto simp: image_gate_def split: option.splits)
  have "fst q \<and> on = armed"
    using assms found r parts \<open>trusted\<close> q by (cases q) (auto simp: image_gate_def split: if_splits)
  then obtain err' where "?digest = Inr (Some (True, err'))" and pin:
    "image_id_trusted (sl_env sl) h (sl_image sl) p = Inr (Some (True, armed, err))"
    using q r parts \<open>trusted\<close> by (cases q) auto
  then show ?thesis
    using found pin_compared [OF pin] digest_compared unfolding reviewed_image_def by blast
qed

definition isolated :: "env \<Rightarrow> host \<Rightarrow> (string \<Rightarrow> string) \<Rightarrow> string \<Rightarrow> string option \<Rightarrow> string option \<Rightarrow> bool \<Rightarrow> bool" where
  "isolated e h sha img bwrap docker armed \<longleftrightarrow>
     (case bwrap of
        None \<Rightarrow> \<exists>p. docker = Some p \<and> docker_for_run e h = Inr (Some (Some p)) \<and>
          docker_backend_available e h p = Inr (Some True) \<and> reviewed_image e h sha img p armed
      | Some b \<Rightarrow> bwrap_enabled e \<and> executable e h ''bwrap'' = Inr (Some b) \<and> preseal_crossed e h = Some False)"

lemma backend_isolated:
  assumes "choose_backend sl h sha crossed = Inr (Inr (bwrap, docker, armed))"
    "preseal_crossed (sl_env sl) h = Some crossed"
  shows "isolated (sl_env sl) h sha (sl_image sl) bwrap docker armed"
proof -
  obtain found ready where ready: "docker_ready sl h = Inr (Inr (found, ready))"
    using assms(1) by (auto simp: choose_backend_def go_on_passes)
  show ?thesis
  proof (cases ready)
    case True
    with ready obtain p where p: "found = Some p" "docker_for_run (sl_env sl) h = Inr (Some (Some p))"
      "docker_backend_available (sl_env sl) h p = Inr (Some True)" by (auto elim: docker_ready_found)
    then show ?thesis
      using assms(1) ready True image_gate_passes
      by (auto simp: choose_backend_def go_on_passes isolated_def)
  next
    case False
    then show ?thesis
      using assms ready
      by (auto simp: choose_backend_def go_on_passes isolated_def bwrap_instead_def Let_def split: if_splits option.splits)
  qed
qed

section \<open>The launch\<close>

lemma take_drop_isolation:
  assumes "build_isolation_args e img docker (Some m) (Some p) pull_never interactive = Inr base"
  obtains opts where "drop 2 base = opts @ [img]"
    "{''--network=none'', ''--read-only'', ''--memory='' @ int_text m @ ''m'', ''--pids-limit='' @ int_text p} \<subseteq> set opts"
    "pull_never \<Longrightarrow> ''--pull=never'' \<in> set opts"
proof -
  let ?opts = "[''--rm''] @ (if pull_never then [''--pull=never''] else []) @ (if interactive then [''-i''] else []) @
    [''--network=none'', ''--read-only'', ''--tmpfs'', ''/tmp:size=64m'', ''--memory='' @ int_text m @ ''m'',
     ''--cpus=1'', ''--pids-limit='' @ int_text p, ''--user'', ''65532:65532'']"
  have "drop 2 base = ?opts @ [img]" using assms by (auto simp: build_isolation_args_def)
  then show thesis by (rule that) auto
qed

text \<open>The options of a confined process.\<close>

definition confined :: "env \<Rightarrow> call \<Rightarrow> string list \<Rightarrow> bool" where
  "confined e c argv \<longleftrightarrow>
     (if ca_bwrap c = None
      then \<exists>opts. argv = opts @ [cf_image (ca_config c)] \<and>
             {''--network=none'', ''--read-only'', ''--memory='' @ int_text (cf_memory (ca_config c)) @ ''m'',
              ''--pids-limit='' @ int_text (cf_pids (ca_config c))} \<subseteq> set opts \<and>
             (ca_pull_never c \<longrightarrow> ''--pull=never'' \<in> set opts)
      else \<exists>pre post. argv = pre @ [''--ro-bind'', ''/'', ''/''] @ (if mask_sockets e then [''--tmpfs'', ''/run''] else []) @ post \<and>
             {''--unshare-net'', ''--unshare-pid'', ''--unshare-ipc'', ''--die-with-parent''} \<subseteq> set pre)"

lemma bwrap_confined:
  assumes "ca_bwrap c = Some p"
  shows "confined e c (build_bwrap_argv e p entry input work python repo)"
proof -
  let ?pre = "[p, ''--unshare-net'', ''--unshare-pid'', ''--unshare-ipc'', ''--unshare-uts'', ''--unshare-cgroup-try'',
    ''--die-with-parent'', ''--new-session'']"
  have "{''--unshare-net'', ''--unshare-pid'', ''--unshare-ipc'', ''--die-with-parent''} \<subseteq> set ?pre" by simp
  moreover have "\<exists>post. build_bwrap_argv e p entry input work python repo =
      ?pre @ [''--ro-bind'', ''/'', ''/''] @ (if mask_sockets e then [''--tmpfs'', ''/run''] else []) @ post"
    by (simp add: build_bwrap_argv_def)
  ultimately show ?thesis using assms unfolding confined_def by (simp only: option.simps if_False) blast
qed

lemma docker_confined:
  assumes "docker_argv e b c input = Inr argv" "ca_bwrap c = None"
  shows "confined e c argv"
proof -
  obtain base where base: "build_isolation_args e (cf_image (ca_config c)) (ca_docker c) (Some (cf_memory (ca_config c)))
      (Some (cf_pids (ca_config c))) (ca_pull_never c) (ca_receipt c \<noteq> None) = Inr base"
    using assms(1) by (auto simp: docker_argv_def)
  obtain opts where opts: "drop 2 base = opts @ [cf_image (ca_config c)]"
    "{''--network=none'', ''--read-only'', ''--memory='' @ int_text (cf_memory (ca_config c)) @ ''m'',
      ''--pids-limit='' @ int_text (cf_pids (ca_config c))} \<subseteq> set opts"
    "ca_pull_never c \<Longrightarrow> ''--pull=never'' \<in> set opts"
    using take_drop_isolation [OF base] by blast
  obtain front where "argv = front @ drop 2 base"
    using assms(1) base unfolding docker_argv_def by (auto simp: append_assoc [symmetric] simp del: append_assoc)
  then have "argv = (front @ opts) @ [cf_image (ca_config c)]" using opts(1) by simp
  then show ?thesis using opts(2,3) assms(2) unfolding confined_def by (auto intro!: exI [of _ "front @ opts"])
qed

text \<open>Only the standard input depends on what the receipt is; the command and its environment depend on
  whether there is one.\<close>

lemma docker_argv_receipt:
  "ca_receipt c \<noteq> None \<Longrightarrow> docker_argv e b (c\<lparr>ca_receipt := Some ctx\<rparr>) input = docker_argv e b c input"
  by (simp add: docker_argv_def)

lemma bwrap_env_receipt: "ca_receipt c \<noteq> None \<Longrightarrow> bwrap_env (c\<lparr>ca_receipt := Some ctx\<rparr>) = bwrap_env c"
  by (simp add: bwrap_env_def)

lemma make_launch_receipt:
  "make_launch (c\<lparr>ca_receipt := Some ctx\<rparr>) b argv xenv =
     (make_launch c b argv xenv)\<lparr>la_stdin := Some (rc_stdin ctx)\<rparr>"
  by (simp add: make_launch_def)

lemma launch_cases:
  assumes "prepare_sandbox_launch sl h b c code test = Inr (Inr l)"
  obtains (bwrap) dir p work where
    "prepare_bind_input (be_uid b) (be_root b) code test (be_input b) = Inr dir" "ca_bwrap c = Some p" "be_mkwork b = Inr ()"
    "be_work b = Inr work"
    "l = make_launch c b (build_bwrap_argv (sl_env sl) p (be_entry b) dir work (be_python b) (ca_worktree c)) (bwrap_env c)"
  | (docker) dir argv denv where
    "prepare_bind_input (be_uid b) (be_root b) code test (be_input b) = Inr dir" "ca_bwrap c = None"
    "docker_argv (sl_env sl) b c dir = Inr argv" "docker_env (sl_env sl) h 9 = Some denv" "l = make_launch c b argv denv"
proof -
  let ?input = "prepare_bind_input (be_uid b) (be_root b) code test (be_input b)"
  obtain dir where dir: "?input = Inr dir"
    using assms by (cases ?input) (auto simp: prepare_sandbox_launch_def)
  show thesis
  proof (cases "ca_bwrap c")
    case None
    then show thesis
      using assms dir docker by (auto simp: prepare_sandbox_launch_def split: option.splits)
  next
    case (Some p)
    then have "be_mkwork b = Inr ()"
      using assms dir by (cases "be_mkwork b") (auto simp: prepare_sandbox_launch_def)
    then show thesis using assms dir Some bwrap by (auto simp: prepare_sandbox_launch_def)
  qed
qed

lemma receipt_gate_armed:
  assumes "receipt_gate sl pc fs sha nonce code test = Inr (Inr ctx)"
  shows "ctx \<noteq> None \<longleftrightarrow> grade_receipt_enabled (sl_env sl)"
proof (cases "grade_receipt_enabled (sl_env sl)")
  case True
  then obtain r where "build_receipt_context (sl_env sl) pc fs sha nonce code test = Inr r"
    using assms by (auto simp: receipt_gate_def)
  then show ?thesis using assms True by (cases r) (auto simp: receipt_gate_def)
qed (use assms in \<open>simp add: receipt_gate_def\<close>)

lemma worktree_gate_armed:
  assumes "worktree_gate sl h = Inr (Inr dir)"
  shows "dir \<noteq> None \<longleftrightarrow> worktree_enabled (sl_env sl)"
  using assms unfolding worktree_gate_def
  by (cases "snd (ensure_repo_snapshot (ho_which h) (ho_snapshot h))"; cases "worktree_enabled (sl_env sl)") auto

section \<open>Properties\<close>

text \<open>C8: Nothing reaches the operation but an isolated call. When the sandbox call does not refuse, the
  gate is on, timeout, memory and processes are within their bounds and the image name is plain, the
  sources are texts of bounded size, and a receipt is there exactly when its gate is armed. Either Docker
  is ready, the image is present, and every armed pin (image identity, digest of the harness) was
  compared and matched; or the other isolation is armed and installed and no namespace was crossed. The
  code never runs outside an isolation.\<close>

theorem run_isolated:
  assumes "run e tailing h pc fs sha nonce code test lane imv timeout = Inr (Inr c)"
  shows "enabled e \<and> in_bounds (ca_config c) \<and> validate_sources code test = [] \<and>
    (ca_receipt c \<noteq> None \<longleftrightarrow> grade_receipt_enabled e) \<and> (ca_worktree c \<noteq> None \<longleftrightarrow> worktree_enabled e) \<and>
    isolated e h sha (cf_image (ca_config c)) (ca_bwrap c) (ca_docker c) (ca_pull_never c)"
proof -
  let ?sl = "\<lparr>sl_env = e, sl_tail = tailing, sl_lane = lane, sl_image = fst (normalise_image e imv), sl_backend = []\<rparr>"
  note opened = assms [unfolded run_def Let_def]
  have on: "enabled e" using opened by (simp split: if_splits)
  obtain conf where "build_run_config e imv timeout = Inr conf" using opened on by auto
  then obtain cf where cf: "build_run_config e imv timeout = Inr (Inr cf)" using opened on by (cases conf) auto
  have src: "validate_sources code test = []" using opened on cf by (simp split: if_splits)
  obtain u where "ho_payload h = Inr u" using opened on cf src by auto
  then have rest: "docker_env e h 0 \<noteq> None" "preseal_crossed e h \<noteq> None"
    using opened on cf src by (auto split: if_splits option.splits)
  then obtain crossed where crossed: "preseal_crossed e h = Some crossed" by auto
  obtain ctx where ctx: "receipt_gate ?sl pc fs sha nonce (text_of code) (text_option test) = Inr (Inr ctx)"
    using opened on cf src \<open>ho_payload h = Inr u\<close> rest(1) crossed by (auto simp: go_on_passes)
  then obtain bwrap docker armed where backend: "choose_backend ?sl h sha crossed = Inr (Inr (bwrap, docker, armed))"
    using opened on cf src \<open>ho_payload h = Inr u\<close> rest(1) crossed by (auto simp: go_on_passes)
  then obtain sl' dir bk where dir: "worktree_gate sl' h = Inr (Inr dir)" "sl_env sl' = e" and
    c: "c = \<lparr>ca_config = cf, ca_bwrap = bwrap, ca_docker = docker, ca_pull_never = armed, ca_worktree = dir,
      ca_receipt = ctx, ca_backend = bk\<rparr>"
    using opened on cf src \<open>ho_payload h = Inr u\<close> rest(1) crossed ctx by (auto simp: go_on_passes)
  have "ctx \<noteq> None \<longleftrightarrow> grade_receipt_enabled e"
    using receipt_gate_armed [OF ctx] by simp
  moreover have "dir \<noteq> None \<longleftrightarrow> worktree_enabled e"
    using worktree_gate_armed [OF dir(1)] dir(2) by simp
  moreover have "isolated e h sha (cf_image cf) bwrap docker armed"
    using backend_isolated [OF backend] crossed config_in_bounds(2) [OF cf] by simp
  ultimately show ?thesis using on src config_in_bounds(1) [OF cf] c by simp
qed

text \<open>One host with a ready Docker, an armed pin and no receipt gate.\<close>

definition wit_id :: string where "wit_id = ''sha256:'' @ replicate 64 CHR ''a''"

definition wit_env :: env where
  "wit_env = [''AGI_V8_SWARM_SANDBOX_ENABLED'' \<mapsto> ''true'', ''AGI_V8_SWARM_SANDBOX_IMAGE_ID'' \<mapsto> wit_id]"

definition wit_snapshot :: snapshot_io where
  "wit_snapshot =
     \<lparr>si_cached = None, si_cached_ok = False, si_ancestors = [], si_mkdtemp = Inr ''/tmp/s'', si_mkdir = Inr (),
      si_archive = Inr 0, si_extract = Inr 0, si_widen = Inr (), si_init = True, si_seal = Inr (False, False),
      si_removed = True\<rparr>"

definition wit_host :: host where
  "wit_host =
     \<lparr>ho_payload = Inr (), ho_captured = (\<lambda>_. Inr VNone), ho_crossed = Inr VNone, ho_trusted_docker = Inr VNone,
      ho_which = (\<lambda>n. Some (''/usr/bin/'' @ n)), ho_resolve = Inr, ho_is_file = (\<lambda>_. True),
      ho_spawn = (\<lambda>argv _. Inr (0, wit_id)), ho_entry = Inr [], ho_snapshot = wit_snapshot\<rparr>"

definition wit_place :: place where
  "wit_place = \<lparr>pc_repo = [''repo''], pc_cwd = [''repo''], pc_home = (\<lambda>_. Some ''/home/u'')\<rparr>"

definition wit_call :: "(telem + call) result" where
  "wit_call =
     run wit_env id wit_host wit_place (\<lambda>_. None) id ''n'' (VStr ''print(1)'') VNone ''lane'' VNone (VInt 10)"

lemma wit_call_runs: "(case wit_call of Inr (Inr c) \<Rightarrow> ca_pull_never c \<and> ca_bwrap c = None | _ \<Rightarrow> False)"
  by code_simp

theorem run_isolated_witness:
  "\<exists>c. wit_call = Inr (Inr c) \<and> in_bounds (ca_config c) \<and>
     isolated wit_env wit_host id (cf_image (ca_config c)) None (ca_docker c) True"
proof -
  obtain c where c: "wit_call = Inr (Inr c)" "ca_pull_never c" "ca_bwrap c = None"
    using wit_call_runs by (auto split: sum.splits)
  then show ?thesis using run_isolated [OF c(1) [unfolded wit_call_def]] by auto
qed


text \<open>The preparation of one call with a receipt.\<close>

definition wit_stat :: "node_kind \<Rightarrow> nat \<Rightarrow> nat \<Rightarrow> node_stat" where
  "wit_stat k mode sz =
     \<lparr>ns_dev = 1, ns_ino = 2, ns_uid = 1000, ns_gid = 1000, ns_links = (if k = Regular then 1 else 2), ns_kind = k,
      ns_mode = mode, ns_size = sz\<rparr>"

definition wit_file :: file_io where
  "wit_file =
     \<lparr>fi_open = Inr (), fi_before = Inr (wit_stat Regular 384 0), fi_written = (\<lambda>_. Inr 4), fi_chmod = Inr (),
      fi_after = Inr (wit_stat Regular 420 8), fi_path = Inr (wit_stat Regular 420 8)\<rparr>"

definition wit_dir :: dir_io where
  "wit_dir =
     \<lparr>di_root = Inr (wit_stat Directory 448 0), di_mkdir = Inr (), di_open = Inr (),
      di_before = Inr (wit_stat Directory 448 0), di_chmod = Inr (), di_widened = Inr (wit_stat Directory 493 0),
      di_code = wit_file, di_test = wit_file, di_final = Inr (wit_stat Directory 493 0),
      di_path = Inr (wit_stat Directory 493 0), di_resolved = Inr (''/tmp/r/input'', ''/tmp/r'')\<rparr>"

definition wit_bench :: bench where
  "wit_bench =
     \<lparr>be_uid = 1000, be_root = ''/tmp/r'', be_input = wit_dir, be_mkwork = Inr (), be_work = Inr ''/tmp/r/work'',
      be_entry = ''/repo/entry.py'', be_python = ''/usr/bin/python3'', be_sink = (\<lambda>_. [])\<rparr>"

definition wit_prepared :: call where
  "wit_prepared =
     \<lparr>ca_config = \<lparr>cf_image = default_image, cf_timeout = 10, cf_memory = 512, cf_pids = 64\<rparr>, ca_bwrap = None,
      ca_docker = Some ''/usr/bin/docker'', ca_pull_never = True, ca_worktree = None, ca_receipt = Some wit_ctx,
      ca_backend = ''docker''\<rparr>"

definition wit_launch :: "(telem + launch) result" where
  "wit_launch = prepare_sandbox_launch wit_slot wit_host wit_bench wit_prepared ''print(1)'' None"

lemma wit_launch_prepared: "(case wit_launch of Inr (Inr l) \<Rightarrow> True | _ \<Rightarrow> False)"
  by code_simp


text \<open>What the input directory holds when its preparation succeeds: regular files of the caller with the
  size of their texts, readable by everyone and writable by the caller only, the same nodes that were
  opened, in a directory that is still the one that was made.\<close>

lemma bind_file_checked:
  assumes "write_bind_input_file uid name content io = Inr ()"
  shows "int (utf8_length content) \<le> max_source"
    "\<exists>a b. fi_before io = Inr a \<and> fi_path io = Inr b \<and> same_owned_node a b \<and> ns_mode b = 420 \<and>
       ns_kind b = Regular \<and> ns_uid b = uid \<and> ns_size b = utf8_length content"
  using assms by (auto simp: write_bind_input_file_def file_done_def same_owned_node_def split: if_splits)

lemma bind_input_checked:
  assumes "prepare_bind_input uid tmp code test io = Inr dir"
  shows "di_resolved io = Inr (dir, tmp)" "write_bind_input_file uid ''code.py'' code (di_code io) = Inr ()"
    "\<exists>a b. di_before io = Inr a \<and> di_path io = Inr b \<and> same_owned_node a b \<and> ns_mode b = 493 \<and> ns_uid b = uid"
  using assms by (auto simp: prepare_bind_input_def own_dir_def same_owned_node_def split: if_splits)

text \<open>A loop of writes ends, whatever the counts; and it succeeds only when the counts add up.\<close>

lemma write_all_sum:
  "write_all w k left = Inr () \<Longrightarrow> \<exists>n. (\<Sum>j = k..<k + n. (case w j of Inr i \<Rightarrow> i | Inl _ \<Rightarrow> 0)) = int left"
proof (induction w k left rule: write_all.induct)
  case (1 w k left)
  show ?case
  proof (cases "left = 0")
    case True
    then show ?thesis by (intro exI [of _ 0]) simp
  next
    case False
    then obtain i where i: "w k = Inr i" "\<not> (i \<le> 0 \<or> int left < i)" "write_all w (Suc k) (left - nat i) = Inr ()"
      using 1(2) by (auto simp: write_all.simps [of w k left] split: sum.splits if_splits)
    from 1(1) [OF False i] obtain n where
      "(\<Sum>j = Suc k..<Suc k + n. (case w j of Inr i \<Rightarrow> i | Inl _ \<Rightarrow> 0)) = int (left - nat i)" by blast
    then have "(\<Sum>j = k..<k + Suc n. (case w j of Inr i \<Rightarrow> i | Inl _ \<Rightarrow> 0)) = int left"
      using i by (subst sum.atLeast_Suc_lessThan) auto
    then show ?thesis by blast
  qed
qed

text \<open>In the strict mode a timeout is raised before the container is removed: the container stays.\<close>

lemma timeout_cleans_up:
  assumes "container_id_ok (py_strip t)" "ca_bwrap c = None" "docker_env (sl_env sl) h 10 = Some denv"
    "ho_spawn h [the (ca_docker c), ''rm'', ''-f'', py_strip t] denv = Inr r"
  shows "execute_sandbox_launch sl h c (Inr t) (TimedOut m) =
    (if strict_enabled (sl_env sl) then Inl (RuntimeError m)
     else bindR (stub_row sl ''timeout'' (cf_timeout (ca_config c)) (sl_tail sl m) (-1)) (\<lambda>row.
       Inr ([[the (ca_docker c), ''rm'', ''-f'', py_strip t]], Inl row)))"
  using assms by (simp add: execute_sandbox_launch_def absorb_def cleanup_container_def)

end
