(* ===== verification/ReviewerCall.thy ===== *)
theory ReviewerCall
  imports CallCost
begin

text \<open>
  One paid review (\<open>_build_cross_model_adversary\<close> and its \<open>_review_fn\<close>, \<open>self_improvement_v8.py\<close>): the
  reviewer is built only with providers on, its payload present and money left; a call reserves the
  whole envelope, asks the provider, and reconciles the reservation with the measured usage. What is
  not in the tree (the reviewer's provider and its output ceiling) is a parameter. Between two accesses
  to the ledger other processes may act: \<open>dk_others k\<close> is what happens before the \<open>k\<close>-th.
\<close>

section \<open>The desk of a review\<close>

record desk =
  dk_env :: env
  dk_host :: host
  dk_umask :: nat
  dk_catalog :: catalog
  dk_sha :: "string \<Rightarrow> string"
  dk_digits :: "rat \<Rightarrow> string"
  dk_write :: "nat \<Rightarrow> wr"
  dk_join :: "nat \<Rightarrow> join_ctx"
  dk_now :: "nat \<Rightarrow> rat"
  dk_fresh :: "nat \<Rightarrow> string"
  dk_others :: "nat \<Rightarrow> ledger_fs \<Rightarrow> ledger_fs"

text \<open>What the provider object shows (\<open>None\<close> for a missing attribute), what its one call answers, and
  the usage it publishes: a plain dict, or nothing.\<close>

record paid_provider =
  pv_max_tokens :: pyv
  pv_max_attempts :: pyv
  pv_prompt_cache :: pyv
  pv_sdk_retries :: pyv
  pv_fallbacks :: pyv
  pv_generate :: "string result"
  pv_last_usage :: "dict option"

text \<open>\<open>v == i\<close> for an integer \<open>i\<close>.\<close>

fun equals_int :: "pyv \<Rightarrow> int \<Rightarrow> bool" where
  "equals_int (VInt j) i \<longleftrightarrow> j = i"
| "equals_int (VBool b) i \<longleftrightarrow> (if b then 1 else 0) = i"
| "equals_int (VFloat r) i \<longleftrightarrow> r = of_int i"
| "equals_int _ i \<longleftrightarrow> False"

definition is_claude :: "string \<Rightarrow> bool" where "is_claude model \<longleftrightarrow> starts ''claude-'' model"
definition is_openrouter :: "string \<Rightarrow> bool" where "is_openrouter model \<longleftrightarrow> CHR ''/'' \<in> set model"

definition int_at :: "dict \<Rightarrow> string \<Rightarrow> int" where
  "int_at d k = (case dict_get d k of VInt i \<Rightarrow> i | _ \<Rightarrow> 0)"

text \<open>The provider must ask for what was priced: once, without a cache, retries or fallbacks.\<close>

definition envelope_drift :: "paid_provider \<Rightarrow> dict \<Rightarrow> string \<Rightarrow> string option" where
  "envelope_drift pv envelope model =
     (if \<not> equals_int (pv_max_tokens pv) (int_at envelope ''max_output_tokens'') then Some ''cross_model_envelope_output_drift''
      else if \<not> equals_int (pv_max_attempts pv) 1 then Some ''cross_model_envelope_attempt_drift''
      else if is_claude model \<and> pv_prompt_cache pv \<noteq> VBool False then Some ''cross_model_envelope_cache_drift''
      else if is_claude model \<and> \<not> equals_int (pv_sdk_retries pv) 0 then Some ''cross_model_envelope_sdk_retry_drift''
      else if is_openrouter model \<and> pv_fallbacks pv \<noteq> VBool False then Some ''cross_model_envelope_fallback_drift''
      else None)"

section \<open>The reservation\<close>

definition reserve_detail :: "dict \<Rightarrow> pyv" where
  "reserve_detail envelope = VDict [(''call_cost_envelope'', VDict envelope)]"

text \<open>The transaction and the amount that was written.\<close>

definition reserve_call ::
  "desk \<Rightarrow> paid_provider \<Rightarrow> dict \<Rightarrow> string \<Rightarrow> ledger_fs \<Rightarrow> ledger_fs \<times> (string \<times> rat) result" where
  "reserve_call d pv envelope model fs =
     (case envelope_drift pv envelope model of
        Some why \<Rightarrow> (fs, Inl (RuntimeError why))
      | None \<Rightarrow>
          (case bindR (entry_value envelope ''reserve_usd'') py_float of
             Inl x \<Rightarrow> (fs, Inl x)
           | Inr amount \<Rightarrow>
               (case reserve_if_capacity (dk_env d) (dk_host d) (dk_umask d) (dk_write d 0) (dk_join d 0) (dk_now d 0)
                       (dk_fresh d 0) (VFloat amount) (VStr model) k_reserve (reserve_detail envelope) (VBool False)
                       (dk_others d 0 fs) of
                  (fs', rc) \<Rightarrow>
                    if \<not> acknowledged rc then (fs', Inl (RuntimeError ''cross_model_reservation_refused''))
                    else let tx = (case rc_txid rc of None \<Rightarrow> [] | Some t \<Rightarrow> t) in
                      if \<not> valid_transaction_id (VStr tx)
                      then (fs', Inl (RuntimeError ''cross_model_reservation_refused:invalid_transaction_id''))
                      else (fs', Inr (tx, reserved_usd rc)))))"

section \<open>The settlement\<close>

definition reconcile_row ::
  "desk \<Rightarrow> nat \<Rightarrow> rat \<Rightarrow> string \<Rightarrow> bool \<Rightarrow> dict \<Rightarrow> string \<Rightarrow> ledger_fs \<Rightarrow> ledger_fs \<times> bool" where
  "reconcile_row d k usd model measured detail tx fs =
     record_spend (dk_env d) (dk_host d) (dk_umask d) (dk_write d k) (dk_join d k) (dk_now d k) (dk_fresh d k)
       (VFloat usd) (VStr model) k_reconcile (VDict detail) (VBool measured) (VStr tx) (dk_others d k fs)"

definition identity_measured :: "dict option \<Rightarrow> string \<Rightarrow> bool" where
  "identity_measured usage model \<longleftrightarrow>
     (case usage of
        None \<Rightarrow> False
      | Some u \<Rightarrow> dict_get u ''requested_model_id'' = VStr model \<and> dict_get u ''resolved_model_id'' = VStr model)"

definition measured_usage :: "dict option \<Rightarrow> string \<Rightarrow> bool" where
  "measured_usage usage model \<longleftrightarrow> identity_measured usage model \<and> usage_is_measured (VDict (the usage))"

definition exceeds_envelope :: "dict \<Rightarrow> dict \<Rightarrow> bool" where
  "exceeds_envelope u envelope \<longleftrightarrow>
     int_at envelope ''max_input_tokens'' < int_at u ''input_tokens'' \<or>
     int_at envelope ''max_output_tokens'' < int_at u ''output_tokens''"

definition billed_once :: "dict option \<Rightarrow> bool" where
  "billed_once usage \<longleftrightarrow>
     (case usage of
        None \<Rightarrow> True
      | Some u \<Rightarrow> dict_get u ''billed_attempts'' = VNone \<or> dict_get u ''billed_attempts'' = VInt 1)"

text \<open>The slack of the comparisons, half a quantum.\<close>

definition half_quantum :: rat where "half_quantum = 5 / 10 ^ 9"

text \<open>The checks after a recorded settlement; the log line reads the ledger first.\<close>

definition after_checks :: "desk \<Rightarrow> rat \<Rightarrow> rat \<Rightarrow> ledger_fs \<Rightarrow> unit result" where
  "after_checks d actual reserve fs =
     bindR (xm_remaining_usd (dk_env d) (dk_host d) fs) (\<lambda>_. bindR (xm_cap_usd (dk_env d)) (\<lambda>cap.
     if reserve + half_quantum < actual then Inl (RuntimeError ''cross_model_cost_envelope_breached'')
     else bindR (xm_spent_usd (dk_env d) (dk_host d) fs) (\<lambda>spent.
       if cap + half_quantum < spent then Inl (RuntimeError ''cross_model_cap_breached_after_reconcile'') else Inr ())))"

definition bill_of :: "desk \<Rightarrow> dict option \<Rightarrow> string \<Rightarrow> rat result" where
  "bill_of d usage model =
     bindR (usage_to_usd (dk_env d) (dk_catalog d) (VDict (the usage)) model) (\<lambda>a. quantize_usd_ceiling (VFloat a))"

definition unmeasured_detail :: "rat \<Rightarrow> (string \<times> pyv) list \<Rightarrow> dict" where
  "unmeasured_detail reserve xs =
     [(''reserved_usd'', VFloat reserve), (''usage_unmeasured'', VBool True)] @ xs"

text \<open>The ledger, whether the reservation is reconciled, and whether the review may be used.\<close>

definition settle_review ::
  "desk \<Rightarrow> dict \<Rightarrow> string \<Rightarrow> string \<Rightarrow> rat \<Rightarrow> dict option \<Rightarrow> ledger_fs \<Rightarrow> ledger_fs \<times> bool \<times> unit result" where
  "settle_review d envelope model tx reserve usage fs =
     (let identity = identity_measured usage model; measured = measured_usage usage model in
      if measured \<and> exceeds_envelope (the usage) envelope
      then (fs, False, Inl (RuntimeError ''cross_model_usage_exceeds_cost_envelope''))
      else if \<not> billed_once usage then (fs, False, Inl (RuntimeError ''cross_model_billed_attempts_exceed_envelope''))
      else if \<not> measured
      then (case reconcile_row d 1 0 model False
                   (unmeasured_detail reserve [(''model_identity_unverified'', VBool (\<not> identity))]) tx fs of
              (fs', recorded) \<Rightarrow>
                (fs', recorded,
                 Inl (RuntimeError (if \<not> recorded then ''cross_model_reconcile_not_durable''
                    else if \<not> identity then ''cross_model_model_identity_unverified''
                    else ''cross_model_usage_unmeasured''))))
      else (case bill_of d usage model of
              Inl x \<Rightarrow> (fs, False, Inl x)
            | Inr actual \<Rightarrow>
                (case reconcile_row d 1 (round_to 8 (actual - reserve)) model True
                        [(''actual_usd'', VFloat actual), (''reserved_usd'', VFloat reserve)] tx fs of
                   (fs', recorded) \<Rightarrow>
                     if \<not> recorded then (fs', False, Inl (RuntimeError ''cross_model_reconcile_not_durable''))
                     else (dk_others d 2 fs', True, after_checks d actual reserve (dk_others d 2 fs')))))"

definition outcome_detail :: "rat \<Rightarrow> dict" where
  "outcome_detail reserve =
     unmeasured_detail reserve
       [(''model_identity_unverified'', VBool True), (''provider_outcome_unverified'', VBool True)]"

definition failure_detail :: "rat \<Rightarrow> dict" where
  "failure_detail reserve =
     unmeasured_detail reserve
       [(''provider_outcome_unverified'', VBool True), (''accounting_failure'', VStr ''unverifiable'')]"

text \<open>The ledger, whether the provider was called, and its answer.\<close>

definition review_fn ::
  "desk \<Rightarrow> paid_provider \<Rightarrow> dict \<Rightarrow> string \<Rightarrow> ledger_fs \<Rightarrow> ledger_fs \<times> bool \<times> string result" where
  "review_fn d pv envelope model fs =
     (case reserve_call d pv envelope model fs of
        (fs1, Inl x) \<Rightarrow> (fs1, False, Inl x)
      | (fs1, Inr (tx, reserve)) \<Rightarrow>
          (case pv_generate pv of
             Inl x \<Rightarrow> (fst (reconcile_row d 1 0 model False (outcome_detail reserve) tx fs1), True,
                      Inl (RuntimeError ''cross_model_provider_outcome_unverifiable''))
           | Inr out \<Rightarrow>
               (case settle_review d envelope model tx reserve (pv_last_usage pv) fs1 of
                  (fs2, _, Inr _) \<Rightarrow> (fs2, True, Inr out)
                | (fs2, reconciled, Inl x) \<Rightarrow>
                    (if reconciled then fs2
                     else fst (reconcile_row d 3 0 model False (failure_detail reserve) tx fs2), True,
                     Inl (RuntimeError ''cross_model_accounting_unverifiable'')))))"

section \<open>The reviewer\<close>

text \<open>A function of the separately installed payload: missing, failing, or giving a value.\<close>

datatype 'a port = Absent | Raises exn | Gives 'a

record payload =
  po_adversary :: "unit port"
  po_ceiling :: "(string \<Rightarrow> pyv result) port"
  po_builder :: "(dict \<Rightarrow> paid_provider result) port"

definition providers_enabled :: "env \<Rightarrow> bool" where
  "providers_enabled e \<longleftrightarrow> gate_lower_true e ''AGI_V8_PROVIDERS_ENABLED''"

definition reviewer_model :: "env \<Rightarrow> string" where
  "reviewer_model e =
     (let m = py_strip (getenv e ''AGI_V81_CROSS_MODEL_VERIFY_MODEL'' []) in if m = [] then ''claude-sonnet-5'' else m)"

definition build_provider :: "desk \<Rightarrow> payload \<Rightarrow> string \<Rightarrow> ((dict \<times> paid_provider) option \<times> string) result" where
  "build_provider d po model =
     (case (po_ceiling po, po_builder po) of
        (Absent, _) \<Rightarrow> Inr (None, ''none:T6_payload_unavailable'')
      | (Raises x, _) \<Rightarrow> absorb (dk_env d) x (None, ''none:provider_unavailable'')
      | (Gives _, Absent) \<Rightarrow> Inr (None, ''none:T6_payload_unavailable'')
      | (Gives _, Raises x) \<Rightarrow> absorb (dk_env d) x (None, ''none:provider_unavailable'')
      | (Gives limit, Gives builder) \<Rightarrow>
          (case bindR (limit model) (\<lambda>c.
                bindR (call_cost_envelope (dk_sha d) (dk_digits d) (dk_catalog d) (VStr model) c (VInt 1)) (\<lambda>envelope.
                bindR (builder envelope) (\<lambda>pv. Inr (envelope, pv)))) of
             Inl x \<Rightarrow> absorb (dk_env d) x (None, ''none:provider_unavailable'')
           | Inr r \<Rightarrow> Inr (Some r, model)))"

text \<open>The reviewer and its envelope, or why there is none. Where a log line reads the ledger it may raise.\<close>

definition build_reviewer ::
  "desk \<Rightarrow> payload \<Rightarrow> ledger_fs \<Rightarrow> ((dict \<times> paid_provider) option \<times> string) result" where
  "build_reviewer d po fs =
     (let e = dk_env d; h = dk_host d; model = reviewer_model e in
      if \<not> providers_enabled e then Inr (None, ''none:providers_off'')
      else case po_adversary po of
          Absent \<Rightarrow> Inr (None, ''none:T6_payload_unavailable'')
        | Raises x \<Rightarrow> Inr (None, ''none:import_failed'')
        | Gives _ \<Rightarrow>
            bindR (exhausted e h fs) (\<lambda>spent.
              if spent then bindR (xm_status_of e h fs) (\<lambda>_. Inr (None, ''none:budget_exhausted''))
              else bindR (build_provider d po model) (\<lambda>(r, why).
                if r \<noteq> None \<and> is_claude model then bindR (xm_remaining_usd e h fs) (\<lambda>_. Inr (r, why))
                else Inr (r, why))))"

text \<open>A cycle's review: the reviewer is built and, if there is one, asked once.\<close>

definition reviewed ::
  "desk \<Rightarrow> payload \<Rightarrow> ledger_fs \<Rightarrow> ledger_fs \<times> bool \<times> string result" where
  "reviewed d po fs =
     (case build_reviewer d po fs of
        Inl x \<Rightarrow> (fs, False, Inl x)
      | Inr (None, why) \<Rightarrow> (fs, False, Inl (RuntimeError why))
      | Inr (Some (envelope, pv), model) \<Rightarrow> review_fn d pv envelope model fs)"

section \<open>A review is a run of ledger steps\<close>

abbreviation ledger_runs :: "desk \<Rightarrow> ledger_fs \<Rightarrow> ledger_fs \<Rightarrow> bool" where
  "ledger_runs d \<equiv> (spend_step (dk_env d) (dk_host d) (dk_umask d))\<^sup>*\<^sup>*"

text \<open>The other processes use the ledger through its operations only.\<close>

definition fair :: "desk \<Rightarrow> bool" where
  "fair d \<longleftrightarrow> (\<forall>k s. ledger_runs d s (dk_others d k s))"

lemma reconcile_runs:
  assumes "fair d" "reconcile_row d k usd model measured detail tx fs = (fs', ok)"
  shows "ledger_runs d fs fs'"
proof -
  have "spend_step (dk_env d) (dk_host d) (dk_umask d) (dk_others d k fs) fs'"
    using assms(2) by (intro spend_step.reconcile) (auto simp: reconcile_row_def kind_defs)
  then show ?thesis using assms(1) unfolding fair_def by (meson rtranclp.rtrancl_into_rtrancl)
qed

lemma reserve_runs:
  assumes "fair d" "reserve_call d pv envelope model fs = (fs', r)"
  shows "ledger_runs d fs fs'"
proof (cases "fs' = fs")
  case False
  then obtain amount rc where
    "reserve_if_capacity (dk_env d) (dk_host d) (dk_umask d) (dk_write d 0) (dk_join d 0) (dk_now d 0)
       (dk_fresh d 0) (VFloat amount) (VStr model) k_reserve (reserve_detail envelope) (VBool False)
       (dk_others d 0 fs) = (fs', rc)"
    using assms(2)
    by (auto simp: reserve_call_def Let_def split: option.splits sum.splits prod.splits if_splits)
  then have "spend_step (dk_env d) (dk_host d) (dk_umask d) (dk_others d 0 fs) fs'" by (rule spend_step.reserve)
  then show ?thesis using assms(1) unfolding fair_def by (meson rtranclp.rtrancl_into_rtrancl)
qed simp

lemma settle_runs:
  assumes "fair d" "settle_review d envelope model tx reserve usage fs = (fs', rec, r)"
  shows "ledger_runs d fs fs'"
proof (cases "fs' = fs")
  case False
  then obtain usd measured detail s ok where s: "reconcile_row d 1 usd model measured detail tx fs = (s, ok)"
    "fs' = s \<or> fs' = dk_others d 2 s"
    using assms(2)
    by (auto simp: settle_review_def Let_def split: if_splits prod.splits sum.splits)
  show ?thesis
    using reconcile_runs [OF assms(1) s(1)] s(2) assms(1) unfolding fair_def by (meson rtranclp_trans)
qed simp

lemma review_runs:
  assumes "fair d" "review_fn d pv envelope model fs = (fs', called, res)"
  shows "ledger_runs d fs fs'"
proof -
  obtain fs1 r where r: "reserve_call d pv envelope model fs = (fs1, r)" by (cases "reserve_call d pv envelope model fs")
  note first = reserve_runs [OF assms(1) r]
  have then_runs: "ledger_runs d fs s" if "ledger_runs d fs1 s" for s using first that by (rule rtranclp_trans)
  have recorded: "ledger_runs d s (fst (reconcile_row d k usd model measured detail tx s))"
    for s k usd measured detail tx
    using reconcile_runs [OF assms(1)] by (metis prod.collapse)
  show ?thesis
  proof (cases r)
    case (Inl x)
    then show ?thesis using assms(2) r first by (simp add: review_fn_def)
  next
    case (Inr tr)
    obtain tx reserve where tr: "tr = (tx, reserve)" by (cases tr)
    obtain fs2 fin verdict where settled: "settle_review d envelope model tx reserve (pv_last_usage pv) fs1 = (fs2, fin, verdict)"
      by (cases "settle_review d envelope model tx reserve (pv_last_usage pv) fs1") auto
    note second = settle_runs [OF assms(1) settled]
    show ?thesis
      using assms(2) r Inr tr settled recorded then_runs then_runs [OF second] then_runs [OF rtranclp_trans [OF second recorded]]
      by (auto simp: review_fn_def split: sum.splits if_splits)
  qed
qed

section \<open>The reservation of a call\<close>

abbreviation book :: "desk \<Rightarrow> path" where
  "book d \<equiv> default_ledger (dk_env d) (dk_host d)"

text \<open>A readable ledger whose rows satisfy \<open>P\<close>, or a damaged one.\<close>

definition readable :: "desk \<Rightarrow> (dict list \<Rightarrow> bool) \<Rightarrow> ledger_fs \<Rightarrow> bool" where
  "readable d P fs \<longleftrightarrow>
     damaged (book d) fs \<or> ledger_ok (book d) fs \<and> (\<exists>rows. read_spend_rows fs (book d) = Inr rows \<and> P rows)"

lemma runs_readable:
  assumes "no_override (dk_env d)" "ledger_runs d fs fs'" "readable d (\<lambda>_. True) fs"
  shows "readable d (\<lambda>_. True) fs'"
  using assms(2,3)
proof (rule steps_keep)
  fix s s' assume "spend_step (dk_env d) (dk_host d) (dk_umask d) s s'" "readable d (\<lambda>_. True) s"
  then show "readable d (\<lambda>_. True) s'"
    unfolding readable_def by (rule step_keeps [OF assms(1) refl]) simp_all
qed

lemma runs_within:
  assumes "no_override (dk_env d)" "xm_cap_usd (dk_env d) = Inr cap" "ledger_runs d fs fs'" "readable d (within_cap cap) fs"
  shows "readable d (within_cap cap) fs'"
  using assms(3,4)
proof (rule steps_keep)
  fix s s' assume "spend_step (dk_env d) (dk_host d) (dk_umask d) s s'" "readable d (within_cap cap) s"
  then show "readable d (within_cap cap) s'"
    unfolding readable_def by (rule step_within [OF assms(1) refl assms(2)])
qed

lemma reserve_acknowledged:
  assumes "reserve_call d pv envelope model fs = (fs1, Inr (tx, reserve))"
  obtains amount rc where "envelope_drift pv envelope model = None"
    "bindR (entry_value envelope ''reserve_usd'') py_float = Inr amount"
    "reserve_if_capacity (dk_env d) (dk_host d) (dk_umask d) (dk_write d 0) (dk_join d 0) (dk_now d 0)
       (dk_fresh d 0) (VFloat amount) (VStr model) k_reserve (reserve_detail envelope) (VBool False)
       (dk_others d 0 fs) = (fs1, rc)"
    "acknowledged rc" "rc_txid rc = Some tx" "reserved_usd rc = reserve"
proof -
  have "\<not> valid_transaction_id (VStr [])" by code_simp
  then show thesis
    using assms that
    by (auto simp: reserve_call_def Let_def split: option.splits sum.splits prod.splits if_splits)
qed

text \<open>What stands in the ledger when the provider is asked.\<close>

lemma reserved_state:
  assumes "no_override (dk_env d)" "fair d" "readable d (\<lambda>_. True) fs"
    and "reserve_call d pv envelope model fs = (fs1, Inr (tx, reserve))"
  obtains fs0 rows row cap where "ledger_runs d fs fs0" "read_spend_rows fs0 (book d) = Inr rows"
    "fs0 = dk_others d 0 fs"
    "admission_blocker rows = None" "xm_cap_usd (dk_env d) = Inr cap" "total_of rows + reserve \<le> cap"
    "ledger_ok (book d) fs1" "read_spend_rows fs1 (book d) = Inr (rows @ [row])" "valid_ledger (rows @ [row])"
    "is_v2 row" "txid_of row = tx" "kind_at row = k_reserve" "usd_of row = reserve" "has_8dp reserve" "tx_rows tx rows = []"
    "\<And>usd. has_8dp usd \<Longrightarrow> bindR (entry_value envelope ''reserve_usd'') py_float = Inr usd \<Longrightarrow> reserve = usd"
proof -
  let ?fs0 = "dk_others d 0 fs"
  obtain amount rc where r: "bindR (entry_value envelope ''reserve_usd'') py_float = Inr amount"
    "reserve_if_capacity (dk_env d) (dk_host d) (dk_umask d) (dk_write d 0) (dk_join d 0) (dk_now d 0)
       (dk_fresh d 0) (VFloat amount) (VStr model) k_reserve (reserve_detail envelope) (VBool False)
       ?fs0 = (fs1, rc)" "acknowledged rc" "rc_txid rc = Some tx" "reserved_usd rc = reserve"
    using reserve_acknowledged [OF assms(4)] by metis
  have runs: "ledger_runs d fs ?fs0" using assms(2) by (simp add: fair_def)
  have ok0: "readable d (\<lambda>_. True) ?fs0" by (rule runs_readable [OF assms(1) runs assms(3)])
  obtain a where a: "number_of (VFloat amount) = Some a"
    "locked_reserve (dk_env d) (dk_host d) (dk_umask d) (dk_write d 0) (dk_join d 0) (dk_now d 0) (dk_fresh d 0)
       (ceil_8dp a) (VStr model) (reserve_detail envelope) (book d) ?fs0 = (fs1, rc)"
    using reserve_if_capacity_cases [OF r(2) resolve_default [OF assms(1)]] r(3) by metis
  from a(2) show thesis
  proof (cases rule: locked_reserve_cases)
    case (attempt cap rows row w)
    note f = reserve_row_facts [OF attempt(7) has_8dp_ceil]
    have w: "w = Inr ()" "reserve = ceil_8dp a" "tx = dk_fresh d 0"
      using attempt(9,10) r(3-5) by (simp_all add: round_to_8dp)
    have ok: "ledger_ok (book d) ?fs0" using ok0 attempt(2) damaged_strict [of "book d" ?fs0] by (auto simp: readable_def)
    have new: "ledger_ok (book d) fs1 \<and> read_spend_rows fs1 (book d) = Inr (rows @ [row])"
      using append_strict [OF ok attempt(2) f(4) attempt(8)] w(1) by auto
    have "tx_defect (tx_rows tx (rows @ [row])) = None"
      using f(1,5,6) w(3) by (auto simp: valid_ledger_iff transaction_defect_None txids_snoc)
    then have "tx_defect (tx_rows tx rows @ [row]) = None" using f(5,6) w(3) by simp
    then have "tx_rows tx rows = []"
      by (cases rule: tx_defect_cases) (use f(7) in \<open>auto simp: append_eq_Cons_conv kind_defs\<close>)
    moreover have "reserve = usd" if "has_8dp usd" "bindR (entry_value envelope ''reserve_usd'') py_float = Inr usd" for usd
      using that r(1) a(1) w(2) ceil_8dp_fixed by (auto simp: number_of_def)
    ultimately show thesis
      using that [OF runs attempt(2) refl attempt(4,1)] attempt(6) new f w has_8dp_ceil by simp
  qed (use r(3) in simp)
qed

lemma envelope_reserve:
  assumes "call_cost_envelope sha fr cat (VStr model) c (VInt 1) = Inr envelope"
  shows "bindR (entry_value envelope ''reserve_usd'') py_float = Inr (cost_of ''reserve_usd'' envelope)"
    "has_8dp (cost_of ''reserve_usd'' envelope)"
  by (rule envelope_Inr [OF assms];
      simp add: envelope_core_def entry_value_def cost_of_def dict_get_def number_of_def)+

section \<open>What a settlement leaves\<close>

text \<open>The rows with the open reservation, or these and one closing row whose amount is in \<open>X\<close>.\<close>

definition settled_by :: "desk \<Rightarrow> string \<Rightarrow> dict list \<Rightarrow> rat set \<Rightarrow> ledger_fs \<Rightarrow> bool" where
  "settled_by d tx rows X s \<longleftrightarrow>
     damaged (book d) s \<or>
     ledger_ok (book d) s \<and>
       (read_spend_rows s (book d) = Inr rows \<or>
        (\<exists>b. read_spend_rows s (book d) = Inr (rows @ [b]) \<and> is_v2 b \<and> txid_of b = tx \<and> usd_of b \<in> X))"

lemma reconcile_settled:
  assumes "no_override (dk_env d)" "settled_by d tx rows X (dk_others d k s)" "tx_rows tx rows = [a]"
    and "reconcile_row d k usd model measured detail tx s = (s', ok)" "round_to 8 usd \<in> X"
  shows "settled_by d tx rows X s'"
    "ok \<Longrightarrow> \<exists>b. read_spend_rows s' (book d) = Inr (rows @ [b]) \<and> is_v2 b \<and> txid_of b = tx \<and> usd_of b = round_to 8 usd"
proof -
  let ?s = "dk_others d k s"
  have "settled_by d tx rows X s' \<and> (ok \<longrightarrow> (\<exists>b. read_spend_rows s' (book d) = Inr (rows @ [b]) \<and> is_v2 b \<and>
      txid_of b = tx \<and> usd_of b = round_to 8 usd))"
    using assms(4) unfolding reconcile_row_def
  proof (cases rule: record_spend_cases)
    case refused
    then show ?thesis using assms(2) by simp
  next
    case (attempt p rs r x)
    have p: "p = book d" using attempt(1) assms(1) by simp
    have ok: "ledger_ok (book d) ?s" using assms(2) attempt(2) damaged_strict [of "book d" ?s] by (auto simp: settled_by_def p)
    have row: "is_v2 r" "txid_of r = tx" "usd_of r = round_to 8 usd" "plain_tree 0 (VDict r)"
      by (rule build_rowD [OF attempt(4)], auto simp: number_of_def)+
    have "rs = rows"
    proof (rule ccontr)
      assume "rs \<noteq> rows"
      then obtain b where "read_spend_rows ?s (book d) = Inr (rows @ [b])" "is_v2 b" "txid_of b = tx"
        using assms(2) attempt(2) damaged_strict [of "book d" ?s] by (auto simp: settled_by_def p)
      moreover from this have "rs = rows @ [b]" using attempt(2) by (simp add: p)
      ultimately have "tx_rows tx rs = [a, b]" using assms(3) by simp
      then have "tx_defect [a, b, with_join (dk_env d) (dk_join d k) r] = None"
        using attempt(5) row by (auto simp: valid_ledger_iff transaction_defect_None txids_snoc)
      then show False by (auto simp: tx_defect_def)
    qed
    then show ?thesis
      using append_strict [OF ok attempt(2) [unfolded p] with_join_plain [OF row(4)] attempt(6) [unfolded p]] attempt(7)
        row assms(5) by (auto simp: settled_by_def)
  qed
  then show "settled_by d tx rows X s'" "ok \<Longrightarrow> \<exists>b. read_spend_rows s' (book d) = Inr (rows @ [b]) \<and> is_v2 b \<and>
    txid_of b = tx \<and> usd_of b = round_to 8 usd" by blast+
qed

text \<open>The settlement of a call: with the whole reservation, or with the measured bill.\<close>

definition well_measured :: "desk \<Rightarrow> dict \<Rightarrow> string \<Rightarrow> dict option \<Rightarrow> rat \<Rightarrow> bool" where
  "well_measured d envelope model usage bill \<longleftrightarrow>
     (case usage of
        None \<Rightarrow> False
      | Some u \<Rightarrow>
          dict_get u ''requested_model_id'' = VStr model \<and> dict_get u ''resolved_model_id'' = VStr model \<and>
          usage_is_measured (VDict u) \<and>
          int_at u ''input_tokens'' \<le> int_at envelope ''max_input_tokens'' \<and>
          int_at u ''output_tokens'' \<le> int_at envelope ''max_output_tokens'' \<and>
          dict_get u ''billed_attempts'' \<in> {VNone, VInt 1} \<and> bill_of d usage model = Inr bill)"

lemma well_measured_alt:
  "well_measured d envelope model usage bill \<longleftrightarrow>
     measured_usage usage model \<and> \<not> exceeds_envelope (the usage) envelope \<and> billed_once usage \<and>
     bill_of d usage model = Inr bill"
  by (auto simp: well_measured_def measured_usage_def identity_measured_def exceeds_envelope_def billed_once_def
      split: option.splits)

definition closing_amounts :: "desk \<Rightarrow> dict \<Rightarrow> string \<Rightarrow> dict option \<Rightarrow> rat \<Rightarrow> rat set" where
  "closing_amounts d envelope model usage reserve =
     {0} \<union> {round_to 8 (bill - reserve) | bill. well_measured d envelope model usage bill}"

lemma settle_settles:
  assumes "no_override (dk_env d)" "\<forall>k s. dk_others d k s = s" "settled_by d tx rows X fs" "tx_rows tx rows = [a]"
    and "X = closing_amounts d envelope model usage reserve" "settle_review d envelope model tx reserve usage fs = (fs', fin, r)"
  shows "settled_by d tx rows X fs'"
    "r = Inr () \<Longrightarrow> \<exists>bill b. well_measured d envelope model usage bill \<and> bill \<le> reserve + half_quantum \<and>
       read_spend_rows fs' (book d) = Inr (rows @ [b]) \<and> usd_of b = round_to 8 (bill - reserve)"
proof -
  let ?measured = "measured_usage usage model"
  let ?bad = "?measured \<and> exceeds_envelope (the usage) envelope \<or> \<not> billed_once usage"
  have keep: "settled_by d tx rows X s'" if "reconcile_row d k 0 model False detail tx fs = (s', ok)" for k detail s' ok
    using reconcile_settled(1) [OF assms(1) _ assms(4) that] assms(2,3,5) by (simp add: closing_amounts_def round_to_def round_even_def)
  have "settled_by d tx rows X fs' \<and> (r = Inr () \<longrightarrow> (\<exists>bill b. well_measured d envelope model usage bill \<and>
      bill \<le> reserve + half_quantum \<and> read_spend_rows fs' (book d) = Inr (rows @ [b]) \<and> usd_of b = round_to 8 (bill - reserve)))"
  proof (cases "?bad \<or> \<not> ?measured \<or> (\<exists>x. bill_of d usage model = Inl x)")
    case True
    then show ?thesis
      using assms(3,6) keep by (auto simp: settle_review_def Let_def split: if_splits prod.splits sum.splits)
  next
    case False
    then obtain bill where bill: "well_measured d envelope model usage bill"
      by (cases "bill_of d usage model") (auto simp: well_measured_alt)
    let ?delta = "round_to 8 (bill - reserve)"
    let ?detail = "[(''actual_usd'', VFloat bill), (''reserved_usd'', VFloat reserve)]"
    obtain s' ok where rec: "reconcile_row d 1 ?delta model True ?detail tx fs = (s', ok)"
      by (cases "reconcile_row d 1 ?delta model True ?detail tx fs")
    have "round_to 8 ?delta = ?delta" by (rule round_to_8dp) simp
    then have inX: "round_to 8 ?delta \<in> X" using assms(5) bill by (auto simp: closing_amounts_def)
    have start: "settled_by d tx rows X (dk_others d 1 fs)" using assms(2,3) by simp
    note reconcile_settled [OF assms(1) start assms(4) rec inX, unfolded \<open>round_to 8 ?delta = ?delta\<close>]
    moreover have "fs' = s'" "r = Inr () \<Longrightarrow> ok \<and> bill \<le> reserve + half_quantum"
      using assms(2,6) False bill rec
      by (auto simp: settle_review_def well_measured_alt Let_def after_checks_def split: if_splits)
    ultimately show ?thesis using bill by blast
  qed
  then show "settled_by d tx rows X fs'" "r = Inr () \<Longrightarrow> \<exists>bill b. well_measured d envelope model usage bill \<and>
    bill \<le> reserve + half_quantum \<and> read_spend_rows fs' (book d) = Inr (rows @ [b]) \<and>
    usd_of b = round_to 8 (bill - reserve)" by blast+
qed

lemma built_reviewer:
  assumes "build_reviewer d po fs = Inr (Some (envelope, pv), model)"
  obtains c where "providers_enabled (dk_env d)" "exhausted (dk_env d) (dk_host d) fs = Inr False"
    "call_cost_envelope (dk_sha d) (dk_digits d) (dk_catalog d) (VStr model) c (VInt 1) = Inr envelope"
    "model = reviewer_model (dk_env d)"
proof -
  let ?m = "reviewer_model (dk_env d)"
  have on: "providers_enabled (dk_env d)" using assms by (auto simp: build_reviewer_def Let_def split: if_splits)
  then obtain u where u: "po_adversary po = Gives u"
    using assms by (cases "po_adversary po") (auto simp: build_reviewer_def Let_def)
  then have left: "exhausted (dk_env d) (dk_host d) fs = Inr False"
    using assms on by (auto simp: build_reviewer_def Let_def split: if_splits)
  then have "build_provider d po ?m = Inr (Some (envelope, pv), model)"
    using assms on u by (auto simp: build_reviewer_def Let_def split: if_splits)
  then obtain limit builder where gives: "po_ceiling po = Gives limit" "po_builder po = Gives builder"
    by (cases "po_ceiling po"; cases "po_builder po") (auto simp: build_provider_def absorb_def split: if_splits)
  let ?go = "bindR (limit ?m) (\<lambda>c. bindR (call_cost_envelope (dk_sha d) (dk_digits d) (dk_catalog d) (VStr ?m) c (VInt 1)) (\<lambda>envelope.
    bindR (builder envelope) (\<lambda>pv. Inr (envelope, pv))))"
  have "?go = Inr (envelope, pv) \<and> model = ?m"
    using \<open>build_provider d po ?m = Inr (Some (envelope, pv), model)\<close> gives
    by (cases ?go) (auto simp: build_provider_def absorb_def split: if_splits)
  then show thesis using that on left by auto
qed

section \<open>Properties\<close>


text \<open>C14: Missing evidence refunds nothing. For one review without interference whose ledger can be read
  afterwards, whatever the provider answers, publishes or raises and however the writes end, the ledger
  grew by the whole reservation or by the measured bill, and by the bill only if the provider named the
  requested model, counted its tokens, stayed within the envelope and was billed once. The review's text
  is used only in that case, and only if the bill did not exceed the reservation.\<close>

theorem review_accounts:
  assumes "no_override (dk_env d)" "\<forall>k s. dk_others d k s = s" "ledger_ok (book d) fs"
    and "read_spend_rows fs (book d) = Inr rows"
    and "call_cost_envelope (dk_sha d) (dk_digits d) (dk_catalog d) (VStr model) c (VInt 1) = Inr envelope"
    and "review_fn d pv envelope model fs = (fs', True, res)" "read_spend_rows fs' (book d) = Inr rows'"
  shows "(total_of rows' = total_of rows + cost_of ''reserve_usd'' envelope \<or>
      (\<exists>bill. well_measured d envelope model (pv_last_usage pv) bill \<and> total_of rows' = total_of rows + bill)) \<and>
    (\<forall>out. res = Inr out \<longrightarrow> pv_generate pv = Inr out \<and>
      (\<exists>bill. well_measured d envelope model (pv_last_usage pv) bill \<and> total_of rows' = total_of rows + bill \<and>
        bill \<le> cost_of ''reserve_usd'' envelope + half_quantum))"
proof -
  let ?reserve = "cost_of ''reserve_usd'' envelope" and ?usage = "pv_last_usage pv"
  let ?X = "closing_amounts d envelope model ?usage ?reserve"
  have fair: "fair d" using assms(2) by (simp add: fair_def)
  have start: "readable d (\<lambda>_. True) fs" using assms(3,4) by (simp add: readable_def)
  obtain fs1 tx reserve where r: "reserve_call d pv envelope model fs = (fs1, Inr (tx, reserve))"
    using assms(6) by (auto simp: review_fn_def split: prod.splits sum.splits)
  obtain rs a where a: "read_spend_rows (dk_others d 0 fs) (book d) = Inr rs" "ledger_ok (book d) fs1"
    "read_spend_rows fs1 (book d) = Inr (rs @ [a])" "is_v2 a" "txid_of a = tx" "usd_of a = reserve" "tx_rows tx rs = []"
    "reserve = ?reserve" "has_8dp reserve"
    by (rule reserved_state [OF assms(1) fair start r]) (use envelope_reserve [OF assms(5)] in blast)
  have rs: "rs = rows" using a(1) assms(2,4) by simp
  let ?rows = "rows @ [a]"
  have one: "tx_rows tx ?rows = [a]" using a(4,5,7) rs by simp
  have open1: "settled_by d tx ?rows ?X fs1" using a(2,3) rs by (simp add: settled_by_def)
  have zero: "round_to 8 0 \<in> ?X" by (simp add: closing_amounts_def round_to_def round_even_def)
  have again: "settled_by d tx ?rows ?X (fst (reconcile_row d k 0 model False detail tx s))"
    if "settled_by d tx ?rows ?X s" for s k detail
    using reconcile_settled(1) [OF assms(1) _ one _ zero] that assms(2) by (metis prod.collapse)
  have nets: "bill - ?reserve = round_to 8 (bill - ?reserve)" if "well_measured d envelope model ?usage bill" for bill
  proof -
    have "has_8dp bill" using that by (auto simp: well_measured_alt bill_of_def dest: quantize_Inr)
    then obtain i j where "bill = of_int i / 10 ^ 8" "?reserve = of_int j / 10 ^ 8"
      using a(8,9) by (auto simp: has_8dp_iff)
    then have "has_8dp (bill - ?reserve)"
      unfolding has_8dp_iff by (intro exI [of _ "i - j"]) (simp add: diff_divide_distrib)
    then show ?thesis by (simp add: round_to_8dp)
  qed
  have total: "total_of rows' = total_of rows + ?reserve \<or>
      (\<exists>bill. well_measured d envelope model ?usage bill \<and> total_of rows' = total_of rows + bill)"
    if final: "settled_by d tx ?rows ?X fs'"
  proof (cases "rows' = ?rows")
    case False
    then obtain b where b: "rows' = ?rows @ [b]" "usd_of b \<in> ?X"
      using final assms(7) damaged_strict [of "book d" fs'] by (auto simp: settled_by_def)
    then show ?thesis using a(6,8) nets unfolding closing_amounts_def by fastforce
  qed (use a(6,8) in simp)
  show ?thesis
  proof (cases "pv_generate pv")
    case (Inl x)
    then have "fs' = fst (reconcile_row d 1 0 model False (outcome_detail reserve) tx fs1)" "\<exists>y. res = Inl y"
      using assms(6) r by (auto simp: review_fn_def)
    then show ?thesis using total again [OF open1] by auto
  next
    case (Inr out)
    obtain fs2 fin v where v: "settle_review d envelope model tx ?reserve ?usage fs1 = (fs2, fin, v)"
      by (cases "settle_review d envelope model tx ?reserve ?usage fs1") auto
    note settled = settle_settles [OF assms(1,2) open1 one refl v]
    show ?thesis
    proof (cases v)
      case (Inl x)
      then have "settled_by d tx ?rows ?X fs'" "\<exists>y. res = Inl y"
        using assms(6) r Inr v a(8) settled(1) again [OF settled(1)] by (auto simp: review_fn_def split: if_splits)
      then show ?thesis using total by auto
    next
      case (Inr u)
      then have fs2: "fs' = fs2" "res = Inr out"
        using assms(6) r \<open>pv_generate pv = Inr out\<close> v a(8) by (auto simp: review_fn_def)
      obtain bill b where bill: "well_measured d envelope model ?usage bill" "bill \<le> ?reserve + half_quantum"
        "read_spend_rows fs2 (book d) = Inr (?rows @ [b])" "usd_of b = round_to 8 (bill - ?reserve)"
        using settled(2) Inr by auto
      have "rows' = ?rows @ [b]" using assms(7) fs2(1) bill(3) by simp
      then have "total_of rows' = total_of rows + bill" using bill(4) nets [OF bill(1)] a(6,8) by simp
      then show ?thesis using bill fs2 \<open>pv_generate pv = Inr out\<close> by blast
    qed
  qed
qed

text \<open>One review: 400 and 50 tokens of an envelope of 1000 and 100.\<close>

definition desk_env :: env where
  "desk_env = [''AGI_V8_PROVIDERS_ENABLED'' \<mapsto> ''true'']"

definition desk0 :: desk where
  "desk0 =
     \<lparr>dk_env = desk_env, dk_host = lab, dk_umask = 18, dk_catalog = small_catalog, dk_sha = (\<lambda>_. ''digest''), dk_digits = (\<lambda>_. []),
      dk_write = (\<lambda>_. WrOk), dk_join = (\<lambda>_. Inr (None, None)), dk_now = (\<lambda>_. 5), dk_fresh = (\<lambda>_. tx0),
      dk_others = (\<lambda>_ s. s)\<rparr>"

definition sonnet :: string where "sonnet = ''claude-sonnet-5''"

definition provider0 :: paid_provider where
  "provider0 =
     \<lparr>pv_max_tokens = VInt 100, pv_max_attempts = VInt 1, pv_prompt_cache = VBool False, pv_sdk_retries = VInt 0,
      pv_fallbacks = VNone, pv_generate = Inr ''approve'',
      pv_last_usage = Some (small_usage @ [(''requested_model_id'', VStr sonnet), (''resolved_model_id'', VStr sonnet)])\<rparr>"

definition payload0 :: payload where
  "payload0 =
     \<lparr>po_adversary = Gives (), po_ceiling = Gives (\<lambda>_. Inr (VInt 100)), po_builder = Gives (\<lambda>_. Inr provider0)\<rparr>"

definition envelope0 :: dict where
  "envelope0 =
     (case build_reviewer desk0 payload0 fs0 of Inr (Some (envelope, _), _) \<Rightarrow> envelope | _ \<Rightarrow> [])"

lemma built0:
  "build_reviewer desk0 payload0 fs0 = Inr (Some (envelope0, provider0), sonnet)"
  "call_cost_envelope (dk_sha desk0) (dk_digits desk0) (dk_catalog desk0) (VStr sonnet) (VInt 100) (VInt 1) = Inr envelope0"
  by code_simp+

definition paid_fs :: ledger_fs where "paid_fs = fst (reserve_call desk0 provider0 envelope0 sonnet fs0)"

lemma paid0: "reserve_call desk0 provider0 envelope0 sonnet fs0 = (paid_fs, Inr (tx0, 2))"
proof -
  have "snd (reserve_call desk0 provider0 envelope0 sonnet fs0) = Inr (tx0, 2)" by code_simp
  then show ?thesis by (metis paid_fs_def prod.collapse)
qed

lemma settled0_ok:
  "case settle_review desk0 envelope0 sonnet tx0 2 (pv_last_usage provider0) paid_fs of
     (fs, _, r) \<Rightarrow> r = Inr () \<and> (case read_spend_rows fs (book desk0) of Inr rows \<Rightarrow> length rows = 2 | _ \<Rightarrow> False)"
  by code_simp

lemma reviewed0:
  obtains fs' rows' where "review_fn desk0 provider0 envelope0 sonnet fs0 = (fs', True, Inr ''approve'')"
    "reviewed desk0 payload0 fs0 = (fs', True, Inr ''approve'')" "read_spend_rows fs' (book desk0) = Inr rows'"
proof -
  obtain fs' fin r where s: "settle_review desk0 envelope0 sonnet tx0 2 (pv_last_usage provider0) paid_fs = (fs', fin, r)"
    by (cases "settle_review desk0 envelope0 sonnet tx0 2 (pv_last_usage provider0) paid_fs")
  then obtain rows' where "r = Inr ()" "read_spend_rows fs' (book desk0) = Inr rows'"
    using settled0_ok by (auto split: sum.splits)
  moreover from this s have "review_fn desk0 provider0 envelope0 sonnet fs0 = (fs', True, Inr ''approve'')"
    by (simp add: review_fn_def paid0) (simp add: provider0_def)
  ultimately show thesis using that built0(1) by (simp add: reviewed_def)
qed

lemma desk0 [simp]:
  "dk_env desk0 = desk_env" "dk_host desk0 = lab" "no_override desk_env" "fair desk0" "\<forall>k s. dk_others desk0 k s = s"
  by (simp_all add: desk0_def fair_def no_override_def desk_env_def getenv_def py_strip_def lstrip_where_def rstrip_where_def)


theorem review_accounts_witness:
  "\<exists>fs' rows' bill. review_fn desk0 provider0 envelope0 sonnet fs0 = (fs', True, Inr ''approve'') \<and>
     read_spend_rows fs' (default_ledger desk_env lab) = Inr rows' \<and> total_of rows' = bill \<and>
     well_measured desk0 envelope0 sonnet (pv_last_usage provider0) bill"
proof (rule reviewed0)
  fix fs' rows'
  assume r: "review_fn desk0 provider0 envelope0 sonnet fs0 = (fs', True, Inr ''approve'')"
    "read_spend_rows fs' (book desk0) = Inr rows'"
  have "no_override (dk_env desk0)" by simp
  from review_accounts [OF this desk0(5) fs0_ledger built0(2) r]
  obtain bill where "well_measured desk0 envelope0 sonnet (pv_last_usage provider0) bill" "total_of rows' = total_of [] + bill"
    by auto
  then show ?thesis using r by (auto simp: total_of_def)
qed

end
