(* ===== verification/ApplyDelivery.thy ===== *)
theory ApplyDelivery
  imports ApplyRollback
begin

text \<open>
  What a session that succeeds has done (\<open>enforcement/safe_auto_apply.py\<close>): every file it was to create or
  to replace holds exactly the content of its change. The session itself is in \<open>ApplySession\<close>.
\<close>

section \<open>Links only disappear\<close>

definition fewer_links :: "'c fs \<Rightarrow> 'c fs \<Rightarrow> bool" where
  "fewer_links fs fs' \<longleftrightarrow> (\<forall>p t. fs' p = Some (Link t) \<longrightarrow> fs p = Some (Link t))"

lemma fewer_links_refl [simp]: "fewer_links fs fs"
  by (simp add: fewer_links_def)

lemma fewer_links_trans: "fewer_links fs fs1 \<Longrightarrow> fewer_links fs1 fs2 \<Longrightarrow> fewer_links fs fs2"
  by (simp add: fewer_links_def)

lemma fewer_links_upd: "\<nexists>t. v = Some (Link t) \<Longrightarrow> fewer_links fs (fs(p := v))"
  by (auto simp: fewer_links_def)

lemma fewer_links_clean: "fewer_links fs fs' \<Longrightarrow> clean fs cs \<Longrightarrow> clean fs' cs"
  by (auto simp: fewer_links_def clean_def is_link_def)

lemma prune_links: "prune e ps fs = (fs', r) \<Longrightarrow> fewer_links fs fs'"
proof (induction ps arbitrary: fs)
  case (Cons p ps)
  have one: "fewer_links fs (fs(p := None))" by (rule fewer_links_upd) simp
  consider "fs' = fs" | "prune e ps fs = (fs', r)" | "prune e ps (fs(p := None)) = (fs', r)"
    using Cons.prems by (auto split: option.splits node.splits sum.splits)
  then show ?case by cases (use Cons.IH fewer_links_trans [OF one] in auto)
qed simp

lemma safe_write_links: "safe_write e w st p text = (st', r) \<Longrightarrow> fewer_links (s_fs st) (s_fs st')"
  by (elim safe_write_cases) (auto simp del: fun_upd_apply intro: fewer_links_upd)

lemma safe_write_done:
  assumes "safe_write e w st p text = (st', Inr ())"
  shows "\<exists>m. s_fs st' = (s_fs st)(p \<mapsto> Reg m text)"
  using assms by (cases rule: safe_write_cases) auto

lemma disk_backup_links:
  assumes "disk_backup e w ap st p old = (st', r)"
  shows "fewer_links (s_fs st) (s_fs st')"
proof -
  let ?b = "backup_path w p (s_ops st)"
  obtain st1 r1 where sw: "safe_write e w st ?b old = (st1, r1)"
    by (cases "safe_write e w st ?b old")
  note one = safe_write_links [OF sw]
  have drop: "fewer_links (s_fs st) ((s_fs st1)(?b := None))"
    by (rule fewer_links_trans [OF one fewer_links_upd]) simp
  have pr: "fewer_links (s_fs st) (s_fs st')" if "prune_backups e w ap st2 p = (st', r)" "s_fs st2 = s_fs st1" for st2
    using that fewer_links_trans [OF one] prune_links
    by (auto simp: prune_backups_def Let_def split: prod.splits)
  show ?thesis
    using assms one drop pr
    by (auto simp: disk_backup_def sw Let_def simp del: fun_upd_apply split: sum.splits if_splits)
qed

section \<open>The place of a change\<close>

text \<open>Where a path without double dots lies when no component of it is a link.\<close>

definition written_at :: "applier \<Rightarrow> change \<Rightarrow> path" where
  "written_at ap c = render (ap_root ap @ comps (ch_path c))"

definition plain_write :: "change \<Rightarrow> bool" where
  "plain_write c \<longleftrightarrow> (ch_action c = ''create'' \<or> ch_action c = ''edit'') \<and> ''..'' \<notin> set (comps (ch_path c))"

lemma has_link_clean:
  "\<not> has_link fs base cursor cs \<Longrightarrow> ''..'' \<notin> set cs \<Longrightarrow> clean fs cursor \<Longrightarrow> clean fs (cursor @ cs)"
proof (induction cs arbitrary: cursor)
  case (Cons c cs)
  then have "clean fs (cursor @ [c])" by (auto simp: clean_snoc split: if_splits)
  then show ?case using Cons.IH [of "cursor @ [c]"] Cons.prems by (auto split: if_splits)
qed simp

lemma resolve_clean: "clean fs cs \<Longrightarrow> resolve fs cs = cs"
  using walk_clean [of fs "[]" cs max_hops "[]"] by (simp add: resolve_def)

lemma not_own_backup [simp]: "\<not> bak_of p p"
  by (auto simp: bak_of_def dest!: prefix_length_le)

text \<open>What one write leaves behind.\<close>

definition wrote_one :: "change \<Rightarrow> path \<Rightarrow> string fs \<Rightarrow> string fs \<Rightarrow> bool" where
  "wrote_one c p fs fs' \<longleftrightarrow> (\<exists>m. fs' p = Some (Reg m (ch_content c))) \<and>
     only (\<lambda>q. q = p \<or> bak_of p q) fs fs' \<and> fewer_links fs fs'"

lemma dispatch_writes:
  assumes "dispatch e w ap st c p = (st', Inr True)" "ch_action c = ''create'' \<or> ch_action c = ''edit''"
    and "honest_listing w"
  shows "wrote_one c p (s_fs st) (s_fs st')"
proof (cases "ch_action c = ''create''")
  case True
  obtain st1 r1 where sw: "safe_write e w st p (ch_content c) = (st1, r1)"
    by (cases "safe_write e w st p (ch_content c)")
  then have r1: "r1 = Inr ()" "s_fs st' = s_fs st1"
    using assms(1) True by (auto simp: dispatch_def split: if_splits sum.splits)
  obtain m where "s_fs st' = (s_fs st)(p \<mapsto> Reg m (ch_content c))"
    using safe_write_done [OF sw [unfolded r1(1)]] r1(2) by auto
  then show ?thesis using safe_write_links [OF sw] r1(2)
    by (simp add: wrote_one_def only_upd)
next
  case False
  then have "with_backup e w ap st p (write_true e w p (ch_content c)) = (st', Inr True)"
    using assms(1,2) by (auto simp: dispatch_def)
  then obtain old st1 where db: "disk_backup e w ap st p old = (st1, Inr ())"
      and wt: "write_true e w p (ch_content c) st1 = (st', Inr True)"
    by (auto simp: with_backup_def split: if_splits sum.splits prod.splits)
  obtain r2 where sw: "safe_write e w st1 p (ch_content c) = (st', r2)" "r2 = Inr ()"
    using wt by (auto simp: write_true_def bindR_def split: prod.splits sum.splits)
  obtain m where m: "s_fs st' = (s_fs st1)(p \<mapsto> Reg m (ch_content c))"
    using safe_write_done [OF sw(1) [unfolded sw(2)]] by blast
  have "only (\<lambda>q. q = p \<or> bak_of p q) (s_fs st) (s_fs st1)"
    by (rule only_mono [OF conjunct1 [OF disk_backup_only [OF db assms(3)]]]) simp
  then have "only (\<lambda>q. q = p \<or> bak_of p q) (s_fs st) (s_fs st')"
    by (rule only_trans) (simp add: m only_upd)
  then show ?thesis
    using fewer_links_trans [OF disk_backup_links [OF db] safe_write_links [OF sw(1)]] m by (simp add: wrote_one_def)
qed

lemma apply_change_writes:
  assumes "apply_change e w ap st c = (st', Inr True)" "\<not> ap_dry ap" "plain_write c" "clean (s_fs st) (ap_root ap)"
    and "honest_listing w"
  shows "wrote_one c (written_at ap c) (s_fs st) (s_fs st')"
proof -
  obtain full rel where res: "resolve_change_path e ap (s_fs st) (ch_path c) = Inr (Some (full, rel))"
      and nolink: "\<not> path_has_symlink_component ap (s_fs st) (ch_path c)"
      and d: "dispatch e w ap st c (render full) = (st', Inr True)"
    using assms(1,2) by (auto simp: apply_change_def split: if_splits sum.splits option.splits bool.splits)
  have "full = resolve (s_fs st) (ap_root ap @ comps (ch_path c))"
    using res by (auto simp: resolve_change_path_def absorb_def Let_def split: if_splits)
  also have "\<dots> = ap_root ap @ comps (ch_path c)"
    using nolink assms(3,4)
    by (intro resolve_clean has_link_clean [of _ "ap_root ap"]) (auto simp: path_has_symlink_component_def plain_write_def)
  finally show ?thesis
    using dispatch_writes [OF d _ assms(5)] assms(3) by (simp add: written_at_def plain_write_def)
qed

section \<open>A whole session\<close>

lemma run_changes_errors: "run_changes e w ap st n errs cs = (st', Inr (k, [])) \<Longrightarrow> errs = []"
proof (induction cs arbitrary: st n errs)
  case (Cons c cs)
  obtain st1 r1 where "apply_change e w ap st c = (st1, r1)"
    by (cases "apply_change e w ap st c")
  then show ?case using Cons.prems
    by (auto simp: Let_def split: if_splits sum.splits bool.splits dest: Cons.IH)
qed simp

text \<open>No file to write is the backup of another.\<close>

definition unentangled :: "applier \<Rightarrow> change list \<Rightarrow> bool" where
  "unentangled ap cs \<longleftrightarrow> distinct (map (written_at ap) cs) \<and>
     list_all (\<lambda>c. list_all (\<lambda>d. \<not> prefix (written_at ap d @ ''.bak.'') (written_at ap c)) cs) cs"

lemma run_changes_writes:
  assumes "run_changes e w ap st n [] cs = (st', Inr (k, []))" "\<not> ap_dry ap" "list_all plain_write cs"
    and "clean (s_fs st) (ap_root ap)" "honest_listing w" "unentangled ap cs"
  shows "(\<forall>c \<in> set cs. \<exists>m. s_fs st' (written_at ap c) = Some (Reg m (ch_content c))) \<and>
    only (\<lambda>q. \<exists>c \<in> set cs. q = written_at ap c \<or> bak_of (written_at ap c) q) (s_fs st) (s_fs st')"
  using assms
proof (induction cs arbitrary: st n)
  case (Cons c cs)
  obtain st1 r1 where ac: "apply_change e w ap st c = (st1, r1)"
    by (cases "apply_change e w ap st c")
  obtain st2 where one: "r1 = Inr True" and rest: "run_changes e w ap st2 (Suc n) [] cs = (st', Inr (k, []))"
      and same: "s_fs st2 = s_fs st1"
    using Cons.prems(1)
    by (auto simp: ac Let_def split: if_splits sum.splits bool.splits dest: run_changes_errors)
  have w1: "wrote_one c (written_at ap c) (s_fs st) (s_fs st1)"
    using apply_change_writes [OF ac [unfolded one] Cons.prems(2) _ Cons.prems(4,5)] Cons.prems(3) by simp
  have cl: "clean (s_fs st2) (ap_root ap)"
    using w1 Cons.prems(4) same by (auto simp: wrote_one_def intro: fewer_links_clean)
  have un: "unentangled ap cs" "\<And>d. d \<in> set cs \<Longrightarrow> written_at ap c \<noteq> written_at ap d \<and> \<not> bak_of (written_at ap d) (written_at ap c)"
    using Cons.prems(6) by (auto simp: unentangled_def bak_of_def list_all_iff)
  note later = Cons.IH [OF rest Cons.prems(2) _ cl Cons.prems(5) un(1)]
  have rest': "\<forall>d \<in> set cs. \<exists>m. s_fs st' (written_at ap d) = Some (Reg m (ch_content d))"
    "only (\<lambda>q. \<exists>d \<in> set cs. q = written_at ap d \<or> bak_of (written_at ap d) q) (s_fs st1) (s_fs st')"
    using later Cons.prems(3) same by simp_all
  have "s_fs st' (written_at ap c) = s_fs st1 (written_at ap c)"
    using rest'(2) un(2) unfolding only_def by blast
  moreover have "only (\<lambda>q. \<exists>d \<in> set (c # cs). q = written_at ap d \<or> bak_of (written_at ap d) q) (s_fs st) (s_fs st')"
    using only_trans [OF only_mono [OF conjunct1 [OF conjunct2 [OF w1 [unfolded wrote_one_def]]]] only_mono [OF rest'(2)]]
    by force
  ultimately show ?case using w1 rest'(1) by (auto simp: wrote_one_def)
qed simp

lemma successful_session_writes:
  assumes "apply_session e w ap st cs = (st', Inr res)" "ar_success res" "\<not> ap_dry ap" "list_all plain_write cs"
    and "clean (s_fs st) (ap_root ap)" "honest_listing w" "unentangled ap cs"
  shows "(\<forall>c \<in> set cs. \<exists>m. s_fs st' (written_at ap c) = Some (Reg m (ch_content c))) \<and>
    only (\<lambda>q. \<exists>c \<in> set cs. q = written_at ap c \<or> bak_of (written_at ap c) q) (s_fs st) (s_fs st')"
proof -
  let ?st = "st\<lparr>s_backups := [], s_creates := []\<rparr>"
  have ran: "errs = [] \<and> (\<exists>k. run_changes e w a ?st 0 [] ok = (st', Inr (k, [])))"
    if rn: "run_session e w a ?st errs ok = (st', Inr res)" for a errs ok
  proof -
    obtain st1 r1 where rc: "run_changes e w a ?st 0 errs ok = (st1, r1)"
      by (cases "run_changes e w a ?st 0 errs ok")
    obtain k errs1 where r1: "r1 = Inr (k, errs1)" using rn by (cases r1) (auto simp: run_session_def rc Let_def)
    have "errs1 = []"
      using rn assms(2)
      by (auto simp: run_session_def rc r1 Let_def session_result_def split: prod.splits sum.splits if_splits)
    moreover from this have "st' = st1" using rn by (simp add: run_session_def rc r1 Let_def)
    ultimately show ?thesis using rc r1 run_changes_errors by blast
  qed
  have "\<not> (session_write_recheck_enabled e \<and> \<not> write_enabled e) \<and> run_session e w ap ?st [] cs = (st', Inr res)"
    using assms(1-3) ran
    by (fastforce simp: apply_session_def all_refused_def Let_def split: sum.splits list.splits if_splits)
  then obtain k where "run_changes e w ap ?st 0 [] cs = (st', Inr (k, []))" using ran by blast
  from run_changes_writes [OF this assms(3,4) _ assms(6,7)] assms(5) show ?thesis by simp
qed

end
