(* ===== verification/Promote.thy ===== *)
theory Promote
  imports ApplyDelivery ApplyLadder SandboxReceipt TierGate
begin

text \<open>
  The promotion of verified patches into the working tree (\<open>si_lanes/promote.py\<close>): the approval bound to
  one batch, the scan of the tree for uncommitted code, the verification of the batch with what is
  carried, the comparison of the tree before the write, and the write by the session of
  \<open>ApplySession\<close>. Git's answers, the verifier (installed separately), the hash and the tier gate are
  parameters; \<open>pm_others k\<close> is what other processes do to the files before the \<open>k\<close>-th look at them.
\<close>

section \<open>The batch\<close>

definition cas_enabled :: "env \<Rightarrow> bool" where
  "cas_enabled e \<longleftrightarrow> getenv e ''AGI_V8_SI_PROMOTE_CAS_ENABLED'' ''true'' \<notin> {''false'', ''0''}"

definition approval_bind_enabled :: "env \<Rightarrow> bool" where
  "approval_bind_enabled e \<longleftrightarrow> getenv e ''AGI_V8_SI_PROMOTE_APPROVAL_BIND_ENABLED'' ''true'' \<notin> {''false'', ''0''}"

text \<open>A patch is a target and its content.\<close>

fun as_patch :: "pyv \<Rightarrow> (string \<times> string) option" where
  "as_patch (VList [VStr t, VStr c]) = Some (t, c)"
| "as_patch _ = None"

fun as_patches :: "pyv list \<Rightarrow> (string \<times> string) list option" where
  "as_patches [] = Some []"
| "as_patches (v # vs) =
     (case (as_patch v, as_patches vs) of (Some p, Some ps) \<Rightarrow> Some (p # ps) | _ \<Rightarrow> None)"

definition normalised :: "pyv \<Rightarrow> (string \<times> string) list option" where
  "normalised v = (case v of VList vs \<Rightarrow> as_patches vs | VDict [] \<Rightarrow> Some [] | _ \<Rightarrow> None)"

record request =
  rq_patches :: pyv
  rq_approve :: bool
  rq_state :: "string list option"
  rq_carry :: bool
  rq_baseline :: "pyv list option"
  rq_nonce :: pyv

definition basenames :: "(string \<times> string) list \<Rightarrow> string list" where
  "basenames ps = map (\<lambda>p. path_name (fst p)) ps"

text \<open>The checks on the batch alone.\<close>

definition early_refusal :: "env \<Rightarrow> request \<Rightarrow> (string \<times> string) list \<Rightarrow> string option" where
  "early_refusal e rq ps =
     (if \<not> promote_enabled e then Some ''gate_off:AGI_V8_SI_PROMOTE_ENABLED''
      else if \<not> rq_approve rq then Some ''not_approved (pass approve=True / --approve-promote)''
      else if ps = [] then Some ''no_patches''
      else if list_ex (\<lambda>p. py_strip (snd p) = []) ps then Some ''empty_content''
      else if \<not> distinct (map fst ps) then Some ''duplicate_target''
      else if \<not> distinct (basenames ps) then Some ''ambiguous_basenames''
      else None)"

section \<open>The approval\<close>

definition patch_digest :: "(string \<Rightarrow> string) \<Rightarrow> (string \<times> string) list \<Rightarrow> string" where
  "patch_digest sha ps =
     sha (concat (map (\<lambda>(t, c). t @ [CHR 0x00] @ sha c @ [lf]) (sort_key fst ps)))"

definition nonce_path :: "(string \<Rightarrow> string) \<Rightarrow> string fs \<Rightarrow> string list \<Rightarrow> string \<Rightarrow> path" where
  "nonce_path sha fs dir nonce = render (resolve fs (dir @ [''si_promote_nonces'']) @ [sha nonce @ ''.json''])"

text \<open>The nonce's file is created exclusively. \<open>mkdir\<close> is the answer for its directory.\<close>

definition check_and_bind_nonce ::
  "(string \<Rightarrow> string) \<Rightarrow> unit result \<Rightarrow> string list option \<Rightarrow> string \<Rightarrow> string \<Rightarrow> string fs \<Rightarrow> string fs \<times> string option" where
  "check_and_bind_nonce sha mkdir state nonce digest fs =
     (case state of
        None \<Rightarrow> (fs, Some ''nonce_requires_state_dir'')
      | Some dir \<Rightarrow>
          (case mkdir of
             Inl x \<Rightarrow> (fs, Some ''nonce_ledger_error'')
           | Inr _ \<Rightarrow>
               let p = nonce_path sha fs dir nonce in
               if fs p \<noteq> None then (fs, Some ''nonce_reused'')
               else (fs(p \<mapsto> Reg 384 (''{\"patch_digest\": \"'' @ digest @ ''\"}'')), None)))"

text \<open>An approval is bound where the caller gave a nonce.\<close>

definition nonce_stage ::
  "env \<Rightarrow> (string \<Rightarrow> string) \<Rightarrow> unit result \<Rightarrow> request \<Rightarrow> (string \<times> string) list \<Rightarrow> string fs \<Rightarrow> string fs \<times> string option" where
  "nonce_stage e sha mkdir rq ps fs =
     (if \<not> approval_bind_enabled e \<or> rq_nonce rq = VNone then (fs, None)
      else case rq_nonce rq of
          VStr n \<Rightarrow>
            if py_strip n = [] then (fs, Some ''invalid_approval_nonce'')
            else check_and_bind_nonce sha mkdir (rq_state rq) n (patch_digest sha ps) fs
        | _ \<Rightarrow> (fs, Some ''invalid_approval_nonce''))"

section \<open>The tree\<close>

definition max_py :: int where "max_py = 67108864"

definition py_file :: "string \<Rightarrow> bool" where "py_file p \<longleftrightarrow> suffix ''.py'' p"

definition unsafe_parts :: "ppath \<Rightarrow> bool" where
  "unsafe_parts p \<longleftrightarrow> fst p \<or> snd p = [] \<or> list_ex (\<lambda>c. c = [] \<or> c = ''.'' \<or> c = ''..'' \<or> c = ''.git'') (snd p)"

text \<open>A link among the first \<open>n\<close> steps below the root.\<close>

definition link_below :: "string fs \<Rightarrow> string list \<Rightarrow> string list \<Rightarrow> nat \<Rightarrow> bool" where
  "link_below fs gr parts n \<longleftrightarrow> list_ex (\<lambda>k. is_link fs (gr @ take (Suc k) parts)) [0..<n]"

definition executable_bits :: "nat \<Rightarrow> bool" where
  "executable_bits m \<longleftrightarrow> has_bit m 1 \<or> has_bit m 8 \<or> has_bit m 64"

definition blob_digest :: "(string \<Rightarrow> string \<Rightarrow> string) \<Rightarrow> string \<Rightarrow> string \<Rightarrow> string" where
  "blob_digest hash alg data = hash alg (''blob '' @ nat_text (length data) @ [CHR 0x00] @ data)"

text \<open>Whether a file of the index differs from what the index says.\<close>

definition file_dirty ::
  "(string \<Rightarrow> string \<Rightarrow> string) \<Rightarrow> string \<Rightarrow> string list \<Rightarrow> string fs \<Rightarrow> string \<Rightarrow> string \<Rightarrow> string \<Rightarrow> bool" where
  "file_dirty hash alg gr fs p mode oid =
     (let raw = parse p; parts = snd raw in
      if unsafe_parts raw then True
      else if link_below fs gr parts (length parts - 1) then True
      else case fs (render (gr @ parts)) of
          None \<Rightarrow> True
        | Some Dir \<Rightarrow> True
        | Some (Link t) \<Rightarrow> mode \<noteq> ''120000'' \<or> blob_digest hash alg t \<noteq> oid
        | Some (Reg m c) \<Rightarrow>
            mode = ''120000'' \<or> max_py < int (length c) \<or> (executable_bits m \<longleftrightarrow> mode \<noteq> ''100755'') \<or>
            blob_digest hash alg c \<noteq> oid)"

text \<open>One record of the index: \<open>None\<close> where it cannot be parsed. The state is the index and the dirty
  names so far.\<close>

definition index_record ::
  "string \<Rightarrow> (string \<times> string \<times> string) list \<times> string list \<Rightarrow> ((string \<times> string \<times> string) list \<times> string list) option" where
  "index_record r st =
     (let tab = CHR 0x09; meta = takeWhile (\<lambda>c. c \<noteq> tab) r; p = tl (dropWhile (\<lambda>c. c \<noteq> tab) r) in
      if tab \<notin> set r \<or> list_ex (\<lambda>c. 127 < char_code c) meta then None
      else case words_acc [] meta of
          [mode, oid, stage] \<Rightarrow>
            if \<not> py_file p then Some st
            else (case parse_int stage of
                None \<Rightarrow> None
              | Some n \<Rightarrow>
                  if n \<noteq> 0 \<or> p \<in> set (map fst (fst st)) \<or> set oid = {CHR ''0''}
                  then Some (fst st, p # snd st)
                  else Some (fst st @ [(p, mode, oid)], snd st))
        | _ \<Rightarrow> None)"

fun index_records ::
  "string list \<Rightarrow> (string \<times> string \<times> string) list \<times> string list \<Rightarrow> ((string \<times> string \<times> string) list \<times> string list) option" where
  "index_records [] st = Some st"
| "index_records (r # recs) st =
     (if r = [] then index_records recs st
      else case index_record r st of None \<Rightarrow> None | Some st' \<Rightarrow> index_records recs st')"

text \<open>Git's answers to the scan: the index, the untracked files, the object format, the entries of \<open>HEAD\<close>.\<close>

record git_scan =
  sc_index :: "(int \<times> string) result"
  sc_other :: "(int \<times> string) result"
  sc_format :: "(int \<times> string) result"
  sc_head :: "(string \<times> string \<times> string) list result"

definition scan_failure :: "string list" where "scan_failure = [''<filter-free dirty scan failed>'']"

text \<open>\<open>head\<close> and \<open>ix\<close> map a path to its mode and object.\<close>

definition dirty_names ::
  "(string \<Rightarrow> string \<Rightarrow> string) \<Rightarrow> string \<Rightarrow> string list \<Rightarrow> string fs \<Rightarrow> (string \<times> string \<times> string) list
    \<Rightarrow> (string \<times> string \<times> string) list \<Rightarrow> string list \<Rightarrow> string list \<Rightarrow> string list" where
  "dirty_names hash alg gr fs head ix early others =
     early @
     filter (\<lambda>p. map_of (rev head) p \<noteq> map_of ix p) (map fst head @ map fst ix) @
     map fst (filter (\<lambda>(p, mode, oid). file_dirty hash alg gr fs p mode oid) ix) @
     filter (\<lambda>p. p \<noteq> [] \<and> py_file p) others"

definition dirty_code_files ::
  "(string \<Rightarrow> string \<Rightarrow> string) \<Rightarrow> string list \<Rightarrow> git_scan \<Rightarrow> string fs \<Rightarrow> string list" where
  "dirty_code_files hash gr sc fs =
     (case (sc_index sc, sc_other sc, sc_format sc, sc_head sc) of
        (Inr (a, ix), Inr (b, other), Inr (c, alg0), Inr head0) \<Rightarrow>
          (let alg = py_strip alg0; head = filter (\<lambda>(p, _). py_file p) (map (\<lambda>(m, oid, p). (p, m, oid)) head0) in
           if a \<noteq> 0 \<or> b \<noteq> 0 \<or> c \<noteq> 0 \<or> (alg \<noteq> ''sha1'' \<and> alg \<noteq> ''sha256'') then scan_failure
           else case index_records (split_on (CHR 0x00) ix) ([], []) of
               None \<Rightarrow> scan_failure
             | Some (entries, early) \<Rightarrow>
                 sort (remdups (dirty_names hash alg gr fs head entries early (split_on (CHR 0x00) other))))
      | _ \<Rightarrow> scan_failure)"

definition read_regular_uncommitted :: "string list \<Rightarrow> string fs \<Rightarrow> string \<Rightarrow> string result" where
  "read_regular_uncommitted gr fs p =
     (let raw = parse p; parts = snd raw in
      if unsafe_parts raw then Inl (OSError ''unsafe uncommitted path'')
      else if link_below fs gr parts (length parts) then Inl (OSError ''symlinked uncommitted path'')
      else case fs (render (gr @ parts)) of
          Some (Reg m c) \<Rightarrow>
            if max_py < int (length c) then Inl (OSError ''uncommitted file exceeds carry budget'') else Inr (universal c)
        | None \<Rightarrow> Inl (FileNotFound ''ENOENT'')
        | Some _ \<Rightarrow> Inl (OSError ''uncommitted path is not a regular file''))"

fun carry_all :: "string list \<Rightarrow> string fs \<Rightarrow> string list \<Rightarrow> (string \<times> string) list option" where
  "carry_all gr fs [] = Some []"
| "carry_all gr fs (p # ps) =
     (case read_regular_uncommitted gr fs p of
        Inl x \<Rightarrow> None
      | Inr c \<Rightarrow> map_option (\<lambda>cs. (p, c) # cs) (carry_all gr fs ps))"

text \<open>The carried files, or the refusal.\<close>

definition tree_stage ::
  "request \<Rightarrow> string list \<Rightarrow> string fs \<Rightarrow> string list \<Rightarrow> (string \<times> string) list \<Rightarrow> string + (string \<times> string) list" where
  "tree_stage rq gr fs dirty ps =
     (let targets = map fst ps; rest = filter (\<lambda>d. d \<notin> set targets) dirty in
      if list_ex (\<lambda>d. d \<in> set targets) dirty then Inl ''dirty_tree_target (uncommitted edits would be overwritten)''
      else if rest = [] then Inr []
      else if \<not> rq_carry rq then Inl ''dirty_tree (commit/stash first)''
      else case carry_all gr fs rest of
          None \<Rightarrow> Inl ''uncommitted_unreadable''
        | Some cs \<Rightarrow> Inr cs)"

section \<open>The verdict\<close>

text \<open>What the promotion asks of others. \<open>pm_tier\<close> is \<^const>\<open>require_tier\<close> at a tier; \<open>pm_verifier\<close> says whether
  the verifier is installed, \<open>pm_verify\<close> is its verdict on a tree and a batch; \<open>pm_head k\<close> is the \<open>k\<close>-th answer
  to the question for \<open>HEAD\<close>, \<open>None\<close> where it failed.\<close>

record promo =
  pm_env :: env
  pm_fr :: "rat \<Rightarrow> string"
  pm_tier :: "int \<Rightarrow> refusal + unit"
  pm_sha :: "string \<Rightarrow> string"
  pm_hash :: "string \<Rightarrow> string \<Rightarrow> string"
  pm_mkdir :: "unit result"
  pm_verifier :: bool
  pm_root :: "string list option"
  pm_scan :: git_scan
  pm_head :: "nat \<Rightarrow> string option"
  pm_verify :: "string fs \<Rightarrow> (string \<times> string) list \<Rightarrow> dict result"
  pm_world :: world
  pm_human :: "unit result"
  pm_others :: "nat \<Rightarrow> string fs \<Rightarrow> string fs"

text \<open>\<open>[str(t) for t in v or []]\<close>.\<close>

definition texts_of :: "(rat \<Rightarrow> string) \<Rightarrow> pyv \<Rightarrow> string list result" where
  "texts_of fr v =
     (case v of
        VList vs \<Rightarrow> Inr (map (py_str fr) vs)
      | VStr s \<Rightarrow> Inr (map (\<lambda>c. [c]) s)
      | VDict d \<Rightarrow> Inr (map fst d)
      | _ \<Rightarrow> if truthy v then Inl (TypeError ''not iterable'') else Inr [])"

definition cut_identity :: "string \<Rightarrow> bool" where
  "cut_identity t \<longleftrightarrow> suffix '' more'' t \<and> prefix ''+'' t"

text \<open>A red suite is let through where its failures are all named and all in the baseline.\<close>

definition baseline_refusal :: "string list \<Rightarrow> string list \<Rightarrow> string option" where
  "baseline_refusal now base =
     (if list_ex cut_identity (now @ base) then Some ''baseline_compare_impossible:identity_list_truncated''
      else if now = [] then Some ''verify_failed_without_identities''
      else if \<not> list_all (\<lambda>t. t \<in> set base) now then Some ''verify_new_reds''
      else None)"

definition verdict_refusal ::
  "(rat \<Rightarrow> string) \<Rightarrow> pyv list option \<Rightarrow> dict \<Rightarrow> string option result" where
  "verdict_refusal fr baseline v =
     (if dict_get v ''ran'' \<noteq> VBool True then Inr (Some ''verify_did_not_run'')
      else if dict_get v ''completion_verified'' \<noteq> VBool True then Inr (Some ''verify_completion_untrusted'')
      else if truthy (dict_get v ''ok'') then Inr None
      else case baseline of
          None \<Rightarrow> Inr (Some ''verify_failed'')
        | Some b \<Rightarrow> bindR (texts_of fr (dict_get v ''failed_tests'')) (\<lambda>now.
            Inr (baseline_refusal now (map (py_str fr) b))))"

definition verify_batch ::
  "promo \<Rightarrow> request \<Rightarrow> string fs \<Rightarrow> (string \<times> string) list \<Rightarrow> string option result" where
  "verify_batch g rq fs batch =
     (if \<not> distinct (basenames batch) then Inr (Some ''ambiguous_basenames_with_uncommitted'')
      else case pm_verify g fs batch of
          Inl x \<Rightarrow> absorb (pm_env g) x (Some ''verify_errored'')
        | Inr v \<Rightarrow> verdict_refusal (pm_fr g) (rq_baseline rq) v)"

section \<open>The comparison\<close>

datatype preimage = Absent | Bytes string | Other

text \<open>\<open>lstat\<close>: links among the parents are followed, one at the end is not. A \<open>..\<close> is resolved without
  asking whether what precedes it exists.\<close>

definition lstat_at :: "string fs \<Rightarrow> string list \<Rightarrow> string node option" where
  "lstat_at fs cs =
     (if cs = [] then Some Dir
      else if List.last cs = ''..'' then fs (render (resolve fs cs))
      else fs (render (resolve fs (butlast cs) @ [List.last cs])))"

definition preimage_state :: "(string \<Rightarrow> string) \<Rightarrow> string list \<Rightarrow> string fs \<Rightarrow> string \<Rightarrow> preimage result" where
  "preimage_state sha gr fs t =
     (if nul \<in> set t then Inl (ValueError ''embedded null byte'')
      else Inr (case lstat_at fs (absolute_comps gr (parse t)) of
          None \<Rightarrow> Absent
        | Some (Reg _ c) \<Rightarrow> Bytes (sha c)
        | Some _ \<Rightarrow> Other))"

fun preimages ::
  "(string \<Rightarrow> string) \<Rightarrow> string list \<Rightarrow> string fs \<Rightarrow> string list \<Rightarrow> (string \<times> preimage) list result" where
  "preimages sha gr fs [] = Inr []"
| "preimages sha gr fs (t # ts) =
     bindR (preimage_state sha gr fs t) (\<lambda>x. bindR (preimages sha gr fs ts) (\<lambda>xs. Inr ((t, x) # xs)))"

text \<open>What is captured before the verification: \<open>HEAD\<close> and the targets.\<close>

type_synonym capture = "string option \<times> (string \<times> preimage) list"

definition captured :: "promo \<Rightarrow> string list \<Rightarrow> string fs \<Rightarrow> string list \<Rightarrow> capture result" where
  "captured g gr fs targets =
     (if cas_enabled (pm_env g)
      then bindR (preimages (pm_sha g) gr fs targets) (\<lambda>pre. Inr (pm_head g 0, pre))
      else Inr (None, []))"

definition cas_refusal ::
  "promo \<Rightarrow> string list \<Rightarrow> string fs \<Rightarrow> capture \<Rightarrow> string list \<Rightarrow> string option result" where
  "cas_refusal g gr fs cap targets =
     (if \<not> cas_enabled (pm_env g) then Inr None
      else if pm_head g 1 = None \<or> fst cap = None \<or> pm_head g 1 \<noteq> fst cap then Inr (Some ''head_moved'')
      else bindR (preimages (pm_sha g) gr fs targets) (\<lambda>now.
        Inr (if list_ex (\<lambda>(t, x). map_of (snd cap) t \<noteq> Some x) now then Some ''preimage_mismatch'' else None)))"

section \<open>The write\<close>

definition exists_at :: "string list \<Rightarrow> string fs \<Rightarrow> string \<Rightarrow> bool" where
  "exists_at gr fs t \<longleftrightarrow> nul \<notin> set t \<and> opened fs (render (resolve fs (absolute_comps gr (parse t)))) \<noteq> None"

definition promoted_change :: "string list \<Rightarrow> string fs \<Rightarrow> string \<times> string \<Rightarrow> change" where
  "promoted_change gr fs p =
     \<lparr>ch_path = fst p, ch_action = (if exists_at gr fs (fst p) then ''edit'' else ''create''),
      ch_content = snd p, ch_target = [], ch_replacement = [], ch_position = ''after'', ch_expected = []\<rparr>"

definition max_writes :: "env \<Rightarrow> nat result" where
  "max_writes e =
     (let t = py_strip (getenv e ''AGI_V8_SAFE_AUTO_APPLY_MAX_WRITES_PER_CYCLE'' []) in
      if t = [] then Inr 5
      else case parse_int t of
          None \<Rightarrow> absorb e (ValueError ''int'') 5
        | Some n \<Rightarrow> Inr (nat (max 1 n)))"

definition promoting_applier :: "env \<Rightarrow> string list \<Rightarrow> string fs \<Rightarrow> applier result" where
  "promoting_applier e gr fs =
     bindR (max_writes e) (\<lambda>n. Inr
       \<lparr>ap_root = resolve fs gr, ap_files = protected_files, ap_dirs = protected_dirs,
        ap_dry = (\<not> write_enabled e), ap_retention = 10, ap_max = n\<rparr>)"

record report =
  rp_promoted :: bool
  rp_reason :: string
  rp_write_enabled :: bool
  rp_action :: string
  rp_success :: bool
  rp_applied :: nat
  rp_errors :: "string list"
  rp_pre :: string
  rp_post :: string
  rp_patches :: "(string \<times> string) list"
  rp_carried :: "string list"

text \<open>What a call ends with: a refusal, a report, or an exception that leaves the function.\<close>

datatype ending = Refused string | Reported report | TierRefused refusal | VerifierMissing | Raised exn

fun ended :: "ending result \<Rightarrow> ending" where
  "ended (Inl x) = Raised x"
| "ended (Inr out) = out"

definition human_due :: "env \<Rightarrow> request \<Rightarrow> bool" where
  "human_due e rq \<longleftrightarrow>
     rq_state rq \<noteq> None \<or> getenv e ''AGI_V8_STATE_DIR'' [] \<noteq> [] \<or> getenv e ''AGI_STATE_DIR'' [] \<noteq> []"

definition report_of ::
  "env \<Rightarrow> change list \<Rightarrow> (string \<times> string) list \<Rightarrow> apply_result \<Rightarrow> report" where
  "report_of e cs carried res =
     (let on = write_enabled e; ok = (on \<and> ar_success res \<and> length cs \<le> ar_applied res) in
      \<lparr>rp_promoted = ok, rp_reason = (if ok then ''promoted'' else if \<not> on then ''dry_run'' else ''apply_failed''),
       rp_write_enabled = on, rp_action = (case cs of [c] \<Rightarrow> ch_action c | _ \<Rightarrow> []),
       rp_success = ar_success res, rp_applied = ar_applied res, rp_errors = ar_errors res,
       rp_pre = ar_pre res, rp_post = ar_post res, rp_patches = map (\<lambda>c. (ch_path c, ch_action c)) cs,
       rp_carried = map fst carried\<rparr>)"

text \<open>A promotion is told to the ledger after the write; only a strict environment lets its failure out.\<close>

definition told :: "promo \<Rightarrow> request \<Rightarrow> report \<Rightarrow> ending" where
  "told g rq rp =
     (if \<not> rp_promoted rp \<or> \<not> human_due (pm_env g) rq then Reported rp
      else case pm_human g of
          Inr _ \<Rightarrow> Reported rp
        | Inl x \<Rightarrow> ended (absorb (pm_env g) x (Reported rp)))"

definition write_batch ::
  "promo \<Rightarrow> request \<Rightarrow> string list \<Rightarrow> capture \<Rightarrow> (string \<times> string) list \<Rightarrow> (string \<times> string) list \<Rightarrow> string fs
    \<Rightarrow> string fs \<times> ending" where
  "write_batch g rq gr cap ps carried fs =
     (let e = pm_env g; failed = (\<lambda>x. ended (absorb e x (Refused ''apply_errored''))) in
      case cas_refusal g gr fs cap (map fst ps) of
        Inl x \<Rightarrow> (fs, failed x)
      | Inr (Some r) \<Rightarrow> (fs, Refused r)
      | Inr None \<Rightarrow>
          (let fs1 = pm_others g 4 fs; cs = map (promoted_change gr fs1) ps in
           case promoting_applier e gr fs1 of
             Inl x \<Rightarrow> (fs1, failed x)
           | Inr ap \<Rightarrow>
               (case apply_session e (pm_world g) ap (fresh_sess fs1) cs of
                  (st, Inl x) \<Rightarrow> (s_fs st, failed x)
                | (st, Inr res) \<Rightarrow> (s_fs st, told g rq (report_of e cs carried res)))))"

section \<open>One promotion\<close>

definition verify_and_write ::
  "promo \<Rightarrow> request \<Rightarrow> string list \<Rightarrow> (string \<times> string) list \<Rightarrow> (string \<times> string) list \<Rightarrow> string fs
    \<Rightarrow> string fs \<times> ending" where
  "verify_and_write g rq gr ps carried fs =
     (case captured g gr fs (map fst ps) of
        Inl x \<Rightarrow> (fs, Raised x)
      | Inr cap \<Rightarrow>
          (case verify_batch g rq fs (ps @ carried) of
             Inl x \<Rightarrow> (fs, Raised x)
           | Inr (Some r) \<Rightarrow> (fs, Refused r)
           | Inr None \<Rightarrow> write_batch g rq gr cap ps carried (pm_others g 3 fs)))"

definition promote_on_tree ::
  "promo \<Rightarrow> request \<Rightarrow> (string \<times> string) list \<Rightarrow> string fs \<Rightarrow> string fs \<times> ending" where
  "promote_on_tree g rq ps fs =
     (if \<not> pm_verifier g then (fs, VerifierMissing)
      else case pm_root g of
          None \<Rightarrow> (fs, Refused ''not_a_git_repo'')
        | Some gr \<Rightarrow>
            (let fs1 = pm_others g 0 fs; dirty = dirty_code_files (pm_hash g) gr (pm_scan g) fs1; fs2 = pm_others g 1 fs1 in
             case tree_stage rq gr fs2 dirty ps of
               Inl r \<Rightarrow> (fs2, Refused r)
             | Inr carried \<Rightarrow> verify_and_write g rq gr ps carried (pm_others g 2 fs2)))"

definition promote_patches :: "promo \<Rightarrow> request \<Rightarrow> string fs \<Rightarrow> string fs \<times> ending" where
  "promote_patches g rq fs =
     (let e = pm_env g in
      case (if tier_gate_enabled e then pm_tier g 8 else Inr ()) of
        Inl x \<Rightarrow> (fs, TierRefused x)
      | Inr _ \<Rightarrow>
          (case normalised (rq_patches rq) of
             None \<Rightarrow> (fs, Refused ''invalid_patches'')
           | Some ps \<Rightarrow>
               (case early_refusal e rq ps of
                  Some r \<Rightarrow> (fs, Refused r)
                | None \<Rightarrow>
                    (case nonce_stage e (pm_sha g) (pm_mkdir g) rq ps fs of
                       (fs1, Some r) \<Rightarrow> (fs1, Refused r)
                     | (fs1, None) \<Rightarrow> promote_on_tree g rq ps fs1))))"

text \<open>The spelling for a single patch: nothing is carried, no baseline, no token.\<close>

definition promote_patch :: "promo \<Rightarrow> string \<Rightarrow> string \<Rightarrow> bool \<Rightarrow> string list option \<Rightarrow> string fs \<Rightarrow> string fs \<times> ending" where
  "promote_patch g t c approve state fs =
     promote_patches g \<lparr>rq_patches = VList [VList [VStr t, VStr c]], rq_approve = approve, rq_state = state,
       rq_carry = False, rq_baseline = None, rq_nonce = VNone\<rparr> fs"

section \<open>What a promotion was cleared by\<close>

text \<open>The tree at the \<open>k\<close>-th look: 1 the scan, 2 the reading of the carried files, 3 the verification,
  4 the comparison, 5 the write.\<close>

fun tree_at :: "promo \<Rightarrow> string fs \<Rightarrow> nat \<Rightarrow> string fs" where
  "tree_at g fs 0 = fs"
| "tree_at g fs (Suc k) = pm_others g k (tree_at g fs k)"

text \<open>A verdict that lets a batch pass: the suite ran, its completion was attested from outside, and it is
  green or every failure is named and was there before.\<close>

definition proven :: "(rat \<Rightarrow> string) \<Rightarrow> pyv list option \<Rightarrow> dict \<Rightarrow> bool" where
  "proven fr baseline v \<longleftrightarrow>
     dict_get v ''ran'' = VBool True \<and> dict_get v ''completion_verified'' = VBool True \<and>
     (truthy (dict_get v ''ok'') \<or>
      (\<exists>now b. texts_of fr (dict_get v ''failed_tests'') = Inr now \<and> baseline = Some b \<and> now \<noteq> [] \<and>
         set now \<subseteq> set (map (py_str fr) b) \<and> list_all (\<lambda>t. \<not> cut_identity t) (now @ map (py_str fr) b)))"

text \<open>No dirty file is a target; the others are all carried, with the text they had.\<close>

definition accounted :: "promo \<Rightarrow> request \<Rightarrow> string list \<Rightarrow> (string \<times> string) list \<Rightarrow> (string \<times> string) list \<Rightarrow> string fs \<Rightarrow> bool" where
  "accounted g rq gr ps carried fs \<longleftrightarrow>
     (\<forall>d \<in> set (dirty_code_files (pm_hash g) gr (pm_scan g) (tree_at g fs 1)).
        d \<notin> fst ` set ps \<and> rq_carry rq \<and>
        (\<exists>c. (d, c) \<in> set carried \<and> read_regular_uncommitted gr (tree_at g fs 2) d = Inr c))"

definition cleared ::
  "promo \<Rightarrow> request \<Rightarrow> string list \<Rightarrow> (string \<times> string) list \<Rightarrow> (string \<times> string) list \<Rightarrow> string fs \<Rightarrow> bool" where
  "cleared g rq gr ps carried fs \<longleftrightarrow>
     promote_enabled (pm_env g) \<and> rq_approve rq \<and> write_enabled (pm_env g) \<and>
     distinct (map fst ps) \<and> distinct (basenames (ps @ carried)) \<and> accounted g rq gr ps carried fs \<and>
     holds (pm_verify g (tree_at g fs 3) (ps @ carried)) (proven (pm_fr g) (rq_baseline rq))"

text \<open>Nothing moved under the batch while it was verified: \<open>HEAD\<close> was known and is the same, and so is
  every target.\<close>

definition unmoved :: "promo \<Rightarrow> string list \<Rightarrow> (string \<times> string) list \<Rightarrow> string fs \<Rightarrow> bool" where
  "unmoved g gr ps fs \<longleftrightarrow>
     cas_enabled (pm_env g) \<longrightarrow> pm_head g 0 \<noteq> None \<and> pm_head g 1 = pm_head g 0 \<and>
       (\<forall>t \<in> fst ` set ps. preimage_state (pm_sha g) gr (tree_at g fs 4) t = preimage_state (pm_sha g) gr (tree_at g fs 3) t)"

text \<open>The write is reached only through every stage.\<close>

definition reached ::
  "promo \<Rightarrow> request \<Rightarrow> string fs \<Rightarrow> string list \<Rightarrow> (string \<times> string) list \<Rightarrow> (string \<times> string) list \<Rightarrow> capture
    \<Rightarrow> string fs \<Rightarrow> bool" where
  "reached g rq fs gr ps carried cap fs1 \<longleftrightarrow>
     normalised (rq_patches rq) = Some ps \<and> early_refusal (pm_env g) rq ps = None \<and>
     nonce_stage (pm_env g) (pm_sha g) (pm_mkdir g) rq ps fs = (fs1, None) \<and> pm_root g = Some gr \<and>
     tree_stage rq gr (tree_at g fs1 2) (dirty_code_files (pm_hash g) gr (pm_scan g) (tree_at g fs1 1)) ps = Inr carried \<and>
     captured g gr (tree_at g fs1 3) (map fst ps) = Inr cap \<and>
     verify_batch g rq (tree_at g fs1 3) (ps @ carried) = Inr None"

lemma nonce_stage_cases:
  assumes "nonce_stage e sha mk rq ps fs = (fs1, r)"
  obtains (same) "fs1 = fs"
  | (bound) dir n where "r = None" "rq_state rq = Some dir" "rq_nonce rq = VStr n" "fs (nonce_path sha fs dir n) = None"
      "fs1 = fs(nonce_path sha fs dir n \<mapsto> Reg 384 (''{\"patch_digest\": \"'' @ patch_digest sha ps @ ''\"}''))"
proof (cases "rq_nonce rq")
  case (VStr n)
  show thesis
  proof (cases "rq_state rq")
    case (Some dir)
    show thesis
    proof (cases "fs1 = fs")
      case False
      then show thesis using assms VStr Some bound [OF _ Some VStr]
        unfolding nonce_stage_def check_and_bind_nonce_def Let_def by (simp split: if_splits sum.splits)
    qed (rule same)
  qed (use assms VStr same in \<open>simp add: nonce_stage_def check_and_bind_nonce_def split: if_splits\<close>)
qed (use assms same in \<open>simp_all add: nonce_stage_def split: if_splits\<close>)

lemma promote_on_tree_cases:
  assumes "promote_on_tree g rq ps fs1 = (fs', out)"
  obtains (stopped) k where "fs' = tree_at g fs1 k" "\<nexists>rp. out = Reported rp"
  | (wrote) gr carried cap where "pm_root g = Some gr"
      "tree_stage rq gr (tree_at g fs1 2) (dirty_code_files (pm_hash g) gr (pm_scan g) (tree_at g fs1 1)) ps = Inr carried"
      "captured g gr (tree_at g fs1 3) (map fst ps) = Inr cap"
      "verify_batch g rq (tree_at g fs1 3) (ps @ carried) = Inr None"
      "write_batch g rq gr cap ps carried (tree_at g fs1 4) = (fs', out)"
proof -
  have t: "tree_at g fs1 1 = pm_others g 0 fs1" "tree_at g fs1 2 = pm_others g 1 (pm_others g 0 fs1)"
    "tree_at g fs1 3 = pm_others g 2 (pm_others g 1 (pm_others g 0 fs1))"
    "tree_at g fs1 4 = pm_others g 3 (tree_at g fs1 3)"
    by (simp_all add: numeral_eq_Suc)
  have stop0: "fs' = fs1 \<Longrightarrow> \<nexists>rp. out = Reported rp \<Longrightarrow> thesis" using stopped [of 0] by simp
  show thesis
  proof (cases "pm_root g")
    case None
    then show thesis using assms stop0 by (auto simp: promote_on_tree_def split: if_splits)
  next
    case (Some gr)
    show thesis
    proof (cases "pm_verifier g")
      case True
      show thesis
      proof (cases "tree_stage rq gr (tree_at g fs1 2) (dirty_code_files (pm_hash g) gr (pm_scan g) (tree_at g fs1 1)) ps")
        case (Inl r)
        then have "fs' = tree_at g fs1 2" "out = Refused r"
          using assms Some True by (auto simp: promote_on_tree_def Let_def t)
        then show thesis using stopped by blast
      next
        case (Inr carried)
        then have vw: "verify_and_write g rq gr ps carried (tree_at g fs1 3) = (fs', out)"
          using assms Some True by (simp add: promote_on_tree_def Let_def t)
        show thesis
        proof (cases "\<exists>cap. captured g gr (tree_at g fs1 3) (map fst ps) = Inr cap \<and>
            verify_batch g rq (tree_at g fs1 3) (ps @ carried) = Inr None")
          case True
          then show thesis using vw wrote [OF Some Inr] by (auto simp: verify_and_write_def t(4))
        next
          case False
          then have "fs' = tree_at g fs1 3 \<and> (\<nexists>rp. out = Reported rp)"
            using vw by (auto simp: verify_and_write_def split: sum.splits option.splits)
          then show thesis using stopped by blast
        qed
      qed
    qed (use assms stop0 in \<open>auto simp: promote_on_tree_def\<close>)
  qed
qed

lemma promote_cases:
  assumes "promote_patches g rq fs = (fs', out)"
  obtains (stopped) fs1 r k ps where "nonce_stage (pm_env g) (pm_sha g) (pm_mkdir g) rq ps fs = (fs1, r) \<or> fs1 = fs"
      "fs' = tree_at g fs1 k" "\<nexists>rp. out = Reported rp"
  | (wrote) gr ps carried cap fs1 where "reached g rq fs gr ps carried cap fs1"
      "write_batch g rq gr cap ps carried (tree_at g fs1 4) = (fs', out)"
proof -
  have zero: "tree_at g f 0 = f" for f by simp
  show thesis
  proof (cases "\<exists>ps fs1. normalised (rq_patches rq) = Some ps \<and> early_refusal (pm_env g) rq ps = None \<and>
      nonce_stage (pm_env g) (pm_sha g) (pm_mkdir g) rq ps fs = (fs1, None) \<and> promote_on_tree g rq ps fs1 = (fs', out)")
    case True
    then obtain ps fs1 where s: "normalised (rq_patches rq) = Some ps" "early_refusal (pm_env g) rq ps = None"
        "nonce_stage (pm_env g) (pm_sha g) (pm_mkdir g) rq ps fs = (fs1, None)" "promote_on_tree g rq ps fs1 = (fs', out)"
      by blast
    from s(4) show thesis
    proof (cases rule: promote_on_tree_cases)
      case (stopped k)
      then show thesis using that(1) [OF disjI1 [OF s(3)]] by blast
    next
      case (wrote gr carried cap)
      then show thesis using that(2) s(1-3) by (simp add: reached_def)
    qed
  next
    case False
    then have "(\<exists>ps r. nonce_stage (pm_env g) (pm_sha g) (pm_mkdir g) rq ps fs = (fs', r)) \<or> fs' = fs" "\<nexists>rp. out = Reported rp"
      using assms by (auto simp: promote_patches_def Let_def split: sum.splits option.splits prod.splits if_splits)
    then show thesis using stopped [of _ fs' _ 0] zero by metis
  qed
qed

lemma carry_all_reads:
  "carry_all gr fs ds = Some cs \<Longrightarrow> d \<in> set ds \<Longrightarrow> \<exists>c. (d, c) \<in> set cs \<and> read_regular_uncommitted gr fs d = Inr c"
  by (induction ds arbitrary: cs) (auto split: sum.splits)

lemma tree_stage_accounts:
  assumes "tree_stage rq gr (tree_at g fs 2) (dirty_code_files (pm_hash g) gr (pm_scan g) (tree_at g fs 1)) ps = Inr carried"
  shows "accounted g rq gr ps carried fs"
proof -
  let ?dirty = "dirty_code_files (pm_hash g) gr (pm_scan g) (tree_at g fs 1)"
  have clear: "d \<notin> fst ` set ps" if "d \<in> set ?dirty" for d
    using assms that by (auto simp: tree_stage_def Let_def list_ex_iff split: if_splits)
  then have rest: "filter (\<lambda>d. d \<notin> set (map fst ps)) ?dirty = ?dirty" by (simp add: filter_id_conv)
  have "?dirty \<noteq> [] \<Longrightarrow> rq_carry rq \<and> carry_all gr (tree_at g fs 2) ?dirty = Some carried"
    using assms unfolding tree_stage_def Let_def rest by (auto split: if_splits option.splits)
  then show ?thesis using clear carry_all_reads [of gr "tree_at g fs 2" ?dirty carried]
    unfolding accounted_def by (metis empty_iff empty_set)
qed

lemma verdict_proven: "verdict_refusal fr baseline v = Inr None \<Longrightarrow> proven fr baseline v"
  by (auto simp: verdict_refusal_def proven_def baseline_refusal_def bindR_def list_ex_iff list_all_iff subset_eq
      split: if_splits option.splits sum.splits)

lemma verify_batch_proven:
  "verify_batch g rq fs batch = Inr None \<Longrightarrow>
    distinct (basenames batch) \<and> holds (pm_verify g fs batch) (proven (pm_fr g) (rq_baseline rq))"
  using verdict_proven
  by (auto simp: verify_batch_def absorb_def holds_def split: if_splits sum.splits)

lemma reached_cleared:
  assumes "reached g rq fs gr ps carried cap fs1" "write_enabled (pm_env g)"
  shows "cleared g rq gr ps carried fs1"
  using assms tree_stage_accounts [of rq gr g fs1 ps carried] verify_batch_proven [of g rq "tree_at g fs1 3" "ps @ carried"]
  by (auto simp: reached_def cleared_def early_refusal_def split: if_splits)

lemma write_batch_passes:
  assumes "write_batch g rq gr cap ps carried fs = (fs', out)"
  obtains (stopped) "fs' = fs \<or> fs' = pm_others g 4 fs" "\<nexists>rp. out = Reported rp"
  | (ran) ap st r where "cas_refusal g gr fs cap (map fst ps) = Inr None" "promoting_applier (pm_env g) gr (pm_others g 4 fs) = Inr ap"
      "apply_session (pm_env g) (pm_world g) ap (fresh_sess (pm_others g 4 fs))
         (map (promoted_change gr (pm_others g 4 fs)) ps) = (st, r)" "fs' = s_fs st"
      "\<And>rp. out = Reported rp \<Longrightarrow> \<exists>res. r = Inr res \<and>
         rp = report_of (pm_env g) (map (promoted_change gr (pm_others g 4 fs)) ps) carried res"
proof -
  have quiet: "ended (absorb e x (Refused t)) \<noteq> Reported rp" for e x t rp by (simp add: absorb_def)
  have say: "told g rq rp' = Reported rp \<Longrightarrow> rp = rp'" for rp' rp
    by (auto simp: told_def absorb_def split: if_splits sum.splits)
  let ?f = "pm_others g 4 fs"
  show thesis
  proof (cases "cas_refusal g gr fs cap (map fst ps) = Inr None")
    case cas: True
    show thesis
    proof (cases "promoting_applier (pm_env g) gr ?f")
      case (Inl x)
      then show thesis using assms cas quiet by (intro stopped) (auto simp: write_batch_def Let_def)
    next
      case (Inr ap)
      obtain st r where ran': "apply_session (pm_env g) (pm_world g) ap (fresh_sess ?f) (map (promoted_change gr ?f) ps) = (st, r)"
        by fastforce
      show thesis
        by (rule ran [OF cas Inr ran'])
          (use assms cas Inr ran' quiet say in \<open>auto simp: write_batch_def Let_def split: sum.splits\<close>)
    qed
  next
    case False
    then show thesis using assms quiet
      by (intro stopped) (auto simp: write_batch_def Let_def split: sum.splits option.splits)
  qed
qed

lemma preimages_map:
  "preimages sha gr fs ts = Inr xs \<Longrightarrow> map fst xs = ts \<and> (\<forall>(t, x) \<in> set xs. preimage_state sha gr fs t = Inr x)"
  by (induction ts arbitrary: xs) (auto simp: bindR_def split: sum.splits)

lemma cas_unmoved:
  assumes "captured g gr (tree_at g fs 3) (map fst ps) = Inr cap"
    and "cas_refusal g gr (tree_at g fs 4) cap (map fst ps) = Inr None"
  shows "unmoved g gr ps fs"
  unfolding unmoved_def
proof (intro impI conjI ballI)
  assume cas: "cas_enabled (pm_env g)"
  obtain pre where pre: "preimages (pm_sha g) gr (tree_at g fs 3) (map fst ps) = Inr pre" "cap = (pm_head g 0, pre)"
    using assms(1) cas by (auto simp: captured_def bindR_def split: sum.splits)
  obtain now where now: "preimages (pm_sha g) gr (tree_at g fs 4) (map fst ps) = Inr now"
      "\<forall>(t, x) \<in> set now. map_of pre t = Some x"
    using assms(2) cas pre(2)
    by (auto simp: cas_refusal_def bindR_def list_ex_iff split: sum.splits if_splits)
  show "pm_head g 0 \<noteq> None" "pm_head g 1 = pm_head g 0"
    using assms(2) cas pre(2) by (auto simp: cas_refusal_def split: if_splits)
  fix t assume "t \<in> fst ` set ps"
  then have "t \<in> set (map fst now)" using preimages_map [OF now(1)] by simp
  then obtain x where x: "(t, x) \<in> set now" by auto
  then have "preimage_state (pm_sha g) gr (tree_at g fs 4) t = Inr x" using preimages_map [OF now(1)] by blast
  moreover have "(t, x) \<in> set pre" using now(2) x by (auto dest: map_of_SomeD)
  then have "preimage_state (pm_sha g) gr (tree_at g fs 3) t = Inr x" using preimages_map [OF pre(1)] by blast
  ultimately show "preimage_state (pm_sha g) gr (tree_at g fs 4) t = preimage_state (pm_sha g) gr (tree_at g fs 3) t"
    by simp
qed

text \<open>The files a promotion may write.\<close>

definition may_write :: "promo \<Rightarrow> string list \<Rightarrow> string fs \<Rightarrow> path \<Rightarrow> bool" where
  "may_write g gr fs p \<longleftrightarrow> holds (promoting_applier (pm_env g) gr fs) (\<lambda>ap. owned (pm_env g) ap p)"

lemma session_owned:
  assumes "apply_session e w ap st cs = (st', r)" "honest_listing w" "s_fs st' p \<noteq> s_fs st p"
  shows "owned e ap p"
  using assms(1)
proof (cases rule: apply_session_cases)
  case (ran errs ok)
  then show ?thesis using run_session_confined [OF ran(1) assms(2)] assms(3) by (simp add: only_def)
qed (use assms(3) in simp)

lemma session_dry:
  "apply_session e w ap st cs = (st', r) \<Longrightarrow> ap_dry ap \<Longrightarrow> s_fs st' = s_fs st"
  using dry_session_is_inert by blast

lemma fresh_sess_fs [simp]: "s_fs (fresh_sess fs) = fs"
  by (simp add: fresh_sess_def)

lemma write_batch_owned:
  assumes "write_batch g rq gr cap ps carried fs = (fs', out)" "honest_listing (pm_world g)"
    and "fs' p \<noteq> fs p" "pm_others g 4 fs = fs"
  shows "write_enabled (pm_env g) \<and> may_write g gr fs p"
  using assms(1)
proof (cases rule: write_batch_passes)
  case (ran ap st r)
  have "owned (pm_env g) ap p" "\<not> ap_dry ap"
    using session_owned [OF ran(3) assms(2)] session_dry [OF ran(3)] ran(4) assms(3,4) by auto
  then show ?thesis using ran(2) assms(4)
    by (auto simp: may_write_def holds_def promoting_applier_def bindR_def split: sum.splits)
qed (use assms(3,4) in auto)


text \<open>C4: A report of a promotion is true of the tree it was verified on, whatever other processes do
meanwhile: the batch was cleared, and unless the comparison is switched off, \<open>HEAD\<close> was known and is
the same, and every target holds at the comparison the bytes it held when the verification began.\<close>

theorem promoted_batch_was_verified:
  assumes "promote_patches g rq fs = (fs', Reported rp)" "rp_promoted rp"
  shows "\<exists>gr ps carried fs1. pm_root g = Some gr \<and> normalised (rq_patches rq) = Some ps \<and>
    rp_carried rp = map fst carried \<and> cleared g rq gr ps carried fs1 \<and> unmoved g gr ps fs1"
  using assms(1)
proof (cases rule: promote_cases)
  case (wrote gr ps carried cap fs1)
  from wrote(2) show ?thesis
  proof (cases rule: write_batch_passes)
    case (ran ap st r)
    obtain res where rp: "rp = report_of (pm_env g) (map (promoted_change gr (pm_others g 4 (tree_at g fs1 4))) ps) carried res"
      using ran(5) by blast
    then have "write_enabled (pm_env g)" using assms(2) by (simp add: report_of_def Let_def)
    then show ?thesis
      using reached_cleared [OF wrote(1)] cas_unmoved [OF _ ran(1)] wrote(1) rp
      by (auto simp: reached_def report_of_def Let_def)
  qed simp
qed simp


section \<open>What a promotion leaves behind\<close>

text \<open>A target that names a file below the root without a double dot.\<close>

definition plain_path :: "string \<Rightarrow> bool" where
  "plain_path t \<longleftrightarrow> comps t \<noteq> [] \<and> ''..'' \<notin> set (comps t)"

definition spot :: "string list \<Rightarrow> string \<Rightarrow> path" where
  "spot gr t = render (gr @ comps t)"

lemma split_on_parts: "c \<in> set (split_on s p) \<Longrightarrow> s \<notin> set c"
  by (induction p arbitrary: c) (auto split: if_splits list.splits)

lemma comps_free: "c \<in> set (comps p) \<Longrightarrow> slash \<notin> set c"
  by (auto simp: comps_def dest: split_on_parts)

lemma render_last:
  "cs \<noteq> [] \<Longrightarrow> slash \<notin> set (List.last cs) \<Longrightarrow> takeWhile (\<lambda>c. c \<noteq> slash) (rev (render cs)) = rev (List.last cs)"
proof (induction cs rule: render.induct)
  case (2 c)
  have "takeWhile (\<lambda>c. c \<noteq> slash) (rev c @ [slash]) = rev c" using 2 by (intro takeWhile_tail [THEN trans]) auto
  then show ?case by simp
next
  case (3 c d cs)
  let ?ws = "rev (render (d # cs))"
  have "takeWhile (\<lambda>c. c \<noteq> slash) ?ws = rev (List.last (d # cs))" using 3 by simp
  moreover have "slash \<in> set ?ws" by (cases cs) auto
  ultimately show ?case by (simp add: takeWhile_append1)
qed simp

lemma spot_name:
  assumes "plain_path t"
  shows "takeWhile (\<lambda>c. c \<noteq> slash) (rev (spot gr t)) = rev (path_name t)"
  using assms render_last [of "gr @ comps t"] comps_free [of "List.last (comps t)" t]
  by (auto simp: spot_def plain_path_def path_name_def split: list.splits)

lemma spots_distinct:
  assumes "distinct (basenames ps)" "\<forall>p \<in> set ps. plain_path (fst p)"
  shows "distinct (map (\<lambda>p. spot gr (fst p)) ps)"
  using assms
proof (induction ps)
  case (Cons p ps)
  have "spot gr (fst p) \<noteq> spot gr (fst q)" if "q \<in> set ps" for q
  proof
    assume "spot gr (fst p) = spot gr (fst q)"
    then have "path_name (fst p) = path_name (fst q)"
      using spot_name [of "fst p" gr] spot_name [of "fst q" gr] Cons.prems(2) that by simp
    then show False using Cons.prems(1) that by (force simp: basenames_def)
  qed
  then show ?case using Cons by (auto simp: basenames_def)
qed simp

text \<open>C12: A promotion that is reported has happened: once the write is over, each target holds exactly the
reviewed content, and of the tree it started from nothing else has changed but backups of the
targets. It is stated for targets without double dots below a root that is not reached through a
link, none of which is named as the backup of another.\<close>

theorem promoted_targets_hold_the_patch:
  assumes "promote_patches g rq fs = (fs', Reported rp)" "rp_promoted rp" "honest_listing (pm_world g)"
    and "pm_root g = Some gr" "normalised (rq_patches rq) = Some ps"
    and "nonce_stage (pm_env g) (pm_sha g) (pm_mkdir g) rq ps fs = (fs1, None)" "clean (tree_at g fs1 5) gr"
    and "\<forall>p \<in> set ps. plain_path (fst p) \<and> (\<forall>q \<in> set ps. \<not> prefix (spot gr (fst q) @ ''.bak.'') (spot gr (fst p)))"
  shows "(\<forall>(t, c) \<in> set ps. \<exists>m. fs' (spot gr t) = Some (Reg m c)) \<and>
    (\<forall>q. fs' q \<noteq> tree_at g fs1 5 q \<longrightarrow> (\<exists>p \<in> set ps. q = spot gr (fst p) \<or> prefix (spot gr (fst p) @ ''.bak.'') q))"
  using assms(1)
proof (cases rule: promote_cases)
  case (wrote gr' ps' carried cap fs1')
  then have eq: "gr' = gr" "ps' = ps" "fs1' = fs1" using assms(4-6) by (auto simp: reached_def)
  have five: "pm_others g 4 (tree_at g fs1 4) = tree_at g fs1 5" by (simp add: numeral_eq_Suc)
  let ?cs = "map (promoted_change gr (tree_at g fs1 5)) ps"
  from wrote(2) show ?thesis unfolding eq
  proof (cases rule: write_batch_passes)
    case (ran ap st r)
    obtain res where res: "r = Inr res" "rp = report_of (pm_env g) ?cs carried res"
      using ran(5) [unfolded five] by blast
    have ap: "ap_root ap = gr" "ap_dry ap \<longleftrightarrow> \<not> write_enabled (pm_env g)"
      using ran(2) resolve_clean [OF assms(7)]
      by (auto simp: promoting_applier_def five bindR_def split: sum.splits)
    have ok: "ar_success res" "\<not> ap_dry ap" using assms(2) res(2) ap(2) by (auto simp: report_of_def Let_def)
    have pl: "written_at ap (promoted_change gr f p) = spot gr (fst p)" for f p
      by (simp add: written_at_def promoted_change_def spot_def ap)
    have con: "ch_content (promoted_change gr f p) = snd p" for f p by (simp add: promoted_change_def)
    have "distinct (basenames ps)" using wrote(1) eq by (auto simp: reached_def early_refusal_def split: if_splits)
    then have un: "unentangled ap ?cs"
      using spots_distinct [of ps gr] assms(8) by (auto simp: unentangled_def list_all_iff pl comp_def)
    have pw: "list_all plain_write ?cs"
      using assms(8) by (auto simp: list_all_iff plain_write_def promoted_change_def plain_path_def)
    have "clean (s_fs (fresh_sess (tree_at g fs1 5))) (ap_root ap)" using assms(7) ap by simp
    from successful_session_writes [OF ran(3) [unfolded five res(1)] ok pw this assms(3) un] ran(4)
    have "(\<forall>p \<in> set ps. \<exists>m. fs' (spot gr (fst p)) = Some (Reg m (snd p))) \<and>
      only (\<lambda>q. \<exists>p \<in> set ps. q = spot gr (fst p) \<or> bak_of (spot gr (fst p)) q) (tree_at g fs1 5) fs'"
      by (simp add: pl con)
    then show ?thesis by (auto simp: only_def bak_of_def)
  qed simp
qed simp

section \<open>Concrete promotions\<close>

definition armed_promotion :: env where
  "armed_promotion = no_env(''AGI_V8_SI_PROMOTE_ENABLED'' \<mapsto> ''1'', ''AGI_V8_SAFE_AUTO_APPLY_ENABLED'' \<mapsto> ''true'',
     ''AGI_V8_SAFE_AUTO_APPLY_WRITE_ENABLED'' \<mapsto> ''true'')"

definition clean_scan :: git_scan where
  "clean_scan = \<lparr>sc_index = Inr (0, ''100644 10 0'' @ [CHR 0x09] @ ''a.py'' @ [CHR 0x00]), sc_other = Inr (0, []),
     sc_format = Inr (0, ''sha1''), sc_head = Inr [(''100644'', ''10'', ''a.py'')]\<rparr>"

definition dirty_scan :: git_scan where
  "dirty_scan = clean_scan\<lparr>sc_other := Inr (0, ''b.py'' @ [CHR 0x00])\<rparr>"

definition failed_scan :: git_scan where
  "failed_scan = clean_scan\<lparr>sc_index := Inr (128, [])\<rparr>"

definition attested :: dict where
  "attested = [(''ran'', VBool True), (''completion_verified'', VBool True), (''ok'', VBool True)]"

definition demo_promo :: promo where
  "demo_promo = \<lparr>pm_env = armed_promotion, pm_fr = (\<lambda>_. []), pm_tier = (\<lambda>_. Inr ()), pm_sha = demo_hash,
     pm_hash = (\<lambda>_ d. nat_text (length d)), pm_mkdir = Inr (), pm_verifier = True, pm_root = Some [''r''],
     pm_scan = clean_scan, pm_head = (\<lambda>_. Some ''c0ffee''), pm_verify = (\<lambda>_ _. Inr attested),
     pm_world = demo_world [], pm_human = Inr (), pm_others = (\<lambda>_ f. f)\<rparr>"

definition demo_request :: request where
  "demo_request = \<lparr>rq_patches = VList [VList [VStr ''a.py'', VStr ''two'']], rq_approve = True, rq_state = Some [''s''],
     rq_carry = False, rq_baseline = None, rq_nonce = VStr ''n''\<rparr>"

definition repo_fs :: "string fs" where
  "repo_fs = [''/r/a.py'' \<mapsto> Reg 420 ''one'', ''/r/b.py'' \<mapsto> Reg 420 ''side'']"

definition demo_report :: report where
  "demo_report = \<lparr>rp_promoted = True, rp_reason = ''promoted'', rp_write_enabled = True, rp_action = ''edit'',
     rp_success = True, rp_applied = 1, rp_errors = [], rp_pre = ''ha.py:hone%n'', rp_post = ''ha.py:htwo%n'',
     rp_patches = [(''a.py'', ''edit'')], rp_carried = []\<rparr>"

lemma demo_promotion:
  "snd (promote_patches demo_promo demo_request repo_fs) = Reported demo_report"
  "fst (promote_patches demo_promo demo_request repo_fs) ''/r/a.py'' = Some (Reg 420 ''two'')"
  by code_simp+

text \<open>The sentinel of a scan that failed is a name like any other: where a file of that name lies in the
  root, a call that carries dirty files carries it, and promotes over a tree nobody looked at.\<close>

lemma failed_scan_carried:
  "(case snd (promote_patches (demo_promo\<lparr>pm_scan := failed_scan\<rparr>) (demo_request\<lparr>rq_carry := True\<rparr>)
      (repo_fs(''/r/<filter-free dirty scan failed>'' \<mapsto> Reg 420 []))) of
      Reported rp \<Rightarrow> rp_promoted rp \<and> rp_carried rp = scan_failure | _ \<Rightarrow> False)"
  by code_simp

text \<open>A carried file that changes while the batch is verified is not compared before the write.\<close>

definition meddler :: promo where
  "meddler = demo_promo\<lparr>pm_scan := dirty_scan, pm_others := (\<lambda>k f. if k = 3 then f(''/r/b.py'' \<mapsto> Reg 420 ''new'') else f)\<rparr>"

lemma carried_file_not_compared:
  "(case promote_patches meddler (demo_request\<lparr>rq_carry := True\<rparr>) repo_fs of
      (fs', Reported rp) \<Rightarrow> rp_promoted rp \<and> rp_carried rp = [''b.py''] \<and> fs' ''/r/b.py'' = Some (Reg 420 ''new'')
    | _ \<Rightarrow> False)"
  by code_simp

text \<open>Two calls end with an exception: no verifier is installed, or a target holds a null byte.\<close>

lemma promotions_that_raise:
  "snd (promote_patches (demo_promo\<lparr>pm_verifier := False\<rparr>) demo_request repo_fs) = VerifierMissing"
  "snd (promote_patches demo_promo (demo_request\<lparr>rq_patches := VList [VList [VStr [CHR 0x00], VStr ''x'']]\<rparr>) repo_fs) =
     Raised (ValueError ''embedded null byte'')"
  by code_simp+

lemma demo_honest: "honest_listing (pm_world demo_promo)" "\<forall>k f. pm_others demo_promo k f = f"
  by (simp_all add: demo_promo_def)

lemma demo_run: "promote_patches demo_promo demo_request repo_fs =
    (fst (promote_patches demo_promo demo_request repo_fs), Reported demo_report)"
  using demo_promotion(1) by (metis prod.collapse)


theorem promoted_batch_was_verified_witness:
  "\<exists>gr ps carried fs1. pm_root demo_promo = Some gr \<and> normalised (rq_patches demo_request) = Some ps \<and>
    rp_carried demo_report = map fst carried \<and> cleared demo_promo demo_request gr ps carried fs1 \<and>
    unmoved demo_promo gr ps fs1"
  by (rule promoted_batch_was_verified [OF demo_run]) (simp add: demo_report_def)

definition bound_fs :: "string fs" where
  "bound_fs = fst (nonce_stage armed_promotion demo_hash (Inr ()) demo_request [(''a.py'', ''two'')] repo_fs)"

lemma bound_fs_stage:
  "nonce_stage armed_promotion demo_hash (Inr ()) demo_request [(''a.py'', ''two'')] repo_fs = (bound_fs, None)"
proof -
  have "snd (nonce_stage armed_promotion demo_hash (Inr ()) demo_request [(''a.py'', ''two'')] repo_fs) = None" by code_simp
  then show ?thesis by (metis bound_fs_def prod.collapse)
qed


theorem promoted_targets_hold_the_patch_witness:
  "\<exists>m. fst (promote_patches demo_promo demo_request repo_fs) ''/r/a.py'' = Some (Reg m ''two'')"
proof -
  have t: "tree_at demo_promo f k = f" for f k by (induction k) (simp_all add: demo_promo_def)
  have root: "pm_root demo_promo = Some [''r'']" by (simp add: demo_promo_def)
  have norm: "normalised (rq_patches demo_request) = Some [(''a.py'', ''two'')]" by code_simp
  have stage: "nonce_stage (pm_env demo_promo) (pm_sha demo_promo) (pm_mkdir demo_promo) demo_request [(''a.py'', ''two'')]
      repo_fs = (bound_fs, None)"
    using bound_fs_stage by (simp add: demo_promo_def)
  have "\<not> is_link bound_fs [''r'']" by code_simp
  then have cl: "clean (tree_at demo_promo bound_fs 5) [''r'']"
    using clean_snoc [of bound_fs "[]" "''r''"] by (simp add: t)
  have plain: "plain_path ''a.py'' \<and> \<not> prefix (spot [''r''] ''a.py'' @ ''.bak.'') (spot [''r''] ''a.py'')" by code_simp
  have spot: "spot [''r''] ''a.py'' = ''/r/a.py''" by code_simp
  show ?thesis
    using promoted_targets_hold_the_patch [OF demo_run _ demo_honest(1) root norm stage cl] plain
    by (simp add: spot demo_report_def)
qed

end
