(* ===== verification/ProgressStall.thy ===== *)
theory ProgressStall
  imports FailFast "HOL-Library.List_Lexorder"
begin

text \<open>
  Whether the loop finishes the work it bought (\<open>runtime/progress_stall.py\<close>): the verdict that lets the
  loop feed itself again or stops it. Counting the window is a separately installed function, the
  parameter \<open>tally\<close>: \<open>None\<close> where it is missing. A value \<open>None\<close> of the other arguments is the \<open>None\<close> of the code.
\<close>

section \<open>The inputs of the observer\<close>

datatype role = RVerdict | RResolution | RInstrument

definition observer_inputs :: "(string \<times> role) list" where
  "observer_inputs =
     [(''bought_ledger'', RVerdict), (''inbox_queue'', RVerdict), (''tick_log'', RVerdict),
      (''executor_log'', RVerdict), (''last_fired_ast'', RVerdict), (''vocab_map_ast'', RVerdict),
      (''observer_quiet'', RVerdict), (''scan_scale'', RResolution), (''apply_chain'', RInstrument),
      (''cycle_log'', RInstrument)]"

definition source_axes :: "string list" where "source_axes = map fst observer_inputs"

text \<open>An axis nobody listed counts as the strongest.\<close>

definition axis_role :: "string \<Rightarrow> role" where
  "axis_role a = (case map_of observer_inputs a of Some r \<Rightarrow> r | None \<Rightarrow> RVerdict)"

text \<open>A report gives each axis a value; only \<open>True\<close> says that the input was read.\<close>

definition unreported_axes :: "dict option \<Rightarrow> string list" where
  "unreported_axes sources =
     (case sources of None \<Rightarrow> source_axes | Some d \<Rightarrow> filter (\<lambda>a. \<not> dict_has d a) source_axes)"

definition role_gaps :: "dict option \<Rightarrow> role \<Rightarrow> string list" where
  "role_gaps sources r =
     (case sources of
        None \<Rightarrow> []
      | Some d \<Rightarrow> sort (map fst (filter (\<lambda>(k, v). v \<noteq> VBool True \<and> axis_role k = r) d)))"

definition source_summary :: "dict option \<Rightarrow> (string list \<times> string list) option" where
  "source_summary sources =
     (case sources of
        None \<Rightarrow> None
      | Some [] \<Rightarrow> None
      | Some d \<Rightarrow> Some (sort (map fst (filter (\<lambda>(k, v). v = VBool True) d)),
                       sort (map fst (filter (\<lambda>(k, v). v \<noteq> VBool True \<and> axis_role k \<noteq> RInstrument) d))))"

definition sources_report :: "dict option \<Rightarrow> (string \<times> bool option) list option" where
  "sources_report =
     map_option (map (\<lambda>(k, v). (k, case v of VBool b \<Rightarrow> Some b | _ \<Rightarrow> None)))"

section \<open>The scale of a scan\<close>

definition scale_keys :: "string list" where "scale_keys = [''bought_n'', ''py_files'', ''py_bytes'']"

definition scale_axis_keys :: "(string \<times> string list) list" where
  "scale_axis_keys = [(''bought_ledger'', [''bought_n'']), (''scan_scale'', [''py_files'', ''py_bytes''])]"

text \<open>A number of a scan; anything but a natural number is unknown.\<close>

definition scale_of :: "pyv \<Rightarrow> string \<Rightarrow> int option" where
  "scale_of s k =
     (case s of
        VDict d \<Rightarrow> (case dict_get d k of VInt i \<Rightarrow> if i < 0 then None else Some i | _ \<Rightarrow> None)
      | _ \<Rightarrow> None)"

text \<open>The high water mark of several scans, key by key.\<close>

fun high_water :: "int option \<Rightarrow> int option \<Rightarrow> int option" where
  "high_water cur None = cur"
| "high_water None (Some v) = Some v"
| "high_water (Some c) (Some v) = Some (max c v)"

definition merge_scale :: "pyv list \<Rightarrow> dict" where
  "merge_scale scales =
     map (\<lambda>k. (k, case fold (\<lambda>s cur. high_water cur (scale_of s k)) scales None of
                     Some v \<Rightarrow> VInt v | None \<Rightarrow> VNone)) scale_keys"

text \<open>\<open>Some True\<close>: not shrunk; \<open>Some False\<close>: shrunk; \<open>None\<close>: unknown. Without a baseline nothing has shrunk.\<close>

fun compare_keys :: "pyv \<Rightarrow> pyv \<Rightarrow> bool option \<Rightarrow> string list \<Rightarrow> bool option" where
  "compare_keys now prev v [] = v"
| "compare_keys now prev v (k # ks) =
     (case (scale_of prev k, scale_of now k) of
        (None, _) \<Rightarrow> compare_keys now prev v ks
      | (Some b, None) \<Rightarrow> compare_keys now prev (if v = Some False then Some False else None) ks
      | (Some b, Some c) \<Rightarrow> compare_keys now prev (if c < b then Some False else v) ks)"

definition scale_axes :: "pyv \<Rightarrow> pyv \<Rightarrow> (string \<times> bool option) list" where
  "scale_axes now prev = map (\<lambda>(a, ks). (a, compare_keys now prev (Some True) ks)) scale_axis_keys"

section \<open>The axes of the jail\<close>

definition gel_keys :: "string list" where
  "gel_keys = [''workspace_moved'', ''outcome_fp_novel'', ''objective_template_novel'']"

text \<open>Whether the last fingerprint is new; rows without one do not count.\<close>

definition last_novel :: "('a \<Rightarrow> 'b option) \<Rightarrow> 'a list \<Rightarrow> bool option" where
  "last_novel key rows =
     (let fps = List.map_filter key rows in
      if fps = [] then None else Some (length (filter (\<lambda>f. f = List.last fps) fps) = 1))"

definition bool_of :: "pyv \<Rightarrow> bool option" where
  "bool_of v = (case v of VBool b \<Rightarrow> Some b | _ \<Rightarrow> None)"

definition gel_values :: "dict option \<Rightarrow> bool option list" where
  "gel_values gel = (case gel of None \<Rightarrow> map (\<lambda>_. None) gel_keys | Some d \<Rightarrow> map (\<lambda>k. bool_of (dict_get d k)) gel_keys)"

definition gel_says_progress :: "bool option list \<Rightarrow> bool option" where
  "gel_says_progress vs =
     (if list_ex (\<lambda>v. v = Some True) vs then Some True
      else if list_all (\<lambda>v. v = Some False) vs then Some False else None)"

text \<open>The measured values, what the verdict says, and whether the two disagree.\<close>

record axes_row =
  ax_values :: "bool option list"
  ax_stalled :: "bool option"
  ax_disagree :: "bool option"

definition axes_block :: "bool option \<Rightarrow> dict option \<Rightarrow> axes_row" where
  "axes_block says gel =
     (let vs = gel_values gel in
      \<lparr>ax_values = vs, ax_stalled = says,
       ax_disagree = (case (gel_says_progress vs, says) of (Some g, Some s) \<Rightarrow> Some (g = s) | _ \<Rightarrow> None)\<rparr>)"

section \<open>The verdict\<close>

fun dedup_keep_last :: "string list \<Rightarrow> string list" where
  "dedup_keep_last [] = []"
| "dedup_keep_last (x # xs) = (if x \<in> set xs then dedup_keep_last xs else x # dedup_keep_last xs)"

definition meta_source :: string where "meta_source = ''meta''"

definition candidate_shape_ok :: "pyv \<Rightarrow> bool" where
  "candidate_shape_ok c =
     (case c of
        VDict d \<Rightarrow> (case (dict_get d ''id'', dict_get d ''source'') of
                     (VStr i, VStr s) \<Rightarrow> i \<noteq> [] \<and> s \<noteq> [] | _ \<Rightarrow> False)
      | _ \<Rightarrow> False)"

definition from_meta :: "pyv \<Rightarrow> bool" where
  "from_meta c = (case c of VDict d \<Rightarrow> dict_get d ''source'' = VStr meta_source | _ \<Rightarrow> False)"

datatype stall = Progressing | Stalled | Unknown | Insufficient

definition blocking_verdicts :: "stall set" where "blocking_verdicts = {Stalled, Unknown}"

record window_count =
  ct_bought :: int
  ct_window :: "string list"
  ct_resolved :: "string list"
  ct_unresolved :: "string list"

record stall_row =
  sv_verdict :: stall
  sv_reason :: string
  sv_read :: "string list option"
  sv_missing :: "string list option"
  sv_unreported :: "string list option"
  sv_report :: "(string \<times> bool option) list option"
  sv_counted :: "window_count option"
  sv_axes :: axes_row

definition unknown_row :: "dict option \<Rightarrow> dict option \<Rightarrow> string \<Rightarrow> stall_row" where
  "unknown_row sources gel reason =
     \<lparr>sv_verdict = Unknown, sv_reason = reason, sv_read = map_option fst (source_summary sources),
      sv_missing = map_option snd (source_summary sources), sv_unreported = None,
      sv_report = sources_report sources, sv_counted = None, sv_axes = axes_block None gel\<rparr>"

definition judge_window :: "dict option \<Rightarrow> dict option \<Rightarrow> int \<Rightarrow> window_count \<Rightarrow> stall_row" where
  "judge_window sources gel min_evidence c =
     (let out = (unknown_row sources gel [])\<lparr>sv_counted := Some c\<rparr> in
      if ct_bought c < min_evidence
      then out\<lparr>sv_verdict := Insufficient, sv_reason := ''bought_lt_min_evidence''\<rparr>
      else if ct_resolved c = []
      then out\<lparr>sv_verdict := Stalled, sv_reason := ''window_resolved_zero'', sv_axes := axes_block (Some True) gel\<rparr>
      else if role_gaps sources RResolution \<noteq> []
      then out\<lparr>sv_reason := ''resolution_scan_shrank''\<rparr>
      else out\<lparr>sv_verdict := Progressing, sv_reason := ''window_resolved_some'', sv_axes := axes_block (Some False) gel\<rparr>)"

definition stall_verdict ::
  "(pyv list \<Rightarrow> pyv list \<Rightarrow> int \<Rightarrow> window_count result) option \<Rightarrow> pyv list option \<Rightarrow> pyv list option \<Rightarrow> dict option
    \<Rightarrow> int \<Rightarrow> int \<Rightarrow> dict option \<Rightarrow> stall_row result" where
  "stall_verdict tally bought cands sources window min_evidence gel =
     (let unknown = (\<lambda>r. Inr (unknown_row sources gel r)) in
      case bought of
        None \<Rightarrow> unknown ''bought_ledger_unreadable''
      | Some b \<Rightarrow>
     (case cands of
        None \<Rightarrow> unknown ''candidate_build_failed''
      | Some cs \<Rightarrow>
          if \<not> list_all candidate_shape_ok cs then unknown ''candidate_schema_invalid''
          else if list_ex from_meta cs then unknown ''candidate_tool_error''
          else if source_summary sources = None then unknown ''observer_sources_unreported''
          else if unreported_axes sources \<noteq> []
          then Inr ((unknown_row sources gel ''observer_sources_incomplete'')
                     \<lparr>sv_unreported := Some (unreported_axes sources)\<rparr>)
          else if role_gaps sources RVerdict \<noteq> [] then unknown ''observer_sources_degraded''
          else case tally of
              None \<Rightarrow> unknown ''payload_unavailable''
            | Some m \<Rightarrow> bindR (m b cs window) (\<lambda>c. Inr (judge_window sources gel min_evidence c))))"

section \<open>Facts\<close>

lemma role_gaps_empty:
  "role_gaps (Some d) r = [] \<longleftrightarrow> (\<forall>(k, v) \<in> set d. axis_role k = r \<longrightarrow> v = VBool True)"
proof -
  have "role_gaps (Some d) r = [] \<longleftrightarrow> filter (\<lambda>(k, v). v \<noteq> VBool True \<and> axis_role k = r) d = []"
    unfolding role_gaps_def by (metis (no_types, lifting) Nil_is_map_conv option.simps(5) set_empty set_sort)
  then show ?thesis by (auto simp: filter_empty_conv)
qed

definition fully_reported :: "dict \<Rightarrow> bool" where
  "fully_reported d \<longleftrightarrow> list_all (dict_has d) source_axes"

lemma unreported_empty: "unreported_axes (Some d) = [] \<longleftrightarrow> fully_reported d"
  by (simp add: unreported_axes_def fully_reported_def filter_empty_conv list_all_iff)

text \<open>C36: The loop feeds itself only with its eyes open. The verdict lets it buy more work exactly when
  what it bought and what is open could both be read, every open candidate has a shape that can be
  compared and none reports a broken scanner, the report covers every input of the observer and every
  input the verdict rests on was read, the counting is installed, and the count shows too little
  evidence to judge, or something resolved by a scan that had not shrunk.\<close>

theorem feeding_needs_sight:
  assumes "stall_verdict tally bought cands sources window min_evidence gel = Inr r"
  shows "sv_verdict r \<notin> blocking_verdicts \<longleftrightarrow>
    (\<exists>b cs d m c. bought = Some b \<and> cands = Some cs \<and> sources = Some d \<and> tally = Some m \<and> m b cs window = Inr c \<and>
       list_all candidate_shape_ok cs \<and> \<not> list_ex from_meta cs \<and> fully_reported d \<and>
       (\<forall>(k, v) \<in> set d. axis_role k = RVerdict \<longrightarrow> v = VBool True) \<and>
       (ct_bought c < min_evidence \<or>
        ct_resolved c \<noteq> [] \<and> (\<forall>(k, v) \<in> set d. axis_role k = RResolution \<longrightarrow> v = VBool True)))"
proof -
  have nonempty: "source_summary (Some d) \<noteq> None" if "fully_reported d" for d
  proof (cases d)
    case Nil
    then show ?thesis using that by (simp add: fully_reported_def source_axes_def observer_inputs_def dict_has_def)
  qed (simp add: source_summary_def)
  have judged: "sv_verdict (judge_window (Some d) gel min_evidence c) \<notin> blocking_verdicts \<longleftrightarrow>
      ct_bought c < min_evidence \<or> ct_resolved c \<noteq> [] \<and> role_gaps (Some d) RResolution = []" for d c
    by (simp add: judge_window_def Let_def blocking_verdicts_def unknown_row_def)
  have unk: "sv_verdict (unknown_row sources gel t) \<in> blocking_verdicts" for t
    by (simp add: unknown_row_def blocking_verdicts_def)
  show ?thesis
  proof (cases "\<exists>b cs d m. bought = Some b \<and> cands = Some cs \<and> sources = Some d \<and> tally = Some m \<and>
      list_all candidate_shape_ok cs \<and> \<not> list_ex from_meta cs \<and> fully_reported d \<and> role_gaps (Some d) RVerdict = []")
    case True
    then obtain b cs d m where p: "bought = Some b" "cands = Some cs" "sources = Some d" "tally = Some m"
        "list_all candidate_shape_ok cs" "\<not> list_ex from_meta cs" "fully_reported d" "role_gaps (Some d) RVerdict = []"
      by blast
    obtain c where c: "m b cs window = Inr c" "r = judge_window (Some d) gel min_evidence c"
      using assms p nonempty [OF p(7)] by (auto simp: stall_verdict_def unreported_empty bindR_def split: sum.splits)
    show ?thesis using p c judged by (simp add: role_gaps_empty)
  next
    case False
    have "sv_verdict r \<in> blocking_verdicts"
    proof (cases sources)
      case None
      then show ?thesis using assms unk
        by (auto simp: stall_verdict_def source_summary_def Let_def split: option.splits if_splits)
    next
      case (Some d)
      then show ?thesis using assms unk False
        by (auto simp: stall_verdict_def Let_def unreported_empty blocking_verdicts_def unknown_row_def
            split: option.splits if_splits)
    qed
    then show ?thesis using False by (auto simp: role_gaps_empty)
  qed
qed

text \<open>The high water mark bounds every scan it was made of.\<close>

lemma high_water_bound:
  "\<exists>w. fold (\<lambda>s cur. high_water cur (scale_of s k)) ss (Some c) = Some w \<and> c \<le> w"
proof (induction ss arbitrary: c)
  case (Cons s ss)
  then show ?case
    by (cases "scale_of s k") (simp, metis (no_types, lifting) fold_simps(2) high_water.simps(3) max.bounded_iff)
qed simp

lemma high_water_reaches:
  assumes "s \<in> set ss" "scale_of s k = Some v"
  shows "\<exists>w. fold (\<lambda>s cur. high_water cur (scale_of s k)) ss cur = Some w \<and> v \<le> w"
  using assms
proof (induction ss arbitrary: cur)
  case (Cons x ss)
  show ?case
  proof (cases "x = s")
    case True
    obtain w0 where w0: "high_water cur (Some v) = Some w0" "v \<le> w0" by (cases cur) simp_all
    then show ?thesis using high_water_bound [of k ss w0] True Cons.prems(2) by auto
  next
    case False
    then show ?thesis using Cons by simp
  qed
qed simp

lemma scale_of_nonneg: "scale_of s k = Some v \<Longrightarrow> 0 \<le> v"
  by (auto simp: scale_of_def split: pyv.splits if_splits)

lemma high_water_nonneg:
  "fold (\<lambda>s cur. high_water cur (scale_of s k)) ss cur = Some w \<Longrightarrow> (\<forall>c. cur = Some c \<longrightarrow> 0 \<le> c) \<Longrightarrow> 0 \<le> w"
proof (induction ss arbitrary: cur)
  case (Cons s ss)
  have "\<forall>c. high_water cur (scale_of s k) = Some c \<longrightarrow> 0 \<le> c"
    using Cons.prems(2) scale_of_nonneg [of s k] by (cases cur; cases "scale_of s k") auto
  then show ?case using Cons by simp
qed simp

lemma merge_scale_mark:
  assumes "s \<in> set ss" "scale_of s k = Some v" "k \<in> set scale_keys"
  shows "\<exists>w. scale_of (VDict (merge_scale ss)) k = Some w \<and> v \<le> w"
proof -
  obtain w where w: "fold (\<lambda>s cur. high_water cur (scale_of s k)) ss None = Some w" "v \<le> w"
    using high_water_reaches [OF assms(1,2)] by blast
  have "map_of (merge_scale ss) k = Some (VInt w)"
    using assms(3) w(1) unfolding merge_scale_def by (auto simp: scale_keys_def)
  then show ?thesis using w high_water_nonneg [OF w(1)] by (simp add: scale_of_def dict_get_def)
qed

lemma compare_keys_shrunk:
  "k \<in> set ks \<Longrightarrow> scale_of prev k = Some b \<Longrightarrow> (\<forall>c. scale_of now k = Some c \<longrightarrow> c < b) \<Longrightarrow>
    compare_keys now prev v ks \<noteq> Some True"
proof (induction ks arbitrary: v)
  case (Cons x ks)
  have stays: "v \<noteq> Some True \<Longrightarrow> compare_keys now prev v ks \<noteq> Some True" for v ks
    by (induction ks arbitrary: v) (auto split: option.splits)
  show ?case
  proof (cases "x = k")
    case True
    then show ?thesis using Cons.prems stays by (auto split: option.splits)
  next
    case False
    then show ?thesis using Cons by (auto split: option.splits)
  qed
qed simp

text \<open>C37: Seeing less is never progress. Where the report of the scan is made from the comparison with the
  high water mark of earlier scans, and one of them counted more files (or more bytes) than the present
  scan, or the present scan could not count them at all, the verdict is not progress, whatever has
  disappeared from the list.\<close>

theorem shrunken_scan_is_no_progress:
  assumes "stall_verdict tally bought cands (Some d) window min_evidence gel = Inr r"
    and "s \<in> set scans" "k \<in> {''py_files'', ''py_bytes''}" "scale_of s k = Some v"
    and "\<forall>n. scale_of now k = Some n \<longrightarrow> n < v"
    and "map_of (scale_axes now (VDict (merge_scale scans))) ''scan_scale'' = Some a"
    and "map_of d ''scan_scale'' = Some (case a of Some x \<Rightarrow> VBool x | None \<Rightarrow> VNone)"
  shows "sv_verdict r \<noteq> Progressing"
proof -
  obtain w where w: "scale_of (VDict (merge_scale scans)) k = Some w" "v \<le> w"
    using merge_scale_mark [OF assms(2,4)] assms(3) by (auto simp: scale_keys_def)
  have a: "a = compare_keys now (VDict (merge_scale scans)) (Some True) [''py_files'', ''py_bytes'']"
    using assms(6) by (simp add: scale_axes_def scale_axis_keys_def)
  have na: "a \<noteq> Some True" unfolding a
    by (rule compare_keys_shrunk [where k = k and b = w]) (use assms(3,5) w in auto)
  let ?v = "case a of Some x \<Rightarrow> VBool x | None \<Rightarrow> VNone"
  have mem: "(''scan_scale'', ?v) \<in> set d" using assms(7) by (rule map_of_SomeD)
  have nt: "?v \<noteq> VBool True" using na by (auto split: option.splits)
  have "axis_role ''scan_scale'' = RResolution" by (simp add: axis_role_def observer_inputs_def)
  then have gap: "role_gaps (Some d) RResolution \<noteq> []"
    using mem nt unfolding role_gaps_empty by blast
  have "sv_verdict (unknown_row (Some d) gel t) \<noteq> Progressing" for t by (simp add: unknown_row_def)
  moreover have "sv_verdict (judge_window (Some d) gel min_evidence c) \<noteq> Progressing" for c
    using gap by (simp add: judge_window_def Let_def unknown_row_def)
  ultimately show ?thesis
    using assms(1) by (auto simp: stall_verdict_def Let_def bindR_def split: option.splits if_splits sum.splits)
qed

lemma dedup_keep_last_facts: "distinct (dedup_keep_last xs) \<and> set (dedup_keep_last xs) = set xs"
  by (induction xs) auto

section \<open>A concrete verdict\<close>

definition seeing :: dict where "seeing = map (\<lambda>a. (a, VBool True)) source_axes"

definition resolved_one :: "(pyv list \<Rightarrow> pyv list \<Rightarrow> int \<Rightarrow> window_count result) option" where
  "resolved_one = Some (\<lambda>_ _ _. Inr \<lparr>ct_bought = 5, ct_window = [''b''], ct_resolved = [''b''], ct_unresolved = []\<rparr>)"

definition progress_row :: stall_row where
  "progress_row = (unknown_row (Some seeing) None ''window_resolved_some'')
     \<lparr>sv_verdict := Progressing, sv_axes := axes_block (Some False) None,
      sv_counted := Some \<lparr>ct_bought = 5, ct_window = [''b''], ct_resolved = [''b''], ct_unresolved = []\<rparr>\<rparr>"

lemma seeing_verdict: "stall_verdict resolved_one (Some []) (Some []) (Some seeing) 5 3 None = Inr progress_row"
  by code_simp

theorem feeding_needs_sight_witness: "fully_reported seeing"
proof -
  have "sv_verdict progress_row \<notin> blocking_verdicts" by (simp add: progress_row_def blocking_verdicts_def)
  then show ?thesis using feeding_needs_sight [OF seeing_verdict] by auto
qed

definition half_blind :: dict where "half_blind = dict_set seeing ''scan_scale'' (VBool False)"

lemma half_blind_row: "\<exists>r. stall_verdict resolved_one (Some []) (Some []) (Some half_blind) 5 3 None = Inr r"
proof -
  have "(case stall_verdict resolved_one (Some []) (Some []) (Some half_blind) 5 3 None of Inl _ \<Rightarrow> False | Inr _ \<Rightarrow> True)"
    by code_simp
  then show ?thesis by (auto split: sum.splits)
qed

theorem shrunken_scan_is_no_progress_witness:
  "\<exists>r. stall_verdict resolved_one (Some []) (Some []) (Some half_blind) 5 3 None = Inr r \<and> sv_verdict r \<noteq> Progressing"
proof -
  let ?past = "VDict [(''py_files'', VInt 10)]" and ?now = "VDict [(''py_files'', VInt 9)]"
  obtain r where r: "stall_verdict resolved_one (Some []) (Some []) (Some half_blind) 5 3 None = Inr r"
    using half_blind_row by blast
  have "scale_of ?past ''py_files'' = Some 10" "scale_of ?now ''py_files'' = Some 9" by code_simp+
  moreover have "map_of (scale_axes ?now (VDict (merge_scale [?past]))) ''scan_scale'' = Some (Some False)" by code_simp
  moreover have "map_of half_blind ''scan_scale'' = Some (VBool False)" by code_simp
  ultimately show ?thesis
    using shrunken_scan_is_no_progress [OF r, of ?past "[?past]" "''py_files''" 10 ?now "Some False"] r by auto
qed

end
