(* ===== verification/PrivacyPolicy.thy ===== *)
theory PrivacyPolicy
  imports FailFast OutputSpill "HOL-Library.Multiset"
begin

text \<open>
  What may be stored and what must be masked (\<open>policy/privacy_policy.py\<close>, \<open>policy/retention_decider.py\<close>,
  \<open>policy/raw_media_policy.py\<close>). Payloads are JSON values, so no container contains itself and none is
  met twice. The regular expressions, the secret catalogue and \<open>urlparse\<close> are parameters.
\<close>

text \<open>\<open>sn_pii\<close>: an address or a telephone number is found; \<open>sn_hide\<close> replaces them; \<open>sn_secret\<close> and \<open>sn_mask\<close>
  are \<open>contains_secret\<close> and \<open>mask_payload\<close>; \<open>sn_url\<close> gives the scheme and the path of a text.\<close>

record scanner =
  sn_env :: env
  sn_fr :: "rat \<Rightarrow> string"
  sn_pii :: "string \<Rightarrow> bool"
  sn_hide :: "string \<Rightarrow> string"
  sn_secret :: "pyv \<Rightarrow> bool result"
  sn_mask :: "pyv \<Rightarrow> pyv result"
  sn_url :: "string \<Rightarrow> (string \<times> string) result"

section \<open>Bounded scans\<close>

definition max_scan_chars :: nat where "max_scan_chars = 65536"
definition max_scan_depth :: nat where "max_scan_depth = 8"
definition max_container_items :: nat where "max_container_items = 1000"

text \<open>What a container puts on the stack, the last item on top.\<close>

definition dict_nodes :: "nat \<Rightarrow> (string \<times> pyv) list \<Rightarrow> (pyv \<times> nat) list" where
  "dict_nodes depth d = rev (concat (map (\<lambda>(k, v). [(VStr k, depth), (v, depth)]) d))"

definition list_nodes :: "nat \<Rightarrow> pyv list \<Rightarrow> (pyv \<times> nat) list" where
  "list_nodes depth vs = rev (map (\<lambda>v. (v, depth)) vs)"

fun weight :: "pyv \<Rightarrow> nat" where
  "weight (VList vs) = Suc (sum_list (map weight vs))"
| "weight (VDict d) = Suc (sum_list (map (\<lambda>(k, v). Suc (weight v)) d))"
| "weight _ = 1"

definition stack_weight :: "(pyv \<times> nat) list \<Rightarrow> nat" where
  "stack_weight st = sum_list (map (\<lambda>(v, _). weight v) st)"

lemma weight_positive: "0 < weight v"
  by (cases v) simp_all

lemma stack_weight_simps [simp]:
  "stack_weight [] = 0" "stack_weight ((v, k) # st) = weight v + stack_weight st"
  "stack_weight (xs @ ys) = stack_weight xs + stack_weight ys"
  by (simp_all add: stack_weight_def)

lemma stack_weight_list [simp]: "stack_weight (list_nodes k vs) = sum_list (map weight vs)"
  by (simp add: stack_weight_def list_nodes_def rev_map [symmetric] comp_def)

lemma stack_weight_dict [simp]: "stack_weight (dict_nodes k d) = sum_list (map (\<lambda>(k, v). Suc (weight v)) d)"
  by (induction d) (auto simp: stack_weight_def dict_nodes_def rev_map [symmetric])

lemma sum_list_take: "sum_list (map f (take n xs)) \<le> (sum_list (map f xs) :: nat)"
  by (metis append_take_drop_id le_add1 map_append sum_list_append)

text \<open>The texts found within the bounds, and whether some were left out.\<close>

function flatten_from :: "(pyv \<times> nat) list \<Rightarrow> string list \<Rightarrow> nat \<Rightarrow> bool \<Rightarrow> string list \<times> bool" where
  "flatten_from [] out left lost = (out, lost)"
| "flatten_from ((node, depth) # st) out left lost =
     (if left = 0 then (out, True)
      else if max_scan_depth < depth then flatten_from st out left True
      else case node of
          VStr s \<Rightarrow>
            if left < length s then flatten_from st (out @ [take left s]) 0 True
            else flatten_from st (out @ [s]) (left - length s) lost
        | VDict d \<Rightarrow>
            flatten_from (dict_nodes (Suc depth) (take max_container_items d) @ st) out left
              (lost \<or> max_container_items < length d)
        | VList vs \<Rightarrow>
            flatten_from (list_nodes (Suc depth) (take max_container_items vs) @ st) out left
              (lost \<or> max_container_items < length vs)
        | _ \<Rightarrow> flatten_from st out left lost)"
  by pat_completeness auto

termination
  by (relation "measure (\<lambda>(st, _). stack_weight st)") (auto simp: weight_positive less_Suc_eq_le sum_list_take)

definition flatten_strings :: "pyv \<Rightarrow> string list \<times> bool" where
  "flatten_strings v = flatten_from [(v, 0)] [] max_scan_chars False"

text \<open>The scan of direct callers of the retention decision: what it cannot reach counts as found.\<close>

function pii_from :: "(string \<Rightarrow> bool) \<Rightarrow> (pyv \<times> nat) list \<Rightarrow> nat \<Rightarrow> bool" where
  "pii_from pii [] left = False"
| "pii_from pii ((node, depth) # st) left =
     (if left = 0 \<or> max_scan_depth < depth then True
      else case node of
          VStr s \<Rightarrow> pii (take left s) \<or> pii_from pii st (left - length (take left s))
        | VDict d \<Rightarrow> max_container_items < length d \<or> pii_from pii (dict_nodes (Suc depth) d @ st) left
        | VList vs \<Rightarrow> max_container_items < length vs \<or> pii_from pii (list_nodes (Suc depth) vs @ st) left
        | _ \<Rightarrow> pii_from pii st left)"
  by pat_completeness auto

termination
  by (relation "measure (\<lambda>(_, st, _). stack_weight st)") (auto simp: weight_positive)

definition contains_pii :: "(string \<Rightarrow> bool) \<Rightarrow> pyv \<Rightarrow> bool" where
  "contains_pii pii v = pii_from pii [(v, 0)] max_scan_chars"

section \<open>Raw media\<close>

definition raw_exts :: "string list" where
  "raw_exts = [''.jpg'', ''.jpeg'', ''.png'', ''.webp'', ''.gif'', ''.mp4'', ''.mov'', ''.wav'', ''.mp3'']"

definition raw_mime :: "string \<Rightarrow> bool" where
  "raw_mime m \<longleftrightarrow> prefix ''image/'' m \<or> prefix ''video/'' m \<or> prefix ''audio/'' m"

definition magic_prefixes :: "string list" where
  "magic_prefixes =
     [[CHR 0xFF, CHR 0xD8, CHR 0xFF], CHR 0x89 # ''PNG'' @ [CHR 0x0D, CHR 0x0A, CHR 0x1A, CHR 0x0A],
      ''GIF87a'', ''GIF89a'', ''RIFF'', ''ID3'', [CHR 0xFF, CHR 0xFB], [CHR 0xFF, CHR 0xF3], [CHR 0xFF, CHR 0xF2],
      ''OggS'']"

definition has_media_magic :: "string \<Rightarrow> bool" where
  "has_media_magic content \<longleftrightarrow>
     (let head = take 16 content in
      list_ex (\<lambda>p. prefix p head) magic_prefixes \<or> (8 \<le> length head \<and> take 4 (drop 4 head) = ''ftyp''))"

text \<open>\<open>PurePath.suffix\<close>.\<close>

definition path_suffix :: "string \<Rightarrow> string" where
  "path_suffix p =
     (let n = path_name p; ext = takeWhile (\<lambda>c. c \<noteq> CHR ''.'') (rev n) in
      if CHR ''.'' \<notin> set n \<or> ext = [] \<or> length n = Suc (length ext) then [] else CHR ''.'' # rev ext)"

definition media_path :: "scanner \<Rightarrow> pyv \<Rightarrow> string" where
  "media_path sn item =
     (case item of
        VDict d \<Rightarrow> py_str (sn_fr sn) (py_or (py_or (py_or (dict_get d ''path'') (dict_get d ''uri'')) (dict_get d ''name'')) (VStr []))
      | _ \<Rightarrow> py_str (sn_fr sn) (py_or item (VStr [])))"

definition media_mime :: "scanner \<Rightarrow> pyv \<Rightarrow> string" where
  "media_mime sn item =
     (case item of
        VDict d \<Rightarrow> py_lower (py_str (sn_fr sn) (py_or (py_or (dict_get d ''mime_type'') (dict_get d ''mime'')) (VStr [])))
      | _ \<Rightarrow> [])"

definition suffix_path :: "scanner \<Rightarrow> string \<Rightarrow> string result" where
  "suffix_path sn p =
     (if p = [] then Inr []
      else bindR (sn_url sn p) (\<lambda>(scheme, path).
        Inr (if scheme \<in> {''http'', ''https'', ''file'', ''data''} \<and> path \<noteq> [] then path
             else takeWhile (\<lambda>c. c \<noteq> CHR ''#'') (takeWhile (\<lambda>c. c \<noteq> CHR ''?'') p))))"

definition is_raw_media :: "scanner \<Rightarrow> pyv \<Rightarrow> string option \<Rightarrow> bool result" where
  "is_raw_media sn item content =
     (if raw_mime (media_mime sn item) then Inr True
      else bindR (suffix_path sn (media_path sn item)) (\<lambda>p.
        Inr (path_suffix (py_lower p) \<in> set raw_exts \<or> (case content of None \<Rightarrow> False | Some b \<Rightarrow> b \<noteq> [] \<and> has_media_magic b))))"

text \<open>Days: \<open>None\<close> is no limit.\<close>

record media_decision =
  md_raw :: bool
  md_allow :: bool
  md_store_raw :: bool
  md_days :: "int option"

definition decide_raw_media ::
  "scanner \<Rightarrow> pyv \<Rightarrow> bool \<Rightarrow> string \<Rightarrow> bool \<Rightarrow> string option \<Rightarrow> media_decision result" where
  "decide_raw_media sn item consent purpose derived_only content =
     bindR (is_raw_media sn item content) (\<lambda>raw. Inr
       (if \<not> raw then \<lparr>md_raw = False, md_allow = True, md_store_raw = False, md_days = None\<rparr>
        else if derived_only then \<lparr>md_raw = True, md_allow = True, md_store_raw = False, md_days = Some 365\<rparr>
        else if consent \<and> purpose \<noteq> [] then \<lparr>md_raw = True, md_allow = True, md_store_raw = True, md_days = Some 7\<rparr>
        else \<lparr>md_raw = True, md_allow = False, md_store_raw = False, md_days = Some 0\<rparr>))"

section \<open>Retention\<close>

definition default_days :: "(string \<times> int) list" where
  "default_days = [(''audit_record'', 365), (''derived_metric'', 365), (''operational_log'', 30),
     (''user_content'', 90), (''raw_media'', 7), (''secret'', 0), (''unknown'', 30)]"

definition days_of :: "string \<Rightarrow> int" where
  "days_of klass =
     (case map_of default_days (if klass = [] then ''unknown'' else klass) of Some n \<Rightarrow> n | None \<Rightarrow> 30)"

record retention =
  rt_action :: string
  rt_allow :: bool
  rt_days :: "int option"

record ask =
  ak_class :: string
  ak_delete :: bool
  ak_hold :: bool

definition retention_rule :: "ask \<Rightarrow> bool \<Rightarrow> bool \<Rightarrow> bool \<Rightarrow> retention" where
  "retention_rule a secret pii media =
     (let gone = \<lparr>rt_action = ''delete'', rt_allow = False, rt_days = Some 0\<rparr> in
      if ak_delete a \<and> \<not> ak_hold a then gone
      else if secret \<and> ak_hold a then \<lparr>rt_action = ''hold_masked'', rt_allow = False, rt_days = None\<rparr>
      else if secret then \<lparr>rt_action = ''mask_then_ephemeral'', rt_allow = False, rt_days = Some 0\<rparr>
      else if ak_hold a then \<lparr>rt_action = ''hold'', rt_allow = True, rt_days = None\<rparr>
      else if ak_delete a then gone
      else if media then \<lparr>rt_action = ''short_term'', rt_allow = True, rt_days = Some (days_of ''raw_media'')\<rparr>
      else if pii
      then \<lparr>rt_action = ''mask_then_retain'', rt_allow = True, rt_days = Some (min (days_of (ak_class a)) (days_of ''unknown''))\<rparr>
      else \<lparr>rt_action = ''retain'', rt_allow = True, rt_days = Some (days_of (ak_class a))\<rparr>)"

text \<open>A classifier that fails counts as found. \<open>VNone\<close> is no record.\<close>

definition decide_retention :: "scanner \<Rightarrow> pyv \<Rightarrow> ask \<Rightarrow> bool \<Rightarrow> bool \<Rightarrow> bool \<Rightarrow> retention result" where
  "decide_retention sn rec a secret0 pii0 media =
     bindR (if secret0 \<or> rec = VNone then Inr secret0
            else case sn_secret sn rec of Inr b \<Rightarrow> Inr b | Inl x \<Rightarrow> absorb (sn_env sn) x True) (\<lambda>secret.
     Inr (retention_rule a secret (if pii0 \<or> rec = VNone then pii0 else contains_pii (sn_pii sn) rec) media))"

section \<open>Masking\<close>

definition hide_text :: "scanner \<Rightarrow> string \<Rightarrow> string" where
  "hide_text sn s = (if s = [] then s else sn_hide sn s)"

definition mask_key :: "scanner \<Rightarrow> nat \<Rightarrow> string \<Rightarrow> string" where
  "mask_key sn depth k = (if max_scan_depth < depth then ''<MASKED:max_depth>'' else hide_text sn k)"

fun mask_pii_payload :: "scanner \<Rightarrow> nat \<Rightarrow> pyv \<Rightarrow> pyv" where
  "mask_pii_payload sn depth (VStr s) =
     VStr (if max_scan_depth < depth then ''<MASKED:max_depth>'' else hide_text sn s)"
| "mask_pii_payload sn depth (VList vs) =
     (if max_scan_depth < depth then VStr ''<MASKED:max_depth>''
      else VList (take max_container_items (map (mask_pii_payload sn (Suc depth)) vs)))"
| "mask_pii_payload sn depth (VDict d) =
     (if max_scan_depth < depth then VStr ''<MASKED:max_depth>''
      else VDict (let kept = fold (\<lambda>(k, v) out. dict_set out k v)
                        (take max_container_items
                          (map (\<lambda>(k, v). (mask_key sn (Suc depth) k, mask_pii_payload sn (Suc depth) v)) d)) []
                  in if max_container_items < length d then dict_set kept ''<MASKED:truncated>'' (VBool True) else kept))"
| "mask_pii_payload sn depth v = (if max_scan_depth < depth then VStr ''<MASKED:max_depth>'' else v)"

section \<open>The policy\<close>

record classification =
  cl_secret :: bool
  cl_pii :: bool
  cl_media :: bool
  cl_lost :: bool

definition classify_payload :: "scanner \<Rightarrow> pyv \<Rightarrow> classification result" where
  "classify_payload sn v =
     (let (texts, lost) = flatten_strings v in
      bindR (sn_secret sn v) (\<lambda>secret.
      bindR (is_raw_media sn v None) (\<lambda>media. Inr
        \<lparr>cl_secret = secret, cl_pii = (sn_pii sn (join [CHR 0x0A] texts) \<or> lost), cl_media = media, cl_lost = lost\<rparr>)))"

record privacy_decision =
  pd_allowed :: bool
  pd_masked :: pyv
  pd_class :: "classification option"
  pd_retention :: "retention option"
  pd_media :: "media_decision option"

definition policy_error :: privacy_decision where
  "policy_error = \<lparr>pd_allowed = False, pd_masked = VStr ''<MASKED:policy_error>'', pd_class = None,
     pd_retention = None, pd_media = None\<rparr>"

definition privacy_checks :: "scanner \<Rightarrow> pyv \<Rightarrow> ask \<Rightarrow> bool \<Rightarrow> string \<Rightarrow> privacy_decision result" where
  "privacy_checks sn v a consent purpose =
     bindR (classify_payload sn v) (\<lambda>cl.
     bindR (sn_mask sn v) (\<lambda>m.
     bindR (decide_raw_media sn v consent purpose False None) (\<lambda>md.
     bindR (decide_retention sn v a (cl_secret cl) (cl_pii cl) (cl_media cl)) (\<lambda>rt. Inr
       \<lparr>pd_allowed = (rt_allow rt \<and> md_allow md), pd_masked = (if cl_pii cl then mask_pii_payload sn 0 m else m),
        pd_class = Some cl, pd_retention = Some rt, pd_media = Some md\<rparr>))))"

definition apply_privacy_policy :: "scanner \<Rightarrow> pyv \<Rightarrow> ask \<Rightarrow> bool \<Rightarrow> string \<Rightarrow> privacy_decision result" where
  "apply_privacy_policy sn v a consent purpose =
     (case privacy_checks sn v a consent purpose of
        Inr r \<Rightarrow> Inr r
      | Inl x \<Rightarrow> absorb (sn_env sn) x policy_error)"

section \<open>What a release has passed\<close>

fun all_strings :: "pyv \<Rightarrow> string list" where
  "all_strings (VStr s) = [s]"
| "all_strings (VList vs) = concat (map all_strings vs)"
| "all_strings (VDict d) = concat (map (\<lambda>(k, v). k # all_strings v) d)"
| "all_strings _ = []"

definition stack_strings :: "(pyv \<times> nat) list \<Rightarrow> string multiset" where
  "stack_strings st = mset (concat (map (\<lambda>(v, _). all_strings v) st))"

lemma stack_strings_simps [simp]:
  "stack_strings [] = {#}" "stack_strings ((v, k) # st) = mset (all_strings v) + stack_strings st"
  "stack_strings (xs @ ys) = stack_strings xs + stack_strings ys"
  by (simp_all add: stack_strings_def)

lemma stack_strings_list [simp]: "stack_strings (list_nodes k vs) = mset (concat (map all_strings vs))"
  by (induction vs) (simp_all add: list_nodes_def stack_strings_def)

lemma stack_strings_dict [simp]:
  "stack_strings (dict_nodes k d) = mset (concat (map (\<lambda>(k, v). k # all_strings v) d))"
  by (induction d) (auto simp: dict_nodes_def stack_strings_def)

lemma flatten_lost: "snd (flatten_from st out left True)"
  by (induction st out left "True" rule: flatten_from.induct) (auto split: pyv.splits)

text \<open>A scan that left nothing out has seen every key and every text, each in full.\<close>

lemma flatten_from_complete:
  "flatten_from st out left lost = (texts, False) \<Longrightarrow> mset texts = mset out + stack_strings st"
proof (induction st out left lost rule: flatten_from.induct)
  case (2 node depth st out left lost)
  have kept: "\<not> l" if "flatten_from st' out' left' l = (texts, False)" for st' out' left' l
    using flatten_lost [of st' out' left'] that by (cases l) auto
  have go: "left \<noteq> 0" "\<not> max_scan_depth < depth"
    using "2.prems" kept by (auto split: if_splits)
  show ?case
  proof (cases node)
    case (VStr s)
    have "\<not> left < length s"
      using "2.prems" VStr go kept [of st "out @ [take left s]" 0 True] by auto
    then show ?thesis using "2.prems" "2.IH" go VStr by simp
  next
    case (VList vs)
    have "\<not> max_container_items < length vs" using "2.prems" VList go kept by auto
    then show ?thesis using "2.prems" "2.IH" VList go by simp
  next
    case (VDict d)
    have "\<not> max_container_items < length d" using "2.prems" VDict go kept by auto
    then show ?thesis using "2.prems" "2.IH" VDict go by simp
  qed (use "2.prems" "2.IH" go in simp_all)
qed simp

lemma flatten_complete: "flatten_strings v = (texts, False) \<Longrightarrow> mset texts = mset (all_strings v)"
  using flatten_from_complete [of "[(v, 0)]" "[]"] by (simp add: flatten_strings_def)

text \<open>A record is kept only if the classifier, asked again where the caller says no, finds no secret.\<close>

lemma retention_keeps_no_secret:
  assumes "decide_retention sn rec a secret0 pii0 media = Inr rt" "rt_allow rt"
  shows "\<not> secret0 \<and> (rec = VNone \<or> sn_secret sn rec = Inr False) \<and> (ak_delete a \<longrightarrow> ak_hold a)"
  using assms
  by (auto simp: decide_retention_def retention_rule_def bindR_def absorb_def Let_def split: if_splits sum.splits)


section \<open>Where the scans differ\<close>

text \<open>The scan of direct callers looks at the beginning of a long text and takes it for the whole.\<close>

lemma long_text_tail_unscanned: "contains_pii pii (VStr s) = pii (take max_scan_chars s)"
  by (simp add: contains_pii_def max_scan_chars_def max_scan_depth_def)

text \<open>A deletion under a legal hold is never carried out.\<close>

lemma held_deletion_is_hold:
  "ak_delete a \<Longrightarrow> ak_hold a \<Longrightarrow> rt_action (retention_rule a secret pii media) \<noteq> ''delete''"
  by (simp add: retention_rule_def)

definition demo_scanner :: scanner where
  "demo_scanner = \<lparr>sn_env = no_env, sn_fr = (\<lambda>_. []), sn_pii = (\<lambda>s. CHR ''@'' \<in> set s), sn_hide = (\<lambda>_. ''***''),
     sn_secret = (\<lambda>_. Inr False), sn_mask = Inr, sn_url = (\<lambda>s. Inr ([], s))\<rparr>"

definition demo_ask :: ask where "demo_ask = \<lparr>ak_class = ''user_content'', ak_delete = False, ak_hold = False\<rparr>"

definition demo_payload :: pyv where "demo_payload = VDict [(''to'', VStr ''a@b'')]"

lemma demo_scanner [simp]:
  "sn_env demo_scanner = no_env" "sn_pii demo_scanner s = (CHR ''@'' \<in> set s)" "sn_hide demo_scanner s = ''***''"
  "sn_secret demo_scanner v = Inr False" "sn_mask demo_scanner v = Inr v" "demo_payload \<noteq> VNone"
  by (simp_all add: demo_scanner_def demo_payload_def)

lemma demo_privacy:
  "(case apply_privacy_policy demo_scanner demo_payload demo_ask False [] of
      Inr r \<Rightarrow> pd_allowed r \<and> pd_masked r = VDict [(''***'', VStr ''***'')] | Inl _ \<Rightarrow> False)"
proof -
  have fl: "flatten_strings demo_payload = ([''a@b'', ''to''], False)"
    by (simp add: flatten_strings_def demo_payload_def max_scan_chars_def max_scan_depth_def max_container_items_def
        dict_nodes_def)
  have media: "is_raw_media demo_scanner demo_payload None = Inr False" by code_simp
  have "privacy_checks demo_scanner demo_payload demo_ask False [] = Inr
      \<lparr>pd_allowed = True, pd_masked = mask_pii_payload demo_scanner 0 demo_payload,
       pd_class = Some \<lparr>cl_secret = False, cl_pii = True, cl_media = False, cl_lost = False\<rparr>,
       pd_retention = Some \<lparr>rt_action = ''mask_then_retain'', rt_allow = True, rt_days = Some 30\<rparr>,
       pd_media = Some \<lparr>md_raw = False, md_allow = True, md_store_raw = False, md_days = None\<rparr>\<rparr>"
    by (simp add: privacy_checks_def classify_payload_def fl media decide_raw_media_def decide_retention_def
        retention_rule_def demo_ask_def days_of_def default_days_def)
  then show ?thesis
    by (simp add: apply_privacy_policy_def demo_payload_def mask_pii_payload.simps max_scan_depth_def
        max_container_items_def hide_text_def mask_key_def)
qed


end
