(* ===== verification/FalsifierBus.thy ===== *)
theory FalsifierBus
  imports Store JoinKeys PathGuard JsonText
begin

text \<open>
  The bus of outside signals that something was wrong (\<open>bus/falsifier_bus.py\<close>): which events get on
  it, the id and the row of an event, and what a reader with a cursor sees. Payloads are JSON values.
  The secret maskers, the hash, the digits of floats and the clock are parameters.
\<close>

section \<open>Settings\<close>

text \<open>\<open>fb_text\<close> and \<open>fb_obj\<close> are the guarded maskers of a text and of a structure; \<open>fb_home\<close> is the state
  directory beside the module.\<close>

record bus =
  fb_env :: env
  fb_host :: host
  fb_home :: path
  fb_fr :: "rat \<Rightarrow> string"
  fb_sha :: "string \<Rightarrow> string"
  fb_text :: "pyv \<Rightarrow> string result"
  fb_obj :: "pyv \<Rightarrow> pyv result"
  fb_ctx :: join_ctx
  fb_now :: rat
  fb_umask :: nat

definition bus_schema :: string where "bus_schema = ''agi_v8_falsifier_bus_v1''"

definition env_flag :: "env \<Rightarrow> string \<Rightarrow> bool \<Rightarrow> bool" where
  "env_flag e k dflt =
     (case e k of None \<Rightarrow> dflt | Some raw \<Rightarrow> py_lower (py_strip raw) \<notin> {''0'', ''false'', ''no''})"

definition bus_enabled :: "env \<Rightarrow> bool" where
  "bus_enabled e = env_flag e ''AGI_V8_FALSIFIER_BUS_ENABLED'' True"

definition default_max_bytes :: int where "default_max_bytes = 16384"

definition bus_max_bytes :: "env \<Rightarrow> int result" where
  "bus_max_bytes e =
     (case e ''AGI_V8_FALSIFIER_BUS_MAX_BYTES'' of
        None \<Rightarrow> Inr default_max_bytes
      | Some raw \<Rightarrow>
          (case parse_int (py_strip raw) of
             None \<Rightarrow> absorb e (ValueError ''invalid literal for int() with base 10'') default_max_bytes
           | Some n \<Rightarrow> Inr (if 0 < n then n else default_max_bytes)))"

definition resolve_bus_path :: "bus \<Rightarrow> ledger_fs \<Rightarrow> path result" where
  "resolve_bus_path b fs =
     (let e = fb_env b; v = getenv e ''AGI_V8_FALSIFIER_BUS_PATH'' [];
          s = getenv e ''AGI_V8_STATE_DIR'' []; t = getenv e ''AGI_STATE_DIR'' [] in
      if v \<noteq> [] then sink_path e (fb_host b) fs v ''falsifier bus''
      else Inr ((if s \<noteq> [] then s else if t \<noteq> [] then t else fb_home b) @ ''/bus/falsifier_events.jsonl''))"

text \<open>The ledger of a call: the path it names, or the resolved one.\<close>

definition bus_file :: "bus \<Rightarrow> path option \<Rightarrow> ledger_fs \<Rightarrow> path result" where
  "bus_file b given fs = (case given of Some p \<Rightarrow> Inr p | None \<Rightarrow> resolve_bus_path b fs)"

section \<open>Events\<close>

record falsifier_event =
  fe_source :: pyv
  fe_producer :: pyv
  fe_prediction :: pyv
  fe_outcome :: pyv
  fe_is_wrong :: pyv
  fe_severity :: pyv
  fe_schema_version :: pyv
  fe_ts :: pyv
  fe_event_id :: pyv
  fe_control_effect :: pyv
  fe_artifact_path :: pyv
  fe_observation_only :: pyv
  fe_non_executable :: pyv
  fe_tags :: pyv

datatype bus_event = Event falsifier_event | Plain dict | Other

definition event_fields :: "falsifier_event \<Rightarrow> dict" where
  "event_fields v =
     [(''source'', fe_source v), (''producer'', fe_producer v), (''prediction'', fe_prediction v),
      (''outcome'', fe_outcome v), (''is_wrong'', fe_is_wrong v), (''severity'', fe_severity v),
      (''schema_version'', fe_schema_version v), (''ts'', fe_ts v), (''event_id'', fe_event_id v),
      (''control_effect'', fe_control_effect v), (''artifact_path'', fe_artifact_path v),
      (''observation_only'', fe_observation_only v), (''non_executable'', fe_non_executable v),
      (''tags'', fe_tags v)]"

fun as_event_dict :: "bus_event \<Rightarrow> dict result" where
  "as_event_dict (Event v) = Inr (event_fields v)"
| "as_event_dict (Plain d) = Inr d"
| "as_event_dict Other = Inl (TypeError ''event must be FalsifierEvent or dict'')"

definition blank_text :: "pyv \<Rightarrow> bool" where
  "blank_text v = (case v of VStr s \<Rightarrow> py_strip s = [] | _ \<Rightarrow> True)"

definition is_number :: "pyv \<Rightarrow> bool" where
  "is_number v = (case v of VInt _ \<Rightarrow> True | VFloat _ \<Rightarrow> True | _ \<Rightarrow> False)"

text \<open>Why an event must not be written.\<close>

definition event_fault :: "dict \<Rightarrow> string option" where
  "event_fault d =
     (if blank_text (dict_get d ''source'') then Some ''missing_or_empty: source''
      else if blank_text (dict_get d ''producer'') then Some ''missing_or_empty: producer''
      else if \<not> dict_has d ''prediction'' then Some ''missing: prediction''
      else if \<not> dict_has d ''outcome'' then Some ''missing: outcome''
      else if dict_get d ''is_wrong'' \<notin> {VBool True, VBool False} then Some ''is_wrong_not_bool''
      else if \<not> is_number (dict_get d ''severity'') then Some ''severity_not_number''
      else if get_or d ''observation_only'' (VBool True) \<noteq> VBool True
      then Some ''invariant: observation_only must be True''
      else if get_or d ''non_executable'' (VBool True) \<noteq> VBool True
      then Some ''invariant: non_executable must be True''
      else if dict_get d ''artifact_path'' \<noteq> VNone \<and> \<not> is_str (dict_get d ''artifact_path'')
      then Some ''artifact_path_not_str'' else None)"

definition validate_event :: "env \<Rightarrow> bus_event \<Rightarrow> string option result" where
  "validate_event e ev =
     (case as_event_dict ev of
        Inl x \<Rightarrow> absorb e x (Some ''type_error: event must be FalsifierEvent or dict'')
      | Inr d \<Rightarrow> Inr (event_fault d))"

definition clamp_severity :: "env \<Rightarrow> pyv \<Rightarrow> rat result" where
  "clamp_severity e v =
     (case py_float v of Inl x \<Rightarrow> absorb e x 0 | Inr s \<Rightarrow> Inr (max 0 (min 1 s)))"

section \<open>The id of an event\<close>

definition id_basis :: "dict \<Rightarrow> dict" where
  "id_basis d =
     [(''schema_version'', get_or d ''schema_version'' (VStr bus_schema)), (''source'', dict_get d ''source''),
      (''producer'', dict_get d ''producer''), (''ts'', dict_get d ''ts''), (''prediction'', dict_get d ''prediction''),
      (''outcome'', dict_get d ''outcome''), (''is_wrong'', dict_get d ''is_wrong'')]"

definition id_text_of :: "bus \<Rightarrow> dict \<Rightarrow> string" where
  "id_text_of b d = json_spaced (fb_fr b) (canon (VDict (id_basis d)))"

definition compute_event_id :: "bus \<Rightarrow> dict \<Rightarrow> string" where
  "compute_event_id b d = ''fe_'' @ take 16 (fb_sha b (id_text_of b d))"

definition hex_char :: "char \<Rightarrow> bool" where
  "hex_char c \<longleftrightarrow> is_digit c \<or> 97 \<le> char_code c \<and> char_code c \<le> 102"

definition hexes_after :: "string \<Rightarrow> nat \<Rightarrow> string \<Rightarrow> bool" where
  "hexes_after pre n s \<longleftrightarrow>
     prefix pre s \<and> length s = length pre + n \<and> list_all hex_char (drop (length pre) s)"

definition pnl_id :: "string \<Rightarrow> bool" where
  "pnl_id s \<longleftrightarrow>
     prefix ''fe_pnl_'' s \<and>
     (case split_on (CHR ''_'') (drop 7 s) of
        [t, d, h] \<Rightarrow> 1 \<le> length t \<and> length t \<le> 12 \<and> list_all alnum t \<and> length d = 8 \<and> list_all is_digit d \<and>
                    length h = 6 \<and> list_all is_digit h
      | _ \<Rightarrow> False)"

definition known_event_id :: "string \<Rightarrow> bool" where
  "known_event_id s \<longleftrightarrow>
     pnl_id s \<or> hexes_after ''fe_git_'' 12 s \<or> hexes_after ''fe_'' 16 s \<or> hexes_after ''fe_masked_'' 16 s"

definition sanitize_event_id :: "bus \<Rightarrow> pyv \<Rightarrow> string result" where
  "sanitize_event_id b v =
     (let raw = py_str (fb_fr b) v in
      bindR (fb_text b (VStr raw)) (\<lambda>masked. Inr
        (if masked = raw \<or> known_event_id raw then raw
         else ''fe_masked_'' @ take 16 (fb_sha b raw))))"

section \<open>The row of an event\<close>

fun jsonify_from :: "nat \<Rightarrow> pyv \<Rightarrow> pyv" where
  "jsonify_from n (VList vs) =
     (if 64 < n then VStr ''<MASKED:max_depth>'' else VList (map (jsonify_from (Suc n)) vs))"
| "jsonify_from n (VDict d) =
     (if 64 < n then VStr ''<MASKED:max_depth>'' else VDict (map (\<lambda>(k, v). (k, jsonify_from (Suc n) v)) d))"
| "jsonify_from n v = (if 64 < n then VStr ''<MASKED:max_depth>'' else v)"

text \<open>The normalised fields: schema, time, severity, both invariants and the id.\<close>

definition filled :: "bus \<Rightarrow> dict \<Rightarrow> dict result" where
  "filled b d0 =
     (let d1 = dict_set d0 ''schema_version'' (py_or (dict_get d0 ''schema_version'') (VStr bus_schema));
          d2 = (if is_number (dict_get d1 ''ts'') then d1 else dict_set d1 ''ts'' (VFloat (fb_now b))) in
      bindR (clamp_severity (fb_env b) (dict_get d2 ''severity'')) (\<lambda>s.
      let d3 = dict_set (dict_set (dict_set d2 ''severity'' (VFloat s)) ''observation_only'' (VBool True))
                 ''non_executable'' (VBool True) in
      bindR (sanitize_event_id b (py_or (dict_get d3 ''event_id'') (VStr (compute_event_id b d3)))) (\<lambda>i.
      Inr (dict_set d3 ''event_id'' (VStr i)))))"

definition bus_entry :: "bus \<Rightarrow> dict \<Rightarrow> dict result" where
  "bus_entry b d =
     bindR (fb_text b (dict_get d ''schema_version'')) (\<lambda>schema.
     bindR (py_float (dict_get d ''ts'')) (\<lambda>ts.
     bindR (fb_text b (get_or d ''source'' (VStr []))) (\<lambda>source.
     bindR (fb_text b (get_or d ''producer'' (VStr []))) (\<lambda>producer.
     bindR (py_float (dict_get d ''severity'')) (\<lambda>severity.
     bindR (fb_obj b (dict_get d ''prediction'')) (\<lambda>prediction.
     bindR (fb_obj b (dict_get d ''outcome'')) (\<lambda>outcome.
     bindR (fb_obj b (dict_get d ''control_effect'')) (\<lambda>effect.
     bindR (case dict_get d ''artifact_path'' of
              VStr a \<Rightarrow> bindR (fb_text b (VStr a)) (\<lambda>t. Inr (VStr t)) | _ \<Rightarrow> Inr VNone) (\<lambda>artifact.
     bindR (fb_obj b (py_or (dict_get d ''tags'') (VDict []))) (\<lambda>tags. Inr
       [(''schema_version'', VStr schema), (''event_id'', dict_get d ''event_id''), (''ts'', VFloat ts),
        (''source'', VStr source), (''producer'', VStr producer),
        (''is_wrong'', VBool (truthy (dict_get d ''is_wrong''))), (''severity'', VFloat severity),
        (''prediction'', jsonify_from 1 prediction), (''outcome'', jsonify_from 1 outcome),
        (''control_effect'', jsonify_from 1 effect), (''artifact_path'', artifact),
        (''observation_only'', VBool True), (''non_executable'', VBool True),
        (''tags'', jsonify_from 1 tags)]))))))))))"

definition truncate_repr :: "(rat \<Rightarrow> string) \<Rightarrow> pyv \<Rightarrow> int \<Rightarrow> string" where
  "truncate_repr fr v limit =
     (let s = (case v of VStr t \<Rightarrow> t | _ \<Rightarrow> json_spaced fr v); cap = nat (max 64 (limit div 4)) in
      if length s \<le> cap then s else take cap s @ ''...(+'' @ nat_text (length s - cap) @ '' more chars)'')"

definition cut_to_size :: "(rat \<Rightarrow> string) \<Rightarrow> int \<Rightarrow> dict \<Rightarrow> dict" where
  "cut_to_size fr limit entry =
     (if int (utf8_length (json_spaced fr (VDict entry))) \<le> limit then entry
      else dict_set (dict_set (dict_set (dict_set (dict_set entry
             ''prediction'' (VStr (truncate_repr fr (dict_get entry ''prediction'') limit)))
             ''outcome'' (VStr (truncate_repr fr (dict_get entry ''outcome'') limit)))
             ''control_effect'' VNone) ''tags'' (VDict [(''truncated'', VBool True)])) ''truncated'' (VBool True))"

definition bus_join_keys :: "bus \<Rightarrow> dict result" where
  "bus_join_keys b =
     (case join_keys (fb_env b) (fb_ctx b) None None of Inr ks \<Rightarrow> Inr ks | Inl x \<Rightarrow> absorb (fb_env b) x [])"

definition event_row :: "bus \<Rightarrow> dict \<Rightarrow> (string \<times> dict) result" where
  "event_row b d0 =
     bindR (filled b d0) (\<lambda>d.
     bindR (bus_entry b d) (\<lambda>entry.
     bindR (bus_max_bytes (fb_env b)) (\<lambda>limit.
     bindR (bus_join_keys b) (\<lambda>ks.
     Inr (py_str (fb_fr b) (dict_get d ''event_id''),
          fold (\<lambda>(k, v) row. dict_set row k v) ks (cut_to_size (fb_fr b) limit entry))))))"

section \<open>The one writer\<close>

text \<open>The id, the row and the file of an event; \<open>None\<close> where it is dropped.\<close>

definition bus_row :: "bus \<Rightarrow> path option \<Rightarrow> bus_event \<Rightarrow> ledger_fs \<Rightarrow> (string \<times> dict \<times> path) option result" where
  "bus_row b given ev fs =
     bindR (validate_event (fb_env b) ev) (\<lambda>fault.
     case fault of
       Some reason \<Rightarrow> bindR (fb_text b (VStr reason)) (\<lambda>_. Inr None)
     | None \<Rightarrow>
         bindR (as_event_dict ev) (\<lambda>d.
         bindR (event_row b d) (\<lambda>(i, row).
         bindR (bus_file b given fs) (\<lambda>p. Inr (Some (i, row, p))))))"

text \<open>\<open>None\<close>: nothing was acknowledged.\<close>

definition append_event ::
  "bus \<Rightarrow> wr \<Rightarrow> path option \<Rightarrow> bus_event \<Rightarrow> ledger_fs \<Rightarrow> ledger_fs \<times> string option result" where
  "append_event b w given ev fs =
     (let e = fb_env b; caught = (\<lambda>x. absorb e x None) in
      if \<not> bus_enabled e then (fs, Inr None)
      else case bus_row b given ev fs of
          Inl x \<Rightarrow> (fs, caught x)
        | Inr None \<Rightarrow> (fs, Inr None)
        | Inr (Some (i, row, p)) \<Rightarrow>
            (case atomic_append_jsonl e (fb_umask b) w 0 0 p (VDict row) fs of
               (fs', Inl x) \<Rightarrow> (fs', caught x)
             | (fs', Inr _) \<Rightarrow> (fs', Inr (Some i))))"

section \<open>The reader\<close>

record query =
  q_source :: "string option"
  q_wrong :: "bool option"
  q_producer :: "string option"
  q_since :: "rat option"
  q_after :: "string option"
  q_limit :: "nat option"

fun read_lines :: "env \<Rightarrow> jline list \<Rightarrow> pyv list result" where
  "read_lines e [] = Inr []"
| "read_lines e (Blank # ls) = read_lines e ls"
| "read_lines e (Row v # ls) = bindR (read_lines e ls) (\<lambda>vs. Inr (v # vs))"
| "read_lines e (Bad # ls) = bindR (absorb e (JSONDecodeError ''Extra data'') ()) (\<lambda>_. read_lines e ls)"

text \<open>The rows behind the first one with the id; \<open>None\<close>: there is none.\<close>

fun after_id :: "string \<Rightarrow> pyv list \<Rightarrow> pyv list option result" where
  "after_id i [] = Inr None"
| "after_id i (r # rs) =
     bindR (py_get r ''event_id'' VNone) (\<lambda>v. if v = VStr i then Inr (Some rs) else after_id i rs)"

definition kept_row :: "env \<Rightarrow> query \<Rightarrow> pyv \<Rightarrow> bool result" where
  "kept_row e q r =
     bindR (case q_source q of None \<Rightarrow> Inr True
            | Some s \<Rightarrow> bindR (py_get r ''source'' VNone) (\<lambda>v. Inr (v = VStr s))) (\<lambda>a.
     if \<not> a then Inr False else
     bindR (case q_producer q of None \<Rightarrow> Inr True
            | Some s \<Rightarrow> bindR (py_get r ''producer'' VNone) (\<lambda>v. Inr (v = VStr s))) (\<lambda>a.
     if \<not> a then Inr False else
     bindR (case q_wrong q of None \<Rightarrow> Inr True
            | Some w \<Rightarrow> bindR (py_get r ''is_wrong'' VNone) (\<lambda>v. Inr (truthy v = w))) (\<lambda>a.
     if \<not> a then Inr False else
     case q_since q of None \<Rightarrow> Inr True
     | Some t \<Rightarrow> bindR (py_get r ''ts'' (VFloat 0)) (\<lambda>v.
         case py_float v of Inr u \<Rightarrow> Inr (t < u) | Inl x \<Rightarrow> absorb e x False))))"

fun filter_rows :: "env \<Rightarrow> query \<Rightarrow> pyv list \<Rightarrow> pyv list result" where
  "filter_rows e q [] = Inr []"
| "filter_rows e q (r # rs) =
     bindR (kept_row e q r) (\<lambda>k. bindR (filter_rows e q rs) (\<lambda>out. Inr (if k then r # out else out)))"

definition read_events :: "bus \<Rightarrow> path option \<Rightarrow> query \<Rightarrow> ledger_fs \<Rightarrow> pyv list result" where
  "read_events b given q fs =
     (let e = fb_env b in
      bindR (bus_file b given fs) (\<lambda>p.
      case opened fs p of
        None \<Rightarrow> Inr []
      | Some (Reg _ c) \<Rightarrow>
          bindR (read_lines e (jlines c)) (\<lambda>rows.
          bindR (case q_after q of None \<Rightarrow> Inr rows
                 | Some i \<Rightarrow> bindR (after_id i rows) (\<lambda>hit. Inr (case hit of Some rs \<Rightarrow> rs | None \<Rightarrow> rows))) (\<lambda>rows.
          bindR (filter_rows e q rows) (\<lambda>out.
          Inr (case q_limit q of None \<Rightarrow> out | Some n \<Rightarrow> take n out))))
      | Some _ \<Rightarrow> absorb e (OSError ''Is a directory'') []))"

section \<open>What a write puts on the bus\<close>

lemma fold_set_other:
  "k \<notin> fst ` set ks \<Longrightarrow> dict_get (fold (\<lambda>(k, v) row. dict_set row k v) ks row) k = dict_get row k"
  by (induction ks arbitrary: row) auto

lemma join_keys_names: "bus_join_keys b = Inr ks \<Longrightarrow> fst ` set ks \<subseteq> {''cycle_id'', ''call_id''}"
  by (auto simp: bus_join_keys_def join_keys_def absorb_def split: if_splits sum.splits option.splits)

definition cut_fields :: "string list" where
  "cut_fields = [''prediction'', ''outcome'', ''control_effect'', ''tags'', ''truncated'', ''cycle_id'', ''call_id'']"

lemma cut_keeps: "k \<notin> set cut_fields \<Longrightarrow> dict_get (cut_to_size fr limit entry) k = dict_get entry k"
  by (auto simp: cut_to_size_def cut_fields_def)

text \<open>What every row of the bus says of itself.\<close>

definition inert :: "dict \<Rightarrow> bool" where
  "inert row \<longleftrightarrow>
     dict_get row ''observation_only'' = VBool True \<and> dict_get row ''non_executable'' = VBool True \<and>
     (\<exists>s. dict_get row ''severity'' = VFloat s \<and> 0 \<le> s \<and> s \<le> 1)"

text \<open>The texts of a row are the masked texts of its event.\<close>

definition row_for :: "bus \<Rightarrow> dict \<Rightarrow> string \<Rightarrow> dict \<Rightarrow> bool" where
  "row_for b d i row \<longleftrightarrow>
     dict_get row ''event_id'' = VStr i \<and>
     dict_get row ''is_wrong'' = VBool (truthy (dict_get d ''is_wrong'')) \<and>
     (\<exists>t. fb_text b (get_or d ''source'' (VStr [])) = Inr t \<and> dict_get row ''source'' = VStr t) \<and>
     (\<exists>t. fb_text b (get_or d ''producer'' (VStr [])) = Inr t \<and> dict_get row ''producer'' = VStr t) \<and>
     (dict_get row ''artifact_path'' = VNone \<or>
      (\<exists>a t. dict_get d ''artifact_path'' = VStr a \<and> fb_text b (VStr a) = Inr t \<and> dict_get row ''artifact_path'' = VStr t))"

lemma get_or_set [simp]: "get_or (dict_set d k v) k' w = (if k' = k then v else get_or d k' w)"
  by (simp add: get_or_def)

lemma clamp_bounds: "clamp_severity e v = Inr s \<Longrightarrow> 0 \<le> s \<and> s \<le> 1"
  by (auto simp: clamp_severity_def absorb_def split: sum.splits if_splits)

lemma filled_fields:
  assumes "filled b d0 = Inr d"
  shows "\<exists>s i. dict_get d ''severity'' = VFloat s \<and> 0 \<le> s \<and> s \<le> 1 \<and> dict_get d ''event_id'' = VStr i"
    and "k \<in> {''source'', ''producer'', ''is_wrong'', ''artifact_path''} \<Longrightarrow> map_of d k = map_of d0 k"
proof -
  obtain s i where s: "clamp_severity (fb_env b) (dict_get
        (let d1 = dict_set d0 ''schema_version'' (py_or (dict_get d0 ''schema_version'') (VStr bus_schema)) in
         if is_number (dict_get d1 ''ts'') then d1 else dict_set d1 ''ts'' (VFloat (fb_now b))) ''severity'') = Inr s"
      and d: "d = dict_set (dict_set (dict_set (dict_set
        (let d1 = dict_set d0 ''schema_version'' (py_or (dict_get d0 ''schema_version'') (VStr bus_schema)) in
         if is_number (dict_get d1 ''ts'') then d1 else dict_set d1 ''ts'' (VFloat (fb_now b)))
        ''severity'' (VFloat s)) ''observation_only'' (VBool True)) ''non_executable'' (VBool True)) ''event_id'' (VStr i)"
    using assms unfolding filled_def Let_def by (auto simp: split: sum.splits)
  show "\<exists>s i. dict_get d ''severity'' = VFloat s \<and> 0 \<le> s \<and> s \<le> 1 \<and> dict_get d ''event_id'' = VStr i"
    using clamp_bounds [OF s] unfolding d by simp
  show "map_of d k = map_of d0 k" if "k \<in> {''source'', ''producer'', ''is_wrong'', ''artifact_path''}"
    using that unfolding d by (auto simp: Let_def)
qed

lemma entry_fields:
  assumes "bus_entry b d = Inr entry" "dict_get d ''severity'' = VFloat s" "0 \<le> s" "s \<le> 1" "dict_get d ''event_id'' = VStr i"
  shows "inert entry" "row_for b d i entry"
  using assms
  by (auto simp: bus_entry_def inert_def row_for_def dict_get_def split: sum.splits pyv.splits)

lemma row_for_fields:
  assumes "row_for b d i entry" "\<And>k. k \<notin> set cut_fields \<Longrightarrow> dict_get row k = dict_get entry k"
    and "\<And>k. k \<in> {''source'', ''producer'', ''is_wrong'', ''artifact_path''} \<Longrightarrow> map_of d k = map_of d0 k"
  shows "row_for b d0 i row"
  using assms(1) assms(2) [of "''event_id''"] assms(2) [of "''is_wrong''"] assms(2) [of "''source''"]
    assms(2) [of "''producer''"] assms(2) [of "''artifact_path''"] assms(3) [of "''source''"] assms(3) [of "''producer''"]
    assms(3) [of "''is_wrong''"] assms(3) [of "''artifact_path''"]
  by (simp add: row_for_def cut_fields_def get_or_def dict_get_def)

lemma event_row_inert:
  assumes "event_row b d0 = Inr (i, row)"
  shows "inert row \<and> row_for b d0 i row"
proof -
  obtain d entry limit ks where s: "filled b d0 = Inr d" "bus_entry b d = Inr entry" "bus_join_keys b = Inr ks"
      and r: "i = py_str (fb_fr b) (dict_get d ''event_id'')"
        "row = fold (\<lambda>(k, v) row. dict_set row k v) ks (cut_to_size (fb_fr b) limit entry)"
    using assms by (auto simp: event_row_def)
  obtain sv i' where f: "dict_get d ''severity'' = VFloat sv" "0 \<le> sv" "sv \<le> 1" "dict_get d ''event_id'' = VStr i'"
    using filled_fields(1) [OF s(1)] by blast
  have i: "i = i'" using r(1) f(4) by simp
  have keep: "dict_get row k = dict_get entry k" if "k \<notin> set cut_fields" for k
    using that join_keys_names [OF s(3)] unfolding r(2) by (subst fold_set_other) (auto simp: cut_keeps cut_fields_def)
  have "inert row"
    using entry_fields(1) [OF s(2) f] keep by (simp add: inert_def cut_fields_def)
  moreover have "row_for b d0 i row"
    using row_for_fields [OF entry_fields(2) [OF s(2) f] keep filled_fields(2) [OF s(1)]] i by simp
  ultimately show ?thesis by simp
qed

text \<open>An event that does not claim to be active: both flags are \<open>True\<close> where they are given.\<close>

definition claims_inert :: "dict \<Rightarrow> bool" where
  "claims_inert d \<longleftrightarrow>
     (\<forall>v. map_of d ''observation_only'' = Some v \<longrightarrow> v = VBool True) \<and>
     (\<forall>v. map_of d ''non_executable'' = Some v \<longrightarrow> v = VBool True)"

lemma valid_claims_inert: "event_fault d = None \<Longrightarrow> claims_inert d"
  by (auto simp: event_fault_def claims_inert_def get_or_def split: if_splits)

lemma bus_write_effect:
  assumes "append_event b w given ev fs = (fs', res)" "fs' \<noteq> fs \<or> res = Inr (Some j)"
  shows "\<exists>d p i row. as_event_dict ev = Inr d \<and> event_fault d = None \<and> claims_inert d \<and> bus_enabled (fb_env b) \<and>
    bus_file b given fs = Inr p \<and> fs' = fst (atomic_append_jsonl (fb_env b) (fb_umask b) w 0 0 p (VDict row) fs) \<and>
    inert row \<and> row_for b d i row \<and> (res = Inr (Some j) \<longrightarrow> w = WrOk \<and> j = i)"
proof -
  have quiet: "absorb e x None \<noteq> Inr (Some j)" for e x
    by (simp add: absorb_def)
  have en: "bus_enabled (fb_env b)"
    using assms by (auto simp: append_event_def Let_def split: if_splits)
  obtain i row p where s: "bus_row b given ev fs = Inr (Some (i, row, p))"
    using assms quiet en by (cases "bus_row b given ev fs") (auto simp: append_event_def Let_def split: option.splits)
  define a where "a = atomic_append_jsonl (fb_env b) (fb_umask b) w 0 0 p (VDict row) fs"
  have f: "fs' = fst a" and acked: "res = Inr (Some j) \<Longrightarrow> j = i \<and> snd a = Inr ()"
    using assms(1) quiet en s unfolding append_event_def Let_def a_def [symmetric]
    by (auto simp: a_def [symmetric] split: sum.splits prod.splits)
  obtain d where d: "as_event_dict ev = Inr d" "event_fault d = None" "event_row b d = Inr (i, row)"
      "bus_file b given fs = Inr p"
    using s by (cases ev) (auto simp: bus_row_def validate_event_def absorb_def split: option.splits if_splits)
  have "snd a = Inr () \<Longrightarrow> w = WrOk" unfolding a_def
    by (cases w) (auto simp: atomic_append_eq append_jsonl_unlocked_def split: option.splits node.splits)
  then show ?thesis using d en f acked event_row_inert [OF d(3)] valid_claims_inert [OF d(2)] unfolding a_def by blast
qed

text \<open>C39: Nothing active gets on the bus. Whenever a producer's call changes the file system or is
  acknowledged, what it did is the one append of one row, at the resolved path, for an event that
  passed the validation and does not claim to be active: the row says of itself that it is observation only and not executable, its
  severity lies between zero and one, and its source, producer and artifact path are the masked
  texts of the event. The id handed back is the id in the row, and the write was complete.\<close>

theorem bus_write_is_observation:
  assumes "append_event b w given ev fs = (fs', res)" "fs' \<noteq> fs \<or> res = Inr (Some j)"
  shows "\<exists>d p i row. as_event_dict ev = Inr d \<and> event_fault d = None \<and> claims_inert d \<and> bus_enabled (fb_env b) \<and>
    bus_file b given fs = Inr p \<and> fs' = fst (atomic_append_jsonl (fb_env b) (fb_umask b) w 0 0 p (VDict row) fs) \<and>
    inert row \<and> row_for b d i row \<and> (res = Inr (Some j) \<longrightarrow> w = WrOk \<and> j = i)"
  using assms by (rule bus_write_effect)

section \<open>What a cursor sees\<close>

definition bus_rows :: "path \<Rightarrow> ledger_fs \<Rightarrow> pyv list" where
  "bus_rows p fs = (case fs p of Some (Reg _ c) \<Rightarrow> row_values (jlines c) | _ \<Rightarrow> [])"

text \<open>A ledger file as the store leaves it: a cut line is the last one and parses no more.\<close>

definition ledger_wf :: "path \<Rightarrow> ledger_fs \<Rightarrow> bool" where
  "ledger_wf p fs \<longleftrightarrow> (\<exists>m c. fs p = Some (Reg m c) \<and> (torn c \<longrightarrow> (\<exists>ls. jlines c = ls @ [Bad])))"

text \<open>The call of any producer, with any settings and any end of its write, on one ledger.\<close>

definition bus_publish :: "path \<Rightarrow> bus \<times> wr \<times> bus_event \<Rightarrow> ledger_fs \<Rightarrow> ledger_fs" where
  "bus_publish p s fs = (case s of (b, w, ev) \<Rightarrow> fst (append_event b w (Some p) ev fs))"

lemma append_grows:
  assumes "ledger_wf p fs"
  shows "ledger_wf p (fst (atomic_append_jsonl e u w k t p v fs)) \<and>
    (\<exists>l. bus_rows p (fst (atomic_append_jsonl e u w k t p v fs)) = bus_rows p fs @ l)"
  using assms
  by (cases w) (auto simp: ledger_wf_def bus_rows_def atomic_append_eq append_jsonl_unlocked_def add_line_def add_torn_def)

lemma bus_publish_grows:
  assumes "ledger_wf p fs"
  shows "ledger_wf p (bus_publish p s fs) \<and> (\<exists>l. bus_rows p (bus_publish p s fs) = bus_rows p fs @ l)"
proof -
  obtain b w ev where s: "s = (b, w, ev)" by (cases s)
  obtain fs' res where a: "append_event b w (Some p) ev fs = (fs', res)" by fastforce
  show ?thesis
  proof (cases "fs' = fs")
    case True
    then show ?thesis using assms a by (simp add: bus_publish_def s)
  next
    case False
    obtain row where "fs' = fst (atomic_append_jsonl (fb_env b) (fb_umask b) w 0 0 p (VDict row) fs)"
      using bus_write_effect [OF a] False by (auto simp: bus_file_def)
    then show ?thesis using append_grows [OF assms] a by (simp add: bus_publish_def s)
  qed
qed

lemma run_grows:
  "ledger_wf p fs \<Longrightarrow> ledger_wf p (fold (bus_publish p) steps fs) \<and>
    (\<exists>l. bus_rows p (fold (bus_publish p) steps fs) = bus_rows p fs @ l)"
proof (induction steps arbitrary: fs)
  case (Cons s steps)
  then show ?case using bus_publish_grows [OF Cons.prems, of s] Cons.IH [of "bus_publish p s fs"] by fastforce
qed simp

lemma read_lines_tolerant: "\<not> strict_enabled e \<Longrightarrow> read_lines e ls = Inr (row_values ls)"
  by (induction e ls rule: read_lines.induct) (simp_all add: absorb_def)

lemma after_id_found:
  "\<forall>r \<in> set pre. \<exists>d. r = VDict d \<and> dict_get d ''event_id'' \<noteq> VStr i \<Longrightarrow>
    dict_get row ''event_id'' = VStr i \<Longrightarrow> after_id i (pre @ VDict row # later) = Inr (Some later)"
  by (induction pre) (auto simp: dict_get_def)

definition all_events :: query where
  "all_events = \<lparr>q_source = None, q_wrong = None, q_producer = None, q_since = None, q_after = None, q_limit = None\<rparr>"

lemma all_events_sel [simp]:
  "q_after (all_events\<lparr>q_after := a\<rparr>) = a" "q_limit (all_events\<lparr>q_after := a\<rparr>) = None"
  by (simp_all add: all_events_def)

lemma no_filter: "filter_rows e (all_events\<lparr>q_after := a\<rparr>) rs = Inr rs"
  by (induction rs) (simp_all add: kept_row_def all_events_def)


section \<open>What an id stands for\<close>

text \<open>Two events with the same computed id have the same facts, unless the shortened hash collides.\<close>

lemma event_id_binds:
  assumes "float_repr (fb_fr b)" "compute_event_id b d = compute_event_id b d'"
    and "take 16 (fb_sha b (id_text_of b d)) = take 16 (fb_sha b (id_text_of b d')) \<Longrightarrow> id_text_of b d = id_text_of b d'"
  shows "canon (VDict (id_basis d)) = canon (VDict (id_basis d'))"
proof -
  have "id_text_of b d = id_text_of b d'"
    by (rule assms(3)) (use assms(2) in \<open>simp add: compute_event_id_def\<close>)
  then show ?thesis unfolding id_text_of_def json_spaced_inject [OF assms(1)] .
qed

text \<open>An id that a masker would touch is written as it is only in one of the shapes the producers make.\<close>

lemma written_id_is_masked_or_known:
  "sanitize_event_id b v = Inr i \<Longrightarrow>
    fb_text b (VStr i) = Inr i \<or> known_event_id i \<or> i = ''fe_masked_'' @ take 16 (fb_sha b (py_str (fb_fr b) v))"
  by (auto simp: sanitize_event_id_def Let_def split: if_splits)

section \<open>Where the bus differs from its documents\<close>

definition demo_bus :: bus where
  "demo_bus = \<lparr>fb_env = no_env, fb_host = \<lparr>h_cwd = [], h_home = (\<lambda>_. None), h_package = []\<rparr>, fb_home = ''/state'',
     fb_fr = (\<lambda>_. ''0.5''), fb_sha = id, fb_text = (\<lambda>v. Inr (py_str (\<lambda>_. ''0.5'') v)), fb_obj = Inr,
     fb_ctx = Inr (None, None), fb_now = 7, fb_umask = 0\<rparr>"

definition scalar_fs :: ledger_fs where
  "scalar_fs = [''/bus'' \<mapsto> Reg 384 \<lparr>jlines = [Row (VList [])], torn = False\<rparr>]"

text \<open>One line that is JSON but no object, and a reader with a filter or a cursor dies on it.\<close>

lemma non_object_row_raises:
  "read_events demo_bus (Some ''/bus'') (all_events\<lparr>q_after := Some i\<rparr>) scalar_fs = Inl (AttributeError ''get'')"
  "read_events demo_bus (Some ''/bus'') (all_events\<lparr>q_source := Some t\<rparr>) scalar_fs = Inl (AttributeError ''get'')"
  by (simp_all add: read_events_def bus_file_def scalar_fs_def kept_row_def all_events_def)

text \<open>The size guard cuts the payload only: a row is as long as its longest other text.\<close>

lemma join_length: "x \<in> set xs \<Longrightarrow> length x \<le> length (join sep xs)"
  by (induction sep xs rule: join.induct) auto

lemma raw_string_length: "length t \<le> length (raw_string t)"
proof -
  have "length t \<le> length (concat (map raw_char t))"
  proof (induction t)
    case (Cons c t)
    have "Suc 0 \<le> length (raw_char c)" by (simp add: Suc_le_eq)
    then show ?case using Cons by simp
  qed simp
  then show ?thesis by (simp add: raw_string_def)
qed

lemma spaced_item: "(k, VStr t) \<in> set d \<Longrightarrow> \<exists>x \<in> set (spaced_items fr d). length t \<le> length x"
proof (induction d)
  case (Cons e d)
  then show ?case using raw_string_length [of t] by (cases e) fastforce
qed simp

lemma utf8_length_ge: "length t \<le> utf8_length t"
  by (induction t) (auto simp: utf8_length_def)

lemma row_as_long_as_its_texts:
  assumes "(k, VStr t) \<in> set row"
  shows "length t \<le> utf8_length (json_spaced fr (VDict row))"
proof -
  obtain x where "x \<in> set (spaced_items fr row)" "length t \<le> length x" using spaced_item [OF assms] by blast
  then have "length t \<le> length (json_spaced fr (VDict row))"
    using join_length [of x "spaced_items fr row" "'', ''"] by simp
  then show ?thesis using utf8_length_ge le_trans by blast
qed

lemma dict_get_member: "dict_get d k \<noteq> VNone \<Longrightarrow> (k, dict_get d k) \<in> set d"
  by (auto simp: dict_get_def split: option.splits dest: map_of_SomeD)

lemma ceiling_not_kept:
  assumes "event_row b d = Inr (i, row)" "fb_text b (get_or d ''source'' (VStr [])) = Inr t"
  shows "length t \<le> utf8_length (json_spaced fr (VDict row))"
proof -
  have "dict_get row ''source'' = VStr t"
    using event_row_inert [OF assms(1)] assms(2) by (auto simp: row_for_def)
  then have "(''source'', VStr t) \<in> set row" using dict_get_member [of row "''source''"] by simp
  then show ?thesis by (rule row_as_long_as_its_texts)
qed

section \<open>A concrete run\<close>

definition demo_event :: dict where
  "demo_event = [(''source'', VStr ''test''), (''producer'', VStr ''unit''), (''prediction'', VInt 1),
     (''outcome'', VInt 2), (''is_wrong'', VBool True), (''severity'', VInt 3), (''event_id'', VStr ''e1'')]"

definition demo_row :: dict where
  "demo_row =
     [(''schema_version'', VStr bus_schema), (''event_id'', VStr ''e1''), (''ts'', VFloat 7), (''source'', VStr ''test''),
      (''producer'', VStr ''unit''), (''is_wrong'', VBool True), (''severity'', VFloat 1), (''prediction'', VInt 1),
      (''outcome'', VInt 2), (''control_effect'', VNone), (''artifact_path'', VNone),
      (''observation_only'', VBool True), (''non_executable'', VBool True), (''tags'', VDict [])]"

lemma demo_bus_row: "bus_row demo_bus (Some p) (Plain demo_event) fs = Inr (Some (''e1'', demo_row, p))"
proof -
  have "event_row demo_bus demo_event = Inr (''e1'', demo_row)" by code_simp
  then show ?thesis
    by (simp add: bus_row_def bus_file_def validate_event_def event_fault_def demo_event_def dict_get_def dict_has_def
        get_or_def blank_text_def is_number_def py_strip_def lstrip_where_def rstrip_where_def py_space_def char_code_def)
qed

lemma demo_published:
  "append_event demo_bus WrOk (Some ''/bus'') (Plain demo_event) (\<lambda>_. None) =
     ([''/bus'' \<mapsto> Reg 384 \<lparr>jlines = [Row (VDict demo_row)], torn = False\<rparr>], Inr (Some ''e1''))"
proof -
  have "bus_enabled (fb_env demo_bus)" by code_simp
  moreover have "create_mode (fb_env demo_bus) (fb_umask demo_bus) = 384" by code_simp
  ultimately show ?thesis
    by (simp add: append_event_def demo_bus_row atomic_append_eq append_jsonl_unlocked_def add_line_def)
qed

theorem bus_write_is_observation_witness: "\<exists>row. inert row \<and> row_for demo_bus demo_event ''e1'' row"
  using bus_write_is_observation [OF demo_published disjI2 [OF refl]] by auto


end
